(* ===== verification/Prelude.thy ===== *)
theory Prelude
  imports Main "HOL-Library.Multiset"
begin

text \<open>
  Shared base of the development: the lemma collections, the parts of Go's standard library
  that the modelled packages use (byte strings, slicing, searching, sorting with a comparison
  function), and the generic list lemmas the component theories rest on.

  A Go \<open>string\<close> is a sequence of bytes, so it is modelled by \<^typ>\<open>string\<close>: every
  \<^typ>\<open>char\<close> is one byte.  A slice expression whose bounds are out of range panics in Go; here
  \<open>go_slice\<close> returns \<^term>\<open>None\<close> in that case, so that a panic is a value of the model.
\<close>

named_theorems go_string_simps \<open>facts about the modelled string functions\<close>
named_theorems go_list_simps \<open>facts about the modelled slice functions\<close>

section \<open>Integers of the source\<close>

text \<open>Go's \<open>int\<close> values that occur here are offsets and lengths; they are modelled by
  \<^typ>\<open>int\<close> where the code computes with negative values.\<close>

definition go_max :: "int \<Rightarrow> int \<Rightarrow> int" where
  "go_max a b = (if a < b then b else a)"

lemma go_max_zero [simp]: "go_max 0 x = max 0 x"
  by (simp add: go_max_def max_def)

section \<open>Byte strings\<close>

definition has_prefix :: "'a list \<Rightarrow> 'a list \<Rightarrow> bool" where
  "has_prefix s p = (take (length p) s = p)"

definition has_suffix :: "'a list \<Rightarrow> 'a list \<Rightarrow> bool" where
  "has_suffix s p = (length p \<le> length s \<and> drop (length s - length p) s = p)"

definition trim_prefix :: "'a list \<Rightarrow> 'a list \<Rightarrow> 'a list" where
  "trim_prefix s p = (if has_prefix s p then drop (length p) s else s)"

definition trim_suffix :: "'a list \<Rightarrow> 'a list \<Rightarrow> 'a list" where
  "trim_suffix s p = (if has_suffix s p then take (length s - length p) s else s)"

text \<open>\<open>s[lo:hi]\<close>; \<^term>\<open>None\<close> is the run-time panic.\<close>

definition go_slice :: "'a list \<Rightarrow> int \<Rightarrow> int \<Rightarrow> 'a list option" where
  "go_slice s lo hi =
     (if 0 \<le> lo \<and> lo \<le> hi \<and> hi \<le> int (length s)
      then Some (take (nat hi - nat lo) (drop (nat lo) s)) else None)"

text \<open>\<open>strings.Index(s, sub)\<close>: the first offset at which \<open>sub\<close> occurs.\<close>

fun str_index :: "'a list \<Rightarrow> 'a list \<Rightarrow> nat option" where
  "str_index s sub =
     (if has_prefix s sub then Some 0
      else (case s of [] \<Rightarrow> None | _ # s' \<Rightarrow> map_option Suc (str_index s' sub)))"

declare str_index.simps [simp del]

text \<open>\<open>strings.Split(s, sep)\<close> for a one-byte separator.\<close>

fun str_split :: "'a \<Rightarrow> 'a list \<Rightarrow> 'a list list" where
  "str_split c [] = [[]]"
| "str_split c (x # xs) =
     (if x = c then [] # str_split c xs
      else (case str_split c xs of [] \<Rightarrow> [[x]] | p # ps \<Rightarrow> (x # p) # ps))"

text \<open>\<open>strings.Join(parts, sep)\<close>.\<close>

fun str_join :: "'a list \<Rightarrow> 'a list list \<Rightarrow> 'a list" where
  "str_join sep [] = []"
| "str_join sep [p] = p"
| "str_join sep (p # q # ps) = p @ sep @ str_join sep (q # ps)"

lemma has_prefix_iff [go_string_simps]: "has_prefix s p \<longleftrightarrow> (\<exists>r. s = p @ r)"
proof
  assume "has_prefix s p"
  then have "s = p @ drop (length p) s"
    by (metis append_take_drop_id has_prefix_def)
  then show "\<exists>r. s = p @ r" ..
qed (auto simp: has_prefix_def)

lemma has_prefix_append [simp]: "has_prefix (p @ r) p"
  by (simp add: has_prefix_def)

lemma has_prefix_Nil [simp]: "has_prefix s []"
  by (simp add: has_prefix_def)

lemma has_suffix_iff [go_string_simps]: "has_suffix s p \<longleftrightarrow> (\<exists>r. s = r @ p)"
proof
  assume "has_suffix s p"
  then have "s = take (length s - length p) s @ p"
    by (metis append_take_drop_id has_suffix_def)
  then show "\<exists>r. s = r @ p" ..
qed (auto simp: has_suffix_def)

lemma trim_prefix_append [simp]: "trim_prefix (p @ r) p = r"
  by (simp add: trim_prefix_def)

lemma trim_suffix_append [simp]: "trim_suffix (r @ p) p = r"
  by (simp add: trim_suffix_def has_suffix_def)

lemma length_trim_prefix: "length (trim_prefix s p) \<le> length s"
  by (simp add: trim_prefix_def)

lemma go_slice_Some_iff:
  "go_slice s lo hi = Some t \<longleftrightarrow>
     0 \<le> lo \<and> lo \<le> hi \<and> hi \<le> int (length s) \<and> t = take (nat hi - nat lo) (drop (nat lo) s)"
  by (auto simp: go_slice_def)

lemma go_slice_tail: "0 \<le> lo \<Longrightarrow> lo \<le> int (length s) \<Longrightarrow> go_slice s lo (int (length s)) = Some (drop (nat lo) s)"
  by (simp add: go_slice_def)

lemma str_index_Some_prefix: "str_index s sub = Some i \<Longrightarrow> i \<le> length s \<and> has_prefix (drop i s) sub"
proof (induction s arbitrary: i)
  case Nil
  then show ?case by (auto simp: str_index.simps split: if_splits)
next
  case (Cons x s)
  then show ?case by (cases i) (auto simp: str_index.simps [of "x # s"] split: if_splits)
qed

lemma str_index_Some_first: "str_index s sub = Some i \<Longrightarrow> j < i \<Longrightarrow> \<not> has_prefix (drop j s) sub"
proof (induction s arbitrary: i j)
  case Nil
  then show ?case by (auto simp: str_index.simps split: if_splits)
next
  case (Cons x s)
  then show ?case
    by (cases j) (auto simp: str_index.simps [of "x # s"] split: if_splits)
qed

lemma str_index_None_iff: "str_index s sub = None \<longleftrightarrow> (\<forall>i \<le> length s. \<not> has_prefix (drop i s) sub)"
proof (induction s)
  case Nil
  then show ?case by (simp add: str_index.simps)
next
  case (Cons x s)
  have "(\<forall>i \<le> length (x # s). \<not> has_prefix (drop i (x # s)) sub) \<longleftrightarrow>
        \<not> has_prefix (x # s) sub \<and> (\<forall>i \<le> length s. \<not> has_prefix (drop i s) sub)"
    by (auto simp: less_Suc_eq_le [symmetric] All_less_Suc2)
  with Cons show ?case by (simp add: str_index.simps [of "x # s"])
qed

lemma str_split_not_Nil [simp]: "str_split c s \<noteq> []"
  by (induction s) (auto split: list.splits)

lemma str_join_Cons: "ps \<noteq> [] \<Longrightarrow> str_join sep (p # ps) = p @ sep @ str_join sep ps"
  by (cases ps) auto

lemma str_join_split: "str_join [c] (str_split c s) = s"
proof (induction s)
  case (Cons x s)
  then show ?case
    by (cases "str_split c s"; cases "tl (str_split c s)") (auto simp: str_join_Cons)
qed simp

lemma str_split_no_sep: "p \<in> set (str_split c s) \<Longrightarrow> c \<notin> set p"
proof (induction s arbitrary: p)
  case (Cons x s)
  then show ?case by (auto split: list.splits if_splits)
qed simp

section \<open>Decimal integers\<close>

text \<open>The \<open>%d\<close> verb.\<close>

fun digits :: "nat \<Rightarrow> string" where
  "digits n = (if n < 10 then [char_of (n + 48)] else digits (n div 10) @ [char_of (n mod 10 + 48)])"

declare digits.simps [simp del]

definition go_itoa :: "int \<Rightarrow> string" where
  "go_itoa i = (if i < 0 then ''-'' @ digits (nat (- i)) else digits (nat i))"

section \<open>Splitting work into chunks\<close>

text \<open>The slices \<open>xs[w*chunkSize : min(w*chunkSize+chunkSize, len(xs))]\<close> that the parallel passes hand to their
  workers; empty ones are skipped.\<close>

definition worker_chunk :: "nat \<Rightarrow> 'a list \<Rightarrow> nat \<Rightarrow> 'a list list" where
  "worker_chunk chunkSize xs w =
     (let start = w * chunkSize; stop = min (start + chunkSize) (length xs)
      in if start < stop then [take (stop - start) (drop start xs)] else [])"

definition worker_chunks :: "nat \<Rightarrow> nat \<Rightarrow> 'a list \<Rightarrow> 'a list list" where
  "worker_chunks workers chunkSize xs = concat (map (worker_chunk chunkSize xs) [0..<workers])"

lemma concat_worker_chunk: "concat (worker_chunk chunkSize xs w) = take chunkSize (drop (w * chunkSize) xs)"
  by (auto simp: worker_chunk_def Let_def min_def)

lemma concat_worker_chunks_take:
  "concat (worker_chunks workers chunkSize xs) = take (workers * chunkSize) xs"
proof (induction workers)
  case (Suc n)
  then show ?case
    by (simp add: worker_chunks_def concat_worker_chunk take_add [symmetric] add.commute)
qed (simp add: worker_chunks_def)

text \<open>With the chunk size \<open>(n + workers - 1) / workers\<close> every element is in exactly one chunk, in
  order.\<close>

lemma concat_worker_chunks:
  assumes "0 < workers"
  shows "concat (worker_chunks workers ((length xs + workers - 1) div workers) xs) = xs"
proof -
  let ?q = "(length xs + workers - 1) div workers"
  have "length xs + workers - 1 < workers + ?q * workers"
    using assms by (rule dividend_less_div_times)
  then have "length xs \<le> workers * ?q" by (simp add: mult.commute)
  then show ?thesis by (simp add: concat_worker_chunks_take)
qed

section \<open>Sorting with a comparison function\<close>

text \<open>
  \<open>slices.SortStableFunc\<close> and \<open>slices.SortFunc\<close> order a slice by a three-way comparison.
  \<open>insert_cmp\<close>/\<open>sort_cmp\<close> is the stable insertion sort; \<open>slices.SortFunc\<close> uses insertion sort
  up to twelve elements and leaves the order of equal elements of longer slices open, so the
  theorems about its users rest on the locale \<open>func_sorter\<close> below, which promises a
  permutation that is ordered and nothing about equal elements.
\<close>

fun insert_cmp :: "('a \<Rightarrow> 'a \<Rightarrow> int) \<Rightarrow> 'a \<Rightarrow> 'a list \<Rightarrow> 'a list" where
  "insert_cmp cmp x [] = [x]"
| "insert_cmp cmp x (y # ys) = (if cmp x y \<le> 0 then x # y # ys else y # insert_cmp cmp x ys)"

definition sort_cmp :: "('a \<Rightarrow> 'a \<Rightarrow> int) \<Rightarrow> 'a list \<Rightarrow> 'a list" where
  "sort_cmp cmp xs = foldr (insert_cmp cmp) xs []"

definition cmp_total :: "('a \<Rightarrow> 'a \<Rightarrow> int) \<Rightarrow> bool" where
  "cmp_total cmp \<longleftrightarrow> (\<forall>x y. cmp x y \<le> 0 \<or> cmp y x \<le> 0) \<and>
     (\<forall>x y z. cmp x y \<le> 0 \<longrightarrow> cmp y z \<le> 0 \<longrightarrow> cmp x z \<le> 0)"

definition ordered_by :: "('a \<Rightarrow> 'a \<Rightarrow> int) \<Rightarrow> 'a list \<Rightarrow> bool" where
  "ordered_by cmp xs = sorted_wrt (\<lambda>x y. cmp x y \<le> 0) xs"

lemma mset_insert_cmp [simp]: "mset (insert_cmp cmp x xs) = add_mset x (mset xs)"
  by (induction xs) auto

lemma set_insert_cmp [simp]: "set (insert_cmp cmp x xs) = insert x (set xs)"
  by (metis mset_insert_cmp set_mset_add_mset_insert set_mset_mset)

lemma sort_cmp_Nil [simp]: "sort_cmp cmp [] = []"
  by (simp add: sort_cmp_def)

lemma sort_cmp_Cons [simp]: "sort_cmp cmp (x # xs) = insert_cmp cmp x (sort_cmp cmp xs)"
  by (simp add: sort_cmp_def)

lemma mset_sort_cmp [simp]: "mset (sort_cmp cmp xs) = mset xs"
  by (induction xs) auto

lemma set_sort_cmp [simp]: "set (sort_cmp cmp xs) = set xs"
  by (metis mset_sort_cmp set_mset_mset)

lemma ordered_insert_cmp:
  assumes "cmp_total cmp" and "ordered_by cmp xs"
  shows "ordered_by cmp (insert_cmp cmp x xs)"
  using assms(2)
proof (induction xs)
  case (Cons y ys)
  have tr: "cmp a b \<le> 0 \<Longrightarrow> cmp b c \<le> 0 \<Longrightarrow> cmp a c \<le> 0"
    and tot: "cmp a b \<le> 0 \<or> cmp b a \<le> 0" for a b c
    using assms(1) unfolding cmp_total_def by blast+
  show ?case
  proof (cases "cmp x y \<le> 0")
    case True
    with Cons.prems tr show ?thesis by (fastforce simp: ordered_by_def)
  next
    case False
    with tot have "cmp y x \<le> 0" by blast
    with False Cons tot show ?thesis by (auto simp: ordered_by_def)
  qed
qed (simp add: ordered_by_def)

lemma ordered_sort_cmp: "cmp_total cmp \<Longrightarrow> ordered_by cmp (sort_cmp cmp xs)"
proof (induction xs)
  case (Cons x xs)
  then show ?case by (simp add: ordered_insert_cmp)
qed (simp add: ordered_by_def)

lemma sort_cmp_ordered_id: "ordered_by cmp xs \<Longrightarrow> sort_cmp cmp xs = xs"
proof (induction xs)
  case (Cons x xs)
  then have "sort_cmp cmp xs = xs" by (simp add: ordered_by_def)
  with Cons.prems show ?case by (cases xs) (auto simp: ordered_by_def)
qed simp

text \<open>Stability: elements that compare equal keep their order.\<close>

lemma filter_insert_cmp:
  assumes "\<forall>y \<in> set ys. P x \<longrightarrow> P y \<longrightarrow> cmp x y \<le> 0"
  shows "filter P (insert_cmp cmp x ys) = filter P (x # ys)"
  using assms by (induction ys) auto

lemma sort_cmp_stable:
  assumes "\<forall>x \<in> set xs. \<forall>y \<in> set xs. P x \<longrightarrow> P y \<longrightarrow> cmp x y \<le> 0"
  shows "filter P (sort_cmp cmp xs) = filter P xs"
  using assms by (induction xs) (auto simp: filter_insert_cmp)

text \<open>The contract of a comparison sort that need not be stable.\<close>

locale func_sorter =
  fixes cmp :: "'a \<Rightarrow> 'a \<Rightarrow> int"
    and sorter :: "'a list \<Rightarrow> 'a list"
  assumes sorter_perm: "mset (sorter xs) = mset xs"
    and sorter_ordered: "ordered_by cmp (sorter xs)"
begin

lemma sorter_set [simp]: "set (sorter xs) = set xs"
  by (metis sorter_perm set_mset_mset)

lemma sorter_length [simp]: "length (sorter xs) = length xs"
  by (metis sorter_perm size_mset)

lemma sorter_Nil_iff [simp]: "sorter xs = [] \<longleftrightarrow> xs = []"
  by (metis length_0_conv sorter_length)

end

lemma func_sorter_sort_cmp: "cmp_total cmp \<Longrightarrow> func_sorter cmp (sort_cmp cmp)"
  by unfold_locales (simp_all add: ordered_sort_cmp)

section \<open>Lexicographic comparison of byte strings\<close>

text \<open>\<open>strings.Compare\<close> and \<open>sort.Strings\<close> compare bytes.\<close>

fun str_less :: "string \<Rightarrow> string \<Rightarrow> bool" where
  "str_less _ [] = False"
| "str_less [] (_ # _) = True"
| "str_less (x # xs) (y # ys) =
     (of_char x < (of_char y :: nat) \<or> (x = y \<and> str_less xs ys))"

definition str_compare :: "string \<Rightarrow> string \<Rightarrow> int" where
  "str_compare a b = (if str_less a b then - 1 else if a = b then 0 else 1)"

lemma str_less_irrefl [simp]: "\<not> str_less a a"
  by (induction a) auto

lemma str_less_trans: "str_less a b \<Longrightarrow> str_less b c \<Longrightarrow> str_less a c"
proof (induction a b arbitrary: c rule: str_less.induct)
  case (2 y ys)
  then show ?case by (cases c) auto
next
  case (3 x xs y ys)
  then show ?case by (cases c) auto
qed simp

lemma str_less_linear: "str_less a b \<or> a = b \<or> str_less b a"
proof (induction a b rule: str_less.induct)
  case (1 a)
  then show ?case by (cases a) auto
next
  case (3 x xs y ys)
  have "of_char x = (of_char y :: nat) \<Longrightarrow> x = y" by simp
  with 3 show ?case by (auto simp: linorder_neq_iff)
qed auto

lemma str_compare_le0: "str_compare a b \<le> 0 \<longleftrightarrow> \<not> str_less b a"
  using str_less_linear [of a b] str_less_trans [of a b a] by (auto simp: str_compare_def)

lemma str_compare_eq0 [simp]: "str_compare a b = 0 \<longleftrightarrow> a = b"
  by (auto simp: str_compare_def)

lemma str_compare_total: "cmp_total str_compare"
  unfolding cmp_total_def str_compare_le0
  using str_less_linear str_less_trans by (metis str_less_irrefl)

definition sort_strings :: "string list \<Rightarrow> string list" where
  "sort_strings = sort_cmp str_compare"

lemma mset_sort_strings [simp]: "mset (sort_strings xs) = mset xs"
  by (simp add: sort_strings_def)

lemma set_sort_strings [simp]: "set (sort_strings xs) = set xs"
  by (simp add: sort_strings_def)

lemma distinct_sort_strings [simp]: "distinct (sort_strings xs) = distinct xs"
  using mset_sort_strings [of xs] by (rule mset_eq_imp_distinct_iff)

lemma ordered_sort_strings: "ordered_by str_compare (sort_strings xs)"
  by (simp add: sort_strings_def ordered_sort_cmp str_compare_total)

interpretation string_sorter: func_sorter str_compare sort_strings
  by unfold_locales (simp_all add: ordered_sort_strings)

text \<open>Sorting has one result on distinct strings: the order of the input (a Go map's
  iteration order, for instance) does not matter.\<close>

lemma ordered_strings_unique:
  assumes "ordered_by str_compare xs" and "ordered_by str_compare ys" and "mset xs = mset ys"
  shows "xs = ys"
  using assms
proof (induction xs arbitrary: ys)
  case (Cons x xs)
  then obtain y ys' where ys: "ys = y # ys'" by (cases ys) auto
  have "x \<in> set ys" "y \<in> set (x # xs)"
    using Cons.prems(3) ys by (metis list.set_intros(1) mset_eq_setD)+
  then have "\<not> str_less x y" "\<not> str_less y x"
    using Cons.prems(1,2) ys by (auto simp: ordered_by_def str_compare_le0)
  then have "x = y" using str_less_linear by blast
  with Cons ys show ?case by (auto simp: ordered_by_def)
qed simp

lemma sort_strings_cong: "mset xs = mset ys \<Longrightarrow> sort_strings xs = sort_strings ys"
  by (rule ordered_strings_unique) (simp_all add: ordered_sort_strings)

section \<open>Sums as results\<close>

lemma map_sum_Inr_iff [simp]: "map_sum f g z = Inr y \<longleftrightarrow> (\<exists>x. z = Inr x \<and> y = g x)"
  by (cases z) auto

lemma map_sum_Inl_iff [simp]: "map_sum f g z = Inl y \<longleftrightarrow> (\<exists>x. z = Inl x \<and> y = f x)"
  by (cases z) auto

section \<open>Finite maps kept as association lists\<close>

text \<open>A Go map is modelled by an association list with distinct keys where the code iterates
  over it (always after sorting the keys); a lookup is \<^const>\<open>map_of\<close>.\<close>

fun al_update :: "'k \<Rightarrow> 'v \<Rightarrow> ('k \<times> 'v) list \<Rightarrow> ('k \<times> 'v) list" where
  "al_update k v [] = [(k, v)]"
| "al_update k v ((k', v') # m) = (if k = k' then (k, v) # m else (k', v') # al_update k v m)"

definition al_delete :: "'k \<Rightarrow> ('k \<times> 'v) list \<Rightarrow> ('k \<times> 'v) list" where
  "al_delete k m = filter (\<lambda>(k', _). k' \<noteq> k) m"

definition al_keys :: "('k \<times> 'v) list \<Rightarrow> 'k list" where
  "al_keys m = map fst m"

lemma map_of_al_update [simp]: "map_of (al_update k v m) = (map_of m)(k \<mapsto> v)"
  by (induction m) auto

lemma map_of_al_delete [simp]: "map_of (al_delete k m) = (map_of m)(k := None)"
  by (induction m) (auto simp: al_delete_def fun_eq_iff)

lemma keys_al_update: "set (al_keys (al_update k v m)) = insert k (set (al_keys m))"
proof (induction m)
  case (Cons p m)
  then show ?case by (cases p) (simp add: al_keys_def insert_commute)
qed (simp add: al_keys_def)

lemma distinct_al_update [simp]: "distinct (al_keys m) \<Longrightarrow> distinct (al_keys (al_update k v m))"
proof (induction m)
  case (Cons p m)
  then show ?case using keys_al_update [of k v m] by (cases p) (auto simp: al_keys_def)
qed (simp add: al_keys_def)

lemma distinct_al_delete [simp]: "distinct (al_keys m) \<Longrightarrow> distinct (al_keys (al_delete k m))"
  by (simp add: al_keys_def al_delete_def distinct_map_filter)

lemma al_keys_dom: "set (al_keys m) = dom (map_of m)"
  by (simp add: al_keys_def dom_map_of_conv_image_fst)

lemma al_delete_Nil_iff: "al_delete k m = [] \<longleftrightarrow> (\<forall>k' \<in> set (al_keys m). k' = k)"
  by (auto simp: al_delete_def al_keys_def filter_empty_conv)

end
