(* ===== verification/Diagnostic.thy ===== *)
theory Diagnostic
  imports Prelude
begin

text \<open>
  The diagnostic model of \<^verbatim>\<open>internal/rule/diagnostic.go\<close> and \<^verbatim>\<open>internal/rule/rule.go\<close>: edits,
  messages, diagnostics, severities, and the interface \<open>LintMessage\<close> through which the fixer
  reads a message's edits.

  \<open>core.TextRange\<close> (typescript-go) is represented by the two offsets its \<open>Pos()\<close> and
  \<open>End()\<close> return.  A source file is represented by what the linter reads of it: the identity
  of the object (Go compares the pointers), its name and its text.
\<close>

section \<open>Edits\<close>

datatype TextRange = TextRange (Pos: int) (End: int)

record RuleFix =
  fixText :: string
  fixRange :: TextRange

abbreviation fixPos :: "RuleFix \<Rightarrow> int" where
  "fixPos f \<equiv> Pos (fixRange f)"

abbreviation fixEnd :: "RuleFix \<Rightarrow> int" where
  "fixEnd f \<equiv> End (fixRange f)"

definition RuleFixReplaceRange :: "TextRange \<Rightarrow> string \<Rightarrow> RuleFix" where
  "RuleFixReplaceRange textRange text = \<lparr>fixText = text, fixRange = textRange\<rparr>"

definition RuleFixRemoveRange :: "TextRange \<Rightarrow> RuleFix" where
  "RuleFixRemoveRange textRange = RuleFixReplaceRange textRange []"

text \<open>The node-based constructors take the node's trimmed range (\<open>utils.TrimNodeTextRange\<close>
  reads the typescript-go scanner) or its full location.\<close>

definition RuleFixInsertBefore :: "TextRange \<Rightarrow> string \<Rightarrow> RuleFix" where
  "RuleFixInsertBefore trimmed text =
     \<lparr>fixText = text, fixRange = TextRange (Pos trimmed) (Pos trimmed)\<rparr>"

definition RuleFixInsertAfter :: "TextRange \<Rightarrow> string \<Rightarrow> RuleFix" where
  "RuleFixInsertAfter loc text = \<lparr>fixText = text, fixRange = TextRange (End loc) (End loc)\<rparr>"

definition RuleFixReplace :: "TextRange \<Rightarrow> string \<Rightarrow> RuleFix" where
  "RuleFixReplace trimmed text = RuleFixReplaceRange trimmed text"

definition RuleFixRemove :: "TextRange \<Rightarrow> RuleFix" where
  "RuleFixRemove trimmed = RuleFixReplace trimmed []"

section \<open>Messages, severities and diagnostics\<close>

record RuleMessage =
  msgId :: string
  msgDescription :: string
  msgData :: "string \<rightharpoonup> string"

record RuleSuggestion =
  sugMessage :: RuleMessage
  FixesArr :: "RuleFix list"

datatype DiagnosticSeverity = SeverityError | SeverityWarning | SeverityOff

fun severity_String :: "DiagnosticSeverity \<Rightarrow> string" where
  "severity_String SeverityError = ''error''"
| "severity_String SeverityWarning = ''warn''"
| "severity_String SeverityOff = ''off''"

fun severity_Int :: "DiagnosticSeverity \<Rightarrow> int" where
  "severity_Int SeverityError = 1"
| "severity_Int SeverityWarning = 2"
| "severity_Int SeverityOff = 0"

definition ParseSeverity :: "string \<Rightarrow> DiagnosticSeverity" where
  "ParseSeverity level =
     (if level = ''error'' then SeverityError
      else if level = ''warn'' \<or> level = ''warning'' then SeverityWarning
      else if level = ''off'' then SeverityOff
      else SeverityError)"

lemma ParseSeverity_String [simp]: "ParseSeverity (severity_String s) = s"
  by (cases s) (simp_all add: ParseSeverity_def)

datatype DiagnosticOrigin = DiagnosticOriginLint | DiagnosticOriginTypeScript

record SourceFile =
  sf_ptr :: nat
  sf_fileName :: string
  sf_text :: string

record RuleDiagnostic =
  diagRange :: TextRange
  diagRuleName :: string
  diagMessage :: RuleMessage
  FixesPtr :: "RuleFix list option"
  Suggestions :: "RuleSuggestion list option"
  diagSourceFile :: "SourceFile option"
  FilePath :: string
  diagSeverity :: DiagnosticSeverity
  diagOrigin :: DiagnosticOrigin
  PreFormatted :: bool

text \<open>\<open>RuleDiagnostic.Fixes\<close> and \<open>RuleSuggestion.Fixes\<close>.  \<open>set_diag_fixes\<close> is the effect of
  writing through the slice that \<open>Fixes()\<close> returns.\<close>

definition diag_Fixes :: "RuleDiagnostic \<Rightarrow> RuleFix list" where
  "diag_Fixes d = (case FixesPtr d of None \<Rightarrow> [] | Some fs \<Rightarrow> fs)"

definition set_diag_fixes :: "RuleDiagnostic \<Rightarrow> RuleFix list \<Rightarrow> RuleDiagnostic" where
  "set_diag_fixes d fs = d\<lparr>FixesPtr := Some fs\<rparr>"

definition sug_Fixes :: "RuleSuggestion \<Rightarrow> RuleFix list" where
  "sug_Fixes s = FixesArr s"

definition set_sug_fixes :: "RuleSuggestion \<Rightarrow> RuleFix list \<Rightarrow> RuleSuggestion" where
  "set_sug_fixes s fs = s\<lparr>FixesArr := fs\<rparr>"

lemma diag_Fixes_set [simp]: "diag_Fixes (set_diag_fixes d fs) = fs"
  by (simp add: diag_Fixes_def set_diag_fixes_def)

lemma sug_Fixes_set [simp]: "sug_Fixes (set_sug_fixes s fs) = fs"
  by (simp add: sug_Fixes_def set_sug_fixes_def)

lemma set_diag_fixes_frame [simp]:
  "FilePath (set_diag_fixes d fs) = FilePath d"
  "diagRange (set_diag_fixes d fs) = diagRange d"
  "diagRuleName (set_diag_fixes d fs) = diagRuleName d"
  "diagSourceFile (set_diag_fixes d fs) = diagSourceFile d"
  by (simp_all add: set_diag_fixes_def)

section \<open>The interface of a lint message\<close>

locale lint_message =
  fixes Fixes :: "'m \<Rightarrow> RuleFix list"
    and setFixes :: "'m \<Rightarrow> RuleFix list \<Rightarrow> 'm"
  assumes Fixes_setFixes: "Fixes (setFixes m fs) = fs"

interpretation diag_message: lint_message diag_Fixes set_diag_fixes
  by unfold_locales simp

interpretation sug_message: lint_message sug_Fixes set_sug_fixes
  by unfold_locales simp

end
