(* ===== verification/Fixer.thy ===== *)
theory Fixer
  imports Diagnostic
begin

text \<open>
  \<^verbatim>\<open>internal/linter/source_code_fixer.go\<close>: \<open>ApplyRuleFixes\<close>, the routine that applies the
  non-conflicting edits of a list of messages to one file.  The loop state is a record with the
  loop's variables; a Go slice expression that panics makes the result \<^term>\<open>None\<close>.

  The theory relates the one-pass builder to a reference that applies the accepted edits one at
  a time (\<open>apply_edits\<close>), shows which messages are accepted, and when the routine cannot panic.
\<close>

section \<open>The routine\<close>

text \<open>\<open>utils.BOM\<close>: U+FEFF in UTF-8.\<close>

definition BOM :: string where
  "BOM = [CHR 0xEF, CHR 0xBB, CHR 0xBF]"

definition cmp_fix :: "RuleFix \<Rightarrow> RuleFix \<Rightarrow> int" where
  "cmp_fix a b =
     (let start = fixPos a - fixPos b in if start = 0 then fixEnd a - fixEnd b else start)"

definition cmp_message :: "('m \<Rightarrow> RuleFix list) \<Rightarrow> 'm \<Rightarrow> 'm \<Rightarrow> int" where
  "cmp_message Fixes a b =
     (let aFixes = Fixes a; bFixes = Fixes b;
          start = fixPos (hd aFixes) - fixPos (hd bFixes)
      in if start = 0 then fixEnd (last aFixes) - fixEnd (last bFixes) else start)"

record 'm fixer_state =
  bom :: string
  fixed :: bool
  builder :: string
  lastFixEnd :: int
  lastWasInsertion :: bool
  unapplied :: "'m list"

definition is_insertion :: "RuleFix \<Rightarrow> bool" where
  "is_insertion f = (fixPos f = fixEnd f)"

definition isOverlapping :: "'m fixer_state \<Rightarrow> RuleFix list \<Rightarrow> bool" where
  "isOverlapping st fixes = (lastFixEnd st > fixPos (hd fixes))"

definition isAdjacentConflict :: "'m fixer_state \<Rightarrow> RuleFix list \<Rightarrow> bool" where
  "isAdjacentConflict st fixes =
     (fixed st \<and> lastFixEnd st = fixPos (hd fixes) \<and>
      (is_insertion (hd fixes) \<or> lastWasInsertion st))"

definition isInverted :: "RuleFix list \<Rightarrow> bool" where
  "isInverted fixes = list_ex (\<lambda>fix. fixPos fix > fixEnd fix) fixes"

definition rejects :: "'m fixer_state \<Rightarrow> RuleFix list \<Rightarrow> bool" where
  "rejects st fixes = (isOverlapping st fixes \<or> isAdjacentConflict st fixes \<or> isInverted fixes)"

definition kills_bom :: "RuleFix \<Rightarrow> bool" where
  "kills_bom fix =
     ((fixPos fix < 0 \<and> fixEnd fix \<ge> 0) \<or> (fixPos fix = 0 \<and> has_prefix (fixText fix) BOM))"

definition applyFix :: "string \<Rightarrow> 'm fixer_state \<Rightarrow> RuleFix \<Rightarrow> 'm fixer_state option" where
  "applyFix text st fix =
     (case go_slice text (go_max 0 (lastFixEnd st)) (go_max 0 (fixPos fix)) of
        None \<Rightarrow> None
      | Some piece \<Rightarrow>
          Some (st\<lparr>fixed := True,
                   lastWasInsertion := is_insertion fix,
                   bom := (if kills_bom fix then [] else bom st),
                   builder := builder st @ piece @ fixText fix,
                   lastFixEnd := fixEnd fix\<rparr>))"

fun applyFixes :: "string \<Rightarrow> 'm fixer_state \<Rightarrow> RuleFix list \<Rightarrow> 'm fixer_state option" where
  "applyFixes text st [] = Some st"
| "applyFixes text st (f # fs) =
     (case applyFix text st f of None \<Rightarrow> None | Some st' \<Rightarrow> applyFixes text st' fs)"

fun applyMessages ::
  "('m \<Rightarrow> RuleFix list) \<Rightarrow> string \<Rightarrow> 'm fixer_state \<Rightarrow> 'm list \<Rightarrow> 'm fixer_state option" where
  "applyMessages Fixes text st [] = Some st"
| "applyMessages Fixes text st (d # ds) =
     (if rejects st (Fixes d)
      then applyMessages Fixes text (st\<lparr>unapplied := unapplied st @ [d]\<rparr>) ds
      else (case applyFixes text st (Fixes d) of
              None \<Rightarrow> None
            | Some st' \<Rightarrow> applyMessages Fixes text st' ds))"

definition split_bom :: "string \<Rightarrow> string \<times> string" where
  "split_bom code = (if has_prefix code BOM then (BOM, drop (length BOM) code) else ([], code))"

definition initial_state :: "string \<Rightarrow> 'm list \<Rightarrow> 'm fixer_state" where
  "initial_state b unapp =
     \<lparr>bom = b, fixed = False, builder = [], lastFixEnd = - 1, lastWasInsertion = False,
      unapplied = unapp\<rparr>"

text \<open>\<open>sortFixes\<close> and \<open>sortMessages\<close> are the two calls of \<open>slices.SortFunc\<close>; the first sorts
  the slice a message hands out, so the message itself changes.\<close>

definition prepare ::
  "('m \<Rightarrow> RuleFix list) \<Rightarrow> ('m \<Rightarrow> RuleFix list \<Rightarrow> 'm) \<Rightarrow> (RuleFix list \<Rightarrow> RuleFix list) \<Rightarrow>
   ('m list \<Rightarrow> 'm list) \<Rightarrow> 'm list \<Rightarrow> 'm list" where
  "prepare Fixes setFixes sortFixes sortMessages diagnostics =
     sortMessages (map (\<lambda>d. setFixes d (sortFixes (Fixes d)))
                       (filter (\<lambda>d. Fixes d \<noteq> []) diagnostics))"

definition ApplyRuleFixes ::
  "('m \<Rightarrow> RuleFix list) \<Rightarrow> ('m \<Rightarrow> RuleFix list \<Rightarrow> 'm) \<Rightarrow> (RuleFix list \<Rightarrow> RuleFix list) \<Rightarrow>
   ('m list \<Rightarrow> 'm list) \<Rightarrow> string \<Rightarrow> 'm list \<Rightarrow> (string \<times> 'm list \<times> bool) option" where
  "ApplyRuleFixes Fixes setFixes sortFixes sortMessages code diagnostics =
     (let (b, text) = split_bom code;
          withFixes = prepare Fixes setFixes sortFixes sortMessages diagnostics;
          unapp = filter (\<lambda>d. Fixes d = []) diagnostics
      in case applyMessages Fixes text (initial_state b unapp) withFixes of
           None \<Rightarrow> None
         | Some st \<Rightarrow>
             (case go_slice text (go_max 0 (lastFixEnd st)) (int (length text)) of
                None \<Rightarrow> None
              | Some rest \<Rightarrow> Some (bom st @ builder st @ rest, unapplied st, fixed st)))"

text \<open>The two instances the program uses, with Go's insertion sort for the sorting calls.\<close>

definition apply_diag_fixes ::
  "string \<Rightarrow> RuleDiagnostic list \<Rightarrow> (string \<times> RuleDiagnostic list \<times> bool) option" where
  "apply_diag_fixes =
     ApplyRuleFixes diag_Fixes set_diag_fixes (sort_cmp cmp_fix) (sort_cmp (cmp_message diag_Fixes))"

definition apply_suggestion_fixes ::
  "string \<Rightarrow> RuleSuggestion list \<Rightarrow> (string \<times> RuleSuggestion list \<times> bool) option" where
  "apply_suggestion_fixes =
     ApplyRuleFixes sug_Fixes set_sug_fixes (sort_cmp cmp_fix) (sort_cmp (cmp_message sug_Fixes))"

section \<open>Reference semantics\<close>

text \<open>Offsets of an edit in the text; the byte order mark's \<open>-1\<close> is clipped to \<open>0\<close>.\<close>

definition lo :: "RuleFix \<Rightarrow> nat" where
  "lo f = nat (max 0 (fixPos f))"

definition hi :: "RuleFix \<Rightarrow> nat" where
  "hi f = nat (max 0 (fixEnd f))"

text \<open>Apply a list of edits to a text one at a time, the last one first, so that the offsets of
  the remaining edits still refer to the original text.\<close>

fun apply_edits :: "string \<Rightarrow> RuleFix list \<Rightarrow> string" where
  "apply_edits text [] = text"
| "apply_edits text (f # fs) =
     (let t = apply_edits text fs in take (lo f) t @ fixText f @ drop (hi f) t)"

text \<open>The messages the loop accepts and rejects, computed without the text: only the end and
  the kind of the previous edit matter.\<close>

definition advance :: "'m fixer_state \<Rightarrow> RuleFix list \<Rightarrow> 'm fixer_state" where
  "advance st fs = (if fs = [] then st else
     st\<lparr>fixed := True, lastWasInsertion := is_insertion (last fs), lastFixEnd := fixEnd (last fs)\<rparr>)"

fun accepted :: "('m \<Rightarrow> RuleFix list) \<Rightarrow> 'm fixer_state \<Rightarrow> 'm list \<Rightarrow> 'm list" where
  "accepted Fixes st [] = []"
| "accepted Fixes st (d # ds) =
     (if rejects st (Fixes d) then accepted Fixes st ds
      else d # accepted Fixes (advance st (Fixes d)) ds)"

fun rejected :: "('m \<Rightarrow> RuleFix list) \<Rightarrow> 'm fixer_state \<Rightarrow> 'm list \<Rightarrow> 'm list" where
  "rejected Fixes st [] = []"
| "rejected Fixes st (d # ds) =
     (if rejects st (Fixes d) then d # rejected Fixes st ds
      else rejected Fixes (advance st (Fixes d)) ds)"

definition selection :: "('m \<Rightarrow> RuleFix list) \<Rightarrow> 'm list \<Rightarrow> 'm list" where
  "selection Fixes withFixes = accepted Fixes (initial_state [] []) withFixes"

definition edits_of :: "('m \<Rightarrow> RuleFix list) \<Rightarrow> 'm list \<Rightarrow> RuleFix list" where
  "edits_of Fixes ds = concat (map Fixes ds)"

text \<open>Two edits that do not touch the same text.\<close>

definition disjoint_edits :: "RuleFix \<Rightarrow> RuleFix \<Rightarrow> bool" where
  "disjoint_edits f g = (fixEnd f \<le> fixPos g \<or> fixEnd g \<le> fixPos f)"

text \<open>The edits of one message are within the text and do not touch each other.\<close>

definition in_bounds :: "string \<Rightarrow> RuleFix \<Rightarrow> bool" where
  "in_bounds text f = (- 1 \<le> fixPos f \<and> fixEnd f \<le> int (length text))"

definition well_formed :: "('m \<Rightarrow> RuleFix list) \<Rightarrow> string \<Rightarrow> 'm \<Rightarrow> bool" where
  "well_formed Fixes text d \<longleftrightarrow>
     (\<forall>f \<in> set (Fixes d). in_bounds text f) \<and>
     (isInverted (Fixes d) \<or> sorted_wrt disjoint_edits (Fixes d))"

section \<open>The comparison functions are total orders\<close>

lemma cmp_fix_total: "cmp_total cmp_fix"
  by (auto simp: cmp_total_def cmp_fix_def Let_def)

lemma cmp_message_total: "cmp_total (cmp_message F)"
proof -
  have pairs: "cmp_total (\<lambda>a b. let start = f a - f b in if start = 0 then g a - g b else start)"
    for f g :: "'m \<Rightarrow> int"
    by (auto simp: cmp_total_def Let_def)
  show ?thesis
    using pairs [of "\<lambda>d. fixPos (hd (F d))" "\<lambda>d. fixEnd (last (F d))"]
    by (simp add: cmp_message_def [abs_def] Let_def)
qed

interpretation fix_sorter: func_sorter cmp_fix "sort_cmp cmp_fix"
  by (rule func_sorter_sort_cmp) (rule cmp_fix_total)

interpretation diag_sorter: func_sorter "cmp_message diag_Fixes" "sort_cmp (cmp_message diag_Fixes)"
  by (rule func_sorter_sort_cmp) (rule cmp_message_total)

section \<open>One message's edits\<close>

lemma applyFix_Some_iff:
  "applyFix text st f = Some st' \<longleftrightarrow>
     nat (max 0 (lastFixEnd st)) \<le> lo f \<and> lo f \<le> length text \<and>
     st' = st\<lparr>fixed := True, lastWasInsertion := is_insertion f,
              bom := (if kills_bom f then [] else bom st),
              builder := builder st @ take (lo f - nat (max 0 (lastFixEnd st)))
                           (drop (nat (max 0 (lastFixEnd st))) text) @ fixText f,
              lastFixEnd := fixEnd f\<rparr>"
  by (auto simp: applyFix_def go_slice_def lo_def split: if_splits)

lemma applyFixes_append:
  "applyFixes text st (fs @ gs) =
     (case applyFixes text st fs of None \<Rightarrow> None | Some st' \<Rightarrow> applyFixes text st' gs)"
  by (induction fs arbitrary: st) (auto split: option.splits)

lemma applyFix_frame:
  assumes "applyFix text st f = Some st'"
  shows "unapplied st' = unapplied st" "bom st' = (if kills_bom f then [] else bom st)"
    "fixed st'" "lastFixEnd st' = fixEnd f" "lastWasInsertion st' = is_insertion f"
  using assms by (simp_all add: applyFix_Some_iff)

lemma advance_Cons:
  "fixed st' \<Longrightarrow> lastFixEnd st' = fixEnd f \<Longrightarrow> lastWasInsertion st' = is_insertion f \<Longrightarrow>
   fixed (advance st' fs) = fixed (advance st (f # fs)) \<and>
   lastFixEnd (advance st' fs) = lastFixEnd (advance st (f # fs)) \<and>
   lastWasInsertion (advance st' fs) = lastWasInsertion (advance st (f # fs))"
  by (simp add: advance_def)

lemma applyFixes_frame_all:
  "applyFixes text st fs = Some st' \<Longrightarrow>
     unapplied st' = unapplied st \<and>
     bom st' = (if list_ex kills_bom fs then [] else bom st) \<and>
     fixed st' = fixed (advance st fs) \<and> lastFixEnd st' = lastFixEnd (advance st fs) \<and>
     lastWasInsertion st' = lastWasInsertion (advance st fs)"
proof (induction fs arbitrary: st)
  case Nil
  then show ?case by (simp add: advance_def)
next
  case (Cons f fs)
  then obtain st1 where st1: "applyFix text st f = Some st1"
    and rest: "applyFixes text st1 fs = Some st'" by (auto split: option.splits)
  from Cons.IH [OF rest] applyFix_frame [OF st1] advance_Cons [of st1 f fs st]
  show ?case by simp
qed

lemmas applyFixes_frame =
  applyFixes_frame_all [THEN conjunct1]
  applyFixes_frame_all [THEN conjunct2, THEN conjunct1]
  applyFixes_frame_all [THEN conjunct2, THEN conjunct2]

text \<open>The part of the loop state that decides about the next message.\<close>

definition ctl :: "'m fixer_state \<Rightarrow> bool \<times> int \<times> bool" where
  "ctl st = (fixed st, lastFixEnd st, lastWasInsertion st)"

lemma rejects_ctl: "ctl st = ctl st' \<Longrightarrow> rejects st fs = rejects st' fs"
  by (simp add: ctl_def rejects_def isOverlapping_def isAdjacentConflict_def)

lemma ctl_advance: "ctl st = ctl st' \<Longrightarrow> ctl (advance st fs) = ctl (advance st' fs)"
  by (simp add: ctl_def advance_def)

lemma ctl_applyFixes: "applyFixes text st fs = Some st' \<Longrightarrow> ctl st' = ctl (advance st fs)"
  by (simp add: ctl_def applyFixes_frame)

lemma accepted_ctl: "ctl st = ctl st' \<Longrightarrow> accepted F st ds = accepted F st' ds"
proof (induction ds arbitrary: st st')
  case (Cons d ds)
  then show ?case using rejects_ctl ctl_advance by (metis accepted.simps(2))
qed simp

lemma rejected_ctl: "ctl st = ctl st' \<Longrightarrow> rejected F st ds = rejected F st' ds"
proof (induction ds arbitrary: st st')
  case (Cons d ds)
  then show ?case using rejects_ctl ctl_advance by (metis rejected.simps(2))
qed simp

lemma accepted_rejected_mset: "mset (accepted F st ds) + mset (rejected F st ds) = mset ds"
  by (induction ds arbitrary: st) auto

lemma accepted_subset: "set (accepted F st ds) \<subseteq> set ds"
  by (induction ds arbitrary: st) auto

lemma accepted_not_inverted: "d \<in> set (accepted F st ds) \<Longrightarrow> \<not> isInverted (F d)"
  by (induction ds arbitrary: st) (auto simp: rejects_def split: if_splits)

section \<open>The loop over messages is a run over the accepted edits\<close>

lemma applyFixes_unapplied_update:
  "applyFixes text (st\<lparr>unapplied := u\<rparr>) fs = map_option (\<lambda>s. s\<lparr>unapplied := u\<rparr>) (applyFixes text st fs)"
proof (induction fs arbitrary: st)
  case (Cons f fs)
  have "applyFix text (st\<lparr>unapplied := u\<rparr>) f = map_option (\<lambda>s. s\<lparr>unapplied := u\<rparr>) (applyFix text st f)"
    by (auto simp: applyFix_def split: option.splits)
  with Cons.IH show ?case by (cases "applyFix text st f") simp_all
qed simp

lemma applyMessages_eq:
  "applyMessages F text st ds =
     map_option (\<lambda>s. s\<lparr>unapplied := unapplied st @ rejected F st ds\<rparr>)
       (applyFixes text st (edits_of F (accepted F st ds)))"
proof (induction ds arbitrary: st)
  case Nil
  then show ?case by (simp add: edits_of_def)
next
  case (Cons d ds)
  show ?case
  proof (cases "rejects st (F d)")
    case True
    let ?st' = "st\<lparr>unapplied := unapplied st @ [d]\<rparr>"
    have "ctl ?st' = ctl st" by (simp add: ctl_def)
    then have "accepted F ?st' ds = accepted F st ds" "rejected F ?st' ds = rejected F st ds"
      by (rule accepted_ctl, rule rejected_ctl)
    with True Cons.IH [of ?st'] show ?thesis
      by (cases "applyFixes text st (edits_of F (accepted F st ds))")
         (simp_all add: applyFixes_unapplied_update)
  next
    case False
    show ?thesis
    proof (cases "applyFixes text st (F d)")
      case None
      with False show ?thesis by (simp add: edits_of_def applyFixes_append)
    next
      case (Some st')
      then have "ctl st' = ctl (advance st (F d))" by (rule ctl_applyFixes)
      then have "accepted F st' ds = accepted F (advance st (F d)) ds"
        "rejected F st' ds = rejected F (advance st (F d)) ds"
        by (rule accepted_ctl, rule rejected_ctl)
      moreover from Some have "unapplied st' = unapplied st" by (rule applyFixes_frame)
      ultimately show ?thesis using False Some Cons.IH [of st']
        by (simp add: edits_of_def applyFixes_append)
    qed
  qed
qed

section \<open>The one-pass builder computes the reference\<close>

text \<open>\<open>chain l fs n\<close>: the edits lie one after another, from offset \<open>l\<close> up to \<open>n\<close>.\<close>

fun chain :: "nat \<Rightarrow> RuleFix list \<Rightarrow> nat \<Rightarrow> bool" where
  "chain l [] n = (l \<le> n)"
| "chain l (f # fs) n = (l \<le> lo f \<and> lo f \<le> hi f \<and> chain (hi f) fs n)"

lemma chain_le: "chain l fs n \<Longrightarrow> l \<le> n"
  by (induction fs arbitrary: l) force+

lemma apply_edits_take:
  "chain l fs (length text) \<Longrightarrow>
     take l (apply_edits text fs) = take l text \<and> l \<le> length (apply_edits text fs)"
proof (induction fs arbitrary: l)
  case (Cons f fs)
  let ?t = "apply_edits text fs"
  from Cons.prems have le: "l \<le> lo f" "lo f \<le> hi f" by auto
  from Cons.IH [of "hi f"] Cons.prems
  have t: "take (hi f) ?t = take (hi f) text" "hi f \<le> length ?t" by auto
  then have "take l ?t = take l text"
    using le by (metis le_trans min.absorb1 take_take)
  with le t show ?case by (simp add: Let_def)
qed simp

lemma applyFixes_chain:
  assumes "chain (nat (max 0 (lastFixEnd st))) fs (length text)"
  shows "\<exists>st'. applyFixes text st fs = Some st' \<and>
    nat (max 0 (lastFixEnd st')) \<le> length text \<and>
    builder st' @ drop (nat (max 0 (lastFixEnd st'))) text =
    builder st @ drop (nat (max 0 (lastFixEnd st))) (apply_edits text fs)"
  using assms
proof (induction fs arbitrary: st)
  case (Cons f fs)
  let ?l = "nat (max 0 (lastFixEnd st))" and ?t = "apply_edits text fs"
  from Cons.prems have le: "?l \<le> lo f" "lo f \<le> hi f" and c: "chain (hi f) fs (length text)"
    by auto
  from apply_edits_take [OF c]
  have t: "take (hi f) ?t = take (hi f) text" "hi f \<le> length ?t" by auto
  from chain_le [OF c] le have "lo f \<le> length text" by linarith
  with le obtain st1 where st1: "applyFix text st f = Some st1"
    and b1: "builder st1 = builder st @ take (lo f - ?l) (drop ?l text) @ fixText f"
    and l1: "lastFixEnd st1 = fixEnd f"
    by (simp add: applyFix_Some_iff)
  from l1 have hi1: "nat (max 0 (lastFixEnd st1)) = hi f" by (simp add: hi_def)
  with Cons.IH [of st1] c obtain st' where st': "applyFixes text st1 fs = Some st'"
    and n': "nat (max 0 (lastFixEnd st')) \<le> length text"
    and b': "builder st' @ drop (nat (max 0 (lastFixEnd st'))) text =
             builder st1 @ drop (hi f) ?t" by auto
  have "take (lo f) ?t = take (lo f) text"
    using t(1) le by (metis min.absorb1 take_take)
  then have "take (lo f - ?l) (drop ?l text) = drop ?l (take (lo f) ?t)"
    by (metis drop_take)
  then have "builder st1 @ drop (hi f) ?t = builder st @ drop ?l (apply_edits text (f # fs))"
    using b1 le t by (simp add: Let_def)
  with st1 st' b' n' show ?case by auto
qed simp

lemma chain_if_applyFixes:
  assumes "applyFixes text st fs = Some st'" and "\<not> isInverted fs"
    and "nat (max 0 (lastFixEnd st')) \<le> length text"
  shows "chain (nat (max 0 (lastFixEnd st))) fs (length text)"
  using assms
proof (induction fs arbitrary: st)
  case (Cons f fs)
  from Cons.prems(1) obtain st1 where st1: "applyFix text st f = Some st1"
    and rest: "applyFixes text st1 fs = Some st'" by (auto split: option.splits)
  from Cons.IH [OF rest] Cons.prems have "chain (nat (max 0 (lastFixEnd st1))) fs (length text)"
    by (auto simp: isInverted_def)
  moreover from st1 have "lastFixEnd st1 = fixEnd f" "nat (max 0 (lastFixEnd st)) \<le> lo f"
    by (simp_all add: applyFix_Some_iff)
  moreover have "lo f \<le> hi f" using Cons.prems(2) by (auto simp: isInverted_def lo_def hi_def)
  ultimately show ?case by (simp add: hi_def)
qed simp

lemma isInverted_edits_of: "isInverted (edits_of F ds) \<longleftrightarrow> (\<exists>d \<in> set ds. isInverted (F d))"
  by (auto simp: isInverted_def edits_of_def list_ex_iff)

lemma accepted_edits_not_inverted: "\<not> isInverted (edits_of F (accepted F st ds))"
  by (auto simp: isInverted_edits_of dest: accepted_not_inverted)

section \<open>Accepted edits are disjoint and in order\<close>

lemma chain_sorted:
  "chain l fs n \<Longrightarrow> sorted_wrt (\<lambda>f g. hi f \<le> lo g) fs \<and> (\<forall>f \<in> set fs. l \<le> lo f \<and> lo f \<le> hi f \<and> hi f \<le> n)"
proof (induction fs arbitrary: l)
  case (Cons f fs)
  then have "sorted_wrt (\<lambda>f g. hi f \<le> lo g) fs"
    and all: "\<forall>g \<in> set fs. hi f \<le> lo g \<and> lo g \<le> hi g \<and> hi g \<le> n"
    and f: "l \<le> lo f" "lo f \<le> hi f" "hi f \<le> n"
    using Cons.IH [of "hi f"] chain_le [of "hi f" fs n] by auto
  then show ?case by (auto intro: order_trans)
qed simp

text \<open>How two messages accepted one after the other relate: the second starts at or after the
  end of the first, and where they touch neither edit at the seam is an insertion.\<close>

definition seam_ok :: "RuleFix list \<Rightarrow> RuleFix list \<Rightarrow> bool" where
  "seam_ok fs gs \<longleftrightarrow> fixEnd (last fs) \<le> fixPos (hd gs) \<and>
     (fixEnd (last fs) = fixPos (hd gs) \<longrightarrow> \<not> is_insertion (last fs) \<and> \<not> is_insertion (hd gs))"

lemma accepted_hd:
  "ds' = accepted F st ds \<Longrightarrow> ds' \<noteq> [] \<Longrightarrow> \<not> rejects st (F (hd ds'))"
  by (induction ds arbitrary: st) (auto split: if_splits)

lemma accepted_seams:
  assumes "\<forall>d \<in> set ds. F d \<noteq> []"
  shows "successively (\<lambda>d e. seam_ok (F d) (F e)) (accepted F st ds)"
  using assms
proof (induction ds arbitrary: st)
  case (Cons d ds)
  show ?case
  proof (cases "rejects st (F d)")
    case True
    with Cons show ?thesis by simp
  next
    case False
    let ?st = "advance st (F d)" and ?rest = "accepted F (advance st (F d)) ds"
    have ne: "F d \<noteq> []" using Cons.prems by simp
    have "seam_ok (F d) (F (hd ?rest))" if "?rest \<noteq> []"
      using accepted_hd [OF refl that] ne
      by (auto simp: rejects_def isOverlapping_def isAdjacentConflict_def advance_def seam_ok_def)
    with False Cons show ?thesis by (auto simp: successively_Cons)
  qed
qed simp

section \<open>Symmetric relations do not depend on the order\<close>

lemma sorted_wrt_symmetric_perm:
  assumes sym: "\<And>x y. R x y \<Longrightarrow> R y x"
  shows "sorted_wrt R xs \<Longrightarrow> mset xs = mset ys \<Longrightarrow> sorted_wrt R ys"
proof (induction xs arbitrary: ys)
  case (Cons x xs)
  have "x \<in> set ys" using Cons.prems(2) by (metis list.set_intros(1) mset_eq_setD)
  then obtain us vs where ys: "ys = us @ x # vs" by (meson split_list)
  then have m: "mset xs = mset (us @ vs)" using Cons.prems(2) by simp
  then have sorted: "sorted_wrt R (us @ vs)" using Cons by simp
  have "\<forall>y \<in> set (us @ vs). R x y"
    using Cons.prems(1) m by (metis mset_eq_setD sorted_wrt.simps(2))
  then show ?case using sorted sym ys by (auto simp: sorted_wrt_append)
qed simp

lemma sorted_disjoint_chain:
  assumes "ordered_by cmp_fix fs" and "sorted_wrt disjoint_edits fs" and "\<not> isInverted fs"
  shows "sorted_wrt (\<lambda>f g. fixEnd f \<le> fixPos g) fs"
  using assms
proof (induction fs)
  case (Cons f fs)
  have "fixEnd f \<le> fixPos g" if "g \<in> set fs" for g
  proof -
    have "cmp_fix f g \<le> 0" "disjoint_edits f g" "fixPos f \<le> fixEnd f" "fixPos g \<le> fixEnd g"
      using Cons.prems that by (auto simp: ordered_by_def isInverted_def list_ex_iff not_less)
    then show ?thesis by (auto simp: cmp_fix_def disjoint_edits_def Let_def split: if_splits)
  qed
  with Cons show ?case by (auto simp: ordered_by_def isInverted_def)
qed simp

section \<open>The fixer over any message type and any sort\<close>

locale rule_fixer = lint_message Fixes setFixes
  + fix_order: func_sorter cmp_fix sortFixes
  + msg_order: func_sorter "cmp_message Fixes" sortMessages
  for Fixes :: "'m \<Rightarrow> RuleFix list"
    and setFixes :: "'m \<Rightarrow> RuleFix list \<Rightarrow> 'm"
    and sortFixes :: "RuleFix list \<Rightarrow> RuleFix list"
    and sortMessages :: "'m list \<Rightarrow> 'm list"
begin

text \<open>A message after the fixer has sorted its edits in place.\<close>

abbreviation resort :: "'m \<Rightarrow> 'm" where
  "resort d \<equiv> (if Fixes d = [] then d else setFixes d (sortFixes (Fixes d)))"

abbreviation ready :: "'m list \<Rightarrow> 'm list" where
  "ready ds \<equiv> prepare Fixes setFixes sortFixes sortMessages ds"

abbreviation run :: "string \<Rightarrow> 'm list \<Rightarrow> (string \<times> 'm list \<times> bool) option" where
  "run code ds \<equiv> ApplyRuleFixes Fixes setFixes sortFixes sortMessages code ds"

lemma ready_mset: "mset (ready ds) = mset (map resort (filter (\<lambda>d. Fixes d \<noteq> []) ds))"
  by (simp add: prepare_def msg_order.sorter_perm) (induction ds; simp)

lemma ready_Fixes: "d' \<in> set (ready ds) \<Longrightarrow> \<exists>d \<in> set ds. Fixes d \<noteq> [] \<and> Fixes d' = sortFixes (Fixes d)"
  by (auto simp: prepare_def Fixes_setFixes)

lemma ready_nonempty: "\<forall>d \<in> set (ready ds). Fixes d \<noteq> []"
  using ready_Fixes by fastforce

lemma ready_has: "d \<in> set ds \<Longrightarrow> Fixes d \<noteq> [] \<Longrightarrow> setFixes d (sortFixes (Fixes d)) \<in> set (ready ds)"
  by (auto simp: prepare_def)

lemma edits_selection_Nil: "edits_of Fixes (selection Fixes (ready ds)) = [] \<longleftrightarrow> selection Fixes (ready ds) = []"
proof -
  have "Fixes d \<noteq> []" if "d \<in> set (selection Fixes (ready ds))" for d
    using that ready_nonempty [of ds] accepted_subset [of Fixes "initial_state [] []" "ready ds"]
    unfolding selection_def by (meson subsetD)
  then show ?thesis by (cases "selection Fixes (ready ds)") (auto simp: edits_of_def)
qed

lemma isInverted_sort: "isInverted (sortFixes fs) = isInverted fs"
  by (simp add: isInverted_def list_ex_iff)

lemma run_eq:
  assumes "split_bom code = (b, text)"
  shows "run code ds =
    (let u = filter (\<lambda>d. Fixes d = []) ds; init = initial_state b u
     in case applyFixes text init (edits_of Fixes (selection Fixes (ready ds))) of
          None \<Rightarrow> None
        | Some st \<Rightarrow>
            if nat (max 0 (lastFixEnd st)) \<le> length text
            then Some (bom st @ builder st @ drop (nat (max 0 (lastFixEnd st))) text,
                       u @ rejected Fixes init (ready ds), fixed st)
            else None)"
proof -
  let ?init = "initial_state b (filter (\<lambda>d. Fixes d = []) ds) :: 'm fixer_state"
  have "ctl ?init = ctl (initial_state [] [] :: 'm fixer_state)"
    by (simp add: ctl_def initial_state_def)
  then have acc: "accepted Fixes ?init (ready ds) = selection Fixes (ready ds)"
    unfolding selection_def by (rule accepted_ctl)
  have slice: "go_slice text (go_max 0 l) (int (length text)) =
      (if nat (max 0 l) \<le> length text then Some (drop (nat (max 0 l)) text) else None)" for l
    by (auto simp: go_slice_def)
  have un: "unapplied ?init = filter (\<lambda>d. Fixes d = []) ds" by (simp add: initial_state_def)
  show ?thesis
    by (cases "applyFixes text ?init (edits_of Fixes (selection Fixes (ready ds)))")
       (simp_all add: ApplyRuleFixes_def assms applyMessages_eq acc slice un Let_def max_def
         del: go_max_zero)
qed

lemma run_Some:
  assumes "run code ds = Some (out, unapp, fx)" and "split_bom code = (b, text)"
  shows "out = (if list_ex kills_bom (edits_of Fixes (selection Fixes (ready ds))) then [] else b)
               @ apply_edits text (edits_of Fixes (selection Fixes (ready ds)))"
    and "chain 0 (edits_of Fixes (selection Fixes (ready ds))) (length text)"
    and "fx \<longleftrightarrow> selection Fixes (ready ds) \<noteq> []"
    and "mset unapp + mset (selection Fixes (ready ds)) = mset (map resort ds)"
proof -
  let ?u = "filter (\<lambda>d. Fixes d = []) ds" and ?sel = "selection Fixes (ready ds)"
  let ?init = "initial_state b ?u :: 'm fixer_state" and ?es = "edits_of Fixes (selection Fixes (ready ds))"
  from assms(1) obtain st1 where st1: "applyFixes text ?init ?es = Some st1"
    and bound: "nat (max 0 (lastFixEnd st1)) \<le> length text"
    and out: "out = bom st1 @ builder st1 @ drop (nat (max 0 (lastFixEnd st1))) text"
    and unapp: "unapp = ?u @ rejected Fixes ?init (ready ds)"
    and fx: "fx = fixed st1"
    unfolding run_eq [OF assms(2)] by (auto simp: Let_def split: option.splits if_splits)
  have inv: "\<not> isInverted ?es" by (simp add: selection_def accepted_edits_not_inverted)
  have init0: "nat (max 0 (lastFixEnd ?init)) = 0" by (simp add: initial_state_def)
  from chain_if_applyFixes [OF st1 inv bound]
  show c: "chain 0 ?es (length text)" by (simp add: init0)
  with applyFixes_chain [of ?init ?es "text"] st1
  have "builder st1 @ drop (nat (max 0 (lastFixEnd st1))) text = apply_edits text ?es"
    by (auto simp: init0) (simp add: initial_state_def)
  with out applyFixes_frame(2) [OF st1]
  show "out = (if list_ex kills_bom ?es then [] else b) @ apply_edits text ?es"
    by (simp add: initial_state_def)
  from fx applyFixes_frame(3) [OF st1] edits_selection_Nil [of ds]
  show "fx \<longleftrightarrow> ?sel \<noteq> []" by (auto simp: advance_def initial_state_def)
  have "ctl ?init = ctl (initial_state [] [] :: 'm fixer_state)"
    by (simp add: ctl_def initial_state_def)
  then have "accepted Fixes ?init (ready ds) = ?sel"
    unfolding selection_def by (rule accepted_ctl)
  then have "mset ?sel + mset (rejected Fixes ?init (ready ds)) = mset (ready ds)"
    using accepted_rejected_mset [of Fixes ?init "ready ds"] by simp
  moreover have "mset (map resort ds) = mset ?u + mset (map resort (filter (\<lambda>d. Fixes d \<noteq> []) ds))"
    by (induction ds) simp_all
  ultimately show "mset unapp + mset ?sel = mset (map resort ds)"
    by (simp add: unapp ready_mset add.commute)
qed

lemma run_applied_count:
  assumes "run code ds = Some (out, unapp, True)"
  shows "length unapp < length ds"
proof -
  obtain b src where b: "split_bom code = (b, src)" by fastforce
  let ?sel = "selection Fixes (ready ds)"
  have "size (mset unapp + mset ?sel) = length ds"
    unfolding run_Some(4) [OF assms b] by simp
  moreover have "?sel \<noteq> []" using run_Some(3) [OF assms b] by simp
  ultimately show ?thesis by (cases ?sel) auto
qed

lemma sorted_edits_chain:
  assumes "sorted_wrt (\<lambda>f g. fixEnd f \<le> fixPos g) fs" and "\<not> isInverted fs" and "fs \<noteq> []"
    and "\<forall>f \<in> set fs. in_bounds text f" and "l \<le> fixPos (hd fs)"
    and "chain (nat (max 0 (fixEnd (last fs)))) gs (length text)"
  shows "chain (nat (max 0 l)) (fs @ gs) (length text)"
  using assms
proof (induction fs arbitrary: l)
  case (Cons f fs)
  have f: "nat (max 0 l) \<le> lo f" "lo f \<le> hi f"
    using Cons.prems(2,5) by (auto simp: isInverted_def lo_def hi_def)
  have "chain (nat (max 0 (fixEnd f))) (fs @ gs) (length text)"
  proof (cases "fs = []")
    case True
    with Cons.prems(6) show ?thesis by simp
  next
    case False
    have "fixEnd f \<le> fixPos (hd fs)" using Cons.prems(1) False by simp
    with Cons.IH [of "fixEnd f"] Cons.prems False show ?thesis
      by (simp add: isInverted_def)
  qed
  with f show ?case by (simp add: hi_def)
qed simp

lemma accepted_chain:
  assumes "\<forall>d \<in> set ds. Fixes d \<noteq> [] \<and> well_formed Fixes text d \<and> ordered_by cmp_fix (Fixes d)"
    and "lastFixEnd st \<le> int (length text)"
  shows "chain (nat (max 0 (lastFixEnd st))) (edits_of Fixes (accepted Fixes st ds)) (length text)"
  using assms
proof (induction ds arbitrary: st)
  case Nil
  then show ?case by (simp add: edits_of_def)
next
  case (Cons d ds)
  show ?case
  proof (cases "rejects st (Fixes d)")
    case True
    with Cons show ?thesis by simp
  next
    case False
    let ?st = "advance st (Fixes d)"
    have d: "Fixes d \<noteq> []" "\<not> isInverted (Fixes d)" "\<forall>f \<in> set (Fixes d). in_bounds text f"
      "lastFixEnd st \<le> fixPos (hd (Fixes d))"
      using Cons.prems(1) False by (auto simp: rejects_def isOverlapping_def well_formed_def)
    moreover from this have sorted: "sorted_wrt (\<lambda>f g. fixEnd f \<le> fixPos g) (Fixes d)"
      using Cons.prems(1) sorted_disjoint_chain by (auto simp: well_formed_def)
    moreover have "lastFixEnd ?st = fixEnd (last (Fixes d))" using d(1) by (simp add: advance_def)
    moreover from this have "lastFixEnd ?st \<le> int (length text)"
      using d(1,3) by (simp add: in_bounds_def)
    then have "chain (nat (max 0 (lastFixEnd ?st))) (edits_of Fixes (accepted Fixes ?st ds)) (length text)"
      using Cons by simp
    ultimately show ?thesis using False sorted_edits_chain by (simp add: edits_of_def)
  qed
qed

lemma well_formed_ready:
  assumes "\<forall>d \<in> set ds. well_formed Fixes text d" and "d' \<in> set (ready ds)"
  shows "Fixes d' \<noteq> [] \<and> well_formed Fixes text d' \<and> ordered_by cmp_fix (Fixes d')"
proof -
  obtain d where d: "d \<in> set ds" "Fixes d \<noteq> []" "Fixes d' = sortFixes (Fixes d)"
    using ready_Fixes [OF assms(2)] by blast
  have "sorted_wrt disjoint_edits (sortFixes (Fixes d))" if "sorted_wrt disjoint_edits (Fixes d)"
    using that by (rule sorted_wrt_symmetric_perm [rotated])
      (auto simp: disjoint_edits_def fix_order.sorter_perm)
  with assms(1) d show ?thesis
    by (auto simp: well_formed_def isInverted_sort fix_order.sorter_ordered)
qed

lemma run_total:
  assumes "split_bom code = (b, text)" and "\<forall>d \<in> set ds. well_formed Fixes text d"
  shows "\<exists>r. run code ds = Some r"
proof -
  let ?init = "initial_state b (filter (\<lambda>d. Fixes d = []) ds) :: 'm fixer_state"
  have "chain (nat (max 0 (lastFixEnd (initial_state [] [] :: 'm fixer_state))))
      (edits_of Fixes (selection Fixes (ready ds))) (length text)"
    unfolding selection_def
    by (rule accepted_chain) (use well_formed_ready [OF assms(2)] in \<open>auto simp: initial_state_def\<close>)
  then have "chain (nat (max 0 (lastFixEnd ?init))) (edits_of Fixes (selection Fixes (ready ds))) (length text)"
    by (simp add: initial_state_def)
  from applyFixes_chain [OF this] show ?thesis
    unfolding run_eq [OF assms(1)] by (auto simp: Let_def)
qed

lemma accepted_progress:
  assumes "d \<in> set ds" and "\<not> isInverted (Fixes d)" and "- 1 \<le> fixPos (hd (Fixes d))"
    and "\<not> fixed st" and "lastFixEnd st = - 1"
  shows "accepted Fixes st ds \<noteq> []"
  using assms
  by (induction ds arbitrary: st)
     (auto simp: rejects_def isOverlapping_def isAdjacentConflict_def)

lemma run_progress:
  assumes "run code ds = Some (out, unapp, fx)"
    and "d \<in> set ds" and "Fixes d \<noteq> []" and "\<not> isInverted (Fixes d)"
    and "\<forall>f \<in> set (Fixes d). - 1 \<le> fixPos f"
  shows "fx"
proof -
  obtain b src where b: "split_bom code = (b, src)" by fastforce
  let ?d' = "setFixes d (sortFixes (Fixes d))"
  have "- 1 \<le> fixPos (hd (Fixes ?d'))"
    using assms(3,5) fix_order.sorter_set [of "Fixes d"]
    by (metis Fixes_setFixes fix_order.sorter_Nil_iff list.set_sel(1))
  then have "selection Fixes (ready ds) \<noteq> []"
    using accepted_progress [of ?d' "ready ds"] ready_has assms
    by (simp add: selection_def initial_state_def Fixes_setFixes isInverted_sort)
  with run_Some(3) [OF assms(1) b] show ?thesis by simp
qed

end

interpretation diag_fixer: rule_fixer diag_Fixes set_diag_fixes "sort_cmp cmp_fix" "sort_cmp (cmp_message diag_Fixes)"
  by unfold_locales

interpretation sug_fixer: rule_fixer sug_Fixes set_sug_fixes "sort_cmp cmp_fix" "sort_cmp (cmp_message sug_Fixes)"
  by (intro rule_fixer.intro func_sorter_sort_cmp cmp_fix_total cmp_message_total) unfold_locales

section \<open>Properties\<close>

text \<open>A diagnostic used by the witnesses: it carries the given edits for \<open>path\<close>.\<close>

definition sample_diag :: "string \<Rightarrow> RuleFix list \<Rightarrow> RuleDiagnostic" where
  "sample_diag path fs =
     \<lparr>diagRange = TextRange 0 0, diagRuleName = ''r'',
      diagMessage = \<lparr>msgId = [], msgDescription = [], msgData = Map.empty\<rparr>,
      FixesPtr = (if fs = [] then None else Some fs), Suggestions = None, diagSourceFile = None,
      FilePath = path, diagSeverity = SeverityError, diagOrigin = DiagnosticOriginLint,
      PreFormatted = False\<rparr>"

lemma diag_Fixes_sample [simp]: "diag_Fixes (sample_diag path fs) = fs"
  by (simp add: sample_diag_def diag_Fixes_def)

lemmas fixer_eval =
  ApplyRuleFixes_def split_bom_def prepare_def initial_state_def rejects_def isOverlapping_def
  isAdjacentConflict_def isInverted_def applyFix_def go_slice_def go_max_def BOM_def kills_bom_def
  is_insertion_def has_prefix_def cmp_fix_def cmp_message_def selection_def advance_def edits_of_def
  lo_def hi_def in_bounds_def disjoint_edits_def seam_ok_def Let_def

abbreviation sample_fixes :: "RuleDiagnostic list" where
  "sample_fixes \<equiv>
     [sample_diag ''a.ts'' [\<lparr>fixText = ''Y'', fixRange = TextRange 3 5\<rparr>],
      sample_diag ''a.ts'' [\<lparr>fixText = ''X'', fixRange = TextRange 1 2\<rparr>],
      sample_diag ''a.ts'' [\<lparr>fixText = ''Z'', fixRange = TextRange 4 5\<rparr>]]"

text \<open>
  Claim C1.  Whatever sorting routine \<open>slices.SortFunc\<close> is, the text \<open>ApplyRuleFixes\<close> returns is
  the result of applying the accepted edits to the text without its byte order mark one at a
  time, the last edit first; the mark is put back unless one of these edits removes it.
\<close>

theorem ApplyRuleFixes_equals_reference:
  assumes "func_sorter cmp_fix sortF" and "func_sorter (cmp_message diag_Fixes) sortM"
    and "ApplyRuleFixes diag_Fixes set_diag_fixes sortF sortM code ds = Some (out, unapp, fx)"
    and "split_bom code = (b, text)"
    and "es = edits_of diag_Fixes (selection diag_Fixes (prepare diag_Fixes set_diag_fixes sortF sortM ds))"
  shows "out = (if list_ex kills_bom es then [] else b) @ apply_edits text es"
  using rule_fixer.run_Some(1)
    [OF rule_fixer.intro [OF diag_message.lint_message_axioms assms(1,2)] assms(3,4)]
  by (simp add: assms(5))

theorem ApplyRuleFixes_equals_reference_witness:
  "list_ex kills_bom [\<lparr>fixText = ''X'', fixRange = TextRange 1 2\<rparr>, \<lparr>fixText = ''Y'', fixRange = TextRange 3 5\<rparr>] = False \<and>
   apply_diag_fixes (BOM @ ''abcdef'') sample_fixes =
     Some (BOM @ apply_edits ''abcdef''
             [\<lparr>fixText = ''X'', fixRange = TextRange 1 2\<rparr>, \<lparr>fixText = ''Y'', fixRange = TextRange 3 5\<rparr>],
           [sample_diag ''a.ts'' [\<lparr>fixText = ''Z'', fixRange = TextRange 4 5\<rparr>]], True)"
proof -
  let ?z = "sample_diag ''a.ts'' [\<lparr>fixText = ''Z'', fixRange = TextRange 4 5\<rparr>]"
  have run: "apply_diag_fixes (BOM @ ''abcdef'') sample_fixes = Some (BOM @ ''aXcYf'', [?z], True)"
    by (simp add: apply_diag_fixes_def fixer_eval set_diag_fixes_def sample_diag_def diag_Fixes_def)
  have sel: "edits_of diag_Fixes (selection diag_Fixes (prepare diag_Fixes set_diag_fixes
        (sort_cmp cmp_fix) (sort_cmp (cmp_message diag_Fixes)) sample_fixes)) =
      [\<lparr>fixText = ''X'', fixRange = TextRange 1 2\<rparr>, \<lparr>fixText = ''Y'', fixRange = TextRange 3 5\<rparr>]"
    by (simp add: fixer_eval set_diag_fixes_def sample_diag_def diag_Fixes_def)
  have "split_bom (BOM @ ''abcdef'') = (BOM, ''abcdef'')"
    by (simp add: split_bom_def)
  from ApplyRuleFixes_equals_reference [OF fix_sorter.func_sorter_axioms
      diag_sorter.func_sorter_axioms run [unfolded apply_diag_fixes_def] this sel [symmetric]] run
  show ?thesis by (simp add: kills_bom_def)
qed

text \<open>
  Claim C2.  The edits that are applied never overlap: they lie in the text in the order in which
  they are applied, each is a proper range, and where two accepted messages touch, neither
  edit at the seam is an insertion.
\<close>

theorem ApplyRuleFixes_edits_disjoint:
  assumes "func_sorter cmp_fix sortF" and "func_sorter (cmp_message diag_Fixes) sortM"
    and "ApplyRuleFixes diag_Fixes set_diag_fixes sortF sortM code ds = Some (out, unapp, fx)"
    and "split_bom code = (b, text)"
    and "sel = selection diag_Fixes (prepare diag_Fixes set_diag_fixes sortF sortM ds)"
  shows "sorted_wrt (\<lambda>f g. hi f \<le> lo g) (edits_of diag_Fixes sel) \<and>
    (\<forall>f \<in> set (edits_of diag_Fixes sel). lo f \<le> hi f \<and> hi f \<le> length text) \<and>
    successively (\<lambda>d e. seam_ok (diag_Fixes d) (diag_Fixes e)) sel"
proof -
  note fixer = rule_fixer.intro [OF diag_message.lint_message_axioms assms(1,2)]
  from accepted_seams [OF rule_fixer.ready_nonempty [OF fixer]]
  have "successively (\<lambda>d e. seam_ok (diag_Fixes d) (diag_Fixes e)) sel"
    by (simp add: assms(5) selection_def)
  with chain_sorted [OF rule_fixer.run_Some(2) [OF fixer assms(3,4)]] show ?thesis
    by (simp add: assms(5))
qed

theorem ApplyRuleFixes_edits_disjoint_witness:
  "apply_diag_fixes ''abcdef'' sample_fixes =
     Some (''aXcYf'', [sample_diag ''a.ts'' [\<lparr>fixText = ''Z'', fixRange = TextRange 4 5\<rparr>]], True) \<and>
   sorted_wrt (\<lambda>f g. hi f \<le> lo g) (edits_of diag_Fixes
     (selection diag_Fixes (prepare diag_Fixes set_diag_fixes (sort_cmp cmp_fix)
        (sort_cmp (cmp_message diag_Fixes)) sample_fixes)))"
proof -
  have run: "apply_diag_fixes ''abcdef'' sample_fixes =
     Some (''aXcYf'', [sample_diag ''a.ts'' [\<lparr>fixText = ''Z'', fixRange = TextRange 4 5\<rparr>]], True)"
    by (simp add: apply_diag_fixes_def fixer_eval set_diag_fixes_def sample_diag_def diag_Fixes_def)
  have "split_bom ''abcdef'' = ([], ''abcdef'')"
    by (simp add: split_bom_def has_prefix_def BOM_def)
  from ApplyRuleFixes_edits_disjoint [OF fix_sorter.func_sorter_axioms
      diag_sorter.func_sorter_axioms run [unfolded apply_diag_fixes_def] this refl] run
  show ?thesis by simp
qed

text \<open>
  No message is lost and none is invented: as multisets, the messages returned as
  unapplied and the accepted ones make up the messages given (with their edits sorted), and the
  flag returned says whether one was accepted; when it is false the file is returned unchanged.
\<close>

theorem ApplyRuleFixes_partition:
  assumes "func_sorter cmp_fix sortF" and "func_sorter (cmp_message diag_Fixes) sortM"
    and "ApplyRuleFixes diag_Fixes set_diag_fixes sortF sortM code ds = Some (out, unapp, fx)"
    and "sel = selection diag_Fixes (prepare diag_Fixes set_diag_fixes sortF sortM ds)"
  shows "mset unapp + mset sel =
      mset (map (\<lambda>d. if diag_Fixes d = [] then d else set_diag_fixes d (sortF (diag_Fixes d))) ds)
    \<and> fx = (sel \<noteq> []) \<and> (\<not> fx \<longrightarrow> out = code)"
proof -
  note fixer = rule_fixer.intro [OF diag_message.lint_message_axioms assms(1,2)]
  obtain b src where b: "split_bom code = (b, src)" by fastforce
  note res = rule_fixer.run_Some [OF fixer assms(3) b, folded assms(4)]
  have "out = code" if "\<not> fx"
  proof -
    from that res(3) have "sel = []" by simp
    with res(1) have "out = b @ src" by (simp add: edits_of_def)
    with b show ?thesis by (auto simp: split_bom_def go_string_simps split: if_splits)
  qed
  with res(3,4) show ?thesis by simp
qed

theorem ApplyRuleFixes_partition_witness:
  "apply_diag_fixes ''ab'' [sample_diag ''a.ts'' [\<lparr>fixText = ''X'', fixRange = TextRange 2 1\<rparr>]] =
     Some (''ab'', [sample_diag ''a.ts'' [\<lparr>fixText = ''X'', fixRange = TextRange 2 1\<rparr>]], False)
   \<and> selection diag_Fixes (prepare diag_Fixes set_diag_fixes (sort_cmp cmp_fix)
        (sort_cmp (cmp_message diag_Fixes))
        [sample_diag ''a.ts'' [\<lparr>fixText = ''X'', fixRange = TextRange 2 1\<rparr>]]) = []"
proof -
  have run: "apply_diag_fixes ''ab'' [sample_diag ''a.ts'' [\<lparr>fixText = ''X'', fixRange = TextRange 2 1\<rparr>]] =
     Some (''ab'', [sample_diag ''a.ts'' [\<lparr>fixText = ''X'', fixRange = TextRange 2 1\<rparr>]], False)"
    by (simp add: apply_diag_fixes_def fixer_eval set_diag_fixes_def sample_diag_def diag_Fixes_def)
  from ApplyRuleFixes_partition [OF fix_sorter.func_sorter_axioms diag_sorter.func_sorter_axioms
      run [unfolded apply_diag_fixes_def] refl] run
  show ?thesis by simp
qed

text \<open>
  Claim C3.  The routine does not panic when every edit lies within the text (the byte order
  mark's position \<open>-1\<close> included) and the edits of each single message do not touch each other;
  conflicts between different messages are resolved by the routine itself.
\<close>

theorem ApplyRuleFixes_no_panic:
  assumes "func_sorter cmp_fix sortF" and "func_sorter (cmp_message diag_Fixes) sortM"
    and "split_bom code = (b, text)" and "\<forall>d \<in> set ds. well_formed diag_Fixes text d"
  shows "\<exists>r. ApplyRuleFixes diag_Fixes set_diag_fixes sortF sortM code ds = Some r"
  using rule_fixer.run_total
    [OF rule_fixer.intro [OF diag_message.lint_message_axioms assms(1,2)] assms(3,4)] .

theorem ApplyRuleFixes_no_panic_witness:
  "\<exists>r. apply_diag_fixes ''abcdef'' sample_fixes = Some r"
  unfolding apply_diag_fixes_def
proof (rule ApplyRuleFixes_no_panic [OF fix_sorter.func_sorter_axioms diag_sorter.func_sorter_axioms])
  show "split_bom ''abcdef'' = ([], ''abcdef'')"
    by (simp add: split_bom_def has_prefix_def BOM_def)
  show "\<forall>d \<in> set sample_fixes. well_formed diag_Fixes ''abcdef'' d"
    by (simp add: well_formed_def in_bounds_def)
qed

text \<open>
  Progress: if one message has a proper edit list, the routine applies something, so a
  fix round over such diagnostics changes its file.
\<close>

theorem ApplyRuleFixes_progress:
  assumes "func_sorter cmp_fix sortF" and "func_sorter (cmp_message diag_Fixes) sortM"
    and "ApplyRuleFixes diag_Fixes set_diag_fixes sortF sortM code ds = Some (out, unapp, fx)"
    and "d \<in> set ds" and "diag_Fixes d \<noteq> []"
    and "\<forall>f \<in> set (diag_Fixes d). - 1 \<le> fixPos f \<and> fixPos f \<le> fixEnd f"
  shows "fx"
  by (rule rule_fixer.run_progress
      [OF rule_fixer.intro [OF diag_message.lint_message_axioms assms(1,2)] assms(3-5)])
     (use assms(6) in \<open>auto simp: isInverted_def list_ex_iff\<close>)

theorem ApplyRuleFixes_progress_witness:
  "\<exists>out unapp fx. apply_diag_fixes ''abcdef'' sample_fixes = Some (out, unapp, fx) \<and> fx"
proof -
  obtain out unapp fx where run: "apply_diag_fixes ''abcdef'' sample_fixes = Some (out, unapp, fx)"
    by (simp add: apply_diag_fixes_def fixer_eval set_diag_fixes_def sample_diag_def diag_Fixes_def)
  have "fx"
    by (rule ApplyRuleFixes_progress [OF fix_sorter.func_sorter_axioms diag_sorter.func_sorter_axioms
          run [unfolded apply_diag_fixes_def],
          where d = "sample_diag ''a.ts'' [\<lparr>fixText = ''Y'', fixRange = TextRange 3 5\<rparr>]"])
       simp_all
  with run show ?thesis by blast
qed

text \<open>
  Claim C4.  The check for conflicts looks at the first edit of a message only: a single message
  with two overlapping edits makes the slice expression of the inner loop panic.
\<close>

theorem ApplyRuleFixes_overlap_in_one_message_panics:
  assumes "diag_Fixes d = [f, g]" and "0 \<le> fixPos f" and "fixPos f \<le> fixPos g"
    and "fixPos g < fixEnd f" and "fixPos g \<le> fixEnd g"
    and "fixPos f = fixPos g \<longrightarrow> fixEnd f \<le> fixEnd g"
  shows "apply_diag_fixes code [d] = None"
proof -
  have sorted: "sort_cmp cmp_fix [f, g] = [f, g]"
    using assms(3,6) by (simp add: cmp_fix_def Let_def)
  have "\<not> rejects (initial_state b [] :: RuleDiagnostic fixer_state) [f, g]" for b
    using assms by (auto simp: rejects_def initial_state_def isOverlapping_def
        isAdjacentConflict_def isInverted_def)
  moreover have "applyFixes src st [f, g] = None" for src and st :: "RuleDiagnostic fixer_state"
    using assms(2-5) by (auto simp: applyFix_Some_iff lo_def split: option.splits)
  ultimately show ?thesis
    using assms(1) sorted
    by (simp add: apply_diag_fixes_def ApplyRuleFixes_def prepare_def split: prod.splits)
qed

theorem ApplyRuleFixes_overlap_in_one_message_panics_witness:
  "apply_diag_fixes ''abcdefgh''
     [sample_diag ''a.ts'' [\<lparr>fixText = ''X'', fixRange = TextRange 0 5\<rparr>, \<lparr>fixText = ''Y'', fixRange = TextRange 2 7\<rparr>]]
   = None"
  by (rule ApplyRuleFixes_overlap_in_one_message_panics
      [where f = "\<lparr>fixText = ''X'', fixRange = TextRange 0 5\<rparr>"
         and g = "\<lparr>fixText = ''Y'', fixRange = TextRange 2 7\<rparr>"]) simp_all

end
