(* ===== verification/Fix_Plan.thy ===== *)
theory Fix_Plan
  imports Fixer
begin

text \<open>
  \<^verbatim>\<open>internal/linter/pipeline_fix.go\<close>, \<^verbatim>\<open>pipeline_fix_text.go\<close> and \<^verbatim>\<open>diagnostic_order.go\<close>: grouping the
  diagnostics of one observation by file, freezing the text they refer to, turning them into
  whole-file changes, checking what a committer confirms, and the order of a report.

  Errors are values of \<open>lint_error\<close>; a Go function that returns \<open>(T, error)\<close> is modelled by
  \<open>lint_error + T\<close>, and one that may panic wraps this in \<^typ>\<open>'a option\<close>.  A Go map that is
  iterated is an association list with distinct keys.
\<close>

section \<open>Errors\<close>

text \<open>
  \<open>ErrCanceled\<close> and \<open>ErrDeadlineExceeded\<close> are the two errors of a context,
  \<open>Errorf msg args\<close> is \<open>errors.New\<close> or \<open>fmt.Errorf\<close> with the source's format string,
  \<open>Wrapf\<close> one with a \<open>%w\<close> operand, \<open>Errorfd\<close> one with integer operands; \<open>ErrPort\<close> is an
  error of code the pipeline only calls.
\<close>

datatype lint_error =
    ErrCanceled
  | ErrDeadlineExceeded
  | Errorf string "string list"
  | Errorfd string "int list"
  | Wrapf string "string list" lint_error
  | ErrPort string
  | ErrJoin "lint_error list"

text \<open>\<open>errors.Join\<close> drops \<open>nil\<close> values and is \<open>nil\<close> when nothing is left.\<close>

fun drop_nil :: "'a option list \<Rightarrow> 'a list" where
  "drop_nil [] = []"
| "drop_nil (None # es) = drop_nil es"
| "drop_nil (Some e # es) = e # drop_nil es"

definition errors_Join :: "lint_error option list \<Rightarrow> lint_error option" where
  "errors_Join es = (case drop_nil es of [] \<Rightarrow> None | xs \<Rightarrow> Some (ErrJoin xs))"

text \<open>\<open>errors.Is(err, target)\<close> looks through wrapped and joined errors; the targets are the
  errors of a context.\<close>

fun errors_Is :: "lint_error \<Rightarrow> lint_error \<Rightarrow> bool" where
  "errors_Is (Wrapf _ _ e) target = errors_Is e target"
| "errors_Is (ErrJoin es) target = list_ex (\<lambda>e. errors_Is e target) es"
| "errors_Is e target = (e = target)"

definition joinContextError :: "lint_error option \<Rightarrow> lint_error option \<Rightarrow> lint_error option" where
  "joinContextError err contextErr =
     (case contextErr of
        None \<Rightarrow> err
      | Some c \<Rightarrow> if (case err of None \<Rightarrow> False | Some e \<Rightarrow> errors_Is e c) then err
                  else errors_Join [err, Some c])"

lemma errors_Join_None_iff [simp]: "errors_Join es = None \<longleftrightarrow> (\<forall>e \<in> set es. e = None)"
proof -
  have "drop_nil es = [] \<longleftrightarrow> (\<forall>e \<in> set es. e = None)"
    by (induction es rule: drop_nil.induct) auto
  then show ?thesis by (auto simp: errors_Join_def split: list.splits)
qed

lemma joinContextError_None_iff [simp]:
  "joinContextError err contextErr = None \<longleftrightarrow> err = None \<and> contextErr = None"
  by (auto simp: joinContextError_def errors_Join_def split: option.splits)

lemma joinContextError_live [simp]: "joinContextError err None = err"
  by (simp add: joinContextError_def)

section \<open>Planning\<close>

record FileChange =
  chPath :: string
  chBefore :: string
  chAfter :: string
  chApplied :: int

type_synonym fixTextSnapshot = "string \<rightharpoonup> string"

definition cloneDiagnosticFixes :: "RuleDiagnostic \<Rightarrow> RuleDiagnostic" where
  "cloneDiagnosticFixes d =
     (case FixesPtr d of None \<Rightarrow> d | Some fs \<Rightarrow> d\<lparr>FixesPtr := Some ([] @ fs)\<rparr>)"

lemma cloneDiagnosticFixes_id [simp]: "cloneDiagnosticFixes d = d"
  by (cases d) (simp add: cloneDiagnosticFixes_def split: option.splits)

text \<open>The first loop of \<open>planFixes\<close>: group the diagnostics that carry edits by path.\<close>

fun group_fixes ::
  "(string \<times> RuleDiagnostic list) list \<Rightarrow> RuleDiagnostic list \<Rightarrow>
   lint_error + (string \<times> RuleDiagnostic list) list" where
  "group_fixes byPath [] = Inr byPath"
| "group_fixes byPath (d # ds) =
     (if diag_Fixes d = [] then group_fixes byPath ds
      else if FilePath d = [] then Inl (Errorf ''linter pipeline: fix diagnostic path must not be empty'' [])
      else group_fixes
             (al_update (FilePath d)
                ((case map_of byPath (FilePath d) of None \<Rightarrow> [] | Some xs \<Rightarrow> xs) @ [cloneDiagnosticFixes d])
                byPath) ds)"

text \<open>The second loop, over the sorted paths.\<close>

fun plan_paths ::
  "(string \<times> RuleDiagnostic list) list \<Rightarrow> fixTextSnapshot \<Rightarrow> string list \<Rightarrow>
   (lint_error + FileChange list) option" where
  "plan_paths byPath texts [] = Some (Inr [])"
| "plan_paths byPath texts (path # paths) =
     (case texts path of
        None \<Rightarrow> Some (Inl (Errorf ''linter pipeline: fix target %q has no frozen text'' [path]))
      | Some before \<Rightarrow>
          (let ds = (case map_of byPath path of None \<Rightarrow> [] | Some xs \<Rightarrow> xs)
           in case apply_diag_fixes before ds of
                None \<Rightarrow> None
              | Some (after, unapp, changed) \<Rightarrow>
                  (case plan_paths byPath texts paths of
                     None \<Rightarrow> None
                   | Some (Inl e) \<Rightarrow> Some (Inl e)
                   | Some (Inr cs) \<Rightarrow>
                       Some (Inr ((if changed
                                   then [\<lparr>chPath = path, chBefore = before, chAfter = after,
                                          chApplied = int (length ds) - int (length unapp)\<rparr>]
                                   else []) @ cs)))))"

definition planFixes ::
  "RuleDiagnostic list \<Rightarrow> fixTextSnapshot \<Rightarrow> (lint_error + FileChange list) option" where
  "planFixes diagnostics texts =
     (case group_fixes [] diagnostics of
        Inl e \<Rightarrow> Some (Inl e)
      | Inr byPath \<Rightarrow> plan_paths byPath texts (sort_strings (al_keys byPath)))"

section \<open>Frozen text\<close>

text \<open>\<open>fixSourcesFromDiagnostics\<close>: pointer comparison of the source frames.\<close>

fun fix_sources ::
  "(string \<times> SourceFile) list \<Rightarrow> RuleDiagnostic list \<Rightarrow> lint_error + (string \<times> SourceFile) list" where
  "fix_sources sources [] = Inr sources"
| "fix_sources sources (d # ds) =
     (if diag_Fixes d = [] then fix_sources sources ds
      else if FilePath d = [] then Inl (Errorf ''linter pipeline: fix diagnostic path must not be empty'' [])
      else (case diagSourceFile d of
              None \<Rightarrow> Inl (Errorf ''linter pipeline: fix target %q has no source frame'' [FilePath d])
            | Some sf \<Rightarrow>
                if (case map_of sources (FilePath d) of
                      None \<Rightarrow> False | Some previous \<Rightarrow> sf_ptr previous \<noteq> sf_ptr sf)
                then Inl (Errorf ''linter pipeline: duplicate fix target %q'' [FilePath d])
                else fix_sources (al_update (FilePath d) sf sources) ds))"

definition fixSourcesFromDiagnostics ::
  "RuleDiagnostic list \<Rightarrow> lint_error + (string \<times> SourceFile) list" where
  "fixSourcesFromDiagnostics = fix_sources []"

fun fix_target_paths :: "string list \<Rightarrow> RuleDiagnostic list \<Rightarrow> lint_error + string list" where
  "fix_target_paths paths [] = Inr paths"
| "fix_target_paths paths (d # ds) =
     (if diag_Fixes d = [] then fix_target_paths paths ds
      else if FilePath d = [] then Inl (Errorf ''linter pipeline: fix diagnostic path must not be empty'' [])
      else fix_target_paths (if FilePath d \<in> set paths then paths else paths @ [FilePath d]) ds)"

definition fixTargetPaths :: "RuleDiagnostic list \<Rightarrow> lint_error + string list" where
  "fixTargetPaths = fix_target_paths []"

fun retain_texts :: "fixTextSnapshot \<Rightarrow> fixTextSnapshot \<Rightarrow> string list \<Rightarrow> lint_error + fixTextSnapshot" where
  "retain_texts texts result [] = Inr result"
| "retain_texts texts result (p # ps) =
     (case texts p of
        None \<Rightarrow> Inl (Errorf ''linter pipeline: fix target %q has no frozen text'' [p])
      | Some t \<Rightarrow> retain_texts texts (result(p \<mapsto> t)) ps)"

definition retainFixTextsForDiagnostics ::
  "fixTextSnapshot \<Rightarrow> RuleDiagnostic list \<Rightarrow> lint_error + fixTextSnapshot" where
  "retainFixTextsForDiagnostics texts diagnostics =
     (case fixTargetPaths diagnostics of
        Inl e \<Rightarrow> Inl e
      | Inr paths \<Rightarrow> if paths = [] then Inr Map.empty else retain_texts texts Map.empty paths)"

section \<open>What a committer confirms\<close>

record CommitResult =
  ConfirmedPaths :: "string list"

fun planned_paths :: "string list \<Rightarrow> FileChange list \<Rightarrow> lint_error + string list" where
  "planned_paths seen [] = Inr seen"
| "planned_paths seen (c # cs) =
     (if chPath c = [] then Inl (Errorf ''linter pipeline: final change path must not be empty'' [])
      else if chPath c \<in> set seen then Inl (Errorf ''linter pipeline: duplicate final change %q'' [chPath c])
      else planned_paths (seen @ [chPath c]) cs)"

fun confirm_paths :: "string list \<Rightarrow> string list \<Rightarrow> string list \<Rightarrow> string list \<times> lint_error list" where
  "confirm_paths planned confirmed [] = (confirmed, [])"
| "confirm_paths planned confirmed (p # ps) =
     (if p = [] then
        (let (c, es) = confirm_paths planned confirmed ps in (c, Errorf ''linter pipeline: confirmed path must not be empty'' [] # es))
      else if p \<in> set confirmed then
        (let (c, es) = confirm_paths planned confirmed ps in (c, Errorf ''linter pipeline: duplicate confirmed path %q'' [p] # es))
      else if p \<notin> set planned then
        (let (c, es) = confirm_paths planned confirmed ps in (c, Errorf ''linter pipeline: confirmed path %q was not a final change'' [p] # es))
      else confirm_paths planned (confirmed @ [p]) ps)"

definition validateCommitResult ::
  "FileChange list \<Rightarrow> CommitResult \<Rightarrow> lint_error option \<Rightarrow> string list \<times> lint_error option" where
  "validateCommitResult planned result commitErr =
     (case planned_paths [] planned of
        Inl e \<Rightarrow> ([], errors_Join [commitErr, Some e])
      | Inr plannedByPath \<Rightarrow>
          (let (confirmed, contractErrors) = confirm_paths plannedByPath [] (ConfirmedPaths result);
               contractErrors =
                 (if commitErr = None \<and> length confirmed \<noteq> length plannedByPath
                  then contractErrors @
                       [Errorfd ''linter pipeline: final committer confirmed %d of %d paths without an error''
                          [int (length confirmed), int (length plannedByPath)]]
                  else contractErrors);
               contractErrors =
                 (if commitErr \<noteq> None \<and> length confirmed = length plannedByPath
                  then contractErrors @ [Errorf ''linter pipeline: final committer returned an error after confirming the complete change set'' []]
                  else contractErrors)
           in (filter (\<lambda>p. p \<in> set confirmed) (map chPath planned),
               errors_Join (commitErr # map Some contractErrors))))"

section \<open>The order of a report\<close>

definition cmp_file_start :: "RuleDiagnostic \<Rightarrow> RuleDiagnostic \<Rightarrow> int" where
  "cmp_file_start a b =
     (let c = str_compare (FilePath a) (FilePath b)
      in if c \<noteq> 0 then c else sgn (Pos (diagRange a) - Pos (diagRange b)))"

definition StableSortDiagnosticsByFileAndStart :: "RuleDiagnostic list \<Rightarrow> RuleDiagnostic list" where
  "StableSortDiagnosticsByFileAndStart = sort_cmp cmp_file_start"

section \<open>Grouping\<close>

text \<open>The diagnostics with edits for one path, in emission order.\<close>

definition fixes_for :: "string \<Rightarrow> RuleDiagnostic list \<Rightarrow> RuleDiagnostic list" where
  "fixes_for p ds = filter (\<lambda>d. diag_Fixes d \<noteq> [] \<and> FilePath d = p) ds"

definition lookup_group :: "(string \<times> RuleDiagnostic list) list \<Rightarrow> string \<Rightarrow> RuleDiagnostic list" where
  "lookup_group m p = (case map_of m p of None \<Rightarrow> [] | Some xs \<Rightarrow> xs)"

lemma lookup_group_update [simp]:
  "lookup_group (al_update p v m) q = (if q = p then v else lookup_group m q)"
  by (simp add: lookup_group_def)

lemma fixes_for_Cons:
  "fixes_for p (d # ds) =
     (if diag_Fixes d \<noteq> [] \<and> FilePath d = p then d # fixes_for p ds else fixes_for p ds)"
  by (simp add: fixes_for_def)

lemma group_fixes_Inr:
  "group_fixes m ds = Inr m' \<Longrightarrow> distinct (al_keys m) \<Longrightarrow>
     distinct (al_keys m') \<and>
     (\<forall>p. lookup_group m' p = lookup_group m p @ fixes_for p ds) \<and>
     set (al_keys m') = set (al_keys m) \<union> {p. fixes_for p ds \<noteq> []} \<and>
     fixes_for [] ds = []"
proof (induction m ds rule: group_fixes.induct)
  case (1 m)
  then show ?case by (simp add: fixes_for_def)
next
  case (2 m d ds)
  show ?case
  proof (cases "diag_Fixes d = []")
    case True
    with 2 show ?thesis by (simp add: fixes_for_Cons)
  next
    case False
    with "2.prems" have ne: "FilePath d \<noteq> []" by (auto split: if_splits)
    let ?m = "al_update (FilePath d) (lookup_group m (FilePath d) @ [d]) m"
    from False ne "2.prems"(1) have run: "group_fixes ?m ds = Inr m'"
      by (simp add: lookup_group_def)
    have "distinct (al_keys ?m)" using "2.prems"(2) by simp
    with "2.IH"(2) [OF False ne] run
    have "distinct (al_keys m') \<and> (\<forall>p. lookup_group m' p = lookup_group ?m p @ fixes_for p ds) \<and>
      set (al_keys m') = set (al_keys ?m) \<union> {p. fixes_for p ds \<noteq> []} \<and> fixes_for [] ds = []"
      by (simp add: lookup_group_def)
    with False ne show ?thesis by (auto simp: fixes_for_Cons keys_al_update)
  qed
qed

lemma group_fixes_from_empty:
  assumes "group_fixes [] ds = Inr m"
  shows "distinct (al_keys m)" "lookup_group m p = fixes_for p ds"
    "set (al_keys m) = {p. fixes_for p ds \<noteq> []}" "fixes_for [] ds = []"
  using group_fixes_Inr [OF assms] by (auto simp: al_keys_def lookup_group_def)

lemma group_fixes_Inl:
  "group_fixes m ds = Inl e \<longleftrightarrow>
     fixes_for [] ds \<noteq> [] \<and> e = Errorf ''linter pipeline: fix diagnostic path must not be empty'' []"
  by (induction m ds rule: group_fixes.induct) (auto simp: fixes_for_Cons fixes_for_def)

lemma group_fixes_exists:
  "fixes_for [] ds = [] \<Longrightarrow> \<exists>m'. group_fixes m ds = Inr m'"
  using group_fixes_Inl [of m ds] by (cases "group_fixes m ds") auto

section \<open>Planning one change per file\<close>

text \<open>The change planned for one path, if any.\<close>

definition change_for :: "string \<Rightarrow> string \<Rightarrow> RuleDiagnostic list \<Rightarrow> FileChange option option" where
  "change_for path before ds =
     (case apply_diag_fixes before ds of
        None \<Rightarrow> None
      | Some (after, unapp, changed) \<Rightarrow>
          Some (if changed then Some \<lparr>chPath = path, chBefore = before, chAfter = after,
                  chApplied = int (length ds) - int (length unapp)\<rparr> else None))"

lemma plan_paths_Cons:
  "plan_paths m texts (p # ps) =
     (case texts p of
        None \<Rightarrow> Some (Inl (Errorf ''linter pipeline: fix target %q has no frozen text'' [p]))
      | Some before \<Rightarrow>
          (case change_for p before (lookup_group m p) of
             None \<Rightarrow> None
           | Some c \<Rightarrow> map_option (map_sum id (\<lambda>cs. (case c of None \<Rightarrow> [] | Some x \<Rightarrow> [x]) @ cs))
                        (plan_paths m texts ps)))"
  by (auto simp: change_for_def lookup_group_def Let_def split: option.splits sum.splits)

lemma plan_paths_cong:
  "(\<And>p. p \<in> set ps \<Longrightarrow> lookup_group m p = lookup_group m' p) \<Longrightarrow>
     plan_paths m texts ps = plan_paths m' texts ps"
proof (induction ps)
  case (Cons p ps)
  then show ?case unfolding plan_paths_Cons by (simp split: option.splits)
qed simp

lemma change_for_Some:
  "change_for p before ds = Some (Some c) \<Longrightarrow>
     chPath c = p \<and> chBefore c = before \<and>
     (\<exists>unapp. apply_diag_fixes before ds = Some (chAfter c, unapp, True) \<and>
       chApplied c = int (length ds) - int (length unapp))"
  by (auto simp: change_for_def split: option.splits if_splits)

text \<open>The planned changes are the defined changes of the paths, in the order of the paths.\<close>

lemma plan_paths_Inr:
  "plan_paths m texts ps = Some (Inr cs) \<Longrightarrow>
     cs = List.map_filter
            (\<lambda>p. the (change_for p (the (texts p)) (lookup_group m p))) ps \<and>
     (\<forall>p \<in> set ps. texts p \<noteq> None \<and> change_for p (the (texts p)) (lookup_group m p) \<noteq> None)"
proof (induction ps arbitrary: cs)
  case (Cons p ps)
  from Cons.prems obtain before c cs' where t: "texts p = Some before"
    and c: "change_for p before (lookup_group m p) = Some c"
    and cs': "plan_paths m texts ps = Some (Inr cs')"
    and cs: "cs = (case c of None \<Rightarrow> [] | Some x \<Rightarrow> [x]) @ cs'"
    unfolding plan_paths_Cons by (auto split: option.splits sum.splits)
  with Cons.IH [OF cs'] show ?case
    by (auto simp: List.map_filter_def split: option.splits)
qed (simp add: List.map_filter_def)

lemma planFixes_Inr:
  assumes "planFixes ds texts = Some (Inr cs)"
  obtains ps where "ps = sort_strings ps" "distinct ps" "set ps = {p. fixes_for p ds \<noteq> []}"
    "[] \<notin> set ps"
    "cs = List.map_filter (\<lambda>p. the (change_for p (the (texts p)) (fixes_for p ds))) ps"
    "\<forall>p \<in> set ps. texts p \<noteq> None \<and> change_for p (the (texts p)) (fixes_for p ds) \<noteq> None"
proof -
  from assms obtain m where m: "group_fixes [] ds = Inr m"
    and plan: "plan_paths m texts (sort_strings (al_keys m)) = Some (Inr cs)"
    by (auto simp: planFixes_def split: sum.splits)
  note g = group_fixes_from_empty [OF m]
  show thesis
    by (rule that [of "sort_strings (al_keys m)"])
       (use g plan_paths_Inr [OF plan] in
         \<open>auto intro: sort_strings_cong simp: sort_strings_cong [of "sort_strings (al_keys m)" "al_keys m"]\<close>)
qed

lemma map_chPath_map_filter:
  assumes "\<And>p c. p \<in> set ps \<Longrightarrow> f p = Some c \<Longrightarrow> chPath c = p"
  shows "map chPath (List.map_filter f ps) = filter (\<lambda>p. f p \<noteq> None) ps"
  using assms by (induction ps) (auto simp: List.map_filter_def)

lemma ordered_by_filter: "ordered_by cmp xs \<Longrightarrow> ordered_by cmp (filter P xs)"
  by (simp add: ordered_by_def sorted_wrt_filter)

section \<open>Confirmation\<close>

lemma planned_paths_Inr:
  "planned_paths seen cs = Inr ps \<longleftrightarrow>
     ps = seen @ map chPath cs \<and> [] \<notin> set (map chPath cs) \<and>
     distinct (map chPath cs) \<and> set seen \<inter> set (map chPath cs) = {}"
  by (induction seen cs rule: planned_paths.induct) auto

lemma confirm_paths_ok:
  "snd (confirm_paths planned confirmed ps) = [] \<longleftrightarrow>
     distinct ps \<and> set ps \<subseteq> set planned - {[]} \<and> set ps \<inter> set confirmed = {}"
proof (induction planned confirmed ps rule: confirm_paths.induct)
  case (2 planned confirmed p ps)
  then show ?case by (auto simp: Let_def split: prod.splits)
qed simp

lemma confirm_paths_ok_result:
  "snd (confirm_paths planned confirmed ps) = [] \<Longrightarrow> fst (confirm_paths planned confirmed ps) = confirmed @ ps"
proof (induction planned confirmed ps rule: confirm_paths.induct)
  case (2 planned confirmed p ps)
  then show ?case by (auto simp: Let_def split: prod.splits if_splits)
qed simp

lemma validateCommitResult_confirmed_planned:
  "set (fst (validateCommitResult planned result commitErr)) \<subseteq> set (map chPath planned)"
  by (auto simp: validateCommitResult_def Let_def split: sum.splits prod.splits)

lemma validateCommitResult_ok:
  "(snd (validateCommitResult planned result commitErr) = None \<longleftrightarrow>
      commitErr = None \<and> distinct (map chPath planned) \<and> [] \<notin> set (map chPath planned) \<and>
      mset (ConfirmedPaths result) = mset (map chPath planned)) \<and>
   set (fst (validateCommitResult planned result commitErr)) \<subseteq> set (map chPath planned)"
proof -
  let ?paths = "map chPath planned"
  show ?thesis
  proof (cases "distinct ?paths \<and> [] \<notin> set ?paths")
    case False
    then have "\<exists>e. planned_paths [] planned = Inl e"
      by (cases "planned_paths [] planned") (auto simp: planned_paths_Inr)
    with False show ?thesis by (auto simp: validateCommitResult_def)
  next
    case True
    then have pp: "planned_paths [] planned = Inr ?paths" by (simp add: planned_paths_Inr)
    obtain c es where ces: "confirm_paths ?paths [] (ConfirmedPaths result) = (c, es)"
      by fastforce
    have ok: "es = [] \<longleftrightarrow> distinct (ConfirmedPaths result) \<and> set (ConfirmedPaths result) \<subseteq> set ?paths - {[]}"
      using confirm_paths_ok [of ?paths "[]" "ConfirmedPaths result"] by (simp add: ces)
    have cr: "es = [] \<Longrightarrow> c = ConfirmedPaths result"
      using confirm_paths_ok_result [of ?paths "[]" "ConfirmedPaths result"] by (simp add: ces)
    have "es = [] \<and> length c = length ?paths \<longleftrightarrow> mset (ConfirmedPaths result) = mset ?paths"
    proof
      assume "es = [] \<and> length c = length ?paths"
      then have "distinct (ConfirmedPaths result)" "set (ConfirmedPaths result) \<subseteq> set ?paths"
        "card (set (ConfirmedPaths result)) = card (set ?paths)"
        using ok cr True distinct_card [of ?paths] distinct_card [of "ConfirmedPaths result"] by auto
      then have "set (ConfirmedPaths result) = set ?paths" by (simp add: card_subset_eq)
      with \<open>distinct (ConfirmedPaths result)\<close> True show "mset (ConfirmedPaths result) = mset ?paths"
        by (metis set_eq_iff_mset_eq_distinct)
    next
      assume eq: "mset (ConfirmedPaths result) = mset ?paths"
      then have "es = []" using ok True mset_eq_setD [OF eq] mset_eq_imp_distinct_iff [OF eq] by auto
      with eq cr show "es = [] \<and> length c = length ?paths" by (metis size_mset)
    qed
    moreover have "snd (validateCommitResult planned result commitErr) = None \<longleftrightarrow>
        commitErr = None \<and> es = [] \<and> length c = length ?paths"
      using pp ces by (auto simp: validateCommitResult_def Let_def)
    ultimately show ?thesis using True validateCommitResult_confirmed_planned by metis
  qed
qed

lemma validateCommitResult_confirms_all:
  assumes "snd (validateCommitResult planned result commitErr) = None"
  shows "fst (validateCommitResult planned result commitErr) = map chPath planned"
proof -
  let ?paths = "map chPath planned"
  have ok: "distinct ?paths" "[] \<notin> set ?paths" "mset (ConfirmedPaths result) = mset ?paths"
    using assms validateCommitResult_ok [of planned result commitErr] by simp_all
  then have pp: "planned_paths [] planned = Inr ?paths" by (simp add: planned_paths_Inr)
  obtain c es where ces: "confirm_paths ?paths [] (ConfirmedPaths result) = (c, es)" by fastforce
  have "distinct (ConfirmedPaths result)" "set (ConfirmedPaths result) = set ?paths"
    using ok mset_eq_imp_distinct_iff [OF ok(3)] mset_eq_setD [OF ok(3)] by simp_all
  then have "es = []" using confirm_paths_ok [of ?paths "[]" "ConfirmedPaths result"] ok(2) by (simp add: ces)
  then have "set c = set ?paths"
    using confirm_paths_ok_result [of ?paths "[]" "ConfirmedPaths result"] mset_eq_setD [OF ok(3)] by (simp add: ces)
  then show ?thesis using pp ces by (auto simp: validateCommitResult_def Let_def filter_id_conv)
qed

lemma planFixes_sound:
  assumes "planFixes ds texts = Some (Inr cs)"
  shows "distinct (map chPath cs) \<and> ordered_by str_compare (map chPath cs) \<and>
    (\<forall>c \<in> set cs. chPath c \<noteq> [] \<and> texts (chPath c) = Some (chBefore c) \<and> 1 \<le> chApplied c \<and>
       (\<exists>unapp. apply_diag_fixes (chBefore c) (fixes_for (chPath c) ds) = Some (chAfter c, unapp, True)
          \<and> chApplied c = int (length (fixes_for (chPath c) ds)) - int (length unapp)))"
proof -
  obtain ps where ps: "ps = sort_strings ps" "distinct ps" "[] \<notin> set ps"
    and cs: "cs = List.map_filter (\<lambda>p. the (change_for p (the (texts p)) (fixes_for p ds))) ps"
    and def: "\<forall>p \<in> set ps. texts p \<noteq> None \<and> change_for p (the (texts p)) (fixes_for p ds) \<noteq> None"
    using assms by (rule planFixes_Inr)
  let ?f = "\<lambda>p. the (change_for p (the (texts p)) (fixes_for p ds))"
  have path: "chPath c = p" if "p \<in> set ps" "?f p = Some c" for p c
    using that def change_for_Some [of p "the (texts p)" "fixes_for p ds" c] by force
  have paths: "map chPath cs = filter (\<lambda>p. ?f p \<noteq> None) ps"
    unfolding cs by (rule map_chPath_map_filter) (rule path)
  have "ordered_by str_compare ps" using ps(1) ordered_sort_strings by metis
  then have "ordered_by str_compare (map chPath cs)" unfolding paths by (rule ordered_by_filter)
  moreover have "distinct (map chPath cs)" using paths ps(2) by simp
  moreover have "chPath c \<noteq> [] \<and> texts (chPath c) = Some (chBefore c) \<and> 1 \<le> chApplied c \<and>
       (\<exists>unapp. apply_diag_fixes (chBefore c) (fixes_for (chPath c) ds) = Some (chAfter c, unapp, True)
          \<and> chApplied c = int (length (fixes_for (chPath c) ds)) - int (length unapp))"
    if "c \<in> set cs" for c
  proof -
    from that cs obtain p where p: "p \<in> set ps" "?f p = Some c"
      by (auto simp: List.map_filter_def)
    with def obtain before where before: "texts p = Some before" by blast
    with p def have "change_for p before (fixes_for p ds) = Some (Some c)" by force
    note c = change_for_Some [OF this]
    then obtain unapp where u: "apply_diag_fixes before (fixes_for p ds) = Some (chAfter c, unapp, True)"
      "chApplied c = int (length (fixes_for p ds)) - int (length unapp)" by blast
    from diag_fixer.run_applied_count [OF u(1) [unfolded apply_diag_fixes_def]] u(2)
    have "1 \<le> chApplied c" by simp
    moreover have "p \<noteq> []" using p(1) ps(3) by blast
    ultimately show ?thesis using c u before by metis
  qed
  ultimately show ?thesis by blast
qed

section \<open>Properties\<close>

text \<open>
  A successful plan has at most one change per file, in strictly increasing path order;
  each change starts from the frozen text of its file, ends with what \<open>ApplyRuleFixes\<close> makes of
  the diagnostics of that file, and counts at least one applied diagnostic.
\<close>

theorem planFixes_changes:
  assumes "planFixes ds texts = Some (Inr cs)"
  shows "distinct (map chPath cs) \<and> ordered_by str_compare (map chPath cs) \<and>
    (\<forall>c \<in> set cs. chPath c \<noteq> [] \<and> texts (chPath c) = Some (chBefore c) \<and> 1 \<le> chApplied c \<and>
       (\<exists>unapp. apply_diag_fixes (chBefore c) (fixes_for (chPath c) ds) = Some (chAfter c, unapp, True)
          \<and> chApplied c = int (length (fixes_for (chPath c) ds)) - int (length unapp)))"
  using assms by (rule planFixes_sound)

theorem planFixes_changes_witness:
  "planFixes sample_fixes [''a.ts'' \<mapsto> ''abcdef''] =
     Some (Inr [\<lparr>chPath = ''a.ts'', chBefore = ''abcdef'', chAfter = ''aXcYf'', chApplied = 2\<rparr>]) \<and>
   distinct (map chPath [\<lparr>chPath = ''a.ts'', chBefore = ''abcdef'', chAfter = ''aXcYf'', chApplied = 2\<rparr>])"
proof -
  have run: "planFixes sample_fixes [''a.ts'' \<mapsto> ''abcdef''] =
     Some (Inr [\<lparr>chPath = ''a.ts'', chBefore = ''abcdef'', chAfter = ''aXcYf'', chApplied = 2\<rparr>])"
    by (simp add: planFixes_def apply_diag_fixes_def fixer_eval set_diag_fixes_def sample_diag_def
        diag_Fixes_def al_keys_def sort_strings_def)
  from planFixes_changes [OF run] run show ?thesis by blast
qed

text \<open>
  The plan depends only on the order of the diagnostics within each file: however the
  diagnostics of different files (or those without edits) are interleaved, for instance by
  concurrent workers, the planned changes, errors and panics are the same.
\<close>

theorem planFixes_interleaving:
  assumes "\<forall>p. fixes_for p ds = fixes_for p ds'"
  shows "planFixes ds texts = planFixes ds' texts"
proof (cases "fixes_for [] ds = []")
  case True
  with assms obtain m m' where m: "group_fixes [] ds = Inr m" and m': "group_fixes [] ds' = Inr m'"
    using group_fixes_exists by metis
  note g = group_fixes_from_empty [OF m] and g' = group_fixes_from_empty [OF m']
  have eq: "lookup_group m p = lookup_group m' p" for p
    unfolding g(2) g'(2) by (rule assms [rule_format])
  have "set (al_keys m) = set (al_keys m')"
    unfolding g(3) g'(3) using assms by metis
  with g(1) g'(1)
  have "mset (al_keys m) = mset (al_keys m')" by (metis set_eq_iff_mset_eq_distinct)
  then have "sort_strings (al_keys m) = sort_strings (al_keys m')" by (rule sort_strings_cong)
  with m m' plan_paths_cong [OF eq] show ?thesis by (simp only: planFixes_def sum.case)
next
  case False
  with spec [OF assms, of "[]"] have "fixes_for [] ds' \<noteq> []" by simp
  let ?e = "Errorf ''linter pipeline: fix diagnostic path must not be empty'' []"
  have "group_fixes [] ds = Inl ?e" "group_fixes [] ds' = Inl ?e"
    unfolding group_fixes_Inl using False \<open>fixes_for [] ds' \<noteq> []\<close> by simp_all
  then show ?thesis by (simp only: planFixes_def sum.case)
qed

theorem planFixes_interleaving_witness:
  "planFixes [sample_diag ''a'' [], sample_diag ''b'' [\<lparr>fixText = ''X'', fixRange = TextRange 0 1\<rparr>],
      sample_diag ''a'' [\<lparr>fixText = ''Y'', fixRange = TextRange 0 1\<rparr>]] [''a'' \<mapsto> ''u'', ''b'' \<mapsto> ''v''] =
   planFixes [sample_diag ''a'' [\<lparr>fixText = ''Y'', fixRange = TextRange 0 1\<rparr>],
      sample_diag ''b'' [\<lparr>fixText = ''X'', fixRange = TextRange 0 1\<rparr>]] [''a'' \<mapsto> ''u'', ''b'' \<mapsto> ''v'']"
  by (rule planFixes_interleaving) (simp add: fixes_for_def sample_diag_def diag_Fixes_def)

text \<open>
  The validation of a committer's answer succeeds exactly when the committer reported
  no error, the planned changes have distinct non-empty paths, and the confirmed paths are these
  paths, each once; a path that is returned as confirmed was always planned.
\<close>

theorem validateCommitResult_ok_iff:
  "(snd (validateCommitResult planned result commitErr) = None \<longleftrightarrow>
      commitErr = None \<and> distinct (map chPath planned) \<and> [] \<notin> set (map chPath planned) \<and>
      mset (ConfirmedPaths result) = mset (map chPath planned)) \<and>
   set (fst (validateCommitResult planned result commitErr)) \<subseteq> set (map chPath planned)"
  by (rule validateCommitResult_ok)

lemma cmp_file_start_total: "cmp_total cmp_file_start"
proof -
  have le: "cmp_file_start a b \<le> 0 \<longleftrightarrow>
      str_less (FilePath a) (FilePath b) \<or> (FilePath a = FilePath b \<and> Pos (diagRange a) \<le> Pos (diagRange b))"
    for a b
    by (auto simp: cmp_file_start_def Let_def str_compare_le0 str_compare_def sgn_if)
  show ?thesis unfolding cmp_total_def le
    using str_less_linear str_less_trans by (metis linorder_linear order_trans)
qed

text \<open>
  A report is ordered by file and start offset, contains the same diagnostics, and
  diagnostics with the same file and start keep their emission order.
\<close>

theorem StableSortDiagnostics_spec:
  "mset (StableSortDiagnosticsByFileAndStart ds) = mset ds \<and>
   ordered_by cmp_file_start (StableSortDiagnosticsByFileAndStart ds) \<and>
   filter (\<lambda>d. FilePath d = p \<and> Pos (diagRange d) = i) (StableSortDiagnosticsByFileAndStart ds) =
   filter (\<lambda>d. FilePath d = p \<and> Pos (diagRange d) = i) ds"
  unfolding StableSortDiagnosticsByFileAndStart_def
  by (auto simp: ordered_sort_cmp cmp_file_start_total cmp_file_start_def Let_def
      intro!: sort_cmp_stable)

end
