(* ===== verification/Autofix_State.thy ===== *)
theory Autofix_State
  imports Fix_Plan
begin

text \<open>
  \<^verbatim>\<open>internal/linter/pipeline_autofix_state.go\<close>: the in-memory text of the files an autofix run has
  changed.  The three Go maps are association lists with distinct keys.  The abstract view of the
  state is the partial function \<open>text\<close>; the theory shows that a round overwrites this view with
  the new texts of its changes, and that the final changes are the net difference between the
  first and the last text of every file.
\<close>

section \<open>State\<close>

record autofixState =
  af_initial :: "(string \<times> string) list"
  af_current :: "(string \<times> string) list"
  af_applied :: "(string \<times> int) list"

definition newAutofixState :: autofixState where
  "newAutofixState = \<lparr>af_initial = [], af_current = [], af_applied = []\<rparr>"

record SourceFileSnapshot =
  snPath :: string
  snText :: string

text \<open>\<open>texts\<close> is a nil map (\<^term>\<open>None\<close>) in the zero value.\<close>

record SourceSnapshot =
  snFiles :: "SourceFileSnapshot list"
  snTexts :: "(string \<rightharpoonup> string) option"

record FixRoundResult =
  ChangedPaths :: "string list"
  roundApplied :: int
  RestoredInitial :: bool

section \<open>Snapshots\<close>

definition emptySnapshot :: SourceSnapshot where
  "emptySnapshot = \<lparr>snFiles = [], snTexts = None\<rparr>"

fun find_snapshot :: "SourceFileSnapshot list \<Rightarrow> string \<Rightarrow> string option" where
  "find_snapshot [] path = None"
| "find_snapshot (file # files) path =
     (if snPath file = path then Some (snText file) else find_snapshot files path)"

definition snapshot_Text :: "SourceSnapshot \<Rightarrow> string \<Rightarrow> string option" where
  "snapshot_Text s path =
     (case snTexts s of Some texts \<Rightarrow> texts path | None \<Rightarrow> find_snapshot (snFiles s) path)"

definition snapshot_Empty :: "SourceSnapshot \<Rightarrow> bool" where
  "snapshot_Empty s = (length (snFiles s) = 0)"

text \<open>A map index without a check reads the zero value of the element type.\<close>

definition al_get :: "'v \<Rightarrow> ('k \<times> 'v) list \<Rightarrow> 'k \<Rightarrow> 'v" where
  "al_get zero m k = (case map_of m k of None \<Rightarrow> zero | Some v \<Rightarrow> v)"

definition snapshot :: "autofixState \<Rightarrow> SourceSnapshot" where
  "snapshot s =
     (let paths = sort_strings (al_keys (af_current s))
      in \<lparr>snFiles = map (\<lambda>path. \<lparr>snPath = path, snText = al_get [] (af_current s) path\<rparr>) paths,
          snTexts = Some (map_of (map (\<lambda>path. (path, al_get [] (af_current s) path)) paths))\<rparr>)"

definition state_text :: "autofixState \<Rightarrow> string \<Rightarrow> string option" where
  "state_text s path =
     (case map_of (af_current s) path of
        Some t \<Rightarrow> Some t
      | None \<Rightarrow> map_of (af_initial s) path)"

section \<open>Applying one round\<close>

fun check_changes ::
  "autofixState \<Rightarrow> string list \<Rightarrow> FileChange list \<Rightarrow> lint_error + string list" where
  "check_changes s paths [] = Inr paths"
| "check_changes s paths (change # changes) =
     (if chPath change = [] then Inl (Errorf ''linter pipeline: in-memory change path must not be empty'' [])
      else if chPath change \<in> set paths
      then Inl (Errorf ''linter pipeline: duplicate in-memory change %q'' [chPath change])
      else (let current = (case state_text s (chPath change) of None \<Rightarrow> chBefore change | Some t \<Rightarrow> t)
            in if current \<noteq> chBefore change
               then Inl (Errorf ''linter pipeline: stale in-memory change for %q'' [chPath change])
               else check_changes s (paths @ [chPath change]) changes))"

definition apply_change :: "FileChange \<Rightarrow> autofixState \<Rightarrow> autofixState" where
  "apply_change change s =
     (let initial = (if map_of (af_initial s) (chPath change) = None
                     then al_update (chPath change) (chBefore change) (af_initial s)
                     else af_initial s);
          current = (if chAfter change = al_get [] initial (chPath change)
                     then al_delete (chPath change) (af_current s)
                     else al_update (chPath change) (chAfter change) (af_current s));
          applied = al_update (chPath change)
                      (al_get 0 (af_applied s) (chPath change) + chApplied change) (af_applied s)
      in \<lparr>af_initial = initial, af_current = current, af_applied = applied\<rparr>)"

fun apply_changes :: "FileChange list \<Rightarrow> autofixState \<Rightarrow> int \<Rightarrow> autofixState \<times> int" where
  "apply_changes [] s n = (s, n)"
| "apply_changes (c # cs) s n = apply_changes cs (apply_change c s) (n + chApplied c)"

definition state_apply ::
  "autofixState \<Rightarrow> FileChange list \<Rightarrow> lint_error + (FixRoundResult \<times> autofixState)" where
  "state_apply s changes =
     (if length changes = 0
      then Inl (Errorf ''linter pipeline: cannot apply an empty in-memory change set'' [])
      else (case check_changes s [] changes of
              Inl e \<Rightarrow> Inl e
            | Inr paths \<Rightarrow>
                (let (s', n) = apply_changes changes s 0
                 in Inr (\<lparr>ChangedPaths = paths, roundApplied = n,
                          RestoredInitial = (length (af_current s') = 0)\<rparr>, s'))))"

section \<open>The final changes\<close>

definition finalChanges :: "autofixState \<Rightarrow> FileChange list" where
  "finalChanges s =
     map (\<lambda>path. \<lparr>chPath = path, chBefore = al_get [] (af_initial s) path,
                  chAfter = al_get [] (af_current s) path,
                  chApplied = al_get 0 (af_applied s) path\<rparr>)
       (sort_strings (al_keys (af_current s)))"

fun final_sources :: "autofixState \<Rightarrow> string list \<Rightarrow> SourceFileSnapshot list" where
  "final_sources s [] = []"
| "final_sources s (path # paths) =
     (case state_text s path of
        None \<Rightarrow> final_sources s paths
      | Some t \<Rightarrow> \<lparr>snPath = path, snText = t\<rparr> # final_sources s paths)"

definition finalSources :: "autofixState \<Rightarrow> SourceFileSnapshot list" where
  "finalSources s = final_sources s (sort_strings (al_keys (af_applied s)))"

section \<open>Invariant\<close>

text \<open>
  Only files with a recorded initial text have a current one, a file whose text is the initial
  one has none, and the files with applied diagnostics are the recorded ones.
\<close>

definition af_inv :: "autofixState \<Rightarrow> bool" where
  "af_inv s \<longleftrightarrow>
     distinct (al_keys (af_initial s)) \<and> distinct (al_keys (af_current s)) \<and>
     distinct (al_keys (af_applied s)) \<and>
     set (al_keys (af_applied s)) = set (al_keys (af_initial s)) \<and>
     [] \<notin> set (al_keys (af_initial s)) \<and>
     (\<forall>p \<in> set (al_keys (af_current s)). map_of (af_initial s) p \<noteq> None \<and>
        map_of (af_current s) p \<noteq> map_of (af_initial s) p)"

lemma af_inv_new [simp]: "af_inv newAutofixState"
  by (simp add: af_inv_def newAutofixState_def al_keys_def)

lemma af_inv_current:
  assumes "af_inv s" and "map_of (af_current s) p = Some t"
  obtains t0 where "map_of (af_initial s) p = Some t0" "t \<noteq> t0" "p \<noteq> []"
proof -
  have "p \<in> set (al_keys (af_current s))" using assms(2) by (simp add: al_keys_dom domI)
  with assms obtain t0 where "map_of (af_initial s) p = Some t0" "t \<noteq> t0"
    unfolding af_inv_def by (metis option.exhaust)
  moreover from this assms(1) have "p \<noteq> []"
    unfolding af_inv_def al_keys_dom by (metis domI)
  ultimately show thesis by (rule that)
qed

lemma state_text_new [simp]: "state_text newAutofixState = Map.empty"
  by (simp add: state_text_def newAutofixState_def fun_eq_iff)

lemma al_get_Some: "map_of m k = Some v \<Longrightarrow> al_get z m k = v"
  by (simp add: al_get_def)

text \<open>What one change does to the three maps, as partial functions.\<close>

lemma apply_change_initial:
  "map_of (af_initial (apply_change c s)) =
     (if map_of (af_initial s) (chPath c) = None
      then (map_of (af_initial s))(chPath c \<mapsto> chBefore c) else map_of (af_initial s))"
  by (simp add: apply_change_def Let_def)

lemma apply_change_text:
  "state_text (apply_change c s) = (state_text s)(chPath c \<mapsto> chAfter c)"
  by (auto simp: state_text_def apply_change_def Let_def fun_eq_iff al_get_def split: option.splits)

lemma apply_change_applied:
  "al_get 0 (af_applied (apply_change c s)) p =
     al_get 0 (af_applied s) p + (if p = chPath c then chApplied c else 0)"
  by (simp add: apply_change_def Let_def al_get_def)

lemma al_keys_delete: "set (al_keys (al_delete k m)) = set (al_keys m) - {k}"
  by (auto simp: al_keys_dom)

lemma apply_change_inv:
  assumes "af_inv s" and "chPath c \<noteq> []"
  shows "af_inv (apply_change c s)"
proof -
  have dom: "set (al_keys (af_initial (apply_change c s))) = insert (chPath c) (set (al_keys (af_initial s)))"
    "set (al_keys (af_applied (apply_change c s))) = insert (chPath c) (set (al_keys (af_applied s)))"
    by (auto simp: apply_change_def Let_def keys_al_update al_keys_dom)
  have "distinct (al_keys (af_initial (apply_change c s)))"
    "distinct (al_keys (af_current (apply_change c s)))"
    "distinct (al_keys (af_applied (apply_change c s)))"
    using assms(1) by (simp_all add: af_inv_def apply_change_def Let_def)
  moreover have "map_of (af_initial (apply_change c s)) p \<noteq> None \<and>
      map_of (af_current (apply_change c s)) p \<noteq> map_of (af_initial (apply_change c s)) p"
    if "p \<in> set (al_keys (af_current (apply_change c s)))" for p
  proof (cases "p = chPath c")
    case True
    with that show ?thesis
      by (auto simp: apply_change_def Let_def al_keys_delete al_get_def split: if_splits option.splits)
  next
    case False
    then have "p \<in> set (al_keys (af_current s))"
      using that by (auto simp: apply_change_def Let_def al_keys_delete keys_al_update split: if_splits)
    with False assms(1) show ?thesis by (auto simp: af_inv_def apply_change_def Let_def)
  qed
  ultimately show ?thesis using assms dom by (auto simp: af_inv_def)
qed

section \<open>A round\<close>

abbreviation new_texts :: "FileChange list \<Rightarrow> string \<rightharpoonup> string" where
  "new_texts cs \<equiv> map_of (rev (map (\<lambda>c. (chPath c, chAfter c)) cs))"

lemma apply_changes_spec:
  assumes "af_inv s" and "[] \<notin> set (map chPath cs)" and "apply_changes cs s n = (s', k)"
  shows "af_inv s' \<and> k = n + sum_list (map chApplied cs) \<and>
    state_text s' = state_text s ++ new_texts cs \<and>
    (\<forall>p. al_get 0 (af_applied s') p = al_get 0 (af_applied s) p +
       sum_list (map chApplied (filter (\<lambda>c. chPath c = p) cs))) \<and>
    map_of (af_initial s) \<subseteq>\<^sub>m map_of (af_initial s') \<and>
    dom (map_of (af_initial s')) = dom (map_of (af_initial s)) \<union> set (map chPath cs)"
  using assms
proof (induction cs s n rule: apply_changes.induct)
  case (1 s n)
  then show ?case by simp
next
  case (2 c cs s n)
  let ?s = "apply_change c s"
  from "2.prems" have "af_inv ?s" by (intro apply_change_inv) auto
  with 2 have IH: "af_inv s' \<and> k = n + chApplied c + sum_list (map chApplied cs) \<and>
    state_text s' = state_text ?s ++ new_texts cs \<and>
    (\<forall>p. al_get 0 (af_applied s') p = al_get 0 (af_applied ?s) p +
       sum_list (map chApplied (filter (\<lambda>c. chPath c = p) cs))) \<and>
    map_of (af_initial ?s) \<subseteq>\<^sub>m map_of (af_initial s') \<and>
    dom (map_of (af_initial s')) = dom (map_of (af_initial ?s)) \<union> set (map chPath cs)"
    by simp
  moreover have "state_text ?s ++ new_texts cs = state_text s ++ new_texts (c # cs)"
    by (simp add: apply_change_text map_add_def fun_eq_iff split: option.splits)
  moreover have "map_of (af_initial s) \<subseteq>\<^sub>m map_of (af_initial ?s)"
    by (auto simp: apply_change_initial map_le_def)
  ultimately show ?case
    by (auto simp: apply_change_applied apply_change_initial split: if_splits
        intro: map_le_trans)
qed

lemma check_changes_Inr:
  "check_changes s paths cs = Inr ps \<longleftrightarrow>
     ps = paths @ map chPath cs \<and> [] \<notin> set (map chPath cs) \<and> distinct (map chPath cs) \<and>
     set paths \<inter> set (map chPath cs) = {} \<and>
     (\<forall>c \<in> set cs. state_text s (chPath c) \<in> {None, Some (chBefore c)})"
  by (induction s paths cs rule: check_changes.induct) (auto simp: Let_def split: option.splits)

lemma restored_iff:
  assumes "af_inv s"
  shows "af_current s = [] \<longleftrightarrow> state_text s = map_of (af_initial s)"
proof
  assume "state_text s = map_of (af_initial s)"
  then have "map_of (af_current s) p = None" for p
    using assms unfolding af_inv_def state_text_def
    by (cases "map_of (af_current s) p") (force simp: al_keys_dom fun_eq_iff split: option.splits)+
  then show "af_current s = []" by (metis map_of_eq_empty_iff ext)
qed (simp add: state_text_def fun_eq_iff)

text \<open>When a round succeeds, and what it then does.\<close>

lemma state_apply_ok_iff:
  "(\<exists>z. state_apply s cs = Inr z) \<longleftrightarrow>
     cs \<noteq> [] \<and> [] \<notin> set (map chPath cs) \<and> distinct (map chPath cs) \<and>
     (\<forall>c \<in> set cs. state_text s (chPath c) \<in> {None, Some (chBefore c)})"
proof -
  have "(\<exists>z. state_apply s cs = Inr z) \<longleftrightarrow> cs \<noteq> [] \<and> (\<exists>ps. check_changes s [] cs = Inr ps)"
    by (auto simp: state_apply_def split: sum.splits prod.splits)
  then show ?thesis unfolding check_changes_Inr by simp
qed

lemma state_apply_Inr:
  assumes "af_inv s" and "state_apply s cs = Inr (r, s')"
  shows "af_inv s' \<and> ChangedPaths r = map chPath cs \<and> roundApplied r = sum_list (map chApplied cs) \<and>
    state_text s' = state_text s ++ new_texts cs \<and>
    (\<forall>p. al_get 0 (af_applied s') p = al_get 0 (af_applied s) p +
       sum_list (map chApplied (filter (\<lambda>c. chPath c = p) cs))) \<and>
    map_of (af_initial s) \<subseteq>\<^sub>m map_of (af_initial s') \<and>
    dom (map_of (af_initial s')) = dom (map_of (af_initial s)) \<union> set (map chPath cs) \<and>
    (RestoredInitial r \<longleftrightarrow> state_text s' = map_of (af_initial s'))"
proof -
  from assms(2) obtain n where ps: "check_changes s [] cs = Inr (ChangedPaths r)"
    and run: "apply_changes cs s 0 = (s', n)" and r: "roundApplied r = n" "RestoredInitial r = (af_current s' = [])"
    by (auto simp: state_apply_def split: if_splits sum.splits prod.splits)
  from ps have "ChangedPaths r = map chPath cs" "[] \<notin> set (map chPath cs)"
    unfolding check_changes_Inr by simp_all
  with apply_changes_spec [OF assms(1) _ run] r restored_iff [of s'] show ?thesis by simp
qed

text \<open>A change of a round records its starting text when its file is new.\<close>

lemma apply_changes_initial:
  "apply_changes cs s n = (s', k) \<Longrightarrow> distinct (map chPath cs) \<Longrightarrow> c \<in> set cs \<Longrightarrow>
     map_of (af_initial s) (chPath c) = None \<Longrightarrow> map_of (af_initial s') (chPath c) = Some (chBefore c)"
proof (induction cs s n rule: apply_changes.induct)
  case (2 c' cs s n)
  show ?case
  proof (cases "c = c'")
    case True
    have "map_of (af_initial s'') p = map_of (af_initial s) p"
      if "apply_changes cs s m = (s'', k)" "p \<notin> set (map chPath cs)" for cs s m s'' p
      using that by (induction cs s m rule: apply_changes.induct) (auto simp: apply_change_initial split: if_splits)
    with True 2 show ?thesis by (simp add: apply_change_initial)
  next
    case False
    with "2.prems" have "c \<in> set cs" by simp
    with "2.prems"(2) have "chPath c \<noteq> chPath c'" by (auto simp: image_iff)
    with 2 \<open>c \<in> set cs\<close> show ?thesis by (simp add: apply_change_initial)
  qed
qed simp

section \<open>The interface of the pipeline's memory\<close>

text \<open>
  What the autofix loop relies on: a round overwrites the current texts, the first text of a file
  is kept, and the final changes lead from the first texts to the current ones.
\<close>

fun rounds_of ::
  "('st \<Rightarrow> FileChange list \<Rightarrow> lint_error + ('r \<times> 'st)) \<Rightarrow> 'st \<Rightarrow> FileChange list list \<Rightarrow> lint_error + 'st" where
  "rounds_of ap s [] = Inr s"
| "rounds_of ap s (cs # css) =
     (case ap s cs of Inl e \<Rightarrow> Inl e | Inr (r, s') \<Rightarrow> rounds_of ap s' css)"

locale source_memory =
  fixes inv :: "'st \<Rightarrow> bool"
    and text_of :: "'st \<Rightarrow> string \<rightharpoonup> string"
    and base_of :: "'st \<Rightarrow> string \<rightharpoonup> string"
    and apply_round :: "'st \<Rightarrow> FileChange list \<Rightarrow> lint_error + ('r \<times> 'st)"
    and final :: "'st \<Rightarrow> FileChange list"
  assumes round_inv: "inv s \<Longrightarrow> apply_round s cs = Inr (r, s') \<Longrightarrow> inv s'"
    and round_text: "inv s \<Longrightarrow> apply_round s cs = Inr (r, s') \<Longrightarrow> text_of s' = text_of s ++ new_texts cs"
    and round_base: "inv s \<Longrightarrow> apply_round s cs = Inr (r, s') \<Longrightarrow> base_of s \<subseteq>\<^sub>m base_of s'"
    and text_final: "inv s \<Longrightarrow> text_of s = base_of s ++ new_texts (final s)"
begin

abbreviation rounds :: "'st \<Rightarrow> FileChange list list \<Rightarrow> lint_error + 'st" where
  "rounds \<equiv> rounds_of apply_round"

lemma rounds_inv: "rounds s css = Inr s' \<Longrightarrow> inv s \<Longrightarrow> inv s'"
  by (induction css arbitrary: s) (auto split: sum.splits prod.splits dest: round_inv)

lemma rounds_text:
  "rounds s css = Inr s' \<Longrightarrow> inv s \<Longrightarrow> text_of s' = foldl (++) (text_of s) (map new_texts css)"
proof (induction css arbitrary: s)
  case (Cons cs css)
  then obtain r s1 where s1: "apply_round s cs = Inr (r, s1)" "rounds s1 css = Inr s'"
    by (auto split: sum.splits prod.splits)
  with Cons.IH [OF s1(2)] Cons.prems(2) show ?case
    by (simp add: round_inv [OF _ s1(1)] round_text [OF _ s1(1)])
qed simp

lemma foldl_override: "foldl (++) (d ++ m) ms = d ++ foldl (++) m ms"
  by (induction ms arbitrary: m) (simp_all flip: map_add_assoc)

text \<open>Writing the final changes over the files that held the first texts gives what writing the
  changes of every round gives.\<close>

lemma final_net_delta:
  assumes "rounds s css = Inr s'" and "inv s" and "text_of s = Map.empty" and "base_of s' \<subseteq>\<^sub>m disk"
  shows "disk ++ new_texts (final s') = foldl (++) disk (map new_texts css)"
proof -
  have inv': "inv s'" using rounds_inv assms by blast
  have "foldl (++) disk (map new_texts css) = disk ++ text_of s'"
    using foldl_override [of disk Map.empty "map new_texts css"] rounds_text [OF assms(1,2)] assms(3) by simp
  also have "\<dots> = (disk ++ base_of s') ++ new_texts (final s')"
    using text_final [OF inv'] by simp
  also have "disk ++ base_of s' = disk"
    using assms(4) by (auto simp: map_le_def map_add_def fun_eq_iff split: option.splits)
      (metis domI)
  finally show ?thesis by simp
qed

end

lemma new_texts_finalChanges:
  assumes "af_inv s"
  shows "new_texts (finalChanges s) = map_of (af_current s)"
proof -
  let ?ps = "sort_strings (al_keys (af_current s))"
  have "map_of (rev (map (\<lambda>p. (p, al_get [] (af_current s) p)) ?ps)) q = map_of (af_current s) q" for q
  proof -
    have "distinct (map fst (rev (map (\<lambda>p. (p, al_get [] (af_current s) p)) ?ps)))"
      using assms by (simp add: rev_map [symmetric] comp_def af_inv_def)
    then have "map_of (rev (map (\<lambda>p. (p, al_get [] (af_current s) p)) ?ps)) q =
        (if q \<in> set ?ps then Some (al_get [] (af_current s) q) else None)"
      by (auto simp: map_of_eq_None_iff)
    also have "\<dots> = map_of (af_current s) q"
      by (auto simp: al_keys_dom al_get_def split: option.splits)
    finally show ?thesis .
  qed
  then show ?thesis by (simp add: finalChanges_def comp_def fun_eq_iff)
qed

lemma state_text_eq: "state_text s = map_of (af_initial s) ++ map_of (af_current s)"
  by (simp add: state_text_def map_add_def fun_eq_iff split: option.splits)

interpretation autofix_memory: source_memory af_inv state_text "\<lambda>s. map_of (af_initial s)" state_apply finalChanges
  by unfold_locales (use state_apply_Inr in \<open>blast | simp add: state_text_eq new_texts_finalChanges\<close>)+

lemma distinct_finalChanges: "af_inv s \<Longrightarrow> distinct (map chPath (finalChanges s))"
  by (simp add: finalChanges_def comp_def af_inv_def)

lemma finalChanges_member:
  assumes "af_inv s" and "c \<in> set (finalChanges s)"
  shows "map_of (af_initial s) (chPath c) = Some (chBefore c) \<and> map_of (af_current s) (chPath c) = Some (chAfter c) \<and>
    chBefore c \<noteq> chAfter c \<and> chPath c \<noteq> [] \<and> chApplied c = al_get 0 (af_applied s) (chPath c)"
proof -
  from assms(2) obtain p where p: "p \<in> set (al_keys (af_current s))"
    and c: "c = \<lparr>chPath = p, chBefore = al_get [] (af_initial s) p, chAfter = al_get [] (af_current s) p,
                 chApplied = al_get 0 (af_applied s) p\<rparr>"
    by (auto simp: finalChanges_def)
  from p obtain t where t: "map_of (af_current s) p = Some t" by (auto simp: al_keys_dom)
  with assms(1) obtain t0 where "map_of (af_initial s) p = Some t0" "t \<noteq> t0" "p \<noteq> []"
    by (rule af_inv_current)
  with t c show ?thesis by (simp add: al_get_def)
qed

lemma snapshot_Text_snapshot:
  assumes "af_inv s"
  shows "snapshot_Text (snapshot s) = map_of (af_current s)"
proof -
  have "map_of (map (\<lambda>p. (p, al_get [] (af_current s) p)) (sort_strings (al_keys (af_current s)))) q =
      map_of (af_current s) q" for q
    by (auto simp: map_of_map_restrict restrict_map_def al_keys_dom al_get_def split: option.splits)
  then show ?thesis by (simp add: snapshot_def snapshot_Text_def Let_def fun_eq_iff)
qed

lemma find_snapshot_map:
  "find_snapshot (map (\<lambda>p. \<lparr>snPath = p, snText = f p\<rparr>) ps) q = (if q \<in> set ps then Some (f q) else None)"
  by (induction ps) auto

section \<open>Properties\<close>

text \<open>
  A round succeeds exactly when it is non-empty, names each file once and non-empty, and every
  change of a file seen before starts from its current text.
\<close>

theorem autofix_apply_ok_iff:
  "(\<exists>z. state_apply s cs = Inr z) \<longleftrightarrow>
     cs \<noteq> [] \<and> distinct (map chPath cs) \<and>
     (\<forall>c \<in> set cs. chPath c \<noteq> [] \<and> state_text s (chPath c) \<in> {None, Some (chBefore c)})"
  unfolding state_apply_ok_iff by (auto simp: image_iff)

theorem autofix_apply_ok_iff_witness:
  "\<exists>z. state_apply newAutofixState [\<lparr>chPath = ''a'', chBefore = ''x'', chAfter = ''y'', chApplied = 1\<rparr>] = Inr z"
  unfolding autofix_apply_ok_iff by simp

text \<open>
  Claim C11.  A successful round keeps the invariant of the memory, overwrites the current text of the changed
  files and of no other, never changes a recorded initial text, reports the paths and the number of
  applied diagnostics of its changes, and reports a restored state exactly when every file has its
  initial text again.
\<close>

theorem autofix_apply_refines_overlay:
  assumes "af_inv s" and "state_apply s cs = Inr (r, s')"
  shows "af_inv s' \<and> state_text s' = state_text s ++ new_texts cs \<and>
    map_of (af_initial s) \<subseteq>\<^sub>m map_of (af_initial s') \<and>
    ChangedPaths r = map chPath cs \<and> roundApplied r = sum_list (map chApplied cs) \<and>
    (RestoredInitial r \<longleftrightarrow> state_text s' = map_of (af_initial s'))"
  using state_apply_Inr [OF assms] by blast

text \<open>Two rounds on one file, the second of which undoes the first.\<close>

definition round_to :: "string \<Rightarrow> string \<Rightarrow> FileChange list" where
  "round_to before after = [\<lparr>chPath = ''a'', chBefore = before, chAfter = after, chApplied = 1\<rparr>]"

lemmas af_eval = state_apply_def apply_change_def state_text_def newAutofixState_def al_get_def
  al_delete_def al_keys_def round_to_def Let_def

theorem autofix_apply_refines_overlay_witness:
  "\<exists>r s'. state_apply newAutofixState (round_to ''x'' ''y'') = Inr (r, s') \<and> af_inv s' \<and>
     state_text s' = [''a'' \<mapsto> ''y''] \<and> \<not> RestoredInitial r"
proof -
  let ?s = "\<lparr>af_initial = [(''a'', ''x'')], af_current = [(''a'', ''y'')], af_applied = [(''a'', 1)]\<rparr>"
  let ?r = "\<lparr>ChangedPaths = [''a''], roundApplied = 1, RestoredInitial = False\<rparr>"
  have run: "state_apply newAutofixState (round_to ''x'' ''y'') = Inr (?r, ?s)"
    by (simp add: af_eval)
  note eff = autofix_apply_refines_overlay [OF af_inv_new run]
  have "state_text ?s = [''a'' \<mapsto> ''y'']" using eff by (simp add: round_to_def)
  with run eff show ?thesis by (intro exI [of _ ?r] exI [of _ ?s]) simp
qed

text \<open>
  After any sequence of successful rounds on files whose texts were those the rounds started
  from, the final changes name each file once, lead from its first to its last and different
  text, and writing them gives the same files as writing the changes of every round in turn.
\<close>

theorem autofix_final_changes_net_delta:
  assumes "rounds_of state_apply newAutofixState css = Inr s" and "map_of (af_initial s) \<subseteq>\<^sub>m disk"
  shows "disk ++ new_texts (finalChanges s) = foldl (++) disk (map new_texts css) \<and>
    distinct (map chPath (finalChanges s)) \<and> ordered_by str_compare (map chPath (finalChanges s)) \<and>
    (\<forall>c \<in> set (finalChanges s). disk (chPath c) = Some (chBefore c) \<and> chBefore c \<noteq> chAfter c)"
proof -
  have inv: "af_inv s" using autofix_memory.rounds_inv [OF assms(1)] by simp
  have "disk (chPath c) = Some (chBefore c) \<and> chBefore c \<noteq> chAfter c" if "c \<in> set (finalChanges s)" for c
    using finalChanges_member [OF inv that] assms(2) by (metis domI map_le_def)
  moreover have "ordered_by str_compare (map chPath (finalChanges s))"
    by (simp add: finalChanges_def comp_def ordered_sort_strings)
  ultimately show ?thesis
    using autofix_memory.final_net_delta [OF assms(1) _ _ assms(2)] distinct_finalChanges [OF inv] by simp
qed

theorem autofix_final_changes_net_delta_witness:
  "\<exists>s. rounds_of state_apply newAutofixState [round_to ''x'' ''y'', round_to ''y'' ''x''] = Inr s \<and>
     [''a'' \<mapsto> ''x''] ++ new_texts (finalChanges s) = [''a'' \<mapsto> ''x''] \<and> finalChanges s = []"
proof -
  let ?s = "\<lparr>af_initial = [(''a'', ''x'')], af_current = [], af_applied = [(''a'', 2)]\<rparr>"
  have run: "rounds_of state_apply newAutofixState [round_to ''x'' ''y'', round_to ''y'' ''x''] = Inr ?s"
    by (simp add: af_eval)
  have "map_of (af_initial ?s) \<subseteq>\<^sub>m [''a'' \<mapsto> ''x'']" by simp
  from autofix_final_changes_net_delta [OF run this] have
    "[''a'' \<mapsto> ''x''] ++ new_texts (finalChanges ?s) = [''a'' \<mapsto> ''x'']" by (simp add: round_to_def)
  moreover have "finalChanges ?s = []" by (simp add: finalChanges_def al_keys_def sort_strings_def)
  ultimately show ?thesis using run by blast
qed

text \<open>
  The snapshot given to a generation provider holds exactly the files whose text differs from
  the initial one, once each and in path order, and looking a path up in its map or by scanning
  its files gives the same text.
\<close>

theorem autofix_snapshot_spec:
  assumes "af_inv s"
  shows "snapshot_Text (snapshot s) = find_snapshot (snFiles (snapshot s)) \<and>
    (snapshot_Text (snapshot s) p = Some t \<longleftrightarrow>
       state_text s p = Some t \<and> map_of (af_initial s) p \<noteq> Some t) \<and>
    distinct (map snPath (snFiles (snapshot s))) \<and>
    ordered_by str_compare (map snPath (snFiles (snapshot s)))"
proof -
  have cur: "map_of (af_current s) p = Some t \<longleftrightarrow>
      state_text s p = Some t \<and> map_of (af_initial s) p \<noteq> Some t" for p t
    by (cases "map_of (af_current s) p") (auto simp: state_text_def elim: af_inv_current [OF assms])
  have "map_of (af_current s) q = find_snapshot (snFiles (snapshot s)) q" for q
    by (auto simp: snapshot_def Let_def find_snapshot_map al_keys_dom al_get_def split: option.splits)
  moreover have "distinct (map snPath (snFiles (snapshot s)))"
    using assms by (simp add: snapshot_def Let_def comp_def af_inv_def)
  moreover have "ordered_by str_compare (map snPath (snFiles (snapshot s)))"
    by (simp add: snapshot_def Let_def comp_def ordered_sort_strings)
  ultimately show ?thesis using cur snapshot_Text_snapshot [OF assms] by (simp add: fun_eq_iff)
qed

theorem autofix_snapshot_spec_witness:
  "snapshot_Text (snapshot newAutofixState) = find_snapshot (snFiles (snapshot newAutofixState)) \<and>
   snapshot_Text (snapshot \<lparr>af_initial = [(''a'', ''x'')], af_current = [(''a'', ''y'')], af_applied = [(''a'', 1)]\<rparr>) ''a'' = Some ''y''"
proof -
  let ?s = "\<lparr>af_initial = [(''a'', ''x'')], af_current = [(''a'', ''y'')], af_applied = [(''a'', 1)]\<rparr>"
  have "af_inv ?s" by (simp add: af_inv_def al_keys_def)
  note spec = autofix_snapshot_spec [OF this, of "''a''" "''y''"]
  have "state_text ?s ''a'' = Some ''y'' \<and> map_of (af_initial ?s) ''a'' \<noteq> Some ''y''"
    by (simp add: state_text_def)
  with spec have "snapshot_Text (snapshot ?s) ''a'' = Some ''y''" by blast
  moreover from autofix_snapshot_spec [OF af_inv_new]
  have "snapshot_Text (snapshot newAutofixState) = find_snapshot (snFiles (snapshot newAutofixState))"
    by (rule conjunct1)
  ultimately show ?thesis by (intro conjI)
qed

end
