(* ===== verification/Language.thy ===== *)
theory Language
  imports Diagnostic "HOL-Library.Word"
begin

text \<open>
  The language configuration a rule sees: \<^verbatim>\<open>internal/utils/global_access.go\<close> and, in
  \<^verbatim>\<open>internal/rule\<close>, \<^verbatim>\<open>language_options.go\<close>, \<^verbatim>\<open>language_defaults.go\<close>, \<^verbatim>\<open>globals.go\<close>,
  \<^verbatim>\<open>configured.go\<close>, \<^verbatim>\<open>catalog.go\<close> and the edit demand of \<^verbatim>\<open>context.go\<close>.

  A Go map that is only looked up is a partial function; one that is iterated is an association
  list.  \<open>tspath.GetAnyExtensionFromPath\<close> (typescript-go) is the parameter \<open>extOf\<close>.
\<close>

unbundle bit_operations_syntax

section \<open>Configuration values\<close>

text \<open>The JSON values of a configuration (Go's \<open>any\<close>); a number is kept as its literal.\<close>

datatype json =
    JNull
  | JBool bool
  | JNum string
  | JStr string
  | JArr "json list"
  | JObj "(string \<times> json) list"

section \<open>Access levels of globals\<close>

datatype GlobalAccess = GlobalAccessUnset | GlobalAccessOff | GlobalAccessReadonly | GlobalAccessWritable

definition IsDeclared :: "GlobalAccess \<Rightarrow> bool" where
  "IsDeclared access = (access = GlobalAccessReadonly \<or> access = GlobalAccessWritable)"

definition IsWritable :: "GlobalAccess \<Rightarrow> bool" where
  "IsWritable access = (access = GlobalAccessWritable)"

fun access_String :: "GlobalAccess \<Rightarrow> string" where
  "access_String GlobalAccessOff = ''off''"
| "access_String GlobalAccessReadonly = ''readonly''"
| "access_String GlobalAccessWritable = ''writable''"
| "access_String GlobalAccessUnset = ''unset''"

definition NormalizeGlobalAccess :: "json \<Rightarrow> GlobalAccess \<times> bool" where
  "NormalizeGlobalAccess v =
     (case v of
        JNull \<Rightarrow> (GlobalAccessReadonly, True)
      | JBool b \<Rightarrow> (if b then (GlobalAccessWritable, True) else (GlobalAccessReadonly, True))
      | JStr s \<Rightarrow>
          (if s = ''true'' \<or> s = ''writable'' \<or> s = ''writeable'' then (GlobalAccessWritable, True)
           else if s = ''false'' \<or> s = ''readonly'' \<or> s = ''readable'' then (GlobalAccessReadonly, True)
           else if s = ''off'' then (GlobalAccessOff, True)
           else (GlobalAccessUnset, False))
      | _ \<Rightarrow> (GlobalAccessUnset, False))"

definition NormalizeInlineGlobalAccess :: "string \<Rightarrow> bool \<Rightarrow> GlobalAccess \<times> bool" where
  "NormalizeInlineGlobalAccess setting hasSetting =
     (if \<not> hasSetting then (GlobalAccessReadonly, True) else NormalizeGlobalAccess (JStr setting))"

section \<open>Language options\<close>

record LanguageOptions =
  ECMAVersion :: int
  SourceType :: string

definition LatestECMAScriptVersion :: int where
  "LatestECMAScriptVersion = 2026"

definition IsValidSourceType :: "string \<Rightarrow> bool" where
  "IsValidSourceType v = (v = ''module'' \<or> v = ''script'' \<or> v = ''commonjs'')"

definition NormalizeECMAScriptVersion :: "int \<Rightarrow> int \<times> bool" where
  "NormalizeECMAScriptVersion version =
     (if version = 3 \<or> version = 5 then (version, True)
      else if version \<ge> 6 \<and> version \<le> LatestECMAScriptVersion - 2009 then (version + 2009, True)
      else if version \<ge> 2015 \<and> version \<le> LatestECMAScriptVersion then (version, True)
      else (0, False))"

definition EffectiveECMAVersion :: "LanguageOptions \<Rightarrow> int" where
  "EffectiveECMAVersion lo = (if ECMAVersion lo = 0 then LatestECMAScriptVersion else ECMAVersion lo)"

definition EffectiveSourceType :: "LanguageOptions \<Rightarrow> string" where
  "EffectiveSourceType lo = (if SourceType lo = [] then ''module'' else SourceType lo)"

section \<open>Language defaults\<close>

type_synonym languageGlobal = "string \<times> GlobalAccess"

record GlobalsInit =
  initEntries :: "languageGlobal list"

fun entries_access :: "languageGlobal list \<Rightarrow> string \<Rightarrow> GlobalAccess" where
  "entries_access [] name = GlobalAccessUnset"
| "entries_access ((n, access) # es) name = (if n = name then access else entries_access es name)"

definition init_access :: "GlobalsInit \<Rightarrow> string \<Rightarrow> GlobalAccess" where
  "init_access i name = entries_access (initEntries i) name"

record RefStoreInit =
  implicitWrapperBindings :: "string list"
  nonGlobalTopLevelScope :: bool
  globalTopLevelScope :: bool

definition hasImplicitWrapperBinding :: "RefStoreInit \<Rightarrow> string \<Rightarrow> bool" where
  "hasImplicitWrapperBinding i name = list_ex (\<lambda>c. c = name) (implicitWrapperBindings i)"

definition languageGlobalCatalog :: "languageGlobal list" where
  "languageGlobalCatalog =
     [(''exports'', GlobalAccessWritable), (''global'', GlobalAccessReadonly),
      (''module'', GlobalAccessReadonly), (''require'', GlobalAccessReadonly)]"

definition commonJSGlobalsInit :: GlobalsInit where
  "commonJSGlobalsInit = \<lparr>initEntries = languageGlobalCatalog\<rparr>"

definition moduleRefStoreInit :: RefStoreInit where
  "moduleRefStoreInit =
     \<lparr>implicitWrapperBindings = [], nonGlobalTopLevelScope = True, globalTopLevelScope = False\<rparr>"

definition globalProgramRefStoreInit :: RefStoreInit where
  "globalProgramRefStoreInit =
     \<lparr>implicitWrapperBindings = [], nonGlobalTopLevelScope = False, globalTopLevelScope = True\<rparr>"

definition commonJSRefStoreInit :: RefStoreInit where
  "commonJSRefStoreInit =
     \<lparr>implicitWrapperBindings = [''arguments''], nonGlobalTopLevelScope = True, globalTopLevelScope = False\<rparr>"

definition emptyGlobalsInit :: GlobalsInit where
  "emptyGlobalsInit = \<lparr>initEntries = []\<rparr>"

definition emptyRefStoreInit :: RefStoreInit where
  "emptyRefStoreInit =
     \<lparr>implicitWrapperBindings = [], nonGlobalTopLevelScope = False, globalTopLevelScope = False\<rparr>"

definition javascriptSourceExtensions :: "string list" where
  "javascriptSourceExtensions = [''.js'', ''.jsx'', ''.mjs'', ''.cjs'']"

definition isJavaScriptSourceExtension :: "(string \<Rightarrow> string) \<Rightarrow> string \<Rightarrow> bool" where
  "isJavaScriptSourceExtension extOf fileName = (extOf fileName \<in> set javascriptSourceExtensions)"

definition ResolveLanguageDefaults ::
  "(string \<Rightarrow> string) \<Rightarrow> string \<Rightarrow> LanguageOptions \<Rightarrow> GlobalsInit \<times> RefStoreInit \<times> LanguageOptions" where
  "ResolveLanguageDefaults extOf fileName lo =
     (let lo = (if SourceType lo = []
                then lo\<lparr>SourceType := (if extOf fileName = ''.cjs'' then ''commonjs'' else ''module'')\<rparr>
                else lo)
      in if SourceType lo = ''commonjs''
         then (if isJavaScriptSourceExtension extOf fileName
               then (commonJSGlobalsInit, commonJSRefStoreInit, lo)
               else (commonJSGlobalsInit, globalProgramRefStoreInit, lo))
         else if SourceType lo = ''module'' then (emptyGlobalsInit, moduleRefStoreInit, lo)
         else if SourceType lo = ''script'' then (emptyGlobalsInit, globalProgramRefStoreInit, lo)
         else (emptyGlobalsInit, emptyRefStoreInit, lo))"

section \<open>Configured rules\<close>

record RuleEnvironment =
  envSettings :: "(string \<times> json) list"
  envLanguageOptions :: LanguageOptions
  envGlobals :: "string \<rightharpoonup> GlobalAccess"

text \<open>The \<open>Run\<close> function of a native rule works on the typescript-go syntax tree and is not part
  of the value.\<close>

record ConfiguredRule =
  crName :: string
  crEnvironment :: "RuleEnvironment option"
  crSeverity :: DiagnosticSeverity
  RequiresTypeInfo :: bool
  IsEslintPluginRule :: bool
  crOptions :: "json list"

fun filter_rules :: "ConfiguredRule list \<Rightarrow> ConfiguredRule list \<Rightarrow> ConfiguredRule list" where
  "filter_rules filtered [] = filtered"
| "filter_rules filtered (r # rs) =
     filter_rules (if \<not> RequiresTypeInfo r then filtered @ [r] else filtered) rs"

definition FilterNonTypeAwareRules :: "ConfiguredRule list \<Rightarrow> ConfiguredRule list" where
  "FilterNonTypeAwareRules rules = filter_rules [] rules"

lemma FilterNonTypeAwareRules_filter [simp]:
  "FilterNonTypeAwareRules rules = filter (\<lambda>r. \<not> RequiresTypeInfo r) rules"
proof -
  have "filter_rules acc rules = acc @ filter (\<lambda>r. \<not> RequiresTypeInfo r) rules" for acc
    by (induction acc rules rule: filter_rules.induct) auto
  then show ?thesis by (simp add: FilterNonTypeAwareRules_def)
qed

section \<open>Edit demand\<close>

text \<open>A set of bits in a \<open>uint8\<close>.\<close>

type_synonym EditDemand = "8 word"

definition EditDemandNone :: EditDemand where "EditDemandNone = 0"
definition EditDemandAutofix :: EditDemand where "EditDemandAutofix = 1"
definition EditDemandSuggestion :: EditDemand where "EditDemandSuggestion = 2"
definition EditDemandAll :: EditDemand where "EditDemandAll = EditDemandAutofix OR EditDemandSuggestion"

definition EditDemand_IsValid :: "EditDemand \<Rightarrow> bool" where
  "EditDemand_IsValid d = (d AND NOT EditDemandAll = 0)"

section \<open>The globals of a file\<close>

record InlineGlobal =
  igName :: string
  igAccess :: GlobalAccess
  igNameRanges :: "TextRange list"

definition ecmaScriptGlobalIntroducedIn :: "(string \<times> int) list" where
  "ecmaScriptGlobalIntroducedIn =
     map (\<lambda>name. (name, 3))
       [''Array'', ''Boolean'', ''constructor'', ''Date'', ''decodeURI'',
        ''decodeURIComponent'', ''encodeURI'', ''encodeURIComponent'', ''Error'',
        ''escape'', ''eval'', ''EvalError'', ''Function'', ''hasOwnProperty'',
        ''Infinity'', ''isFinite'', ''isNaN'', ''isPrototypeOf'', ''Math'', ''NaN'',
        ''Number'', ''Object'', ''parseFloat'', ''parseInt'', ''propertyIsEnumerable'',
        ''RangeError'', ''ReferenceError'', ''RegExp'', ''String'', ''SyntaxError'',
        ''toLocaleString'', ''toString'', ''TypeError'', ''undefined'', ''unescape'',
        ''URIError'', ''valueOf''] @
     map (\<lambda>name. (name, 5))
       [''JSON''] @
     map (\<lambda>name. (name, 2015))
       [''ArrayBuffer'', ''DataView'', ''Float32Array'', ''Float64Array'',
        ''Int16Array'', ''Int32Array'', ''Int8Array'', ''Intl'', ''Map'', ''Promise'',
        ''Proxy'', ''Reflect'', ''Set'', ''Symbol'', ''Uint16Array'', ''Uint32Array'',
        ''Uint8Array'', ''Uint8ClampedArray'', ''WeakMap'', ''WeakSet''] @
     map (\<lambda>name. (name, 2017))
       [''Atomics'', ''SharedArrayBuffer''] @
     map (\<lambda>name. (name, 2020))
       [''BigInt'', ''BigInt64Array'', ''BigUint64Array'', ''globalThis''] @
     map (\<lambda>name. (name, 2021))
       [''AggregateError'', ''FinalizationRegistry'', ''WeakRef''] @
     map (\<lambda>name. (name, 2025))
       [''Float16Array'', ''Iterator''] @
     map (\<lambda>name. (name, 2026))
       [''AsyncDisposableStack'', ''DisposableStack'', ''SuppressedError'',
        ''Temporal'']"

record Globals =
  gLanguageOptions :: LanguageOptions
  gInit :: GlobalsInit
  configOverrides :: "(string \<times> GlobalAccess) list"
  inlineOverrides :: "(string \<times> GlobalAccess) list"
  inlineDeclarations :: "InlineGlobal list"

text \<open>Reading an absent key of \<open>map[string]GlobalAccess\<close> gives the zero value.\<close>

definition access_at :: "(string \<times> GlobalAccess) list \<Rightarrow> string \<Rightarrow> GlobalAccess" where
  "access_at m name = (case map_of m name of None \<Rightarrow> GlobalAccessUnset | Some a \<Rightarrow> a)"

definition LanguageAccess :: "Globals \<Rightarrow> string \<Rightarrow> GlobalAccess" where
  "LanguageAccess g name =
     (let access = init_access (gInit g) name
      in if access \<noteq> GlobalAccessUnset then access
         else (case map_of ecmaScriptGlobalIntroducedIn name of
                 None \<Rightarrow> GlobalAccessUnset
               | Some introduced \<Rightarrow>
                   if introduced \<le> EffectiveECMAVersion (gLanguageOptions g)
                   then GlobalAccessReadonly else GlobalAccessUnset))"

definition IsECMAScriptGlobalName :: "string \<Rightarrow> bool" where
  "IsECMAScriptGlobalName name = (map_of ecmaScriptGlobalIntroducedIn name \<noteq> None)"

definition ConfigOverride :: "Globals \<Rightarrow> string \<Rightarrow> GlobalAccess" where
  "ConfigOverride g name = access_at (configOverrides g) name"

definition Override :: "Globals \<Rightarrow> string \<Rightarrow> GlobalAccess" where
  "Override g name =
     (case map_of (inlineOverrides g) name of
        Some access \<Rightarrow> access
      | None \<Rightarrow> access_at (configOverrides g) name)"

definition ConfiguredAccess :: "Globals \<Rightarrow> string \<Rightarrow> GlobalAccess" where
  "ConfiguredAccess g name =
     (case map_of (configOverrides g) name of
        Some access \<Rightarrow> access
      | None \<Rightarrow> LanguageAccess g name)"

definition Access :: "Globals \<Rightarrow> string \<Rightarrow> GlobalAccess" where
  "Access g name =
     (case map_of (inlineOverrides g) name of
        Some access \<Rightarrow> access
      | None \<Rightarrow> ConfiguredAccess g name)"

text \<open>One step of the loops of \<open>ApplyTo\<close>: \<open>dst\<close> is a Go set \<open>map[string]bool\<close>.\<close>

definition apply_name :: "Globals \<Rightarrow> (string \<rightharpoonup> bool) \<Rightarrow> string \<Rightarrow> (string \<rightharpoonup> bool)" where
  "apply_name g dst name = (if IsDeclared (Access g name) then dst(name \<mapsto> True) else dst(name := None))"

definition ApplyTo :: "Globals \<Rightarrow> (string \<rightharpoonup> bool) \<Rightarrow> (string \<rightharpoonup> bool)" where
  "ApplyTo g dst =
     (let dst = foldl (apply_name g) dst (al_keys ecmaScriptGlobalIntroducedIn);
          dst = foldl (apply_name g) dst (al_keys languageGlobalCatalog);
          dst = foldl (apply_name g) dst (al_keys (configOverrides g))
      in foldl (apply_name g) dst (al_keys (inlineOverrides g)))"

section \<open>The rule catalog\<close>

text \<open>A rule as the catalog sees it.  \<open>RuleNamespace\<close> is the part of a name before its last slash.\<close>

record Rule =
  ruleName :: string
  ruleIsPlugin :: bool
  ruleRequiresTypeInfo :: bool

record Catalog =
  catRules :: "(string \<times> Rule) list"
  ruleNamesByNamespace :: "(string \<times> string list) list"
  hasESLintPluginRules :: bool

record ESLintPluginMetadata =
  plPrefix :: string
  plRuleNames :: "string list"

fun last_index :: "'a \<Rightarrow> 'a list \<Rightarrow> nat option" where
  "last_index c [] = None"
| "last_index c (x # xs) =
     (case last_index c xs of
        Some i \<Rightarrow> Some (Suc i)
      | None \<Rightarrow> if x = c then Some 0 else None)"

definition RuleNamespace :: "string \<Rightarrow> string" where
  "RuleNamespace name = (case last_index (CHR ''/'') name of Some i \<Rightarrow> take i name | None \<Rightarrow> [])"

fun catalog_names :: "(string \<times> string list) list \<Rightarrow> bool \<Rightarrow> (string \<times> Rule) list \<Rightarrow> (string \<times> string list) list \<times> bool" where
  "catalog_names byNs has [] = (byNs, has)"
| "catalog_names byNs has ((name, r) # rs) =
     (let ns = RuleNamespace name;
          old = (case map_of byNs ns of None \<Rightarrow> [] | Some xs \<Rightarrow> xs)
      in catalog_names (al_update ns (old @ [name]) byNs) (has \<or> ruleIsPlugin r) rs)"

definition newCatalog :: "(string \<times> Rule) list \<Rightarrow> Catalog" where
  "newCatalog rules =
     (let (byNs, has) = catalog_names [] False rules
      in \<lparr>catRules = rules,
          ruleNamesByNamespace = map (\<lambda>(ns, names). (ns, sort_strings names)) byNs,
          hasESLintPluginRules = has\<rparr>)"

definition NewCatalog :: "Rule list \<Rightarrow> Catalog" where
  "NewCatalog rules = newCatalog (foldl (\<lambda>m r. al_update (ruleName r) r m) [] rules)"

fun add_plugin_rules ::
  "string \<Rightarrow> string list \<Rightarrow> (string \<times> Rule) list \<times> string list \<Rightarrow> (string \<times> Rule) list \<times> string list" where
  "add_plugin_rules prefix [] st = st"
| "add_plugin_rules prefix (name # names) (byName, shadowed) =
     (let fullName = prefix @ ''/'' @ name
      in add_plugin_rules prefix names
           (case map_of byName fullName of
              Some existing \<Rightarrow> (byName, if \<not> ruleIsPlugin existing then shadowed @ [fullName] else shadowed)
            | None \<Rightarrow> (al_update fullName \<lparr>ruleName = fullName, ruleIsPlugin = True, ruleRequiresTypeInfo = False\<rparr> byName, shadowed)))"

fun add_plugins ::
  "ESLintPluginMetadata list \<Rightarrow> (string \<times> Rule) list \<times> string list \<Rightarrow> (string \<times> Rule) list \<times> string list" where
  "add_plugins [] st = st"
| "add_plugins (p # ps) st =
     add_plugins ps (if plPrefix p = [] then st else add_plugin_rules (plPrefix p) (plRuleNames p) st)"

definition ForESLintPlugins :: "Catalog \<Rightarrow> ESLintPluginMetadata list \<Rightarrow> Catalog \<times> string list" where
  "ForESLintPlugins c plugins =
     (if length plugins = 0 \<and> \<not> hasESLintPluginRules c then (c, [])
      else let (byName, shadowed) =
             add_plugins plugins (filter (\<lambda>(_, r). \<not> ruleIsPlugin r) (catRules c), [])
           in (newCatalog byName, shadowed))"

definition RuleNamesForNamespace :: "Catalog \<Rightarrow> string \<Rightarrow> string list" where
  "RuleNamesForNamespace c ns = (case map_of (ruleNamesByNamespace c) ns of None \<Rightarrow> [] | Some xs \<Rightarrow> xs)"

definition Lookup :: "Catalog \<Rightarrow> string \<Rightarrow> Rule option" where
  "Lookup c name = map_of (catRules c) name"

section \<open>Laws of the globals view\<close>

lemma foldl_apply_name:
  "foldl (apply_name g) dst names n =
     (if n \<in> set names then (if IsDeclared (Access g n) then Some True else None) else dst n)"
  by (induction names arbitrary: dst) (auto simp: apply_name_def)

definition known_name :: "Globals \<Rightarrow> string \<Rightarrow> bool" where
  "known_name g name \<longleftrightarrow>
     name \<in> set (al_keys ecmaScriptGlobalIntroducedIn) \<union> set (al_keys languageGlobalCatalog) \<union>
       set (al_keys (configOverrides g)) \<union> set (al_keys (inlineOverrides g))"

lemma EditDemand_bits:
  "(d :: 8 word) AND NOT 3 = 0 \<longleftrightarrow> d = 0 \<or> d = 1 \<or> d = 2 \<or> d = 3"
proof
  assume "d AND NOT 3 = 0"
  moreover have "d = (d AND 3) OR (d AND NOT 3)" by (simp flip: bit.conj_disj_distrib)
  moreover have "(3 :: 8 word) = mask 2" by (simp add: mask_eq_exp_minus_1)
  ultimately have "d = take_bit 2 d" by (simp add: take_bit_eq_mask)
  then have "unat d = take_bit 2 (unat d)" by (metis unsigned_take_bit_eq)
  then have "unat d < 4" using take_bit_nat_less_exp [of 2 "unat d"] by simp
  then show "d = 0 \<or> d = 1 \<or> d = 2 \<or> d = 3"
    by (auto simp: word_unat_eq_iff)
qed auto

section \<open>Laws of the catalog\<close>

definition native_in :: "(string \<times> Rule) list \<Rightarrow> string \<Rightarrow> bool" where
  "native_in m n = (case map_of m n of None \<Rightarrow> False | Some r \<Rightarrow> \<not> ruleIsPlugin r)"

definition plugin_names :: "ESLintPluginMetadata list \<Rightarrow> string list" where
  "plugin_names ps =
     concat (map (\<lambda>p. if plPrefix p = [] then [] else map (\<lambda>n. plPrefix p @ ''/'' @ n) (plRuleNames p)) ps)"

text \<open>What adding a list of plugin rule names to a name index does.\<close>

definition extends_by :: "string list \<Rightarrow> (string \<times> Rule) list \<times> string list \<Rightarrow> (string \<times> Rule) list \<times> string list \<Rightarrow> bool" where
  "extends_by names st st' \<longleftrightarrow>
     (\<forall>n. map_of (fst st') n =
        (if map_of (fst st) n = None \<and> n \<in> set names
         then Some \<lparr>ruleName = n, ruleIsPlugin = True, ruleRequiresTypeInfo = False\<rparr> else map_of (fst st) n)) \<and>
     (distinct (al_keys (fst st)) \<longrightarrow> distinct (al_keys (fst st'))) \<and>
     snd st' = snd st @ filter (native_in (fst st)) names"

lemma extends_by_refl: "extends_by [] st st"
  by (simp add: extends_by_def)

lemma extends_by_native: "extends_by names st st' \<Longrightarrow> native_in (fst st') = native_in (fst st)"
  by (auto simp: extends_by_def native_in_def fun_eq_iff split: option.splits)

lemma extends_by_trans:
  assumes "extends_by xs a b" and "extends_by ys b c"
  shows "extends_by (xs @ ys) a c"
  using assms extends_by_native [OF assms(1)] by (auto simp: extends_by_def)

lemma add_plugin_rules_extends:
  "extends_by (map (\<lambda>n. prefix @ ''/'' @ n) names) st (add_plugin_rules prefix names st)"
proof (induction prefix names st rule: add_plugin_rules.induct)
  case (1 prefix st)
  then show ?case by (simp add: extends_by_refl)
next
  case (2 prefix name names byName shadowed)
  let ?full = "prefix @ ''/'' @ name"
  let ?st = "case map_of byName ?full of
      Some existing \<Rightarrow> (byName, if \<not> ruleIsPlugin existing then shadowed @ [?full] else shadowed)
    | None \<Rightarrow> (al_update ?full \<lparr>ruleName = ?full, ruleIsPlugin = True, ruleRequiresTypeInfo = False\<rparr> byName, shadowed)"
  have "extends_by [?full] (byName, shadowed) ?st"
    by (auto simp: extends_by_def native_in_def split: option.splits)
  from extends_by_trans [OF this 2 [OF refl]]
  show ?case by (simp only: add_plugin_rules.simps Let_def list.map append.simps)
qed

lemma add_plugins_extends: "extends_by (plugin_names ps) st (add_plugins ps st)"
proof (induction ps arbitrary: st)
  case Nil
  then show ?case by (simp add: extends_by_refl plugin_names_def)
next
  case (Cons p ps)
  let ?st = "if plPrefix p = [] then st else add_plugin_rules (plPrefix p) (plRuleNames p) st"
  have "extends_by (plugin_names [p]) st ?st"
    using add_plugin_rules_extends [of "plPrefix p" "plRuleNames p" st]
    by (simp add: plugin_names_def extends_by_refl)
  from extends_by_trans [OF this Cons] show ?case by (simp add: plugin_names_def)
qed

lemma catalog_names_spec:
  assumes "catalog_names byNs has rs = (byNs', has')"
  shows "(case map_of byNs' ns of None \<Rightarrow> [] | Some xs \<Rightarrow> xs) =
     (case map_of byNs ns of None \<Rightarrow> [] | Some xs \<Rightarrow> xs) @ filter (\<lambda>n. RuleNamespace n = ns) (map fst rs)"
    and "has' \<longleftrightarrow> has \<or> (\<exists>r \<in> set rs. ruleIsPlugin (snd r))"
  using assms by (induction byNs has rs rule: catalog_names.induct) (auto simp: Let_def split: option.splits if_splits)

lemma map_of_map_snd: "map_of (map (\<lambda>(k, v). (k, f v)) m) k = map_option f (map_of m k)"
  by (induction m) auto

lemma newCatalog_spec:
  "Lookup (newCatalog m) n = map_of m n"
  "RuleNamesForNamespace (newCatalog m) ns = sort_strings (filter (\<lambda>n. RuleNamespace n = ns) (al_keys m))"
  "hasESLintPluginRules (newCatalog m) \<longleftrightarrow> (\<exists>r \<in> set m. ruleIsPlugin (snd r))"
proof -
  obtain byNs has where run: "catalog_names [] False m = (byNs, has)" by fastforce
  note spec = catalog_names_spec [OF run]
  show "Lookup (newCatalog m) n = map_of m n"
    by (simp add: newCatalog_def Lookup_def run)
  show "hasESLintPluginRules (newCatalog m) \<longleftrightarrow> (\<exists>r \<in> set m. ruleIsPlugin (snd r))"
    using spec(2) by (simp add: newCatalog_def run)
  show "RuleNamesForNamespace (newCatalog m) ns = sort_strings (filter (\<lambda>n. RuleNamespace n = ns) (al_keys m))"
    using spec(1) [of ns]
    by (auto simp: newCatalog_def RuleNamesForNamespace_def run map_of_map_snd al_keys_def sort_strings_def
        split: option.splits)
qed

text \<open>The catalogs the constructors make.\<close>

definition cat_inv :: "Catalog \<Rightarrow> bool" where
  "cat_inv c \<longleftrightarrow> distinct (al_keys (catRules c)) \<and>
     (\<forall>ns. RuleNamesForNamespace c ns = sort_strings (filter (\<lambda>n. RuleNamespace n = ns) (al_keys (catRules c)))) \<and>
     (hasESLintPluginRules c \<longleftrightarrow> (\<exists>r \<in> set (catRules c). ruleIsPlugin (snd r)))"

lemma cat_inv_newCatalog: "distinct (al_keys m) \<Longrightarrow> cat_inv (newCatalog m)"
  using newCatalog_spec(2,3) [of m] by (simp add: cat_inv_def newCatalog_def split: prod.splits)

lemma cat_inv_NewCatalog: "cat_inv (NewCatalog rules)"
proof -
  have "distinct (al_keys (foldl (\<lambda>m r. al_update (ruleName r) r m) m rules))" if "distinct (al_keys m)" for m
    using that by (induction rules arbitrary: m) simp_all
  then show ?thesis unfolding NewCatalog_def by (intro cat_inv_newCatalog) (simp add: al_keys_def)
qed

lemma distinct_al_keys_filter: "distinct (al_keys m) \<Longrightarrow> distinct (al_keys (filter P m))"
  by (simp add: al_keys_def distinct_map_filter)

lemma map_of_filter_native:
  "distinct (al_keys m) \<Longrightarrow>
     map_of (filter (\<lambda>(_, r). \<not> ruleIsPlugin r) m) n =
     (if native_in m n then map_of m n else None)"
proof (induction m)
  case (Cons p m)
  obtain k r where p: "p = (k, r)" by (cases p)
  have "map_of m k = None" using Cons.prems p by (auto simp: al_keys_def map_of_eq_None_iff)
  with Cons p show ?case by (auto simp: native_in_def al_keys_def)
qed (simp add: native_in_def)

section \<open>Properties\<close>

text \<open>
  Applying the globals view to a destination set makes every name the view knows present exactly
  when its final access declares it, whatever the set contained, and leaves every other name alone.
\<close>

theorem Globals_ApplyTo_spec:
  "ApplyTo g dst name =
     (if known_name g name then (if IsDeclared (Access g name) then Some True else None) else dst name)"
  by (simp add: ApplyTo_def Let_def foldl_apply_name known_name_def)

text \<open>
  Deriving a catalog for a set of plugins keeps every native rule, replaces the plugin placeholders
  by exactly the supplied plugins' rules, never lets a plugin rule override a native one, reports
  the collisions in input order, and keeps the per-namespace index complete and sorted.
\<close>

theorem ForESLintPlugins_spec:
  assumes "cat_inv c" and "ForESLintPlugins c plugins = (c', shadowed)"
  shows "cat_inv c' \<and> shadowed = filter (native_in (catRules c)) (plugin_names plugins) \<and>
    Lookup c' n =
      (if native_in (catRules c) n then Lookup c n
       else if n \<in> set (plugin_names plugins) then Some \<lparr>ruleName = n, ruleIsPlugin = True, ruleRequiresTypeInfo = False\<rparr> else None)"
proof (cases "plugins = [] \<and> \<not> hasESLintPluginRules c")
  case True
  with assms have "\<not> (\<exists>r \<in> set (catRules c). ruleIsPlugin (snd r))" by (simp add: cat_inv_def)
  then have "map_of (catRules c) n = Some r \<Longrightarrow> \<not> ruleIsPlugin r" for r
    by (force dest: map_of_SomeD)
  with True assms show ?thesis
    by (auto simp: ForESLintPlugins_def plugin_names_def Lookup_def native_in_def split: option.splits)
next
  case False
  let ?native = "filter (\<lambda>(_, r). \<not> ruleIsPlugin r) (catRules c)"
  obtain byName sh where run: "add_plugins plugins (?native, []) = (byName, sh)" by fastforce
  have ext: "extends_by (plugin_names plugins) (?native, []) (byName, sh)"
    using add_plugins_extends [of plugins "(?native, [])"] run by simp
  have d: "distinct (al_keys (catRules c))" using assms(1) by (simp add: cat_inv_def)
  have same: "native_in ?native = native_in (catRules c)"
    by (auto simp: fun_eq_iff native_in_def map_of_filter_native [OF d] split: option.splits)
  have c': "c' = newCatalog byName" "shadowed = sh"
    using assms(2) False run by (auto simp: ForESLintPlugins_def)
  have "distinct (al_keys byName)" using ext distinct_al_keys_filter [OF d] by (simp add: extends_by_def)
  then have "cat_inv c'" unfolding c' by (rule cat_inv_newCatalog)
  moreover have "shadowed = filter (native_in (catRules c)) (plugin_names plugins)"
    using ext c'(2) same by (simp add: extends_by_def)
  moreover have "map_of byName n = (if native_in (catRules c) n then map_of (catRules c) n
       else if n \<in> set (plugin_names plugins) then Some \<lparr>ruleName = n, ruleIsPlugin = True, ruleRequiresTypeInfo = False\<rparr> else None)"
    using ext map_of_filter_native [OF d, of n] by (auto simp: extends_by_def native_in_def split: option.splits)
  ultimately show ?thesis unfolding c'(1) newCatalog_spec(1) by (simp add: Lookup_def)
qed

theorem ForESLintPlugins_spec_witness:
  "Lookup (fst (ForESLintPlugins (NewCatalog [\<lparr>ruleName = ''p/a'', ruleIsPlugin = False, ruleRequiresTypeInfo = False\<rparr>])
      [\<lparr>plPrefix = ''p'', plRuleNames = [''a'', ''b'']\<rparr>])) ''p/b'' = Some \<lparr>ruleName = ''p/b'', ruleIsPlugin = True, ruleRequiresTypeInfo = False\<rparr> \<and>
   snd (ForESLintPlugins (NewCatalog [\<lparr>ruleName = ''p/a'', ruleIsPlugin = False, ruleRequiresTypeInfo = False\<rparr>])
      [\<lparr>plPrefix = ''p'', plRuleNames = [''a'', ''b'']\<rparr>]) = [''p/a'']"
proof -
  let ?c = "NewCatalog [\<lparr>ruleName = ''p/a'', ruleIsPlugin = False, ruleRequiresTypeInfo = False\<rparr>]"
  let ?ps = "[\<lparr>plPrefix = ''p'', plRuleNames = [''a'', ''b'']\<rparr>]"
  have c: "catRules ?c = [(''p/a'', \<lparr>ruleName = ''p/a'', ruleIsPlugin = False, ruleRequiresTypeInfo = False\<rparr>)]"
    by (simp add: NewCatalog_def newCatalog_def split: prod.splits)
  show ?thesis
    using ForESLintPlugins_spec [OF cat_inv_NewCatalog prod.collapse [symmetric],
        of "[\<lparr>ruleName = ''p/a'', ruleIsPlugin = False, ruleRequiresTypeInfo = False\<rparr>]" ?ps "''p/b''"]
    by (simp add: c native_in_def plugin_names_def)
qed

end
