(* ===== verification/Lint_Plan.thy ===== *)
theory Lint_Plan
  imports Fix_Plan Language "HOL-Library.Sublist"
begin

text \<open>
  \<^verbatim>\<open>internal/linter/lint_plan.go\<close>, \<^verbatim>\<open>linter.go\<close>, \<^verbatim>\<open>typecheck.go\<close>, \<^verbatim>\<open>typescript_diagnostics.go\<close> and
  \<^verbatim>\<open>timing.go\<close>: preparing the immutable lint plan of a generation (target resolution, syntax
  gate, rule resolution, sequentially or by parallel workers), splitting a program's files into
  shards, running them, merging the per-program results and deduplicating the diagnostics of the
  type-check pass.

  A \<open>program.Program\<close> is represented by what the linter asks of it.  Running the rules of one
  file on its syntax tree is the parameter \<open>lintFile\<close>.  Tasks run on several goroutines: every
  task writes its own slot or sends to one channel, so a parallel run is modelled by the list of
  task results together with the parameter \<open>arrive\<close>, the order in which the channel delivers the
  diagnostics of the tasks.
\<close>

section \<open>Programs\<close>

datatype TsDiagnostic =
  TsDiagnostic (tsFile: "SourceFile option") (tsCode: int) (tsLoc: TextRange) (tsText: string)
    (tsChain: "TsDiagnostic list") (tsRelated: "TsDiagnostic list")

record Program =
  prValid :: bool
  prSourceFiles :: "SourceFile list"
  prGetSourceFile :: "string \<Rightarrow> SourceFile option"
  prCanProvideTypeChecker :: "SourceFile \<Rightarrow> bool"
  prTypeCheckerForFile :: "SourceFile \<Rightarrow> nat"
  prCanProvideProgramDiagnostics :: bool
  prSyntacticDiagnostics :: "SourceFile \<Rightarrow> TsDiagnostic list"
  prNoEmitDiagnostics :: "TsDiagnostic list"
  prFilesystemPathID :: "string \<Rightarrow> string"
  prLineOf :: "SourceFile \<Rightarrow> int \<Rightarrow> int"

definition validateProgram :: "Program option \<Rightarrow> lint_error option" where
  "validateProgram sourceProgram =
     (case sourceProgram of
        None \<Rightarrow> Some (Errorf ''linter: Program must not be nil'' [])
      | Some p \<Rightarrow> if \<not> prValid p then Some (Errorf ''linter: Program must be created by internal/program'' []) else None)"

fun validatePrograms :: "Program option list \<Rightarrow> lint_error option" where
  "validatePrograms [] = None"
| "validatePrograms (p # ps) =
     (case validateProgram p of Some e \<Rightarrow> Some e | None \<Rightarrow> validatePrograms ps)"

lemma validatePrograms_None_iff:
  "validatePrograms ps = None \<longleftrightarrow> (\<forall>p \<in> set ps. \<exists>q. p = Some q \<and> prValid q)"
  by (induction ps) (auto simp: validateProgram_def split: option.splits)

section \<open>Plans\<close>

record lintFilePlan =
  planFile :: SourceFile
  planRules :: "ConfiguredRule list"
  planEnvironment :: "RuleEnvironment option"
  hasTypeChecker :: bool

record programLintPlan =
  planProgram :: Program
  planFiles :: "lintFilePlan list"

record syntacticDiagnosticGroup =
  groupProgramIndex :: nat
  groupDiagnostics :: "RuleDiagnostic list"

record LintPlan =
  planPrograms :: "programLintPlan list"
  syntacticDiagnosticGroups :: "syntacticDiagnosticGroup list"

record LintTarget =
  targetFile :: SourceFile
  targetRules :: "ConfiguredRule list"

definition zeroMessage :: "string \<Rightarrow> RuleMessage" where
  "zeroMessage description = \<lparr>msgId = [], msgDescription = description, msgData = Map.empty\<rparr>"

definition newTypeScriptDiagnostic :: "SourceFile \<Rightarrow> TsDiagnostic \<Rightarrow> string \<Rightarrow> RuleDiagnostic" where
  "newTypeScriptDiagnostic sourceFile diagnostic description =
     \<lparr>diagRange = tsLoc diagnostic,
      diagRuleName = ''TypeScript(TS'' @ go_itoa (tsCode diagnostic) @ '')'',
      diagMessage = zeroMessage description,
      FixesPtr = None, Suggestions = None,
      diagSourceFile = Some sourceFile,
      FilePath = sf_fileName sourceFile,
      diagSeverity = SeverityError,
      diagOrigin = DiagnosticOriginTypeScript,
      PreFormatted = True\<rparr>"

definition CollectFileSyntacticDiagnostics :: "Program \<Rightarrow> SourceFile \<Rightarrow> RuleDiagnostic list" where
  "CollectFileSyntacticDiagnostics p sourceFile =
     map (\<lambda>d. newTypeScriptDiagnostic sourceFile d (tsText d)) (prSyntacticDiagnostics p sourceFile)"

fun firstNativeRuleEnvironment :: "ConfiguredRule list \<Rightarrow> RuleEnvironment option" where
  "firstNativeRuleEnvironment [] = None"
| "firstNativeRuleEnvironment (r # rs) =
     (if \<not> IsEslintPluginRule r \<and> crEnvironment r \<noteq> None then crEnvironment r
      else firstNativeRuleEnvironment rs)"

definition emptyFilePlan :: "SourceFile \<Rightarrow> lintFilePlan" where
  "emptyFilePlan file = \<lparr>planFile = file, planRules = [], planEnvironment = None, hasTypeChecker = False\<rparr>"

definition programLintPlanFromFiles :: "Program \<Rightarrow> SourceFile list \<Rightarrow> programLintPlan" where
  "programLintPlanFromFiles p files = \<lparr>planProgram = p, planFiles = map emptyFilePlan files\<rparr>"

text \<open>
  \<open>resolveProgramLintPlanFile\<close> on one slot: the updated slot and the syntax diagnostics.  A
  cancelled context makes it stop early; the caller then discards the plan.
\<close>

definition resolveProgramLintPlanFile ::
  "bool \<Rightarrow> (SourceFile \<Rightarrow> ConfiguredRule list) \<Rightarrow> Program \<Rightarrow> lintFilePlan \<Rightarrow> lintFilePlan \<times> RuleDiagnostic list" where
  "resolveProgramLintPlanFile skipSyntaxCheck getRules p filePlan =
     (let file = planFile filePlan;
          diagnostics = (if skipSyntaxCheck then [] else CollectFileSyntacticDiagnostics p file)
      in if length diagnostics > 0 then (filePlan, diagnostics)
         else (let rules = getRules file;
                   typed = prCanProvideTypeChecker p file;
                   rules' = (if typed then rules else FilterNonTypeAwareRules rules)
               in (filePlan\<lparr>hasTypeChecker := typed, planRules := rules',
                            planEnvironment := firstNativeRuleEnvironment rules'\<rparr>, [])))"

text \<open>The exact-universe fast path of \<open>resolveExactProgramFiles\<close> and the general loop.\<close>

fun exact_files :: "Program \<Rightarrow> string list \<Rightarrow> SourceFile list \<Rightarrow> lint_error + bool" where
  "exact_files p (target # targets) (f # files) =
     (case prGetSourceFile p target of
        None \<Rightarrow> Inl (Wrapf ''%w: %q'' [target] (Errorf ''linter: target is not present in its bound Program'' []))
      | Some file \<Rightarrow> if sf_ptr file \<noteq> sf_ptr f then Inr False else exact_files p targets files)"
| "exact_files p _ _ = Inr True"

fun select_files :: "Program \<Rightarrow> string list \<Rightarrow> SourceFile list \<Rightarrow> string list \<Rightarrow> lint_error + SourceFile list" where
  "select_files p seen selected [] = Inr selected"
| "select_files p seen selected (target # targets) =
     (case prGetSourceFile p target of
        None \<Rightarrow> Inl (Wrapf ''%w: %q'' [target] (Errorf ''linter: target is not present in its bound Program'' []))
      | Some file \<Rightarrow>
          if sf_fileName file \<in> set seen then select_files p seen selected targets
          else select_files p (seen @ [sf_fileName file]) (selected @ [file]) targets)"

definition resolveExactProgramFiles :: "Program \<Rightarrow> string list \<Rightarrow> lint_error + SourceFile list" where
  "resolveExactProgramFiles p targets =
     (let files = prSourceFiles p
      in if length targets = length files
         then (case exact_files p targets files of
                 Inl e \<Rightarrow> Inl e
               | Inr True \<Rightarrow> Inr files
               | Inr False \<Rightarrow> select_files p [] [] targets)
         else select_files p [] [] targets)"

record PrepareLintPlanOptions =
  optPrograms :: "Program option list"
  optTargetsByProgram :: "string list list"
  optSingleThreaded :: bool
  optGetRulesForFile :: "(SourceFile \<Rightarrow> ConfiguredRule list) option"

fun bind_programs :: "nat \<Rightarrow> Program option list \<Rightarrow> string list list \<Rightarrow> lint_error + programLintPlan list" where
  "bind_programs i (Some p # ps) (ts # tss) =
     (case resolveExactProgramFiles p ts of
        Inl e \<Rightarrow> Inl (Wrapf ''linter: Program index %d: %w'' [go_itoa (int i)] e)
      | Inr files \<Rightarrow>
          (case bind_programs (Suc i) ps tss of
             Inl e \<Rightarrow> Inl e
           | Inr plans \<Rightarrow> Inr (programLintPlanFromFiles p files # plans)))"
| "bind_programs i _ _ = Inr []"

definition plan_refs :: "programLintPlan list \<Rightarrow> (nat \<times> nat) list" where
  "plan_refs plans =
     concat (map (\<lambda>i. map (\<lambda>j. (i, j)) [0..<length (planFiles (plans ! i))]) [0..<length plans])"

definition resolve_ref ::
  "(SourceFile \<Rightarrow> ConfiguredRule list) \<Rightarrow> programLintPlan list \<Rightarrow> nat \<times> nat \<Rightarrow> lintFilePlan \<times> RuleDiagnostic list" where
  "resolve_ref getRules plans ref =
     (let pp = plans ! fst ref
      in resolveProgramLintPlanFile False getRules (planProgram pp) (planFiles pp ! snd ref))"

text \<open>\<open>resolve\<close> writes the slot of its file in the shared plan and hands back the syntax errors, which are kept as a
  group when there are any.\<close>

definition write_slot :: "programLintPlan list \<Rightarrow> nat \<times> nat \<Rightarrow> lintFilePlan \<Rightarrow> programLintPlan list" where
  "write_slot plans ref fp =
     plans[fst ref := (plans ! fst ref)\<lparr>planFiles := (planFiles (plans ! fst ref))[snd ref := fp]\<rparr>]"

definition add_group ::
  "nat \<times> nat \<Rightarrow> RuleDiagnostic list \<Rightarrow> syntacticDiagnosticGroup list \<Rightarrow> syntacticDiagnosticGroup list" where
  "add_group ref diagnostics groups =
     (if length diagnostics > 0
      then groups @ [\<lparr>groupProgramIndex = fst ref, groupDiagnostics = diagnostics\<rparr>] else groups)"

text \<open>The sequential pass.\<close>

fun resolve_all ::
  "(SourceFile \<Rightarrow> ConfiguredRule list) \<Rightarrow> (nat \<times> nat) list \<Rightarrow> programLintPlan list \<Rightarrow> syntacticDiagnosticGroup list \<Rightarrow>
   programLintPlan list \<times> syntacticDiagnosticGroup list" where
  "resolve_all getRules [] plans groups = (plans, groups)"
| "resolve_all getRules (ref # refs) plans groups =
     (case resolve_ref getRules plans ref of
        (fp, diagnostics) \<Rightarrow> resolve_all getRules refs (write_slot plans ref fp) (add_group ref diagnostics groups))"

text \<open>The workers: what is left of their chunks and \<open>groupsByChunk\<close>.  They share the plan and run in any order, so a
  run is given by the turns they take; a turn resolves the next file of a chunk.  \<open>RunAndWait\<close> returns when every
  worker is done, so what the turns leave is run at the end.\<close>

record plan_workers =
  pwPlans :: "programLintPlan list"
  pwChunks :: "(nat \<times> nat) list list"
  pwGroups :: "syntacticDiagnosticGroup list list"

definition worker_turn :: "(SourceFile \<Rightarrow> ConfiguredRule list) \<Rightarrow> plan_workers \<Rightarrow> nat \<Rightarrow> plan_workers" where
  "worker_turn getRules pw w =
     (if w < length (pwChunks pw)
      then (case pwChunks pw ! w of
              [] \<Rightarrow> pw
            | ref # refs \<Rightarrow>
                (case resolve_ref getRules (pwPlans pw) ref of
                   (fp, diagnostics) \<Rightarrow>
                     \<lparr>pwPlans = write_slot (pwPlans pw) ref fp, pwChunks = (pwChunks pw)[w := refs],
                      pwGroups = (pwGroups pw)[w := add_group ref diagnostics (pwGroups pw ! w)]\<rparr>))
      else pw)"

definition all_turns :: "(nat \<times> nat) list list \<Rightarrow> nat list \<Rightarrow> nat list" where
  "all_turns chunks turns = turns @ concat (map (\<lambda>w. replicate (length (chunks ! w)) w) [0..<length chunks])"

definition run_workers ::
  "(SourceFile \<Rightarrow> ConfiguredRule list) \<Rightarrow> nat list \<Rightarrow> (nat \<times> nat) list list \<Rightarrow> programLintPlan list \<Rightarrow>
   programLintPlan list \<times> syntacticDiagnosticGroup list" where
  "run_workers getRules turns chunks plans =
     (let pw = foldl (worker_turn getRules) \<lparr>pwPlans = plans, pwChunks = chunks, pwGroups = replicate (length chunks) []\<rparr>
                 (all_turns chunks turns)
      in (pwPlans pw, concat (pwGroups pw)))"

text \<open>
  \<open>PrepareLintPlanContext\<close>.  \<open>ctxErr0\<close> and \<open>ctxErr1\<close> are what \<open>ctx.Err()\<close> returns at the entry and
  after the last file; a context that is not cancelled at the end was not cancelled before.
  \<open>maxProcs\<close> is \<open>runtime.GOMAXPROCS(0)\<close>, \<open>turns\<close> the order in which the workers get to run.
\<close>

definition PrepareLintPlanContext ::
  "lint_error option \<Rightarrow> lint_error option \<Rightarrow> nat \<Rightarrow> nat list \<Rightarrow> PrepareLintPlanOptions \<Rightarrow> lint_error + LintPlan" where
  "PrepareLintPlanContext ctxErr0 ctxErr1 maxProcs turns opts =
     (case ctxErr0 of
        Some e \<Rightarrow> Inl e
      | None \<Rightarrow>
          if length (optTargetsByProgram opts) \<noteq> length (optPrograms opts)
          then Inl (Errorf ''linter: TargetsByProgram must have one entry per Program'' [])
          else (case validatePrograms (optPrograms opts) of
            Some e \<Rightarrow> Inl e
          | None \<Rightarrow>
              (case optGetRulesForFile opts of
                 None \<Rightarrow> Inl (Errorf ''linter: GetRulesForFile must not be nil'' [])
               | Some getRules \<Rightarrow>
                   (case bind_programs 0 (optPrograms opts) (optTargetsByProgram opts) of
                      Inl e \<Rightarrow> Inl e
                    | Inr plans \<Rightarrow>
                        (let refs = plan_refs plans;
                             workerCount = min maxProcs (length refs);
                             (plans, groups) =
                               (if optSingleThreaded opts \<or> workerCount < 2
                                then resolve_all getRules refs plans []
                                else let chunkSize = (length refs + workerCount - 1) div workerCount
                                     in run_workers getRules turns (worker_chunks workerCount chunkSize refs) plans)
                         in case ctxErr1 of
                              Some e \<Rightarrow> Inl e
                            | None \<Rightarrow> Inr \<lparr>planPrograms = plans, syntacticDiagnosticGroups = groups\<rparr>)))))"

section \<open>Projections of a plan\<close>

type_synonym syntacticDiagnosticKey = "string \<times> string \<times> int \<times> int"

definition syntactic_key :: "RuleDiagnostic \<Rightarrow> syntacticDiagnosticKey" where
  "syntactic_key d = (FilePath d, diagRuleName d, Pos (diagRange d), End (diagRange d))"

fun dedupe_by :: "('a \<Rightarrow> 'k) \<Rightarrow> 'k list \<Rightarrow> 'a list \<Rightarrow> 'a list" where
  "dedupe_by key seen [] = []"
| "dedupe_by key seen (x # xs) =
     (if key x \<in> set seen then dedupe_by key seen xs else x # dedupe_by key (seen @ [key x]) xs)"

definition plan_SyntacticDiagnostics :: "LintPlan option \<Rightarrow> bool \<Rightarrow> RuleDiagnostic list" where
  "plan_SyntacticDiagnostics plan programDiagnosticsIncluded =
     (case plan of
        None \<Rightarrow> []
      | Some p \<Rightarrow>
          dedupe_by syntactic_key []
            (concat (map groupDiagnostics
               (filter (\<lambda>g. \<not> (programDiagnosticsIncluded \<and>
                    prCanProvideProgramDiagnostics (planProgram (planPrograms p ! groupProgramIndex g))))
                 (syntacticDiagnosticGroups p)))))"

definition HasSyntacticDiagnostics :: "LintPlan option \<Rightarrow> bool" where
  "HasSyntacticDiagnostics plan =
     (case plan of None \<Rightarrow> False | Some p \<Rightarrow> length (syntacticDiagnosticGroups p) > 0)"

fun file_targets :: "lintFilePlan list \<Rightarrow> LintTarget list" where
  "file_targets [] = []"
| "file_targets (fp # fps) =
     (if length (planRules fp) = 0 then file_targets fps
      else \<lparr>targetFile = planFile fp, targetRules = planRules fp\<rparr> # file_targets fps)"

definition plan_Targets :: "LintPlan option \<Rightarrow> LintTarget list" where
  "plan_Targets plan =
     (case plan of None \<Rightarrow> [] | Some p \<Rightarrow> concat (map (\<lambda>pp. file_targets (planFiles pp)) (planPrograms p)))"

definition plan_fileCount :: "LintPlan option \<Rightarrow> nat" where
  "plan_fileCount plan =
     (case plan of None \<Rightarrow> 0 | Some p \<Rightarrow> sum_list (map (\<lambda>pp. length (planFiles pp)) (planPrograms p)))"

definition sourcePrograms :: "LintPlan \<Rightarrow> Program option list" where
  "sourcePrograms p = map (\<lambda>pp. Some (planProgram pp)) (planPrograms p)"

section \<open>Listener registry\<close>

record ('k, 'l) listenerRegistry =
  byKind :: "'k \<Rightarrow> 'l list"
  activeKinds :: "'k list"

definition newListenerRegistry :: "('k, 'l) listenerRegistry" where
  "newListenerRegistry = \<lparr>byKind = (\<lambda>_. []), activeKinds = []\<rparr>"

definition registry_add :: "('k, 'l) listenerRegistry \<Rightarrow> 'k \<Rightarrow> 'l \<Rightarrow> ('k, 'l) listenerRegistry" where
  "registry_add r kind listener =
     \<lparr>byKind = (byKind r)(kind := byKind r kind @ [listener]),
      activeKinds = (if length (byKind r kind) = 0 then activeKinds r @ [kind] else activeKinds r)\<rparr>"

definition registry_listeners :: "('k, 'l) listenerRegistry \<Rightarrow> 'k \<Rightarrow> 'l list" where
  "registry_listeners r kind = byKind r kind"

definition registry_reset :: "('k, 'l) listenerRegistry \<Rightarrow> ('k, 'l) listenerRegistry" where
  "registry_reset r =
     \<lparr>byKind = foldl (\<lambda>m kind. m(kind := [])) (byKind r) (activeKinds r), activeKinds = []\<rparr>"

section \<open>Running the rules of a program\<close>

fun first_plugin :: "ConfiguredRule list \<Rightarrow> nat \<Rightarrow> nat option" where
  "first_plugin [] i = None"
| "first_plugin (r # rs) i = (if IsEslintPluginRule r then Some i else first_plugin rs (Suc i))"

definition filterNativeRules :: "ConfiguredRule list \<Rightarrow> ConfiguredRule list" where
  "filterNativeRules rules =
     (case first_plugin rules 0 of
        None \<Rightarrow> rules
      | Some i \<Rightarrow> take i rules @ filter (\<lambda>r. \<not> IsEslintPluginRule r) (drop (i + 1) rules))"

definition minCheckerFreeFilesPerLintWorker :: int where
  "minCheckerFreeFilesPerLintWorker = 128"

definition checkerFreeLintWorkerCount :: "int \<Rightarrow> int \<Rightarrow> int" where
  "checkerFreeLintWorkerCount fileCount maxWorkers =
     (if fileCount \<le> 0 \<or> maxWorkers \<le> 0 then 0
      else max 1 (min maxWorkers (fileCount div minCheckerFreeFilesPerLintWorker)))"

type_synonym lintFileTask = "lintFilePlan \<times> ConfiguredRule list"

record programLintResult =
  lintedFileCount :: "32 word"
  executedRules :: "string set"

text \<open>The loop that groups the files by checker; the key \<^term>\<open>None\<close> is the nil checker.\<close>

fun group_tasks ::
  "Program \<Rightarrow> bool \<Rightarrow> (nat option \<times> lintFileTask list) list \<Rightarrow> string set \<Rightarrow> bool \<Rightarrow> lintFilePlan list \<Rightarrow>
   (nat option \<times> lintFileTask list) list \<times> string set \<times> bool" where
  "group_tasks p collectExecuted groups executed checkerFree [] = (groups, executed, checkerFree)"
| "group_tasks p collectExecuted groups executed checkerFree (fp # fps) =
     (let checkerFree = (checkerFree \<and> \<not> hasTypeChecker fp);
          executed = (if collectExecuted \<and> length (planRules fp) > 0
                      then executed \<union> set (map crName (planRules fp)) else executed);
          rules = filterNativeRules (planRules fp)
      in if length rules = 0 then group_tasks p collectExecuted groups executed checkerFree fps
         else (let chk = (if \<not> hasTypeChecker fp then None else Some (prTypeCheckerForFile p (planFile fp)));
                   old = (case map_of groups chk of None \<Rightarrow> [] | Some ts \<Rightarrow> ts)
               in group_tasks p collectExecuted (al_update chk (old @ [(fp, rules)]) groups) executed checkerFree fps))"

text \<open>The shards queued for one group.\<close>

definition group_shards ::
  "bool \<Rightarrow> bool \<Rightarrow> nat \<Rightarrow> nat option \<times> lintFileTask list \<Rightarrow> lintFileTask list list" where
  "group_shards checkerFree singleThreaded maxProcs grp =
     (let tasks = snd grp
      in if fst grp = None \<and> checkerFree \<and> \<not> singleThreaded \<and> length tasks > 1
         then (let workerCount = checkerFreeLintWorkerCount (int (length tasks)) (int maxProcs)
               in if workerCount < 2 then [tasks]
                  else let chunkSize = (length tasks + nat workerCount - 1) div nat workerCount
                       in worker_chunks (nat workerCount) chunkSize tasks)
         else [tasks])"

definition runLintRulesInProgram ::
  "(lintFilePlan \<Rightarrow> ConfiguredRule list \<Rightarrow> RuleDiagnostic list) \<Rightarrow> bool \<Rightarrow> bool \<Rightarrow> nat \<Rightarrow> programLintPlan \<Rightarrow>
   programLintResult \<times> RuleDiagnostic list list" where
  "runLintRulesInProgram lintFile collectExecuted singleThreaded maxProcs plan =
     (if \<not> prValid (planProgram plan) then (\<lparr>lintedFileCount = 0, executedRules = {}\<rparr>, [])
      else let count = (of_nat (length (planFiles plan)) :: 32 word)
           in if count = 0 then (\<lparr>lintedFileCount = count, executedRules = {}\<rparr>, [])
              else (let (groups, executed, checkerFree) =
                          group_tasks (planProgram plan) collectExecuted [] {} True (planFiles plan);
                        shards = concat (map (group_shards checkerFree singleThreaded maxProcs) groups)
                    in (\<lparr>lintedFileCount = count, executedRules = executed\<rparr>,
                        map (\<lambda>tasks. concat (map (\<lambda>(fp, rules). lintFile fp rules) tasks)) shards)))"

section \<open>Type checking\<close>

fun flattenMessageChain :: "nat \<Rightarrow> TsDiagnostic \<Rightarrow> string" where
  "flattenMessageChain level (TsDiagnostic file code loc str chn related) =
     ''\<newline>'' @ concat (replicate level ''  '') @ str @
     concat (map (flattenMessageChain (level + 1)) chn)"

definition flattenDiagnosticMessageWithRelatedPath ::
  "(SourceFile \<Rightarrow> int \<Rightarrow> int) \<Rightarrow> (SourceFile \<Rightarrow> string) \<Rightarrow> TsDiagnostic \<Rightarrow> string" where
  "flattenDiagnosticMessageWithRelatedPath lineOf relatedPath d =
     tsText d @ concat (map (flattenMessageChain 1) (tsChain d)) @
     concat (map (\<lambda>r. case tsFile r of
         None \<Rightarrow> []
       | Some f \<Rightarrow> ''\<newline>  '' @ relatedPath f @ '':'' @ go_itoa (lineOf f (Pos (tsLoc r)) + 1) @ '': '' @ tsText r)
       (tsRelated d))"

definition flattenDiagnosticMessage :: "Program \<Rightarrow> TsDiagnostic \<Rightarrow> string" where
  "flattenDiagnosticMessage p d = flattenDiagnosticMessageWithRelatedPath (prLineOf p) sf_fileName d"

definition flattenDiagnosticMessageForIdentity :: "Program \<Rightarrow> TsDiagnostic \<Rightarrow> string" where
  "flattenDiagnosticMessageForIdentity p d =
     flattenDiagnosticMessageWithRelatedPath (prLineOf p) (\<lambda>f. prFilesystemPathID p (sf_fileName f)) d"

type_synonym typeCheckDedupeKey = "string \<times> int \<times> int \<times> int \<times> string"

definition typeCheckDedupeKeyForDiagnostic :: "Program \<Rightarrow> SourceFile \<Rightarrow> TsDiagnostic \<Rightarrow> typeCheckDedupeKey" where
  "typeCheckDedupeKeyForDiagnostic p file d =
     (prFilesystemPathID p (sf_fileName file), tsCode d, Pos (tsLoc d), End (tsLoc d),
      flattenDiagnosticMessageForIdentity p d)"

fun type_check_diagnostics :: "Program \<Rightarrow> TsDiagnostic list \<Rightarrow> (typeCheckDedupeKey \<times> RuleDiagnostic) list" where
  "type_check_diagnostics p [] = []"
| "type_check_diagnostics p (d # ds) =
     (case tsFile d of
        None \<Rightarrow> type_check_diagnostics p ds
      | Some file \<Rightarrow>
          (typeCheckDedupeKeyForDiagnostic p file d,
           newTypeScriptDiagnostic file d (flattenDiagnosticMessage p d)) # type_check_diagnostics p ds)"

definition runTypeCheckForProgram :: "Program \<Rightarrow> (typeCheckDedupeKey \<times> RuleDiagnostic) list" where
  "runTypeCheckForProgram p = type_check_diagnostics p (prNoEmitDiagnostics p)"

definition emitDeduplicatedTypeCheckDiagnostics ::
  "(typeCheckDedupeKey \<times> RuleDiagnostic) list list \<Rightarrow> RuleDiagnostic list" where
  "emitDeduplicatedTypeCheckDiagnostics collected = map snd (dedupe_by fst [] (concat collected))"

definition runTypeCheckAcrossPrograms :: "Program list \<Rightarrow> RuleDiagnostic list" where
  "runTypeCheckAcrossPrograms programs =
     emitDeduplicatedTypeCheckDiagnostics
       (map (\<lambda>p. if prCanProvideProgramDiagnostics p then runTypeCheckForProgram p else []) programs)"

section \<open>The linter\<close>

record RunLinterOptions =
  roSingleThreaded :: bool
  roLintPlan :: "LintPlan option"
  roTypeCheckOnlyPrograms :: "Program option list option"
  roDemand :: EditDemand
  roTypeCheck :: bool

record LintResult =
  lrLintedFileCount :: "32 word"
  lrExecutedRules :: "string set"

definition merge_results :: "programLintResult list \<Rightarrow> LintResult" where
  "merge_results results =
     \<lparr>lrLintedFileCount = sum_list (map lintedFileCount results),
      lrExecutedRules = \<Union> (set (map executedRules results))\<rparr>"

text \<open>
  The result and the diagnostics in the order in which they reach the consumer: those of the
  shards as the scheduler delivers them, then those of the type check.
\<close>

definition RunLinter ::
  "(lintFilePlan \<Rightarrow> ConfiguredRule list \<Rightarrow> RuleDiagnostic list) \<Rightarrow>
   (RuleDiagnostic list list \<Rightarrow> RuleDiagnostic list) \<Rightarrow> nat \<Rightarrow> RunLinterOptions \<Rightarrow>
   lint_error + (LintResult \<times> RuleDiagnostic list)" where
  "RunLinter lintFile arrive maxProcs opts =
     (if \<not> EditDemand_IsValid (roDemand opts) then Inl (Errorf ''linter: invalid native edit demand'' [])
      else if roLintPlan opts \<noteq> None \<and> roTypeCheckOnlyPrograms opts \<noteq> None
      then Inl (Errorf ''linter: TypeCheckOnlyPrograms must be nil when LintPlan is provided'' [])
      else (let programs =
                  (case roLintPlan opts of
                     Some plan \<Rightarrow> sourcePrograms plan
                   | None \<Rightarrow> if roTypeCheck opts
                             then (case roTypeCheckOnlyPrograms opts of None \<Rightarrow> [] | Some ps \<Rightarrow> ps) else [])
            in case validatePrograms programs of
                 Some e \<Rightarrow> Inl e
               | None \<Rightarrow>
                   (let runs = (case roLintPlan opts of
                                  None \<Rightarrow> []
                                | Some plan \<Rightarrow>
                                    map (runLintRulesInProgram lintFile True (roSingleThreaded opts) maxProcs)
                                      (planPrograms plan));
                        lintDiagnostics = arrive (concat (map snd runs));
                        typeDiagnostics = (if roTypeCheck opts
                                           then runTypeCheckAcrossPrograms (map the programs) else [])
                    in Inr (merge_results (map fst runs), lintDiagnostics @ typeDiagnostics))))"

section \<open>Deduplication\<close>

lemma dedupe_by_spec:
  "distinct (map key (dedupe_by key seen xs)) \<and>
   set (map key (dedupe_by key seen xs)) = set (map key xs) - set seen \<and>
   subseq (dedupe_by key seen xs) xs"
proof (induction key seen xs rule: dedupe_by.induct)
  case (2 key seen x xs)
  then show ?case by (cases "key x \<in> set seen") auto
qed simp

lemma dedupe_by_first:
  "x \<in> set (dedupe_by key seen xs) \<Longrightarrow>
     \<exists>ys zs. xs = ys @ x # zs \<and> key x \<notin> key ` set ys"
proof (induction key seen xs rule: dedupe_by.induct)
  case (2 key seen y xs)
  show ?case
  proof (cases "key y \<in> set seen \<or> x \<noteq> y")
    case True
    then obtain seen' where "x \<in> set (dedupe_by key seen' xs)" and
      "\<exists>ys zs. xs = ys @ x # zs \<and> key x \<notin> key ` set ys" and "key y \<in> set seen'"
      using 2 by (cases "key y \<in> set seen") auto
    moreover from this(1,3) have "key x \<noteq> key y"
      using dedupe_by_spec [of key seen' xs] by (metis Diff_iff imageI list.set_map)
    ultimately obtain ys zs where "xs = ys @ x # zs" "key x \<notin> key ` set ys" "key x \<noteq> key y" by blast
    then have "y # xs = (y # ys) @ x # zs \<and> key x \<notin> key ` set (y # ys)" by simp
    then show ?thesis by blast
  next
    case False
    then have "y # xs = [] @ x # xs \<and> key x \<notin> key ` set []" by simp
    then show ?thesis by blast
  qed
qed simp

section \<open>Sharding\<close>

lemma first_plugin_filter:
  "first_plugin rules i = None \<Longrightarrow> filter (\<lambda>r. \<not> IsEslintPluginRule r) rules = rules"
  "first_plugin rules i = Some k \<Longrightarrow>
     i \<le> k \<and> filter (\<lambda>r. \<not> IsEslintPluginRule r) rules =
       take (k - i) rules @ filter (\<lambda>r. \<not> IsEslintPluginRule r) (drop (k - i + 1) rules)"
proof (induction rules arbitrary: i)
  case (Cons r rs)
  { case 1
    then show ?case using Cons.IH(1) [of "Suc i"] by (simp split: if_splits)
  next
    case 2
    show ?case
    proof (cases "IsEslintPluginRule r")
      case False
      with 2 have "Suc i \<le> k" "filter (\<lambda>r. \<not> IsEslintPluginRule r) rs =
          take (k - Suc i) rs @ filter (\<lambda>r. \<not> IsEslintPluginRule r) (drop (k - Suc i + 1) rs)"
        using Cons.IH(2) [of "Suc i"] by simp_all
      moreover have "k - i = Suc (k - Suc i)" using \<open>Suc i \<le> k\<close> by simp
      ultimately show ?thesis using False by simp
    qed (use 2 in simp) }
qed simp_all

lemma filterNativeRules_filter: "filterNativeRules rules = filter (\<lambda>r. \<not> IsEslintPluginRule r) rules"
proof (cases "first_plugin rules 0")
  case None
  then show ?thesis using first_plugin_filter(1) [OF None] by (simp add: filterNativeRules_def)
next
  case (Some k)
  then show ?thesis using first_plugin_filter(2) [OF Some] by (simp add: filterNativeRules_def)
qed

definition native_tasks :: "lintFilePlan list \<Rightarrow> lintFileTask list" where
  "native_tasks fps = filter (\<lambda>t. snd t \<noteq> []) (map (\<lambda>fp. (fp, filterNativeRules (planRules fp))) fps)"

lemma native_tasks_Cons:
  "native_tasks (fp # fps) =
     (if filterNativeRules (planRules fp) = [] then native_tasks fps
      else (fp, filterNativeRules (planRules fp)) # native_tasks fps)"
  by (simp add: native_tasks_def)

lemma mset_concat_al_update:
  "distinct (al_keys m) \<Longrightarrow>
     mset (concat (map snd (al_update k ((case map_of m k of None \<Rightarrow> [] | Some ts \<Rightarrow> ts) @ [t]) m))) =
     add_mset t (mset (concat (map snd m)))"
proof (induction m)
  case (Cons p m)
  obtain k' v where p: "p = (k', v)" by (cases p)
  show ?case using Cons p by (cases "k = k'") (auto simp: al_keys_def)
qed simp

lemma group_tasks_spec:
  assumes "group_tasks p b groups ex cf fps = (groups', ex', cf')" and "distinct (al_keys groups)"
  shows "mset (concat (map snd groups')) = mset (concat (map snd groups)) + mset (native_tasks fps) \<and>
    (b \<longrightarrow> ex' = ex \<union> (\<Union>fp \<in> set fps. crName ` set (planRules fp)))"
  using assms
proof (induction p b groups ex cf fps rule: group_tasks.induct)
  case (1 p b groups ex cf)
  then show ?case by (simp add: native_tasks_def)
next
  case (2 p b groups ex cf fp fps)
  show ?case
  proof (cases "filterNativeRules (planRules fp) = []")
    case True
    with 2 show ?thesis by (auto simp: Let_def native_tasks_Cons)
  next
    case False
    let ?chk = "if \<not> hasTypeChecker fp then None else Some (prTypeCheckerForFile p (planFile fp))"
    let ?t = "(fp, filterNativeRules (planRules fp))"
    have m: "mset (concat (map snd (al_update ?chk ((case map_of groups ?chk of None \<Rightarrow> [] | Some ts \<Rightarrow> ts) @ [?t]) groups)))
        = add_mset ?t (mset (concat (map snd groups)))"
      by (rule mset_concat_al_update) (rule "2.prems"(2))
    note IH = "2.IH"(2) [OF refl refl refl _ refl refl, unfolded length_0_conv, OF False]
    from "2.prems" False IH m show ?thesis
      by (auto simp: Let_def native_tasks_Cons)
  qed
qed

lemma concat_group_shards: "concat (group_shards cf st n grp) = snd grp"
proof -
  let ?w = "checkerFreeLintWorkerCount (int (length (snd grp))) (int n)"
  have "concat (worker_chunks (nat ?w) ((length (snd grp) + nat ?w - 1) div nat ?w) (snd grp)) = snd grp"
    if "\<not> ?w < 2" using that by (intro concat_worker_chunks) simp
  then show ?thesis by (simp add: group_shards_def Let_def)
qed

section \<open>Preparing a plan\<close>

text \<open>What the passes compute: the groups of a list of files, and the plan in which the slots \<open>D\<close> are written.\<close>

fun collect_groups ::
  "(SourceFile \<Rightarrow> ConfiguredRule list) \<Rightarrow> programLintPlan list \<Rightarrow> (nat \<times> nat) list \<Rightarrow> syntacticDiagnosticGroup list" where
  "collect_groups getRules plans [] = []"
| "collect_groups getRules plans (ref # refs) =
     add_group ref (snd (resolve_ref getRules plans ref)) [] @ collect_groups getRules plans refs"

definition written ::
  "(SourceFile \<Rightarrow> ConfiguredRule list) \<Rightarrow> programLintPlan list \<Rightarrow> (nat \<times> nat) set \<Rightarrow> programLintPlan list" where
  "written getRules plans D =
     map (\<lambda>i. (plans ! i)\<lparr>planFiles :=
            map (\<lambda>j. if (i, j) \<in> D then fst (resolve_ref getRules plans (i, j)) else planFiles (plans ! i) ! j)
              [0..<length (planFiles (plans ! i))]\<rparr>)
       [0..<length plans]"

definition resolve_slots ::
  "(SourceFile \<Rightarrow> ConfiguredRule list) \<Rightarrow> programLintPlan list \<Rightarrow> programLintPlan list" where
  "resolve_slots getRules plans =
     map (\<lambda>i. (plans ! i)\<lparr>planFiles :=
            map (\<lambda>j. fst (resolve_ref getRules plans (i, j))) [0..<length (planFiles (plans ! i))]\<rparr>)
       [0..<length plans]"

definition valid_ref :: "programLintPlan list \<Rightarrow> nat \<times> nat \<Rightarrow> bool" where
  "valid_ref plans ref = (fst ref < length plans \<and> snd ref < length (planFiles (plans ! fst ref)))"

lemma set_plan_refs: "set (plan_refs plans) = {ref. valid_ref plans ref}"
  by (force simp: plan_refs_def valid_ref_def)

lemma distinct_concat_indexed:
  assumes "distinct is"
  shows "distinct (concat (map (\<lambda>i. map (\<lambda>j. (i, j)) [0..<n i]) is))"
  using assms by (induction "is") (auto simp: distinct_map inj_on_def)

lemma distinct_plan_refs: "distinct (plan_refs plans)"
  by (simp add: plan_refs_def distinct_concat_indexed)

lemma map_upt_update: "j < n \<Longrightarrow> (map f [0..<n])[j := v] = map (f(j := v)) [0..<n]"
  by (rule nth_equalityI) (simp_all add: nth_list_update)

lemma written_none: "written g plans {} = plans"
proof (rule nth_equalityI)
  fix i assume "i < length (written g plans {})"
  moreover have "map (\<lambda>j. planFiles (plans ! i) ! j) [0..<length (planFiles (plans ! i))] = planFiles (plans ! i)"
    by (rule map_nth)
  ultimately show "written g plans {} ! i = plans ! i" by (simp add: written_def)
qed (simp add: written_def)

lemma written_all: "written g plans {ref. valid_ref plans ref} = resolve_slots g plans"
  by (auto simp: written_def resolve_slots_def valid_ref_def)

lemma add_group_append: "add_group ref ds groups = groups @ add_group ref ds []"
  by (simp add: add_group_def)

lemma collect_groups_append:
  "collect_groups g plans (xs @ ys) = collect_groups g plans xs @ collect_groups g plans ys"
  by (induction xs) auto

lemma collect_groups_concat:
  "concat (map (collect_groups g plans) xss) = collect_groups g plans (concat xss)"
  by (induction xss) (auto simp: collect_groups_append)

lemma nth_written:
  "i < length plans \<Longrightarrow> written g plans D ! i = (plans ! i)\<lparr>planFiles :=
     map (\<lambda>j. if (i, j) \<in> D then fst (resolve_ref g plans (i, j)) else planFiles (plans ! i) ! j)
       [0..<length (planFiles (plans ! i))]\<rparr>"
  by (simp add: written_def)

text \<open>Resolving a file whose slot is not written yet reads what was there at the start, and writes only its slot.\<close>

lemma resolve_ref_written:
  "valid_ref plans ref \<Longrightarrow> ref \<notin> D \<Longrightarrow> resolve_ref g (written g plans D) ref = resolve_ref g plans ref"
  by (cases ref) (simp add: resolve_ref_def written_def valid_ref_def Let_def)

lemma write_slot_written:
  assumes "valid_ref plans ref"
  shows "write_slot (written g plans D) ref (fst (resolve_ref g plans ref)) = written g plans (insert ref D)"
proof (rule nth_equalityI)
  fix i assume "i < length (write_slot (written g plans D) ref (fst (resolve_ref g plans ref)))"
  then have i: "i < length plans" by (simp add: write_slot_def written_def)
  show "write_slot (written g plans D) ref (fst (resolve_ref g plans ref)) ! i = written g plans (insert ref D) ! i"
  proof (cases "i = fst ref")
    case True
    obtain j where ref: "ref = (i, j)" using True by (cases ref) auto
    let ?n = "length (planFiles (plans ! i))"
    let ?f = "\<lambda>D k. if (i, k) \<in> D then fst (resolve_ref g plans (i, k)) else planFiles (plans ! i) ! k"
    have "(map (?f D) [0..<?n])[j := fst (resolve_ref g plans ref)] = map (?f (insert ref D)) [0..<?n]"
      using assms by (auto simp: valid_ref_def ref map_upt_update)
    moreover have "length (written g plans D) = length plans" by (simp add: written_def)
    ultimately show ?thesis using i by (simp add: write_slot_def ref nth_written)
  next
    case False
    then have "(i, j) \<in> insert ref D \<longleftrightarrow> (i, j) \<in> D" for j by auto
    then show ?thesis using i False by (simp add: write_slot_def nth_written del: insert_iff)
  qed
qed (simp add: write_slot_def written_def)

lemma resolve_all_written:
  assumes "distinct refs" and "\<forall>ref \<in> set refs. valid_ref plans ref" and "D \<inter> set refs = {}"
  shows "resolve_all g refs (written g plans D) groups = (written g plans (D \<union> set refs), groups @ collect_groups g plans refs)"
  using assms
proof (induction refs arbitrary: D groups)
  case (Cons ref refs)
  have r: "resolve_ref g (written g plans D) ref = resolve_ref g plans ref"
    using Cons.prems by (intro resolve_ref_written) auto
  have "resolve_all g (ref # refs) (written g plans D) groups =
      resolve_all g refs (written g plans (insert ref D)) (add_group ref (snd (resolve_ref g plans ref)) groups)"
    using write_slot_written [of plans ref g D] Cons.prems(2) r by (cases "resolve_ref g plans ref") simp
  also have "\<dots> = (written g plans (insert ref D \<union> set refs),
      add_group ref (snd (resolve_ref g plans ref)) groups @ collect_groups g plans refs)"
    using Cons.prems by (intro Cons.IH) auto
  finally show ?case by (subst (asm) add_group_append) simp
qed simp

lemma resolve_all_spec:
  "resolve_all g (plan_refs plans) plans [] = (resolve_slots g plans, collect_groups g plans (plan_refs plans))"
  using resolve_all_written [OF distinct_plan_refs, of plans plans "{}" g "[]"]
  by (simp add: set_plan_refs written_none written_all)

text \<open>The workers after some turns: each has run the front of its chunk as far as its turns go.\<close>

definition did :: "(nat \<times> nat) list list \<Rightarrow> nat list \<Rightarrow> nat \<Rightarrow> (nat \<times> nat) list" where
  "did chunks turns w = take (count_list turns w) (chunks ! w)"

lemma did_step:
  assumes "w < length chunks" and "drop (count_list turns w) (chunks ! w) = ref # refs"
  shows "did chunks (turns @ [w]) w = did chunks turns w @ [ref]" "drop (count_list (turns @ [w]) w) (chunks ! w) = refs"
proof -
  have "count_list turns w < length (chunks ! w)" using assms(2) by (metis drop_eq_Nil linorder_not_le list.discI)
  moreover from this assms(2) have "chunks ! w ! count_list turns w = ref" by (metis nth_via_drop)
  ultimately show "did chunks (turns @ [w]) w = did chunks turns w @ [ref]"
    by (simp add: did_def take_Suc_conv_app_nth)
  show "drop (count_list (turns @ [w]) w) (chunks ! w) = refs" using assms(2) by (simp add: drop_Suc flip: tl_drop)
qed

lemma did_other: "v \<noteq> w \<Longrightarrow> did chunks (turns @ [w]) v = did chunks turns v"
  by (simp add: did_def)

lemma distinct_concat_nth:
  assumes "distinct (concat xss)" and "v < length xss" and "w < length xss" and "v \<noteq> w"
  shows "set (xss ! v) \<inter> set (xss ! w) = {}"
  using assms
proof (induction xss arbitrary: v w)
  case (Cons xs xss)
  have "set (xss ! k) \<subseteq> set (concat xss)" if "k < length xss" for k using that nth_mem by fastforce
  then show ?case using Cons by (cases v; cases w) (auto, blast+)
qed simp

lemma distinct_concat_each: "distinct (concat xss) \<Longrightarrow> w < length xss \<Longrightarrow> distinct (xss ! w)"
  by (induction xss arbitrary: w) (auto simp: nth_Cons split: nat.splits)

lemma workers_state:
  assumes dist: "distinct (concat chunks)" and valid: "\<forall>ref \<in> set (concat chunks). valid_ref plans ref"
  shows "foldl (worker_turn g) \<lparr>pwPlans = plans, pwChunks = chunks, pwGroups = replicate (length chunks) []\<rparr> turns =
    \<lparr>pwPlans = written g plans (\<Union>w < length chunks. set (did chunks turns w)),
     pwChunks = map (\<lambda>w. drop (count_list turns w) (chunks ! w)) [0..<length chunks],
     pwGroups = map (\<lambda>w. collect_groups g plans (did chunks turns w)) [0..<length chunks]\<rparr>"
proof (induction turns rule: rev_induct)
  case Nil
  show ?case by (auto simp: did_def written_none map_nth intro!: nth_equalityI)
next
  case (snoc w turns)
  let ?D = "\<Union>w < length chunks. set (did chunks turns w)"
  show ?case
  proof (cases "w < length chunks \<and> drop (count_list turns w) (chunks ! w) \<noteq> []")
    case False
    have did_same: "did chunks (turns @ [w]) v = did chunks turns v"
      and drop_same: "drop (count_list (turns @ [w]) v) (chunks ! v) = drop (count_list turns v) (chunks ! v)"
      if "v < length chunks" for v
      using False that by (cases "v = w"; simp add: did_def drop_Suc flip: tl_drop)+
    have "(\<Union>v < length chunks. set (did chunks (turns @ [w]) v)) = ?D" using did_same by simp
    moreover have "map (\<lambda>v. drop (count_list (turns @ [w]) v) (chunks ! v)) [0..<length chunks] =
        map (\<lambda>v. drop (count_list turns v) (chunks ! v)) [0..<length chunks]"
      using drop_same by (intro map_cong refl) simp
    moreover have "map (\<lambda>v. collect_groups g plans (did chunks (turns @ [w]) v)) [0..<length chunks] =
        map (\<lambda>v. collect_groups g plans (did chunks turns v)) [0..<length chunks]"
      using did_same by (intro map_cong refl) simp
    moreover have "worker_turn g pw w = pw" if "length (pwChunks pw) = length chunks" "w < length chunks \<Longrightarrow> pwChunks pw ! w = []" for pw
      using that by (simp add: worker_turn_def)
    ultimately show ?thesis using False by (simp only: foldl_append foldl.simps snoc.IH) simp
  next
    case True
    then obtain ref refs where dr: "drop (count_list turns w) (chunks ! w) = ref # refs" by (cases "drop (count_list turns w) (chunks ! w)") auto
    have w: "w < length chunks" using True by blast
    have mem: "ref \<in> set (chunks ! w)" using dr by (metis in_set_dropD list.set_intros(1))
    then have vref: "valid_ref plans ref" using valid w nth_mem by fastforce
    have "distinct (did chunks turns w @ ref # refs)"
      using distinct_concat_each [OF dist w] dr append_take_drop_id [of "count_list turns w" "chunks ! w"]
      by (simp add: did_def)
    then have own: "ref \<notin> set (did chunks turns w)" by simp
    have fresh: "ref \<notin> ?D"
    proof
      assume "ref \<in> ?D"
      then obtain v where v: "v < length chunks" "ref \<in> set (did chunks turns v)" by blast
      then have "ref \<in> set (chunks ! v)" by (auto simp: did_def dest: in_set_takeD)
      then have "v = w" using distinct_concat_nth [OF dist v(1) w] mem by blast
      then show False using own v(2) by simp
    qed
    note step = did_step [OF w dr]
    have D: "(\<Union>v < length chunks. set (did chunks (turns @ [w]) v)) = insert ref ?D"
    proof -
      have "set (did chunks (turns @ [w]) v) = (if v = w then insert ref (set (did chunks turns w)) else set (did chunks turns v))" for v
        using step(1) did_other [of v w] by simp
      then show ?thesis using w by auto
    qed
    have "worker_turn g (foldl (worker_turn g) \<lparr>pwPlans = plans, pwChunks = chunks, pwGroups = replicate (length chunks) []\<rparr> turns) w =
      \<lparr>pwPlans = written g plans (insert ref ?D),
       pwChunks = (map (\<lambda>w. drop (count_list turns w) (chunks ! w)) [0..<length chunks])[w := refs],
       pwGroups = (map (\<lambda>w. collect_groups g plans (did chunks turns w)) [0..<length chunks])
         [w := add_group ref (snd (resolve_ref g plans ref)) (collect_groups g plans (did chunks turns w))]\<rparr>"
      unfolding snoc.IH
      using w dr resolve_ref_written [OF vref fresh, of g] write_slot_written [OF vref, of g ?D]
      by (cases "resolve_ref g plans ref") (simp add: worker_turn_def)
    also have "(map (\<lambda>w. drop (count_list turns w) (chunks ! w)) [0..<length chunks])[w := refs] =
        map (\<lambda>v. drop (count_list (turns @ [w]) v) (chunks ! v)) [0..<length chunks]"
      unfolding map_upt_update [OF w] using step(2) by (intro map_cong refl) simp
    also have "add_group ref (snd (resolve_ref g plans ref)) (collect_groups g plans (did chunks turns w)) =
        collect_groups g plans (did chunks (turns @ [w]) w)"
      unfolding step(1) collect_groups_append by (subst add_group_append) simp
    also have "(map (\<lambda>w. collect_groups g plans (did chunks turns w)) [0..<length chunks])
        [w := collect_groups g plans (did chunks (turns @ [w]) w)] =
        map (\<lambda>v. collect_groups g plans (did chunks (turns @ [w]) v)) [0..<length chunks]"
      unfolding map_upt_update [OF w] using did_other by (intro map_cong refl) simp
    finally show ?thesis by (simp add: D)
  qed
qed

lemma count_list_replicate: "count_list (replicate n x) y = (if x = y then n else 0)"
  by (induction n) auto

lemma all_turns_enough: "w < length chunks \<Longrightarrow> length (chunks ! w) \<le> count_list (all_turns chunks turns) w"
proof -
  assume w: "w < length chunks"
  then have "length (chunks ! w) \<le> count_list (concat (map (\<lambda>w. replicate (f w) w) [0..<n])) w" if "w < n" "f w = length (chunks ! w)" for n f
    using that by (induction n) (auto simp: count_list_replicate less_Suc_eq)
  with w show ?thesis by (simp add: all_turns_def trans_le_add2)
qed

lemma run_workers_spec:
  assumes "concat chunks = plan_refs plans"
  shows "run_workers g turns chunks plans = (resolve_slots g plans, collect_groups g plans (plan_refs plans))"
proof -
  have full: "did chunks (all_turns chunks turns) w = chunks ! w" if "w < length chunks" for w
    using all_turns_enough [OF that] by (simp add: did_def)
  have "(\<Union>w < length chunks. set (did chunks (all_turns chunks turns) w)) = set (concat chunks)"
  proof -
    have "set chunks = (!) chunks ` {..<length chunks}" by (auto simp: set_conv_nth)
    then show ?thesis using full by simp
  qed
  moreover have "map (\<lambda>w. collect_groups g plans (did chunks (all_turns chunks turns) w)) [0..<length chunks] =
      map (collect_groups g plans) (map ((!) chunks) [0..<length chunks])"
    using full by simp
  moreover have "distinct (concat chunks)" "\<forall>ref \<in> set (concat chunks). valid_ref plans ref"
    using distinct_plan_refs [of plans] set_plan_refs [of plans] unfolding assms by auto
  ultimately show ?thesis
    using workers_state [of chunks plans g "all_turns chunks turns"] set_plan_refs [of plans]
    by (simp only: run_workers_def Let_def map_nth plan_workers.select_convs collect_groups_concat assms written_all)
qed

text \<open>Either way of preparing fills every slot and keeps the groups in the order of the files.\<close>

lemma parallel_prepare:
  "(if st \<or> min n (length (plan_refs plans)) < 2 then resolve_all g (plan_refs plans) plans []
    else let chunkSize = (length (plan_refs plans) + min n (length (plan_refs plans)) - 1) div min n (length (plan_refs plans))
         in run_workers g turns (worker_chunks (min n (length (plan_refs plans))) chunkSize (plan_refs plans)) plans) =
   (resolve_slots g plans, collect_groups g plans (plan_refs plans))"
proof (cases "min n (length (plan_refs plans)) < 2")
  case True
  then show ?thesis by (simp add: resolve_all_spec)
next
  case False
  then have "0 < min n (length (plan_refs plans))" by linarith
  from run_workers_spec [OF concat_worker_chunks [OF this, of "plan_refs plans"]] show ?thesis
    by (simp add: resolve_all_spec Let_def)
qed

lemma prepare_opts_frame:
  "optPrograms (opts\<lparr>optSingleThreaded := b\<rparr>) = optPrograms opts"
  "optTargetsByProgram (opts\<lparr>optSingleThreaded := b\<rparr>) = optTargetsByProgram opts"
  "optGetRulesForFile (opts\<lparr>optSingleThreaded := b\<rparr>) = optGetRulesForFile opts"
  by simp_all

lemma PrepareLintPlanContext_Inr:
  assumes "PrepareLintPlanContext c0 c1 n turns opts = Inr plan"
  obtains getRules plans where "optGetRulesForFile opts = Some getRules" "c1 = None"
    "validatePrograms (optPrograms opts) = None"
    "bind_programs 0 (optPrograms opts) (optTargetsByProgram opts) = Inr plans"
    "planPrograms plan = resolve_slots getRules plans"
    "syntacticDiagnosticGroups plan = collect_groups getRules plans (plan_refs plans)"
  using assms unfolding PrepareLintPlanContext_def Let_def [of "plan_refs _"] Let_def [of "min _ _"] parallel_prepare
  by (auto simp: Let_def split: option.splits if_splits sum.splits intro: that)

lemma resolve_slots_member:
  assumes "pp \<in> set (resolve_slots g plans)" and "fp \<in> set (planFiles pp)"
  obtains fp0 p where "fp = fst (resolveProgramLintPlanFile False g p fp0)" "p = planProgram pp"
    "\<exists>pp0 \<in> set plans. planProgram pp0 = p \<and> fp0 \<in> set (planFiles pp0)"
proof -
  from assms(1) obtain i where i: "i < length plans" and pp: "pp = (plans ! i)\<lparr>planFiles :=
      map (\<lambda>j. fst (resolve_ref g plans (i, j))) [0..<length (planFiles (plans ! i))]\<rparr>"
    by (auto simp: resolve_slots_def)
  from assms(2) pp obtain j where j: "j < length (planFiles (plans ! i))"
    and fp: "fp = fst (resolve_ref g plans (i, j))" by auto
  show thesis
    by (rule that [of "planProgram pp" "planFiles (plans ! i) ! j"])
       (use i j fp pp in \<open>auto simp: resolve_ref_def Let_def\<close>)
qed

lemma bind_programs_empty:
  "bind_programs i ps tss = Inr plans \<Longrightarrow> pp \<in> set plans \<Longrightarrow> fp \<in> set (planFiles pp) \<Longrightarrow>
     fp = emptyFilePlan (planFile fp)"
  by (induction i ps tss arbitrary: plans rule: bind_programs.induct)
     (auto simp: programLintPlanFromFiles_def emptyFilePlan_def split: sum.splits)

section \<open>Exact targets\<close>

lemma select_files_exact:
  assumes "exact_files p targets files = Inr True" and "length targets = length files"
    and "distinct (map sf_fileName files)" and "set seen \<inter> set (map sf_fileName files) = {}"
    and "\<forall>t f. prGetSourceFile p t = Some f \<longrightarrow> (\<forall>g \<in> set files. sf_ptr f = sf_ptr g \<longrightarrow> f = g)"
  shows "select_files p seen selected targets = Inr (selected @ files)"
  using assms
proof (induction p targets files arbitrary: seen selected rule: exact_files.induct)
  case (1 p target targets f files)
  from "1.prems"(1) obtain fl where fl: "prGetSourceFile p target = Some fl"
    and rest: "sf_ptr fl = sf_ptr f" "exact_files p targets files = Inr True"
    by (auto split: option.splits if_splits)
  from "1.prems"(5) fl rest(1) have "fl = f" by simp
  moreover have "select_files p (seen @ [sf_fileName f]) (selected @ [f]) targets = Inr ((selected @ [f]) @ files)"
    using "1.prems" fl rest by (intro "1.IH") auto
  ultimately show ?case using fl "1.prems"(4) by simp
qed auto

lemma exact_files_Inl:
  "exact_files p targets files = Inl e \<Longrightarrow>
     \<exists>t \<in> set targets. prGetSourceFile p t = None \<and>
       e = Wrapf ''%w: %q'' [t] (Errorf ''linter: target is not present in its bound Program'' [])"
  by (induction p targets files rule: exact_files.induct) (auto split: option.splits if_splits)

lemma exact_files_Inl_select:
  "exact_files p targets files = Inl e \<Longrightarrow> select_files p seen selected targets = Inl e"
proof (induction p targets files arbitrary: seen selected rule: exact_files.induct)
  case (1 p target targets f files)
  then show ?case by (auto split: option.splits if_splits)
qed auto

section \<open>Listener registry invariant\<close>

definition registry_inv :: "('k, 'l) listenerRegistry \<Rightarrow> bool" where
  "registry_inv r \<longleftrightarrow> distinct (activeKinds r) \<and> (\<forall>k. k \<in> set (activeKinds r) \<longleftrightarrow> byKind r k \<noteq> [])"

lemma foldl_clear: "foldl (\<lambda>m k. m(k := [])) m ks k' = (if k' \<in> set ks then [] else m k')"
  by (induction ks arbitrary: m) auto

section \<open>Properties\<close>

text \<open>
  Claim C36.  The plan does not depend on how it is prepared: any number of parallel workers, taking turns on the
  shared plan in any order, and the sequential pass give the same plan or the same error.
\<close>

theorem PrepareLintPlan_parallel_equals_sequential:
  "PrepareLintPlanContext c0 c1 n turns opts = PrepareLintPlanContext c0 c1 m [] (opts\<lparr>optSingleThreaded := True\<rparr>)"
  unfolding PrepareLintPlanContext_def Let_def [of "plan_refs _"] Let_def [of "min _ _"] parallel_prepare
    prepare_opts_frame ..

text \<open>
  In a prepared plan a file with syntax errors has no rules, a file its program cannot type-check
  has no rule that needs type information, and otherwise the file has exactly the rules the
  resolver gives (less the type-aware ones).
\<close>

theorem PrepareLintPlan_rules:
  assumes "PrepareLintPlanContext c0 c1 n turns opts = Inr plan" and "optGetRulesForFile opts = Some getRules"
    and "pp \<in> set (planPrograms plan)" and "fp \<in> set (planFiles pp)"
  shows "planRules fp =
     (if prSyntacticDiagnostics (planProgram pp) (planFile fp) \<noteq> [] then []
      else if prCanProvideTypeChecker (planProgram pp) (planFile fp) then getRules (planFile fp)
      else filter (\<lambda>r. \<not> RequiresTypeInfo r) (getRules (planFile fp)))"
proof -
  obtain plans where bind: "bind_programs 0 (optPrograms opts) (optTargetsByProgram opts) = Inr plans"
    and slots: "planPrograms plan = resolve_slots getRules plans"
    using assms(1,2) by (auto elim: PrepareLintPlanContext_Inr)
  with assms(3,4) obtain fp0 where fp: "fp = fst (resolveProgramLintPlanFile False getRules (planProgram pp) fp0)"
    and "\<exists>pp0 \<in> set plans. planProgram pp0 = planProgram pp \<and> fp0 \<in> set (planFiles pp0)"
    by (metis resolve_slots_member)
  with bind have "fp0 = emptyFilePlan (planFile fp0)" using bind_programs_empty by blast
  then have "planRules fp0 = []" by (metis emptyFilePlan_def lintFilePlan.select_convs(2))
  with fp show ?thesis
    by (simp add: resolveProgramLintPlanFile_def Let_def CollectFileSyntacticDiagnostics_def)
qed

text \<open>A program with one file, for witnesses.\<close>

definition sample_file :: SourceFile where
  "sample_file = \<lparr>sf_ptr = 1, sf_fileName = ''a.ts'', sf_text = ''abcdef''\<rparr>"

definition sample_program :: Program where
  "sample_program = \<lparr>prValid = True, prSourceFiles = [sample_file],
     prGetSourceFile = (\<lambda>t. if t = ''a.ts'' then Some sample_file else None),
     prCanProvideTypeChecker = (\<lambda>_. False), prTypeCheckerForFile = (\<lambda>_. 0),
     prCanProvideProgramDiagnostics = False, prSyntacticDiagnostics = (\<lambda>_. []),
     prNoEmitDiagnostics = [], prFilesystemPathID = (\<lambda>p. p), prLineOf = (\<lambda>_ _. 0)\<rparr>"

definition sample_rule :: "string \<Rightarrow> bool \<Rightarrow> ConfiguredRule" where
  "sample_rule name typed = \<lparr>crName = name, crEnvironment = None, crSeverity = SeverityError,
     RequiresTypeInfo = typed, IsEslintPluginRule = False, crOptions = []\<rparr>"

definition sample_plan_opts :: PrepareLintPlanOptions where
  "sample_plan_opts = \<lparr>optPrograms = [Some sample_program], optTargetsByProgram = [[''a.ts'']],
     optSingleThreaded = False,
     optGetRulesForFile = Some (\<lambda>_. [sample_rule ''x'' True, sample_rule ''y'' False])\<rparr>"

definition sample_file_plan :: lintFilePlan where
  "sample_file_plan = \<lparr>planFile = sample_file, planRules = [sample_rule ''y'' False],
     planEnvironment = None, hasTypeChecker = False\<rparr>"

definition sample_program_plan :: programLintPlan where
  "sample_program_plan = \<lparr>planProgram = sample_program, planFiles = [sample_file_plan]\<rparr>"

lemma sample_plan_run:
  "PrepareLintPlanContext None None 4 turns sample_plan_opts =
     Inr \<lparr>planPrograms = [sample_program_plan], syntacticDiagnosticGroups = []\<rparr>"
  by (simp add: PrepareLintPlanContext_def sample_plan_opts_def sample_program_def sample_file_def
      validateProgram_def resolveExactProgramFiles_def programLintPlanFromFiles_def emptyFilePlan_def
      plan_refs_def resolve_ref_def resolveProgramLintPlanFile_def CollectFileSyntacticDiagnostics_def
      write_slot_def add_group_def sample_rule_def sample_program_plan_def sample_file_plan_def Let_def)

theorem PrepareLintPlan_rules_witness: "planRules sample_file_plan = [sample_rule ''y'' False]"
proof -
  have "planRules sample_file_plan =
     (if prSyntacticDiagnostics (planProgram sample_program_plan) (planFile sample_file_plan) \<noteq> [] then []
      else if prCanProvideTypeChecker (planProgram sample_program_plan) (planFile sample_file_plan)
      then [sample_rule ''x'' True, sample_rule ''y'' False]
      else filter (\<lambda>r. \<not> RequiresTypeInfo r) [sample_rule ''x'' True, sample_rule ''y'' False])"
    by (rule PrepareLintPlan_rules [OF sample_plan_run])
       (simp_all add: sample_plan_opts_def sample_program_plan_def)
  then show ?thesis by (simp add: sample_program_plan_def sample_program_def sample_rule_def)
qed

text \<open>
  The shortcut of target resolution is sound: when the files of a program have distinct names and a
  name resolves to a file object of the program, taking the program's own file list gives what
  the general selection gives, errors included.
\<close>

theorem resolveExactProgramFiles_fast_path:
  assumes "distinct (map sf_fileName (prSourceFiles p))"
    and "\<forall>t f. prGetSourceFile p t = Some f \<longrightarrow> (\<forall>g \<in> set (prSourceFiles p). sf_ptr f = sf_ptr g \<longrightarrow> f = g)"
  shows "resolveExactProgramFiles p targets = select_files p [] [] targets"
proof (cases "length targets = length (prSourceFiles p)")
  case True
  then show ?thesis
    using select_files_exact [OF _ True assms(1) _ assms(2), of "[]" "[]"]
      exact_files_Inl_select [of p targets "prSourceFiles p" _ "[]" "[]"]
    by (auto simp: resolveExactProgramFiles_def Let_def split: sum.splits bool.splits)
qed (simp add: resolveExactProgramFiles_def)

theorem resolveExactProgramFiles_fast_path_witness:
  "resolveExactProgramFiles sample_program [''a.ts''] = select_files sample_program [] [] [''a.ts''] \<and>
   resolveExactProgramFiles sample_program [''a.ts''] = Inr [sample_file]"
proof -
  have "resolveExactProgramFiles sample_program [''a.ts''] = select_files sample_program [] [] [''a.ts'']"
    by (rule resolveExactProgramFiles_fast_path) (simp_all add: sample_program_def)
  moreover have "resolveExactProgramFiles sample_program [''a.ts''] = Inr [sample_file]"
    by (simp add: resolveExactProgramFiles_def sample_program_def Let_def)
  ultimately show ?thesis by blast
qed

text \<open>
  Claim C37.  However the files of a program are split into shards (by checker, or in chunks over the worker
  threads), every file with native rules is linted exactly once with all its native rules, and
  the executed rules are those of all files.
\<close>

theorem runLintRulesInProgram_complete:
  assumes "prValid (planProgram plan)" and "planFiles plan \<noteq> []" and "length (planFiles plan) < 2 ^ 32"
    and "runLintRulesInProgram lintFile True st n plan = (result, shards)"
  shows "mset (concat shards) =
       mset (concat (map (\<lambda>(fp, rules). lintFile fp rules) (native_tasks (planFiles plan)))) \<and>
     executedRules result = (\<Union>fp \<in> set (planFiles plan). crName ` set (planRules fp)) \<and>
     unat (lintedFileCount result) = length (planFiles plan)"
proof -
  let ?count = "of_nat (length (planFiles plan)) :: 32 word"
  have u: "unat ?count = length (planFiles plan)" using assms(3) by (simp add: unsigned_of_nat take_bit_nat_eq_self)
  with assms(2) have nz: "?count \<noteq> 0" by (metis length_0_conv unat_0)
  obtain groups ex cf where g: "group_tasks (planProgram plan) True [] {} True (planFiles plan) = (groups, ex, cf)"
    by (metis prod_cases3)
  have "mset (concat (map snd groups)) = mset (native_tasks (planFiles plan))"
    and ex: "ex = (\<Union>fp \<in> set (planFiles plan). crName ` set (planRules fp))"
    using group_tasks_spec [OF g] by (simp_all add: al_keys_def)
  moreover have "concat (concat (map (group_shards cf st n) groups)) = concat (map snd groups)"
    by (induction groups) (simp_all add: concat_group_shards)
  ultimately have m: "mset (concat (concat (map (group_shards cf st n) groups))) = mset (native_tasks (planFiles plan))"
    by simp
  have "mset (concat (map (\<lambda>ts. concat (map (\<lambda>(fp, rules). lintFile fp rules) ts)) xss)) =
      \<Sum>\<^sub># (image_mset (\<lambda>(fp, rules). mset (lintFile fp rules)) (mset (concat xss)))" for xss
    by (induction xss) (auto simp: mset_concat case_prod_beta sum_mset_sum_list [symmetric] image_mset.compositionality comp_def)
  with m have "mset (concat shards) =
      \<Sum>\<^sub># (image_mset (\<lambda>(fp, rules). mset (lintFile fp rules)) (mset (native_tasks (planFiles plan))))"
    using assms(1,4) nz g by (auto simp: runLintRulesInProgram_def Let_def)
  moreover have "result = \<lparr>lintedFileCount = ?count, executedRules = ex\<rparr>"
    using assms(1,4) nz g by (auto simp: runLintRulesInProgram_def Let_def)
  ultimately show ?thesis using u ex
    by (simp add: mset_concat case_prod_unfold sum_mset_sum_list [symmetric] comp_def)
qed

theorem runLintRulesInProgram_complete_witness:
  "mset (concat (snd (runLintRulesInProgram (\<lambda>fp rules. [sample_diag ''a.ts'' []]) True False 4 sample_program_plan))) =
     {# sample_diag ''a.ts'' [] #} \<and>
   executedRules (fst (runLintRulesInProgram (\<lambda>fp rules. [sample_diag ''a.ts'' []]) True False 4 sample_program_plan)) = {''y''}"
proof -
  let ?lint = "\<lambda>(fp :: lintFilePlan) (rules :: ConfiguredRule list). [sample_diag ''a.ts'' []]"
  have plan: "prValid (planProgram sample_program_plan)" "planFiles sample_program_plan \<noteq> []"
    "length (planFiles sample_program_plan) < 2 ^ 32"
    by (simp_all add: sample_program_plan_def sample_program_def)
  have "native_tasks (planFiles sample_program_plan) = [(sample_file_plan, [sample_rule ''y'' False])]"
    by (simp add: native_tasks_def filterNativeRules_filter sample_program_plan_def sample_file_plan_def sample_rule_def)
  with runLintRulesInProgram_complete [OF plan prod.collapse [symmetric], of ?lint False 4]
  show ?thesis by (simp add: sample_program_plan_def sample_file_plan_def sample_rule_def)
qed

text \<open>
  The type check reports every key (file identity, code, range, message) at most once, reports each
  key that some program produced, and of equal keys the first in program order, whatever the
  order in which the programs were checked.
\<close>

theorem typeCheck_deduplicated:
  "\<exists>kept. runTypeCheckAcrossPrograms programs = map snd kept \<and> distinct (map fst kept) \<and>
     set (map fst kept) =
       set (map fst (concat (map runTypeCheckForProgram (filter prCanProvideProgramDiagnostics programs)))) \<and>
     subseq kept (concat (map runTypeCheckForProgram (filter prCanProvideProgramDiagnostics programs)))"
proof -
  let ?all = "concat (map runTypeCheckForProgram (filter prCanProvideProgramDiagnostics programs))"
  have "concat (map (\<lambda>p. if prCanProvideProgramDiagnostics p then runTypeCheckForProgram p else []) programs) = ?all"
    by (induction programs) auto
  then have "runTypeCheckAcrossPrograms programs = map snd (dedupe_by fst [] ?all)"
    by (simp add: runTypeCheckAcrossPrograms_def emitDeduplicatedTypeCheckDiagnostics_def)
  then show ?thesis using dedupe_by_spec [of fst "[]" ?all] by (intro exI [of _ "dedupe_by fst [] ?all"]) simp
qed

text \<open>
  The listener registry of a worker never carries a listener from one file to the next: adding keeps
  its invariant, appends to one kind only, and after a reset every kind has no listener.
\<close>

theorem listenerRegistry_reset_clears:
  assumes "registry_inv r"
  shows "registry_inv (registry_add r kind l) \<and>
    registry_listeners (registry_add r kind l) k =
      (if k = kind then registry_listeners r k @ [l] else registry_listeners r k) \<and>
    registry_inv (registry_reset r) \<and> registry_listeners (registry_reset r) k = []"
  using assms by (auto simp: registry_inv_def registry_add_def registry_listeners_def registry_reset_def foldl_clear)

theorem listenerRegistry_reset_clears_witness:
  "registry_listeners (registry_reset (registry_add newListenerRegistry (1 :: nat) (7 :: nat))) 1 = []"
proof -
  have "registry_inv (newListenerRegistry :: (nat, nat) listenerRegistry)"
    by (simp add: registry_inv_def newListenerRegistry_def)
  from listenerRegistry_reset_clears [OF this, of 1 7 1]
  have "registry_inv (registry_add newListenerRegistry (1 :: nat) (7 :: nat))" by (elim conjE)
  from listenerRegistry_reset_clears [OF this, of 1 7 1] show ?thesis by (elim conjE)
qed

end
