(* ===== verification/Plugin.thy ===== *)
theory Plugin
  imports Lint_Plan
begin

text \<open>
  \<^verbatim>\<open>internal/linter/eslint_plugin.go\<close> and \<^verbatim>\<open>text_source_file.go\<close>: building the inputs of the
  third-party plugin host from a lint plan, grouping them into homogeneous batches, rebuilding
  the diagnostics of the host's answers in the frame of the file, and merging the batches.

  The batches are dispatched concurrently; every batch writes its own slot, and the slots are
  read in batch order after all batches have finished.  The host is the parameter \<open>dispatch\<close>,
  which gives the answer to the request of each batch index: any interleaving of the requests
  gives some such function.  \<open>marshal\<close> is \<open>json.Marshal\<close> on the batch signature, \<open>extOf\<close> the
  extension of a path, \<open>addr\<close> the address of the text frame allocated for a path, \<open>errText\<close> the
  text of an error.
  Per-rule timing, which only feeds a collector, is not part of these definitions.
\<close>

section \<open>Wire types\<close>

record EslintPluginLintFile =
  wfPath :: string
  wfText :: "string option"
  wfConfigKey :: string
  wfLanguageOptions :: "(string \<times> json) list"
  wfSettings :: "(string \<times> json) list"

record EslintPluginLintRequest =
  reqFiles :: "EslintPluginLintFile list"
  reqRules :: "(string \<times> json list) list"
  reqCollectFixes :: bool
  reqSuggestionsMode :: string
  reqCollectTiming :: bool

definition SuggestionsModeOff :: string where "SuggestionsModeOff = ''off''"
definition SuggestionsModeEager :: string where "SuggestionsModeEager = ''eager''"

record EslintPluginFix =
  pfRange :: "int \<times> int"
  pfText :: string

record EslintPluginSuggestion =
  psMessageId :: string
  psDesc :: string
  psFixes :: "EslintPluginFix list"

record EslintPluginDiagnostic =
  pdRuleName :: string
  pdMessageId :: string
  pdMessage :: string
  pdStartPos :: int
  pdEndPos :: int
  pdFixes :: "EslintPluginFix list"
  pdSuggestions :: "EslintPluginSuggestion list"

record EslintPluginFileResult =
  frFilePath :: string
  frDiagnostics :: "EslintPluginDiagnostic list"
  frParseError :: string
  frCancelled :: bool
  frRuleErrors :: "(string \<times> string) list"

record EslintPluginLintResult =
  lrResults :: "EslintPluginFileResult list"

text \<open>What a dispatcher call does: it returns a result (possibly nil), returns an error, or panics.\<close>

datatype dispatch_answer =
    DispatchResult "EslintPluginLintResult option"
  | DispatchFailed lint_error
  | DispatchPanic string

record EslintPluginFileInput =
  inPath :: string
  inText :: "string option"
  inSourceFile :: "SourceFile option"
  inConfigKey :: string
  inLanguageOptions :: "(string \<times> json) list"
  inSettings :: "(string \<times> json) list"
  inRules :: "ConfiguredRule list"

section \<open>Inputs\<close>

fun plugin_rules ::
  "LanguageOptions \<Rightarrow> ConfiguredRule list \<Rightarrow> ConfiguredRule list \<Rightarrow> LanguageOptions \<times> ConfiguredRule list" where
  "plugin_rules lopts acc [] = (lopts, acc)"
| "plugin_rules lopts acc (r # rs) =
     plugin_rules (case crEnvironment r of None \<Rightarrow> lopts | Some env \<Rightarrow> envLanguageOptions env)
       (if IsEslintPluginRule r then acc @ [r] else acc) rs"

definition zeroLanguageOptions :: LanguageOptions where
  "zeroLanguageOptions = \<lparr>ECMAVersion = 0, SourceType = []\<rparr>"

definition BuildEslintPluginFileInput ::
  "(string \<Rightarrow> string) \<Rightarrow> string \<Rightarrow> string \<Rightarrow> ConfiguredRule list \<Rightarrow> (string \<times> json) list \<Rightarrow>
   (string \<times> json) list \<Rightarrow> string option \<Rightarrow> SourceFile option \<Rightarrow> EslintPluginFileInput option" where
  "BuildEslintPluginFileInput extOf filePath configKey rules languageOptions settings srcText sourceFile =
     (let (lopts, pluginRules) = plugin_rules zeroLanguageOptions [] rules
      in if length pluginRules = 0 then None
         else (let (_, _, lopts) = ResolveLanguageDefaults extOf filePath lopts;
                   effective = al_update ''sourceType'' (JStr (EffectiveSourceType lopts))
                     (al_update ''ecmaVersion'' (JNum (go_itoa (EffectiveECMAVersion lopts))) languageOptions)
               in Some \<lparr>inPath = filePath, inText = srcText, inSourceFile = sourceFile,
                        inConfigKey = configKey, inLanguageOptions = effective,
                        inSettings = settings, inRules = pluginRules\<rparr>))"

record EslintPluginFileConfig =
  fcConfigKey :: string
  fcLanguageOptions :: "(string \<times> json) list"
  fcSettings :: "(string \<times> json) list"

definition hasEslintPluginRule :: "ConfiguredRule list \<Rightarrow> bool" where
  "hasEslintPluginRule rules = list_ex IsEslintPluginRule rules"

fun build_inputs ::
  "(string \<Rightarrow> string) \<Rightarrow> (string \<Rightarrow> EslintPluginFileConfig) option \<Rightarrow> LintTarget list \<Rightarrow> EslintPluginFileInput list" where
  "build_inputs extOf resolveConfig [] = []"
| "build_inputs extOf resolveConfig (t # ts) =
     (if \<not> hasEslintPluginRule (targetRules t) then build_inputs extOf resolveConfig ts
      else (let filePath = sf_fileName (targetFile t);
                cfg = (case resolveConfig of
                         None \<Rightarrow> \<lparr>fcConfigKey = [], fcLanguageOptions = [], fcSettings = []\<rparr>
                       | Some f \<Rightarrow> f filePath)
            in case BuildEslintPluginFileInput extOf filePath (fcConfigKey cfg) (targetRules t)
                      (fcLanguageOptions cfg) (fcSettings cfg) None (Some (targetFile t)) of
                 None \<Rightarrow> build_inputs extOf resolveConfig ts
               | Some input \<Rightarrow> input # build_inputs extOf resolveConfig ts))"

definition BuildEslintPluginFileInputs ::
  "(string \<Rightarrow> string) \<Rightarrow> LintPlan option \<Rightarrow> (string \<Rightarrow> EslintPluginFileConfig) option \<Rightarrow> EslintPluginFileInput list" where
  "BuildEslintPluginFileInputs extOf plan resolveConfig = build_inputs extOf resolveConfig (plan_Targets plan)"

section \<open>Batches\<close>

definition cmp_rule_name :: "string \<times> json list \<Rightarrow> string \<times> json list \<Rightarrow> int" where
  "cmp_rule_name a b = str_compare (fst a) (fst b)"

definition batch_signature :: "EslintPluginFileInput \<Rightarrow> (string \<times> json list) list" where
  "batch_signature f = sort_cmp cmp_rule_name (map (\<lambda>r. (crName r, crOptions r)) (inRules f))"

definition eslintPluginBatchKey ::
  "(string \<Rightarrow> (string \<times> json list) list \<Rightarrow> string option) \<Rightarrow> EslintPluginFileInput \<Rightarrow> string" where
  "eslintPluginBatchKey marshal f =
     (case marshal (inConfigKey f) (batch_signature f) of None \<Rightarrow> inPath f | Some b \<Rightarrow> b)"

fun group_files :: "('a \<Rightarrow> 'k) \<Rightarrow> 'k list \<Rightarrow> ('k \<times> 'a list) list \<Rightarrow> 'a list \<Rightarrow> 'k list \<times> ('k \<times> 'a list) list" where
  "group_files key order groups [] = (order, groups)"
| "group_files key order groups (f # fs) =
     (let k = key f
      in group_files key (if map_of groups k = None then order @ [k] else order)
           (al_update k ((case map_of groups k of None \<Rightarrow> [] | Some xs \<Rightarrow> xs) @ [f]) groups) fs)"

definition groupEslintPluginFiles ::
  "(string \<Rightarrow> (string \<times> json list) list \<Rightarrow> string option) \<Rightarrow> EslintPluginFileInput list \<Rightarrow>
   EslintPluginFileInput list list" where
  "groupEslintPluginFiles marshal files =
     (let (order, groups) = group_files (eslintPluginBatchKey marshal) [] [] files
      in map (\<lambda>k. case map_of groups k of None \<Rightarrow> [] | Some xs \<Rightarrow> xs) order)"

text \<open>\<open>batch[0]\<close> panics on an empty batch.\<close>

definition buildEslintPluginRequest ::
  "EslintPluginFileInput list \<Rightarrow> bool \<Rightarrow> string \<Rightarrow> bool \<Rightarrow> EslintPluginLintRequest option" where
  "buildEslintPluginRequest batch collectFixes suggestionsMode collectTiming =
     (case batch of
        [] \<Rightarrow> None
      | f0 # _ \<Rightarrow>
          Some \<lparr>reqFiles = map (\<lambda>f. \<lparr>wfPath = inPath f, wfText = inText f, wfConfigKey = inConfigKey f,
                    wfLanguageOptions = inLanguageOptions f, wfSettings = inSettings f\<rparr>) batch,
                reqRules = foldl (\<lambda>m r. al_update (crName r) (crOptions r) m) [] (inRules f0),
                reqCollectFixes = collectFixes, reqSuggestionsMode = suggestionsMode,
                reqCollectTiming = collectTiming\<rparr>)"

section \<open>Rebuilding diagnostics\<close>

datatype EslintPluginProtocolNoticeKind = EslintPluginMissingFileResult | EslintPluginUnconfiguredDiagnostic

record EslintPluginProtocolNotice =
  noticeKind :: EslintPluginProtocolNoticeKind
  noticeFilePath :: string
  noticeRuleName :: string

definition newTextSourceFile :: "nat \<Rightarrow> string \<Rightarrow> SourceFile" where
  "newTextSourceFile ptr txt = \<lparr>sf_ptr = ptr, sf_fileName = [], sf_text = txt\<rparr>"

definition eslintPluginSourceFile :: "(string \<Rightarrow> nat) \<Rightarrow> EslintPluginFileInput \<Rightarrow> SourceFile option" where
  "eslintPluginSourceFile addr f =
     (case inSourceFile f of
        Some sf \<Rightarrow> Some sf
      | None \<Rightarrow>
          (case inText f of
             Some t \<Rightarrow> Some (newTextSourceFile (addr (inPath f)) (trim_prefix t BOM))
           | None \<Rightarrow> None))"

definition makeEslintPluginErrorDiagnostic :: "string \<Rightarrow> SourceFile \<Rightarrow> string \<Rightarrow> string \<Rightarrow> RuleDiagnostic" where
  "makeEslintPluginErrorDiagnostic path sf name msg =
     \<lparr>diagRange = TextRange 0 0, diagRuleName = name, diagMessage = zeroMessage msg,
      FixesPtr = None, Suggestions = None, diagSourceFile = Some sf, FilePath = path,
      diagSeverity = SeverityError, diagOrigin = DiagnosticOriginLint, PreFormatted = False\<rparr>"

definition NewEslintPluginErrorDiagnostic :: "(string \<Rightarrow> nat) \<Rightarrow> string \<Rightarrow> string \<Rightarrow> string \<Rightarrow> RuleDiagnostic" where
  "NewEslintPluginErrorDiagnostic addr path name msg =
     makeEslintPluginErrorDiagnostic path (newTextSourceFile (addr path) []) name msg"

definition plugin_clamp :: "string \<Rightarrow> int \<Rightarrow> int" where
  "plugin_clamp txt p = (if p < 0 then 0 else if p > int (length txt) then int (length txt) else p)"

definition clamp_range :: "(int \<Rightarrow> int) \<Rightarrow> int \<Rightarrow> int \<Rightarrow> TextRange" where
  "clamp_range clamp a b =
     (let start = clamp a; stop = clamp b; stop = (if stop < start then start else stop)
      in TextRange start stop)"

definition rebuild_fix :: "(int \<Rightarrow> int) \<Rightarrow> EslintPluginFix \<Rightarrow> RuleFix" where
  "rebuild_fix clamp fx =
     \<lparr>fixText = pfText fx, fixRange = clamp_range clamp (fst (pfRange fx)) (snd (pfRange fx))\<rparr>"

definition rebuildEslintPluginFixes :: "(int \<Rightarrow> int) \<Rightarrow> EslintPluginFix list \<Rightarrow> RuleFix list option" where
  "rebuildEslintPluginFixes clamp fixes =
     (if length fixes = 0 then None else Some (map (rebuild_fix clamp) fixes))"

definition rebuildEslintPluginSuggestions ::
  "(int \<Rightarrow> int) \<Rightarrow> EslintPluginSuggestion list \<Rightarrow> RuleSuggestion list option" where
  "rebuildEslintPluginSuggestions clamp suggestions =
     (if length suggestions = 0 then None
      else Some (map (\<lambda>s. \<lparr>sugMessage = \<lparr>msgId = psMessageId s, msgDescription = psDesc s, msgData = Map.empty\<rparr>,
                           FixesArr = map (rebuild_fix clamp) (psFixes s)\<rparr>) suggestions))"

text \<open>The severities of a file's rules; a later rule of the same name wins.\<close>

definition severity_by_rule :: "ConfiguredRule list \<Rightarrow> string \<Rightarrow> DiagnosticSeverity option" where
  "severity_by_rule rules = map_of (rev (map (\<lambda>r. (crName r, crSeverity r)) rules))"

definition rebuild_diagnostic ::
  "EslintPluginFileInput \<Rightarrow> SourceFile \<Rightarrow> EslintPluginDiagnostic \<Rightarrow> RuleDiagnostic \<times> EslintPluginProtocolNotice list" where
  "rebuild_diagnostic f tsf d =
     (let clamp = plugin_clamp (sf_text tsf);
          known = severity_by_rule (inRules f) (pdRuleName d)
      in (\<lparr>diagRange = clamp_range clamp (pdStartPos d) (pdEndPos d),
           diagRuleName = pdRuleName d,
           diagMessage = \<lparr>msgId = pdMessageId d, msgDescription = pdMessage d, msgData = Map.empty\<rparr>,
           FixesPtr = rebuildEslintPluginFixes clamp (pdFixes d),
           Suggestions = rebuildEslintPluginSuggestions clamp (pdSuggestions d),
           diagSourceFile = Some tsf, FilePath = inPath f,
           diagSeverity = (case known of Some sev \<Rightarrow> sev | None \<Rightarrow> SeverityError),
           diagOrigin = DiagnosticOriginLint, PreFormatted = False\<rparr>,
          if known = None
          then [\<lparr>noticeKind = EslintPluginUnconfiguredDiagnostic, noticeFilePath = inPath f,
                 noticeRuleName = pdRuleName d\<rparr>]
          else []))"

definition eslintPluginShutdownSentinel :: string where
  "eslintPluginShutdownSentinel = ''shutdown''"

text \<open>What one file result contributes, when it was not cancelled.\<close>

definition apply_file_result ::
  "(string \<Rightarrow> nat) \<Rightarrow> EslintPluginFileInput \<Rightarrow> EslintPluginFileResult \<Rightarrow>
   RuleDiagnostic list \<times> EslintPluginProtocolNotice list" where
  "apply_file_result addr f fr =
     (case eslintPluginSourceFile addr f of
        None \<Rightarrow> ([makeEslintPluginErrorDiagnostic (inPath f) (newTextSourceFile (addr (inPath f)) [])
                    ''rslint/plugin-lint-error'' (''ESLint plugin lint failed: no source frame for '' @ inPath f)], [])
      | Some tsf \<Rightarrow>
          if frParseError fr \<noteq> []
          then (if frParseError fr \<noteq> eslintPluginShutdownSentinel
                then ([makeEslintPluginErrorDiagnostic (inPath f) tsf ''rslint/plugin-lint-error''
                         (''ESLint plugin lint failed: '' @ frParseError fr)], [])
                else ([], []))
          else (let rebuilt = map (rebuild_diagnostic f tsf) (frDiagnostics fr)
                in (map (\<lambda>(name, msg). makeEslintPluginErrorDiagnostic (inPath f) tsf name (''rule error: '' @ msg))
                      (frRuleErrors fr) @ map fst rebuilt,
                    concat (map snd rebuilt))))"

definition result_by_path :: "EslintPluginFileResult list \<Rightarrow> string \<Rightarrow> EslintPluginFileResult option" where
  "result_by_path results = map_of (rev (map (\<lambda>r. (frFilePath r, r)) results))"

fun apply_results ::
  "(string \<Rightarrow> nat) \<Rightarrow> (string \<Rightarrow> EslintPluginFileResult option) \<Rightarrow> EslintPluginFileInput list \<Rightarrow>
   RuleDiagnostic list \<times> EslintPluginProtocolNotice list \<times> lint_error option" where
  "apply_results addr byPath [] = ([], [], None)"
| "apply_results addr byPath (f # fs) =
     (case byPath (inPath f) of
        None \<Rightarrow>
          (let (ds, ns, e) = apply_results addr byPath fs
           in (ds, \<lparr>noticeKind = EslintPluginMissingFileResult, noticeFilePath = inPath f, noticeRuleName = []\<rparr> # ns, e))
      | Some fr \<Rightarrow>
          if frCancelled fr then ([], [], Some ErrCanceled)
          else (let (ds, ns) = apply_file_result addr f fr; (ds', ns', e) = apply_results addr byPath fs
                in (ds @ ds', ns @ ns', e)))"

definition applyEslintPluginResults ::
  "(string \<Rightarrow> nat) \<Rightarrow> EslintPluginFileInput list \<Rightarrow> EslintPluginLintResult \<Rightarrow>
   RuleDiagnostic list \<times> EslintPluginProtocolNotice list \<times> lint_error option" where
  "applyEslintPluginResults addr batch res = apply_results addr (result_by_path (lrResults res)) batch"

section \<open>Dispatching\<close>

type_synonym EslintPluginDispatcher = "nat \<Rightarrow> EslintPluginLintRequest \<Rightarrow> dispatch_answer"

definition dispatchOneBatch ::
  "(string \<Rightarrow> nat) \<Rightarrow> EslintPluginDispatcher \<Rightarrow> bool \<Rightarrow> string \<Rightarrow> bool \<Rightarrow> nat \<Rightarrow> EslintPluginFileInput list \<Rightarrow>
   RuleDiagnostic list \<times> EslintPluginProtocolNotice list \<times> lint_error option" where
  "dispatchOneBatch addr dispatch collectFixes suggestionsMode collectTiming i batch =
     (case buildEslintPluginRequest batch collectFixes suggestionsMode collectTiming of
        None \<Rightarrow> ([], [], Some (Errorf ''eslint-plugin dispatch panicked: %v'' [''index out of range'']))
      | Some req \<Rightarrow>
          (case dispatch i req of
             DispatchPanic v \<Rightarrow> ([], [], Some (Errorf ''eslint-plugin dispatch panicked: %v'' [v]))
           | DispatchFailed e \<Rightarrow> ([], [], Some e)
           | DispatchResult None \<Rightarrow> ([], [], None)
           | DispatchResult (Some res) \<Rightarrow> applyEslintPluginResults addr batch res))"

fun batch_error :: "lint_error option \<Rightarrow> lint_error option list \<Rightarrow> lint_error option" where
  "batch_error canceled [] = canceled"
| "batch_error canceled (None # es) = batch_error canceled es"
| "batch_error canceled (Some e # es) =
     (if \<not> errors_Is e ErrCanceled then Some e
      else batch_error (if canceled = None then Some e else canceled) es)"

definition dispatch_slots ::
  "(string \<Rightarrow> (string \<times> json list) list \<Rightarrow> string option) \<Rightarrow> (string \<Rightarrow> nat) \<Rightarrow> EslintPluginDispatcher \<Rightarrow>
   EslintPluginFileInput list \<Rightarrow> bool \<Rightarrow> string \<Rightarrow> bool \<Rightarrow>
   (RuleDiagnostic list \<times> EslintPluginProtocolNotice list \<times> lint_error option) list" where
  "dispatch_slots marshal addr d files collectFixes suggestionsMode collectTiming =
     map (\<lambda>(i, b). dispatchOneBatch addr d collectFixes suggestionsMode collectTiming i b)
       (enumerate 0 (groupEslintPluginFiles marshal files))"

definition dispatchEslintPluginRules ::
  "(string \<Rightarrow> (string \<times> json list) list \<Rightarrow> string option) \<Rightarrow> (string \<Rightarrow> nat) \<Rightarrow> EslintPluginDispatcher option \<Rightarrow>
   EslintPluginFileInput list \<Rightarrow> bool \<Rightarrow> string \<Rightarrow> bool \<Rightarrow>
   RuleDiagnostic list \<times> EslintPluginProtocolNotice list \<times> lint_error option" where
  "dispatchEslintPluginRules marshal addr dispatch files collectFixes suggestionsMode collectTiming =
     (case dispatch of
        None \<Rightarrow> ([], [], None)
      | Some d \<Rightarrow>
          if length files = 0 then ([], [], None)
          else (let slots = dispatch_slots marshal addr d files collectFixes suggestionsMode collectTiming
                in (concat (map fst slots), concat (map (fst \<circ> snd) slots),
                    batch_error None (map (snd \<circ> snd) slots))))"

record EslintPluginDispatchOutcome =
  outDiagnostics :: "RuleDiagnostic list"
  outNotices :: "EslintPluginProtocolNotice list"
  DispatchError :: "lint_error option"

definition eslintPluginDispatchFailurePath :: "EslintPluginFileInput list \<Rightarrow> string" where
  "eslintPluginDispatchFailurePath inputs = (case inputs of [] \<Rightarrow> [] | f # _ \<Rightarrow> inPath f)"

definition DispatchEslintPluginRulesWithOutcome ::
  "(string \<Rightarrow> (string \<times> json list) list \<Rightarrow> string option) \<Rightarrow> (string \<Rightarrow> nat) \<Rightarrow> (lint_error \<Rightarrow> string) \<Rightarrow>
   EslintPluginDispatcher option \<Rightarrow> EslintPluginFileInput list \<Rightarrow> bool \<Rightarrow> string \<Rightarrow> bool \<Rightarrow> EslintPluginDispatchOutcome" where
  "DispatchEslintPluginRulesWithOutcome marshal addr errText dispatch inputs collectFixes suggestionsMode collectTiming =
     (let (diagnostics, notices, err) =
            dispatchEslintPluginRules marshal addr dispatch inputs collectFixes suggestionsMode collectTiming;
          diagnostics =
            (case err of
               Some e \<Rightarrow> if \<not> errors_Is e ErrCanceled
                         then diagnostics @ [NewEslintPluginErrorDiagnostic addr (eslintPluginDispatchFailurePath inputs)
                               ''rslint/plugin-lint-error'' (''ESLint plugin lint dispatch failed: '' @ errText e)]
                         else diagnostics
             | None \<Rightarrow> diagnostics)
      in \<lparr>outDiagnostics = diagnostics, outNotices = notices, DispatchError = err\<rparr>)"

section \<open>Inputs and batches\<close>

lemma plugin_rules_snd: "snd (plugin_rules l acc rules) = acc @ filter IsEslintPluginRule rules"
  by (induction l acc rules rule: plugin_rules.induct) auto

lemma hasEslintPluginRule_filter: "hasEslintPluginRule rules \<longleftrightarrow> filter IsEslintPluginRule rules \<noteq> []"
  by (auto simp: hasEslintPluginRule_def list_ex_iff filter_empty_conv)

lemma BuildEslintPluginFileInput_rules:
  "map_option inRules (BuildEslintPluginFileInput extOf path key rules lopts settings t sf) =
     (if hasEslintPluginRule rules then Some (filter IsEslintPluginRule rules) else None)"
  unfolding hasEslintPluginRule_filter using plugin_rules_snd [of zeroLanguageOptions "[]" rules]
  by (auto simp: BuildEslintPluginFileInput_def split: prod.splits)

lemma BuildEslintPluginFileInput_Some:
  "BuildEslintPluginFileInput extOf path key rules lopts settings t sf = Some input \<Longrightarrow>
     inPath input = path \<and> inSourceFile input = sf \<and> inText input = t \<and> inRules input = filter IsEslintPluginRule rules"
  using plugin_rules_snd [of zeroLanguageOptions "[]" rules]
  by (auto simp: BuildEslintPluginFileInput_def split: prod.splits if_splits)

lemma group_files_spec:
  assumes "group_files key order groups fs = (order', groups')"
    and "set order = set (al_keys groups)"
  shows "order' = order @ map key (dedupe_by key order fs) \<and>
     (case map_of groups' k of None \<Rightarrow> [] | Some xs \<Rightarrow> xs) =
       (case map_of groups k of None \<Rightarrow> [] | Some xs \<Rightarrow> xs) @ filter (\<lambda>f. key f = k) fs"
  using assms
proof (induction key order groups fs rule: group_files.induct)
  case (2 key order groups f fs)
  have mem: "map_of groups (key f) = None \<longleftrightarrow> key f \<notin> set order"
    using "2.prems"(2) by (auto simp: al_keys_dom)
  have "set (if map_of groups (key f) = None then order @ [key f] else order) =
      set (al_keys (al_update (key f) ((case map_of groups (key f) of None \<Rightarrow> [] | Some xs \<Rightarrow> xs) @ [f]) groups))"
    using "2.prems"(2) mem by (auto simp: keys_al_update)
  with 2 mem show ?case by (auto simp: Let_def split: if_splits option.splits)
qed auto

lemma mset_concat_filter_keys:
  assumes "distinct ks" and "key ` set fs \<subseteq> set ks"
  shows "mset (concat (map (\<lambda>k. filter (\<lambda>f. key f = k) fs) ks)) = mset fs"
  using assms
proof (induction ks arbitrary: fs)
  case (Cons k ks)
  let ?rest = "filter (\<lambda>f. key f \<noteq> k) fs"
  have eq: "map (\<lambda>k'. filter (\<lambda>f. key f = k') fs) ks = map (\<lambda>k'. filter (\<lambda>f. key f = k') ?rest) ks"
    using Cons.prems(1) by (auto simp: filter_filter intro!: filter_cong)
  have "mset (concat (map (\<lambda>k'. filter (\<lambda>f. key f = k') ?rest) ks)) = mset ?rest"
    using Cons.prems by (intro Cons.IH) auto
  moreover have "mset (filter (\<lambda>f. key f = k) fs) + mset ?rest = mset fs"
    by (induction fs) auto
  ultimately show ?case using eq by (simp only: list.map concat.simps mset_append)
qed simp

lemma groupEslintPluginFiles_eq:
  "groupEslintPluginFiles marshal files =
     map (\<lambda>k. filter (\<lambda>f. eslintPluginBatchKey marshal f = k) files)
       (map (eslintPluginBatchKey marshal) (dedupe_by (eslintPluginBatchKey marshal) [] files))"
proof -
  let ?key = "eslintPluginBatchKey marshal"
  obtain order groups where run: "group_files ?key [] [] files = (order, groups)" by fastforce
  have "order = map ?key (dedupe_by ?key [] files)"
    "(case map_of groups k of None \<Rightarrow> [] | Some xs \<Rightarrow> xs) = filter (\<lambda>f. ?key f = k) files" for k
    using group_files_spec [OF run] by (auto simp: al_keys_def)
  with run show ?thesis by (simp add: groupEslintPluginFiles_def)
qed

text \<open>The rule table of a request depends only on the signature of the batch.\<close>

lemma map_of_foldl_update:
  "map_of (foldl (\<lambda>m r. al_update (crName r) (crOptions r) m) m rules) =
     map_of m ++ map_of (rev (map (\<lambda>r. (crName r, crOptions r)) rules))"
  by (induction rules arbitrary: m) (auto simp: map_add_def fun_eq_iff split: option.splits)

lemma map_of_perm: "distinct (map fst xs) \<Longrightarrow> mset xs = mset ys \<Longrightarrow> map_of xs = map_of ys"
  by (metis map_of_inject_set mset_eq_imp_distinct_iff mset_eq_setD mset_map)

lemma request_rules:
  assumes "buildEslintPluginRequest (f # fs) b m t = Some req" and "distinct (map crName (inRules f))"
  shows "map_of (reqRules req) = map_of (map (\<lambda>r. (crName r, crOptions r)) (inRules f))"
proof -
  have "map_of (rev (map (\<lambda>r. (crName r, crOptions r)) (inRules f))) =
      map_of (map (\<lambda>r. (crName r, crOptions r)) (inRules f))"
    by (rule map_of_perm) (use assms(2) in \<open>simp_all add: rev_map [symmetric] comp_def\<close>)
  with assms(1) show ?thesis by (auto simp: buildEslintPluginRequest_def map_of_foldl_update)
qed

section \<open>Rebuilt ranges\<close>

definition in_frame :: "SourceFile \<Rightarrow> TextRange \<Rightarrow> bool" where
  "in_frame sf r \<longleftrightarrow> 0 \<le> Pos r \<and> Pos r \<le> End r \<and> End r \<le> int (length (sf_text sf))"

definition framed :: "RuleDiagnostic \<Rightarrow> bool" where
  "framed d \<longleftrightarrow>
     (case diagSourceFile d of
        None \<Rightarrow> False
      | Some sf \<Rightarrow> in_frame sf (diagRange d) \<and> list_all (\<lambda>fx. in_frame sf (fixRange fx)) (diag_Fixes d) \<and>
          list_all (\<lambda>s. list_all (\<lambda>fx. in_frame sf (fixRange fx)) (FixesArr s))
            (case Suggestions d of None \<Rightarrow> [] | Some ss \<Rightarrow> ss))"

lemma in_frame_clamp: "in_frame sf (clamp_range (plugin_clamp (sf_text sf)) a b)"
  by (simp add: in_frame_def clamp_range_def plugin_clamp_def Let_def)

lemma in_frame_rebuild_fix: "in_frame sf (fixRange (rebuild_fix (plugin_clamp (sf_text sf)) fx))"
  by (simp add: rebuild_fix_def in_frame_clamp)

lemma framed_rebuild: "framed (fst (rebuild_diagnostic f sf d))"
  by (auto simp: framed_def rebuild_diagnostic_def Let_def in_frame_clamp diag_Fixes_def
      rebuildEslintPluginFixes_def rebuildEslintPluginSuggestions_def in_frame_rebuild_fix list_all_iff)

lemma framed_error: "framed (makeEslintPluginErrorDiagnostic path sf name msg)"
  by (simp add: framed_def makeEslintPluginErrorDiagnostic_def in_frame_def diag_Fixes_def)

lemma framed_apply_file_result: "d \<in> set (fst (apply_file_result addr f fr)) \<Longrightarrow> framed d"
  by (auto simp: apply_file_result_def Let_def framed_error framed_rebuild split: option.splits if_splits)

lemma FilePath_apply_file_result: "d \<in> set (fst (apply_file_result addr f fr)) \<Longrightarrow> FilePath d = inPath f"
  by (auto simp: apply_file_result_def Let_def makeEslintPluginErrorDiagnostic_def rebuild_diagnostic_def
      split: option.splits if_splits)

lemma apply_results_diagnostics:
  "d \<in> set (fst (apply_results addr byPath batch)) \<Longrightarrow> framed d \<and> FilePath d \<in> inPath ` set batch"
proof (induction batch)
  case (Cons f fs)
  show ?case
  proof (cases "byPath (inPath f)")
    case None
    with Cons show ?thesis by (auto split: prod.splits)
  next
    case (Some fr)
    with Cons.prems have "d \<in> set (fst (apply_file_result addr f fr)) \<or> d \<in> set (fst (apply_results addr byPath fs))"
      by (auto split: prod.splits if_splits)
    then show ?thesis
      using Cons.IH framed_apply_file_result FilePath_apply_file_result by fastforce
  qed
qed simp

lemma dispatchOneBatch_diagnostics:
  "d \<in> set (fst (dispatchOneBatch addr disp cf sm ct i batch)) \<Longrightarrow> framed d \<and> FilePath d \<in> inPath ` set batch"
  by (auto simp: dispatchOneBatch_def applyEslintPluginResults_def dest: apply_results_diagnostics
      split: option.splits dispatch_answer.splits)

lemma set_concat_groupEslintPluginFiles: "set (concat (groupEslintPluginFiles marshal files)) = set files"
  unfolding groupEslintPluginFiles_eq using dedupe_by_spec [of "eslintPluginBatchKey marshal" "[]" files]
  by auto

lemma dispatch_diagnostics:
  assumes "d \<in> set (fst (dispatchEslintPluginRules marshal addr disp files cf sm ct))"
  shows "framed d \<and> FilePath d \<in> inPath ` set files"
proof -
  from assms obtain i b d0 where b: "b \<in> set (groupEslintPluginFiles marshal files)"
    and d: "d \<in> set (fst (dispatchOneBatch addr d0 cf sm ct i b))"
    by (auto simp: dispatchEslintPluginRules_def dispatch_slots_def Let_def dest!: in_set_enumerate_eq [THEN iffD1]
        split: option.splits if_splits)
       (metis nth_mem)
  from b have "set b \<subseteq> set files" using set_concat_groupEslintPluginFiles [of marshal files] by auto
  with dispatchOneBatch_diagnostics [OF d] show ?thesis by blast
qed

lemma batch_error_eq:
  "batch_error c es =
     (case filter (\<lambda>e. \<not> errors_Is e ErrCanceled) (drop_nil es) of
        e # _ \<Rightarrow> Some e
      | [] \<Rightarrow> (case c of Some x \<Rightarrow> Some x
              | None \<Rightarrow> (case drop_nil es of [] \<Rightarrow> None | e # _ \<Rightarrow> Some e)))"
  by (induction c es rule: batch_error.induct) (auto split: list.splits option.splits)

section \<open>Properties\<close>

text \<open>
  Batching is a partition: there is one batch per batch key in the order of first occurrence, each
  batch holds exactly the files of its key in input order, and together they hold every file once.
\<close>

theorem groupEslintPluginFiles_partition:
  "\<exists>keys. distinct keys \<and> set keys = eslintPluginBatchKey marshal ` set files \<and>
     groupEslintPluginFiles marshal files =
       map (\<lambda>k. filter (\<lambda>f. eslintPluginBatchKey marshal f = k) files) keys \<and>
     mset (concat (groupEslintPluginFiles marshal files)) = mset files \<and>
     [] \<notin> set (groupEslintPluginFiles marshal files)"
proof -
  let ?key = "eslintPluginBatchKey marshal"
  let ?keys = "map ?key (dedupe_by ?key [] files)"
  have keys: "distinct ?keys" "set ?keys = ?key ` set files"
    using dedupe_by_spec [of ?key "[]" files] by auto
  then have "mset (concat (groupEslintPluginFiles marshal files)) = mset files"
    unfolding groupEslintPluginFiles_eq by (intro mset_concat_filter_keys) auto
  moreover have "[] \<notin> set (groupEslintPluginFiles marshal files)"
  proof
    assume "[] \<in> set (groupEslintPluginFiles marshal files)"
    then obtain k where "k \<in> set ?keys" "[] = filter (\<lambda>f. ?key f = k) files"
      unfolding groupEslintPluginFiles_eq by auto
    with keys(2) show False by (metis (mono_tags, lifting) filter_empty_conv image_iff)
  qed
  ultimately show ?thesis using keys groupEslintPluginFiles_eq by blast
qed

text \<open>
  When serialising the batch signatures of the given files succeeds and distinguishes them, and no
  file configures a rule twice, the rule options sent with a batch are the options every single
  file of the batch configures, so files that differ in severity only may share a batch.
\<close>

theorem plugin_batch_shares_rules:
  assumes marshals: "\<forall>f \<in> set files. marshal (inConfigKey f) (batch_signature f) \<noteq> None"
    and inj: "\<forall>f \<in> set files. \<forall>g \<in> set files.
      marshal (inConfigKey f) (batch_signature f) = marshal (inConfigKey g) (batch_signature g) \<longrightarrow>
      batch_signature f = batch_signature g"
    and distinct: "\<forall>f \<in> set files. distinct (map crName (inRules f))"
    and batch: "b \<in> set (groupEslintPluginFiles marshal files)" "f \<in> set b"
  shows "\<exists>req. buildEslintPluginRequest b cf sm ct = Some req \<and>
    map_of (reqRules req) = map_of (map (\<lambda>r. (crName r, crOptions r)) (inRules f)) \<and>
    \<lparr>wfPath = inPath f, wfText = inText f, wfConfigKey = inConfigKey f,
     wfLanguageOptions = inLanguageOptions f, wfSettings = inSettings f\<rparr> \<in> set (reqFiles req)"
proof -
  let ?key = "eslintPluginBatchKey marshal"
  let ?sig = "\<lambda>f. map (\<lambda>r. (crName r, crOptions r)) (inRules f)"
  from batch(1) obtain k where b: "b = filter (\<lambda>f. ?key f = k) files"
    unfolding groupEslintPluginFiles_eq by auto
  from batch(2) obtain f0 fs where f0: "b = f0 # fs" by (cases b) auto
  then have "f0 \<in> set b" by simp
  with b batch(2) have mem: "f0 \<in> set files" "f \<in> set files" "?key f0 = ?key f" by simp_all
  with marshals have "marshal (inConfigKey f0) (batch_signature f0) = marshal (inConfigKey f) (batch_signature f)"
    by (fastforce simp: eslintPluginBatchKey_def split: option.splits)
  with inj mem have "batch_signature f0 = batch_signature f" by blast
  then have m: "mset (?sig f0) = mset (?sig f)" unfolding batch_signature_def by (metis mset_sort_cmp)
  obtain req where req: "buildEslintPluginRequest (f0 # fs) cf sm ct = Some req"
    by (simp add: buildEslintPluginRequest_def)
  have "map_of (reqRules req) = map_of (?sig f0)" using request_rules [OF req] distinct mem(1) by blast
  also have "\<dots> = map_of (?sig f)" using distinct mem(1) m by (intro map_of_perm) (auto simp: comp_def)
  finally show ?thesis using req f0 batch(2) by (auto simp: buildEslintPluginRequest_def)
qed

text \<open>Two files that configure one plugin rule at different severities.\<close>

definition sample_input :: "string \<Rightarrow> DiagnosticSeverity \<Rightarrow> EslintPluginFileInput" where
  "sample_input path sev = \<lparr>inPath = path, inText = Some ''abc'', inSourceFile = None, inConfigKey = ''c'',
     inLanguageOptions = [], inSettings = [],
     inRules = [\<lparr>crName = ''p/r'', crEnvironment = None, crSeverity = sev, RequiresTypeInfo = False,
                 IsEslintPluginRule = True, crOptions = [JBool True]\<rparr>]\<rparr>"

definition sample_marshal :: "string \<Rightarrow> (string \<times> json list) list \<Rightarrow> string option" where
  "sample_marshal k sig = Some (k @ concat (map fst sig))"

lemma sample_batches:
  "groupEslintPluginFiles sample_marshal [sample_input ''a'' SeverityError, sample_input ''b'' SeverityWarning] =
     [[sample_input ''a'' SeverityError, sample_input ''b'' SeverityWarning]]"
  by (simp add: groupEslintPluginFiles_def eslintPluginBatchKey_def batch_signature_def sample_marshal_def
      sample_input_def Let_def)

theorem plugin_batch_shares_rules_witness:
  "\<exists>req. buildEslintPluginRequest [sample_input ''a'' SeverityError, sample_input ''b'' SeverityWarning] True ''off'' False = Some req \<and>
     map_of (reqRules req) = [''p/r'' \<mapsto> [JBool True]]"
proof -
  let ?files = "[sample_input ''a'' SeverityError, sample_input ''b'' SeverityWarning]"
  have "\<exists>req. buildEslintPluginRequest ?files True ''off'' False = Some req \<and>
      map_of (reqRules req) = map_of (map (\<lambda>r. (crName r, crOptions r)) (inRules (sample_input ''b'' SeverityWarning))) \<and>
      \<lparr>wfPath = inPath (sample_input ''b'' SeverityWarning), wfText = inText (sample_input ''b'' SeverityWarning),
       wfConfigKey = inConfigKey (sample_input ''b'' SeverityWarning),
       wfLanguageOptions = inLanguageOptions (sample_input ''b'' SeverityWarning),
       wfSettings = inSettings (sample_input ''b'' SeverityWarning)\<rparr> \<in> set (reqFiles req)"
    by (rule plugin_batch_shares_rules [where files = ?files and marshal = sample_marshal])
       (simp_all add: sample_batches, simp_all add: sample_marshal_def batch_signature_def sample_input_def)
  then show ?thesis by (auto simp: sample_input_def)
qed

text \<open>
  Claim C38.  Every diagnostic rebuilt from a host's answer lies in the frame of a file that was dispatched: its
  range and the ranges of all its edits are ordered, not negative and within the text, whatever
  offsets the host sent; in particular no rebuilt edit reaches the position before the text that
  stands for the byte order mark.
\<close>

theorem plugin_diagnostics_in_frame:
  assumes "d \<in> set (fst (dispatchEslintPluginRules marshal addr disp files cf sm ct))"
  shows "framed d \<and> FilePath d \<in> inPath ` set files"
  using assms by (rule dispatch_diagnostics)

theorem plugin_diagnostics_in_frame_witness:
  "framed (fst (rebuild_diagnostic (sample_input ''a'' SeverityError) (newTextSourceFile 0 ''abc'')
     \<lparr>pdRuleName = ''p/r'', pdMessageId = [], pdMessage = ''m'', pdStartPos = - 1, pdEndPos = 9,
      pdFixes = [\<lparr>pfRange = (- 1, 0), pfText = []\<rparr>], pdSuggestions = []\<rparr>))"
proof -
  let ?d = "\<lparr>pdRuleName = ''p/r'', pdMessageId = [], pdMessage = ''m'', pdStartPos = - 1, pdEndPos = 9,
      pdFixes = [\<lparr>pfRange = (- 1, 0), pfText = []\<rparr>], pdSuggestions = []\<rparr>"
  let ?res = "\<lparr>lrResults = [\<lparr>frFilePath = ''a'', frDiagnostics = [?d], frParseError = [], frCancelled = False, frRuleErrors = []\<rparr>]\<rparr>"
  let ?files = "[sample_input ''a'' SeverityError]"
  have "fst (rebuild_diagnostic (sample_input ''a'' SeverityError) (newTextSourceFile 0 ''abc'') ?d) \<in>
      set (fst (dispatchEslintPluginRules sample_marshal (\<lambda>_. 0) (Some (\<lambda>_ _. DispatchResult (Some ?res))) ?files True ''off'' False))"
    by (simp add: dispatchEslintPluginRules_def dispatch_slots_def groupEslintPluginFiles_def eslintPluginBatchKey_def
        batch_signature_def sample_marshal_def dispatchOneBatch_def buildEslintPluginRequest_def
        applyEslintPluginResults_def result_by_path_def apply_file_result_def eslintPluginSourceFile_def
        sample_input_def Let_def trim_prefix_def has_prefix_def BOM_def)
  from plugin_diagnostics_in_frame [OF this] show ?thesis by (rule conjunct1)
qed

text \<open>
  A failure of one batch never hides the others' diagnostics, and the reported error is the first
  genuine failure in batch order, or the first cancellation when every failing batch was
  cancelled.
\<close>

theorem dispatch_error_precedence:
  "dispatchEslintPluginRules marshal addr (Some d) files cf sm ct =
    (concat (map fst (dispatch_slots marshal addr d files cf sm ct)),
     concat (map (fst \<circ> snd) (dispatch_slots marshal addr d files cf sm ct)),
     case filter (\<lambda>e. \<not> errors_Is e ErrCanceled) (drop_nil (map (snd \<circ> snd) (dispatch_slots marshal addr d files cf sm ct))) of
       e # _ \<Rightarrow> Some e
     | [] \<Rightarrow> (case drop_nil (map (snd \<circ> snd) (dispatch_slots marshal addr d files cf sm ct)) of [] \<Rightarrow> None | e # _ \<Rightarrow> Some e))"
proof (cases "files = []")
  case True
  then have "dispatch_slots marshal addr d files cf sm ct = []"
    by (simp add: dispatch_slots_def groupEslintPluginFiles_def)
  with True show ?thesis by (simp add: dispatchEslintPluginRules_def)
next
  case False
  then show ?thesis by (simp add: dispatchEslintPluginRules_def Let_def batch_error_eq split: list.split)
qed

end
