(* ===== verification/Pipeline_Types.thy ===== *)
theory Pipeline_Types
  imports Autofix_State Plugin
begin

text \<open>
  The contract of the lint pipeline, \<^verbatim>\<open>internal/linter/pipeline_contract.go\<close>, its result types,
  \<^verbatim>\<open>pipeline_result.go\<close>, and the request validation.

  The ports of a request (generation provider, committer, plugin dispatcher, presenter) are code of
  the integrations; they are functions in the request record.  A port may answer differently on
  every call, so the provider takes the number of generations acquired before, and the dispatcher
  the index of the observation.  Enumerations over \<open>uint8\<close> are kept as words, so that invalid
  values are values of the model.
\<close>

section \<open>Generations\<close>

record PluginGeneration =
  pgConfigForFile :: "(string \<Rightarrow> EslintPluginFileConfig) option"
  pgWirePath :: "(string \<Rightarrow> string) option"
  HostReadsInitialText :: bool

text \<open>\<open>genLintFile\<close> stands for the native rules of the generation, \<open>genHasRelease\<close> says that the
  provider returned a release function.\<close>

record Generation =
  genPrograms :: "Program option list"
  genTargetsByProgram :: "string list list"
  genRulesForFile :: "(SourceFile \<Rightarrow> ConfiguredRule list) option"
  genTypeCheck :: bool
  genSingleThreaded :: bool
  genTiming :: bool
  genLintFile :: "EditDemand \<Rightarrow> lintFilePlan \<Rightarrow> ConfiguredRule list \<Rightarrow> RuleDiagnostic list"
  genPath :: "(string \<Rightarrow> string) option"
  genReadText :: "(string \<Rightarrow> SourceFile option \<Rightarrow> lint_error + string) option"
  genPlugin :: "PluginGeneration option"
  genHasRelease :: bool

section \<open>Policies\<close>

record ArtifactDemand =
  demandNative :: EditDemand
  demandPlugin :: EditDemand
  demandLintedFiles :: bool

definition demand_valid :: "ArtifactDemand \<Rightarrow> bool" where
  "demand_valid d = (EditDemand_IsValid (demandNative d) \<and> EditDemand_IsValid (demandPlugin d))"

definition plansAutofixes :: "ArtifactDemand \<Rightarrow> bool" where
  "plansAutofixes d = (demandNative d AND EditDemandAutofix \<noteq> 0 \<or> demandPlugin d AND EditDemandAutofix \<noteq> 0)"

type_synonym PluginExecution = "8 word"
definition PluginConcurrentJoined :: PluginExecution where "PluginConcurrentJoined = 0"
definition PluginAfterNativeJoined :: PluginExecution where "PluginAfterNativeJoined = 1"
definition pluginProgressiveAfterNative :: PluginExecution where "pluginProgressiveAfterNative = 2"

definition PluginExecution_valid :: "PluginExecution \<Rightarrow> bool" where
  "PluginExecution_valid m = (m \<le> pluginProgressiveAfterNative)"

type_synonym PluginFailurePolicy = "8 word"
definition PluginKeepPartialWithSynthetic :: PluginFailurePolicy where "PluginKeepPartialWithSynthetic = 0"
definition PluginDiscardOnFailure :: PluginFailurePolicy where "PluginDiscardOnFailure = 1"

definition PluginFailurePolicy_valid :: "PluginFailurePolicy \<Rightarrow> bool" where
  "PluginFailurePolicy_valid p = (p \<le> PluginDiscardOnFailure)"

record ObservationPolicy =
  polDemand :: ArtifactDemand
  polPlugin :: PluginExecution
  polPluginFailure :: PluginFailurePolicy

record AutofixPolicy =
  VerifyAfterLastRound :: bool
  VerificationDemand :: ArtifactDemand
  StopOnTargetSyntaxErrors :: bool
  maxRounds :: int

definition maxFixRounds :: int where "maxFixRounds = 10"

section \<open>Requests\<close>

type_synonym pipelineRequestKind = "8 word"
definition pipelineRequestLint :: pipelineRequestKind where "pipelineRequestLint = 0"
definition pipelineRequestProgressiveLint :: pipelineRequestKind where "pipelineRequestProgressiveLint = 1"
definition pipelineRequestAutofix :: pipelineRequestKind where "pipelineRequestAutofix = 2"

type_synonym GenerationProvider = "nat \<Rightarrow> SourceSnapshot \<Rightarrow> lint_error + Generation"
type_synonym FinalChangeCommitter = "FileChange list \<Rightarrow> CommitResult \<times> lint_error option"

text \<open>A committer field is a pointer to a struct whose interface value may be nil; the presenter is
  represented by its presence (its calls are events of the run).\<close>

record PipelineRequest =
  rqKind :: pipelineRequestKind
  rqProvider :: "GenerationProvider option"
  rqCommit :: "FinalChangeCommitter option option"
  rqPolicy :: ObservationPolicy
  rqAutofix :: AutofixPolicy
  rqDispatcher :: "(nat \<Rightarrow> EslintPluginDispatcher) option"
  rqPresenter :: bool

definition zeroDemand :: ArtifactDemand where
  "zeroDemand = \<lparr>demandNative = 0, demandPlugin = 0, demandLintedFiles = False\<rparr>"

definition zeroAutofixPolicy :: AutofixPolicy where
  "zeroAutofixPolicy = \<lparr>VerifyAfterLastRound = False, VerificationDemand = zeroDemand,
     StopOnTargetSyntaxErrors = False, maxRounds = 0\<rparr>"

definition NewLintRequest ::
  "GenerationProvider option \<Rightarrow> ObservationPolicy \<Rightarrow> (nat \<Rightarrow> EslintPluginDispatcher) option \<Rightarrow> PipelineRequest" where
  "NewLintRequest provider policy dispatcher =
     \<lparr>rqKind = pipelineRequestLint, rqProvider = provider, rqCommit = None, rqPolicy = policy,
      rqAutofix = zeroAutofixPolicy, rqDispatcher = dispatcher, rqPresenter = False\<rparr>"

definition NewProgressiveLintRequest ::
  "GenerationProvider option \<Rightarrow> ArtifactDemand \<Rightarrow> bool \<Rightarrow> PipelineRequest" where
  "NewProgressiveLintRequest provider demand presenter =
     \<lparr>rqKind = pipelineRequestProgressiveLint, rqProvider = provider, rqCommit = None,
      rqPolicy = \<lparr>polDemand = demand, polPlugin = pluginProgressiveAfterNative,
                  polPluginFailure = PluginDiscardOnFailure\<rparr>,
      rqAutofix = zeroAutofixPolicy, rqDispatcher = None, rqPresenter = presenter\<rparr>"

definition NewAutofixRequest ::
  "GenerationProvider option \<Rightarrow> ObservationPolicy \<Rightarrow> AutofixPolicy \<Rightarrow>
   (nat \<Rightarrow> EslintPluginDispatcher) option \<Rightarrow> PipelineRequest" where
  "NewAutofixRequest provider policy autofix dispatcher =
     \<lparr>rqKind = pipelineRequestAutofix, rqProvider = provider, rqCommit = None, rqPolicy = policy,
      rqAutofix = (if maxRounds autofix = 0 then autofix\<lparr>maxRounds := maxFixRounds\<rparr> else autofix),
      rqDispatcher = dispatcher, rqPresenter = False\<rparr>"

definition NewAutofixRequestWithCommitter ::
  "GenerationProvider option \<Rightarrow> FinalChangeCommitter option \<Rightarrow> ObservationPolicy \<Rightarrow> AutofixPolicy \<Rightarrow>
   (nat \<Rightarrow> EslintPluginDispatcher) option \<Rightarrow> PipelineRequest" where
  "NewAutofixRequestWithCommitter provider committer policy autofix dispatcher =
     (NewAutofixRequest provider policy autofix dispatcher)\<lparr>rqCommit := Some committer\<rparr>"

definition validate :: "PipelineRequest \<Rightarrow> lint_error option" where
  "validate r =
     (if rqProvider r = None then Some (Errorf ''linter pipeline: generation provider must not be nil'' [])
      else if \<not> demand_valid (polDemand (rqPolicy r)) then Some (Errorf ''linter pipeline: artifact demand is invalid'' [])
      else if \<not> PluginExecution_valid (polPlugin (rqPolicy r))
      then Some (Errorf ''linter pipeline: plugin execution policy is invalid'' [])
      else if \<not> PluginFailurePolicy_valid (polPluginFailure (rqPolicy r))
      then Some (Errorf ''linter pipeline: plugin failure policy is invalid'' [])
      else if polPlugin (rqPolicy r) = pluginProgressiveAfterNative \<and> rqKind r \<noteq> pipelineRequestProgressiveLint
      then Some (Errorf ''linter pipeline: progressive execution requires a progressive request'' [])
      else if rqKind r = pipelineRequestLint then
        (if rqCommit r \<noteq> None then Some (Errorf ''linter pipeline: lint request must not carry a final change committer'' [])
         else if rqPresenter r then Some (Errorf ''linter pipeline: lint request must not carry progressive presentation ports'' [])
         else None)
      else if rqKind r = pipelineRequestProgressiveLint then
        (if rqCommit r \<noteq> None \<or> rqDispatcher r \<noteq> None
         then Some (Errorf ''linter pipeline: progressive request must inject transport through its executor'' [])
         else if \<not> rqPresenter r then Some (Errorf ''linter pipeline: progressive diagnostics must not be nil'' [])
         else if polPlugin (rqPolicy r) \<noteq> pluginProgressiveAfterNative
         then Some (Errorf ''linter pipeline: progressive request execution policy is invalid'' [])
         else None)
      else if rqKind r = pipelineRequestAutofix then
        (if rqCommit r = Some None then Some (Errorf ''linter pipeline: final change committer must not be nil'' [])
         else if polPlugin (rqPolicy r) = pluginProgressiveAfterNative
         then Some (Errorf ''linter pipeline: autofix requires joined plugin work'' [])
         else if \<not> plansAutofixes (polDemand (rqPolicy r))
         then Some (Errorf ''linter pipeline: autofix observations must request autofix artifacts'' [])
         else if maxRounds (rqAutofix r) \<le> 0 then Some (Errorf ''linter pipeline: autofix round limit must be positive'' [])
         else if maxRounds (rqAutofix r) > maxFixRounds
         then Some (Errorf ''linter pipeline: autofix round limit exceeds the product safety bound'' [])
         else if \<not> demand_valid (VerificationDemand (rqAutofix r))
         then Some (Errorf ''linter pipeline: verification artifact demand is invalid'' [])
         else None)
      else Some (Errorf ''linter pipeline: request kind is invalid'' []))"

section \<open>Observations and results\<close>

record LintedFile =
  lfPath :: string
  lfSourceFile :: SourceFile

record NativeObservation =
  noDiagnostics :: "RuleDiagnostic list"
  noLint :: "LintResult option"
  noFiles :: "LintedFile list"
  HasTargetSyntaxErrors :: bool

datatype pluginObservationKind = pluginObservationNone | pluginObservationJoined | pluginObservationProgressive

record ObservationResult =
  obsIndex :: nat
  obsNative :: NativeObservation
  obsPluginKind :: pluginObservationKind
  obsPluginOutcome :: EslintPluginDispatchOutcome

definition zeroNative :: NativeObservation where
  "zeroNative = \<lparr>noDiagnostics = [], noLint = None, noFiles = [], HasTargetSyntaxErrors = False\<rparr>"

definition zeroOutcome :: EslintPluginDispatchOutcome where
  "zeroOutcome = \<lparr>outDiagnostics = [], outNotices = [], DispatchError = None\<rparr>"

definition newObservation :: "nat \<Rightarrow> ObservationResult" where
  "newObservation index = \<lparr>obsIndex = index, obsNative = zeroNative, obsPluginKind = pluginObservationNone,
     obsPluginOutcome = zeroOutcome\<rparr>"

text \<open>\<^term>\<open>None\<close> is the \<open>(nil, false)\<close> of a progressively presented baseline.\<close>

definition CompleteDiagnostics :: "ObservationResult \<Rightarrow> RuleDiagnostic list option" where
  "CompleteDiagnostics r =
     (if obsPluginKind r = pluginObservationProgressive then None
      else Some (noDiagnostics (obsNative r) @
                 (if obsPluginKind r = pluginObservationJoined then outDiagnostics (obsPluginOutcome r) else [])))"

definition JoinedPluginOutcome :: "ObservationResult \<Rightarrow> EslintPluginDispatchOutcome option" where
  "JoinedPluginOutcome r =
     (if obsPluginKind r \<noteq> pluginObservationJoined then None else Some (obsPluginOutcome r))"

datatype fixResultKind = fixResultNone | fixResultApplied

record fixResult =
  fixKind :: fixResultKind
  fixInitial :: ObservationResult
  fixRounds :: "FixRoundResult list"
  fixFinalChanges :: "FileChange list"
  fixFinalSources :: "SourceFileSnapshot list"
  fixVerified :: bool
  fixCommitted :: bool
  fixCommittedPaths :: "string list"

record PluginDispatchRecord =
  pdrObservation :: nat
  pdrNotices :: "EslintPluginProtocolNotice list"
  pdrDispatchError :: "lint_error option"

record PipelineResult =
  resObservation :: ObservationResult
  resFix :: fixResult
  resExecutedRules :: "string set"
  resPluginOutcomes :: "PluginDispatchRecord list"

record AppliedFixResult =
  apInitial :: ObservationResult
  apLast :: ObservationResult
  apRounds :: "FixRoundResult list"
  apFinalChanges :: "FileChange list"
  apFinalSources :: "SourceFileSnapshot list"
  apVerified :: bool
  apCommitted :: bool
  apCommittedPaths :: "string list"

definition fix_applied :: "fixResult \<Rightarrow> ObservationResult \<Rightarrow> AppliedFixResult option" where
  "fix_applied r last_obs =
     (if fixKind r \<noteq> fixResultApplied then None
      else Some \<lparr>apInitial = fixInitial r, apLast = last_obs, apRounds = fixRounds r,
                 apFinalChanges = fixFinalChanges r, apFinalSources = fixFinalSources r,
                 apVerified = fixVerified r, apCommitted = fixCommitted r,
                 apCommittedPaths = fixCommittedPaths r\<rparr>)"

definition AppliedFixes :: "PipelineResult \<Rightarrow> AppliedFixResult option" where
  "AppliedFixes r = fix_applied (resFix r) (resObservation r)"

definition zeroFix :: fixResult where
  "zeroFix = \<lparr>fixKind = fixResultNone, fixInitial = newObservation 0, fixRounds = [], fixFinalChanges = [],
     fixFinalSources = [], fixVerified = False, fixCommitted = False, fixCommittedPaths = []\<rparr>"

definition zeroResult :: PipelineResult where
  "zeroResult = \<lparr>resObservation = newObservation 0, resFix = zeroFix, resExecutedRules = {}, resPluginOutcomes = []\<rparr>"

section \<open>Properties\<close>

lemmas request_defs = NewLintRequest_def NewProgressiveLintRequest_def NewAutofixRequest_def
  NewAutofixRequestWithCommitter_def pipelineRequestLint_def pipelineRequestProgressiveLint_def
  pipelineRequestAutofix_def

lemma request_kinds_distinct [simp]:
  "pipelineRequestLint \<noteq> pipelineRequestProgressiveLint" "pipelineRequestProgressiveLint \<noteq> pipelineRequestLint"
  "pipelineRequestLint \<noteq> pipelineRequestAutofix" "pipelineRequestAutofix \<noteq> pipelineRequestLint"
  "pipelineRequestAutofix \<noteq> pipelineRequestProgressiveLint" "pipelineRequestProgressiveLint \<noteq> pipelineRequestAutofix"
  by (simp_all add: pipelineRequestLint_def pipelineRequestProgressiveLint_def pipelineRequestAutofix_def)

lemma plugin_modes_distinct [simp]:
  "PluginConcurrentJoined \<noteq> PluginAfterNativeJoined" "PluginAfterNativeJoined \<noteq> PluginConcurrentJoined"
  "PluginConcurrentJoined \<noteq> pluginProgressiveAfterNative" "pluginProgressiveAfterNative \<noteq> PluginConcurrentJoined"
  "PluginAfterNativeJoined \<noteq> pluginProgressiveAfterNative" "pluginProgressiveAfterNative \<noteq> PluginAfterNativeJoined"
  by (simp_all add: PluginConcurrentJoined_def PluginAfterNativeJoined_def pluginProgressiveAfterNative_def)

lemma EditDemand_IsValid_iff: "EditDemand_IsValid d \<longleftrightarrow> d = 0 \<or> d = 1 \<or> d = 2 \<or> d = 3"
  using EditDemand_bits [of d]
  by (simp add: EditDemand_IsValid_def EditDemandAll_def EditDemandAutofix_def EditDemandSuggestion_def)

lemma validated:
  assumes "validate r = None"
  shows "rqProvider r \<noteq> None \<and>
    {demandNative (polDemand (rqPolicy r)), demandPlugin (polDemand (rqPolicy r))} \<subseteq> {0, 1, 2, 3} \<and>
    ((rqKind r = pipelineRequestLint \<and> rqCommit r = None \<and> \<not> rqPresenter r \<and>
        polPlugin (rqPolicy r) \<noteq> pluginProgressiveAfterNative) \<or>
     (rqKind r = pipelineRequestProgressiveLint \<and> rqCommit r = None \<and> rqDispatcher r = None \<and> rqPresenter r \<and>
        polPlugin (rqPolicy r) = pluginProgressiveAfterNative) \<or>
     (rqKind r = pipelineRequestAutofix \<and> rqCommit r \<noteq> Some None \<and> plansAutofixes (polDemand (rqPolicy r)) \<and>
        1 \<le> maxRounds (rqAutofix r) \<and> maxRounds (rqAutofix r) \<le> 10 \<and>
        polPlugin (rqPolicy r) \<noteq> pluginProgressiveAfterNative))"
  using assms unfolding validate_def
  by (auto simp: demand_valid_def EditDemand_IsValid_iff maxFixRounds_def split: if_splits)

text \<open>
  A valid request is exactly one of the three operations with the ports it may use: a lint request
  has no committer and no presenter, a progressive request has a presenter, no committer and no
  dispatcher, an autofix request asks for edits, has between one and ten rounds and joined plugin
  work; every demand is one of the four valid edit sets.
\<close>

theorem validate_ok:
  assumes "validate r = None"
  shows "rqProvider r \<noteq> None \<and>
    {demandNative (polDemand (rqPolicy r)), demandPlugin (polDemand (rqPolicy r))} \<subseteq> {0, 1, 2, 3} \<and>
    ((rqKind r = pipelineRequestLint \<and> rqCommit r = None \<and> \<not> rqPresenter r \<and>
        polPlugin (rqPolicy r) \<noteq> pluginProgressiveAfterNative) \<or>
     (rqKind r = pipelineRequestProgressiveLint \<and> rqCommit r = None \<and> rqDispatcher r = None \<and> rqPresenter r \<and>
        polPlugin (rqPolicy r) = pluginProgressiveAfterNative) \<or>
     (rqKind r = pipelineRequestAutofix \<and> rqCommit r \<noteq> Some None \<and> plansAutofixes (polDemand (rqPolicy r)) \<and>
        1 \<le> maxRounds (rqAutofix r) \<and> maxRounds (rqAutofix r) \<le> 10 \<and>
        polPlugin (rqPolicy r) \<noteq> pluginProgressiveAfterNative))"
  using assms by (rule validated)

definition sample_policy :: ObservationPolicy where
  "sample_policy = \<lparr>polDemand = \<lparr>demandNative = 1, demandPlugin = 3, demandLintedFiles = False\<rparr>,
     polPlugin = PluginConcurrentJoined, polPluginFailure = PluginKeepPartialWithSynthetic\<rparr>"

theorem validate_ok_witness:
  "validate (NewAutofixRequest (Some (\<lambda>_ _. Inl ErrCanceled)) sample_policy zeroAutofixPolicy None) = None \<and>
   maxRounds (rqAutofix (NewAutofixRequest (Some (\<lambda>_ _. Inl ErrCanceled)) sample_policy zeroAutofixPolicy None)) \<le> 10"
proof -
  let ?r = "NewAutofixRequest (Some (\<lambda>_ _. Inl ErrCanceled)) sample_policy zeroAutofixPolicy None"
  have v: "validate ?r = None"
    by (simp add: validate_def request_defs sample_policy_def demand_valid_def EditDemand_IsValid_iff
        PluginExecution_valid_def PluginFailurePolicy_valid_def PluginConcurrentJoined_def
        PluginKeepPartialWithSynthetic_def pluginProgressiveAfterNative_def PluginDiscardOnFailure_def
        plansAutofixes_def EditDemandAutofix_def zeroAutofixPolicy_def zeroDemand_def maxFixRounds_def)
  from validate_ok [OF v] have "maxRounds (rqAutofix ?r) \<le> 10"
    by (auto simp: request_defs zeroAutofixPolicy_def maxFixRounds_def)
  with v show ?thesis by blast
qed

end
