(* ===== verification/Observation.thy ===== *)
theory Observation
  imports Pipeline_Types
begin

text \<open>
  One observation of the pipeline: \<^verbatim>\<open>internal/linter/pipeline_generation.go\<close>,
  \<^verbatim>\<open>pipeline_native.go\<close>, \<^verbatim>\<open>pipeline_plugin.go\<close>, \<^verbatim>\<open>pipeline_observation.go\<close> and the freezing part of
  \<^verbatim>\<open>pipeline_fix_text.go\<close>.

  A run threads a \<open>run_state\<close>: the number of times \<open>ctx.Err()\<close> was asked, the number of acquired
  generations, and the trace of the calls that leave the pipeline.  \<open>ctxErrAt\<close> gives the answer of
  the n-th \<open>ctx.Err()\<close>; a cancellation that happens at any moment shows up at some poll and at
  all later ones.  The other fields of \<open>run_env\<close> are the library functions described in
  the theory of the plugin dispatch.

  Plugin work of the concurrent mode runs on its own goroutine between the events \<open>EvPluginStart\<close>
  and \<open>EvPluginJoin\<close>; its result does not depend on the native pass.
\<close>

section \<open>Runs\<close>

datatype pipe_event =
    EvAcquire SourceSnapshot
  | EvRelease bool
  | EvPluginStart nat
  | EvPluginJoin nat
  | EvCommit "FileChange list"
  | EvBaseline "RuleDiagnostic list"
  | EvSubmit

record run_state =
  rsPolls :: nat
  rsAcquired :: nat
  rsTrace :: "pipe_event list"

record run_env =
  ctxErrAt :: "nat \<Rightarrow> lint_error option"
  envExt :: "string \<Rightarrow> string"
  envMarshal :: "string \<Rightarrow> (string \<times> json list) list \<Rightarrow> string option"
  envAddr :: "string \<Rightarrow> nat"
  envErrText :: "lint_error \<Rightarrow> string"
  envMaxProcs :: nat
  envTurns :: "nat \<Rightarrow> nat list"
  envCloneMap :: "(string \<times> json) list \<Rightarrow> lint_error + (string \<times> json) list"
  envCloneOptions :: "json list \<Rightarrow> lint_error + json list"
  envArrive :: "nat \<Rightarrow> RuleDiagnostic list list \<Rightarrow> RuleDiagnostic list"

definition ctx_Err :: "run_env \<Rightarrow> run_state \<Rightarrow> lint_error option \<times> run_state" where
  "ctx_Err E s = (ctxErrAt E (rsPolls s), s\<lparr>rsPolls := Suc (rsPolls s)\<rparr>)"

definition log_event :: "pipe_event \<Rightarrow> run_state \<Rightarrow> run_state" where
  "log_event e s = s\<lparr>rsTrace := rsTrace s @ [e]\<rparr>"

section \<open>Release\<close>

text \<open>\<open>releaseLease.close\<close>: the flag says whether the once has run.\<close>

definition lease_close :: "bool \<Rightarrow> bool \<times> run_state \<Rightarrow> bool \<times> run_state" where
  "lease_close hasRelease st =
     (case st of (closed, s) \<Rightarrow> (True, if closed then s else log_event (EvRelease hasRelease) s))"

section \<open>Target projection\<close>

definition projectTargetPath :: "(string \<Rightarrow> string) option \<Rightarrow> string \<Rightarrow> string" where
  "projectTargetPath project sourcePath = (case project of None \<Rightarrow> sourcePath | Some f \<Rightarrow> f sourcePath)"

definition readGenerationText ::
  "Generation \<Rightarrow> SourceSnapshot \<Rightarrow> string \<Rightarrow> SourceFile option \<Rightarrow> lint_error + string" where
  "readGenerationText gen snap targetPath source =
     (case snapshot_Text snap targetPath of
        Some t \<Rightarrow> Inr t
      | None \<Rightarrow>
          (case genReadText gen of
             None \<Rightarrow> Inl (Errorf ''target text reader is not configured'' [])
           | Some rd \<Rightarrow> rd targetPath source))"

fun project_files ::
  "run_env \<Rightarrow> Generation \<Rightarrow> bool \<Rightarrow> (string \<times> SourceFile) list \<Rightarrow> LintedFile list \<Rightarrow> SourceFile list \<Rightarrow> run_state \<Rightarrow>
   (lint_error + (string \<times> SourceFile) list \<times> LintedFile list) \<times> run_state" where
  "project_files E gen collect sources lfs [] s = (Inr (sources, lfs), s)"
| "project_files E gen collect sources lfs (src # srcs) s =
     (case ctx_Err E s of
        (Some e, s) \<Rightarrow> (Inl e, s)
      | (None, s) \<Rightarrow>
          (let path = projectTargetPath (genPath gen) (sf_fileName src)
           in if path = [] then (Inl (Errorf ''linter pipeline: projected target path must not be empty'' []), s)
              else if (case map_of sources path of None \<Rightarrow> False | Some prev \<Rightarrow> sf_ptr prev \<noteq> sf_ptr src)
              then (Inl (Errorf ''linter pipeline: duplicate projected target %q'' [path]), s)
              else project_files E gen collect (al_update path src sources)
                     (if collect then lfs @ [\<lparr>lfPath = path, lfSourceFile = src\<rparr>] else lfs) srcs s))"

fun validate_snapshot ::
  "run_env \<Rightarrow> (string \<Rightarrow> SourceFile option \<Rightarrow> lint_error + string) \<Rightarrow> (string \<times> SourceFile) list \<Rightarrow>
   SourceFileSnapshot list \<Rightarrow> run_state \<Rightarrow> lint_error option \<times> run_state" where
  "validate_snapshot E rd sources [] s = (None, s)"
| "validate_snapshot E rd sources (f # fs) s =
     (case ctx_Err E s of
        (Some e, s) \<Rightarrow> (Some e, s)
      | (None, s) \<Rightarrow>
          (case map_of sources (snPath f) of
             None \<Rightarrow> (Some (Errorf ''linter pipeline: in-memory target %q is absent from its generation'' [snPath f]), s)
           | Some src \<Rightarrow>
               (case rd (snPath f) (Some src) of
                  Inl e \<Rightarrow> (Some (Wrapf ''linter pipeline: validate in-memory target %q: %w'' [snPath f] e), s)
                | Inr t \<Rightarrow>
                    if t \<noteq> snText f
                    then (Some (Errorf ''linter pipeline: generation did not materialize in-memory target %q'' [snPath f]), s)
                    else validate_snapshot E rd sources fs s)))"

definition projectGenerationTargets ::
  "run_env \<Rightarrow> Generation \<Rightarrow> LintPlan option \<Rightarrow> SourceSnapshot \<Rightarrow> bool \<Rightarrow> run_state \<Rightarrow>
   (lint_error + LintedFile list) \<times> run_state" where
  "projectGenerationTargets E gen plan snap collect s =
     (case plan of
        None \<Rightarrow> if snapshot_Empty snap then (Inr [], s)
                else (Inl (Errorf ''linter pipeline: an in-memory snapshot requires a lint plan'' []), s)
      | Some p \<Rightarrow>
          (case project_files E gen collect [] []
                  (concat (map (\<lambda>pp. map planFile (planFiles pp)) (planPrograms p))) s of
             (Inl e, s) \<Rightarrow> (Inl e, s)
           | (Inr (sources, lfs), s) \<Rightarrow>
               if snapshot_Empty snap then (Inr lfs, s)
               else (case genReadText gen of
                       None \<Rightarrow> (Inl (Errorf ''linter pipeline: an in-memory snapshot requires a target text reader'' []), s)
                     | Some rd \<Rightarrow>
                         (case validate_snapshot E rd sources (snFiles snap) s of
                            (Some e, s) \<Rightarrow> (Inl e, s)
                          | (None, s) \<Rightarrow>
                              (case ctx_Err E s of
                                 (Some e, s) \<Rightarrow> (Inl e, s)
                               | (None, s) \<Rightarrow> (Inr lfs, s))))))"

section \<open>Freezing text\<close>

fun freeze_paths ::
  "run_env \<Rightarrow> Generation \<Rightarrow> SourceSnapshot \<Rightarrow> (string \<times> SourceFile option) list \<Rightarrow> fixTextSnapshot \<Rightarrow> string list \<Rightarrow>
   run_state \<Rightarrow> (lint_error + fixTextSnapshot) \<times> run_state" where
  "freeze_paths E gen snap sources texts [] s =
     (case ctx_Err E s of (Some e, s) \<Rightarrow> (Inl e, s) | (None, s) \<Rightarrow> (Inr texts, s))"
| "freeze_paths E gen snap sources texts (path # paths) s =
     (case ctx_Err E s of
        (Some e, s) \<Rightarrow> (Inl e, s)
      | (None, s) \<Rightarrow>
          (case map_of sources path of
             Some (Some src) \<Rightarrow>
               (case readGenerationText gen snap path (Some src) of
                  Inl e \<Rightarrow> (Inl (Wrapf ''linter pipeline: read fix target %q: %w'' [path] e), s)
                | Inr t \<Rightarrow> freeze_paths E gen snap sources (texts(path \<mapsto> t)) paths s)
           | _ \<Rightarrow> (Inl (Errorf ''linter pipeline: fix target %q has no source frame'' [path]), s)))"

definition freezeFixTexts ::
  "run_env \<Rightarrow> Generation \<Rightarrow> SourceSnapshot \<Rightarrow> (string \<times> SourceFile option) list \<Rightarrow> run_state \<Rightarrow>
   (lint_error + fixTextSnapshot) \<times> run_state" where
  "freezeFixTexts E gen snap sources s =
     (if length sources = 0 then (Inr Map.empty, s)
      else freeze_paths E gen snap sources Map.empty (sort_strings (al_keys sources)) s)"

definition some_sources :: "(string \<times> SourceFile) list \<Rightarrow> (string \<times> SourceFile option) list" where
  "some_sources m = map (\<lambda>(p, f). (p, Some f)) m"

definition freezeFixTextsForDiagnostics ::
  "run_env \<Rightarrow> Generation \<Rightarrow> SourceSnapshot \<Rightarrow> RuleDiagnostic list \<Rightarrow> run_state \<Rightarrow>
   (lint_error + fixTextSnapshot) \<times> run_state" where
  "freezeFixTextsForDiagnostics E gen snap diagnostics s =
     (case fixSourcesFromDiagnostics diagnostics of
        Inl e \<Rightarrow> (Inl e, s)
      | Inr sources \<Rightarrow> freezeFixTexts E gen snap (some_sources sources) s)"

section \<open>Plugin tasks\<close>

record pluginTask =
  ptInputs :: "EslintPluginFileInput list"
  targetPathByWire :: "(string \<times> string) list"
  fixCandidates :: "(string \<times> SourceFile option) list"
  collectFixes :: bool
  suggestionsMode :: string
  ptTiming :: bool
  ptFailure :: PluginFailurePolicy

definition emptyPluginTask :: "PluginFailurePolicy \<Rightarrow> pluginTask" where
  "emptyPluginTask failure =
     \<lparr>ptInputs = [], targetPathByWire = [], fixCandidates = [], collectFixes = False,
      suggestionsMode = [], ptTiming = False, ptFailure = failure\<rparr>"

definition remap_path :: "(string \<times> string) list \<Rightarrow> RuleDiagnostic \<Rightarrow> RuleDiagnostic" where
  "remap_path m d = (case map_of m (FilePath d) of Some p \<Rightarrow> d\<lparr>FilePath := p\<rparr> | None \<Rightarrow> d)"

definition pluginTask_run ::
  "run_env \<Rightarrow> pluginTask \<Rightarrow> EslintPluginDispatcher option \<Rightarrow> EslintPluginDispatchOutcome" where
  "pluginTask_run E t dispatcher =
     (let (diagnostics, notices, err) =
            dispatchEslintPluginRules (envMarshal E) (envAddr E) dispatcher (ptInputs t)
              (collectFixes t) (suggestionsMode t) (ptTiming t);
          diagnostics =
            (case err of
               None \<Rightarrow> diagnostics
             | Some e \<Rightarrow>
                 if ptFailure t = PluginDiscardOnFailure then []
                 else if ptFailure t = PluginKeepPartialWithSynthetic \<and> \<not> errors_Is e ErrCanceled
                 then diagnostics @ [NewEslintPluginErrorDiagnostic (envAddr E)
                        (eslintPluginDispatchFailurePath (ptInputs t)) ''rslint/plugin-lint-error''
                        (''ESLint plugin lint dispatch failed: '' @ envErrText E e)]
                 else diagnostics)
      in \<lparr>outDiagnostics = map (remap_path (targetPathByWire t)) diagnostics,
          outNotices = notices, DispatchError = err\<rparr>)"

definition newDeferredPluginRun :: "pluginTask \<Rightarrow> lint_error option" where
  "newDeferredPluginRun task =
     (if length (fixCandidates task) \<noteq> 0
      then Some (Errorf ''linter pipeline: deferred plugin run retained fix source candidates'' [])
      else if list_ex (\<lambda>i. inSourceFile i \<noteq> None \<or> inText i = None) (ptInputs task)
      then (case find (\<lambda>i. inSourceFile i \<noteq> None \<or> inText i = None) (ptInputs task) of
              Some i \<Rightarrow> if inSourceFile i \<noteq> None
                        then Some (Errorf ''linter pipeline: deferred plugin run retained a source frame'' [])
                        else Some (Errorf ''linter pipeline: deferred plugin run requires inline text'' [])
            | None \<Rightarrow> None)
      else None)"

text \<open>One invocation of the deferred closure; the flag is its \<open>ran\<close> state.\<close>

definition deferredPluginRun ::
  "run_env \<Rightarrow> pluginTask \<Rightarrow> bool \<Rightarrow> bool \<Rightarrow> EslintPluginDispatcher option \<Rightarrow>
   (lint_error + EslintPluginDispatchOutcome) \<times> bool" where
  "deferredPluginRun E task invoked ctxNil dispatcher =
     (if ctxNil then (Inl (Errorf ''linter pipeline: plugin context must not be nil'' []), invoked)
      else if dispatcher = None then (Inl (Errorf ''linter pipeline: plugin dispatcher must not be nil'' []), invoked)
      else if invoked then (Inl (Errorf ''linter pipeline: deferred plugin run already invoked'' []), invoked)
      else (Inr (pluginTask_run E task dispatcher), True))"

fun clone_rules :: "run_env \<Rightarrow> ConfiguredRule list \<Rightarrow> lint_error + ConfiguredRule list" where
  "clone_rules E [] = Inr []"
| "clone_rules E (r # rs) =
     (case envCloneOptions E (crOptions r) of
        Inl e \<Rightarrow> Inl (Wrapf ''clone rule %q options: %w'' [crName r] e)
      | Inr opts \<Rightarrow>
          (case clone_rules E rs of
             Inl e \<Rightarrow> Inl e
           | Inr rs' \<Rightarrow>
               Inr (\<lparr>crName = crName r, crEnvironment = None, crSeverity = crSeverity r,
                     RequiresTypeInfo = False, IsEslintPluginRule = True, crOptions = opts\<rparr> # rs')))"

definition detachPluginInput :: "run_env \<Rightarrow> EslintPluginFileInput \<Rightarrow> lint_error + EslintPluginFileInput" where
  "detachPluginInput E input =
     (case inText input of
        None \<Rightarrow> Inl (Errorf ''inline text is required'' [])
      | Some t \<Rightarrow>
          (case envCloneMap E (inLanguageOptions input) of
             Inl e \<Rightarrow> Inl (Wrapf ''clone language options: %w'' [] e)
           | Inr languageOptions \<Rightarrow>
               (case envCloneMap E (inSettings input) of
                  Inl e \<Rightarrow> Inl (Wrapf ''clone settings: %w'' [] e)
                | Inr settings \<Rightarrow>
                    (case clone_rules E (inRules input) of
                       Inl e \<Rightarrow> Inl e
                     | Inr rules \<Rightarrow>
                         Inr \<lparr>inPath = inPath input, inText = Some t, inSourceFile = None,
                              inConfigKey = inConfigKey input, inLanguageOptions = languageOptions,
                              inSettings = settings, inRules = rules\<rparr>))))"

text \<open>The first loop of \<open>materializePluginTask\<close>: the complete path projection.\<close>

fun project_inputs ::
  "Generation \<Rightarrow> PluginGeneration \<Rightarrow> (string \<times> string) list \<Rightarrow> EslintPluginFileInput list \<Rightarrow>
   lint_error + (string \<times> string) list \<times> (string \<times> SourceFile option) list \<times> EslintPluginFileInput list" where
  "project_inputs gen pg byWire [] = Inr (byWire, [], [])"
| "project_inputs gen pg byWire (input # inputs) =
     (let sourcePath = inPath input;
          targetPath = projectTargetPath (genPath gen) sourcePath;
          wirePath = (case pgWirePath pg of None \<Rightarrow> sourcePath | Some f \<Rightarrow> f sourcePath)
      in if wirePath = [] then Inl (Errorf ''linter pipeline: plugin wire path for %q must not be empty'' [sourcePath])
         else if map_of byWire wirePath \<noteq> None
         then Inl (Errorf ''linter pipeline: duplicate plugin wire path %q'' [wirePath])
         else (case project_inputs gen pg (al_update wirePath targetPath byWire) inputs of
                 Inl e \<Rightarrow> Inl e
               | Inr (byWire', cands, inputs') \<Rightarrow>
                   Inr (byWire', (targetPath, inSourceFile input) # cands, input\<lparr>inPath := wirePath\<rparr> # inputs')))"

text \<open>The second loop: inline and detach; the candidates carry the target path of each input.\<close>

fun freeze_inputs ::
  "run_env \<Rightarrow> Generation \<Rightarrow> SourceSnapshot \<Rightarrow> bool \<Rightarrow> bool \<Rightarrow> (string \<times> SourceFile option) list \<Rightarrow>
   EslintPluginFileInput list \<Rightarrow> lint_error + EslintPluginFileInput list" where
  "freeze_inputs E gen snap inline detached ((targetPath, src) # cands) (input # inputs) =
     (case (if inline
            then (case readGenerationText gen snap targetPath (inSourceFile input) of
                    Inl e \<Rightarrow> Inl (Wrapf ''linter pipeline: freeze plugin source %q: %w'' [inPath input] e)
                  | Inr t \<Rightarrow> Inr (input\<lparr>inText := Some t\<rparr>))
            else Inr input) of
        Inl e \<Rightarrow> Inl e
      | Inr input \<Rightarrow>
          (case (if detached
                 then (if inText input = None
                       then Inl (Errorf ''linter pipeline: detached plugin source %q must be inline'' [inPath input])
                       else (case detachPluginInput E input of
                               Inl e \<Rightarrow> Inl (Wrapf ''linter pipeline: freeze plugin input %q: %w'' [inPath input] e)
                             | Inr fr \<Rightarrow> Inr fr))
                 else Inr input) of
             Inl e \<Rightarrow> Inl e
           | Inr input \<Rightarrow>
               (case freeze_inputs E gen snap inline detached cands inputs of
                  Inl e \<Rightarrow> Inl e
                | Inr inputs' \<Rightarrow> Inr (input # inputs'))))"
| "freeze_inputs E gen snap inline detached _ _ = Inr []"

definition materializePluginTask ::
  "run_env \<Rightarrow> LintPlan option \<Rightarrow> Generation \<Rightarrow> SourceSnapshot \<Rightarrow> ObservationPolicy \<Rightarrow> bool \<Rightarrow> lint_error + pluginTask" where
  "materializePluginTask E plan gen snap policy detached =
     (case genPlugin gen of
        None \<Rightarrow> Inr (emptyPluginTask (polPluginFailure policy))
      | Some pg \<Rightarrow>
          (let inputs = BuildEslintPluginFileInputs (envExt E) plan (pgConfigForFile pg);
               inlineSources = (detached \<or> \<not> HostReadsInitialText pg \<or> \<not> snapshot_Empty snap)
           in case project_inputs gen pg [] inputs of
                Inl e \<Rightarrow> Inl e
              | Inr (byWire, cands, inputs) \<Rightarrow>
                  (case freeze_inputs E gen snap inlineSources detached cands inputs of
                     Inl e \<Rightarrow> Inl e
                   | Inr inputs \<Rightarrow>
                       Inr \<lparr>ptInputs = inputs, targetPathByWire = byWire, fixCandidates = cands,
                            collectFixes = (demandPlugin (polDemand policy) AND EditDemandAutofix \<noteq> 0),
                            suggestionsMode = (if demandPlugin (polDemand policy) AND EditDemandSuggestion \<noteq> 0
                                               then SuggestionsModeEager else SuggestionsModeOff),
                            ptTiming = (\<not> detached \<and> genTiming gen), ptFailure = polPluginFailure policy\<rparr>)))"

section \<open>The native pass\<close>

definition runLinterOptions :: "Generation \<Rightarrow> LintPlan option \<Rightarrow> EditDemand \<Rightarrow> RunLinterOptions" where
  "runLinterOptions gen plan demand =
     \<lparr>roSingleThreaded = genSingleThreaded gen, roLintPlan = plan,
      roTypeCheckOnlyPrograms = (if plan = None then Some (genPrograms gen) else None),
      roDemand = demand, roTypeCheck = genTypeCheck gen\<rparr>"

definition runNativeObservation ::
  "run_env \<Rightarrow> nat \<Rightarrow> Generation \<Rightarrow> LintPlan option \<Rightarrow> EditDemand \<Rightarrow> LintedFile list \<Rightarrow> run_state \<Rightarrow>
   (NativeObservation \<times> lint_error option) \<times> run_state" where
  "runNativeObservation E index gen plan demand lfs s =
     (case ctx_Err E s of
        (Some e, s) \<Rightarrow> ((zeroNative, Some e), s)
      | (None, s) \<Rightarrow>
          (let synt = (if plan \<noteq> None then plan_SyntacticDiagnostics plan (genTypeCheck gen) else []);
               res = RunLinter (genLintFile gen demand) (envArrive E index) (envMaxProcs E) (runLinterOptions gen plan demand);
               diagnostics = synt @ (case res of Inl _ \<Rightarrow> [] | Inr (_, ds) \<Rightarrow> ds);
               projected = map (\<lambda>d. d\<lparr>FilePath := projectTargetPath (genPath gen) (FilePath d)\<rparr>) diagnostics;
               native = \<lparr>noDiagnostics = projected,
                         noLint = (case res of Inl _ \<Rightarrow> None | Inr (lr, _) \<Rightarrow> Some lr),
                         noFiles = lfs, HasTargetSyntaxErrors = (plan \<noteq> None \<and> HasSyntacticDiagnostics plan)\<rparr>;
               err = (case res of Inl e \<Rightarrow> Some e | Inr _ \<Rightarrow> None)
           in case ctx_Err E s of (ce, s) \<Rightarrow> ((native, joinContextError err ce), s)))"

section \<open>One observation\<close>

record observationExecution =
  exObservation :: ObservationResult
  exFixTexts :: fixTextSnapshot
  exPluginOutcome :: "EslintPluginDispatchOutcome option"
  exDeferredTask :: "pluginTask option"

definition newExecution :: "nat \<Rightarrow> observationExecution" where
  "newExecution index = \<lparr>exObservation = newObservation index, exFixTexts = Map.empty,
     exPluginOutcome = None, exDeferredTask = None\<rparr>"

definition with_native :: "NativeObservation \<Rightarrow> observationExecution \<Rightarrow> observationExecution" where
  "with_native native ex = ex\<lparr>exObservation := (exObservation ex)\<lparr>obsNative := native\<rparr>\<rparr>"

definition with_plugin_kind :: "pluginObservationKind \<Rightarrow> observationExecution \<Rightarrow> observationExecution" where
  "with_plugin_kind k ex = ex\<lparr>exObservation := (exObservation ex)\<lparr>obsPluginKind := k\<rparr>\<rparr>"

definition with_outcome :: "EslintPluginDispatchOutcome \<Rightarrow> observationExecution \<Rightarrow> observationExecution" where
  "with_outcome out ex =
     ex\<lparr>exObservation := (exObservation ex)\<lparr>obsPluginKind := pluginObservationJoined, obsPluginOutcome := out\<rparr>,
        exPluginOutcome := Some out\<rparr>"

definition executeConcurrentObservation ::
  "run_env \<Rightarrow> Generation \<Rightarrow> LintPlan option \<Rightarrow> pluginTask \<Rightarrow> EslintPluginDispatcher option \<Rightarrow> nat \<Rightarrow> EditDemand \<Rightarrow>
   LintedFile list \<Rightarrow> run_state \<Rightarrow> (observationExecution \<times> lint_error option) \<times> run_state" where
  "executeConcurrentObservation E gen plan task dispatcher index demand lfs s =
     (let started = (length (ptInputs task) > 0);
          s = (if started then log_event (EvPluginStart index) s else s)
      in case runNativeObservation E index gen plan demand lfs s of
           ((native, nativeErr), s) \<Rightarrow>
             (let ex = with_native native (newExecution index);
                  ex = (if started then with_outcome (pluginTask_run E task dispatcher) ex
                        else with_plugin_kind pluginObservationNone ex);
                  s = (if started then log_event (EvPluginJoin index) s else s)
              in case ctx_Err E s of (ce, s) \<Rightarrow> ((ex, joinContextError nativeErr ce), s)))"

text \<open>Merging the plugin's fix candidates into the sources of the native fixes.\<close>

fun merge_candidates ::
  "(string \<times> SourceFile option) list \<Rightarrow> (string \<times> SourceFile option) list \<Rightarrow> lint_error + (string \<times> SourceFile option) list" where
  "merge_candidates sources [] = Inr sources"
| "merge_candidates sources ((path, src) # cands) =
     (if path = [] then Inl (Errorf ''linter pipeline: plugin fix target path must not be empty'' [])
      else if (case map_of sources path of
                 None \<Rightarrow> False | Some prev \<Rightarrow> map_option sf_ptr prev \<noteq> map_option sf_ptr src)
      then Inl (Errorf ''linter pipeline: duplicate fix target %q'' [path])
      else merge_candidates (al_update path src sources) cands)"

definition complete_diagnostics :: "observationExecution \<Rightarrow> RuleDiagnostic list" where
  "complete_diagnostics ex = (case CompleteDiagnostics (exObservation ex) of None \<Rightarrow> [] | Some ds \<Rightarrow> ds)"

text \<open>
  The three plugin modes of \<open>executeObservation\<close> after the plan and the plugin task are prepared;
  the state is paired with the lease flag.
\<close>

definition observe_concurrent ::
  "run_env \<Rightarrow> Generation \<Rightarrow> LintPlan option \<Rightarrow> SourceSnapshot \<Rightarrow> ObservationPolicy \<Rightarrow> pluginTask \<Rightarrow>
   EslintPluginDispatcher option \<Rightarrow> nat \<Rightarrow> bool \<Rightarrow> bool \<Rightarrow> LintedFile list \<Rightarrow> bool \<times> run_state \<Rightarrow>
   (observationExecution \<times> lint_error option) \<times> bool \<times> run_state" where
  "observe_concurrent E gen plan snap policy task dispatcher index planChanges blocked lfs st =
     (case executeConcurrentObservation E gen plan task dispatcher index (demandNative (polDemand policy)) lfs (snd st) of
        ((ex, runErr), s) \<Rightarrow>
          (let ((ex, runErr), s) =
                 (if runErr = None \<and> planChanges \<and> \<not> blocked
                  then (case freezeFixTextsForDiagnostics E gen snap (complete_diagnostics ex) s of
                          (Inl e, s) \<Rightarrow> ((ex, Some e), s)
                        | (Inr texts, s) \<Rightarrow> ((ex\<lparr>exFixTexts := texts\<rparr>, None), s))
                  else ((ex, runErr), s));
               st = lease_close (genHasRelease gen) (fst st, s)
           in case ctx_Err E (snd st) of (ce, s) \<Rightarrow> ((ex, joinContextError runErr ce), fst st, s)))"

text \<open>The after-native mode before the release: freezing every text a fix may need.\<close>

definition freeze_candidates ::
  "run_env \<Rightarrow> Generation \<Rightarrow> SourceSnapshot \<Rightarrow> pluginTask \<Rightarrow> bool \<Rightarrow> RuleDiagnostic list \<Rightarrow> run_state \<Rightarrow>
   (lint_error + fixTextSnapshot) \<times> run_state" where
  "freeze_candidates E gen snap task planChanges diagnostics s =
     (if planChanges
      then (case fixSourcesFromDiagnostics diagnostics of
              Inl e \<Rightarrow> (Inl e, s)
            | Inr sources \<Rightarrow>
                (case (if collectFixes task then merge_candidates (some_sources sources) (fixCandidates task)
                       else Inr (some_sources sources)) of
                   Inl e \<Rightarrow> (Inl e, s)
                 | Inr sources \<Rightarrow> freezeFixTexts E gen snap sources s))
      else (Inr Map.empty, s))"

text \<open>The after-native mode after the release: the plugin work and the texts its fixes keep.\<close>

definition join_after_native ::
  "run_env \<Rightarrow> pluginTask \<Rightarrow> EslintPluginDispatcher option \<Rightarrow> nat \<Rightarrow> bool \<Rightarrow> observationExecution \<Rightarrow> run_state \<Rightarrow>
   (observationExecution \<times> lint_error option) \<times> run_state" where
  "join_after_native E task dispatcher index planChanges ex s =
     (case ctx_Err E s of
        (Some e, s) \<Rightarrow> ((ex, Some e), s)
      | (None, s) \<Rightarrow>
          if length (ptInputs task) = 0 then ((with_plugin_kind pluginObservationNone ex, None), s)
          else
            (let s = log_event (EvPluginJoin index) (log_event (EvPluginStart index) s);
                 ex = with_outcome (pluginTask_run E task dispatcher) ex
             in case ctx_Err E s of
                  (Some e, s) \<Rightarrow> ((ex, Some e), s)
                | (None, s) \<Rightarrow>
                    if planChanges
                    then (case retainFixTextsForDiagnostics (exFixTexts ex) (complete_diagnostics ex) of
                            Inl e \<Rightarrow> ((ex, Some e), s)
                          | Inr texts \<Rightarrow> ((ex\<lparr>exFixTexts := texts\<rparr>, None), s))
                    else ((ex, None), s)))"

definition observe_after_native ::
  "run_env \<Rightarrow> Generation \<Rightarrow> LintPlan option \<Rightarrow> SourceSnapshot \<Rightarrow> ObservationPolicy \<Rightarrow> pluginTask \<Rightarrow>
   EslintPluginDispatcher option \<Rightarrow> nat \<Rightarrow> bool \<Rightarrow> bool \<Rightarrow> LintedFile list \<Rightarrow> bool \<times> run_state \<Rightarrow>
   (observationExecution \<times> lint_error option) \<times> bool \<times> run_state" where
  "observe_after_native E gen plan snap policy task dispatcher index planChanges stop lfs st =
     (case runNativeObservation E index gen plan (demandNative (polDemand policy)) lfs (snd st) of
        ((native, nativeErr), s) \<Rightarrow>
          (let ex = with_native native (newExecution index);
               close = (\<lambda>s. lease_close (genHasRelease gen) (fst st, s))
           in case nativeErr of
                Some e \<Rightarrow> ((ex, Some e), close s)
              | None \<Rightarrow>
                  if stop \<and> HasTargetSyntaxErrors native
                  then (case close s of (c, s) \<Rightarrow>
                          (case ctx_Err E s of (ce, s) \<Rightarrow> ((with_plugin_kind pluginObservationNone ex, ce), c, s)))
                  else
                    (case freeze_candidates E gen snap task planChanges (noDiagnostics native) s of
                       (Inl e, s) \<Rightarrow> ((ex, Some e), fst st, s)
                     | (Inr texts, s) \<Rightarrow>
                         (case close s of (c, s) \<Rightarrow>
                            (case join_after_native E task dispatcher index planChanges (ex\<lparr>exFixTexts := texts\<rparr>) s of
                               (r, s) \<Rightarrow> (r, c, s))))))"

definition observe_progressive ::
  "run_env \<Rightarrow> Generation \<Rightarrow> LintPlan option \<Rightarrow> ObservationPolicy \<Rightarrow> pluginTask \<Rightarrow> nat \<Rightarrow> bool \<Rightarrow> LintedFile list \<Rightarrow>
   bool \<times> run_state \<Rightarrow> (observationExecution \<times> lint_error option) \<times> bool \<times> run_state" where
  "observe_progressive E gen plan policy task index stop lfs st =
     (case runNativeObservation E index gen plan (demandNative (polDemand policy)) lfs (snd st) of
        ((native, nativeErr), s) \<Rightarrow>
          (let ex = with_native native (newExecution index); task = task\<lparr>fixCandidates := []\<rparr>
           in case lease_close (genHasRelease gen) (fst st, s) of (c, s) \<Rightarrow>
             (case nativeErr of
                Some e \<Rightarrow> ((ex, Some e), c, s)
              | None \<Rightarrow>
                  (case ctx_Err E s of
                     (Some e, s) \<Rightarrow> ((ex, Some e), c, s)
                   | (None, s) \<Rightarrow>
                       if stop \<and> HasTargetSyntaxErrors native
                       then ((with_plugin_kind pluginObservationNone ex, None), c, s)
                       else if length (ptInputs task) = 0
                       then ((with_plugin_kind pluginObservationNone ex, None), c, s)
                       else ((with_plugin_kind pluginObservationProgressive ex\<lparr>exDeferredTask := Some task\<rparr>, None), c, s)))))"

definition prepare_plan :: "run_env \<Rightarrow> Generation \<Rightarrow> run_state \<Rightarrow> (lint_error + LintPlan option) \<times> run_state" where
  "prepare_plan E gen s =
     (if genRulesForFile gen \<noteq> None
      then (case ctx_Err E s of (c0, s) \<Rightarrow> (case ctx_Err E s of (c1, s) \<Rightarrow>
             ((case PrepareLintPlanContext c0 c1 (envMaxProcs E) (envTurns E (rsPolls s))
                      \<lparr>optPrograms = genPrograms gen, optTargetsByProgram = genTargetsByProgram gen,
                       optSingleThreaded = genSingleThreaded gen, optGetRulesForFile = genRulesForFile gen\<rparr> of
                 Inl e \<Rightarrow> Inl (Wrapf ''linter pipeline: prepare lint plan: %w'' [] e)
               | Inr p \<Rightarrow> Inr (Some p)), s)))
      else (Inr None, s))"

text \<open>The plugin task and the choice of the scheduling mode.\<close>

definition observe_planned ::
  "run_env \<Rightarrow> Generation \<Rightarrow> SourceSnapshot \<Rightarrow> ObservationPolicy \<Rightarrow> (nat \<Rightarrow> EslintPluginDispatcher) option \<Rightarrow> nat \<Rightarrow>
   bool \<Rightarrow> bool \<Rightarrow> LintPlan option \<Rightarrow> LintedFile list \<Rightarrow> bool \<times> run_state \<Rightarrow>
   (observationExecution \<times> lint_error option) \<times> bool \<times> run_state" where
  "observe_planned E gen snap policy dispatcher index planChanges stop plan lfs st =
     (let detached = (polPlugin policy \<noteq> PluginConcurrentJoined);
          blocked = (stop \<and> plan \<noteq> None \<and> HasSyntacticDiagnostics plan);
          work = (if blocked then Inr (emptyPluginTask (polPluginFailure policy))
                  else materializePluginTask E plan gen snap policy detached);
          disp = map_option (\<lambda>d. d index) dispatcher
      in case work of
           Inl e \<Rightarrow> ((newExecution 0, Some e), st)
         | Inr task \<Rightarrow>
             if length (ptInputs task) > 0 \<and> polPlugin policy \<noteq> pluginProgressiveAfterNative \<and> dispatcher = None
             then ((newExecution 0, Some (Errorf ''linter pipeline: joined plugin work requires a dispatcher'' [])), st)
             else if polPlugin policy = PluginConcurrentJoined
             then observe_concurrent E gen plan snap policy task disp index planChanges blocked lfs st
             else if polPlugin policy = PluginAfterNativeJoined
             then observe_after_native E gen plan snap policy task disp index planChanges stop lfs st
             else if polPlugin policy = pluginProgressiveAfterNative
             then observe_progressive E gen plan policy task index stop lfs st
             else ((newExecution index, Some (Errorf ''linter pipeline: plugin execution policy is invalid'' [])), st))"

text \<open>Everything between the acquisition and the deferred release.\<close>

definition observation_body ::
  "run_env \<Rightarrow> Generation \<Rightarrow> SourceSnapshot \<Rightarrow> ObservationPolicy \<Rightarrow> (nat \<Rightarrow> EslintPluginDispatcher) option \<Rightarrow> nat \<Rightarrow>
   bool \<Rightarrow> bool \<Rightarrow> bool \<times> run_state \<Rightarrow> (observationExecution \<times> lint_error option) \<times> bool \<times> run_state" where
  "observation_body E gen snap policy dispatcher index planChanges stop st =
     (case ctx_Err E (snd st) of
        (Some e, s) \<Rightarrow> ((newExecution 0, Some e), fst st, s)
      | (None, s) \<Rightarrow>
          (case prepare_plan E gen s of
             (Inl e, s) \<Rightarrow> ((newExecution 0, Some e), fst st, s)
           | (Inr plan, s) \<Rightarrow>
               (case projectGenerationTargets E gen plan snap (demandLintedFiles (polDemand policy)) s of
                  (Inl e, s) \<Rightarrow> ((newExecution 0, Some e), fst st, s)
                | (Inr lfs, s) \<Rightarrow>
                    observe_planned E gen snap policy dispatcher index planChanges stop plan lfs (fst st, s))))"

definition executeObservation ::
  "run_env \<Rightarrow> GenerationProvider \<Rightarrow> SourceSnapshot \<Rightarrow> ObservationPolicy \<Rightarrow> (nat \<Rightarrow> EslintPluginDispatcher) option \<Rightarrow> nat \<Rightarrow>
   bool \<Rightarrow> bool \<Rightarrow> run_state \<Rightarrow> (observationExecution \<times> lint_error option) \<times> run_state" where
  "executeObservation E provider snap policy dispatcher index planChanges stop s =
     (case provider (rsAcquired s) snap of
        Inl e \<Rightarrow> ((newExecution 0, Some e), s)
      | Inr gen \<Rightarrow>
          (let s = log_event (EvAcquire snap) (s\<lparr>rsAcquired := Suc (rsAcquired s)\<rparr>)
           in case observation_body E gen snap policy dispatcher index planChanges stop (False, s) of
                (r, st) \<Rightarrow> (r, snd (lease_close (genHasRelease gen) st))))"

section \<open>Effects on the trace\<close>

text \<open>A quiet step only polls the context.\<close>

definition quiet :: "run_state \<Rightarrow> run_state \<Rightarrow> bool" where
  "quiet s s' \<longleftrightarrow> rsTrace s' = rsTrace s \<and> rsAcquired s' = rsAcquired s"

lemma quiet_refl [simp]: "quiet s s"
  by (simp add: quiet_def)

lemma quiet_trans: "quiet s s' \<Longrightarrow> quiet s' s'' \<Longrightarrow> quiet s s''"
  by (simp add: quiet_def)

lemma quiet_ctx_Err: "ctx_Err E s = (e, s') \<Longrightarrow> quiet s s'"
  by (auto simp: ctx_Err_def quiet_def)

lemma quiet_project_files: "project_files E gen b sources lfs srcs s = (r, s') \<Longrightarrow> quiet s s'"
proof (induction srcs arbitrary: sources lfs s)
  case (Cons src srcs)
  then show ?case
    by (auto simp: Let_def split: prod.splits option.splits if_splits dest!: quiet_ctx_Err intro: quiet_trans)
qed simp

lemma quiet_validate_snapshot: "validate_snapshot E rd sources fs s = (r, s') \<Longrightarrow> quiet s s'"
proof (induction fs arbitrary: s)
  case (Cons f fs)
  then show ?case
    by (auto split: prod.splits option.splits sum.splits if_splits dest!: quiet_ctx_Err intro: quiet_trans)
qed simp

lemma quiet_projectGenerationTargets: "projectGenerationTargets E gen plan snap b s = (r, s') \<Longrightarrow> quiet s s'"
  by (auto simp: projectGenerationTargets_def split: prod.splits option.splits sum.splits if_splits
      dest!: quiet_ctx_Err quiet_project_files quiet_validate_snapshot intro: quiet_trans)

lemma quiet_freeze_paths: "freeze_paths E gen snap sources texts paths s = (r, s') \<Longrightarrow> quiet s s'"
proof (induction paths arbitrary: texts s)
  case Nil
  then show ?case by (auto split: prod.splits option.splits dest!: quiet_ctx_Err)
next
  case (Cons p ps)
  then show ?case
    by (auto split: prod.splits option.splits sum.splits if_splits dest!: quiet_ctx_Err intro: quiet_trans)
qed

lemma quiet_freezeFixTexts: "freezeFixTexts E gen snap sources s = (r, s') \<Longrightarrow> quiet s s'"
  by (auto simp: freezeFixTexts_def split: if_splits dest: quiet_freeze_paths)

lemma quiet_freezeForDiagnostics: "freezeFixTextsForDiagnostics E gen snap ds s = (r, s') \<Longrightarrow> quiet s s'"
  by (auto simp: freezeFixTextsForDiagnostics_def split: sum.splits dest: quiet_freezeFixTexts)

lemma quiet_freeze_candidates: "freeze_candidates E gen snap task b ds s = (r, s') \<Longrightarrow> quiet s s'"
  by (auto simp: freeze_candidates_def split: sum.splits if_splits dest: quiet_freezeFixTexts)

lemma quiet_runNativeObservation: "runNativeObservation E i gen plan d lfs s = (r, s') \<Longrightarrow> quiet s s'"
  by (auto simp: runNativeObservation_def Let_def split: prod.splits option.splits dest!: quiet_ctx_Err intro: quiet_trans)

text \<open>The plugin events of one observation.\<close>

definition plugin_events :: "nat \<Rightarrow> pipe_event list \<Rightarrow> bool" where
  "plugin_events i evs \<longleftrightarrow> evs = [] \<or> evs = [EvPluginStart i, EvPluginJoin i]"

lemma plugin_events_Nil [simp]: "plugin_events i []"
  by (simp add: plugin_events_def)

text \<open>
  The state after an observation body: the plugin events before the release, then the release
  unless it is left to the deferred call, then the plugin events after it.
\<close>

definition body_trace :: "bool \<Rightarrow> nat \<Rightarrow> PluginExecution \<Rightarrow> run_state \<Rightarrow> bool \<times> run_state \<Rightarrow> bool" where
  "body_trace hasRelease i mode s st \<longleftrightarrow>
     rsAcquired (snd st) = rsAcquired s \<and>
     (\<exists>pre post. plugin_events i pre \<and> plugin_events i post \<and>
        (mode \<noteq> PluginAfterNativeJoined \<longrightarrow> post = []) \<and> (mode \<noteq> PluginConcurrentJoined \<longrightarrow> pre = []) \<and>
        rsTrace (snd st) = rsTrace s @ pre @ (if fst st then EvRelease hasRelease # post else []))"

lemma body_traceI:
  assumes "rsAcquired s' = rsAcquired s" and "rsTrace s' = rsTrace s @ pre @ (if c then EvRelease b # post else [])"
    and "plugin_events i pre" "plugin_events i post" "mode \<noteq> PluginAfterNativeJoined \<Longrightarrow> post = []" "mode \<noteq> PluginConcurrentJoined \<Longrightarrow> pre = []"
  shows "body_trace b i mode s (c, s')"
  using assms unfolding body_trace_def by fastforce

lemma body_trace_open: "quiet s s' \<Longrightarrow> body_trace b i mode s (False, s')"
  by (rule body_traceI [where pre = "[]" and post = "[]"]) (simp_all add: quiet_def)

lemma body_trace_quiet:
  "body_trace b i mode s0 (c, s) \<Longrightarrow> quiet s s' \<Longrightarrow> body_trace b i mode s0 (c, s')"
  by (simp add: body_trace_def quiet_def)

lemma lease_close_simps [simp]:
  "lease_close b (False, s) = (True, log_event (EvRelease b) s)" "lease_close b (True, s) = (True, s)"
  by (simp_all add: lease_close_def)

lemma body_trace_close: "quiet s s' \<Longrightarrow> body_trace b i mode s (True, log_event (EvRelease b) s')"
  by (auto intro!: body_traceI [where pre = "[]" and post = "[]"] simp: quiet_def log_event_def)

lemma mode_trace:
  assumes "executeConcurrentObservation E gen plan task disp i d lfs s = (r, s')"
  shows "rsAcquired s' = rsAcquired s \<and> (\<exists>pre. plugin_events i pre \<and> rsTrace s' = rsTrace s @ pre)"
proof -
  let ?started = "length (ptInputs task) > 0"
  let ?s1 = "if ?started then log_event (EvPluginStart i) s else s"
  obtain n e s2 where n: "runNativeObservation E i gen plan d lfs ?s1 = ((n, e), s2)" by (metis prod.exhaust)
  from assms n have "quiet (if ?started then log_event (EvPluginJoin i) s2 else s2) s'"
    by (auto simp: executeConcurrentObservation_def Let_def split: prod.splits dest: quiet_ctx_Err)
  moreover from n have "quiet ?s1 s2" by (rule quiet_runNativeObservation)
  ultimately show ?thesis
    by (intro conjI exI [of _ "if ?started then [EvPluginStart i, EvPluginJoin i] else []"])
       (auto simp: quiet_def log_event_def plugin_events_def split: if_splits)
qed

lemma observe_concurrent_trace:
  assumes "observe_concurrent E gen plan snap pol task disp i pc bl lfs (False, s) = (r, st)"
  shows "body_trace (genHasRelease gen) i PluginConcurrentJoined s st"
proof -
  obtain ex re s1 where ex: "executeConcurrentObservation E gen plan task disp i (demandNative (polDemand pol)) lfs s = ((ex, re), s1)"
    by (metis prod.exhaust)
  from mode_trace [OF ex] obtain pre where pre: "plugin_events i pre"
    "rsAcquired s1 = rsAcquired s" "rsTrace s1 = rsTrace s @ pre" by blast
  have "\<exists>s2 s3. quiet s1 s2 \<and> st = (True, s3) \<and> quiet (log_event (EvRelease (genHasRelease gen)) s2) s3"
  proof (cases "re = None \<and> pc \<and> \<not> bl")
    case True
    obtain fr s2 where fr: "freezeFixTextsForDiagnostics E gen snap (complete_diagnostics ex) s1 = (fr, s2)" by fastforce
    with assms ex True have "\<exists>s3. st = (True, s3) \<and> quiet (log_event (EvRelease (genHasRelease gen)) s2) s3"
      by (cases fr) (auto simp: observe_concurrent_def split: prod.splits dest: quiet_ctx_Err)
    then show ?thesis using quiet_freezeForDiagnostics [OF fr] by blast
  next
    case False
    with assms ex have "\<exists>s3. st = (True, s3) \<and> quiet (log_event (EvRelease (genHasRelease gen)) s1) s3"
      by (auto simp: observe_concurrent_def split: prod.splits dest: quiet_ctx_Err)
    then show ?thesis using quiet_refl by blast
  qed
  then obtain s2 s3 where "quiet s1 s2" "st = (True, s3)" "quiet (log_event (EvRelease (genHasRelease gen)) s2) s3"
    by blast
  with pre show ?thesis
    by (auto intro!: body_traceI [where pre = pre and post = "[]"] simp: quiet_def log_event_def)
qed

lemma join_after_native_trace:
  assumes "join_after_native E task disp i pc ex s = (r, s')"
  shows "rsAcquired s' = rsAcquired s \<and> (\<exists>post. plugin_events i post \<and> rsTrace s' = rsTrace s @ post)"
proof -
  have "quiet s s' \<or> quiet (log_event (EvPluginJoin i) (log_event (EvPluginStart i) s)) s'"
    using assms
    by (auto simp: join_after_native_def Let_def split: prod.splits option.splits if_splits sum.splits
        dest!: quiet_ctx_Err simp: quiet_def log_event_def)
  then show ?thesis by (auto simp: quiet_def log_event_def plugin_events_def)
qed

lemma observe_after_native_trace:
  assumes "observe_after_native E gen plan snap pol task disp i pc stop lfs (False, s) = (r, st)"
  shows "body_trace (genHasRelease gen) i PluginAfterNativeJoined s st"
proof -
  let ?b = "genHasRelease gen"
  obtain n ne s1 where n: "runNativeObservation E i gen plan (demandNative (polDemand pol)) lfs s = ((n, ne), s1)"
    by (metis prod.exhaust)
  then have q: "quiet s s1" by (rule quiet_runNativeObservation)
  obtain fr s2 where f: "freeze_candidates E gen snap task pc (noDiagnostics n) s1 = (fr, s2)" by fastforce
  then have q2: "quiet s s2" using q quiet_freeze_candidates quiet_trans by blast
  consider (fail) "st = (True, log_event (EvRelease ?b) s1)"
    | (blocked) s3 where "st = (True, s3)" "quiet (log_event (EvRelease ?b) s1) s3"
    | (unread) "st = (False, s2)"
    | (join) t s3 where "st = (True, s3)"
        "join_after_native E task disp i pc ((with_native n (newExecution i))\<lparr>exFixTexts := t\<rparr>)
           (log_event (EvRelease ?b) s2) = (r, s3)"
    using assms n f
    by (auto simp: observe_after_native_def Let_def split: prod.splits option.splits if_splits sum.splits
        dest: quiet_ctx_Err)
  then show ?thesis
  proof cases
    case fail
    then show ?thesis using body_trace_close [OF q] by simp
  next
    case blocked
    then show ?thesis using body_trace_quiet [OF body_trace_close [OF q]] by simp
  next
    case unread
    then show ?thesis using body_trace_open [OF q2] by simp
  next
    case join
    from join_after_native_trace [OF join(2)] obtain post where "plugin_events i post"
      "rsAcquired s3 = rsAcquired s2" "rsTrace s3 = (rsTrace s2 @ [EvRelease ?b]) @ post"
      by (auto simp: log_event_def)
    with q2 join(1) show ?thesis
      by (auto intro!: body_traceI [where pre = "[]" and post = post] simp: quiet_def)
  qed
qed

lemma observe_progressive_trace:
  assumes "observe_progressive E gen plan pol task i stop lfs (False, s) = (r, st)"
  shows "body_trace (genHasRelease gen) i pluginProgressiveAfterNative s st"
proof -
  let ?b = "genHasRelease gen"
  obtain n ne s1 where n: "runNativeObservation E i gen plan (demandNative (polDemand pol)) lfs s = ((n, ne), s1)"
    by (metis prod.exhaust)
  then have q: "quiet s s1" by (rule quiet_runNativeObservation)
  from assms n obtain s2 where "st = (True, s2)" "quiet (log_event (EvRelease ?b) s1) s2"
    by (auto simp: observe_progressive_def Let_def split: prod.splits option.splits if_splits
        dest: quiet_ctx_Err)
  then show ?thesis using body_trace_quiet [OF body_trace_close [OF q]] by simp
qed

lemma observe_planned_trace:
  assumes "observe_planned E gen snap pol disp i pc stop plan lfs (False, s) = (r, st)"
  shows "body_trace (genHasRelease gen) i (polPlugin pol) s st"
  using assms unfolding observe_planned_def Let_def
  by (auto split: sum.splits if_splits intro: body_trace_open
      dest: observe_concurrent_trace observe_after_native_trace observe_progressive_trace)

lemma body_trace_pre_quiet:
  "quiet s s' \<Longrightarrow> body_trace b i c s' st \<Longrightarrow> body_trace b i c s st"
  by (simp add: body_trace_def quiet_def)

lemma quiet_prepare_plan: "prepare_plan E gen s = (r, s') \<Longrightarrow> quiet s s'"
  by (auto simp: prepare_plan_def split: prod.splits if_splits dest!: quiet_ctx_Err intro: quiet_trans)

lemma observation_body_trace:
  assumes "observation_body E gen snap pol disp i pc stop (False, s) = (r, st)"
  shows "body_trace (genHasRelease gen) i (polPlugin pol) s st"
proof -
  obtain c s1 where s1: "ctx_Err E s = (c, s1)" by fastforce
  obtain p s2 where s2: "prepare_plan E gen s1 = (p, s2)" by fastforce
  obtain l s3 where s3: "projectGenerationTargets E gen (case p of Inr q \<Rightarrow> q | Inl _ \<Rightarrow> None) snap
      (demandLintedFiles (polDemand pol)) s2 = (l, s3)" by fastforce
  note q = quiet_ctx_Err [OF s1] quiet_prepare_plan [OF s2] quiet_projectGenerationTargets [OF s3]
  consider "st = (False, s1)" | "st = (False, s2)" | "st = (False, s3)"
    | plan lfs where "observe_planned E gen snap pol disp i pc stop plan lfs (False, s3) = (r, st)"
    using assms s1 s2 s3 by (auto simp: observation_body_def split: option.splits sum.splits)
  then show ?thesis
    using q by cases (blast intro: body_trace_open body_trace_pre_quiet quiet_trans observe_planned_trace)+
qed

text \<open>The trace of one complete observation: plugin work is joined before the release in the concurrent
  mode, runs after it in the after-native mode, and does not run at all in the progressive mode.\<close>

definition observation_segment :: "nat \<Rightarrow> PluginExecution \<Rightarrow> SourceSnapshot \<Rightarrow> pipe_event list \<Rightarrow> bool" where
  "observation_segment i mode snap evs \<longleftrightarrow>
     (\<exists>pre post b. plugin_events i pre \<and> plugin_events i post \<and>
        (mode \<noteq> PluginAfterNativeJoined \<longrightarrow> post = []) \<and> (mode \<noteq> PluginConcurrentJoined \<longrightarrow> pre = []) \<and>
        evs = EvAcquire snap # pre @ EvRelease b # post)"

lemma executeObservation_segment:
  assumes "executeObservation E provider snap pol disp i pc stop s = (r, s')"
  shows "(snd r \<noteq> None \<and> s' = s) \<or>
    (rsAcquired s' = Suc (rsAcquired s) \<and>
     (\<exists>evs. observation_segment i (polPlugin pol) snap evs \<and> rsTrace s' = rsTrace s @ evs))"
proof (cases "provider (rsAcquired s) snap")
  case (Inl e)
  with assms show ?thesis by (auto simp: executeObservation_def)
next
  case (Inr gen)
  let ?s = "log_event (EvAcquire snap) (s\<lparr>rsAcquired := Suc (rsAcquired s)\<rparr>)"
  obtain r' c s1 where body: "observation_body E gen snap pol disp i pc stop (False, ?s) = (r', c, s1)"
    by (metis prod.exhaust)
  with assms Inr have s': "s' = snd (lease_close (genHasRelease gen) (c, s1))"
    by (auto simp: executeObservation_def Let_def)
  from observation_body_trace [OF body] obtain pre post where pp: "plugin_events i pre" "plugin_events i post"
      "polPlugin pol \<noteq> PluginAfterNativeJoined \<longrightarrow> post = []" "polPlugin pol \<noteq> PluginConcurrentJoined \<longrightarrow> pre = []"
      and acq: "rsAcquired s1 = Suc (rsAcquired s)"
      and tr: "rsTrace s1 = rsTrace s @ [EvAcquire snap] @ pre @ (if c then EvRelease (genHasRelease gen) # post else [])"
    by (auto simp: body_trace_def log_event_def)
  have "observation_segment i (polPlugin pol) snap
      (EvAcquire snap # pre @ EvRelease (genHasRelease gen) # (if c then post else []))"
    unfolding observation_segment_def using pp
    by (intro exI [of _ pre] exI [of _ "if c then post else []"] exI [of _ "genHasRelease gen"]) auto
  moreover have "rsTrace s' = rsTrace s @ EvAcquire snap # pre @ EvRelease (genHasRelease gen) # (if c then post else [])"
    using s' tr by (cases c) (simp_all add: log_event_def)
  moreover have "rsAcquired s' = Suc (rsAcquired s)" using s' acq by (cases c) (simp_all add: log_event_def)
  ultimately show ?thesis by blast
qed

section \<open>The texts an observation freezes\<close>

text \<open>
  A provider is honest about a file store (a relation of paths and texts) when a generation reads
  the stored text of every file the snapshot does not override.
\<close>

definition honest_provider :: "(string \<Rightarrow> string \<Rightarrow> bool) \<Rightarrow> GenerationProvider \<Rightarrow> bool" where
  "honest_provider stored provider \<longleftrightarrow>
     (\<forall>n snap gen rd p src t. provider n snap = Inr gen \<longrightarrow> genReadText gen = Some rd \<longrightarrow>
        rd p src = Inr t \<longrightarrow> snapshot_Text snap p = None \<longrightarrow> stored p t)"

definition honest_generation :: "(string \<Rightarrow> string \<Rightarrow> bool) \<Rightarrow> SourceSnapshot \<Rightarrow> Generation \<Rightarrow> bool" where
  "honest_generation stored snap gen \<longleftrightarrow>
     (\<forall>rd p src t. genReadText gen = Some rd \<longrightarrow> rd p src = Inr t \<longrightarrow> snapshot_Text snap p = None \<longrightarrow> stored p t)"

definition texts_from :: "(string \<Rightarrow> string \<Rightarrow> bool) \<Rightarrow> SourceSnapshot \<Rightarrow> fixTextSnapshot \<Rightarrow> bool" where
  "texts_from stored snap texts \<longleftrightarrow>
     (\<forall>p t. texts p = Some t \<longrightarrow> (case snapshot_Text snap p of Some u \<Rightarrow> t = u | None \<Rightarrow> stored p t))"

lemma texts_from_empty [simp]: "texts_from stored snap Map.empty"
  by (simp add: texts_from_def)

lemma readGenerationText_from:
  "honest_generation stored snap gen \<Longrightarrow> readGenerationText gen snap p src = Inr t \<Longrightarrow> texts_from stored snap texts \<Longrightarrow>
     texts_from stored snap (texts(p \<mapsto> t))"
  by (auto simp: texts_from_def readGenerationText_def honest_generation_def split: option.splits if_splits)

lemma freeze_paths_from:
  "honest_generation stored snap gen \<Longrightarrow> freeze_paths E gen snap sources texts paths s = (Inr texts', s') \<Longrightarrow>
     texts_from stored snap texts \<Longrightarrow> texts_from stored snap texts'"
proof (induction paths arbitrary: texts s)
  case Nil
  then show ?case by (auto split: prod.splits option.splits)
next
  case (Cons p ps)
  then show ?case
    by (auto split: prod.splits option.splits sum.splits dest: readGenerationText_from)
qed

lemma freezeFixTexts_from:
  "honest_generation stored snap gen \<Longrightarrow> freezeFixTexts E gen snap sources s = (Inr texts', s') \<Longrightarrow>
     texts_from stored snap texts'"
  by (auto simp: freezeFixTexts_def split: if_splits dest: freeze_paths_from)

lemma freeze_candidates_from:
  "honest_generation stored snap gen \<Longrightarrow> freeze_candidates E gen snap task b ds s = (Inr texts', s') \<Longrightarrow>
     texts_from stored snap texts'"
  by (auto simp: freeze_candidates_def split: if_splits sum.splits dest: freezeFixTexts_from)

lemma retain_texts_sub:
  "retain_texts texts result ps = Inr texts' \<Longrightarrow> texts' p = Some t \<Longrightarrow> texts p = Some t \<or> result p = Some t"
  by (induction texts result ps rule: retain_texts.induct) (auto split: option.splits if_splits)

lemma retain_from:
  "retainFixTextsForDiagnostics texts ds = Inr texts' \<Longrightarrow> texts_from stored snap texts \<Longrightarrow> texts_from stored snap texts'"
  by (auto simp: retainFixTextsForDiagnostics_def texts_from_def split: sum.splits if_splits dest!: retain_texts_sub)

text \<open>What a successful observation returns.\<close>

definition observed :: "(string \<Rightarrow> string \<Rightarrow> bool) \<Rightarrow> SourceSnapshot \<Rightarrow> nat \<Rightarrow> observationExecution \<times> lint_error option \<Rightarrow> bool" where
  "observed stored snap i r \<longleftrightarrow>
     (snd r = None \<longrightarrow> obsIndex (exObservation (fst r)) = i \<and> texts_from stored snap (exFixTexts (fst r)))"

lemma execution_frame [simp]:
  "obsIndex (exObservation (with_native n ex)) = obsIndex (exObservation ex)"
  "obsIndex (exObservation (with_plugin_kind k ex)) = obsIndex (exObservation ex)"
  "obsIndex (exObservation (with_outcome out ex)) = obsIndex (exObservation ex)"
  "exFixTexts (with_native n ex) = exFixTexts ex"
  "exFixTexts (with_plugin_kind k ex) = exFixTexts ex"
  "exFixTexts (with_outcome out ex) = exFixTexts ex"
  "obsIndex (exObservation (newExecution i)) = i" "exFixTexts (newExecution i) = Map.empty"
  by (simp_all add: with_native_def with_plugin_kind_def with_outcome_def newExecution_def newObservation_def)

lemma mode_index:
  "executeConcurrentObservation E gen plan task disp i d lfs s = ((ex, e), s') \<Longrightarrow>
     obsIndex (exObservation ex) = i \<and> exFixTexts ex = Map.empty"
  by (auto simp: executeConcurrentObservation_def Let_def split: prod.splits if_splits)

lemma observe_concurrent_observed:
  assumes "honest_generation stored snap gen"
    and "observe_concurrent E gen plan snap pol task disp i pc bl lfs st = (r, st')"
  shows "observed stored snap i r"
proof -
  obtain ex re s1 where ex: "executeConcurrentObservation E gen plan task disp i (demandNative (polDemand pol)) lfs (snd st) = ((ex, re), s1)"
    by (metis prod.exhaust)
  note idx = mode_index [OF ex]
  show ?thesis
  proof (cases "re = None \<and> pc \<and> \<not> bl")
    case True
    obtain fr s2 where fr: "freezeFixTextsForDiagnostics E gen snap (complete_diagnostics ex) s1 = (fr, s2)" by fastforce
    have "texts_from stored snap t" if "fr = Inr t" for t
      using fr that assms(1) by (auto simp: freezeFixTextsForDiagnostics_def split: sum.splits dest: freezeFixTexts_from)
    with assms(2) ex fr True idx show ?thesis
      by (cases fr) (auto simp: observe_concurrent_def observed_def Let_def split: prod.splits)
  next
    case False
    with assms(2) ex idx show ?thesis by (auto simp: observe_concurrent_def observed_def Let_def split: prod.splits)
  qed
qed

lemma join_after_native_observed:
  assumes "join_after_native E task disp i pc ex s = (r, s')"
    and "obsIndex (exObservation ex) = i" and "texts_from stored snap (exFixTexts ex)"
  shows "observed stored snap i r"
  using assms
  by (auto simp: join_after_native_def observed_def Let_def split: prod.splits option.splits if_splits sum.splits
      dest: retain_from)

lemma observe_after_native_observed:
  assumes "honest_generation stored snap gen"
    and "observe_after_native E gen plan snap pol task disp i pc stop lfs st = (r, st')"
  shows "observed stored snap i r"
proof -
  obtain n ne s1 where n: "runNativeObservation E i gen plan (demandNative (polDemand pol)) lfs (snd st) = ((n, ne), s1)"
    by (metis prod.exhaust)
  obtain fr s2 where f: "freeze_candidates E gen snap task pc (noDiagnostics n) s1 = (fr, s2)" by fastforce
  have t: "texts_from stored snap t" if "fr = Inr t" for t
    using f that freeze_candidates_from [OF assms(1)] by blast
  consider "snd r \<noteq> None" | (noplugin) "fst r = with_plugin_kind pluginObservationNone (with_native n (newExecution i))"
    | (join) t s3 s4 where "fr = Inr t"
        "join_after_native E task disp i pc ((with_native n (newExecution i))\<lparr>exFixTexts := t\<rparr>) s3 = (r, s4)"
    using assms(2) n f
    by (auto simp: observe_after_native_def Let_def split: prod.splits option.splits if_splits sum.splits)
  then show ?thesis
  proof cases
    case join
    from join_after_native_observed [OF join(2)] t [OF join(1)] show ?thesis by simp
  qed (auto simp: observed_def)
qed

lemma observe_progressive_observed:
  "observe_progressive E gen plan pol task i stop lfs st = (r, st') \<Longrightarrow> observed stored snap i r"
  by (auto simp: observe_progressive_def observed_def Let_def split: prod.splits option.splits if_splits)

lemma observe_planned_observed:
  "honest_generation stored snap gen \<Longrightarrow> observe_planned E gen snap pol disp i pc stop plan lfs st = (r, st') \<Longrightarrow>
     observed stored snap i r"
  unfolding observe_planned_def Let_def
  by (auto split: sum.splits if_splits simp: observed_def [of _ _ _ "(_, Some _)"]
      dest: observe_concurrent_observed observe_after_native_observed observe_progressive_observed)

lemma executeObservation_observed:
  assumes "honest_provider stored provider"
    and "executeObservation E provider snap pol disp i pc stop s = (r, s')"
  shows "observed stored snap i r"
proof (cases "provider (rsAcquired s) snap")
  case (Inl e)
  with assms show ?thesis by (auto simp: executeObservation_def observed_def)
next
  case (Inr gen)
  then have h: "honest_generation stored snap gen"
    using assms(1) unfolding honest_provider_def honest_generation_def by blast
  let ?s = "log_event (EvAcquire snap) (s\<lparr>rsAcquired := Suc (rsAcquired s)\<rparr>)"
  obtain r' st where body: "observation_body E gen snap pol disp i pc stop (False, ?s) = (r', st)" by (metis prod.exhaust)
  then have "observed stored snap i r'"
    by (auto simp: observation_body_def split: prod.splits option.splits sum.splits
        simp: observed_def [of _ _ _ "(_, Some _)"] dest: observe_planned_observed [OF h])
  moreover have "r = r'" using assms(2) Inr body by (auto simp: executeObservation_def Let_def)
  ultimately show ?thesis by simp
qed

end
