(* ===== verification/Pipeline.thy ===== *)
theory Pipeline
  imports Observation
begin

text \<open>
  \<^verbatim>\<open>internal/linter/pipeline.go\<close> and \<^verbatim>\<open>pipeline_autofix.go\<close>: the orchestrator \<open>RunPipeline\<close>, the bounded
  apply-and-observe loop of the autofix, the terminal commit, and the presentation of a progressive
  lint.  A panic of the fixer (see the theory of the fixer) makes the whole run panic, which is the
  value \<^term>\<open>None\<close> of the result.
\<close>

section \<open>Aggregation\<close>

definition recordPluginDispatch :: "PipelineResult \<Rightarrow> observationExecution \<Rightarrow> PipelineResult" where
  "recordPluginDispatch result ex =
     (case exPluginOutcome ex of
        None \<Rightarrow> result
      | Some out \<Rightarrow>
          result\<lparr>resPluginOutcomes := resPluginOutcomes result @
            [\<lparr>pdrObservation = obsIndex (exObservation ex), pdrNotices = outNotices out,
              pdrDispatchError = DispatchError out\<rparr>]\<rparr>)"

definition mergeSuccessfulExecution :: "PipelineResult \<Rightarrow> observationExecution \<Rightarrow> PipelineResult" where
  "mergeSuccessfulExecution result ex =
     (case noLint (obsNative (exObservation ex)) of
        None \<Rightarrow> result
      | Some lr \<Rightarrow> result\<lparr>resExecutedRules := resExecutedRules result \<union> lrExecutedRules lr\<rparr>)"

section \<open>Commit\<close>

type_synonym pipeline_out = "(PipelineResult \<times> lint_error option) option"

definition with_final :: "autofixState \<Rightarrow> PipelineResult \<Rightarrow> PipelineResult" where
  "with_final st result =
     result\<lparr>resFix := (resFix result)\<lparr>fixFinalChanges := finalChanges st, fixFinalSources := finalSources st\<rparr>\<rparr>"

definition with_commit :: "bool \<Rightarrow> string list \<Rightarrow> PipelineResult \<Rightarrow> PipelineResult" where
  "with_commit committed paths result =
     result\<lparr>resFix := (resFix result)\<lparr>fixCommitted := committed, fixCommittedPaths := paths\<rparr>\<rparr>"

definition commitFinalChanges ::
  "run_env \<Rightarrow> PipelineRequest \<Rightarrow> PipelineResult \<Rightarrow> autofixState \<Rightarrow> run_state \<Rightarrow> pipeline_out \<times> run_state" where
  "commitFinalChanges E rq result st s =
     (let result = with_final st result
      in case rqCommit rq of
           None \<Rightarrow> (case ctx_Err E s of (ce, s) \<Rightarrow> (Some (result, ce), s))
         | Some committer \<Rightarrow>
             (case ctx_Err E s of
                (Some e, s) \<Rightarrow> (Some (result, Some e), s)
              | (None, s) \<Rightarrow>
                  if length (fixFinalChanges (resFix result)) = 0
                  then (Some (with_commit True (fixCommittedPaths (resFix result)) result, None), s)
                  else (case committer of
                          None \<Rightarrow> (None, s)
                        | Some commit \<Rightarrow>
                            (let s = log_event (EvCommit (fixFinalChanges (resFix result))) s;
                                 (commitResult, commitErr) = commit (fixFinalChanges (resFix result));
                                 (confirmed, validationErr) =
                                   validateCommitResult (fixFinalChanges (resFix result)) commitResult commitErr;
                                 result = with_commit (validationErr = None) confirmed result
                             in case ctx_Err E s of
                                  (ce, s) \<Rightarrow> (Some (result, joinContextError validationErr ce), s)))))"

section \<open>The autofix loop\<close>

text \<open>How one iteration of the loop ends.\<close>

datatype round_end =
    RoundReturn pipeline_out
  | RoundCommit PipelineResult autofixState
  | RoundNext PipelineResult observationExecution autofixState

definition with_round :: "FixRoundResult \<Rightarrow> PipelineResult \<Rightarrow> PipelineResult" where
  "with_round r result =
     result\<lparr>resFix := (resFix result)\<lparr>fixVerified := False, fixRounds := fixRounds (resFix result) @ [r]\<rparr>\<rparr>"

definition with_verified :: "ObservationResult \<Rightarrow> PipelineResult \<Rightarrow> PipelineResult" where
  "with_verified obs result =
     result\<lparr>resObservation := obs, resFix := (resFix result)\<lparr>fixVerified := True\<rparr>\<rparr>"

text \<open>The second half of an iteration: observing the new in-memory state.\<close>

definition reobserve ::
  "run_env \<Rightarrow> PipelineRequest \<Rightarrow> GenerationProvider \<Rightarrow> bool \<Rightarrow> PipelineResult \<Rightarrow> observationExecution \<Rightarrow> autofixState \<Rightarrow>
   run_state \<Rightarrow> round_end \<times> run_state" where
  "reobserve E rq provider lastAllowed result cur st s =
     (case ctx_Err E s of
        (Some e, s) \<Rightarrow> (RoundReturn (Some (result, Some e)), s)
      | (None, s) \<Rightarrow>
          if lastAllowed \<and> \<not> VerifyAfterLastRound (rqAutofix rq) then (RoundCommit result st, s)
          else
            (let policy = (if lastAllowed
                           then (rqPolicy rq)\<lparr>polDemand := VerificationDemand (rqAutofix rq)\<rparr> else rqPolicy rq)
             in case executeObservation E provider (snapshot st) policy (rqDispatcher rq)
                       (obsIndex (exObservation cur) + 1) (\<not> lastAllowed)
                       (StopOnTargetSyntaxErrors (rqAutofix rq)) s of
                  ((nxt, observeErr), s) \<Rightarrow>
                    (let result = recordPluginDispatch result nxt
                     in case observeErr of
                          Some e \<Rightarrow> (RoundReturn (Some (result, Some e)), s)
                        | None \<Rightarrow>
                            (let result = with_verified (exObservation nxt) (mergeSuccessfulExecution result nxt)
                             in if StopOnTargetSyntaxErrors (rqAutofix rq) \<and>
                                   HasTargetSyntaxErrors (obsNative (exObservation nxt))
                                then (RoundCommit result st, s)
                                else if lastAllowed then (RoundCommit result st, s)
                                else (RoundNext result nxt st, s)))))"

text \<open>Applying the planned changes of a round to the in-memory state.\<close>

definition apply_planned ::
  "run_env \<Rightarrow> PipelineRequest \<Rightarrow> GenerationProvider \<Rightarrow> bool \<Rightarrow> PipelineResult \<Rightarrow> observationExecution \<Rightarrow> autofixState \<Rightarrow>
   FileChange list \<Rightarrow> run_state \<Rightarrow> round_end \<times> run_state" where
  "apply_planned E rq provider lastAllowed result cur st changes s =
     (case state_apply st changes of
        Inl e \<Rightarrow> (case ctx_Err E s of (ce, s) \<Rightarrow> (RoundReturn (Some (result, joinContextError (Some e) ce)), s))
      | Inr (round, st) \<Rightarrow>
          (let result = with_final st (with_round round result)
           in if RestoredInitial round
              then (let result = with_verified (fixInitial (resFix result)) result
                    in case ctx_Err E s of
                         (Some e, s) \<Rightarrow> (RoundReturn (Some (result, Some e)), s)
                       | (None, s) \<Rightarrow> (RoundCommit result st, s))
              else reobserve E rq provider lastAllowed result cur st s))"

definition autofix_round ::
  "run_env \<Rightarrow> PipelineRequest \<Rightarrow> GenerationProvider \<Rightarrow> bool \<Rightarrow> PipelineResult \<Rightarrow> observationExecution \<Rightarrow> autofixState \<Rightarrow>
   run_state \<Rightarrow> round_end \<times> run_state" where
  "autofix_round E rq provider lastAllowed result cur st s =
     (case ctx_Err E s of
        (Some e, s) \<Rightarrow> (RoundReturn (Some (result, Some e)), s)
      | (None, s) \<Rightarrow>
          (case CompleteDiagnostics (exObservation cur) of
             None \<Rightarrow> (RoundReturn (Some (result, Some (Errorf ''linter pipeline: autofix observation is incomplete'' []))), s)
           | Some diagnostics \<Rightarrow>
               (case planFixes diagnostics (exFixTexts cur) of
                  None \<Rightarrow> (RoundReturn None, s)
                | Some planned \<Rightarrow>
                    (case ctx_Err E s of (ce, s) \<Rightarrow>
                      (case joinContextError (case planned of Inl e \<Rightarrow> Some e | Inr _ \<Rightarrow> None) ce of
                         Some e \<Rightarrow> (RoundReturn (Some (result, Some e)), s)
                       | None \<Rightarrow>
                           (let changes = (case planned of Inl _ \<Rightarrow> [] | Inr cs \<Rightarrow> cs)
                            in if length changes = 0 then (RoundCommit result st, s)
                               else (case ctx_Err E s of
                                       (Some e, s) \<Rightarrow> (RoundReturn (Some (result, Some e)), s)
                                     | (None, s) \<Rightarrow> apply_planned E rq provider lastAllowed result cur st changes s)))))))"

text \<open>\<open>for roundIndex := range maxRounds\<close>: the argument is the number of rounds left.\<close>

fun autofix_loop ::
  "run_env \<Rightarrow> PipelineRequest \<Rightarrow> GenerationProvider \<Rightarrow> nat \<Rightarrow> PipelineResult \<Rightarrow> observationExecution \<Rightarrow> autofixState \<Rightarrow>
   run_state \<Rightarrow> pipeline_out \<times> run_state" where
  "autofix_loop E rq provider 0 result cur st s = commitFinalChanges E rq result st s"
| "autofix_loop E rq provider (Suc n) result cur st s =
     (case autofix_round E rq provider (n = 0) result cur st s of
        (RoundReturn out, s) \<Rightarrow> (out, s)
      | (RoundCommit result st, s) \<Rightarrow> commitFinalChanges E rq result st s
      | (RoundNext result cur st, s) \<Rightarrow> autofix_loop E rq provider n result cur st s)"

definition runAutofixPipeline ::
  "run_env \<Rightarrow> PipelineRequest \<Rightarrow> GenerationProvider \<Rightarrow> PipelineResult \<Rightarrow> observationExecution \<Rightarrow> run_state \<Rightarrow>
   pipeline_out \<times> run_state" where
  "runAutofixPipeline E rq provider result ex s =
     (let result = result\<lparr>resFix := zeroFix\<lparr>fixKind := fixResultApplied, fixInitial := exObservation ex,
                                              fixVerified := True\<rparr>\<rparr>
      in if StopOnTargetSyntaxErrors (rqAutofix rq) \<and> HasTargetSyntaxErrors (obsNative (exObservation ex))
         then commitFinalChanges E rq result newAutofixState s
         else autofix_loop E rq provider (nat (maxRounds (rqAutofix rq))) result ex newAutofixState s)"

section \<open>Progressive lint\<close>

definition presentProgressiveLint ::
  "run_env \<Rightarrow> PipelineResult \<Rightarrow> observationExecution \<Rightarrow> run_state \<Rightarrow> pipeline_out \<times> run_state" where
  "presentProgressiveLint E result ex s =
     (let result = result\<lparr>resFix := zeroFix\<rparr>
      in case (case exDeferredTask ex of None \<Rightarrow> None | Some task \<Rightarrow> newDeferredPluginRun task) of
           Some e \<Rightarrow> (Some (result, Some e), s)
         | None \<Rightarrow>
             (let s = log_event (EvBaseline (noDiagnostics (obsNative (exObservation ex)))) s
              in case ctx_Err E s of
                   (Some e, s) \<Rightarrow> (Some (result, Some e), s)
                 | (None, s) \<Rightarrow>
                     (Some (result, None), if exDeferredTask ex \<noteq> None then log_event EvSubmit s else s)))"

section \<open>The pipeline\<close>

definition RunPipeline :: "run_env \<Rightarrow> bool \<Rightarrow> PipelineRequest \<Rightarrow> run_state \<Rightarrow> pipeline_out \<times> run_state" where
  "RunPipeline E ctxNil rq s =
     (if ctxNil then (Some (zeroResult, Some (Errorf ''linter pipeline: context must not be nil'' [])), s)
      else (case validate rq of
        Some e \<Rightarrow> (Some (zeroResult, Some e), s)
      | None \<Rightarrow>
          (case rqProvider rq of
             None \<Rightarrow> (None, s)
           | Some provider \<Rightarrow>
               (case ctx_Err E s of
                  (Some e, s) \<Rightarrow> (Some (zeroResult, Some e), s)
                | (None, s) \<Rightarrow>
                    (case executeObservation E provider emptySnapshot (rqPolicy rq) (rqDispatcher rq) 0
                            (rqKind rq = pipelineRequestAutofix)
                            (rqKind rq = pipelineRequestProgressiveLint \<or>
                             (rqKind rq = pipelineRequestAutofix \<and> StopOnTargetSyntaxErrors (rqAutofix rq))) s of
                       ((ex, err), s) \<Rightarrow>
                         (let result = recordPluginDispatch zeroResult ex
                          in case err of
                               Some e \<Rightarrow> (Some (result, Some e), s)
                             | None \<Rightarrow>
                                 (let result = mergeSuccessfulExecution (result\<lparr>resObservation := exObservation ex\<rparr>) ex
                                  in if rqKind rq = pipelineRequestLint
                                     then (Some (result\<lparr>resFix := zeroFix\<rparr>, None), s)
                                     else if rqKind rq = pipelineRequestProgressiveLint
                                     then presentProgressiveLint E result ex s
                                     else if rqKind rq = pipelineRequestAutofix
                                     then runAutofixPipeline E rq provider result ex s
                                     else (Some (result, Some (Errorf ''linter pipeline: request kind is invalid'' [])), s))))))))"

section \<open>Traces of a run\<close>

text \<open>A sequence of complete observations, with the snapshots they were made of.\<close>

inductive obs_trace :: "PluginExecution \<Rightarrow> pipe_event list \<Rightarrow> SourceSnapshot list \<Rightarrow> bool" for mode :: PluginExecution where
  obs_none: "obs_trace mode [] []"
| obs_more: "obs_trace mode evs snaps \<Longrightarrow> observation_segment (length snaps) mode snap seg \<Longrightarrow>
     obs_trace mode (evs @ seg) (snaps @ [snap])"

inductive_cases obs_traceE: "obs_trace mode evs snaps"

definition is_acquire :: "pipe_event \<Rightarrow> bool" where
  "is_acquire e = (case e of EvAcquire _ \<Rightarrow> True | _ \<Rightarrow> False)"

definition is_release :: "pipe_event \<Rightarrow> bool" where
  "is_release e = (case e of EvRelease _ \<Rightarrow> True | _ \<Rightarrow> False)"

definition is_commit :: "pipe_event \<Rightarrow> bool" where
  "is_commit e = (case e of EvCommit _ \<Rightarrow> True | _ \<Rightarrow> False)"

lemma segment_counts:
  assumes "observation_segment i mode snap seg"
  shows "length (filter is_acquire seg) = 1 \<and> length (filter is_release seg) = 1 \<and> filter is_commit seg = []"
  using assms unfolding observation_segment_def plugin_events_def
  by (auto simp: is_acquire_def is_release_def is_commit_def)

lemma obs_trace_counts:
  "obs_trace mode evs snaps \<Longrightarrow>
     length (filter is_acquire evs) = length snaps \<and> length (filter is_release evs) = length snaps \<and>
     filter is_commit evs = []"
  by (induction rule: obs_trace.induct) (auto dest: segment_counts)

section \<open>Invariant of the autofix loop\<close>

abbreviation plugin_mode :: "PipelineRequest \<Rightarrow> PluginExecution" where
  "plugin_mode rq \<equiv> polPlugin (rqPolicy rq)"

text \<open>\<open>css\<close> are the change sets applied so far, \<open>snaps\<close> the snapshots observed so far.\<close>

record autofix_ghost =
  ghRounds :: "FileChange list list"
  ghSnaps :: "SourceSnapshot list"

definition verified_ok :: "SourceSnapshot list \<Rightarrow> PipelineResult \<Rightarrow> autofixState \<Rightarrow> bool" where
  "verified_ok snaps result st \<longleftrightarrow>
     (fixVerified (resFix result) \<longrightarrow>
        obsIndex (resObservation result) < length snaps \<and>
        snFiles (snaps ! obsIndex (resObservation result)) = snFiles (snapshot st))"

definition base_stored :: "(string \<Rightarrow> string \<Rightarrow> bool) \<Rightarrow> autofixState \<Rightarrow> bool" where
  "base_stored stored st \<longleftrightarrow> (\<forall>p t. map_of (af_initial st) p = Some t \<longrightarrow> stored p t)"

text \<open>\<open>ob k snap ex\<close> says that \<open>ex\<close> came out of the \<open>k\<close>-th observation, over \<open>snap\<close>.  Each snapshot holds what the
  rounds before it left, and each round is what was planned from the observation of its snapshot.\<close>

type_synonym observer = "nat \<Rightarrow> SourceSnapshot \<Rightarrow> observationExecution \<Rightarrow> bool"

definition same_snapshot :: "SourceSnapshot \<Rightarrow> SourceSnapshot \<Rightarrow> bool" where
  "same_snapshot a b \<longleftrightarrow> snFiles a = snFiles b \<and> snapshot_Text a = snapshot_Text b"

definition planned_round :: "observer \<Rightarrow> nat \<Rightarrow> SourceSnapshot \<Rightarrow> FileChange list \<Rightarrow> bool" where
  "planned_round ob k snap cs \<longleftrightarrow>
     (\<exists>ex ds. ob k snap ex \<and> CompleteDiagnostics (exObservation ex) = Some ds \<and> planFixes ds (exFixTexts ex) = Some (Inr cs))"

definition rounds_seen :: "(string \<Rightarrow> string \<Rightarrow> bool) \<Rightarrow> observer \<Rightarrow> autofix_ghost \<Rightarrow> bool" where
  "rounds_seen stored ob gh \<longleftrightarrow>
     (\<forall>k < length (ghSnaps gh). \<exists>st. rounds_of state_apply newAutofixState (take k (ghRounds gh)) = Inr st \<and>
        same_snapshot (ghSnaps gh ! k) (snapshot st)) \<and>
     (\<forall>k < length (ghRounds gh). k < length (ghSnaps gh) \<and> planned_round ob k (ghSnaps gh ! k) (ghRounds gh ! k) \<and>
        (\<exists>texts. texts_from stored (ghSnaps gh ! k) texts \<and> (\<forall>c \<in> set (ghRounds gh ! k). texts (chPath c) = Some (chBefore c))))"

definition run_inv ::
  "PipelineRequest \<Rightarrow> (string \<Rightarrow> string \<Rightarrow> bool) \<Rightarrow> observer \<Rightarrow> autofix_ghost \<Rightarrow> PipelineResult \<Rightarrow> autofixState \<Rightarrow> run_state \<Rightarrow> bool" where
  "run_inv rq stored ob gh result st s \<longleftrightarrow>
     obs_trace (plugin_mode rq) (rsTrace s) (ghSnaps gh) \<and>
     rounds_of state_apply newAutofixState (ghRounds gh) = Inr st \<and>
     map ChangedPaths (fixRounds (resFix result)) = map (map chPath) (ghRounds gh) \<and>
     map roundApplied (fixRounds (resFix result)) = map (\<lambda>cs. sum_list (map chApplied cs)) (ghRounds gh) \<and>
     fixFinalChanges (resFix result) = finalChanges st \<and> fixFinalSources (resFix result) = finalSources st \<and>
     base_stored stored st \<and>
     ghSnaps gh \<noteq> [] \<and> length (ghSnaps gh) \<le> length (ghRounds gh) + 1 \<and>
     obsIndex (fixInitial (resFix result)) = 0 \<and> snFiles (ghSnaps gh ! 0) = [] \<and>
     fixKind (resFix result) = fixResultApplied \<and> verified_ok (ghSnaps gh) result st \<and> rounds_seen stored ob gh"

text \<open>What holds in addition when an iteration starts.\<close>

definition entry_inv ::
  "(string \<Rightarrow> string \<Rightarrow> bool) \<Rightarrow> observer \<Rightarrow> autofix_ghost \<Rightarrow> PipelineResult \<Rightarrow> observationExecution \<Rightarrow> autofixState \<Rightarrow> bool" where
  "entry_inv stored ob gh result cur st \<longleftrightarrow>
     obsIndex (exObservation cur) = length (ghRounds gh) \<and> length (ghSnaps gh) = length (ghRounds gh) + 1 \<and>
     texts_from stored (snapshot st) (exFixTexts cur) \<and> ob (length (ghRounds gh)) (ghSnaps gh ! length (ghRounds gh)) cur"

text \<open>The observations that are planned from: every one of them is made with the policy of the request and freezes
  the texts to fix.\<close>

definition observed_as :: "run_env \<Rightarrow> PipelineRequest \<Rightarrow> GenerationProvider \<Rightarrow> observer" where
  "observed_as E rq provider k snap ex \<longleftrightarrow>
     (\<exists>s s'. executeObservation E provider snap (rqPolicy rq) (rqDispatcher rq) k True
        (StopOnTargetSyntaxErrors (rqAutofix rq)) s = ((ex, None), s'))"

lemma run_inv_quiet: "run_inv rq stored ob gh result st s \<Longrightarrow> quiet s s' \<Longrightarrow> run_inv rq stored ob gh result st s'"
  by (simp add: run_inv_def quiet_def)

lemma run_inv_state: "run_inv rq stored ob gh result st s \<Longrightarrow> af_inv st"
  unfolding run_inv_def using autofix_memory.rounds_inv af_inv_new by blast

lemma rounds_of_snoc:
  "rounds_of ap s css = Inr s' \<Longrightarrow> ap s' cs = Inr (r, s'') \<Longrightarrow> rounds_of ap s (css @ [cs]) = Inr s''"
  by (induction css arbitrary: s) (auto split: sum.splits prod.splits)

text \<open>The planned changes start from the current texts, or from stored ones.\<close>

lemma planned_from:
  assumes "af_inv st" and "texts_from stored (snapshot st) texts" and "planFixes ds texts = Some (Inr cs)" and "c \<in> set cs"
  shows "case map_of (af_current st) (chPath c) of Some u \<Rightarrow> chBefore c = u | None \<Rightarrow> stored (chPath c) (chBefore c)"
proof -
  have "texts (chPath c) = Some (chBefore c)" using planFixes_sound [OF assms(3)] assms(4) by blast
  with assms(2) snapshot_Text_snapshot [OF assms(1)] show ?thesis unfolding texts_from_def by metis
qed

lemma planned_base:
  assumes "af_inv st" and "texts_from stored (snapshot st) texts" and "planFixes ds texts = Some (Inr cs)"
    and "c \<in> set cs" and "map_of (af_initial st) (chPath c) = None"
  shows "stored (chPath c) (chBefore c)"
proof (cases "map_of (af_current st) (chPath c)")
  case None
  then show ?thesis using planned_from [OF assms(1-4)] by simp
next
  case (Some t)
  then show ?thesis using af_inv_current [OF assms(1) Some] assms(5) by simp
qed

text \<open>When a file has one stored text, planned changes are never stale.\<close>

lemma planned_changes_apply:
  assumes "af_inv st" and "base_stored (\<lambda>p t. disk p = Some t) st"
    and "texts_from (\<lambda>p t. disk p = Some t) (snapshot st) texts"
    and "planFixes ds texts = Some (Inr cs)" and "cs \<noteq> []"
  shows "\<exists>z. state_apply st cs = Inr z"
proof -
  have plan: "distinct (map chPath cs)" "[] \<notin> set (map chPath cs)"
    using planFixes_sound [OF assms(4)] by auto
  have "state_text st (chPath c) \<in> {None, Some (chBefore c)}" if "c \<in> set cs" for c
    using planned_from [OF assms(1,3,4) that] assms(2)
    by (cases "map_of (af_initial st) (chPath c)") (auto simp: state_text_def base_stored_def split: option.splits)
  with plan assms(5) show ?thesis unfolding state_apply_ok_iff by blast
qed

lemma apply_keeps_base:
  assumes "af_inv st" and "base_stored stored st" and "state_apply st cs = Inr (r, st')"
    and "\<And>c. c \<in> set cs \<Longrightarrow> map_of (af_initial st) (chPath c) = None \<Longrightarrow> stored (chPath c) (chBefore c)"
  shows "base_stored stored st'"
  unfolding base_stored_def
proof (intro allI impI)
  fix p t assume p: "map_of (af_initial st') p = Some t"
  have dom: "dom (map_of (af_initial st')) = dom (map_of (af_initial st)) \<union> set (map chPath cs)"
    and le: "map_of (af_initial st) \<subseteq>\<^sub>m map_of (af_initial st')"
    using state_apply_Inr [OF assms(1,3)] by blast+
  from assms(3) obtain n where run: "apply_changes cs st 0 = (st', n)" and d: "distinct (map chPath cs)"
    by (auto simp: state_apply_def check_changes_Inr split: if_splits sum.splits prod.splits)
  show "stored p t"
  proof (cases "map_of (af_initial st) p")
    case None
    then obtain c where c: "c \<in> set cs" "p = chPath c" using dom domI [of "map_of (af_initial st')" p t, OF p] by auto
    then show ?thesis using apply_changes_initial [OF run d c(1)] None assms(4) [OF c(1)] p by simp
  next
    case (Some u)
    then have "map_of (af_initial st') p = Some u" using le by (metis domI map_le_def)
    then show ?thesis using Some p assms(2) by (simp add: base_stored_def)
  qed
qed

section \<open>Commit and the end of a run\<close>

text \<open>After the last iteration there is at most the one commit of the final changes.\<close>

definition committed_tail ::
  "PipelineRequest \<Rightarrow> PipelineResult \<Rightarrow> lint_error option \<Rightarrow> autofixState \<Rightarrow> pipe_event list \<Rightarrow> bool" where
  "committed_tail rq result err st tail \<longleftrightarrow>
     (tail = [] \<or> tail = [EvCommit (finalChanges st)] \<and> finalChanges st \<noteq> [] \<and> rqCommit rq \<noteq> None) \<and>
     (err = None \<and> rqCommit rq \<noteq> None \<longrightarrow>
        fixCommitted (resFix result) \<and>
        (finalChanges st \<noteq> [] \<longrightarrow> tail = [EvCommit (finalChanges st)] \<and>
           fixCommittedPaths (resFix result) = map chPath (finalChanges st)))"

definition run_post ::
  "PipelineRequest \<Rightarrow> (string \<Rightarrow> string \<Rightarrow> bool) \<Rightarrow> observer \<Rightarrow> nat \<Rightarrow> pipeline_out \<Rightarrow> run_state \<Rightarrow> bool" where
  "run_post rq stored ob limit out s' \<longleftrightarrow>
     (case out of
        None \<Rightarrow> \<exists>snaps. obs_trace (plugin_mode rq) (rsTrace s') snaps \<and> length snaps \<le> limit + 1
      | Some (result, err) \<Rightarrow>
          (\<exists>gh st s tail. run_inv rq stored ob gh result st s \<and> length (ghRounds gh) \<le> limit \<and>
             rsTrace s' = rsTrace s @ tail \<and> committed_tail rq result err st tail))"

lemma run_postI':
  "run_inv rq stored ob gh result st s \<Longrightarrow> length (ghRounds gh) \<le> limit \<Longrightarrow> rsTrace s' = rsTrace s @ tail \<Longrightarrow>
     committed_tail rq result err st tail \<Longrightarrow> run_post rq stored ob limit (Some (result, err)) s'"
  unfolding run_post_def by auto

lemma run_post_panic:
  "run_inv rq stored ob gh result st s \<Longrightarrow> length (ghRounds gh) \<le> limit \<Longrightarrow> run_post rq stored ob limit None s"
  by (auto simp: run_post_def run_inv_def intro!: exI [of _ "ghSnaps gh"])

lemma run_postI:
  "run_inv rq stored ob gh result st s \<Longrightarrow> length (ghRounds gh) \<le> limit \<Longrightarrow> run_post rq stored ob limit (Some (result, Some e)) s"
  by (rule run_postI' [where tail = "[]"]) (simp_all add: committed_tail_def)

lemma run_inv_with_final:
  "run_inv rq stored ob gh result st s \<Longrightarrow> run_inv rq stored ob gh (with_final st result) st s"
  by (simp add: run_inv_def with_final_def verified_ok_def)

lemma run_inv_with_commit:
  "run_inv rq stored ob gh result st s \<Longrightarrow> run_inv rq stored ob gh (with_commit b ps result) st s"
  by (simp add: run_inv_def with_commit_def verified_ok_def)

lemma commit_post:
  assumes inv: "run_inv rq stored ob gh result st s" and lim: "length (ghRounds gh) \<le> limit"
    and run: "commitFinalChanges E rq result st s = (out, s')"
  shows "run_post rq stored ob limit out s'"
proof -
  let ?r = "with_final st result"
  have inv': "run_inv rq stored ob gh ?r st s" using inv by (rule run_inv_with_final)
  have fc: "fixFinalChanges (resFix ?r) = finalChanges st" by (simp add: with_final_def)
  obtain ce s1 where s1: "ctx_Err E s = (ce, s1)" by fastforce
  have q: "quiet s s1" using s1 by (rule quiet_ctx_Err)
  note inv1 = run_inv_quiet [OF inv' q]
  show ?thesis
  proof (cases "rqCommit rq")
    case None
    with run s1 have "out = Some (?r, ce)" "s' = s1" by (auto simp: commitFinalChanges_def Let_def)
    then show ?thesis using run_postI' [OF inv1 lim, of s1 "[]"] None by (simp add: committed_tail_def)
  next
    case (Some committer)
    consider (err) e where "ce = Some e" | (unchanged) "ce = None" "finalChanges st = []"
      | (nil) "ce = None" "finalChanges st \<noteq> []" "committer = None"
      | (commit) commit where "ce = None" "finalChanges st \<noteq> []" "committer = Some commit"
      by (cases ce; cases committer; auto)
    then show ?thesis
    proof cases
      case err
      with run s1 Some have "out = Some (?r, Some e)" "s' = s1" by (auto simp: commitFinalChanges_def Let_def)
      with inv1 lim show ?thesis by (auto intro: run_postI)
    next
      case unchanged
      with run s1 Some fc have o: "out = Some (with_commit True (fixCommittedPaths (resFix ?r)) ?r, None)" "s' = s1"
        by (auto simp: commitFinalChanges_def Let_def)
      let ?res = "with_commit True (fixCommittedPaths (resFix ?r)) ?r"
      have "run_inv rq stored ob gh ?res st s1" using inv1 by (rule run_inv_with_commit)
      moreover have "fixCommitted (resFix ?res)" by (simp add: with_commit_def)
      ultimately show ?thesis unfolding o using run_postI' [OF _ lim, of rq stored ob ?res st s1 s1 "[]"] unchanged(2)
        by (simp add: committed_tail_def)
    next
      case nil
      with run s1 Some fc have "out = None" "s' = s1" by (auto simp: commitFinalChanges_def Let_def)
      with inv1 lim show ?thesis by (auto intro: run_post_panic)
    next
      case commit
      obtain cr cerr where c: "commit (finalChanges st) = (cr, cerr)" by fastforce
      obtain conf verr where v: "validateCommitResult (finalChanges st) cr cerr = (conf, verr)" by fastforce
      let ?s2 = "log_event (EvCommit (finalChanges st)) s1"
      let ?res = "with_commit (verr = None) conf ?r"
      obtain ce2 s3 where s3: "ctx_Err E ?s2 = (ce2, s3)" by fastforce
      from commit run s1 Some fc c v s3 have o: "out = Some (?res, joinContextError verr ce2)" "s' = s3"
        by (auto simp: commitFinalChanges_def Let_def split: prod.splits)
      have "quiet ?s2 s'" using quiet_ctx_Err [OF s3] o by simp
      then have tr: "rsTrace s' = rsTrace s1 @ [EvCommit (finalChanges st)]" by (simp add: quiet_def log_event_def)
      have "run_inv rq stored ob gh ?res st s1" using inv1 by (rule run_inv_with_commit)
      moreover have "verr = None \<Longrightarrow> conf = map chPath (finalChanges st)"
        using validateCommitResult_confirms_all [of "finalChanges st" cr cerr] by (simp add: v)
      then have "joinContextError verr ce2 = None \<longrightarrow>
          fixCommitted (resFix ?res) \<and> fixCommittedPaths (resFix ?res) = map chPath (finalChanges st)"
        by (simp add: with_commit_def)
      ultimately show ?thesis unfolding o(1) using lim tr commit(2) Some
        by (intro run_postI' [where gh = gh and st = st and s = s1 and tail = "[EvCommit (finalChanges st)]"])
          (simp_all add: committed_tail_def)
    qed
  qed
qed

section \<open>The rounds\<close>

lemma run_post_mono: "run_post rq stored ob m out s \<Longrightarrow> m \<le> n \<Longrightarrow> run_post rq stored ob n out s"
  unfolding run_post_def by (cases out) (fastforce, force intro: order_trans)

lemma run_inv_record [simp]:
  "run_inv rq stored ob gh (recordPluginDispatch result ex) st s = run_inv rq stored ob gh result st s"
  "run_inv rq stored ob gh (mergeSuccessfulExecution result ex) st s = run_inv rq stored ob gh result st s"
  by (simp_all add: run_inv_def verified_ok_def recordPluginDispatch_def mergeSuccessfulExecution_def split: option.splits)

text \<open>\<open>k\<close> rounds were done when the round started.\<close>

definition round_ok ::
  "PipelineRequest \<Rightarrow> (string \<Rightarrow> string \<Rightarrow> bool) \<Rightarrow> observer \<Rightarrow> nat \<Rightarrow> round_end \<Rightarrow> run_state \<Rightarrow> bool" where
  "round_ok rq stored ob k e s' \<longleftrightarrow>
     (case e of
        RoundReturn out \<Rightarrow> run_post rq stored ob (Suc k) out s'
      | RoundCommit result st \<Rightarrow> \<exists>gh. run_inv rq stored ob gh result st s' \<and> length (ghRounds gh) \<le> Suc k
      | RoundNext result cur st \<Rightarrow>
          \<exists>gh. run_inv rq stored ob gh result st s' \<and> entry_inv stored ob gh result cur st \<and> length (ghRounds gh) = Suc k)"

lemma round_ok_return:
  "run_inv rq stored ob gh result st s \<Longrightarrow> length (ghRounds gh) \<le> Suc k \<Longrightarrow>
     round_ok rq stored ob k (RoundReturn (Some (result, Some e))) s"
  by (simp add: round_ok_def run_postI)

text \<open>A new observation extends the trace by one segment.\<close>

lemma run_inv_observed:
  assumes inv: "run_inv rq stored ob gh result st s" and len: "length (ghSnaps gh) = length (ghRounds gh)"
    and seg: "observation_segment (length (ghSnaps gh)) (plugin_mode rq) (snapshot st) evs"
    and tr: "rsTrace s' = rsTrace s @ evs"
  shows "run_inv rq stored ob (gh\<lparr>ghSnaps := ghSnaps gh @ [snapshot st]\<rparr>) result st s'"
proof -
  have "obs_trace (plugin_mode rq) (rsTrace s') (ghSnaps gh @ [snapshot st])"
    unfolding tr using inv seg by (auto simp: run_inv_def intro: obs_more)
  moreover have "rounds_seen stored ob (gh\<lparr>ghSnaps := ghSnaps gh @ [snapshot st]\<rparr>)"
    using inv len by (fastforce simp: run_inv_def rounds_seen_def nth_append less_Suc_eq same_snapshot_def)
  ultimately show ?thesis using inv len by (auto simp: run_inv_def verified_ok_def nth_append)
qed

lemma run_inv_verified:
  assumes "run_inv rq stored ob gh result st s" and "obsIndex obs < length (ghSnaps gh)"
    and "snFiles (ghSnaps gh ! obsIndex obs) = snFiles (snapshot st)"
  shows "run_inv rq stored ob gh (with_verified obs result) st s"
  using assms by (simp add: run_inv_def with_verified_def verified_ok_def)

lemma reobserve_ok:
  assumes hp: "honest_provider stored provider" and hob: "observed_as E rq provider \<le> ob"
    and inv: "run_inv rq stored ob gh result st s"
    and len: "length (ghSnaps gh) = length (ghRounds gh)" "length (ghRounds gh) = Suc k" "obsIndex (exObservation cur) = k"
    and run: "reobserve E rq provider lastAllowed result cur st s = (e, s')"
  shows "round_ok rq stored ob k e s'"
proof -
  obtain ce s1 where s1: "ctx_Err E s = (ce, s1)" by fastforce
  have inv1: "run_inv rq stored ob gh result st s1" using run_inv_quiet [OF inv quiet_ctx_Err [OF s1]] .
  show ?thesis
  proof (cases "ce \<noteq> None \<or> lastAllowed \<and> \<not> VerifyAfterLastRound (rqAutofix rq)")
    case True
    with run s1 inv1 len show ?thesis
      by (cases ce) (auto simp: reobserve_def intro: round_ok_return, auto simp: round_ok_def)
  next
    case False
    let ?pol = "if lastAllowed then (rqPolicy rq)\<lparr>polDemand := VerificationDemand (rqAutofix rq)\<rparr> else rqPolicy rq"
    have pol: "polPlugin ?pol = polPlugin (rqPolicy rq)" by simp
    obtain nxt oe s2 where obs: "executeObservation E provider (snapshot st) ?pol (rqDispatcher rq) (Suc k) (\<not> lastAllowed)
        (StopOnTargetSyntaxErrors (rqAutofix rq)) s1 = ((nxt, oe), s2)" by (metis prod.exhaust)
    let ?gh = "gh\<lparr>ghSnaps := ghSnaps gh @ [snapshot st]\<rparr>"
    have seg: "(oe \<noteq> None \<and> s2 = s1) \<or> run_inv rq stored ob ?gh result st s2"
      using executeObservation_segment [OF obs] run_inv_observed [OF inv1 len(1)] len pol by fastforce
    have ob: "observed stored (snapshot st) (Suc k) (nxt, oe)" using executeObservation_observed [OF hp obs] .
    show ?thesis
    proof (cases oe)
      case (Some x)
      with False s1 obs run len(3) have "e = RoundReturn (Some (recordPluginDispatch result nxt, Some x))" "s' = s2"
        by (auto simp: reobserve_def Let_def)
      with seg inv1 len show ?thesis using round_ok_return [of rq stored ob _ _ st s2 k] by fastforce
    next
      case None
      let ?res = "with_verified (exObservation nxt) (mergeSuccessfulExecution (recordPluginDispatch result nxt) nxt)"
      from None ob have idx: "obsIndex (exObservation nxt) = Suc k" and tx: "texts_from stored (snapshot st) (exFixTexts nxt)"
        by (simp_all add: observed_def)
      have "run_inv rq stored ob ?gh ?res st s2"
        using seg None idx len by (intro run_inv_verified) (simp_all add: nth_append)
      moreover have "entry_inv stored ob ?gh ?res nxt st" if "\<not> lastAllowed"
      proof -
        have "observed_as E rq provider (Suc k) (snapshot st) nxt"
          using obs None that unfolding observed_as_def by auto
        then have "ob (Suc k) (snapshot st) nxt" using hob by (simp add: le_fun_def)
        then show ?thesis using idx tx len by (simp add: entry_inv_def nth_append)
      qed
      moreover from None False s1 obs run len(3) have
        "e = RoundCommit ?res st \<or> \<not> lastAllowed \<and> e = RoundNext ?res nxt st" "s' = s2"
        by (auto simp: reobserve_def Let_def split: if_splits)
      ultimately show ?thesis using len(2) by (auto simp: round_ok_def intro!: exI [of _ ?gh])
    qed
  qed
qed

lemma run_inv_applied:
  assumes inv: "run_inv rq stored ob gh result st s" and ap: "state_apply st cs = Inr (r, st')"
    and base: "base_stored stored st'" and snaps: "length (ghSnaps gh) = Suc (length (ghRounds gh))"
    and plan: "planned_round ob (length (ghRounds gh)) (ghSnaps gh ! length (ghRounds gh)) cs"
    and texts: "texts_from stored (ghSnaps gh ! length (ghRounds gh)) texts" "\<forall>c \<in> set cs. texts (chPath c) = Some (chBefore c)"
  shows "run_inv rq stored ob (gh\<lparr>ghRounds := ghRounds gh @ [cs]\<rparr>) (with_final st' (with_round r result)) st' s"
proof -
  have "rounds_of state_apply newAutofixState (ghRounds gh @ [cs]) = Inr st'"
    using rounds_of_snoc [where ap = state_apply, OF _ ap] inv by (simp add: run_inv_def)
  moreover have "ChangedPaths r = map chPath cs" "roundApplied r = sum_list (map chApplied cs)"
    using state_apply_Inr [OF run_inv_state [OF inv] ap] by blast+
  moreover have "rounds_seen stored ob (gh\<lparr>ghRounds := ghRounds gh @ [cs]\<rparr>)"
    using inv snaps plan texts by (fastforce simp: run_inv_def rounds_seen_def nth_append less_Suc_eq)
  ultimately show ?thesis using inv base snaps by (simp add: run_inv_def with_final_def with_round_def verified_ok_def)
qed

lemma restored_snapshot:
  assumes "af_inv st" and "state_apply st cs = Inr (r, st')" and "RestoredInitial r"
  shows "snFiles (snapshot st') = []"
proof -
  have "af_current st' = []" using state_apply_Inr [OF assms(1,2)] assms(3) restored_iff by blast
  then show ?thesis using set_sort_strings [of "[]"] by (simp add: snapshot_def Let_def al_keys_def)
qed

lemma applied_round_ok:
  assumes hp: "honest_provider stored provider" and hob: "observed_as E rq provider \<le> ob"
    and plan: "planned_round ob (length (ghRounds gh)) (ghSnaps gh ! length (ghRounds gh)) cs"
    and texts: "texts_from stored (ghSnaps gh ! length (ghRounds gh)) texts" "\<forall>c \<in> set cs. texts (chPath c) = Some (chBefore c)"
    and inv: "run_inv rq stored ob gh result st s"
    and entry: "entry_inv stored ob gh result cur st" and ap: "state_apply st cs = Inr (r, st')" and base: "base_stored stored st'"
    and run: "apply_planned E rq provider lastAllowed result cur st cs s = (e, s')"
  shows "round_ok rq stored ob (length (ghRounds gh)) e s'"
proof -
  have st: "af_inv st" using inv by (rule run_inv_state)
  have "length (ghSnaps gh) = Suc (length (ghRounds gh))" using entry by (simp add: entry_inv_def)
  note inv' = run_inv_applied [OF inv ap base this plan texts]
  let ?gh = "gh\<lparr>ghRounds := ghRounds gh @ [cs]\<rparr>" and ?res = "with_final st' (with_round r result)"
  show ?thesis
  proof (cases "RestoredInitial r")
    case True
    let ?ver = "with_verified (fixInitial (resFix ?res)) ?res"
    have ver: "run_inv rq stored ob ?gh ?ver st' s"
      using inv inv' restored_snapshot [OF st ap True]
      by (intro run_inv_verified) (auto simp: run_inv_def)
    obtain ce s1 where s1: "ctx_Err E s = (ce, s1)" by fastforce
    note ver1 = run_inv_quiet [OF ver quiet_ctx_Err [OF s1]]
    from run ap True s1 have "(\<exists>x. e = RoundReturn (Some (?ver, Some x))) \<or> e = RoundCommit ?ver st'" "s' = s1"
      by (auto simp: apply_planned_def Let_def split: option.splits)
    then show ?thesis using round_ok_return [OF ver1] ver1 by (auto simp: round_ok_def intro!: exI [of _ ?gh])
  next
    case False
    with run ap have "reobserve E rq provider lastAllowed ?res cur st' s = (e, s')"
      by (simp add: apply_planned_def Let_def)
    from reobserve_ok [OF hp hob inv' _ _ _ this] entry show ?thesis by (simp add: entry_inv_def)
  qed
qed

lemma apply_planned_ok:
  assumes hp: "honest_provider stored provider" and hob: "observed_as E rq provider \<le> ob"
    and ds: "CompleteDiagnostics (exObservation cur) = Some ds" and inv: "run_inv rq stored ob gh result st s"
    and entry: "entry_inv stored ob gh result cur st" and plan: "planFixes ds (exFixTexts cur) = Some (Inr cs)" "cs \<noteq> []"
    and run: "apply_planned E rq provider lastAllowed result cur st cs s = (e, s')"
  shows "round_ok rq stored ob (length (ghRounds gh)) e s'"
proof -
  have st: "af_inv st" and base: "base_stored stored st"
    using inv run_inv_state by (auto simp: run_inv_def)
  have "texts_from stored (snapshot st) (exFixTexts cur)" using entry by (simp add: entry_inv_def)
  note keeps = apply_keeps_base [OF st base _ planned_base [OF st this plan(1)]]
  show ?thesis
  proof (cases "state_apply st cs")
    case (Inl x)
    obtain ce s1 where s1: "ctx_Err E s = (ce, s1)" by fastforce
    from run Inl s1 have "\<exists>y. e = RoundReturn (Some (result, Some y))" "s' = s1"
      by (auto simp: apply_planned_def joinContextError_def errors_Join_def split: option.splits)
    then show ?thesis using round_ok_return [OF run_inv_quiet [OF inv quiet_ctx_Err [OF s1]]] by auto
  next
    case (Inr z)
    then obtain r st' where "state_apply st cs = Inr (r, st')" by (cases z) auto
    note applied = applied_round_ok [OF hp hob _ _ _ inv entry this keeps [OF this] run]
    have "same_snapshot (ghSnaps gh ! length (ghRounds gh)) (snapshot st)"
      using inv entry by (fastforce simp: run_inv_def rounds_seen_def entry_inv_def)
    then have "texts_from stored (ghSnaps gh ! length (ghRounds gh)) (exFixTexts cur)"
      using entry by (simp add: entry_inv_def texts_from_def same_snapshot_def)
    moreover have "planned_round ob (length (ghRounds gh)) (ghSnaps gh ! length (ghRounds gh)) cs"
      using entry ds plan(1) by (auto simp: planned_round_def entry_inv_def)
    moreover have "\<forall>c \<in> set cs. exFixTexts cur (chPath c) = Some (chBefore c)" using planFixes_sound [OF plan(1)] by blast
    ultimately show ?thesis using applied by blast
  qed
qed

lemma autofix_round_ok:
  assumes hp: "honest_provider stored provider" and hob: "observed_as E rq provider \<le> ob" and inv: "run_inv rq stored ob gh result st s"
    and entry: "entry_inv stored ob gh result cur st"
    and run: "autofix_round E rq provider lastAllowed result cur st s = (e, s')"
  shows "round_ok rq stored ob (length (ghRounds gh)) e s'"
proof -
  let ?k = "length (ghRounds gh)"
  obtain c1 s1 where s1: "ctx_Err E s = (c1, s1)" by fastforce
  obtain c2 s2 where s2: "ctx_Err E s1 = (c2, s2)" by fastforce
  obtain c3 s3 where s3: "ctx_Err E s2 = (c3, s3)" by fastforce
  have q: "quiet s s1" "quiet s s2" "quiet s s3"
    using quiet_ctx_Err [OF s1] quiet_ctx_Err [OF s2] quiet_ctx_Err [OF s3] by (auto simp: quiet_def)
  note inv_s = run_inv_quiet [OF inv q(1)] run_inv_quiet [OF inv q(2)] run_inv_quiet [OF inv q(3)]
  consider (ret) x where "e = RoundReturn (Some (result, Some x))" "s' \<in> {s1, s2, s3}"
    | (panic) "e = RoundReturn None" "s' = s1"
    | (settled) "e = RoundCommit result st" "s' = s2"
    | (changes) ds cs where "CompleteDiagnostics (exObservation cur) = Some ds" "planFixes ds (exFixTexts cur) = Some (Inr cs)" "cs \<noteq> []"
        "apply_planned E rq provider lastAllowed result cur st cs s3 = (e, s')"
    using run s1 s2 s3 by (auto simp: autofix_round_def Let_def split: option.splits sum.splits if_splits)
  then show ?thesis
  proof cases
    case ret
    then show ?thesis using inv_s by (auto intro: round_ok_return)
  next
    case panic
    then show ?thesis using run_post_panic [OF inv_s(1)] by (simp add: round_ok_def)
  next
    case settled
    then show ?thesis using inv_s(2) by (auto simp: round_ok_def intro!: exI [of _ gh])
  next
    case changes
    then show ?thesis using apply_planned_ok [OF hp hob _ inv_s(3) entry] by blast
  qed
qed

lemma autofix_loop_post:
  assumes "honest_provider stored provider" and "observed_as E rq provider \<le> ob"
  shows "run_inv rq stored ob gh result st s \<Longrightarrow> entry_inv stored ob gh result cur st \<Longrightarrow>
    autofix_loop E rq provider n result cur st s = (out, s') \<Longrightarrow> run_post rq stored ob (length (ghRounds gh) + n) out s'"
proof (induction n arbitrary: gh result cur st s)
  case 0
  then show ?case using commit_post by auto
next
  case (Suc n)
  obtain e s1 where e: "autofix_round E rq provider (n = 0) result cur st s = (e, s1)" by fastforce
  note ok = autofix_round_ok [OF assms(1,2) Suc.prems(1,2) e]
  show ?case
  proof (cases e)
    case (RoundReturn o1)
    then show ?thesis using ok Suc.prems(3) e by (auto simp: round_ok_def intro: run_post_mono)
  next
    case (RoundCommit r1 st1)
    then show ?thesis using ok Suc.prems(3) e commit_post [of rq stored ob _ r1 st1 s1] by (force simp: round_ok_def)
  next
    case (RoundNext r1 c1 st1)
    then obtain gh1 where gh1: "run_inv rq stored ob gh1 r1 st1 s1" "entry_inv stored ob gh1 r1 c1 st1"
        "length (ghRounds gh1) = Suc (length (ghRounds gh))"
      using ok by (auto simp: round_ok_def)
    from Suc.IH [OF gh1(1,2)] RoundNext Suc.prems(3) e gh1(3) show ?thesis by simp
  qed
qed

section \<open>A whole run\<close>

lemma new_state_outputs [simp]:
  "finalChanges newAutofixState = []" "finalSources newAutofixState = []" "snFiles (snapshot newAutofixState) = []"
  "base_stored stored newAutofixState"
proof -
  have [simp]: "sort_strings [] = []" using set_sort_strings [of "[]"] by simp
  show "finalChanges newAutofixState = []" "finalSources newAutofixState = []" "snFiles (snapshot newAutofixState) = []"
    "base_stored stored newAutofixState"
    by (simp_all add: finalChanges_def finalSources_def snapshot_def Let_def newAutofixState_def al_keys_def base_stored_def)
qed

text \<open>The first observation of a run that starts with an empty trace.\<close>

definition first_observed :: "PluginExecution \<Rightarrow> (string \<Rightarrow> string \<Rightarrow> bool) \<Rightarrow> observationExecution \<Rightarrow> run_state \<Rightarrow> bool" where
  "first_observed mode stored ex s \<longleftrightarrow>
     observation_segment 0 mode emptySnapshot (rsTrace s) \<and> obsIndex (exObservation ex) = 0 \<and>
     texts_from stored emptySnapshot (exFixTexts ex)"

lemma first_segment:
  assumes "observation_segment 0 mode emptySnapshot evs"
  shows "obs_trace mode evs [emptySnapshot]"
  using obs_more [OF obs_none, of mode emptySnapshot evs] assms by simp

lemma runAutofix_post:
  assumes hp: "honest_provider stored provider" and hob: "observed_as E rq provider \<le> ob" and ob: "ob 0 emptySnapshot ex" and first: "first_observed (plugin_mode rq) stored ex s"
    and ro: "resObservation result = exObservation ex"
    and run: "runAutofixPipeline E rq provider result ex s = (out, s')"
  shows "run_post rq stored ob (nat (maxRounds (rqAutofix rq))) out s'"
proof -
  let ?res = "result\<lparr>resFix := zeroFix\<lparr>fixKind := fixResultApplied, fixInitial := exObservation ex, fixVerified := True\<rparr>\<rparr>"
  let ?gh = "\<lparr>ghRounds = [], ghSnaps = [emptySnapshot]\<rparr>"
  have same: "same_snapshot emptySnapshot (snapshot newAutofixState)"
    using snapshot_Text_snapshot [OF af_inv_new]
    by (simp add: same_snapshot_def) (simp add: newAutofixState_def emptySnapshot_def snapshot_Text_def fun_eq_iff)
  then have "rounds_seen stored ob ?gh" by (simp add: rounds_seen_def)
  then have inv: "run_inv rq stored ob ?gh ?res newAutofixState s"
    using first ro by (auto simp: run_inv_def first_observed_def verified_ok_def zeroFix_def emptySnapshot_def
        dest!: first_segment [unfolded emptySnapshot_def])
  have "texts_from stored (snapshot newAutofixState) (exFixTexts ex)"
    using first same by (simp add: first_observed_def texts_from_def same_snapshot_def)
  then have entry: "entry_inv stored ob ?gh ?res ex newAutofixState"
    using first ob by (simp add: entry_inv_def first_observed_def)
  show ?thesis
  proof (cases "StopOnTargetSyntaxErrors (rqAutofix rq) \<and> HasTargetSyntaxErrors (obsNative (exObservation ex))")
    case True
    then show ?thesis using run commit_post [OF inv] by (simp add: runAutofixPipeline_def)
  next
    case False
    then show ?thesis using run autofix_loop_post [OF hp hob inv entry] by (auto simp: runAutofixPipeline_def)
  qed
qed

text \<open>How a run ends: rejected before any port is called, after a failed or plain observation, in the
  presentation of a progressive lint, or in the autofix.\<close>

lemma first_observation:
  assumes hp: "honest_provider stored provider" and tr: "rsTrace s = []"
    and obs: "executeObservation E provider emptySnapshot (rqPolicy rq) d 0 pc stop s = ((ex, err), s')"
  shows "(rsTrace s' = [] \<and> err \<noteq> None \<or> observation_segment 0 (plugin_mode rq) emptySnapshot (rsTrace s')) \<and>
    (err = None \<longrightarrow> first_observed (plugin_mode rq) stored ex s')"
  using executeObservation_segment [OF obs] executeObservation_observed [OF hp obs] tr
  by (auto simp: first_observed_def observed_def)

lemma RunPipeline_cases:
  assumes run: "RunPipeline E False rq s = (out, s')" and tr: "rsTrace s = []"
    and hp: "\<forall>provider. rqProvider rq = Some provider \<longrightarrow> honest_provider stored provider"
  obtains (rejected) e where "out = Some (zeroResult, Some e)" "rsTrace s' = []"
  | (failed) e result where "out = Some (result, Some e)" "resFix result = zeroFix"
      "rsTrace s' = [] \<or> observation_segment 0 (plugin_mode rq) emptySnapshot (rsTrace s')"
  | (lint) result where "out = Some (result, None)" "resFix result = zeroFix" "rqKind rq = pipelineRequestLint"
      "observation_segment 0 (plugin_mode rq) emptySnapshot (rsTrace s')"
  | (progressive) ex result s1 where "rqKind rq = pipelineRequestProgressiveLint" "validate rq = None"
      "first_observed (plugin_mode rq) stored ex s1" "presentProgressiveLint E result ex s1 = (out, s')"
  | (autofix) provider ex result s1 where "rqKind rq = pipelineRequestAutofix" "rqProvider rq = Some provider"
      "validate rq = None" "first_observed (plugin_mode rq) stored ex s1" "resObservation result = exObservation ex"
      "runAutofixPipeline E rq provider result ex s1 = (out, s')" "observed_as E rq provider 0 emptySnapshot ex"
proof -
  obtain ce s1 where s1: "ctx_Err E s = (ce, s1)" by fastforce
  have t1: "rsTrace s1 = []" using quiet_ctx_Err [OF s1] tr by (simp add: quiet_def)
  show thesis
  proof (cases "validate rq = None \<and> ce = None")
    case False
    then show thesis using run s1 t1 tr rejected
      by (cases "rqProvider rq") (auto simp: RunPipeline_def dest: validated split: option.splits)
  next
    case True
    then obtain provider where prov: "rqProvider rq = Some provider" using validated by blast
    let ?auto = "rqKind rq = pipelineRequestAutofix"
    obtain ex err s2 where obs: "executeObservation E provider emptySnapshot (rqPolicy rq) (rqDispatcher rq) 0 ?auto
        (rqKind rq = pipelineRequestProgressiveLint \<or> (?auto \<and> StopOnTargetSyntaxErrors (rqAutofix rq))) s1 = ((ex, err), s2)"
      by (metis prod.exhaust)
    note first = first_observation [OF hp [rule_format, OF prov] t1 obs]
    let ?rec = "recordPluginDispatch zeroResult ex"
    let ?res = "mergeSuccessfulExecution (?rec\<lparr>resObservation := exObservation ex\<rparr>) ex"
    have fx: "resFix ?rec = zeroFix" "resFix ?res = zeroFix" "resObservation ?res = exObservation ex"
      by (simp_all add: recordPluginDispatch_def mergeSuccessfulExecution_def zeroResult_def split: option.splits)
    show thesis
    proof (cases err)
      case (Some e)
      with True prov s1 obs run have "out = Some (?rec, Some e)" "s' = s2" by (auto simp: RunPipeline_def Let_def)
      then show thesis using failed fx(1) first by blast
    next
      case None
      have ob: "observed_as E rq provider 0 emptySnapshot ex" if ?auto
        using obs None that unfolding observed_as_def by auto
      consider "rqKind rq = pipelineRequestLint" | "rqKind rq = pipelineRequestProgressiveLint" | ?auto
        using validated [OF conjunct1 [OF True]] by (elim conjE disjE) simp_all
      then show thesis
        using True prov s1 obs run None first fx ob lint [of "?res\<lparr>resFix := zeroFix\<rparr>"] progressive [of ex s2 ?res] autofix [of provider ex s2 ?res]
        by cases (auto simp: RunPipeline_def Let_def)
    qed
  qed
qed

end
