(* ===== verification/Pipeline_Run.thy ===== *)
theory Pipeline_Run
  imports Pipeline
begin

text \<open>
  Properties of whole runs of \<open>RunPipeline\<close>, and a concrete run on which they are exercised: one file
  \<open>a\<close> whose stored text is \<open>x\<close>, one rule that rewrites \<open>x\<close> to \<open>y\<close>.
\<close>

section \<open>A concrete run\<close>

definition run_file :: "string \<Rightarrow> SourceFile" where
  "run_file t = \<lparr>sf_ptr = 1, sf_fileName = ''a'', sf_text = t\<rparr>"

definition run_diag :: "string \<Rightarrow> RuleDiagnostic" where
  "run_diag t = (sample_diag ''a'' [\<lparr>fixText = ''y'', fixRange = TextRange 0 1\<rparr>])\<lparr>diagSourceFile := Some (run_file t)\<rparr>"

definition run_program :: "string \<Rightarrow> Program" where
  "run_program t = sample_program\<lparr>prSourceFiles := [run_file t],
     prGetSourceFile := (\<lambda>p. if p = ''a'' then Some (run_file t) else None)\<rparr>"

definition run_generation :: "string \<Rightarrow> Generation" where
  "run_generation t =
     \<lparr>genPrograms = [Some (run_program t)], genTargetsByProgram = [[''a'']],
      genRulesForFile = Some (\<lambda>_. [sample_rule ''r'' False]), genTypeCheck = False, genSingleThreaded = True,
      genTiming = False,
      genLintFile = (\<lambda>_ fp _. if sf_text (planFile fp) = ''x'' then [run_diag (sf_text (planFile fp))] else []),
      genPath = None, genReadText = Some (\<lambda>p _. if p = ''a'' then Inr t else Inl (ErrPort p)), genPlugin = None,
      genHasRelease = True\<rparr>"

definition run_provider :: GenerationProvider where
  "run_provider n snap = Inr (run_generation (case snapshot_Text snap ''a'' of None \<Rightarrow> ''x'' | Some t \<Rightarrow> t))"

definition run_env0 :: run_env where
  "run_env0 = \<lparr>ctxErrAt = (\<lambda>_. None), envExt = (\<lambda>_. []), envMarshal = (\<lambda>_ _. None), envAddr = (\<lambda>_. 0),
     envErrText = (\<lambda>_. []), envMaxProcs = 4, envTurns = (\<lambda>_. []), envCloneMap = Inr, envCloneOptions = Inr, envArrive = (\<lambda>_. concat)\<rparr>"

definition run_request :: PipelineRequest where
  "run_request = NewAutofixRequestWithCommitter (Some run_provider)
     (Some (\<lambda>cs. (\<lparr>ConfirmedPaths = map chPath cs\<rparr>, None))) sample_policy zeroAutofixPolicy None"

definition run_start :: run_state where
  "run_start = \<lparr>rsPolls = 0, rsAcquired = 0, rsTrace = []\<rparr>"

lemmas run_defs = run_file_def run_diag_def run_program_def run_generation_def run_provider_def run_env0_def
  run_request_def run_start_def sample_program_def sample_diag_def sample_rule_def sample_policy_def request_defs
  zeroAutofixPolicy_def zeroDemand_def maxFixRounds_def

lemma ctx_live: "ctx_Err run_env0 s = (None, s\<lparr>rsPolls := Suc (rsPolls s)\<rparr>)"
  by (simp add: ctx_Err_def run_env0_def)

definition run_plan :: "string \<Rightarrow> LintPlan" where
  "run_plan t = \<lparr>planPrograms = [\<lparr>planProgram = run_program t,
     planFiles = [\<lparr>planFile = run_file t, planRules = [sample_rule ''r'' False], planEnvironment = None,
       hasTypeChecker = False\<rparr>]\<rparr>], syntacticDiagnosticGroups = []\<rparr>"

lemma run_prepare:
  "prepare_plan run_env0 (run_generation t) s = (Inr (Some (run_plan t)), s\<lparr>rsPolls := Suc (Suc (rsPolls s))\<rparr>)"
  by (simp add: prepare_plan_def ctx_live PrepareLintPlanContext_def run_generation_def run_program_def sample_program_def run_file_def
      validateProgram_def resolveExactProgramFiles_def programLintPlanFromFiles_def emptyFilePlan_def
      plan_refs_def resolve_ref_def resolveProgramLintPlanFile_def CollectFileSyntacticDiagnostics_def
      write_slot_def add_group_def sample_rule_def run_plan_def Let_def)

definition run_lint_result :: LintResult where
  "run_lint_result = \<lparr>lrLintedFileCount = 1, lrExecutedRules = {''r''}\<rparr>"

lemma run_linter:
  "RunLinter (genLintFile (run_generation t) 1) concat n (runLinterOptions (run_generation t) (Some (run_plan t)) 1) =
     Inr (run_lint_result, if t = ''x'' then [run_diag t] else [])"
  by (simp add: RunLinter_def runLinterOptions_def run_generation_def run_plan_def run_program_def sample_program_def
      EditDemand_IsValid_iff sourcePrograms_def validateProgram_def runLintRulesInProgram_def Let_def
      filterNativeRules_filter sample_rule_def group_shards_def merge_results_def run_lint_result_def run_file_def)

definition run_observation :: "nat \<Rightarrow> string \<Rightarrow> ObservationResult" where
  "run_observation i t = (newObservation i)\<lparr>obsNative :=
     \<lparr>noDiagnostics = (if t = ''x'' then [run_diag t] else []), noLint = Some run_lint_result, noFiles = [],
      HasTargetSyntaxErrors = False\<rparr>\<rparr>"

lemma run_simps [simp]:
  "envMaxProcs run_env0 = 4" "envArrive run_env0 i = concat"
  "genPath (run_generation t) = None" "genTypeCheck (run_generation t) = False" "genPlugin (run_generation t) = None"
  "genHasRelease (run_generation t) = True"
  "genReadText (run_generation t) = Some (\<lambda>p _. if p = ''a'' then Inr t else Inl (ErrPort p))"
  "plan_SyntacticDiagnostics (Some (run_plan t)) b = []" "HasSyntacticDiagnostics (Some (run_plan t)) = False"
  "planPrograms (run_plan t) = [\<lparr>planProgram = run_program t,
     planFiles = [\<lparr>planFile = run_file t, planRules = [sample_rule ''r'' False], planEnvironment = None,
       hasTypeChecker = False\<rparr>]\<rparr>]"
  "sf_fileName (run_file t) = ''a''" "sf_ptr (run_file t) = 1"
  by (simp_all add: run_env0_def run_generation_def plan_SyntacticDiagnostics_def HasSyntacticDiagnostics_def run_plan_def
      run_file_def)

lemma run_native:
  "runNativeObservation run_env0 i (run_generation t) (Some (run_plan t)) 1 [] s =
     ((obsNative (run_observation i t), None), s\<lparr>rsPolls := Suc (Suc (rsPolls s))\<rparr>)"
  by (simp add: runNativeObservation_def ctx_live run_linter run_observation_def projectTargetPath_def Let_def
      newObservation_def run_diag_def sample_diag_def)

text \<open>One observation of the concrete run; only the trace and the number of acquisitions matter.\<close>

definition run_texts :: "string \<Rightarrow> bool \<Rightarrow> fixTextSnapshot" where
  "run_texts t pc = (if pc \<and> t = ''x'' then [''a'' \<mapsto> t] else Map.empty)"

definition run_execution :: "nat \<Rightarrow> string \<Rightarrow> bool \<Rightarrow> observationExecution" where
  "run_execution i t pc = \<lparr>exObservation = run_observation i t, exFixTexts = run_texts t pc,
     exPluginOutcome = None, exDeferredTask = None\<rparr>"

lemma sort_single [simp]: "sort_strings [p] = [p]"
  by (simp add: sort_strings_def sort_cmp_def)

lemmas observe_eval = executeObservation_def run_provider_def snapshot_Text_def observation_body_def ctx_live
  run_prepare projectGenerationTargets_def Let_def snapshot_Empty_def observe_planned_def materializePluginTask_def
  sample_policy_def emptyPluginTask_def observe_concurrent_def executeConcurrentObservation_def run_native
  freezeFixTextsForDiagnostics_def freezeFixTexts_def projectTargetPath_def log_event_def
  complete_diagnostics_def CompleteDiagnostics_def run_observation_def newObservation_def with_native_def
  newExecution_def with_plugin_kind_def fixSourcesFromDiagnostics_def some_sources_def al_keys_def
  readGenerationText_def run_execution_def run_texts_def

lemma run_observe_x:
  "executeObservation run_env0 run_provider emptySnapshot sample_policy None i True False s =
     ((run_execution i ''x'' True, None),
      s\<lparr>rsPolls := rsPolls s + 10, rsAcquired := Suc (rsAcquired s),
        rsTrace := rsTrace s @ [EvAcquire emptySnapshot, EvRelease True]\<rparr>)"
  by (simp add: observe_eval emptySnapshot_def run_diag_def sample_diag_def diag_Fixes_def)

text \<open>The in-memory state after the one round.\<close>

definition run_memory :: autofixState where
  "run_memory = \<lparr>af_initial = [(''a'', ''x'')], af_current = [(''a'', ''y'')], af_applied = [(''a'', 1)]\<rparr>"

definition run_snapshot :: SourceSnapshot where
  "run_snapshot = \<lparr>snFiles = [\<lparr>snPath = ''a'', snText = ''y''\<rparr>], snTexts = Some [''a'' \<mapsto> ''y'']\<rparr>"

definition run_change :: FileChange where
  "run_change = \<lparr>chPath = ''a'', chBefore = ''x'', chAfter = ''y'', chApplied = 1\<rparr>"

lemma run_observe_y:
  "executeObservation run_env0 run_provider run_snapshot sample_policy None i True False s =
     ((run_execution i ''y'' True, None),
      s\<lparr>rsPolls := rsPolls s + 10, rsAcquired := Suc (rsAcquired s),
        rsTrace := rsTrace s @ [EvAcquire run_snapshot, EvRelease True]\<rparr>)"
  by (simp add: observe_eval run_snapshot_def)

lemma run_planned: "planFixes [run_diag ''x''] (run_texts ''x'' True) = Some (Inr [run_change])"
  by (simp add: planFixes_def apply_diag_fixes_def fixer_eval set_diag_fixes_def run_diag_def sample_diag_def
        diag_Fixes_def al_keys_def run_texts_def run_change_def)

lemma run_applied:
  "state_apply newAutofixState [run_change] =
     Inr (\<lparr>ChangedPaths = [''a''], roundApplied = 1, RestoredInitial = False\<rparr>, run_memory)"
  by (simp add: af_eval run_change_def run_memory_def)

lemma run_memory_outputs [simp]:
  "snapshot run_memory = run_snapshot" "finalChanges run_memory = [run_change]"
  "finalSources run_memory = [\<lparr>snPath = ''a'', snText = ''y''\<rparr>]"
  by (simp_all add: snapshot_def finalChanges_def finalSources_def run_memory_def run_snapshot_def run_change_def
      al_keys_def al_get_def state_text_def)

lemma run_complete [simp]:
  "CompleteDiagnostics (run_observation i t) = Some (if t = ''x'' then [run_diag t] else [])"
  "obsIndex (run_observation i t) = i" "HasTargetSyntaxErrors (obsNative (run_observation i t)) = False"
  by (simp_all add: CompleteDiagnostics_def run_observation_def newObservation_def)

definition run_result :: PipelineResult where
  "run_result =
     \<lparr>resObservation = run_observation 1 ''y'',
      resFix = \<lparr>fixKind = fixResultApplied, fixInitial = run_observation 0 ''x'',
        fixRounds = [\<lparr>ChangedPaths = [''a''], roundApplied = 1, RestoredInitial = False\<rparr>],
        fixFinalChanges = [run_change], fixFinalSources = [\<lparr>snPath = ''a'', snText = ''y''\<rparr>],
        fixVerified = True, fixCommitted = True, fixCommittedPaths = [''a'']\<rparr>,
      resExecutedRules = {''r''}, resPluginOutcomes = []\<rparr>"

definition run_end :: run_state where
  "run_end = \<lparr>rsPolls = 29, rsAcquired = 2,
     rsTrace = [EvAcquire emptySnapshot, EvRelease True, EvAcquire run_snapshot, EvRelease True, EvCommit [run_change]]\<rparr>"

lemma run_valid: "validate run_request = None"
  by (simp add: validate_def run_request_def request_defs sample_policy_def demand_valid_def EditDemand_IsValid_iff
      PluginExecution_valid_def PluginFailurePolicy_valid_def PluginConcurrentJoined_def
      PluginKeepPartialWithSynthetic_def pluginProgressiveAfterNative_def PluginDiscardOnFailure_def
      plansAutofixes_def EditDemandAutofix_def zeroAutofixPolicy_def zeroDemand_def maxFixRounds_def)

lemma run_request_simps [simp]:
  "rqProvider run_request = Some run_provider" "rqPolicy run_request = sample_policy" "rqDispatcher run_request = None"
  "rqKind run_request = pipelineRequestAutofix"
  "rqCommit run_request = Some (Some (\<lambda>cs. (\<lparr>ConfirmedPaths = map chPath cs\<rparr>, None)))"
  "maxRounds (rqAutofix run_request) = 10" "StopOnTargetSyntaxErrors (rqAutofix run_request) = False"
  by (simp_all add: run_request_def request_defs zeroAutofixPolicy_def maxFixRounds_def)

lemma run_execution_simps [simp]:
  "exObservation (run_execution i t pc) = run_observation i t" "exFixTexts (run_execution i t pc) = run_texts t pc"
  "exPluginOutcome (run_execution i t pc) = None" "recordPluginDispatch result (run_execution i t pc) = result"
  "mergeSuccessfulExecution result (run_execution i t pc) =
     result\<lparr>resExecutedRules := resExecutedRules result \<union> {''r''}\<rparr>"
  by (simp_all add: run_execution_def recordPluginDispatch_def mergeSuccessfulExecution_def run_observation_def
      run_lint_result_def)

lemma run_round1:
  "autofix_round run_env0 run_request run_provider False result (run_execution 0 ''x'' True) newAutofixState s =
     (RoundNext
        (with_verified (run_observation 1 ''y'')
           ((with_final run_memory (with_round \<lparr>ChangedPaths = [''a''], roundApplied = 1, RestoredInitial = False\<rparr> result))
              \<lparr>resExecutedRules := resExecutedRules result \<union> {''r''}\<rparr>))
        (run_execution 1 ''y'' True) run_memory,
      s\<lparr>rsPolls := rsPolls s + 14, rsAcquired := Suc (rsAcquired s),
        rsTrace := rsTrace s @ [EvAcquire run_snapshot, EvRelease True]\<rparr>)"
  by (simp add: autofix_round_def ctx_live run_planned apply_planned_def run_applied reobserve_def run_observe_y Let_def
      with_final_def with_round_def)

lemma run_round2:
  "autofix_round run_env0 run_request run_provider False result (run_execution (Suc 0) ''y'' True) run_memory s =
     (RoundCommit result run_memory, s\<lparr>rsPolls := Suc (Suc (rsPolls s))\<rparr>)"
  by (simp add: autofix_round_def ctx_live planFixes_def al_keys_def Let_def sort_strings_def)

lemma run_commit:
  "commitFinalChanges run_env0 run_request result run_memory s =
     (Some (with_commit True [''a''] (with_final run_memory result), None),
      s\<lparr>rsPolls := Suc (Suc (rsPolls s)), rsTrace := rsTrace s @ [EvCommit [run_change]]\<rparr>)"
  by (simp add: commitFinalChanges_def ctx_live log_event_def with_final_def validateCommitResult_def run_change_def Let_def)

lemma two_rounds:
  "autofix_loop E rq provider 10 result cur st s =
     (case autofix_round E rq provider False result cur st s of
        (RoundReturn out, s) \<Rightarrow> (out, s)
      | (RoundCommit result st, s) \<Rightarrow> commitFinalChanges E rq result st s
      | (RoundNext result cur st, s) \<Rightarrow>
          (case autofix_round E rq provider False result cur st s of
             (RoundReturn out, s) \<Rightarrow> (out, s)
           | (RoundCommit result st, s) \<Rightarrow> commitFinalChanges E rq result st s
           | (RoundNext result cur st, s) \<Rightarrow> autofix_loop E rq provider 8 result cur st s))"
proof -
  have "(10 :: nat) = Suc (Suc 8)" and "((8 :: nat) = 0) = False" by simp_all
  then show ?thesis by (simp only: autofix_loop.simps) simp
qed

lemma run_whole: "RunPipeline run_env0 False run_request run_start = (Some (run_result, None), run_end)"
  by (simp add: RunPipeline_def run_valid ctx_live run_observe_x runAutofixPipeline_def two_rounds run_round1 run_round2
      run_commit run_start_def run_end_def run_result_def with_commit_def with_final_def with_verified_def with_round_def
      zeroResult_def zeroFix_def)

section \<open>Facts about whole runs\<close>

text \<open>The snapshots a run asked generations for, in order.\<close>

fun acquisitions :: "pipe_event list \<Rightarrow> SourceSnapshot list" where
  "acquisitions [] = []"
| "acquisitions (EvAcquire snap # evs) = snap # acquisitions evs"
| "acquisitions (_ # evs) = acquisitions evs"

lemma acquisitions_append [simp]: "acquisitions (xs @ ys) = acquisitions xs @ acquisitions ys"
  by (induction xs rule: acquisitions.induct) simp_all

lemma obs_trace_acquisitions: "obs_trace mode evs snaps \<Longrightarrow> acquisitions evs = snaps"
  by (induction rule: obs_trace.induct) (auto simp: observation_segment_def plugin_events_def)

lemma honest_trivial [simp]: "honest_provider (\<lambda>_ _. True) provider"
  by (simp add: honest_provider_def)

lemma all_honest: "\<forall>provider. rqProvider rq = Some provider \<longrightarrow> honest_provider (\<lambda>_ _. True) provider"
  by simp

text \<open>What a run leaves behind, whatever its outcome.\<close>

definition run_tail :: "PipelineRequest \<Rightarrow> SourceSnapshot list \<Rightarrow> pipe_event list \<Rightarrow> bool" where
  "run_tail rq snaps tail \<longleftrightarrow>
     tail = [] \<or>
     (\<exists>cs. tail = [EvCommit cs] \<and> cs \<noteq> [] \<and> rqKind rq = pipelineRequestAutofix \<and> rqCommit rq \<noteq> None) \<or>
     (\<exists>ds. (tail = [EvBaseline ds] \<or> tail = [EvBaseline ds, EvSubmit]) \<and>
        rqKind rq = pipelineRequestProgressiveLint \<and> length snaps = 1)"

lemma present_trace:
  assumes "presentProgressiveLint E result ex s = (out, s')"
  obtains tail ds where "rsTrace s' = rsTrace s @ tail" "tail = [] \<or> tail = [EvBaseline ds] \<or> tail = [EvBaseline ds, EvSubmit]"
proof -
  have "\<exists>tail. rsTrace s' = rsTrace s @ tail \<and>
     (tail = [] \<or> tail = [EvBaseline (noDiagnostics (obsNative (exObservation ex)))] \<or>
      tail = [EvBaseline (noDiagnostics (obsNative (exObservation ex))), EvSubmit])"
    using assms
    by (auto simp: presentProgressiveLint_def Let_def ctx_Err_def log_event_def split: option.splits if_splits)
  with that show thesis by blast
qed

lemma autofix_limit: "validate rq = None \<Longrightarrow> rqKind rq = pipelineRequestAutofix \<Longrightarrow> nat (maxRounds (rqAutofix rq)) \<le> 10"
  using validated [of rq] by auto

lemma RunPipeline_trace:
  assumes run: "RunPipeline E False rq s = (out, s')" and tr: "rsTrace s = []"
  obtains evs tail snaps where "rsTrace s' = evs @ tail" "obs_trace (plugin_mode rq) evs snaps" "length snaps \<le> 11"
    "run_tail rq snaps tail"
proof (cases rule: RunPipeline_cases [OF run tr all_honest])
  case 1
  then show ?thesis using that [of "[]" "[]" "[]"] obs_none by (simp add: run_tail_def)
next
  case (2 e result)
  then show ?thesis
    using that [of "[]" "[]" "[]"] that [of "rsTrace s'" "[]" "[emptySnapshot]"] obs_none first_segment
    by (auto simp: run_tail_def)
next
  case (3 result)
  then show ?thesis using that [of "rsTrace s'" "[]" "[emptySnapshot]"] first_segment by (simp add: run_tail_def)
next
  case (4 ex result s1)
  from present_trace [OF 4(4)] obtain tail ds where "rsTrace s' = rsTrace s1 @ tail"
    "tail = [] \<or> tail = [EvBaseline ds] \<or> tail = [EvBaseline ds, EvSubmit]" .
  then show ?thesis using that [of "rsTrace s1" tail "[emptySnapshot]"] 4 first_segment
    by (auto simp: run_tail_def first_observed_def)
next
  case (5 provider ex result s1)
  have lim: "nat (maxRounds (rqAutofix rq)) \<le> 10" using 5 by (simp add: autofix_limit)
  note post = runAutofix_post [OF honest_trivial order_refl 5(7) 5(4-6)]
  show ?thesis
  proof (cases out)
    case None
    with post lim show ?thesis using that [of "rsTrace s'" "[]"] by (fastforce simp: run_post_def run_tail_def)
  next
    case (Some z)
    with post obtain gh st s2 tail where "run_inv rq (\<lambda>_ _. True) (observed_as E rq provider) gh (fst z) st s2" "length (ghRounds gh) \<le> 10"
      "rsTrace s' = rsTrace s2 @ tail" "committed_tail rq (fst z) (snd z) st tail"
      using lim by (cases z) (fastforce simp: run_post_def)
    then show ?thesis using that [of "rsTrace s2" tail "ghSnaps gh"] 5(1)
      by (auto simp: run_inv_def committed_tail_def run_tail_def)
  qed
qed

text \<open>The facts about a finished autofix.\<close>

lemma RunPipeline_applied:
  assumes run: "RunPipeline E False rq s = (Some (result, err), s')" and tr: "rsTrace s = []"
    and hp: "\<forall>provider. rqProvider rq = Some provider \<longrightarrow> honest_provider stored provider"
    and ap: "fixKind (resFix result) = fixResultApplied \<or> err = None \<and> rqKind rq = pipelineRequestAutofix"
  obtains provider gh st s1 tail where "rqProvider rq = Some provider"
    "run_inv rq stored (observed_as E rq provider) gh result st s1" "length (ghRounds gh) \<le> 10"
    "rsTrace s' = rsTrace s1 @ tail" "committed_tail rq result err st tail" "rqKind rq = pipelineRequestAutofix"
proof (cases rule: RunPipeline_cases [OF run tr hp])
  case (5 provider ex result' s1)
  have "nat (maxRounds (rqAutofix rq)) \<le> 10" using 5 by (simp add: autofix_limit)
  moreover note runAutofix_post [OF hp [rule_format, OF 5(2)] order_refl 5(7) 5(4-6)]
  ultimately show ?thesis using that [OF 5(2)] 5(1) unfolding run_post_def by fastforce
next
  case (4 ex result' s1)
  then have "fixKind (resFix result) = fixResultNone"
    by (auto simp: presentProgressiveLint_def Let_def zeroFix_def split: option.splits prod.splits)
  with ap 4(1) show ?thesis by simp
qed (use ap in \<open>auto simp: zeroFix_def zeroResult_def\<close>)

lemma run_honest: "honest_provider (\<lambda>p t. [''a'' \<mapsto> ''x''] p = Some t) run_provider"
  by (auto simp: honest_provider_def run_provider_def split: if_splits)

lemma run_start_trace [simp]: "rsTrace run_start = []"
  by (simp add: run_start_def)

lemma snapshot_finalChanges:
  "snFiles (snapshot st) = map (\<lambda>c. \<lparr>snPath = chPath c, snText = chAfter c\<rparr>) (finalChanges st)"
  by (simp add: snapshot_def finalChanges_def Let_def)

section \<open>Properties\<close>

text \<open>
  Claim C8.  A run is bounded and leaks nothing: it acquires at most eleven generations (the first
  observation and one per round), releases each acquired generation exactly once, and calls the
  committer at most once, after everything else, and only for an autofix request that carries one.
\<close>

theorem RunPipeline_bounded:
  assumes "RunPipeline E False rq s = (out, s')" and "rsTrace s = []"
  shows "length (filter is_acquire (rsTrace s')) \<le> 11 \<and>
    length (filter is_release (rsTrace s')) = length (filter is_acquire (rsTrace s')) \<and>
    length (filter is_commit (rsTrace s')) \<le> 1 \<and>
    (filter is_commit (rsTrace s') \<noteq> [] \<longrightarrow>
       is_commit (last (rsTrace s')) \<and> rqKind rq = pipelineRequestAutofix \<and> rqCommit rq \<noteq> None)"
proof -
  obtain evs tail snaps where tr: "rsTrace s' = evs @ tail" "obs_trace (plugin_mode rq) evs snaps" "length snaps \<le> 11"
    "run_tail rq snaps tail" using RunPipeline_trace [OF assms] .
  from tr(4) show ?thesis unfolding run_tail_def tr(1)
    using obs_trace_counts [OF tr(2)] tr(3) by (elim disjE exE conjE) (simp_all add: is_acquire_def is_release_def is_commit_def)
qed

theorem RunPipeline_bounded_witness:
  "length (filter is_acquire (rsTrace run_end)) \<le> 11 \<and>
   length (filter is_commit (rsTrace run_end)) \<le> 1"
  using RunPipeline_bounded [OF run_whole run_start_trace] by blast

text \<open>
  Claim C9.  The calls of a run are ordered: they are complete observations, each an acquisition and its
  release with the plugin work started and joined before the release in the concurrent mode,
  after it in the after-native mode and never inline in the progressive mode, numbered from zero; then at
  most the commit, or the baseline of a progressive lint, optionally followed by the submission of
  the deferred plugin work.
\<close>

theorem RunPipeline_ordered:
  assumes "RunPipeline E False rq s = (out, s')" and "rsTrace s = []"
  shows "\<exists>evs tail. rsTrace s' = evs @ tail \<and> obs_trace (plugin_mode rq) evs (acquisitions (rsTrace s')) \<and>
    run_tail rq (acquisitions (rsTrace s')) tail"
proof -
  obtain evs tail snaps where tr: "rsTrace s' = evs @ tail" "obs_trace (plugin_mode rq) evs snaps"
    "run_tail rq snaps tail" using RunPipeline_trace [OF assms] .
  have "acquisitions tail = []" using tr(3) by (auto simp: run_tail_def)
  then have "acquisitions (rsTrace s') = snaps" using tr(1) obs_trace_acquisitions [OF tr(2)] by simp
  with tr show ?thesis by blast
qed

theorem RunPipeline_ordered_witness:
  "\<exists>evs tail. rsTrace run_end = evs @ tail \<and>
     obs_trace PluginConcurrentJoined evs [emptySnapshot, run_snapshot] \<and>
     run_tail run_request [emptySnapshot, run_snapshot] tail"
  using RunPipeline_ordered [OF run_whole run_start_trace] by (simp add: run_end_def sample_policy_def)

text \<open>What the rounds \<open>css\<close> of an autofix are: the \<open>k\<close>-th is what \<open>planFixes\<close> makes of the complete diagnostics
  and the frozen texts of the \<open>k\<close>-th observation, over the \<open>k\<close>-th acquired snapshot; that snapshot
  overrides the stored files with what the rounds before it left; and each change starts from the text its file
  has there.\<close>

definition autofix_rounds ::
  "run_env \<Rightarrow> PipelineRequest \<Rightarrow> GenerationProvider \<Rightarrow> (string \<rightharpoonup> string) \<Rightarrow> SourceSnapshot list \<Rightarrow> FileChange list list \<Rightarrow> bool" where
  "autofix_rounds E rq provider disk snaps css \<longleftrightarrow>
     (\<forall>k < length css. k < length snaps \<and> planned_round (observed_as E rq provider) k (snaps ! k) (css ! k) \<and>
        (\<forall>c \<in> set (css ! k). foldl (++) disk (map new_texts (take k css)) (chPath c) = Some (chBefore c))) \<and>
     (\<forall>k < length snaps. k \<le> length css \<and>
        disk ++ snapshot_Text (snaps ! k) = foldl (++) disk (map new_texts (take k css)))"

lemma state_over_disk:
  assumes "rounds_of state_apply newAutofixState css = Inr st" and "map_of (af_initial st) \<subseteq>\<^sub>m disk"
  shows "disk ++ map_of (af_current st) = foldl (++) disk (map new_texts css)"
proof -
  have "af_inv st" using autofix_memory.rounds_inv [OF assms(1)] by simp
  then show ?thesis
    using autofix_memory.final_net_delta [OF assms(1) _ _ assms(2)] new_texts_finalChanges by simp
qed

lemma rounds_of_take:
  assumes "rounds_of state_apply s css = Inr st" and "af_inv s"
  shows "\<exists>st1. rounds_of state_apply s (take k css) = Inr st1 \<and> map_of (af_initial st1) \<subseteq>\<^sub>m map_of (af_initial st)"
  using assms
proof (induction css arbitrary: s k)
  case Nil
  then show ?case by simp
next
  case (Cons cs css)
  from Cons.prems(1) obtain r s1 where s1: "state_apply s cs = Inr (r, s1)" "rounds_of state_apply s1 css = Inr st"
    by (auto split: sum.splits prod.splits)
  have inv1: "af_inv s1" and base: "map_of (af_initial s) \<subseteq>\<^sub>m map_of (af_initial s1)"
    using state_apply_Inr [OF Cons.prems(2) s1(1)] by auto
  show ?case
  proof (cases k)
    case 0
    from Cons.IH [OF s1(2) inv1, of 0] have "map_of (af_initial s1) \<subseteq>\<^sub>m map_of (af_initial st)" by simp
    with base 0 show ?thesis using map_le_trans by fastforce
  next
    case (Suc m)
    from Cons.IH [OF s1(2) inv1, of m] show ?thesis using Suc s1(1) by simp
  qed
qed

lemma run_inv_rounds:
  assumes inv: "run_inv rq (\<lambda>p t. disk p = Some t) (observed_as E rq provider) gh result st s"
  shows "autofix_rounds E rq provider disk (ghSnaps gh) (ghRounds gh)"
proof -
  have rounds: "rounds_of state_apply newAutofixState (ghRounds gh) = Inr st"
    and base: "map_of (af_initial st) \<subseteq>\<^sub>m disk" and seen: "rounds_seen (\<lambda>p t. disk p = Some t) (observed_as E rq provider) gh"
    and len: "length (ghSnaps gh) \<le> length (ghRounds gh) + 1"
    using inv by (auto simp: run_inv_def base_stored_def map_le_def dom_def)
  have over: "disk ++ snapshot_Text (ghSnaps gh ! k) = foldl (++) disk (map new_texts (take k (ghRounds gh)))"
    if k: "k < length (ghSnaps gh)" for k
  proof -
    from seen k obtain st1 where st1: "rounds_of state_apply newAutofixState (take k (ghRounds gh)) = Inr st1"
      "same_snapshot (ghSnaps gh ! k) (snapshot st1)" unfolding rounds_seen_def by blast
    have "map_of (af_initial st1) \<subseteq>\<^sub>m disk"
      using rounds_of_take [OF rounds af_inv_new, of k] st1(1) base map_le_trans by fastforce
    moreover have "af_inv st1" using autofix_memory.rounds_inv [OF st1(1)] by simp
    ultimately show ?thesis
      using state_over_disk [OF st1(1)] st1(2) by (simp add: same_snapshot_def snapshot_Text_snapshot)
  qed
  have "foldl (++) disk (map new_texts (take k (ghRounds gh))) (chPath c) = Some (chBefore c)"
    if "k < length (ghRounds gh)" "c \<in> set (ghRounds gh ! k)" for k c
  proof -
    from seen that obtain texts where k: "k < length (ghSnaps gh)" and
      "texts_from (\<lambda>p t. disk p = Some t) (ghSnaps gh ! k) texts" "texts (chPath c) = Some (chBefore c)"
      unfolding rounds_seen_def by blast
    then have "case snapshot_Text (ghSnaps gh ! k) (chPath c) of
        Some u \<Rightarrow> chBefore c = u | None \<Rightarrow> disk (chPath c) = Some (chBefore c)"
      unfolding texts_from_def by blast
    then show ?thesis using over [OF k, symmetric] by (simp add: map_add_def split: option.splits)
  qed
  then show ?thesis using seen over len unfolding autofix_rounds_def rounds_seen_def by auto
qed

text \<open>
  Claim C5.  The final changes of an autofix are the net effect of its rounds.  Every reported round is what
  \<open>planFixes\<close> makes of the observation of the snapshot acquired for it; that snapshot holds the stored
  files with all earlier rounds written over them, and every change starts from the text its file has there.
  Over the stored files the final changes give what writing the changes of every round in order gives;
  there are at most ten rounds; every final change starts from the stored text of its file, changes it, and no file is
  listed twice.  The provider must read the stored text of the files that a snapshot does not override.
\<close>

theorem RunPipeline_net_delta:
  assumes "RunPipeline E False rq s = (Some (result, err), s')" and "rsTrace s = []"
    and "rqProvider rq = Some provider" and "honest_provider (\<lambda>p t. disk p = Some t) provider"
    and "fixKind (resFix result) = fixResultApplied"
  shows "\<exists>css. autofix_rounds E rq provider disk (acquisitions (rsTrace s')) css \<and>
    map (map chPath) css = map ChangedPaths (fixRounds (resFix result)) \<and>
    map (\<lambda>cs. sum_list (map chApplied cs)) css = map roundApplied (fixRounds (resFix result)) \<and> length css \<le> 10 \<and>
    disk ++ new_texts (fixFinalChanges (resFix result)) = foldl (++) disk (map new_texts css) \<and>
    distinct (map chPath (fixFinalChanges (resFix result))) \<and>
    (\<forall>c \<in> set (fixFinalChanges (resFix result)). disk (chPath c) = Some (chBefore c) \<and> chBefore c \<noteq> chAfter c)"
proof -
  have "\<forall>p. rqProvider rq = Some p \<longrightarrow> honest_provider (\<lambda>p t. disk p = Some t) p" using assms(3,4) by simp
  from RunPipeline_applied [OF assms(1,2) this disjI1 [OF assms(5)]] obtain provider' gh st s1 tail
    where prov: "rqProvider rq = Some provider'"
      and inv: "run_inv rq (\<lambda>p t. disk p = Some t) (observed_as E rq provider') gh result st s1"
      and len: "length (ghRounds gh) \<le> 10" and tr: "rsTrace s' = rsTrace s1 @ tail"
      and tail: "committed_tail rq result err st tail" by metis
  have "acquisitions tail = []" using tail by (auto simp: committed_tail_def)
  then have snaps: "acquisitions (rsTrace s') = ghSnaps gh"
    using inv tr obs_trace_acquisitions by (auto simp: run_inv_def)
  have rounds: "rounds_of state_apply newAutofixState (ghRounds gh) = Inr st"
    and base: "map_of (af_initial st) \<subseteq>\<^sub>m disk"
    using inv by (auto simp: run_inv_def base_stored_def map_le_def dom_def)
  have st: "af_inv st" using inv by (rule run_inv_state)
  have "disk ++ new_texts (finalChanges st) = foldl (++) disk (map new_texts (ghRounds gh))"
    by (rule autofix_memory.final_net_delta [OF rounds]) (simp_all add: base)
  moreover have "\<forall>c \<in> set (finalChanges st). disk (chPath c) = Some (chBefore c) \<and> chBefore c \<noteq> chAfter c"
    using finalChanges_member [OF st] base by (auto simp: map_le_def dom_def)
  moreover have "autofix_rounds E rq provider disk (acquisitions (rsTrace s')) (ghRounds gh)"
    using run_inv_rounds [OF inv] prov assms(3) snaps by simp
  ultimately show ?thesis using inv len rounds distinct_finalChanges [OF st]
    by (intro exI [of _ "ghRounds gh"]) (simp add: run_inv_def)
qed

theorem RunPipeline_net_delta_witness:
  "fixFinalChanges (resFix run_result) = [run_change] \<and> [''a'' \<mapsto> ''x''] (chPath run_change) = Some (chBefore run_change)"
proof -
  have "fixKind (resFix run_result) = fixResultApplied" by (simp add: run_result_def)
  from RunPipeline_net_delta [OF run_whole run_start_trace _ run_honest this]
  have "\<forall>c \<in> set (fixFinalChanges (resFix run_result)). [''a'' \<mapsto> ''x''] (chPath c) = Some (chBefore c)"
    unfolding run_request_simps by blast
  moreover have "fixFinalChanges (resFix run_result) = [run_change]" by (simp add: run_result_def)
  ultimately show ?thesis by simp
qed

text \<open>
  Claim C6.  A verified result was really observed: when a run reports its fixes as verified, the last
  reported observation belongs to an acquisition whose snapshot overrides exactly the finally
  changed files, each with its final text.
\<close>

theorem RunPipeline_verified:
  assumes "RunPipeline E False rq s = (Some (result, err), s')" and "rsTrace s = []"
    and "fixKind (resFix result) = fixResultApplied" and "fixVerified (resFix result)"
  shows "obsIndex (resObservation result) < length (acquisitions (rsTrace s')) \<and>
    snFiles (acquisitions (rsTrace s') ! obsIndex (resObservation result)) =
      map (\<lambda>c. \<lparr>snPath = chPath c, snText = chAfter c\<rparr>) (fixFinalChanges (resFix result))"
proof -
  from RunPipeline_applied [OF assms(1,2) all_honest disjI1 [OF assms(3)]] obtain provider gh st s1 tail
    where inv: "run_inv rq (\<lambda>_ _. True) (observed_as E rq provider) gh result st s1" and tr: "rsTrace s' = rsTrace s1 @ tail"
      and tail: "committed_tail rq result err st tail" by metis
  have "acquisitions tail = []" using tail by (auto simp: committed_tail_def)
  then have "acquisitions (rsTrace s') = ghSnaps gh" using inv tr obs_trace_acquisitions by (auto simp: run_inv_def)
  with inv assms(4) show ?thesis by (simp add: run_inv_def verified_ok_def snapshot_finalChanges)
qed

theorem RunPipeline_verified_witness:
  "snFiles (acquisitions (rsTrace run_end) ! obsIndex (resObservation run_result)) =
     [\<lparr>snPath = ''a'', snText = ''y''\<rparr>]"
proof -
  have "fixKind (resFix run_result) = fixResultApplied" "fixVerified (resFix run_result)" by (simp_all add: run_result_def)
  from RunPipeline_verified [OF run_whole run_start_trace this] show ?thesis
    by (simp add: run_result_def run_change_def)
qed

text \<open>
  Claim C7.  A successful autofix with a committer is committed completely: the committer was called exactly
  once with the final changes (or not at all when nothing changed), and every changed path is
  confirmed, in order.
\<close>

theorem RunPipeline_committed:
  assumes "RunPipeline E False rq s = (Some (result, None), s')" and "rsTrace s = []"
    and "rqKind rq = pipelineRequestAutofix" and "rqCommit rq \<noteq> None"
  shows "fixCommitted (resFix result) \<and>
    filter is_commit (rsTrace s') =
      (if fixFinalChanges (resFix result) = [] then [] else [EvCommit (fixFinalChanges (resFix result))]) \<and>
    (fixFinalChanges (resFix result) \<noteq> [] \<longrightarrow>
       fixCommittedPaths (resFix result) = map chPath (fixFinalChanges (resFix result)))"
proof -
  from RunPipeline_applied [OF assms(1,2) all_honest] assms(3) obtain provider gh st s1 tail
    where inv: "run_inv rq (\<lambda>_ _. True) (observed_as E rq provider) gh result st s1" and tr: "rsTrace s' = rsTrace s1 @ tail"
      and tail: "committed_tail rq result None st tail" by metis
  have "filter is_commit (rsTrace s1) = []" "fixFinalChanges (resFix result) = finalChanges st"
    using inv obs_trace_counts by (auto simp: run_inv_def)
  with tail tr assms(4) show ?thesis by (auto simp: committed_tail_def is_commit_def)
qed

theorem RunPipeline_committed_witness:
  "fixCommitted (resFix run_result) \<and> filter is_commit (rsTrace run_end) = [EvCommit [run_change]]"
proof -
  have "rqCommit run_request \<noteq> None" by simp
  from RunPipeline_committed [OF run_whole run_start_trace _ this] show ?thesis by (simp add: run_result_def)
qed

text \<open>
  Claim C10.  Nothing is touched by a run that may not start: with a nil context, an invalid request or a
  context that is already cancelled, the run returns an error and an empty result, and no
  generation is acquired, released or committed.
\<close>

theorem RunPipeline_rejects_untouched:
  assumes "ctxNil \<or> validate rq \<noteq> None \<or> ctxErrAt E (rsPolls s) \<noteq> None"
  shows "\<exists>e s'. RunPipeline E ctxNil rq s = (Some (zeroResult, Some e), s') \<and> quiet s s'"
proof (cases "ctxNil \<or> validate rq \<noteq> None")
  case True
  then show ?thesis by (auto simp: RunPipeline_def)
next
  case False
  then obtain provider where "rqProvider rq = Some provider" using validated [of rq] by auto
  with False assms show ?thesis by (auto simp: RunPipeline_def ctx_Err_def quiet_def)
qed

theorem RunPipeline_rejects_untouched_witness:
  "\<exists>e s'. RunPipeline (run_env0\<lparr>ctxErrAt := \<lambda>_. Some ErrCanceled\<rparr>) False run_request run_start =
     (Some (zeroResult, Some e), s') \<and> quiet run_start s'"
  by (rule RunPipeline_rejects_untouched) simp

section \<open>Deferred plugin work\<close>

lemma freeze_inputs_detached:
  "freeze_inputs E gen snap inline True cands inputs = Inr ins \<Longrightarrow> i \<in> set ins \<Longrightarrow>
     inSourceFile i = None \<and> inText i \<noteq> None"
proof (induction E gen snap inline True cands inputs arbitrary: ins rule: freeze_inputs.induct)
  case (1 E gen snap inline targetPath src cands input inputs)
  then show ?case
    by (auto simp: detachPluginInput_def split: sum.splits if_splits option.splits)
qed auto

lemma materialize_detached:
  "materializePluginTask E plan gen snap policy True = Inr task \<Longrightarrow> i \<in> set (ptInputs task) \<Longrightarrow>
     inSourceFile i = None \<and> inText i \<noteq> None"
  unfolding materializePluginTask_def
  by (auto simp: emptyPluginTask_def Let_def split: option.splits sum.splits prod.splits dest: freeze_inputs_detached)

text \<open>What a successful observation of the progressive mode returns.\<close>

definition deferred_ok :: "observationExecution \<Rightarrow> bool" where
  "deferred_ok ex \<longleftrightarrow>
     (exDeferredTask ex = None \<or> newDeferredPluginRun (the (exDeferredTask ex)) = None) \<and>
     (exDeferredTask ex \<noteq> None \<longleftrightarrow> obsPluginKind (exObservation ex) = pluginObservationProgressive)"

lemma newDeferred_ok:
  "fixCandidates task = [] \<Longrightarrow> (\<And>i. i \<in> set (ptInputs task) \<Longrightarrow> inSourceFile i = None \<and> inText i \<noteq> None) \<Longrightarrow>
     newDeferredPluginRun task = None"
  by (fastforce simp: newDeferredPluginRun_def list_ex_iff)

lemma observe_progressive_deferred:
  assumes "observe_progressive E gen plan pol task i stop lfs st = ((ex, None), st')"
    and "\<And>j. j \<in> set (ptInputs task) \<Longrightarrow> inSourceFile j = None \<and> inText j \<noteq> None"
  shows "deferred_ok ex"
  using assms newDeferred_ok [of "task\<lparr>fixCandidates := []\<rparr>"]
  by (auto simp: observe_progressive_def Let_def deferred_ok_def with_plugin_kind_def with_native_def newExecution_def
      newObservation_def split: prod.splits option.splits if_splits)

lemma executeObservation_deferred:
  assumes "polPlugin pol = pluginProgressiveAfterNative"
    and "executeObservation E provider snap pol disp i pc stop s = ((ex, None), s')"
  shows "deferred_ok ex"
proof -
  from assms(2) obtain gen plan lfs st st' where
    "observe_planned E gen snap pol disp i pc stop plan lfs st = ((ex, None), st')"
    by (auto simp: executeObservation_def observation_body_def Let_def split: sum.splits prod.splits option.splits)
  then show ?thesis using assms(1) materialize_detached
    by (auto simp: observe_planned_def Let_def emptyPluginTask_def split: if_splits sum.splits
        intro!: observe_progressive_deferred)
qed

lemma progressive_run:
  assumes run: "RunPipeline E False rq s = (Some (result, err), s')" and kind: "rqKind rq = pipelineRequestProgressiveLint"
    and valid: "validate rq = None" and live: "err = None"
  obtains provider ex s1 s2 result0 where "quiet s s1"
    "executeObservation E provider emptySnapshot (rqPolicy rq) (rqDispatcher rq) 0 False True s1 = ((ex, None), s2)"
    "resObservation result0 = exObservation ex" "presentProgressiveLint E result0 ex s2 = (Some (result, None), s')"
proof -
  obtain provider where prov: "rqProvider rq = Some provider" using validated [OF valid] by auto
  obtain ce s1 where s1: "ctx_Err E s = (ce, s1)" by fastforce
  obtain ex oe s2 where obs: "executeObservation E provider emptySnapshot (rqPolicy rq) (rqDispatcher rq) 0 False True s1 = ((ex, oe), s2)"
    by (metis prod.exhaust)
  let ?res = "mergeSuccessfulExecution ((recordPluginDispatch zeroResult ex)\<lparr>resObservation := exObservation ex\<rparr>) ex"
  have "resObservation ?res = exObservation ex" by (simp add: mergeSuccessfulExecution_def split: option.splits)
  moreover from run kind valid live prov s1 obs
  have "oe = None" "presentProgressiveLint E ?res ex s2 = (Some (result, None), s')"
    by (auto simp: RunPipeline_def Let_def split: option.splits)
  ultimately show thesis using that [OF quiet_ctx_Err [OF s1]] obs by simp
qed

text \<open>
  A progressive lint presents its baseline only after its generation is released, runs no plugin
  work itself, and submits the deferred plugin work exactly when there is some, after the
  baseline; the deferred work is always accepted, since it holds its sources inline.
\<close>

theorem progressive_lint_presented:
  assumes "RunPipeline E False rq s = (Some (result, None), s')" and "rsTrace s = []"
    and "validate rq = None" and "rqKind rq = pipelineRequestProgressiveLint"
  shows "\<exists>b. rsTrace s' = [EvAcquire emptySnapshot, EvRelease b, EvBaseline (noDiagnostics (obsNative (resObservation result)))] @
    (if obsPluginKind (resObservation result) = pluginObservationProgressive then [EvSubmit] else [])"
proof -
  obtain provider ex s1 s2 result0 where run: "quiet s s1"
    "executeObservation E provider emptySnapshot (rqPolicy rq) (rqDispatcher rq) 0 False True s1 = ((ex, None), s2)"
    "resObservation result0 = exObservation ex" "presentProgressiveLint E result0 ex s2 = (Some (result, None), s')"
    by (rule progressive_run [OF assms(1,4,3) refl])
  have mode: "polPlugin (rqPolicy rq) = pluginProgressiveAfterNative" using validated [OF assms(3)] assms(4) by auto
  have ok: "deferred_ok ex" using executeObservation_deferred [OF mode run(2)] .
  obtain b where "rsTrace s2 = [EvAcquire emptySnapshot, EvRelease b]"
    using executeObservation_segment [OF run(2)] run(1) assms(2) mode by (auto simp: observation_segment_def quiet_def)
  moreover have "resObservation result = exObservation ex \<and>
     rsTrace s' = rsTrace s2 @ EvBaseline (noDiagnostics (obsNative (exObservation ex))) #
       (if exDeferredTask ex \<noteq> None then [EvSubmit] else [])"
    using run(3,4) ok
    by (auto simp: presentProgressiveLint_def Let_def ctx_Err_def log_event_def deferred_ok_def split: option.splits if_splits)
  ultimately show ?thesis using ok by (auto simp: deferred_ok_def)
qed

definition progressive_request :: PipelineRequest where
  "progressive_request = NewProgressiveLintRequest (Some run_provider)
     \<lparr>demandNative = 1, demandPlugin = 0, demandLintedFiles = False\<rparr> True"

lemma progressive_valid: "validate progressive_request = None"
  by (simp add: validate_def progressive_request_def request_defs demand_valid_def EditDemand_IsValid_iff
      PluginExecution_valid_def PluginFailurePolicy_valid_def pluginProgressiveAfterNative_def PluginDiscardOnFailure_def)

lemma progressive_whole:
  "\<exists>result s'. RunPipeline run_env0 False progressive_request run_start = (Some (result, None), s') \<and>
     resObservation result = run_observation 0 ''x''"
proof -
  have "\<exists>s'. executeObservation run_env0 run_provider emptySnapshot (rqPolicy progressive_request) None 0 False True
      (run_start\<lparr>rsPolls := Suc (rsPolls run_start)\<rparr>) = ((run_execution 0 ''x'' False, None), s')"
    by (simp add: progressive_request_def NewProgressiveLintRequest_def observe_eval emptySnapshot_def
        observe_progressive_def run_diag_def sample_diag_def)
  moreover have "rqProvider progressive_request = Some run_provider" "rqDispatcher progressive_request = None"
    "rqKind progressive_request = pipelineRequestProgressiveLint"
    by (simp_all add: progressive_request_def NewProgressiveLintRequest_def)
  ultimately show ?thesis using progressive_valid
    by (auto simp: RunPipeline_def ctx_live presentProgressiveLint_def Let_def run_execution_def [of 0 "''x''" False]
        recordPluginDispatch_def mergeSuccessfulExecution_def split: option.splits)
qed

theorem progressive_lint_presented_witness:
  "\<exists>result s' b. RunPipeline run_env0 False progressive_request run_start = (Some (result, None), s') \<and>
     rsTrace s' = [EvAcquire emptySnapshot, EvRelease b, EvBaseline [run_diag ''x'']]"
proof -
  obtain result s' where run: "RunPipeline run_env0 False progressive_request run_start = (Some (result, None), s')"
    "resObservation result = run_observation 0 ''x''" using progressive_whole by blast
  have "rqKind progressive_request = pipelineRequestProgressiveLint"
    by (simp add: progressive_request_def NewProgressiveLintRequest_def)
  from progressive_lint_presented [OF run(1) run_start_trace progressive_valid this] run show ?thesis
    by (auto simp: run_observation_def newObservation_def)
qed

end
