(* ===== verification/Text.thy ===== *)
theory Text
  imports Prelude
begin

text \<open>
  Text as Go sees it: a string is a sequence of bytes, decoded on demand.  The functions of
  \<^verbatim>\<open>unicode/utf8\<close>, \<^verbatim>\<open>unicode\<close> and \<^verbatim>\<open>strings\<close> that the directive parsers use, and
  \<^verbatim>\<open>internal/utils/ecmascript/whitespace.go\<close>.
\<close>

section \<open>Decoding\<close>

definition RuneError :: nat where "RuneError = 0xFFFD"

text \<open>The length of the encoding that a leading byte announces and the range of its second byte.\<close>

definition lead_byte :: "nat \<Rightarrow> (nat \<times> nat \<times> nat) option" where
  "lead_byte b =
     (if 0xC2 \<le> b \<and> b \<le> 0xDF then Some (2, 0x80, 0xBF)
      else if b = 0xE0 then Some (3, 0xA0, 0xBF)
      else if b = 0xED then Some (3, 0x80, 0x9F)
      else if 0xE1 \<le> b \<and> b \<le> 0xEF then Some (3, 0x80, 0xBF)
      else if b = 0xF0 then Some (4, 0x90, 0xBF)
      else if 0xF1 \<le> b \<and> b \<le> 0xF3 then Some (4, 0x80, 0xBF)
      else if b = 0xF4 then Some (4, 0x80, 0x8F)
      else None)"

definition byte_at :: "string \<Rightarrow> nat \<Rightarrow> nat" where
  "byte_at s i = of_char (s ! i)"

definition continuation :: "nat \<Rightarrow> bool" where
  "continuation b = (0x80 \<le> b \<and> b \<le> 0xBF)"

definition DecodeRuneInString :: "string \<Rightarrow> nat \<times> nat" where
  "DecodeRuneInString s =
     (if s = [] then (RuneError, 0)
      else let b0 = byte_at s 0
           in if b0 < 0x80 then (b0, 1)
              else case lead_byte b0 of
                None \<Rightarrow> (RuneError, 1)
              | Some (n, low, high) \<Rightarrow>
                  if length s < n \<or> \<not> (low \<le> byte_at s 1 \<and> byte_at s 1 \<le> high) then (RuneError, 1)
                  else if n = 2 then ((b0 - 0xC0) * 64 + (byte_at s 1 - 0x80), 2)
                  else if \<not> continuation (byte_at s 2) then (RuneError, 1)
                  else if n = 3
                  then ((b0 - 0xE0) * 4096 + (byte_at s 1 - 0x80) * 64 + (byte_at s 2 - 0x80), 3)
                  else if \<not> continuation (byte_at s 3) then (RuneError, 1)
                  else ((b0 - 0xF0) * 262144 + (byte_at s 1 - 0x80) * 4096 + (byte_at s 2 - 0x80) * 64
                          + (byte_at s 3 - 0x80), 4))"

text \<open>The backward search of \<open>DecodeLastRuneInString\<close> for a byte that starts a rune.\<close>

fun last_start :: "string \<Rightarrow> nat \<Rightarrow> nat \<Rightarrow> nat" where
  "last_start s 0 start = start"
| "last_start s (Suc k) start =
     (if start = 0 then 0
      else if \<not> continuation (byte_at s (start - 1)) then start - 1
      else last_start s k (start - 1))"

definition DecodeLastRuneInString :: "string \<Rightarrow> nat \<times> nat" where
  "DecodeLastRuneInString s =
     (if s = [] then (RuneError, 0)
      else let stop = length s; b = byte_at s (stop - 1)
           in if b < 0x80 then (b, 1)
              else let start = last_start s 3 (stop - 1);
                       (r, n) = DecodeRuneInString (drop start s)
                   in if start + n \<noteq> stop then (RuneError, 1) else (r, n))"

lemma lead_byte_size: "lead_byte b = Some (n, low, high) \<Longrightarrow> 2 \<le> n \<and> n \<le> 4"
  by (auto simp: lead_byte_def split: if_splits)

lemma DecodeRune_size:
  assumes "DecodeRuneInString s = (r, n)" and "s \<noteq> []"
  shows "0 < n \<and> n \<le> length s \<and> n \<le> 4"
proof -
  have "Suc 0 \<le> length s" using assms(2) by (cases s) simp_all
  then show ?thesis
    using assms by (auto simp: DecodeRuneInString_def Let_def split: if_splits option.splits dest!: lead_byte_size)
qed

lemma DecodeLastRune_size:
  assumes "DecodeLastRuneInString s = (r, n)" and "s \<noteq> []"
  shows "0 < n \<and> n \<le> length s"
proof (cases "byte_at s (length s - 1) < 0x80")
  case True
  moreover have "Suc 0 \<le> length s" using assms(2) by (cases s) simp_all
  ultimately show ?thesis using assms by (auto simp: DecodeLastRuneInString_def Let_def split: if_splits)
next
  case False
  let ?start = "last_start s 3 (length s - 1)"
  obtain r' n' where d: "DecodeRuneInString (drop ?start s) = (r', n')" by fastforce
  with False assms have "n = 1 \<or> n = n' \<and> ?start + n' = length s"
    by (auto simp: DecodeLastRuneInString_def Let_def split: if_splits)
  moreover have "?start < length s"
  proof -
    have le: "last_start s k m \<le> m" for k m by (induction s k m rule: last_start.induct) auto
    then have "?start \<le> length s - 1" .
    moreover have "0 < length s" using assms(2) by simp
    ultimately show ?thesis by linarith
  qed
  ultimately show ?thesis using assms(2) DecodeRune_size [OF d] by (auto simp: Suc_le_eq)
qed

lemma DecodeRune_ascii: "of_char c < (0x80 :: nat) \<Longrightarrow> DecodeRuneInString (c # s) = (of_char c, 1)"
  by (simp add: DecodeRuneInString_def byte_at_def)

section \<open>White space\<close>

text \<open>\<open>unicode.Zs\<close>, the space separators.\<close>

definition is_Zs :: "nat \<Rightarrow> bool" where
  "is_Zs r = (r = 0x20 \<or> r = 0xA0 \<or> r = 0x1680 \<or> (0x2000 \<le> r \<and> r \<le> 0x200A) \<or> r = 0x202F \<or> r = 0x205F \<or> r = 0x3000)"

text \<open>\<open>unicode.IsSpace\<close>, the property \<open>White_Space\<close>.\<close>

definition unicode_IsSpace :: "nat \<Rightarrow> bool" where
  "unicode_IsSpace r = ((0x09 \<le> r \<and> r \<le> 0x0D) \<or> r = 0x85 \<or> r = 0x2028 \<or> r = 0x2029 \<or> is_Zs r)"

definition IsLineTerminator :: "nat \<Rightarrow> bool" where
  "IsLineTerminator r = (r = 0x0A \<or> r = 0x0D \<or> r = 0x2028 \<or> r = 0x2029)"

definition IsWhiteSpace :: "nat \<Rightarrow> bool" where
  "IsWhiteSpace r = (r = 0x09 \<or> r = 0x0B \<or> r = 0x0C \<or> r = 0xFEFF \<or> is_Zs r)"

definition IsWhiteSpaceOrLineTerminator :: "nat \<Rightarrow> bool" where
  "IsWhiteSpaceOrLineTerminator r = (IsWhiteSpace r \<or> IsLineTerminator r)"

lemma ES_space_none [simp]:
  "\<not> IsWhiteSpaceOrLineTerminator 42" "\<not> IsWhiteSpaceOrLineTerminator 47" "\<not> IsWhiteSpaceOrLineTerminator RuneError"
  by (simp_all add: IsWhiteSpaceOrLineTerminator_def IsWhiteSpace_def IsLineTerminator_def is_Zs_def RuneError_def)

section \<open>Trimming\<close>

text \<open>The number of bytes of the longest prefix and suffix of runes with a property.\<close>

function ltrim_len :: "(nat \<Rightarrow> bool) \<Rightarrow> string \<Rightarrow> nat" where
  "ltrim_len P s =
     (if s = [] then 0
      else let (r, n) = DecodeRuneInString s in if P r then n + ltrim_len P (drop n s) else 0)"
  by pat_completeness auto
termination
  by (relation "measure (\<lambda>(P, s). length s)") (auto dest!: DecodeRune_size [OF sym])

function rtrim_len :: "(nat \<Rightarrow> bool) \<Rightarrow> string \<Rightarrow> nat" where
  "rtrim_len P s =
     (if s = [] then 0
      else let (r, n) = DecodeLastRuneInString s in if P r then n + rtrim_len P (take (length s - n) s) else 0)"
  by pat_completeness auto
termination
  by (relation "measure (\<lambda>(P, s). length s)") (auto dest!: DecodeLastRune_size [OF sym])

declare ltrim_len.simps [simp del] rtrim_len.simps [simp del]

definition TrimFunc :: "(nat \<Rightarrow> bool) \<Rightarrow> string \<Rightarrow> string" where
  "TrimFunc P s = (let t = drop (ltrim_len P s) s in take (length t - rtrim_len P t) t)"

definition TrimSpace :: "string \<Rightarrow> string" where
  "TrimSpace = TrimFunc unicode_IsSpace"

definition StringTrim :: "string \<Rightarrow> string" where
  "StringTrim = TrimFunc IsWhiteSpaceOrLineTerminator"

function IsBlank :: "string \<Rightarrow> bool" where
  "IsBlank s =
     (if s = [] then True
      else let (r, n) = DecodeRuneInString s in IsWhiteSpaceOrLineTerminator r \<and> IsBlank (drop n s))"
  by pat_completeness auto
termination
  by (relation "measure length") (auto dest!: DecodeRune_size [OF sym])

declare IsBlank.simps [simp del]

lemma ltrim_len_le: "ltrim_len P s \<le> length s"
proof (induction P s rule: ltrim_len.induct)
  case (1 P s)
  show ?case
  proof (cases "s = []")
    case False
    obtain r n where d: "DecodeRuneInString s = (r, n)" by fastforce
    with 1 [OF False d [symmetric]] DecodeRune_size [OF d False] False show ?thesis
      by (subst ltrim_len.simps) auto
  qed (simp add: ltrim_len.simps)
qed

lemma rtrim_len_le: "rtrim_len P s \<le> length s"
proof (induction P s rule: rtrim_len.induct)
  case (1 P s)
  show ?case
  proof (cases "s = []")
    case False
    obtain r n where d: "DecodeLastRuneInString s = (r, n)" by fastforce
    with 1 [OF False d [symmetric]] DecodeLastRune_size [OF d False] False show ?thesis
      by (subst rtrim_len.simps) auto
  qed (simp add: rtrim_len.simps)
qed

text \<open>A trimmed string is a contiguous part of the string.\<close>

lemma TrimFunc_part: "\<exists>a b. s = a @ TrimFunc P s @ b"
proof -
  let ?t = "drop (ltrim_len P s) s"
  have "?t = TrimFunc P s @ drop (length ?t - rtrim_len P ?t) ?t"
    unfolding TrimFunc_def Let_def by (rule append_take_drop_id [symmetric])
  then have "s = take (ltrim_len P s) s @ TrimFunc P s @ drop (length ?t - rtrim_len P ?t) ?t"
    by (metis append_take_drop_id)
  then show ?thesis by blast
qed

lemma ltrim_len_drop:
  assumes "drop (ltrim_len P s) s \<noteq> []"
  shows "\<not> P (fst (DecodeRuneInString (drop (ltrim_len P s) s)))"
  using assms
proof (induction P s rule: ltrim_len.induct)
  case (1 P s)
  then have ne: "s \<noteq> []" by auto
  obtain r n where d: "DecodeRuneInString s = (r, n)" by fastforce
  show ?case
  proof (cases "P r")
    case True
    then have e: "ltrim_len P s = n + ltrim_len P (drop n s)" using ne d by (subst ltrim_len.simps) simp
    then have "drop (ltrim_len P s) s = drop (ltrim_len P (drop n s)) (drop n s)" by (simp add: add.commute)
    with 1 ne d True show ?thesis by auto
  next
    case False
    then have "ltrim_len P s = 0" using ne d by (subst ltrim_len.simps) simp
    with d False show ?thesis by simp
  qed
qed

text \<open>\<open>IsBlank\<close> is the question whether trimming leaves nothing.\<close>

lemma IsBlank_iff: "IsBlank s \<longleftrightarrow> ltrim_len IsWhiteSpaceOrLineTerminator s = length s"
proof (induction s rule: IsBlank.induct)
  case (1 s)
  show ?case
  proof (cases "s = []")
    case True
    then show ?thesis by (simp add: IsBlank.simps ltrim_len.simps)
  next
    case False
    obtain r n where d: "DecodeRuneInString s = (r, n)" by fastforce
    note n = DecodeRune_size [OF d False]
    from d False have "IsBlank s \<longleftrightarrow> IsWhiteSpaceOrLineTerminator r \<and> IsBlank (drop n s)"
      by (subst IsBlank.simps) simp
    moreover from d False have "ltrim_len IsWhiteSpaceOrLineTerminator s =
        (if IsWhiteSpaceOrLineTerminator r then n + ltrim_len IsWhiteSpaceOrLineTerminator (drop n s) else 0)"
      by (subst ltrim_len.simps) simp
    ultimately show ?thesis using 1 [OF False d [symmetric]] n False by auto
  qed
qed

section \<open>Decoding in context\<close>

lemma byte_at_append: "i < length u \<Longrightarrow> byte_at (u @ v) i = byte_at u i"
  by (simp add: byte_at_def nth_append)

lemma byte_at_take: "i < k \<Longrightarrow> byte_at (take k s) i = byte_at s i"
  by (simp add: byte_at_def)

lemma byte_at_drop: "a \<le> b \<Longrightarrow> a \<le> length s \<Longrightarrow> byte_at (drop a s) (b - a) = byte_at s b"
  by (simp add: byte_at_def)

text \<open>The bytes of a rune after the first are not ASCII.\<close>

lemma DecodeRune_cont:
  assumes "DecodeRuneInString s = (r, n)" and "0 < d" and "d < n"
  shows "0x80 \<le> byte_at s d"
proof -
  have lead: "lead_byte b = Some (k, low, high) \<Longrightarrow> 0x80 \<le> low" for b k low high
    by (auto simp: lead_byte_def split: if_splits)
  have "d = 1 \<or> d = 2 \<or> d = 3" using assms DecodeRune_size [OF assms(1)]
    by (cases "s = []") (auto simp: DecodeRuneInString_def)
  then show ?thesis
    using assms(1,3)
    by (elim disjE)
       (auto simp: DecodeRuneInString_def Let_def continuation_def split: if_splits option.splits dest: lead)
qed

text \<open>A rune that is decoded properly is decoded in the same way when more text follows.\<close>

lemma DecodeRune_extend:
  assumes "DecodeRuneInString u = (r, n)" and "r \<noteq> RuneError"
  shows "DecodeRuneInString (u @ v) = (r, n)"
proof -
  have ne: "u \<noteq> []" using assms by (auto simp: DecodeRuneInString_def)
  show ?thesis
  proof (cases "byte_at u 0 < 0x80")
    case True
    then show ?thesis using assms ne by (simp add: DecodeRuneInString_def byte_at_append)
  next
    case False
    then obtain k low high where l: "lead_byte (byte_at u 0) = Some (k, low, high)"
      using assms ne by (cases "lead_byte (byte_at u 0)") (auto simp: DecodeRuneInString_def Let_def)
    have "k \<le> length u" using False assms ne l by (auto simp: DecodeRuneInString_def Let_def split: if_splits)
    moreover have "2 \<le> k" "k \<le> 4" using lead_byte_size [OF l] by simp_all
    ultimately have b: "byte_at (u @ v) 0 = byte_at u 0" "byte_at (u @ v) 1 = byte_at u 1"
      "k \<noteq> 2 \<Longrightarrow> byte_at (u @ v) 2 = byte_at u 2" "k \<noteq> 2 \<Longrightarrow> k \<noteq> 3 \<Longrightarrow> byte_at (u @ v) 3 = byte_at u 3"
      "\<not> length (u @ v) < k"
      by (auto intro!: byte_at_append)
    show ?thesis
      using assms False ne l b \<open>k \<le> length u\<close>
      by (auto simp: DecodeRuneInString_def Let_def split: if_splits)
  qed
qed

text \<open>Cutting a text before an ASCII byte does not change how its first rune is decoded.\<close>

lemma DecodeRune_take:
  assumes "0 < k" and "k < length s" and "byte_at s k < 0x80"
  shows "DecodeRuneInString (take k s) = DecodeRuneInString s"
proof -
  have ne: "s \<noteq> []" "take k s \<noteq> []" using assms by auto
  have b0: "byte_at (take k s) 0 = byte_at s 0" using assms(1) by (rule byte_at_take)
  show ?thesis
  proof (cases "lead_byte (byte_at s 0)")
    case None
    then show ?thesis using ne b0 by (simp add: DecodeRuneInString_def Let_def)
  next
    case (Some z)
    then obtain m low high where l: "lead_byte (byte_at s 0) = Some (m, low, high)" by (cases z) auto
    have sz: "2 \<le> m" "m \<le> 4" "0x80 \<le> low" using l by (auto simp: lead_byte_def split: if_splits)
    have len: "length (take k s) = k" using assms(2) by simp
    show ?thesis
    proof (cases "k < m")
      case False
      then have "byte_at (take k s) 1 = byte_at s 1" "m \<noteq> 2 \<Longrightarrow> byte_at (take k s) 2 = byte_at s 2"
          "m \<noteq> 2 \<Longrightarrow> m \<noteq> 3 \<Longrightarrow> byte_at (take k s) 3 = byte_at s 3"
        using sz by (auto intro!: byte_at_take)
      then show ?thesis using ne b0 l False assms(2) len sz
        by (simp add: DecodeRuneInString_def Let_def)
    next
      case True
      then have "DecodeRuneInString (take k s) = (if byte_at s 0 < 0x80 then (byte_at s 0, 1) else (RuneError, 1))"
        using ne b0 l len by (simp add: DecodeRuneInString_def Let_def)
      moreover have "k = 1 \<or> k = 2 \<or> k = 3" using True assms(1) sz by linarith
      then have "DecodeRuneInString s = (if byte_at s 0 < 0x80 then (byte_at s 0, 1) else (RuneError, 1))"
        using ne l assms(3) sz True
        by (elim disjE) (auto simp: DecodeRuneInString_def Let_def continuation_def)
      ultimately show ?thesis by simp
    qed
  qed
qed

text \<open>Trimming from the left never passes an ASCII byte without the property.\<close>

lemma ltrim_len_stop:
  assumes "d < length s" and "byte_at s d < 0x80" and "\<not> P (byte_at s d)"
  shows "ltrim_len P s \<le> d"
  using assms
proof (induction P s arbitrary: d rule: ltrim_len.induct)
  case (1 P s)
  then have ne: "s \<noteq> []" by auto
  obtain r n where dec: "DecodeRuneInString s = (r, n)" by fastforce
  show ?case
  proof (cases "P r")
    case False
    then show ?thesis using ne dec by (subst ltrim_len.simps) simp
  next
    case True
    have "n \<le> d"
    proof (rule ccontr)
      assume "\<not> n \<le> d"
      then have "d = 0" using DecodeRune_cont [OF dec, of d] 1(3) by (cases d) auto
      then have "r = byte_at s d" using dec ne 1(3) by (simp add: DecodeRuneInString_def)
      with True 1(4) show False by simp
    qed
    moreover have "byte_at (drop n s) (d - n) = byte_at s d" using \<open>n \<le> d\<close> 1(2) by (simp add: byte_at_def)
    ultimately have "ltrim_len P (drop n s) \<le> d - n"
      using 1(1) [OF ne dec [symmetric] refl True, of "d - n"] 1(2-4) by simp
    then show ?thesis using ne dec True \<open>n \<le> d\<close> by (subst ltrim_len.simps) simp
  qed
qed

lemma ltrim_len_take:
  assumes "k < length s" and "byte_at s k < 0x80" and "\<not> P (byte_at s k)"
  shows "ltrim_len P (take k s) = ltrim_len P s"
  using assms
proof (induction P s arbitrary: k rule: ltrim_len.induct)
  case (1 P s)
  then have ne: "s \<noteq> []" by auto
  show ?case
  proof (cases "k = 0")
    case True
    then show ?thesis using ltrim_len_stop [of k s P] 1(2-4) by (simp add: ltrim_len.simps [of P "[]"])
  next
    case False
    obtain r n where dec: "DecodeRuneInString s = (r, n)" by fastforce
    have dec': "DecodeRuneInString (take k s) = (r, n)" using DecodeRune_take [of k s] False 1(2,3) dec by simp
    have ne': "take k s \<noteq> []" using ne False by simp
    show ?thesis
    proof (cases "P r")
      case True
      have "n \<le> k" using DecodeRune_size [OF dec' ne'] by simp
      then have "byte_at (drop n s) (k - n) = byte_at s k" using 1(2) by (simp add: byte_at_def)
      with 1(1) [OF ne dec [symmetric] refl True, of "k - n"] 1(2-4) \<open>n \<le> k\<close>
      have "ltrim_len P (take (k - n) (drop n s)) = ltrim_len P (drop n s)" by simp
      moreover have "take (k - n) (drop n s) = drop n (take k s)" by (simp add: drop_take)
      ultimately show ?thesis using dec dec' ne ne' True
        by (subst ltrim_len.simps, subst (2) ltrim_len.simps) simp
    next
      case False
      then show ?thesis using dec dec' ne ne' by (subst ltrim_len.simps, subst (2) ltrim_len.simps) simp
    qed
  qed
qed

text \<open>What trimming removed on the right starts with a rune that has the property.\<close>

lemma rtrim_len_step:
  "s \<noteq> [] \<Longrightarrow> DecodeLastRuneInString s = (r, n) \<Longrightarrow>
     rtrim_len P s = (if P r then n + rtrim_len P (take (length s - n) s) else 0)"
  by (subst rtrim_len.simps) simp

lemma DecodeLastRune_start:
  assumes "DecodeLastRuneInString s = (r, n)" and "r \<noteq> RuneError"
  shows "DecodeRuneInString (drop (length s - n) s) = (r, n)"
proof -
  have ne: "s \<noteq> []" using assms by (auto simp: DecodeLastRuneInString_def)
  show ?thesis
  proof (cases "byte_at s (length s - 1) < 0x80")
    case True
    then have "r = byte_at s (length s - 1)" "n = 1" using assms ne by (auto simp: DecodeLastRuneInString_def Let_def)
    moreover have "drop (length s - 1) s \<noteq> []" "byte_at (drop (length s - 1) s) 0 = byte_at s (length s - 1)"
      using ne by (cases s; simp add: byte_at_def)+
    ultimately show ?thesis using True by (simp add: DecodeRuneInString_def)
  next
    case False
    let ?start = "last_start s 3 (length s - 1)"
    obtain r' n' where d: "DecodeRuneInString (drop ?start s) = (r', n')" by fastforce
    have "r = r'" "n = n'" "?start + n' = length s"
      using False assms ne d by (auto simp: DecodeLastRuneInString_def Let_def split: if_splits)
    then show ?thesis using d by (metis add_diff_cancel_right')
  qed
qed

lemma rtrim_len_head:
  assumes "0 < rtrim_len P s" and "\<not> P RuneError"
  shows "P (fst (DecodeRuneInString (drop (length s - rtrim_len P s) s)))"
  using assms
proof (induction P s rule: rtrim_len.induct)
  case (1 P s)
  then have ne: "s \<noteq> []" by (auto simp: rtrim_len.simps)
  obtain r n where dec: "DecodeLastRuneInString s = (r, n)" by fastforce
  let ?u = "take (length s - n) s"
  have P: "P r" and len: "rtrim_len P s = n + rtrim_len P ?u"
    using 1(2) rtrim_len_step [OF ne dec, of P] by (auto split: if_splits)
  have n: "n \<le> length s" using DecodeLastRune_size [OF dec ne] by simp
  show ?case
  proof (cases "rtrim_len P ?u = 0")
    case True
    have "r \<noteq> RuneError" using P 1(3) by auto
    then show ?thesis using DecodeLastRune_start [OF dec] P len True by simp
  next
    case False
    let ?k = "length ?u - rtrim_len P ?u"
    have "P (fst (DecodeRuneInString (drop ?k ?u)))" using 1(1) [OF ne dec [symmetric] refl P] False 1(3) by simp
    moreover obtain r' n' where d: "DecodeRuneInString (drop ?k ?u) = (r', n')" by fastforce
    ultimately have "r' \<noteq> RuneError" using 1(3) by auto
    from DecodeRune_extend [OF d this, of "drop (length s - n) s"]
    have ext: "DecodeRuneInString (drop ?k ?u @ drop (length s - n) s) = (r', n')" .
    have "k \<le> length u \<Longrightarrow> drop k u @ w = drop k (u @ w)" for k and u w :: string by simp
    from this [of ?k ?u "drop (length s - n) s"]
    have "drop ?k ?u @ drop (length s - n) s = drop ?k (?u @ drop (length s - n) s)" by linarith
    also have "\<dots> = drop ?k s" by (simp only: append_take_drop_id)
    finally have "DecodeRuneInString (drop ?k s) = (r', n')" using ext by simp
    moreover have "?k = length s - rtrim_len P s" using len n by simp
    ultimately show ?thesis using \<open>P (fst (DecodeRuneInString (drop ?k ?u)))\<close> d by simp
  qed
qed

end
