(* ===== verification/Directives.thy ===== *)
theory Directives
  imports Text
begin

text \<open>
  Suppression of diagnostics by comments: \<^verbatim>\<open>internal/rule/comment_store.go\<close> and
  \<^verbatim>\<open>internal/rule/disable_manager.go\<close>.

  The comments of a file come from the scanner of typescript-go; \<open>scan\<close> stands for what
  \<open>utils.ForEachComment\<close> reports, in any order and possibly with repetitions.  \<open>lineCol\<close> stands for
  \<open>scanner.GetECMALineAndUTF16CharacterOfPosition\<close> of the file.  An out-of-range slice
  is a panic, the value \<^term>\<open>None\<close>.
\<close>

section \<open>Comments\<close>

datatype CommentKind = KindSingleLineCommentTrivia | KindMultiLineCommentTrivia | KindOther

record CommentRange =
  cKind :: CommentKind
  cPos :: nat
  cEnd :: nat

definition slash :: char where "slash = CHR ''/''"

text \<open>The scan for a slash that starts a comment; the argument is \<open>text[searchStart:]\<close>.\<close>

fun mayContainComment :: "string \<Rightarrow> bool" where
  "mayContainComment [] = False"
| "mayContainComment (c # cs) =
     (if c \<noteq> slash then mayContainComment cs
      else if cs \<noteq> [] \<and> (hd cs = slash \<or> hd cs = CHR ''*'') then True
      else mayContainComment cs)"

definition cmp_pos :: "CommentRange \<Rightarrow> CommentRange \<Rightarrow> int" where
  "cmp_pos a b = int (cPos a) - int (cPos b)"

definition same_range :: "CommentRange \<Rightarrow> CommentRange \<Rightarrow> bool" where
  "same_range a b = (cPos a = cPos b \<and> cEnd a = cEnd b)"

text \<open>\<open>slices.CompactFunc\<close> keeps the first of every run of equal elements.\<close>

fun compact_func :: "('a \<Rightarrow> 'a \<Rightarrow> bool) \<Rightarrow> 'a list \<Rightarrow> 'a list" where
  "compact_func eq [] = []"
| "compact_func eq [x] = [x]"
| "compact_func eq (x # y # xs) = (if eq x y then compact_func eq (x # xs) else x # compact_func eq (y # xs))"

record CommentStore =
  csSourceFile :: "string option"
  csComments :: "CommentRange list"
  csScanned :: bool

definition NewCommentStore :: "string option \<Rightarrow> CommentStore" where
  "NewCommentStore sourceFile = \<lparr>csSourceFile = sourceFile, csComments = [], csScanned = False\<rparr>"

text \<open>\<open>All\<close> on a store that may be nil.\<close>

definition store_All ::
  "(string \<Rightarrow> CommentRange list) \<Rightarrow> CommentStore option \<Rightarrow> CommentRange list \<times> CommentStore option" where
  "store_All scan store =
     (case store of
        None \<Rightarrow> ([], None)
      | Some s \<Rightarrow>
          if csScanned s then (csComments s, Some s)
          else (let s = s\<lparr>csScanned := True\<rparr>
                in case csSourceFile s of
                     None \<Rightarrow> ([], Some s)
                   | Some txt \<Rightarrow>
                       if \<not> mayContainComment txt then ([], Some s)
                       else (let comments = compact_func same_range (sort_cmp cmp_pos (csComments s @ scan txt))
                             in (comments, Some (s\<lparr>csComments := comments\<rparr>)))))"

section \<open>Directives\<close>

record blockDirective =
  bdLine :: int
  bdColumn :: int
  isDisable :: bool
  bdRules :: "string list"

datatype directiveKind = directiveNone | directiveBlock | directiveEnable | directiveLine | directiveNextLine

definition directivePrefixes :: "(string \<times> string) list" where
  "directivePrefixes = [(''rslint-disable'', ''rslint-enable''), (''eslint-disable'', ''eslint-enable'')]"

definition parseRuleNames :: "string \<Rightarrow> string list" where
  "parseRuleNames rulesStr =
     (let rulesStr = (case str_index rulesStr '' -- '' of None \<Rightarrow> rulesStr | Some idx \<Rightarrow> take idx rulesStr);
          rulesStr = TrimSpace rulesStr
      in if rulesStr = [] then []
         else filter (\<lambda>r. r \<noteq> []) (map TrimSpace (str_split (CHR '','') rulesStr)))"

fun match_prefixes :: "string \<Rightarrow> (string \<times> string) list \<Rightarrow> directiveKind \<times> string list" where
  "match_prefixes commentContent [] = (directiveNone, [])"
| "match_prefixes commentContent ((disable, enable) # ps) =
     (if has_prefix commentContent disable
      then (let rest = drop (length disable) commentContent
            in if has_prefix rest ''-line'' then (directiveLine, parseRuleNames (drop 5 rest))
               else if has_prefix rest ''-next-line'' then (directiveNextLine, parseRuleNames (drop 10 rest))
               else (directiveBlock, parseRuleNames rest))
      else if has_prefix commentContent enable
      then (directiveEnable, parseRuleNames (drop (length enable) commentContent))
      else match_prefixes commentContent ps)"

definition matchDirective :: "string \<Rightarrow> directiveKind \<times> string list" where
  "matchDirective commentContent = match_prefixes commentContent directivePrefixes"

record DisableManager =
  dmSourceFile :: "string option"
  dmComments :: "CommentStore option"
  dmParsed :: bool
  blockDirectives :: "blockDirective list"
  lineDisabledRules :: "(int \<times> string list) list"
  nextLineDisabledRules :: "(int \<times> string list) list"

definition NewDisableManager :: "string option \<Rightarrow> CommentStore option \<Rightarrow> DisableManager" where
  "NewDisableManager sourceFile comments =
     \<lparr>dmSourceFile = sourceFile, dmComments = comments, dmParsed = False, blockDirectives = [],
      lineDisabledRules = [], nextLineDisabledRules = []\<rparr>"

text \<open>The text of a comment; the inner \<^term>\<open>None\<close> is the \<open>continue\<close> of other kinds.\<close>

definition comment_content :: "string \<Rightarrow> CommentRange \<Rightarrow> string option option" where
  "comment_content txt comment =
     (case cKind comment of
        KindSingleLineCommentTrivia \<Rightarrow>
          map_option (\<lambda>c. Some (TrimSpace c)) (go_slice txt (int (cPos comment) + 2) (int (cEnd comment)))
      | KindMultiLineCommentTrivia \<Rightarrow>
          map_option (\<lambda>c. Some (TrimSpace c)) (go_slice txt (int (cPos comment) + 2) (int (cEnd comment) - 2))
      | KindOther \<Rightarrow> Some None)"

definition add_line :: "int \<Rightarrow> string list \<Rightarrow> (int \<times> string list) list \<Rightarrow> (int \<times> string list) list" where
  "add_line line rules m =
     al_update line ((case map_of m line of None \<Rightarrow> [] | Some rs \<Rightarrow> rs) @ (if rules = [] then [''*''] else rules)) m"

definition add_directive :: "directiveKind \<Rightarrow> string list \<Rightarrow> int \<Rightarrow> int \<Rightarrow> DisableManager \<Rightarrow> DisableManager" where
  "add_directive kind rules lineNum columnNum dm =
     (case kind of
        directiveNone \<Rightarrow> dm
      | directiveLine \<Rightarrow> dm\<lparr>lineDisabledRules := add_line lineNum rules (lineDisabledRules dm)\<rparr>
      | directiveNextLine \<Rightarrow> dm\<lparr>nextLineDisabledRules := add_line (lineNum + 1) rules (nextLineDisabledRules dm)\<rparr>
      | directiveBlock \<Rightarrow>
          dm\<lparr>blockDirectives := blockDirectives dm @
             [\<lparr>bdLine = lineNum, bdColumn = columnNum, isDisable = True, bdRules = rules\<rparr>]\<rparr>
      | directiveEnable \<Rightarrow>
          dm\<lparr>blockDirectives := blockDirectives dm @
             [\<lparr>bdLine = lineNum, bdColumn = columnNum, isDisable = False, bdRules = rules\<rparr>]\<rparr>)"

fun parse_comments ::
  "(nat \<Rightarrow> int \<times> int) \<Rightarrow> string \<Rightarrow> CommentRange list \<Rightarrow> DisableManager \<Rightarrow> DisableManager option" where
  "parse_comments lineCol txt [] dm = Some dm"
| "parse_comments lineCol txt (comment # comments) dm =
     (case comment_content txt comment of
        None \<Rightarrow> None
      | Some None \<Rightarrow> parse_comments lineCol txt comments dm
      | Some (Some commentContent) \<Rightarrow>
          (let (kind, rules) = matchDirective commentContent
           in if kind = directiveNone then parse_comments lineCol txt comments dm
              else (let (lineNum, columnNum) = lineCol (cPos comment)
                    in parse_comments lineCol txt comments (add_directive kind rules lineNum columnNum dm))))"

definition parseDirectives ::
  "(nat \<Rightarrow> int \<times> int) \<Rightarrow> CommentRange list \<Rightarrow> string \<Rightarrow> DisableManager \<Rightarrow> DisableManager option" where
  "parseDirectives lineCol comments txt dm =
     (if txt = [] \<or> length comments = 0 then Some dm else parse_comments lineCol txt comments dm)"

text \<open>\<open>mayContainDisableDirective\<close>: \<open>seen\<close> is \<open>text[:searchStart]\<close>, the argument the rest.\<close>

definition marker :: string where "marker = ''lint-''"

definition marked :: "string \<Rightarrow> string \<Rightarrow> bool" where
  "marked prefix rest =
     ((prefix = ''rs'' \<or> prefix = ''es'') \<and> (has_prefix rest ''disable'' \<or> has_prefix rest ''enable''))"

lemma str_index_step:
  assumes "str_index s sub = Some i" and "sub \<noteq> []"
  shows "i + length sub \<le> length s"
proof -
  from str_index_Some_prefix [OF assms(1)] obtain r where "drop i s = sub @ r" and "i \<le> length s"
    by (auto simp: has_prefix_iff)
  then have "length s - i = length sub + length r" by (metis length_append length_drop)
  with \<open>i \<le> length s\<close> show ?thesis by linarith
qed

function may_disable :: "string \<Rightarrow> nat \<Rightarrow> bool" where
  "may_disable txt searchStart =
     (if searchStart < length txt
      then (case str_index (drop searchStart txt) marker of
              None \<Rightarrow> False
            | Some offset \<Rightarrow>
                (let start = searchStart + offset
                 in if start \<ge> 2 \<and> marked (take 2 (drop (start - 2) txt)) (drop (start + length marker) txt) then True
                    else may_disable txt (start + length marker)))
      else False)"
  by pat_completeness auto
termination
  by (relation "measure (\<lambda>(txt, i). length txt - i)") (auto simp: marker_def)

declare may_disable.simps [simp del]

definition mayContainDisableDirective :: "string \<Rightarrow> bool" where
  "mayContainDisableDirective txt = may_disable txt 0"

definition ensureParsed ::
  "(string \<Rightarrow> CommentRange list) \<Rightarrow> (nat \<Rightarrow> int \<times> int) \<Rightarrow> DisableManager \<Rightarrow> DisableManager option" where
  "ensureParsed scan lineCol dm =
     (if dmParsed dm then Some dm
      else (let dm = dm\<lparr>dmParsed := True\<rparr>
            in case dmSourceFile dm of
                 None \<Rightarrow> Some dm
               | Some txt \<Rightarrow>
                   if \<not> mayContainDisableDirective txt then Some dm
                   else (let (comments, store) = store_All scan (dmComments dm)
                         in parseDirectives lineCol comments txt (dm\<lparr>dmComments := store\<rparr>))))"

section \<open>The question\<close>

text \<open>The replay of \<open>isBlockDisabled\<close>; the state is \<open>allDisabled\<close>, \<open>ruleDisabled\<close>, \<open>hasRuleSpecific\<close>.\<close>

fun replay ::
  "string \<Rightarrow> int \<Rightarrow> int \<Rightarrow> bool \<times> bool \<times> bool \<Rightarrow> blockDirective list \<Rightarrow> bool \<times> bool \<times> bool" where
  "replay ruleName line column st [] = st"
| "replay ruleName line column (allDisabled, ruleDisabled, hasRuleSpecific) (d # ds) =
     (if bdLine d > line \<or> (bdLine d = line \<and> bdColumn d > column)
      then (allDisabled, ruleDisabled, hasRuleSpecific)
      else if length (bdRules d) = 0 then replay ruleName line column (isDisable d, ruleDisabled, False) ds
      else if ruleName \<in> set (bdRules d) then replay ruleName line column (allDisabled, isDisable d, True) ds
      else replay ruleName line column (allDisabled, ruleDisabled, hasRuleSpecific) ds)"

definition isBlockDisabled :: "DisableManager \<Rightarrow> string \<Rightarrow> int \<Rightarrow> int \<Rightarrow> bool" where
  "isBlockDisabled dm ruleName line column =
     (let (allDisabled, ruleDisabled, hasRuleSpecific) =
            replay ruleName line column (False, False, False) (blockDirectives dm)
      in if hasRuleSpecific then ruleDisabled else allDisabled)"

definition line_disables :: "(int \<times> string list) list \<Rightarrow> string \<Rightarrow> int \<Rightarrow> bool" where
  "line_disables m ruleName line =
     (case map_of m line of None \<Rightarrow> False | Some rules \<Rightarrow> list_ex (\<lambda>r. r = ruleName \<or> r = ''*'') rules)"

definition IsRuleDisabled ::
  "(string \<Rightarrow> CommentRange list) \<Rightarrow> (nat \<Rightarrow> int \<times> int) \<Rightarrow> DisableManager option \<Rightarrow> string \<Rightarrow> nat \<Rightarrow>
   (bool \<times> DisableManager option) option" where
  "IsRuleDisabled scan lineCol manager ruleName pos =
     (case manager of
        None \<Rightarrow> Some (False, None)
      | Some dm \<Rightarrow>
          if dmSourceFile dm = None then Some (False, Some dm)
          else (case ensureParsed scan lineCol dm of
                  None \<Rightarrow> None
                | Some dm \<Rightarrow>
                    if length (blockDirectives dm) = 0 \<and> length (lineDisabledRules dm) = 0 \<and>
                       length (nextLineDisabledRules dm) = 0
                    then Some (False, Some dm)
                    else (let (line, column) = lineCol pos
                          in Some (isBlockDisabled dm ruleName line column \<or>
                                   line_disables (lineDisabledRules dm) ruleName line \<or>
                                   line_disables (nextLineDisabledRules dm) ruleName line, Some dm))))"

section \<open>The candidate check\<close>

text \<open>The words that start a directive.\<close>

definition directive_word :: "string \<Rightarrow> bool" where
  "directive_word w \<longleftrightarrow> w \<in> {''rslint-disable'', ''rslint-enable'', ''eslint-disable'', ''eslint-enable''}"

lemma marker_no_overlap:
  assumes "has_prefix (drop i s) marker" and "has_prefix (drop j s) marker" and "i < j"
  shows "i + 5 \<le> j"
proof (rule ccontr)
  assume "\<not> i + 5 \<le> j"
  define d where "d = j - i"
  then have d: "j = i + d" "0 < d" "d < 5" using \<open>\<not> i + 5 \<le> j\<close> assms(3) by linarith+
  from assms(1,2) obtain r r' where "drop i s = marker @ r" "drop j s = marker @ r'" by (auto simp: has_prefix_iff)
  moreover have "drop j s = drop d (drop i s)" using d by (simp add: add.commute)
  ultimately have "drop d (marker @ r) = marker @ r'" by simp
  moreover have "d = 1 \<or> d = 2 \<or> d = 3 \<or> d = 4" using d by linarith
  ultimately show False by (auto simp: marker_def)
qed

lemma may_disable_complete:
  assumes "has_prefix (drop m txt) marker" and "2 \<le> m"
    and "marked (take 2 (drop (m - 2) txt)) (drop (m + length marker) txt)" and "i \<le> m"
  shows "may_disable txt i"
  using assms
proof (induction "txt" i rule: may_disable.induct)
  case (1 "txt" i)
  have len: "m < length txt" using 1(2) by (auto simp: has_prefix_iff marker_def intro: ccontr)
  have "has_prefix (drop (m - i) (drop i txt)) marker" using 1(2,5) by simp
  moreover have "m - i \<le> length (drop i txt)" using len by simp
  ultimately obtain k where k: "str_index (drop i txt) marker = Some k"
    using str_index_None_iff [of "drop i txt" marker] by auto
  have le: "i + k \<le> m" using str_index_Some_first [OF k, of "m - i"] 1(2,5) by (force simp: not_le)
  have pre: "has_prefix (drop (i + k) txt) marker" using str_index_Some_prefix [OF k] by (simp add: add.commute)
  show ?case
  proof (cases "i + k = m")
    case True
    then show ?thesis using k len 1(3,4,5) by (subst may_disable.simps) (simp add: Let_def)
  next
    case False
    then have "i + k + length marker \<le> m" using marker_no_overlap [OF pre 1(2)] le by (simp add: marker_def)
    with 1 k len le show ?thesis by (subst may_disable.simps) (auto simp: Let_def)
  qed
qed

lemma mayContain_word:
  assumes "txt = a @ w @ b" and "directive_word w"
  shows "mayContainDisableDirective txt"
proof -
  have "\<exists>p \<in> {''rs'', ''es''}. \<exists>q \<in> {''disable'', ''enable''}. w = p @ marker @ q"
    using assms(2) unfolding directive_word_def marker_def by (elim insertE emptyE) simp_all
  then obtain p q where w: "w = p @ marker @ q" "p = ''rs'' \<or> p = ''es''" "q = ''disable'' \<or> q = ''enable''"
    by blast
  have [simp]: "length p = 2" using w(2) by auto
  let ?m = "length a + 2"
  have d: "drop ?m txt = marker @ q @ b" using assms(1) w(1) by simp
  have "marked (take 2 (drop (?m - 2) txt)) (drop (?m + length marker) txt)"
    using assms(1) w by (auto simp: marked_def has_prefix_iff)
  moreover have "has_prefix (drop ?m txt) marker" unfolding d by simp
  ultimately show ?thesis unfolding mayContainDisableDirective_def
    using may_disable_complete [of ?m "txt" 0] by simp
qed

lemma matchDirective_word:
  assumes "fst (matchDirective c) \<noteq> directiveNone"
  shows "\<exists>w r. directive_word w \<and> c = w @ r"
proof -
  have "fst (match_prefixes c ps) \<noteq> directiveNone \<Longrightarrow> \<exists>(d, e) \<in> set ps. has_prefix c d \<or> has_prefix c e" for ps
    by (induction c ps rule: match_prefixes.induct) (auto split: if_splits)
  then have "\<exists>w \<in> {''rslint-disable'', ''rslint-enable'', ''eslint-disable'', ''eslint-enable''}. has_prefix c w"
    using assms unfolding matchDirective_def directivePrefixes_def by fastforce
  then show ?thesis unfolding has_prefix_iff directive_word_def by blast
qed

lemma comment_content_part:
  assumes "comment_content txt c = Some (Some content)"
  shows "\<exists>a b. txt = a @ content @ b"
proof -
  from assms obtain x y t where sl: "go_slice txt x y = Some t" and content: "content = TrimSpace t"
    by (auto simp: comment_content_def split: CommentKind.splits)
  from sl have "t = take (nat y - nat x) (drop (nat x) txt)" by (simp add: go_slice_Some_iff)
  then have "txt = take (nat x) txt @ t @ drop (nat y - nat x) (drop (nat x) txt)" by (metis append_take_drop_id)
  moreover obtain a b where "t = a @ content @ b" using TrimFunc_part [of t unicode_IsSpace] content by (auto simp: TrimSpace_def)
  ultimately have "txt = (take (nat x) txt @ a) @ content @ b @ drop (nat y - nat x) (drop (nat x) txt)" by simp
  then show ?thesis by blast
qed

text \<open>A file that fails the candidate check has no directive in any comment.\<close>

lemma no_candidate_no_directive:
  assumes "\<not> mayContainDisableDirective txt" and "comment_content txt c = Some (Some content)"
  shows "fst (matchDirective content) = directiveNone"
proof (rule ccontr)
  assume "fst (matchDirective content) \<noteq> directiveNone"
  then obtain w r where "directive_word w" "content = w @ r" using matchDirective_word by blast
  moreover obtain a b where "txt = a @ content @ b" using comment_content_part [OF assms(2)] by blast
  ultimately show False using mayContain_word [of "txt" a w "r @ b"] assms(1) by simp
qed

section \<open>Specification of suppression\<close>

text \<open>The directives of a list of comments, without the candidate check and the caches.\<close>

type_synonym directive = "directiveKind \<times> string list \<times> int \<times> int"

definition directive_at :: "(nat \<Rightarrow> int \<times> int) \<Rightarrow> string \<Rightarrow> CommentRange \<Rightarrow> directive list" where
  "directive_at lineCol txt c =
     (case comment_content txt c of
        Some (Some content) \<Rightarrow>
          (case matchDirective content of
             (kind, rules) \<Rightarrow> if kind = directiveNone then [] else [(kind, rules, lineCol (cPos c))])
      | _ \<Rightarrow> [])"

definition directives_of :: "(nat \<Rightarrow> int \<times> int) \<Rightarrow> string \<Rightarrow> CommentRange list \<Rightarrow> directive list" where
  "directives_of lineCol txt comments = concat (map (directive_at lineCol txt) comments)"

definition not_after :: "int \<times> int \<Rightarrow> int \<times> int \<Rightarrow> bool" where
  "not_after a b \<longleftrightarrow> fst a < fst b \<or> fst a = fst b \<and> snd a \<le> snd b"

definition names_rule :: "string \<Rightarrow> string list \<Rightarrow> bool" where
  "names_rule ruleName rules \<longleftrightarrow> rules = [] \<or> ruleName \<in> set rules"

text \<open>
  A rule is suppressed at a place when the last block directive before it that concerns the rule
  disables, or a directive for the line concerns it.  A rule list may name \<open>*\<close> in a line directive.
\<close>

definition block_suppressed :: "directive list \<Rightarrow> string \<Rightarrow> int \<times> int \<Rightarrow> bool" where
  "block_suppressed ds ruleName place =
     (let concerning = filter (\<lambda>(kind, rules, p). kind \<in> {directiveBlock, directiveEnable} \<and>
            not_after p place \<and> names_rule ruleName rules) ds
      in concerning \<noteq> [] \<and> fst (last concerning) = directiveBlock)"

definition line_suppressed :: "directive list \<Rightarrow> string \<Rightarrow> int \<Rightarrow> bool" where
  "line_suppressed ds ruleName line =
     (\<exists>(kind, rules, l, col) \<in> set ds. (names_rule ruleName rules \<or> ''*'' \<in> set rules) \<and>
        (kind = directiveLine \<and> l = line \<or> kind = directiveNextLine \<and> l + 1 = line))"

definition suppressed :: "directive list \<Rightarrow> string \<Rightarrow> int \<times> int \<Rightarrow> bool" where
  "suppressed ds ruleName place = (block_suppressed ds ruleName place \<or> line_suppressed ds ruleName (fst place))"

section \<open>Parsing builds the directives\<close>

definition add_of :: "DisableManager \<Rightarrow> directive \<Rightarrow> DisableManager" where
  "add_of dm d = (case d of (kind, rules, line, col) \<Rightarrow> add_directive kind rules line col dm)"

lemma parse_comments_fold:
  assumes "\<forall>c \<in> set comments. comment_content txt c \<noteq> None"
  shows "parse_comments lineCol txt comments dm = Some (foldl add_of dm (directives_of lineCol txt comments))"
  using assms
proof (induction comments arbitrary: dm)
  case (Cons c cs)
  then show ?case
    by (auto simp: directives_of_def directive_at_def add_of_def Let_def split: option.splits prod.splits)
qed (simp add: directives_of_def)

definition block_of :: "directive \<Rightarrow> blockDirective" where
  "block_of d = (case d of (kind, rules, line, col) \<Rightarrow>
     \<lparr>bdLine = line, bdColumn = col, isDisable = (kind = directiveBlock), bdRules = rules\<rparr>)"

definition is_block :: "directive \<Rightarrow> bool" where
  "is_block d = (fst d \<in> {directiveBlock, directiveEnable})"

lemma foldl_blocks:
  "blockDirectives (foldl add_of dm ds) = blockDirectives dm @ map block_of (filter is_block ds)"
proof (induction ds arbitrary: dm)
  case (Cons d ds)
  have "blockDirectives (add_of dm d) = blockDirectives dm @ (if is_block d then [block_of d] else [])"
    by (cases d; cases "fst d") (auto simp: add_of_def add_directive_def is_block_def block_of_def)
  with Cons show ?case by simp
qed simp

lemma line_disables_add_line:
  "line_disables (add_line l rules m) ruleName line \<longleftrightarrow>
     line_disables m ruleName line \<or> l = line \<and> (names_rule ruleName rules \<or> ''*'' \<in> set rules)"
  by (auto simp: line_disables_def add_line_def names_rule_def list_ex_iff split: option.splits)

lemma foldl_lines:
  "line_disables (lineDisabledRules (foldl add_of dm ds)) ruleName line \<or>
   line_disables (nextLineDisabledRules (foldl add_of dm ds)) ruleName line \<longleftrightarrow>
     line_disables (lineDisabledRules dm) ruleName line \<or> line_disables (nextLineDisabledRules dm) ruleName line \<or>
     line_suppressed ds ruleName line"
proof (induction ds arbitrary: dm)
  case Nil
  then show ?case by (simp add: line_suppressed_def)
next
  case (Cons d ds)
  obtain kind rules l col where d: "d = (kind, rules, l, col)" by (cases d) auto
  show ?case unfolding foldl.simps Cons.IH
    by (cases kind) (auto simp: d add_of_def add_directive_def line_disables_add_line line_suppressed_def)
qed

lemma foldl_frame [simp]:
  "dmSourceFile (foldl add_of dm ds) = dmSourceFile dm" "dmParsed (foldl add_of dm ds) = dmParsed dm"
proof -
  have "dmSourceFile (add_of dm d) = dmSourceFile dm \<and> dmParsed (add_of dm d) = dmParsed dm" for dm d
    by (cases d; cases "fst d") (auto simp: add_of_def add_directive_def)
  then show "dmSourceFile (foldl add_of dm ds) = dmSourceFile dm" "dmParsed (foldl add_of dm ds) = dmParsed dm"
    by (induction ds arbitrary: dm) auto
qed

section \<open>Replaying block directives\<close>

definition verdict :: "bool \<times> bool \<times> bool \<Rightarrow> bool" where
  "verdict st = (case st of (allDisabled, ruleDisabled, hasRuleSpecific) \<Rightarrow>
     if hasRuleSpecific then ruleDisabled else allDisabled)"

definition block_place :: "blockDirective \<Rightarrow> int \<times> int" where
  "block_place d = (bdLine d, bdColumn d)"

lemma replay_spec:
  assumes "sorted_wrt (\<lambda>a b. not_after (block_place a) (block_place b)) ds"
  shows "verdict (replay ruleName line column st ds) =
    (let concerning = filter (\<lambda>d. not_after (block_place d) (line, column) \<and> names_rule ruleName (bdRules d)) ds
     in if concerning = [] then verdict st else isDisable (last concerning))"
  using assms
proof (induction ds arbitrary: st)
  case (Cons d ds)
  obtain al ru sp where st: "st = (al, ru, sp)" by (cases st) auto
  show ?case
  proof (cases "not_after (block_place d) (line, column)")
    case False
    then have "\<forall>x \<in> set (d # ds). \<not> not_after (block_place x) (line, column)"
      using Cons.prems by (auto simp: not_after_def block_place_def)
    then have "filter (\<lambda>x. not_after (block_place x) (line, column) \<and> names_rule ruleName (bdRules x)) (d # ds) = []"
      by (auto simp: filter_empty_conv)
    moreover have "replay ruleName line column st (d # ds) = st"
      using False st by (auto simp: not_after_def block_place_def)
    ultimately show ?thesis by (simp add: Let_def)
  next
    case True
    then have run: "replay ruleName line column st (d # ds) =
        replay ruleName line column
          (if bdRules d = [] then (isDisable d, ru, False)
           else if ruleName \<in> set (bdRules d) then (al, isDisable d, True) else st) ds"
      using st by (auto simp: not_after_def block_place_def)
    from Cons.prems have "sorted_wrt (\<lambda>a b. not_after (block_place a) (block_place b)) ds" by simp
    note IH = Cons.IH [OF this]
    show ?thesis unfolding run IH using True st
      by (auto simp: Let_def verdict_def names_rule_def)
  qed
qed simp

section \<open>The canonical comments\<close>

lemma mayContainComment_complete:
  "has_prefix (drop k txt) ''//'' \<or> has_prefix (drop k txt) ''/*'' \<Longrightarrow> mayContainComment txt"
proof (induction "txt" arbitrary: k)
  case Nil
  then show ?case by (simp add: has_prefix_def)
next
  case (Cons c cs)
  show ?case
  proof (cases k)
    case 0
    then show ?thesis using Cons.prems by (auto simp: has_prefix_iff slash_def)
  next
    case (Suc j)
    then show ?thesis using Cons.prems Cons.IH [of j] by simp
  qed
qed

lemma set_compact: "set (compact_func eq xs) \<subseteq> set xs"
  by (induction eq xs rule: compact_func.induct) auto

lemma sorted_compact: "sorted_wrt R xs \<Longrightarrow> sorted_wrt R (compact_func eq xs)"
proof (induction eq xs rule: compact_func.induct)
  case (3 eq x y xs)
  then show ?case using set_compact [of eq "y # xs"] by (auto split: if_splits)
qed auto

definition canonical :: "(string \<Rightarrow> CommentRange list) \<Rightarrow> string \<Rightarrow> CommentRange list" where
  "canonical scan txt = compact_func same_range (sort_cmp cmp_pos (scan txt))"

lemma sorted_canonical: "sorted_wrt (\<lambda>a b. cPos a \<le> cPos b) (canonical scan txt)"
proof -
  have "cmp_total cmp_pos" by (auto simp: cmp_total_def cmp_pos_def)
  then have "ordered_by cmp_pos (sort_cmp cmp_pos (scan txt))" by (rule ordered_sort_cmp)
  then have "sorted_wrt (\<lambda>a b. cPos a \<le> cPos b) (sort_cmp cmp_pos (scan txt))"
    by (simp add: ordered_by_def cmp_pos_def)
  then show ?thesis unfolding canonical_def by (rule sorted_compact)
qed

text \<open>What the scanner guarantees: a comment lies in the text and has its delimiters.  (An
  unterminated comment is a syntax error, and a file with one runs no rules.)\<close>

definition comment_ok :: "string \<Rightarrow> CommentRange \<Rightarrow> bool" where
  "comment_ok txt c \<longleftrightarrow> cPos c + 2 \<le> cEnd c \<and> cEnd c \<le> length txt \<and>
     (cKind c = KindSingleLineCommentTrivia \<longrightarrow> has_prefix (drop (cPos c) txt) ''//'') \<and>
     (cKind c = KindMultiLineCommentTrivia \<longrightarrow> has_prefix (drop (cPos c) txt) ''/*'' \<and> cPos c + 4 \<le> cEnd c \<and>
        take 2 (drop (cEnd c - 2) txt) = ''*/'')"

definition scanner_ok :: "(string \<Rightarrow> CommentRange list) \<Rightarrow> string \<Rightarrow> bool" where
  "scanner_ok scan txt \<longleftrightarrow> (\<forall>c \<in> set (scan txt). comment_ok txt c)"

definition places_ok :: "(nat \<Rightarrow> int \<times> int) \<Rightarrow> bool" where
  "places_ok lineCol \<longleftrightarrow> (\<forall>p q. p \<le> q \<longrightarrow> not_after (lineCol p) (lineCol q))"

lemma canonical_ok: "scanner_ok scan txt \<Longrightarrow> c \<in> set (canonical scan txt) \<Longrightarrow> comment_ok txt c"
  unfolding canonical_def scanner_ok_def using set_compact by force

lemma comment_ok_content: "comment_ok txt c \<Longrightarrow> comment_content txt c \<noteq> None"
  by (auto simp: comment_ok_def comment_content_def go_slice_def split: CommentKind.splits)

lemma no_comment_no_directives:
  assumes "\<not> mayContainComment txt" and "\<forall>c \<in> set cs. comment_ok txt c"
  shows "directives_of lineCol txt cs = []"
proof -
  have "directive_at lineCol txt c = []" if "c \<in> set cs" for c
  proof -
    have "cKind c = KindOther"
      using assms that mayContainComment_complete by (cases "cKind c") (auto simp: comment_ok_def)
    then show ?thesis by (simp add: directive_at_def comment_content_def)
  qed
  then show ?thesis by (simp add: directives_of_def)
qed

lemma no_candidate_no_directives: "\<not> mayContainDisableDirective txt \<Longrightarrow> directives_of lineCol txt cs = []"
proof -
  assume no: "\<not> mayContainDisableDirective txt"
  have "directive_at lineCol txt c = []" for c
    using no_candidate_no_directive [OF no, of c]
    by (auto simp: directive_at_def split: option.splits prod.splits)
  then show ?thesis by (simp add: directives_of_def)
qed

text \<open>The directives of the file, in source order.\<close>

definition file_directives ::
  "(string \<Rightarrow> CommentRange list) \<Rightarrow> (nat \<Rightarrow> int \<times> int) \<Rightarrow> string \<Rightarrow> directive list" where
  "file_directives scan lineCol txt = directives_of lineCol txt (canonical scan txt)"

lemma directive_at_place: "d \<in> set (directive_at lineCol txt c) \<Longrightarrow> snd (snd d) = lineCol (cPos c)"
  by (auto simp: directive_at_def split: option.splits prod.splits if_splits)

lemma sorted_directives:
  assumes "places_ok lineCol" and "sorted_wrt (\<lambda>a b. cPos a \<le> cPos b) cs"
  shows "sorted_wrt (\<lambda>a b. not_after (snd (snd a)) (snd (snd b))) (directives_of lineCol txt cs)"
  using assms(2)
proof (induction cs)
  case (Cons c cs)
  have one: "sorted_wrt R (directive_at lineCol txt c)" for R
    by (auto simp: directive_at_def split: option.splits prod.splits)
  have "not_after (snd (snd a)) (snd (snd b))"
    if "a \<in> set (directive_at lineCol txt c)" "b \<in> set (directives_of lineCol txt cs)" for a b
  proof -
    from that(2) obtain c' where c': "c' \<in> set cs" "b \<in> set (directive_at lineCol txt c')"
      by (auto simp: directives_of_def)
    then have "cPos c \<le> cPos c'" using Cons.prems by simp
    then show ?thesis using assms(1) directive_at_place [OF that(1)] directive_at_place [OF c'(2)]
      by (simp add: places_ok_def)
  qed
  with Cons one show ?case by (auto simp: directives_of_def sorted_wrt_append)
qed (simp add: directives_of_def)

section \<open>The manager\<close>

text \<open>A manager of a file, before or after its first use: what it will hold once it is parsed.\<close>

definition fresh_manager :: "string \<Rightarrow> DisableManager" where
  "fresh_manager txt = NewDisableManager (Some txt) (Some (NewCommentStore (Some txt)))"

definition holds :: "directive list \<Rightarrow> DisableManager \<Rightarrow> bool" where
  "holds ds dm \<longleftrightarrow> blockDirectives dm = map block_of (filter is_block ds) \<and>
     (\<forall>ruleName line. line_disables (lineDisabledRules dm) ruleName line \<or>
        line_disables (nextLineDisabledRules dm) ruleName line \<longleftrightarrow> line_suppressed ds ruleName line)"

definition parsed_manager ::
  "(string \<Rightarrow> CommentRange list) \<Rightarrow> (nat \<Rightarrow> int \<times> int) \<Rightarrow> string \<Rightarrow> DisableManager \<Rightarrow> bool" where
  "parsed_manager scan lineCol txt dm \<longleftrightarrow>
     dmSourceFile dm = Some txt \<and> dmParsed dm \<and> holds (file_directives scan lineCol txt) dm"

lemma ensureParsed_fresh:
  assumes "scanner_ok scan txt"
  shows "\<exists>dm. ensureParsed scan lineCol (fresh_manager txt) = Some dm \<and> parsed_manager scan lineCol txt dm"
proof -
  let ?cs = "canonical scan txt" and ?ds = "file_directives scan lineCol txt"
  have empty: "holds [] dm" if "blockDirectives dm = []" "lineDisabledRules dm = []" "nextLineDisabledRules dm = []" for dm
    using that by (simp add: holds_def line_disables_def line_suppressed_def)
  have contents: "\<forall>c \<in> set ?cs. comment_content txt c \<noteq> None"
    using canonical_ok [OF assms] comment_ok_content by blast
  have full: "holds ?ds (foldl add_of dm ?ds)"
    if "blockDirectives dm = []" "lineDisabledRules dm = []" "nextLineDisabledRules dm = []" for dm
    using that by (simp add: holds_def foldl_blocks foldl_lines) (simp add: line_disables_def)
  consider (none) "\<not> mayContainDisableDirective txt \<or> \<not> mayContainComment txt \<or> txt = [] \<or> ?cs = []"
    | (parse) "mayContainDisableDirective txt" "mayContainComment txt" "txt \<noteq> []" "?cs \<noteq> []" by blast
  then show ?thesis
  proof cases
    case none
    have "?ds = []"
    proof -
      have "txt = [] \<Longrightarrow> \<not> mayContainComment txt" by auto
      then show ?thesis
        using none no_candidate_no_directives [of "txt" lineCol ?cs]
          no_comment_no_directives [of "txt" ?cs lineCol] canonical_ok [OF assms]
        by (auto simp: file_directives_def directives_of_def [of _ _ "[]"])
    qed
    with none empty show ?thesis
      by (auto simp: ensureParsed_def fresh_manager_def NewDisableManager_def NewCommentStore_def store_All_def
          parseDirectives_def parsed_manager_def Let_def canonical_def)
  next
    case parse
    then show ?thesis
      using parse_comments_fold [OF contents] full
      by (auto simp: ensureParsed_def fresh_manager_def NewDisableManager_def NewCommentStore_def store_All_def
          parseDirectives_def parsed_manager_def Let_def canonical_def [symmetric] file_directives_def)
  qed
qed

lemma block_suppressed_replay:
  assumes "blockDirectives dm = map block_of (filter is_block ds)"
    and "sorted_wrt (\<lambda>a b. not_after (snd (snd a)) (snd (snd b))) ds"
  shows "isBlockDisabled dm ruleName line column \<longleftrightarrow> block_suppressed ds ruleName (line, column)"
proof -
  let ?bs = "map block_of (filter is_block ds)"
  have place: "block_place (block_of d) = snd (snd d)" "bdRules (block_of d) = fst (snd d)"
      "isDisable (block_of d) \<longleftrightarrow> fst d = directiveBlock" for d
    by (cases d; simp add: block_place_def block_of_def)+
  have "sorted_wrt (\<lambda>a b. not_after (block_place a) (block_place b)) ?bs"
    using assms(2) by (simp add: sorted_wrt_map place sorted_wrt_filter)
  note spec = replay_spec [OF this, of ruleName line column "(False, False, False)"]
  let ?P = "\<lambda>d. not_after (snd (snd d)) (line, column) \<and> names_rule ruleName (fst (snd d))"
  have "filter (\<lambda>d. not_after (block_place d) (line, column) \<and> names_rule ruleName (bdRules d)) ?bs =
      map block_of (filter ?P (filter is_block ds))"
    by (simp add: filter_map comp_def place)
  moreover have "filter ?P (filter is_block ds) =
      filter (\<lambda>(kind, rules, p). kind \<in> {directiveBlock, directiveEnable} \<and> not_after p (line, column) \<and>
        names_rule ruleName rules) ds"
    unfolding filter_filter by (rule filter_cong) (auto simp: is_block_def)
  moreover have "isBlockDisabled dm ruleName line column = verdict (replay ruleName line column (False, False, False) ?bs)"
    by (simp add: isBlockDisabled_def assms(1) verdict_def)
  ultimately show ?thesis using spec
    by (simp add: Let_def block_suppressed_def last_map place verdict_def)
qed

lemma parsed_answer:
  assumes "places_ok lineCol" and "parsed_manager scan lineCol txt dm"
  shows "IsRuleDisabled scan lineCol (Some dm) ruleName pos =
    Some (suppressed (file_directives scan lineCol txt) ruleName (lineCol pos), Some dm)"
proof -
  let ?ds = "file_directives scan lineCol txt"
  have dm: "dmSourceFile dm = Some txt" "ensureParsed scan lineCol dm = Some dm" and h: "holds ?ds dm"
    using assms(2) by (auto simp: parsed_manager_def ensureParsed_def)
  obtain line column where lc: "lineCol pos = (line, column)" by fastforce
  have sorted: "sorted_wrt (\<lambda>a b. not_after (snd (snd a)) (snd (snd b))) ?ds"
    unfolding file_directives_def by (rule sorted_directives [OF assms(1) sorted_canonical])
  have block: "isBlockDisabled dm ruleName line column \<longleftrightarrow> block_suppressed ?ds ruleName (line, column)"
    using h by (intro block_suppressed_replay sorted) (simp add: holds_def)
  have line: "line_disables (lineDisabledRules dm) ruleName line \<or> line_disables (nextLineDisabledRules dm) ruleName line \<longleftrightarrow>
      line_suppressed ?ds ruleName line" using h by (simp add: holds_def)
  have "\<not> suppressed ?ds ruleName (line, column)"
    if "blockDirectives dm = []" "lineDisabledRules dm = []" "nextLineDisabledRules dm = []"
    using that block line by (auto simp: suppressed_def line_disables_def isBlockDisabled_def)
  then show ?thesis using dm lc block line by (auto simp: IsRuleDisabled_def suppressed_def)
qed

section \<open>Properties\<close>

lemma manager_answer:
  assumes "scanner_ok scan txt" and "places_ok lineCol"
    and "dm = fresh_manager txt \<or> parsed_manager scan lineCol txt dm"
  shows "\<exists>dm'. IsRuleDisabled scan lineCol (Some dm) ruleName pos =
      Some (suppressed (file_directives scan lineCol txt) ruleName (lineCol pos), Some dm') \<and>
    parsed_manager scan lineCol txt dm'"
proof (cases "parsed_manager scan lineCol txt dm")
  case True
  then show ?thesis using parsed_answer [OF assms(2)] by blast
next
  case False
  with assms(3) have dm: "dm = fresh_manager txt" by simp
  obtain dm' where dm': "ensureParsed scan lineCol dm = Some dm'" "parsed_manager scan lineCol txt dm'"
    using ensureParsed_fresh [OF assms(1)] dm by blast
  then have "ensureParsed scan lineCol dm' = Some dm'" by (simp add: parsed_manager_def ensureParsed_def)
  then have "IsRuleDisabled scan lineCol (Some dm) ruleName pos = IsRuleDisabled scan lineCol (Some dm') ruleName pos"
    using dm dm' by (simp add: IsRuleDisabled_def fresh_manager_def NewDisableManager_def parsed_manager_def)
  then show ?thesis using parsed_answer [OF assms(2) dm'(2)] dm'(2) by auto
qed

text \<open>
  The contract of a manager for its clients: a ready manager answers, stays ready, and its answers
  depend on the rule and the place only, not on what was asked before.
\<close>

locale suppression =
  fixes ask :: "'m \<Rightarrow> string \<Rightarrow> nat \<Rightarrow> (bool \<times> 'm) option"
    and ready :: "'m \<Rightarrow> bool"
    and answer :: "string \<Rightarrow> nat \<Rightarrow> bool"
  assumes ask_ready: "ready m \<Longrightarrow> \<exists>m'. ask m rule pos = Some (answer rule pos, m') \<and> ready m'"
begin

lemma ask_again:
  assumes "ready m" and "ask m rule pos = Some (b, m')"
  shows "\<exists>m''. ask m' rule' pos' = Some (answer rule' pos', m'') \<and> ready m''"
proof -
  have "ready m'" using ask_ready [OF assms(1), of rule pos] assms(2) by auto
  then show ?thesis by (rule ask_ready)
qed

lemma ask_twice: "ready m \<Longrightarrow> ask m rule pos = Some (b, m') \<Longrightarrow> ask m' rule pos = Some (c, m'') \<Longrightarrow> b = c"
  using ask_ready [of m rule pos] ask_again [of m rule pos b m' rule pos] by auto

end

definition managed :: "(string \<Rightarrow> CommentRange list) \<Rightarrow> (nat \<Rightarrow> int \<times> int) \<Rightarrow> string \<Rightarrow> DisableManager option \<Rightarrow> bool" where
  "managed scan lineCol txt manager \<longleftrightarrow> scanner_ok scan txt \<and> places_ok lineCol \<and>
     (\<exists>dm. manager = Some dm \<and> (dm = fresh_manager txt \<or> parsed_manager scan lineCol txt dm))"

interpretation manager: suppression "IsRuleDisabled scan lineCol" "managed scan lineCol txt"
  "\<lambda>rule pos. suppressed (file_directives scan lineCol txt) rule (lineCol pos)"
  for scan lineCol "txt"
proof unfold_locales
  fix m rule pos
  assume "managed scan lineCol txt m"
  then show "\<exists>m'. IsRuleDisabled scan lineCol m rule pos =
      Some (suppressed (file_directives scan lineCol txt) rule (lineCol pos), m') \<and> managed scan lineCol txt m'"
    unfolding managed_def using manager_answer [of scan "txt" lineCol] by blast
qed

text \<open>
  Claim C18.  Suppression comments mean what they say, through every cache and shortcut: whether a manager is
  fresh or already used, the question whether a rule is disabled at a place returns (the comments
  of the scanner being well formed, and places being ordered like offsets), and the answer is
  that of the specification over all comments of the file: the last block directive at or before
  the place that names the rule or names no rule disables it, or a directive of its line or for
  the next line does.  In particular neither the candidate check on the text nor the one for
  comments ever loses a directive.
\<close>

theorem IsRuleDisabled_spec:
  assumes "scanner_ok scan txt" and "places_ok lineCol"
    and "dm = fresh_manager txt \<or> parsed_manager scan lineCol txt dm"
  shows "\<exists>dm'. IsRuleDisabled scan lineCol (Some dm) ruleName pos =
      Some (suppressed (file_directives scan lineCol txt) ruleName (lineCol pos), Some dm') \<and>
    parsed_manager scan lineCol txt dm'"
  using manager_answer [OF assms] .

definition sample_source :: string where
  "sample_source = ''//rslint-disable''"

definition sample_scan :: "string \<Rightarrow> CommentRange list" where
  "sample_scan _ = [\<lparr>cKind = KindSingleLineCommentTrivia, cPos = 0, cEnd = 16\<rparr>]"

lemma sample_directives:
  "file_directives sample_scan (\<lambda>p. (0, int p)) sample_source = [(directiveBlock, [], 0, 0)]"
proof -
  have "ltrim_len unicode_IsSpace ''rslint-disable'' = 0" "rtrim_len unicode_IsSpace ''rslint-disable'' = 0"
    by (subst ltrim_len.simps, simp add: DecodeRuneInString_def byte_at_def unicode_IsSpace_def is_Zs_def)
       (subst rtrim_len.simps, simp add: DecodeLastRuneInString_def byte_at_def unicode_IsSpace_def is_Zs_def)
  then have "TrimSpace ''rslint-disable'' = ''rslint-disable''" by (simp add: TrimSpace_def TrimFunc_def)
  moreover have "parseRuleNames [] = []"
    by (simp add: parseRuleNames_def TrimSpace_def TrimFunc_def Let_def split: option.splits)
  ultimately show ?thesis
    by (simp add: file_directives_def canonical_def sample_scan_def directives_of_def directive_at_def
        comment_content_def sample_source_def go_slice_def matchDirective_def
        directivePrefixes_def has_prefix_def)
qed

theorem IsRuleDisabled_spec_witness:
  "\<exists>dm. IsRuleDisabled sample_scan (\<lambda>p. (0, int p)) (Some (fresh_manager sample_source)) ''a'' 16 = Some (True, Some dm)"
proof -
  have "scanner_ok sample_scan sample_source" "places_ok (\<lambda>p. (0, int p))"
    by (simp_all add: scanner_ok_def sample_scan_def comment_ok_def sample_source_def has_prefix_def places_ok_def not_after_def)
  from IsRuleDisabled_spec [OF this, of "fresh_manager sample_source" "''a''" 16]
  show ?thesis by (auto simp: sample_directives suppressed_def block_suppressed_def not_after_def names_rule_def)
qed

end
