(* ===== verification/Inline.thy ===== *)
theory Inline
  imports Directives Language
begin

text \<open>
  Block comments that declare names: \<^verbatim>\<open>internal/rule/directive_comment.go\<close>,
  \<^verbatim>\<open>inline_globals.go\<close>, \<^verbatim>\<open>inline_exported.go\<close> and the name view of \<^verbatim>\<open>exported.go\<close>.

  A pair of offsets \<open>(start, end)\<close> of the source is kept as offsets; the bytes between them are
  \<open>slice_of\<close>.  The slices of the source are in range for the comments of the scanner.
\<close>

definition slice_of :: "string \<Rightarrow> nat \<Rightarrow> nat \<Rightarrow> string" where
  "slice_of txt start stop = take (stop - start) (drop start txt)"

abbreviation ES_space :: "nat \<Rightarrow> bool" where
  "ES_space \<equiv> IsWhiteSpaceOrLineTerminator"

section \<open>Scanning shared by the directives\<close>

definition trimECMAScriptWhitespaceRange :: "string \<Rightarrow> nat \<Rightarrow> nat \<Rightarrow> nat \<times> nat" where
  "trimECMAScriptWhitespaceRange txt start stop =
     (let start = start + ltrim_len ES_space (slice_of txt start stop);
          stop = stop - rtrim_len ES_space (slice_of txt start stop)
      in (start, stop))"

text \<open>The inner loop over the keywords at one candidate.\<close>

definition keyword_here :: "string \<Rightarrow> nat \<Rightarrow> string \<Rightarrow> bool" where
  "keyword_here txt contentStart keyword =
     (has_prefix (drop contentStart txt) keyword \<and>
      (let restStart = contentStart + length keyword
       in restStart = length txt \<or> has_prefix (drop restStart txt) ''*/'' \<or>
          ES_space (fst (DecodeRuneInString (drop restStart txt)))))"

function may_directive :: "string \<Rightarrow> string list \<Rightarrow> nat \<Rightarrow> bool" where
  "may_directive txt keywords searchStart =
     (if searchStart < length txt
      then (case str_index (drop searchStart txt) ''/*'' of
              None \<Rightarrow> False
            | Some markerOffset \<Rightarrow>
                (let contentStart = fst (trimECMAScriptWhitespaceRange txt (searchStart + markerOffset + 2) (length txt))
                 in if list_ex (keyword_here txt contentStart) keywords then True
                    else may_directive txt keywords contentStart))
      else False)"
  by pat_completeness auto
termination
  by (relation "measure (\<lambda>(txt, ks, i). length txt - i)") (auto simp: trimECMAScriptWhitespaceRange_def Let_def)

declare may_directive.simps [simp del]

definition mayContainDirective :: "string \<Rightarrow> string list \<Rightarrow> bool" where
  "mayContainDirective txt keywords = may_directive txt keywords 0"

fun matchDirectiveLabelRange :: "string \<Rightarrow> nat \<Rightarrow> nat \<Rightarrow> string list \<Rightarrow> nat option" where
  "matchDirectiveLabelRange txt start stop [] = None"
| "matchDirectiveLabelRange txt start stop (keyword # keywords) =
     (if \<not> has_prefix (slice_of txt start stop) keyword then matchDirectiveLabelRange txt start stop keywords
      else (let restStart = start + length keyword
            in if restStart = stop then Some restStart
               else if ES_space (fst (DecodeRuneInString (slice_of txt restStart stop))) then Some restStart
               else matchDirectiveLabelRange txt start stop keywords))"

text \<open>\<open>findDirectiveJustification\<close> on \<open>text[index:end]\<close>, with the offset from \<open>index\<close>.\<close>

function find_justification :: "string \<Rightarrow> nat option" where
  "find_justification s =
     (if s = [] then None
      else (let (r, n) = DecodeRuneInString s;
                rest = drop n s;
                hyphens = length (takeWhile (\<lambda>c. c = CHR ''-'') rest);
                after = drop hyphens rest
            in if ES_space r \<and> hyphens \<ge> 2 \<and> after \<noteq> [] \<and> ES_space (fst (DecodeRuneInString after)) then Some 0
               else map_option (\<lambda>k. n + k) (find_justification rest)))"
  by pat_completeness auto
termination
  by (relation "measure length") (auto dest!: DecodeRune_size [OF sym])

declare find_justification.simps [simp del]

definition findDirectiveJustification :: "string \<Rightarrow> nat \<Rightarrow> nat \<Rightarrow> nat option" where
  "findDirectiveJustification txt start stop =
     map_option (\<lambda>k. start + k) (find_justification (slice_of txt start stop))"

text \<open>The content of a block comment between its delimiters, trimmed; the start of both parsers.\<close>

definition block_content :: "string \<Rightarrow> CommentRange \<Rightarrow> (nat \<times> nat) option" where
  "block_content txt comment =
     (if cKind comment \<noteq> KindMultiLineCommentTrivia then None
      else if cEnd comment > length txt \<or> cEnd comment < cPos comment + 2 \<or>
              slice_of txt (cPos comment) (cPos comment + 2) \<noteq> ''/*'' then None
      else (let contentStart = cPos comment + 2; contentEnd = cEnd comment;
                contentEnd = (if contentEnd - contentStart \<ge> 2 \<and> slice_of txt (contentEnd - 2) contentEnd = ''*/''
                              then contentEnd - 2 else contentEnd);
                (contentStart, contentEnd) = trimECMAScriptWhitespaceRange txt contentStart contentEnd
            in if contentStart = contentEnd then None else Some (contentStart, contentEnd)))"

text \<open>The value of a directive: what follows its label, without the justification.\<close>

definition directive_value :: "string \<Rightarrow> string list \<Rightarrow> CommentRange \<Rightarrow> (nat \<times> nat) option" where
  "directive_value txt keywords comment =
     (case block_content txt comment of
        None \<Rightarrow> None
      | Some (contentStart, contentEnd) \<Rightarrow>
          (case matchDirectiveLabelRange txt contentStart contentEnd keywords of
             None \<Rightarrow> None
           | Some restStart \<Rightarrow>
               Some (restStart, case findDirectiveJustification txt restStart contentEnd of
                                  None \<Rightarrow> contentEnd | Some j \<Rightarrow> j)))"

section \<open>Global comments\<close>

definition inlineGlobalsKeywords :: "string list" where
  "inlineGlobalsKeywords = [''globals'', ''global'']"

record inlineGlobalName =
  gnName :: string
  gnSetting :: string
  gnHasSetting :: bool
  gnNameRange :: TextRange

record globalConfigRune =
  grValue :: nat
  grStart :: nat
  grEnd :: nat

text \<open>The runes of \<open>text[start:end]\<close> with their offsets.\<close>

function raw_runes :: "nat \<Rightarrow> string \<Rightarrow> globalConfigRune list" where
  "raw_runes index s =
     (if s = [] then []
      else let (r, n) = DecodeRuneInString s
           in \<lparr>grValue = r, grStart = index, grEnd = index + n\<rparr> # raw_runes (index + n) (drop n s))"
  by pat_completeness auto
termination
  by (relation "measure (\<lambda>(i, s). length s)") (auto dest!: DecodeRune_size [OF sym])

declare raw_runes.simps [simp del]

definition is_delimiter :: "globalConfigRune \<Rightarrow> bool" where
  "is_delimiter r = (grValue r = 0x3A \<or> grValue r = 0x2C)"

function normalize_runes :: "globalConfigRune list \<Rightarrow> globalConfigRune list \<Rightarrow> globalConfigRune list" where
  "normalize_runes normalized [] = normalized"
| "normalize_runes normalized (r # raw) =
     (if \<not> ES_space (grValue r) then normalize_runes (normalized @ [r]) raw
      else (let white = takeWhile (\<lambda>r. ES_space (grValue r)) (r # raw);
                rest = dropWhile (\<lambda>r. ES_space (grValue r)) raw;
                previousIsDelimiter = (normalized \<noteq> [] \<and> is_delimiter (last normalized));
                nextIsDelimiter = (rest \<noteq> [] \<and> is_delimiter (hd rest))
            in normalize_runes (if \<not> previousIsDelimiter \<and> \<not> nextIsDelimiter then normalized @ white else normalized) rest))"
  by pat_completeness auto
termination
  by (relation "measure (\<lambda>(n, raw). length raw)") (auto simp: le_imp_less_Suc length_dropWhile_le)

definition normalizeGlobalConfigRunes :: "string \<Rightarrow> nat \<Rightarrow> nat \<Rightarrow> globalConfigRune list" where
  "normalizeGlobalConfigRunes txt start stop = normalize_runes [] (raw_runes start (slice_of txt start stop))"

definition is_separator :: "globalConfigRune \<Rightarrow> bool" where
  "is_separator r = (grValue r = 0x2C \<or> ES_space (grValue r))"

definition not_colon :: "globalConfigRune \<Rightarrow> bool" where
  "not_colon r = (grValue r \<noteq> 0x3A)"

definition runes_text :: "string \<Rightarrow> globalConfigRune list \<Rightarrow> string" where
  "runes_text txt rs = slice_of txt (grStart (hd rs)) (grEnd (last rs))"

text \<open>One token \<open>name[:setting]\<close>.\<close>

definition token_entry :: "string \<Rightarrow> globalConfigRune list \<Rightarrow> inlineGlobalName list" where
  "token_entry txt token =
     (let name = takeWhile not_colon token
      in if name = [] then []
         else (let hasSetting = (length name < length token);
                   settingRunes = takeWhile not_colon (drop (length name + 1) token)
               in [\<lparr>gnName = runes_text txt name,
                    gnSetting = (if hasSetting \<and> settingRunes \<noteq> [] then runes_text txt settingRunes else []),
                    gnHasSetting = hasSetting,
                    gnNameRange = TextRange (int (grStart (hd name))) (int (grEnd (last name)))\<rparr>]))"

function name_entries :: "string \<Rightarrow> globalConfigRune list \<Rightarrow> inlineGlobalName list" where
  "name_entries txt runes =
     (let rs = dropWhile is_separator runes
      in if rs = [] then []
         else token_entry txt (takeWhile (\<lambda>r. \<not> is_separator r) rs) @
              name_entries txt (dropWhile (\<lambda>r. \<not> is_separator r) rs))"
  by pat_completeness auto
termination
proof (relation "measure (\<lambda>(t, runes). length runes)", goal_cases)
  case (2 "txt" runes rs)
  then have "\<not> is_separator (hd rs)" by (simp add: hd_dropWhile)
  moreover have "rs \<noteq> []" using 2 by simp
  then obtain x xs where "rs = x # xs" by (cases rs) simp_all
  ultimately have "length (dropWhile (\<lambda>r. \<not> is_separator r) rs) < length rs"
    by (simp add: le_imp_less_Suc length_dropWhile_le)
  moreover have "length rs \<le> length runes" using 2 by (simp add: length_dropWhile_le)
  ultimately show ?case by simp
qed simp

declare name_entries.simps [simp del]

definition parseGlobalNameListEntries :: "string \<Rightarrow> nat \<Rightarrow> nat \<Rightarrow> inlineGlobalName list" where
  "parseGlobalNameListEntries txt start stop = name_entries txt (normalizeGlobalConfigRunes txt start stop)"

definition parseInlineGlobalComment :: "string \<Rightarrow> CommentRange option \<Rightarrow> inlineGlobalName list" where
  "parseInlineGlobalComment txt comment =
     (case comment of
        None \<Rightarrow> []
      | Some c \<Rightarrow>
          (case directive_value txt inlineGlobalsKeywords c of
             None \<Rightarrow> []
           | Some (restStart, contentEnd) \<Rightarrow>
               (let (restStart, contentEnd) = trimECMAScriptWhitespaceRange txt restStart contentEnd
                in parseGlobalNameListEntries txt restStart contentEnd)))"

text \<open>The entries of one comment: a repeated name keeps its place and range and takes the last setting.\<close>

fun comment_entry :: "inlineGlobalName list \<Rightarrow> inlineGlobalName \<Rightarrow> inlineGlobalName list" where
  "comment_entry [] e = [e]"
| "comment_entry (x # xs) e =
     (if gnName x = gnName e then x\<lparr>gnSetting := gnSetting e, gnHasSetting := gnHasSetting e\<rparr> # xs
      else x # comment_entry xs e)"

text \<open>The declarations over all comments: a repeated name takes the last access and one more range.\<close>

fun add_global :: "string \<Rightarrow> GlobalAccess \<Rightarrow> TextRange \<Rightarrow> InlineGlobal list \<Rightarrow> InlineGlobal list" where
  "add_global name access rng [] = [\<lparr>igName = name, igAccess = access, igNameRanges = [rng]\<rparr>]"
| "add_global name access rng (g # gs) =
     (if igName g = name then g\<lparr>igAccess := access, igNameRanges := igNameRanges g @ [rng]\<rparr> # gs
      else g # add_global name access rng gs)"

definition merge_entry :: "InlineGlobal list \<Rightarrow> inlineGlobalName \<Rightarrow> InlineGlobal list" where
  "merge_entry globals e =
     (case NormalizeInlineGlobalAccess (gnSetting e) (gnHasSetting e) of
        (access, valid) \<Rightarrow> if \<not> valid then globals else add_global (gnName e) access (gnNameRange e) globals)"

definition merge_comment :: "string \<Rightarrow> InlineGlobal list \<Rightarrow> CommentRange \<Rightarrow> InlineGlobal list" where
  "merge_comment txt globals c =
     foldl merge_entry globals (foldl comment_entry [] (parseInlineGlobalComment txt (Some c)))"

definition globals_of_comments :: "string \<Rightarrow> CommentRange list \<Rightarrow> InlineGlobal list" where
  "globals_of_comments txt comments = foldl (merge_comment txt) [] comments"

definition ParseInlineGlobals ::
  "(string \<Rightarrow> CommentRange list) \<Rightarrow> string option \<Rightarrow> CommentStore option \<Rightarrow>
   ((string \<times> GlobalAccess) list \<times> InlineGlobal list) \<times> CommentStore option" where
  "ParseInlineGlobals scan sourceFile store =
     (case sourceFile of
        None \<Rightarrow> (([], []), store)
      | Some txt \<Rightarrow>
          if txt = [] \<or> \<not> mayContainDirective txt inlineGlobalsKeywords then (([], []), store)
          else (case store_All scan store of
                  (comments, store) \<Rightarrow>
                    if length comments = 0 then (([], []), store)
                    else (let globals = globals_of_comments txt comments
                          in if length globals = 0 then (([], []), store)
                             else ((foldl (\<lambda>m g. al_update (igName g) (igAccess g) m) [] globals, globals), store))))"

section \<open>Exported comments\<close>

definition inlineExportedKeywords :: "string list" where
  "inlineExportedKeywords = [''exported'']"

record InlineExported =
  ieName :: string
  ieNameRanges :: "TextRange list"

type_synonym inlineExportedName = "string \<times> TextRange"

definition stripMatchingQuoteRange :: "string \<Rightarrow> nat \<Rightarrow> nat \<Rightarrow> nat \<times> nat" where
  "stripMatchingQuoteRange txt start stop =
     (if stop - start \<ge> 2 \<and> (txt ! start = CHR 0x27 \<or> txt ! start = CHR 0x22) \<and> txt ! start = txt ! (stop - 1)
      then (start + 1, stop - 1) else (start, stop))"

definition exported_item :: "string \<Rightarrow> nat \<Rightarrow> nat \<Rightarrow> inlineExportedName list" where
  "exported_item txt start itemEnd =
     (let (nameStart, nameEnd) = trimECMAScriptWhitespaceRange txt start itemEnd;
          (nameStart, nameEnd) = stripMatchingQuoteRange txt nameStart nameEnd
      in if nameStart < nameEnd
         then [(slice_of txt nameStart nameEnd, TextRange (int nameStart) (int nameEnd))] else [])"

function parseExportedNameListEntries :: "string \<Rightarrow> nat \<Rightarrow> nat \<Rightarrow> inlineExportedName list" where
  "parseExportedNameListEntries txt start stop =
     (if start \<le> stop
      then (let itemEnd = (case str_index (slice_of txt start stop) [CHR '','']  of None \<Rightarrow> stop | Some comma \<Rightarrow> start + comma)
            in exported_item txt start itemEnd @
               (if itemEnd = stop then [] else parseExportedNameListEntries txt (itemEnd + 1) stop))
      else [])"
  by pat_completeness auto
termination
proof (relation "measure (\<lambda>(t, start, stop). Suc stop - start)", goal_cases)
  case (2 "txt" start stop itemEnd)
  then show ?case by (auto split: option.splits)
qed simp

declare parseExportedNameListEntries.simps [simp del]

definition parseInlineExportedComment :: "string \<Rightarrow> CommentRange option \<Rightarrow> inlineExportedName list" where
  "parseInlineExportedComment txt comment =
     (case comment of
        None \<Rightarrow> []
      | Some c \<Rightarrow>
          (case directive_value txt inlineExportedKeywords c of
             None \<Rightarrow> []
           | Some (restStart, contentEnd) \<Rightarrow> parseExportedNameListEntries txt restStart contentEnd))"

fun first_names :: "string list \<Rightarrow> inlineExportedName list \<Rightarrow> inlineExportedName list" where
  "first_names seen [] = []"
| "first_names seen ((name, rng) # es) =
     (if name \<in> set seen then first_names seen es else (name, rng) # first_names (seen @ [name]) es)"

fun add_exported :: "InlineExported list \<Rightarrow> inlineExportedName \<Rightarrow> InlineExported list" where
  "add_exported [] e = [\<lparr>ieName = fst e, ieNameRanges = [snd e]\<rparr>]"
| "add_exported (x # xs) e =
     (if ieName x = fst e then x\<lparr>ieNameRanges := ieNameRanges x @ [snd e]\<rparr> # xs else x # add_exported xs e)"

definition exported_of_comments :: "string \<Rightarrow> CommentRange list \<Rightarrow> InlineExported list" where
  "exported_of_comments txt comments =
     foldl (\<lambda>exported c. foldl add_exported exported (first_names [] (parseInlineExportedComment txt (Some c)))) [] comments"

definition ParseInlineExported ::
  "(string \<Rightarrow> CommentRange list) \<Rightarrow> string option \<Rightarrow> CommentStore option \<Rightarrow>
   (string list \<times> InlineExported list) \<times> CommentStore option" where
  "ParseInlineExported scan sourceFile store =
     (case sourceFile of
        None \<Rightarrow> (([], []), store)
      | Some txt \<Rightarrow>
          if txt = [] \<or> \<not> mayContainDirective txt inlineExportedKeywords then (([], []), store)
          else (case store_All scan store of
                  (comments, store) \<Rightarrow>
                    if length comments = 0 then (([], []), store)
                    else (let exported = exported_of_comments txt comments
                          in if length exported = 0 then (([], []), store)
                             else ((map ieName exported, exported), store))))"

text \<open>The view of a file; the set of names is the list of the names it contains.\<close>

record Exported =
  exNames :: "string list"
  exDeclarations :: "InlineExported list"

definition NewExported :: "string list \<Rightarrow> InlineExported list \<Rightarrow> Exported" where
  "NewExported names declarations = \<lparr>exNames = names, exDeclarations = declarations\<rparr>"

definition exported_Has :: "Exported \<Rightarrow> string \<Rightarrow> bool" where
  "exported_Has e name = (name \<in> set (exNames e))"

section \<open>The candidate check\<close>

lemma length_slice: "b \<le> length txt \<Longrightarrow> length (slice_of txt a b) = b - a"
  by (simp add: slice_of_def)

lemma drop_slice:
  assumes "b \<le> length txt" and "a \<le> b" and "k \<le> b - a"
  shows "drop (length (slice_of txt a b) - k) (slice_of txt a b) = slice_of txt (b - k) b"
proof -
  have "b - a - k + a = b - k" "b - a - (b - a - k) = b - (b - k)" using assms by linarith+
  then show ?thesis unfolding length_slice [OF assms(1)] by (simp add: slice_of_def drop_take)
qed

lemma slice_decomp: "drop a txt = slice_of txt a b @ drop (b - a) (drop a txt)"
  by (simp only: slice_of_def append_take_drop_id)

lemma slice_prefix: "has_prefix (slice_of txt a b) w \<Longrightarrow> has_prefix (drop a txt) w"
  by (metis has_prefix_iff slice_decomp append.assoc)

lemma slice_space:
  assumes "ES_space (fst (DecodeRuneInString (slice_of txt a b)))"
  shows "ES_space (fst (DecodeRuneInString (drop a txt)))"
proof -
  obtain r n where d: "DecodeRuneInString (slice_of txt a b) = (r, n)" by fastforce
  have "r \<noteq> RuneError" using assms d by auto
  from DecodeRune_extend [OF d this] have "DecodeRuneInString (drop a txt) = (r, n)" using slice_decomp [of a "txt" b] by metis
  with assms d show ?thesis by simp
qed

lemma trim_start: "fst (trimECMAScriptWhitespaceRange txt a (length txt)) = a + ltrim_len ES_space (drop a txt)"
  by (simp add: trimECMAScriptWhitespaceRange_def Let_def slice_of_def)

lemma slash_star_ascii:
  "has_prefix (drop m txt) ''/*'' \<Longrightarrow> m + 1 < length txt \<and> txt ! m = CHR ''/'' \<and> txt ! (m + 1) = CHR ''*''"
proof -
  assume "has_prefix (drop m txt) ''/*''"
  then obtain r where r: "drop m txt = CHR ''/'' # CHR ''*'' # r" by (auto simp: has_prefix_iff)
  have "m + 1 < length txt" using arg_cong [OF r, of length] by simp
  moreover have "txt ! m = drop m txt ! 0" "txt ! (m + 1) = drop m txt ! 1" using calculation by simp_all
  ultimately show ?thesis using r by simp
qed

lemma may_directive_complete:
  assumes "has_prefix (drop m txt) ''/*''"
    and "list_ex (keyword_here txt (fst (trimECMAScriptWhitespaceRange txt (m + 2) (length txt)))) keywords" and "i \<le> m"
  shows "may_directive txt keywords i"
  using assms
proof (induction "txt" "keywords" i rule: may_directive.induct)
  case (1 "txt" "keywords" i)
  note m = slash_star_ascii [OF 1(2)]
  have "has_prefix (drop (m - i) (drop i txt)) ''/*''" using 1(2,4) by simp
  moreover have "m - i \<le> length (drop i txt)" using m by (simp add: diff_le_mono)
  ultimately obtain k where k: "str_index (drop i txt) ''/*'' = Some k"
    using str_index_None_iff [of "drop i txt" "''/*''"] by auto
  have le: "i + k \<le> m" using str_index_Some_first [OF k, of "m - i"] 1(2,4) by (force simp: not_le)
  have pre: "has_prefix (drop (i + k) txt) ''/*''" using str_index_Some_prefix [OF k] by (simp add: add.commute)
  show ?case
  proof (cases "i + k = m")
    case True
    then show ?thesis using k m 1(3,4) by (subst may_directive.simps) (simp add: Let_def)
  next
    case False
    have "i + k + 1 \<noteq> m" using slash_star_ascii [OF pre] m by auto
    with False le have gap: "i + k + 2 \<le> m" by linarith
    let ?c = "fst (trimECMAScriptWhitespaceRange txt (i + k + 2) (length txt))"
    let ?a = "i + k + 2"
    have "?a \<le> length txt" using gap m by linarith
    moreover have "m - ?a < length (drop ?a txt)" unfolding length_drop using m gap by (intro diff_less_mono) simp_all
    moreover from \<open>?a \<le> length txt\<close> have "byte_at (drop ?a txt) (m - ?a) = 47"
      using byte_at_drop [OF gap, of "txt"] m by (simp only: byte_at_def) simp
    ultimately have "ltrim_len ES_space (drop ?a txt) \<le> m - ?a"
      using ltrim_len_stop [of "m - ?a" "drop ?a txt" ES_space] by simp
    then have "?c \<le> m" using gap unfolding trim_start by linarith
    with 1(1) [OF _ k refl _ 1(2,3)] k m le show ?thesis by (subst may_directive.simps) (auto simp: Let_def)
  qed
qed

lemma matchLabel_Some:
  "matchDirectiveLabelRange txt start stop keywords = Some rest \<Longrightarrow>
     \<exists>kw \<in> set keywords. has_prefix (slice_of txt start stop) kw \<and> rest = start + length kw \<and>
       (rest = stop \<or> ES_space (fst (DecodeRuneInString (slice_of txt rest stop))))"
  by (induction "keywords") (auto simp: Let_def split: if_splits)

text \<open>The place of a closing delimiter.\<close>

lemma comment_ok_close:
  assumes "comment_ok txt c" and "cKind c = KindMultiLineCommentTrivia"
  shows "has_prefix (drop (cPos c) txt) ''/*''" "cPos c + 2 \<le> cEnd c - 2" "cEnd c \<le> length txt"
    "has_prefix (drop (cEnd c - 2) txt) ''*/''" "slice_of txt (cEnd c - 2) (cEnd c) = ''*/''"
proof -
  show "has_prefix (drop (cPos c) txt) ''/*''" "cPos c + 2 \<le> cEnd c - 2" "cEnd c \<le> length txt"
    and "slice_of txt (cEnd c - 2) (cEnd c) = ''*/''"
    using assms by (auto simp: comment_ok_def slice_of_def)
  then show "has_prefix (drop (cEnd c - 2) txt) ''*/''" by (metis has_prefix_append slice_prefix append_Nil2)
qed

lemma block_content_close:
  assumes "comment_ok txt c" and "block_content txt c = Some (cs, ce)"
  shows "cKind c = KindMultiLineCommentTrivia \<and> cs = cPos c + 2 + ltrim_len ES_space (drop (cPos c + 2) txt) \<and>
    cs \<le> ce \<and> ce = cEnd c - 2 - rtrim_len ES_space (slice_of txt cs (cEnd c - 2))"
proof -
  let ?A = "cPos c + 2" and ?B = "cEnd c - 2"
  have kind: "cKind c = KindMultiLineCommentTrivia" using assms(2) by (auto simp: block_content_def split: if_splits)
  note close = comment_ok_close [OF assms(1) kind]
  have "trimECMAScriptWhitespaceRange txt ?A ?B = (cs, ce)"
    using assms(2) kind close by (auto simp: block_content_def Let_def split: if_splits prod.splits)
  then have cs: "cs = ?A + ltrim_len ES_space (slice_of txt ?A ?B)"
    and ce: "ce = ?B - rtrim_len ES_space (slice_of txt cs ?B)"
    by (auto simp: trimECMAScriptWhitespaceRange_def Let_def)
  obtain r where r: "drop ?B txt = CHR ''*'' # r" using close(4) by (auto simp: has_prefix_iff)
  have B: "?B < length txt" using close by (metis r drop_all list.distinct(1) not_le)
  have "?A + (?B - ?A) = ?B" using close(2) by (rule le_add_diff_inverse)
  moreover have "?A \<le> length txt" using B close(2) by linarith
  ultimately have "drop ?A txt ! (?B - ?A) = txt ! ?B" using nth_drop [of ?A "txt" "?B - ?A"] by metis
  also have "\<dots> = CHR ''*''" using hd_drop_conv_nth [OF B] r by simp
  finally have star: "byte_at (drop ?A txt) (?B - ?A) = 42" by (simp only: byte_at_def) simp
  have "?B - ?A < length (drop ?A txt)" unfolding length_drop using B close(2) by (rule diff_less_mono)
  then have "ltrim_len ES_space (slice_of txt ?A ?B) = ltrim_len ES_space (drop ?A txt)"
    unfolding slice_of_def using ltrim_len_take [of "?B - ?A" "drop ?A txt" ES_space] star by simp
  moreover have len: "length (slice_of txt a ?B) = ?B - a" for a using B by (intro length_slice) linarith
  have "cs \<le> ?B" using cs ltrim_len_le [of ES_space "slice_of txt ?A ?B"] len [of ?A] close(2) by linarith
  moreover have "rtrim_len ES_space (slice_of txt cs ?B) \<le> ?B - cs"
    using rtrim_len_le [of ES_space "slice_of txt cs ?B"] len [of cs] by linarith
  ultimately show ?thesis using kind cs ce by linarith
qed

lemma directive_candidate:
  assumes ok: "comment_ok txt c" and "directive_value txt keywords c \<noteq> None"
  shows "mayContainDirective txt keywords"
proof -
  from assms(2) obtain cs ce rest where bc: "block_content txt c = Some (cs, ce)"
    and label: "matchDirectiveLabelRange txt cs ce keywords = Some rest"
    by (auto simp: directive_value_def split: option.splits)
  note b = block_content_close [OF ok bc]
  then have kind: "cKind c = KindMultiLineCommentTrivia" by blast
  note close = comment_ok_close [OF ok kind]
  from matchLabel_Some [OF label] obtain kw where kw: "kw \<in> set keywords" "has_prefix (slice_of txt cs ce) kw"
    "rest = cs + length kw" "rest = ce \<or> ES_space (fst (DecodeRuneInString (slice_of txt rest ce)))" by blast
  let ?B = "cEnd c - 2"
  have "has_prefix (drop rest txt) ''*/'' \<or> ES_space (fst (DecodeRuneInString (drop rest txt)))"
  proof (cases "rest = ce")
    case False
    then show ?thesis using kw(4) slice_space by blast
  next
    case True
    let ?S = "slice_of txt cs ?B" and ?t = "rtrim_len ES_space (slice_of txt cs ?B)"
    show ?thesis
    proof (cases "?t = 0")
      case True
      from b have "ce = ?B - ?t" by blast
      with True have "ce = ?B" by (simp only: diff_zero)
      then show ?thesis using close(4) unfolding \<open>rest = ce\<close> by blast
    next
      case False
      from b have ce: "ce = ?B - ?t" and "cs \<le> ce" by blast+
      then have cs: "cs \<le> ?B" by linarith
      have len: "length ?S = ?B - cs" using close(3) by (intro length_slice) linarith
      have t: "?t \<le> ?B - cs" using rtrim_len_le [of ES_space ?S] len by simp
      have "ES_space (fst (DecodeRuneInString (drop (length ?S - ?t) ?S)))"
        using rtrim_len_head [of ES_space ?S] False by simp
      moreover have "drop (length ?S - ?t) ?S = slice_of txt ce ?B"
        using drop_slice [of ?B "txt" cs ?t] close(3) cs t ce by simp
      ultimately show ?thesis using slice_space True by simp
    qed
  qed
  then have "keyword_here txt cs kw" using kw slice_prefix by (auto simp: keyword_here_def Let_def)
  then have "list_ex (keyword_here txt (fst (trimECMAScriptWhitespaceRange txt (cPos c + 2) (length txt)))) keywords"
    using kw(1) b unfolding trim_start by (auto simp: list_ex_iff)
  then show ?thesis unfolding mayContainDirective_def by (rule may_directive_complete [OF close(1)]) simp
qed

section \<open>What the comments declare\<close>

text \<open>The declaration of a name in one comment: its last setting and its first range, if the setting is valid.\<close>

definition decl_of :: "string \<Rightarrow> string \<Rightarrow> CommentRange \<Rightarrow> (GlobalAccess \<times> TextRange) list" where
  "decl_of txt name c =
     (let es = filter (\<lambda>e. gnName e = name) (parseInlineGlobalComment txt (Some c))
      in if es = [] then []
         else (case NormalizeInlineGlobalAccess (gnSetting (last es)) (gnHasSetting (last es)) of
                 (access, valid) \<Rightarrow> if valid then [(access, gnNameRange (hd es))] else []))"

definition decls_of :: "string \<Rightarrow> string \<Rightarrow> CommentRange list \<Rightarrow> (GlobalAccess \<times> TextRange) list" where
  "decls_of txt name comments = concat (map (decl_of txt name) comments)"

lemma comment_entry_names: "gnName ` set (comment_entry xs e) = insert (gnName e) (gnName ` set xs)"
  by (induction xs e rule: comment_entry.induct) auto

lemma distinct_comment_entry: "distinct (map gnName xs) \<Longrightarrow> distinct (map gnName (comment_entry xs e))"
proof (induction xs e rule: comment_entry.induct)
  case (2 x xs e)
  then show ?case using comment_entry_names [of xs e] by (auto simp: image_iff)
qed simp

lemma filter_comment_entry:
  "filter (\<lambda>x. gnName x = n) (comment_entry xs e) =
     (if gnName e \<noteq> n then filter (\<lambda>x. gnName x = n) xs
      else case filter (\<lambda>x. gnName x = n) xs of
             [] \<Rightarrow> [e]
           | y # ys \<Rightarrow> y\<lparr>gnSetting := gnSetting e, gnHasSetting := gnHasSetting e\<rparr> # ys)"
  by (induction xs e rule: comment_entry.induct) auto

lemma distinct_names_one: "distinct (map gnName xs) \<Longrightarrow> length (filter (\<lambda>x. gnName x = n) xs) \<le> 1"
proof (induction xs)
  case (Cons x xs)
  moreover have "gnName x = n \<Longrightarrow> filter (\<lambda>x. gnName x = n) xs = []"
    using Cons.prems by (auto simp: filter_empty_conv image_iff)
  ultimately show ?case by auto
qed simp

lemma foldl_comment_entry:
  assumes "distinct (map gnName xs)"
  shows "distinct (map gnName (foldl comment_entry xs es)) \<and>
    filter (\<lambda>x. gnName x = n) (foldl comment_entry xs es) =
      (let all = filter (\<lambda>x. gnName x = n) xs @ filter (\<lambda>x. gnName x = n) es
       in if all = [] then []
          else [(hd all)\<lparr>gnSetting := gnSetting (last all), gnHasSetting := gnHasSetting (last all)\<rparr>])"
  using assms
proof (induction es arbitrary: xs)
  case Nil
  have "length (filter (\<lambda>x. gnName x = n) xs) \<le> 1" using Nil by (rule distinct_names_one)
  then consider "filter (\<lambda>x. gnName x = n) xs = []" | y where "filter (\<lambda>x. gnName x = n) xs = [y]"
    by (cases "filter (\<lambda>x. gnName x = n) xs") auto
  then show ?case using Nil by cases simp_all
next
  case (Cons e es)
  note d = distinct_comment_entry [OF Cons.prems, of e]
  have "filter (\<lambda>x. gnName x = n) xs = y # ys \<Longrightarrow> ys = []" for y ys
    using distinct_names_one [OF Cons.prems, of n] by simp
  then show ?case unfolding foldl.simps using Cons.IH [OF d]
    by (auto simp: Let_def filter_comment_entry split: list.splits)
qed

text \<open>Merging one entry into the declarations.\<close>

definition lookup_global :: "InlineGlobal list \<Rightarrow> string \<Rightarrow> (GlobalAccess \<times> TextRange list) option" where
  "lookup_global gs n = map_of (map (\<lambda>g. (igName g, igAccess g, igNameRanges g)) gs) n"

lemma lookup_add_global:
  "lookup_global (add_global name access rng gs) n =
     (if n = name then Some (access, (case lookup_global gs n of None \<Rightarrow> [] | Some (a, rs) \<Rightarrow> rs) @ [rng])
      else lookup_global gs n)"
  by (induction name access rng gs rule: add_global.induct) (auto simp: lookup_global_def)

lemma names_add_global: "igName ` set (add_global name access rng gs) = insert name (igName ` set gs)"
  by (induction name access rng gs rule: add_global.induct) auto

lemma distinct_add_global: "distinct (map igName gs) \<Longrightarrow> distinct (map igName (add_global name access rng gs))"
proof (induction name access rng gs rule: add_global.induct)
  case (2 name access rng g gs)
  then show ?case using names_add_global [of name access rng gs] by (auto simp: image_iff)
qed simp

definition declared :: "(GlobalAccess \<times> TextRange) list \<Rightarrow> (GlobalAccess \<times> TextRange list) option" where
  "declared ds = (if ds = [] then None else Some (fst (last ds), map snd ds))"

definition entry_decl :: "inlineGlobalName \<Rightarrow> (GlobalAccess \<times> TextRange) list" where
  "entry_decl e = (case NormalizeInlineGlobalAccess (gnSetting e) (gnHasSetting e) of
     (access, valid) \<Rightarrow> if valid then [(access, gnNameRange e)] else [])"

lemma foldl_merge_entry:
  assumes "distinct (map igName gs)" and "lookup_global gs n = declared ds"
  shows "distinct (map igName (foldl merge_entry gs es)) \<and>
    lookup_global (foldl merge_entry gs es) n =
      declared (ds @ concat (map entry_decl (filter (\<lambda>e. gnName e = n) es)))"
  using assms
proof (induction es arbitrary: gs ds)
  case (Cons e es)
  have d: "distinct (map igName (merge_entry gs e))"
    using Cons.prems(1) by (simp add: merge_entry_def distinct_add_global split: prod.splits)
  have l: "lookup_global (merge_entry gs e) n = declared (ds @ (if gnName e = n then entry_decl e else []))"
    using Cons.prems(2)
    by (auto simp: merge_entry_def lookup_add_global declared_def entry_decl_def split: prod.splits option.splits)
  show ?case unfolding foldl.simps using Cons.IH [OF d l] by simp
qed simp

lemma globals_of_comments_spec:
  "distinct (map igName (globals_of_comments txt cs)) \<and>
   lookup_global (globals_of_comments txt cs) n = declared (decls_of txt n cs)"
proof (induction cs rule: rev_induct)
  case Nil
  then show ?case by (simp add: globals_of_comments_def lookup_global_def declared_def decls_of_def)
next
  case (snoc c cs)
  let ?es = "parseInlineGlobalComment txt (Some c)"
  let ?ces = "foldl comment_entry [] ?es"
  have "concat (map entry_decl (filter (\<lambda>e. gnName e = n) ?ces)) = decl_of txt n c"
    using foldl_comment_entry [where xs = "[]" and n = n and es = ?es] by (auto simp: Let_def decl_of_def entry_decl_def split: prod.splits)
  moreover have "globals_of_comments txt (cs @ [c]) = foldl merge_entry (globals_of_comments txt cs) ?ces"
    by (simp add: globals_of_comments_def merge_comment_def)
  ultimately show ?case
    using foldl_merge_entry [of "globals_of_comments txt cs" n "decls_of txt n cs" ?ces] snoc
    by (simp add: decls_of_def)
qed

lemma map_of_foldl_values:
  "map_of (foldl (\<lambda>m g. al_update (igName g) (igAccess g) m) m gs) n =
     (case map_of (rev (map (\<lambda>g. (igName g, igAccess g)) gs)) n of None \<Rightarrow> map_of m n | Some a \<Rightarrow> Some a)"
  by (induction gs arbitrary: m) (auto simp: map_add_Some_iff split: option.splits)

lemma values_lookup:
  assumes "distinct (map igName gs)"
  shows "map_of (foldl (\<lambda>m g. al_update (igName g) (igAccess g) m) [] gs) n = map_option fst (lookup_global gs n)"
proof -
  let ?xs = "map (\<lambda>g. (igName g, igAccess g)) gs"
  have "distinct (map fst ?xs)" using assms by (simp add: comp_def)
  then have "map_of (rev ?xs) = map_of ?xs" by (metis distinct_rev map_of_eqI map_of_inject_set rev_map set_map set_rev)
  moreover have "map_of ?xs n = map_option fst (lookup_global gs n)"
    unfolding lookup_global_def by (induction gs) auto
  ultimately show ?thesis unfolding map_of_foldl_values by (simp split: option.splits)
qed

lemma no_candidate_globals:
  assumes "\<not> mayContainDirective txt inlineGlobalsKeywords \<or> \<not> mayContainComment txt \<or> txt = []"
    and ok: "\<forall>c \<in> set cs. comment_ok txt c"
  shows "globals_of_comments txt cs = []"
proof -
  have "parseInlineGlobalComment txt (Some c) = []" if "c \<in> set cs" for c
  proof -
    have cok: "comment_ok txt c" using ok that by blast
    have "directive_value txt inlineGlobalsKeywords c = None"
    proof (rule ccontr)
      assume dv: "directive_value txt inlineGlobalsKeywords c \<noteq> None"
      then have kind: "cKind c = KindMultiLineCommentTrivia"
        by (auto simp: directive_value_def block_content_def split: option.splits if_splits)
      have "mayContainComment txt" using comment_ok_close(1) [OF cok kind] mayContainComment_complete by blast
      moreover from this have "txt \<noteq> []" by auto
      ultimately show False using directive_candidate [OF cok dv] assms(1) by blast
    qed
    then show ?thesis by (simp add: parseInlineGlobalComment_def)
  qed
  then have "merge_comment txt gs c = gs" if "c \<in> set cs" for gs c using that by (simp add: merge_comment_def)
  then have "foldl (merge_comment txt) [] cs = []"
  proof (induction cs)
    case (Cons c cs)
    then show ?case by simp
  qed simp
  then show ?thesis by (simp add: globals_of_comments_def)
qed

section \<open>Exported names\<close>

lemma names_add_exported: "ieName ` set (foldl add_exported xs es) = ieName ` set xs \<union> fst ` set es"
proof (induction es arbitrary: xs)
  case (Cons e es)
  have "ieName ` set (add_exported xs e) = insert (fst e) (ieName ` set xs)"
    by (induction xs e rule: add_exported.induct) auto
  then show ?case unfolding foldl.simps Cons.IH by auto
qed simp

lemma names_first: "fst ` set (first_names seen es) = fst ` set es - set seen"
  by (induction seen es rule: first_names.induct) auto

lemma names_exported_of:
  "ieName ` set (exported_of_comments txt cs) = (\<Union>c \<in> set cs. fst ` set (parseInlineExportedComment txt (Some c)))"
  unfolding exported_of_comments_def
  by (induction cs rule: rev_induct) (auto simp: names_add_exported names_first)

lemma no_candidate_exported:
  assumes "\<not> mayContainDirective txt inlineExportedKeywords \<or> \<not> mayContainComment txt \<or> txt = []"
    and "comment_ok txt c"
  shows "parseInlineExportedComment txt (Some c) = []"
proof -
  have "directive_value txt inlineExportedKeywords c = None"
  proof (rule ccontr)
    assume dv: "directive_value txt inlineExportedKeywords c \<noteq> None"
    then have kind: "cKind c = KindMultiLineCommentTrivia"
      by (auto simp: directive_value_def block_content_def split: option.splits if_splits)
    have "mayContainComment txt" using comment_ok_close(1) [OF assms(2) kind] mayContainComment_complete by blast
    moreover from this have "txt \<noteq> []" by auto
    ultimately show False using directive_candidate [OF assms(2) dv] assms(1) by blast
  qed
  then show ?thesis by (simp add: parseInlineExportedComment_def)
qed

text \<open>The exported names of a file are those some comment of the scanner lists, whatever shortcuts are taken.\<close>

lemma ParseInlineExported_names:
  assumes "scanner_ok scan txt"
    and "fst (ParseInlineExported scan (Some txt) (Some (NewCommentStore (Some txt)))) = (names, exported)"
  shows "exported_Has (NewExported names exported) name \<longleftrightarrow>
    (\<exists>c \<in> set (canonical scan txt). \<exists>rng. (name, rng) \<in> set (parseInlineExportedComment txt (Some c)))"
proof -
  let ?cs = "canonical scan txt"
  have ok: "comment_ok txt c" if "c \<in> set ?cs" for c using canonical_ok [OF assms(1) that] .
  have "set names = ieName ` set (exported_of_comments txt ?cs)"
  proof (cases "txt = [] \<or> \<not> mayContainDirective txt inlineExportedKeywords \<or> \<not> mayContainComment txt")
    case True
    then have "\<forall>c \<in> set ?cs. parseInlineExportedComment txt (Some c) = []" using no_candidate_exported ok by blast
    then have "ieName ` set (exported_of_comments txt ?cs) = {}" unfolding names_exported_of by simp
    with assms(2) True show ?thesis
      by (auto simp: ParseInlineExported_def store_All_def NewCommentStore_def Let_def canonical_def [symmetric] split: if_splits)
  next
    case False
    with assms(2) show ?thesis
      by (auto simp: ParseInlineExported_def store_All_def NewCommentStore_def Let_def canonical_def [symmetric]
          exported_of_comments_def [of _ "[]"] split: if_splits)
  qed
  then show ?thesis unfolding names_exported_of exported_Has_def NewExported_def by force
qed

section \<open>Properties\<close>

text \<open>
  The globals that comments declare: whatever shortcuts the parser takes, a name has a setting
  exactly when some block comment gives it a valid one; its access is that of the last such
  comment (within a comment, the last mention), and its ranges are one per such comment, in
  order (within a comment, the first mention); no name is listed twice.
\<close>

theorem ParseInlineGlobals_spec:
  assumes "scanner_ok scan txt"
    and "fst (ParseInlineGlobals scan (Some txt) (Some (NewCommentStore (Some txt)))) = (values, globals)"
  shows "distinct (map igName globals) \<and>
    lookup_global globals name = declared (decls_of txt name (canonical scan txt)) \<and>
    map_of values name = map_option fst (declared (decls_of txt name (canonical scan txt)))"
proof -
  let ?cs = "canonical scan txt" and ?gs = "globals_of_comments txt (canonical scan txt)"
  have all_ok: "\<forall>c \<in> set ?cs. comment_ok txt c" using canonical_ok [OF assms(1)] by blast
  have "globals = ?gs \<and> values = foldl (\<lambda>m g. al_update (igName g) (igAccess g) m) [] ?gs"
  proof (cases "txt = [] \<or> \<not> mayContainDirective txt inlineGlobalsKeywords \<or> \<not> mayContainComment txt")
    case True
    then have "?gs = []" using no_candidate_globals [OF _ all_ok] by blast
    with assms(2) True show ?thesis
      by (auto simp: ParseInlineGlobals_def store_All_def NewCommentStore_def Let_def canonical_def [symmetric] split: if_splits)
  next
    case False
    with assms(2) show ?thesis
      by (auto simp: ParseInlineGlobals_def store_All_def NewCommentStore_def Let_def canonical_def [symmetric]
          globals_of_comments_def [of _ "[]"] split: if_splits)
  qed
  then show ?thesis using globals_of_comments_spec [of "txt" ?cs name] values_lookup [of ?gs name] by simp
qed

definition sample_globals :: string where "sample_globals = ''/*global a*/''"

definition sample_globals_scan :: "string \<Rightarrow> CommentRange list" where
  "sample_globals_scan _ = [\<lparr>cKind = KindMultiLineCommentTrivia, cPos = 0, cEnd = 12\<rparr>]"

lemma ltrim_len_ascii:
  "of_char c < (0x80 :: nat) \<Longrightarrow> ltrim_len P (c # s) = (if P (of_char c) then Suc (ltrim_len P s) else 0)"
  by (subst ltrim_len.simps) (simp add: DecodeRune_ascii)

lemma rtrim_len_ascii:
  "of_char c < (0x80 :: nat) \<Longrightarrow> rtrim_len P (s @ [c]) = (if P (of_char c) then Suc (rtrim_len P s) else 0)"
  by (subst rtrim_len_step [of "s @ [c]" "of_char c" 1]) (simp_all add: DecodeLastRuneInString_def byte_at_def)

lemmas space_eval = IsWhiteSpaceOrLineTerminator_def IsWhiteSpace_def IsLineTerminator_def is_Zs_def

lemma sample_decl: "decl_of sample_globals ''a'' \<lparr>cKind = KindMultiLineCommentTrivia, cPos = 0, cEnd = 12\<rparr> =
  [(GlobalAccessReadonly, TextRange 9 10)]"
proof -
  have r: "rtrim_len ES_space ''global a'' = 0" "rtrim_len ES_space ''a'' = 0"
    using rtrim_len_ascii [of "CHR ''a''" ES_space "''global ''"] rtrim_len_ascii [of "CHR ''a''" ES_space "[]"]
    by (simp_all add: space_eval)
  have "block_content sample_globals \<lparr>cKind = KindMultiLineCommentTrivia, cPos = 0, cEnd = 12\<rparr> = Some (2, 10)"
    by (simp add: block_content_def sample_globals_def slice_of_def trimECMAScriptWhitespaceRange_def ltrim_len_ascii
        space_eval r)
  moreover have "matchDirectiveLabelRange sample_globals 2 10 inlineGlobalsKeywords = Some 8"
    by (simp add: inlineGlobalsKeywords_def sample_globals_def slice_of_def has_prefix_def DecodeRune_ascii space_eval)
  moreover have "find_justification ''a'' = None"
    by (subst find_justification.simps) (simp add: DecodeRune_ascii space_eval find_justification.simps [of "[]"])
  then have "findDirectiveJustification sample_globals 8 10 = None"
    by (simp add: findDirectiveJustification_def sample_globals_def slice_of_def, subst find_justification.simps)
       (simp add: DecodeRune_ascii)
  moreover have "trimECMAScriptWhitespaceRange sample_globals 8 10 = (9, 10)"
    by (simp add: trimECMAScriptWhitespaceRange_def sample_globals_def slice_of_def ltrim_len_ascii space_eval r)
  moreover have "normalizeGlobalConfigRunes sample_globals 9 10 = [\<lparr>grValue = 97, grStart = 9, grEnd = 10\<rparr>]"
    by (simp add: normalizeGlobalConfigRunes_def sample_globals_def slice_of_def, subst raw_runes.simps)
       (simp add: DecodeRune_ascii raw_runes.simps [of _ "[]"] space_eval)
  ultimately have "parseInlineGlobalComment sample_globals (Some \<lparr>cKind = KindMultiLineCommentTrivia, cPos = 0, cEnd = 12\<rparr>) =
      [\<lparr>gnName = ''a'', gnSetting = [], gnHasSetting = False, gnNameRange = TextRange 9 10\<rparr>]"
    by (simp add: parseInlineGlobalComment_def directive_value_def parseGlobalNameListEntries_def, subst name_entries.simps)
       (simp add: is_separator_def space_eval token_entry_def not_colon_def runes_text_def sample_globals_def slice_of_def
        name_entries.simps [of _ "[]"])
  then show ?thesis by (simp add: decl_of_def NormalizeInlineGlobalAccess_def)
qed

theorem ParseInlineGlobals_spec_witness:
  "map_of (fst (fst (ParseInlineGlobals sample_globals_scan (Some sample_globals) (Some (NewCommentStore (Some sample_globals))))))
     ''a'' = Some GlobalAccessReadonly"
proof -
  have "scanner_ok sample_globals_scan sample_globals"
    by (simp add: scanner_ok_def sample_globals_scan_def comment_ok_def sample_globals_def has_prefix_def)
  from ParseInlineGlobals_spec [OF this prod.collapse [symmetric], of "''a''"]
  have "map_of (fst (fst (ParseInlineGlobals sample_globals_scan (Some sample_globals) (Some (NewCommentStore (Some sample_globals))))))
     ''a'' = map_option fst (declared (decls_of sample_globals ''a'' (canonical sample_globals_scan sample_globals)))"
    by (elim conjE)
  then show ?thesis by (simp add: decls_of_def canonical_def sample_globals_scan_def sample_decl declared_def)
qed

end
