(* ===== verification/Report.thy ===== *)
theory Report
  imports Inline
begin

text \<open>
  Reporting from a rule, \<^verbatim>\<open>internal/rule/context.go\<close>: binding a context to a program and to a
  diagnostic consumer, and the report functions.

  The consumer's callback is represented by the list of diagnostics it received, a panic is the
  value \<^term>\<open>None\<close>.  A deferred builder of edits is a list with the number of times it was
  called kept in the state (\<open>fixBuilds\<close>, \<open>suggestionBuilds\<close>); a nil builder is \<^term>\<open>None\<close>.  The
  functions on nodes take the trimmed range of the node (\<open>utils.TrimNodeTextRange\<close> reads the
  typescript-go scanner).  A position before the start of the file has no place; positions are
  natural numbers.
\<close>

section \<open>Contexts\<close>

record DiagnosticConsumer =
  consDemand :: EditDemand
  consReport :: bool

record ruleContextReporter =
  repRuleName :: string
  repSeverity :: DiagnosticSeverity
  repConsumer :: DiagnosticConsumer

text \<open>What \<open>WithProgram\<close> asks of a program: its identity, validity and the files it owns.\<close>

record ProgramRef =
  pgPtr :: nat
  pgIsValid :: bool
  pgOwns :: "SourceFile \<Rightarrow> bool"

record RuleContext =
  rcSourceFile :: "SourceFile option"
  rcProgram :: "ProgramRef option"
  rcReporter :: ruleContextReporter

definition ctx_Program :: "RuleContext option \<Rightarrow> ProgramRef option" where
  "ctx_Program ctx = (case ctx of None \<Rightarrow> None | Some c \<Rightarrow> rcProgram c)"

definition WithProgram :: "RuleContext \<Rightarrow> ProgramRef option \<Rightarrow> RuleContext option" where
  "WithProgram ctx sourceProgram =
     (if rcProgram ctx \<noteq> None \<and> map_option pgPtr (rcProgram ctx) \<noteq> map_option pgPtr sourceProgram then None
      else if (case sourceProgram of None \<Rightarrow> False | Some p \<Rightarrow> \<not> pgIsValid p) then None
      else if (case (sourceProgram, rcSourceFile ctx) of (Some p, Some f) \<Rightarrow> \<not> pgOwns p f | _ \<Rightarrow> False) then None
      else Some (ctx\<lparr>rcProgram := sourceProgram\<rparr>))"

definition ctx_Severity :: "RuleContext option \<Rightarrow> DiagnosticSeverity" where
  "ctx_Severity ctx = (case ctx of None \<Rightarrow> SeverityError | Some c \<Rightarrow> repSeverity (rcReporter c))"

definition WithDiagnosticConsumer ::
  "RuleContext \<Rightarrow> string \<Rightarrow> DiagnosticSeverity \<Rightarrow> DiagnosticConsumer \<Rightarrow> RuleContext option" where
  "WithDiagnosticConsumer ctx rname severity consumer =
     (if rcSourceFile ctx = None then None
      else if \<not> consReport consumer then None
      else if \<not> EditDemand_IsValid (consDemand consumer) then None
      else Some (ctx\<lparr>rcReporter := \<lparr>repRuleName = rname, repSeverity = severity, repConsumer = consumer\<rparr>\<rparr>))"

definition WithReporter :: "RuleContext \<Rightarrow> string \<Rightarrow> DiagnosticSeverity \<Rightarrow> bool \<Rightarrow> RuleContext option" where
  "WithReporter ctx rname severity onDiagnostic =
     WithDiagnosticConsumer ctx rname severity \<lparr>consDemand = EditDemandAll, consReport = onDiagnostic\<rparr>"

section \<open>Reporting\<close>

record report_state =
  rpManager :: "DisableManager option"
  rpEmitted :: "RuleDiagnostic list"
  fixBuilds :: nat
  suggestionBuilds :: nat

record report_env =
  envScan :: "string \<Rightarrow> CommentRange list"
  envLineCol :: "nat \<Rightarrow> int \<times> int"

definition requireReporter :: "RuleContext \<Rightarrow> bool" where
  "requireReporter ctx = consReport (repConsumer (rcReporter ctx))"

definition shouldReportRange ::
  "report_env \<Rightarrow> RuleContext \<Rightarrow> TextRange \<Rightarrow> report_state \<Rightarrow> (bool \<times> report_state) option" where
  "shouldReportRange E ctx textRange s =
     (case IsRuleDisabled (envScan E) (envLineCol E) (rpManager s) (repRuleName (rcReporter ctx)) (nat (Pos textRange)) of
        None \<Rightarrow> None
      | Some (disabled, manager) \<Rightarrow> Some (\<not> disabled, s\<lparr>rpManager := manager\<rparr>))"

definition demands :: "RuleContext \<Rightarrow> EditDemand \<Rightarrow> bool" where
  "demands ctx d = (consDemand (repConsumer (rcReporter ctx)) AND d \<noteq> 0)"

definition emitRange ::
  "RuleContext \<Rightarrow> TextRange \<Rightarrow> RuleMessage \<Rightarrow> RuleFix list option \<Rightarrow> RuleSuggestion list option \<Rightarrow> report_state \<Rightarrow>
   report_state option" where
  "emitRange ctx textRange msg fixes suggestions s =
     (case rcSourceFile ctx of
        None \<Rightarrow> None
      | Some f \<Rightarrow>
          Some (s\<lparr>rpEmitted := rpEmitted s @
            [\<lparr>diagRange = textRange, diagRuleName = repRuleName (rcReporter ctx), diagMessage = msg,
              FixesPtr = fixes, Suggestions = suggestions, diagSourceFile = Some f, FilePath = sf_fileName f,
              diagSeverity = repSeverity (rcReporter ctx), diagOrigin = DiagnosticOriginLint, PreFormatted = False\<rparr>]\<rparr>))"

definition emitRangeWithFixes ::
  "RuleContext \<Rightarrow> TextRange \<Rightarrow> RuleMessage \<Rightarrow> RuleFix list \<Rightarrow> report_state \<Rightarrow> report_state option" where
  "emitRangeWithFixes ctx textRange msg fixes s = emitRange ctx textRange msg (Some fixes) None s"

definition emitRangeWithSuggestions ::
  "RuleContext \<Rightarrow> TextRange \<Rightarrow> RuleMessage \<Rightarrow> RuleSuggestion list \<Rightarrow> report_state \<Rightarrow> report_state option" where
  "emitRangeWithSuggestions ctx textRange msg suggestions s = emitRange ctx textRange msg None (Some suggestions) s"

definition emitRangeWithFixesAndSuggestions ::
  "RuleContext \<Rightarrow> TextRange \<Rightarrow> RuleMessage \<Rightarrow> RuleFix list \<Rightarrow> RuleSuggestion list \<Rightarrow> report_state \<Rightarrow> report_state option" where
  "emitRangeWithFixesAndSuggestions ctx textRange msg fixes suggestions s =
     emitRange ctx textRange msg (Some fixes) (Some suggestions) s"

definition reportRange ::
  "report_env \<Rightarrow> RuleContext \<Rightarrow> TextRange \<Rightarrow> RuleMessage \<Rightarrow> RuleFix list option \<Rightarrow> RuleSuggestion list option \<Rightarrow>
   report_state \<Rightarrow> report_state option" where
  "reportRange E ctx textRange msg fixes suggestions s =
     (case shouldReportRange E ctx textRange s of
        None \<Rightarrow> None
      | Some (False, s) \<Rightarrow> Some s
      | Some (True, s) \<Rightarrow>
          emitRange ctx textRange msg (if demands ctx EditDemandAutofix then fixes else None)
            (if demands ctx EditDemandSuggestion then suggestions else None) s)"

definition reportRangeWithDeferredFixes ::
  "report_env \<Rightarrow> RuleContext \<Rightarrow> TextRange \<Rightarrow> RuleMessage \<Rightarrow> RuleFix list \<Rightarrow> report_state \<Rightarrow> report_state option" where
  "reportRangeWithDeferredFixes E ctx textRange msg build s =
     (case shouldReportRange E ctx textRange s of
        None \<Rightarrow> None
      | Some (False, s) \<Rightarrow> Some s
      | Some (True, s) \<Rightarrow>
          if demands ctx EditDemandAutofix
          then (let s = s\<lparr>fixBuilds := Suc (fixBuilds s)\<rparr>
                in if length build > 0 then emitRangeWithFixes ctx textRange msg build s
                   else emitRange ctx textRange msg None None s)
          else emitRange ctx textRange msg None None s)"

definition reportRangeWithDeferredSuggestions ::
  "report_env \<Rightarrow> RuleContext \<Rightarrow> TextRange \<Rightarrow> RuleMessage \<Rightarrow> RuleSuggestion list \<Rightarrow> report_state \<Rightarrow> report_state option" where
  "reportRangeWithDeferredSuggestions E ctx textRange msg build s =
     (case shouldReportRange E ctx textRange s of
        None \<Rightarrow> None
      | Some (False, s) \<Rightarrow> Some s
      | Some (True, s) \<Rightarrow>
          if demands ctx EditDemandSuggestion
          then (let s = s\<lparr>suggestionBuilds := Suc (suggestionBuilds s)\<rparr>
                in if length build > 0 then emitRangeWithSuggestions ctx textRange msg build s
                   else emitRange ctx textRange msg None None s)
          else emitRange ctx textRange msg None None s)"

definition reportRangeWithDeferredFixesAndSuggestions ::
  "report_env \<Rightarrow> RuleContext \<Rightarrow> TextRange \<Rightarrow> RuleMessage \<Rightarrow> RuleFix list \<Rightarrow> RuleSuggestion list \<Rightarrow> report_state \<Rightarrow>
   report_state option" where
  "reportRangeWithDeferredFixesAndSuggestions E ctx textRange msg buildFixes buildSuggestions s =
     (case shouldReportRange E ctx textRange s of
        None \<Rightarrow> None
      | Some (False, s) \<Rightarrow> Some s
      | Some (True, s) \<Rightarrow>
          (let (fixes, s) = (if demands ctx EditDemandAutofix
                             then (buildFixes, s\<lparr>fixBuilds := Suc (fixBuilds s)\<rparr>) else ([], s));
               (suggestions, s) = (if demands ctx EditDemandSuggestion
                                   then (buildSuggestions, s\<lparr>suggestionBuilds := Suc (suggestionBuilds s)\<rparr>) else ([], s))
           in if length fixes > 0 \<and> length suggestions > 0
              then emitRangeWithFixesAndSuggestions ctx textRange msg fixes suggestions s
              else if length fixes > 0 then emitRangeWithFixes ctx textRange msg fixes s
              else if length suggestions > 0 then emitRangeWithSuggestions ctx textRange msg suggestions s
              else emitRange ctx textRange msg None None s))"

section \<open>The public functions\<close>

definition ReportRange ::
  "report_env \<Rightarrow> RuleContext \<Rightarrow> TextRange \<Rightarrow> RuleMessage \<Rightarrow> report_state \<Rightarrow> report_state option" where
  "ReportRange E ctx textRange msg s =
     (if \<not> requireReporter ctx then None else reportRange E ctx textRange msg None None s)"

definition ReportRangeWithFixes ::
  "report_env \<Rightarrow> RuleContext \<Rightarrow> TextRange \<Rightarrow> RuleMessage \<Rightarrow> RuleFix list \<Rightarrow> report_state \<Rightarrow> report_state option" where
  "ReportRangeWithFixes E ctx textRange msg fixes s =
     (if \<not> requireReporter ctx then None else reportRange E ctx textRange msg (Some fixes) None s)"

definition ReportRangeWithSuggestions ::
  "report_env \<Rightarrow> RuleContext \<Rightarrow> TextRange \<Rightarrow> RuleMessage \<Rightarrow> RuleSuggestion list \<Rightarrow> report_state \<Rightarrow> report_state option" where
  "ReportRangeWithSuggestions E ctx textRange msg suggestions s =
     (if \<not> requireReporter ctx then None else reportRange E ctx textRange msg None (Some suggestions) s)"

definition ReportRangeWithDeferredFixes ::
  "report_env \<Rightarrow> RuleContext \<Rightarrow> TextRange \<Rightarrow> RuleMessage \<Rightarrow> RuleFix list option \<Rightarrow> report_state \<Rightarrow> report_state option" where
  "ReportRangeWithDeferredFixes E ctx textRange msg build s =
     (if \<not> requireReporter ctx then None
      else case build of None \<Rightarrow> None | Some b \<Rightarrow> reportRangeWithDeferredFixes E ctx textRange msg b s)"

definition ReportRangeWithDeferredSuggestions ::
  "report_env \<Rightarrow> RuleContext \<Rightarrow> TextRange \<Rightarrow> RuleMessage \<Rightarrow> RuleSuggestion list option \<Rightarrow> report_state \<Rightarrow>
   report_state option" where
  "ReportRangeWithDeferredSuggestions E ctx textRange msg build s =
     (if \<not> requireReporter ctx then None
      else case build of None \<Rightarrow> None | Some b \<Rightarrow> reportRangeWithDeferredSuggestions E ctx textRange msg b s)"

definition ReportRangeWithDeferredFixesAndSuggestions ::
  "report_env \<Rightarrow> RuleContext \<Rightarrow> TextRange \<Rightarrow> RuleMessage \<Rightarrow> RuleFix list option \<Rightarrow> RuleSuggestion list option \<Rightarrow>
   report_state \<Rightarrow> report_state option" where
  "ReportRangeWithDeferredFixesAndSuggestions E ctx textRange msg buildFixes buildSuggestions s =
     (if \<not> requireReporter ctx then None
      else case buildFixes of
             None \<Rightarrow> None
           | Some bf \<Rightarrow>
               (case buildSuggestions of
                  None \<Rightarrow> None
                | Some bs \<Rightarrow> reportRangeWithDeferredFixesAndSuggestions E ctx textRange msg bf bs s))"

definition ReportRangeWithFixesAndSuggestions ::
  "report_env \<Rightarrow> RuleContext \<Rightarrow> TextRange \<Rightarrow> RuleMessage \<Rightarrow> RuleFix list \<Rightarrow> RuleSuggestion list \<Rightarrow> report_state \<Rightarrow>
   report_state option" where
  "ReportRangeWithFixesAndSuggestions E ctx textRange msg fixes suggestions s =
     (if \<not> requireReporter ctx then None else reportRange E ctx textRange msg (Some fixes) (Some suggestions) s)"

text \<open>The twins on nodes; \<open>trim\<close> is \<open>utils.TrimNodeTextRange\<close> of the file.\<close>

definition ReportNode ::
  "('n \<Rightarrow> TextRange) \<Rightarrow> report_env \<Rightarrow> RuleContext \<Rightarrow> 'n \<Rightarrow> RuleMessage \<Rightarrow> report_state \<Rightarrow> report_state option" where
  "ReportNode trim E ctx node msg s =
     (if \<not> requireReporter ctx then None else reportRange E ctx (trim node) msg None None s)"

definition ReportNodeWithFixes ::
  "('n \<Rightarrow> TextRange) \<Rightarrow> report_env \<Rightarrow> RuleContext \<Rightarrow> 'n \<Rightarrow> RuleMessage \<Rightarrow> RuleFix list \<Rightarrow> report_state \<Rightarrow> report_state option" where
  "ReportNodeWithFixes trim E ctx node msg fixes s =
     (if \<not> requireReporter ctx then None else reportRange E ctx (trim node) msg (Some fixes) None s)"

definition ReportNodeWithSuggestions ::
  "('n \<Rightarrow> TextRange) \<Rightarrow> report_env \<Rightarrow> RuleContext \<Rightarrow> 'n \<Rightarrow> RuleMessage \<Rightarrow> RuleSuggestion list \<Rightarrow> report_state \<Rightarrow>
   report_state option" where
  "ReportNodeWithSuggestions trim E ctx node msg suggestions s =
     (if \<not> requireReporter ctx then None else reportRange E ctx (trim node) msg None (Some suggestions) s)"

definition ReportNodeWithDeferredFixes ::
  "('n \<Rightarrow> TextRange) \<Rightarrow> report_env \<Rightarrow> RuleContext \<Rightarrow> 'n \<Rightarrow> RuleMessage \<Rightarrow> RuleFix list option \<Rightarrow> report_state \<Rightarrow>
   report_state option" where
  "ReportNodeWithDeferredFixes trim E ctx node msg build s =
     (if \<not> requireReporter ctx then None
      else case build of None \<Rightarrow> None | Some b \<Rightarrow> reportRangeWithDeferredFixes E ctx (trim node) msg b s)"

definition ReportNodeWithDeferredSuggestions ::
  "('n \<Rightarrow> TextRange) \<Rightarrow> report_env \<Rightarrow> RuleContext \<Rightarrow> 'n \<Rightarrow> RuleMessage \<Rightarrow> RuleSuggestion list option \<Rightarrow> report_state \<Rightarrow>
   report_state option" where
  "ReportNodeWithDeferredSuggestions trim E ctx node msg build s =
     (if \<not> requireReporter ctx then None
      else case build of None \<Rightarrow> None | Some b \<Rightarrow> reportRangeWithDeferredSuggestions E ctx (trim node) msg b s)"

definition ReportNodeWithDeferredFixesAndSuggestions ::
  "('n \<Rightarrow> TextRange) \<Rightarrow> report_env \<Rightarrow> RuleContext \<Rightarrow> 'n \<Rightarrow> RuleMessage \<Rightarrow> RuleFix list option \<Rightarrow>
   RuleSuggestion list option \<Rightarrow> report_state \<Rightarrow> report_state option" where
  "ReportNodeWithDeferredFixesAndSuggestions trim E ctx node msg buildFixes buildSuggestions s =
     (if \<not> requireReporter ctx then None
      else case buildFixes of
             None \<Rightarrow> None
           | Some bf \<Rightarrow>
               (case buildSuggestions of
                  None \<Rightarrow> None
                | Some bs \<Rightarrow> reportRangeWithDeferredFixesAndSuggestions E ctx (trim node) msg bf bs s))"

definition ReportNodeWithFixesAndSuggestions ::
  "('n \<Rightarrow> TextRange) \<Rightarrow> report_env \<Rightarrow> RuleContext \<Rightarrow> 'n \<Rightarrow> RuleMessage \<Rightarrow> RuleFix list \<Rightarrow> RuleSuggestion list \<Rightarrow>
   report_state \<Rightarrow> report_state option" where
  "ReportNodeWithFixesAndSuggestions trim E ctx node msg fixes suggestions s =
     (if \<not> requireReporter ctx then None else reportRange E ctx (trim node) msg (Some fixes) (Some suggestions) s)"

definition ReportNodeWithFixesOrSuggestions ::
  "('n \<Rightarrow> TextRange) \<Rightarrow> report_env \<Rightarrow> RuleContext \<Rightarrow> 'n \<Rightarrow> bool \<Rightarrow> RuleMessage \<Rightarrow> RuleMessage \<Rightarrow> RuleFix list \<Rightarrow>
   report_state \<Rightarrow> report_state option" where
  "ReportNodeWithFixesOrSuggestions trim E ctx node fx msg suggestionMsg fixes s =
     (if fx then ReportNodeWithFixes trim E ctx node msg fixes s
      else ReportNodeWithSuggestions trim E ctx node msg [\<lparr>sugMessage = suggestionMsg, FixesArr = fixes\<rparr>] s)"

section \<open>Sequences of reports\<close>

text \<open>What a rule may ask of its context.\<close>

datatype report_call =
    CallRange TextRange RuleMessage
  | CallFixes TextRange RuleMessage "RuleFix list"
  | CallSuggestions TextRange RuleMessage "RuleSuggestion list"
  | CallBoth TextRange RuleMessage "RuleFix list" "RuleSuggestion list"
  | CallDeferredFixes TextRange RuleMessage "RuleFix list option"
  | CallDeferredSuggestions TextRange RuleMessage "RuleSuggestion list option"
  | CallDeferredBoth TextRange RuleMessage "RuleFix list option" "RuleSuggestion list option"

fun perform :: "report_env \<Rightarrow> RuleContext \<Rightarrow> report_call \<Rightarrow> report_state \<Rightarrow> report_state option" where
  "perform E ctx (CallRange r m) s = ReportRange E ctx r m s"
| "perform E ctx (CallFixes r m fs) s = ReportRangeWithFixes E ctx r m fs s"
| "perform E ctx (CallSuggestions r m ss) s = ReportRangeWithSuggestions E ctx r m ss s"
| "perform E ctx (CallBoth r m fs ss) s = ReportRangeWithFixesAndSuggestions E ctx r m fs ss s"
| "perform E ctx (CallDeferredFixes r m b) s = ReportRangeWithDeferredFixes E ctx r m b s"
| "perform E ctx (CallDeferredSuggestions r m b) s = ReportRangeWithDeferredSuggestions E ctx r m b s"
| "perform E ctx (CallDeferredBoth r m bf bs) s = ReportRangeWithDeferredFixesAndSuggestions E ctx r m bf bs s"

fun perform_all :: "report_env \<Rightarrow> RuleContext \<Rightarrow> report_call list \<Rightarrow> report_state \<Rightarrow> report_state option" where
  "perform_all E ctx [] s = Some s"
| "perform_all E ctx (c # cs) s = (case perform E ctx c s of None \<Rightarrow> None | Some s \<Rightarrow> perform_all E ctx cs s)"

definition without_edits :: "RuleDiagnostic \<Rightarrow> RuleDiagnostic" where
  "without_edits d = d\<lparr>FixesPtr := None, Suggestions := None\<rparr>"

text \<open>Two states of one run under different demands.\<close>

definition same_reports :: "report_state \<Rightarrow> report_state \<Rightarrow> bool" where
  "same_reports s t \<longleftrightarrow> rpManager s = rpManager t \<and> map without_edits (rpEmitted s) = map without_edits (rpEmitted t)"

definition with_demand :: "EditDemand \<Rightarrow> RuleContext \<Rightarrow> RuleContext" where
  "with_demand d ctx = ctx\<lparr>rcReporter := (rcReporter ctx)\<lparr>repConsumer := (repConsumer (rcReporter ctx))\<lparr>consDemand := d\<rparr>\<rparr>\<rparr>"

lemmas public_defs = ReportRange_def ReportRangeWithFixes_def ReportRangeWithSuggestions_def
  ReportRangeWithFixesAndSuggestions_def ReportRangeWithDeferredFixes_def ReportRangeWithDeferredSuggestions_def
  ReportRangeWithDeferredFixesAndSuggestions_def

lemmas report_defs = reportRange_def reportRangeWithDeferredFixes_def reportRangeWithDeferredSuggestions_def
  reportRangeWithDeferredFixesAndSuggestions_def emitRangeWithFixes_def emitRangeWithSuggestions_def
  emitRangeWithFixesAndSuggestions_def

text \<open>Every report is a decision, counters, and at most one emission.\<close>

definition call_range :: "report_call \<Rightarrow> TextRange" where
  "call_range c = (case c of CallRange r _ \<Rightarrow> r | CallFixes r _ _ \<Rightarrow> r | CallSuggestions r _ _ \<Rightarrow> r | CallBoth r _ _ _ \<Rightarrow> r
     | CallDeferredFixes r _ _ \<Rightarrow> r | CallDeferredSuggestions r _ _ \<Rightarrow> r | CallDeferredBoth r _ _ _ \<Rightarrow> r)"

definition call_message :: "report_call \<Rightarrow> RuleMessage" where
  "call_message c = (case c of CallRange _ m \<Rightarrow> m | CallFixes _ m _ \<Rightarrow> m | CallSuggestions _ m _ \<Rightarrow> m | CallBoth _ m _ _ \<Rightarrow> m
     | CallDeferredFixes _ m _ \<Rightarrow> m | CallDeferredSuggestions _ m _ \<Rightarrow> m | CallDeferredBoth _ m _ _ \<Rightarrow> m)"

definition nil_builder :: "report_call \<Rightarrow> bool" where
  "nil_builder c = (case c of CallDeferredFixes _ _ b \<Rightarrow> b = None | CallDeferredSuggestions _ _ b \<Rightarrow> b = None
     | CallDeferredBoth _ _ bf bs \<Rightarrow> bf = None \<or> bs = None | _ \<Rightarrow> False)"

definition bare_diagnostic :: "RuleContext \<Rightarrow> SourceFile \<Rightarrow> report_call \<Rightarrow> RuleDiagnostic" where
  "bare_diagnostic ctx f c =
     \<lparr>diagRange = call_range c, diagRuleName = repRuleName (rcReporter ctx), diagMessage = call_message c,
      FixesPtr = None, Suggestions = None, diagSourceFile = Some f, FilePath = sf_fileName f,
      diagSeverity = repSeverity (rcReporter ctx), diagOrigin = DiagnosticOriginLint, PreFormatted = False\<rparr>"

definition call_fixes :: "RuleContext \<Rightarrow> report_call \<Rightarrow> RuleFix list option" where
  "call_fixes ctx c =
     (if \<not> demands ctx EditDemandAutofix then None
      else case c of
        CallFixes _ _ fs \<Rightarrow> Some fs
      | CallBoth _ _ fs _ \<Rightarrow> Some fs
      | CallDeferredFixes _ _ b \<Rightarrow> (if b = Some [] then None else b)
      | CallDeferredBoth _ _ b _ \<Rightarrow> (if b = Some [] then None else b)
      | _ \<Rightarrow> None)"

definition call_suggestions :: "RuleContext \<Rightarrow> report_call \<Rightarrow> RuleSuggestion list option" where
  "call_suggestions ctx c =
     (if \<not> demands ctx EditDemandSuggestion then None
      else case c of
        CallSuggestions _ _ ss \<Rightarrow> Some ss
      | CallBoth _ _ _ ss \<Rightarrow> Some ss
      | CallDeferredSuggestions _ _ b \<Rightarrow> (if b = Some [] then None else b)
      | CallDeferredBoth _ _ _ b \<Rightarrow> (if b = Some [] then None else b)
      | _ \<Rightarrow> None)"

definition fix_runs :: "RuleContext \<Rightarrow> report_call \<Rightarrow> nat" where
  "fix_runs ctx c =
     (if \<not> demands ctx EditDemandAutofix then 0
      else case c of CallDeferredFixes _ _ _ \<Rightarrow> 1 | CallDeferredBoth _ _ _ _ \<Rightarrow> 1 | _ \<Rightarrow> 0)"

definition suggestion_runs :: "RuleContext \<Rightarrow> report_call \<Rightarrow> nat" where
  "suggestion_runs ctx c =
     (if \<not> demands ctx EditDemandSuggestion then 0
      else case c of CallDeferredSuggestions _ _ _ \<Rightarrow> 1 | CallDeferredBoth _ _ _ _ \<Rightarrow> 1 | _ \<Rightarrow> 0)"

definition reported :: "RuleContext \<Rightarrow> SourceFile \<Rightarrow> report_call \<Rightarrow> report_state \<Rightarrow> report_state" where
  "reported ctx f c s =
     s\<lparr>rpEmitted := rpEmitted s @ [(bare_diagnostic ctx f c)\<lparr>FixesPtr := call_fixes ctx c, Suggestions := call_suggestions ctx c\<rparr>],
       fixBuilds := fixBuilds s + fix_runs ctx c,
       suggestionBuilds := suggestionBuilds s + suggestion_runs ctx c\<rparr>"

lemmas call_defs = call_range_def call_message_def nil_builder_def bare_diagnostic_def call_fixes_def
  call_suggestions_def fix_runs_def suggestion_runs_def reported_def

lemma perform_decides:
  "perform E ctx c s =
     (if \<not> requireReporter ctx \<or> nil_builder c then None
      else case shouldReportRange E ctx (call_range c) s of
             None \<Rightarrow> None
           | Some (True, s') \<Rightarrow> map_option (\<lambda>f. reported ctx f c s') (rcSourceFile ctx)
           | Some (False, s') \<Rightarrow> Some s')"
  by (cases c)
     (auto simp: public_defs report_defs call_defs emitRange_def Let_def split: option.splits bool.splits)

text \<open>The decision reads the manager and the rule name, nothing a demand changes.\<close>

lemma with_demand_sel [simp]:
  "rcSourceFile (with_demand d ctx) = rcSourceFile ctx"
  "repRuleName (rcReporter (with_demand d ctx)) = repRuleName (rcReporter ctx)"
  "repSeverity (rcReporter (with_demand d ctx)) = repSeverity (rcReporter ctx)"
  "requireReporter (with_demand d ctx) = requireReporter ctx"
  by (simp_all add: with_demand_def requireReporter_def)

lemma demands_with_demand [simp]: "demands (with_demand d ctx) k \<longleftrightarrow> d AND k \<noteq> 0"
  by (simp add: demands_def with_demand_def)

lemma bare_with_demand [simp]: "bare_diagnostic (with_demand d ctx) f c = bare_diagnostic ctx f c"
  by (simp add: bare_diagnostic_def)

lemma shouldReport_same:
  assumes "same_reports s t"
  shows "rel_option (rel_prod (=) same_reports) (shouldReportRange E (with_demand d ctx) r s)
           (shouldReportRange E (with_demand e ctx) r t)"
  using assms by (auto simp: shouldReportRange_def same_reports_def split: option.splits)

lemma reported_same:
  "same_reports s t \<Longrightarrow> same_reports (reported (with_demand d ctx) f c s) (reported (with_demand e ctx) f c t)"
  by (simp add: same_reports_def reported_def without_edits_def)

lemma perform_same:
  assumes "same_reports s t"
  shows "rel_option same_reports (perform E (with_demand d ctx) c s) (perform E (with_demand e ctx) c t)"
  using shouldReport_same [OF assms, of E d ctx "call_range c" e]
  by (auto simp: perform_decides option_rel_Some1 option_rel_Some2 option.rel_map reported_same
           split: option.splits bool.splits intro!: option.rel_refl_strong)

lemma perform_all_same:
  assumes "same_reports s t"
  shows "rel_option same_reports (perform_all E (with_demand d ctx) cs s) (perform_all E (with_demand e ctx) cs t)"
  using assms
proof (induction cs arbitrary: s t)
  case (Cons c cs)
  then show ?case
    using perform_same [OF Cons.prems, of E d ctx c e] by (auto split: option.splits elim: option.rel_cases)
qed simp

text \<open>
  Claim C20.  A consumer's demand for edits controls materialization only: whatever a rule reports,
  two runs that differ in the demand panic together, leave the disable manager in the same state
  and emit the same diagnostics in the same order up to their fixes and suggestions.  The messages,
  ranges, severities and the suppression by directives do not depend on it.
\<close>

theorem reports_demand_independent:
  "rel_option same_reports (perform_all E (with_demand d ctx) cs s) (perform_all E (with_demand e ctx) cs s)"
  by (rule perform_all_same) (simp add: same_reports_def)

section \<open>Reports and suppression comments\<close>

definition suppressed_call :: "report_env \<Rightarrow> RuleContext \<Rightarrow> string \<Rightarrow> report_call \<Rightarrow> bool" where
  "suppressed_call E ctx src c =
     suppressed (file_directives (envScan E) (envLineCol E) src) (repRuleName (rcReporter ctx))
       (envLineCol E (nat (Pos (call_range c))))"

definition shown_calls :: "report_env \<Rightarrow> RuleContext \<Rightarrow> string \<Rightarrow> report_call list \<Rightarrow> report_call list" where
  "shown_calls E ctx src cs = filter (\<lambda>c. \<not> suppressed_call E ctx src c) cs"

definition call_diagnostic :: "RuleContext \<Rightarrow> SourceFile \<Rightarrow> report_call \<Rightarrow> RuleDiagnostic" where
  "call_diagnostic ctx f c = (bare_diagnostic ctx f c)\<lparr>FixesPtr := call_fixes ctx c, Suggestions := call_suggestions ctx c\<rparr>"

text \<open>A manager of the text \<open>src\<close>, asked before or not.\<close>

abbreviation manages :: "report_env \<Rightarrow> string \<Rightarrow> report_state \<Rightarrow> bool" where
  "manages E src s \<equiv> managed (envScan E) (envLineCol E) src (rpManager s)"

lemma shouldReport_manages:
  assumes "manages E src s"
  obtains s' where "shouldReportRange E ctx (call_range c) s = Some (\<not> suppressed_call E ctx src c, s')" and "manages E src s'"
    and "rpEmitted s' = rpEmitted s" and "fixBuilds s' = fixBuilds s" and "suggestionBuilds s' = suggestionBuilds s"
proof -
  obtain m where m: "IsRuleDisabled (envScan E) (envLineCol E) (rpManager s) (repRuleName (rcReporter ctx)) (nat (Pos (call_range c))) =
      Some (suppressed_call E ctx src c, m)" "managed (envScan E) (envLineCol E) src m"
    using manager.ask_ready [OF assms] unfolding suppressed_call_def by blast
  show thesis by (rule that [of "s\<lparr>rpManager := m\<rparr>"]) (simp_all add: shouldReportRange_def m)
qed

lemma perform_all_shown:
  assumes "requireReporter ctx" and "rcSourceFile ctx = Some f"
    and "list_all (\<lambda>c. \<not> nil_builder c) cs" and "manages E src s"
  shows "\<exists>s'. perform_all E ctx cs s = Some s' \<and>
     rpEmitted s' = rpEmitted s @ map (call_diagnostic ctx f) (shown_calls E ctx src cs) \<and>
     fixBuilds s' = fixBuilds s + sum_list (map (fix_runs ctx) (shown_calls E ctx src cs)) \<and>
     suggestionBuilds s' = suggestionBuilds s + sum_list (map (suggestion_runs ctx) (shown_calls E ctx src cs))"
  using assms(3,4)
proof (induction cs arbitrary: s)
  case Nil
  then show ?case by (simp add: shown_calls_def)
next
  case (Cons c cs)
  obtain s1 where s1: "shouldReportRange E ctx (call_range c) s = Some (\<not> suppressed_call E ctx src c, s1)" "manages E src s1"
    "rpEmitted s1 = rpEmitted s" "fixBuilds s1 = fixBuilds s" "suggestionBuilds s1 = suggestionBuilds s"
    using shouldReport_manages [OF Cons.prems(2)] by blast
  let ?s2 = "if suppressed_call E ctx src c then s1 else reported ctx f c s1"
  have "perform E ctx c s = Some ?s2"
    using assms(1,2) Cons.prems(1) s1(1) by (simp add: perform_decides)
  moreover have "manages E src ?s2" using s1(2) by (simp add: reported_def)
  ultimately show ?case using Cons.IH [of ?s2] Cons.prems(1) s1(3-5)
    by (cases "suppressed_call E ctx src c") (auto simp: shown_calls_def reported_def call_diagnostic_def)
qed

text \<open>
  Claim C19.  What a file's consumer receives: in a bound context over a file whose directives the manager reads,
  any sequence of reports with builders returns; the consumer gets, in order, one diagnostic for
  each report that no directive of the file suppresses, with the edits the demand admits (an empty deferred
  result attaches none), and a builder runs exactly once for each such report whose kind of edit
  is demanded, never for a suppressed one.
\<close>

theorem perform_all_spec:
  assumes "scanner_ok (envScan E) src" and "places_ok (envLineCol E)"
    and "WithDiagnosticConsumer ctx0 rname severity consumer = Some ctx" and "rcSourceFile ctx0 = Some f"
    and "list_all (\<lambda>c. \<not> nil_builder c) cs" and "rpManager s = Some (fresh_manager src)"
  shows "\<exists>s'. perform_all E ctx cs s = Some s' \<and>
     rpEmitted s' = rpEmitted s @ map (call_diagnostic ctx f) (shown_calls E ctx src cs) \<and>
     fixBuilds s' = fixBuilds s + sum_list (map (fix_runs ctx) (shown_calls E ctx src cs)) \<and>
     suggestionBuilds s' = suggestionBuilds s + sum_list (map (suggestion_runs ctx) (shown_calls E ctx src cs))"
proof (rule perform_all_shown [OF _ _ assms(5)])
  show "requireReporter ctx" "rcSourceFile ctx = Some f"
    using assms(3,4) by (auto simp: WithDiagnosticConsumer_def requireReporter_def split: if_splits)
qed (use assms(1,2,6) in \<open>simp add: managed_def\<close>)

definition sample_env :: "(string \<Rightarrow> CommentRange list) \<Rightarrow> report_env" where
  "sample_env scan = \<lparr>envScan = scan, envLineCol = \<lambda>p. (0, int p)\<rparr>"

definition sample_unbound :: RuleContext where
  "sample_unbound = \<lparr>rcSourceFile = Some \<lparr>sf_ptr = 0, sf_fileName = ''a.ts'', sf_text = sample_source\<rparr>, rcProgram = None,
     rcReporter = \<lparr>repRuleName = [], repSeverity = SeverityError, repConsumer = \<lparr>consDemand = 0, consReport = False\<rparr>\<rparr>\<rparr>"

definition sample_bound :: RuleContext where
  "sample_bound = sample_unbound\<lparr>rcReporter := \<lparr>repRuleName = ''r'', repSeverity = SeverityError,
     repConsumer = \<lparr>consDemand = EditDemandAll, consReport = True\<rparr>\<rparr>\<rparr>"

definition sample_calls :: "report_call list" where
  "sample_calls = [CallDeferredFixes (TextRange 3 4) \<lparr>msgId = ''m'', msgDescription = [], msgData = Map.empty\<rparr>
     (Some [RuleFixRemoveRange (TextRange 3 4)])]"

definition sample_state :: report_state where
  "sample_state = \<lparr>rpManager = Some (fresh_manager sample_source), rpEmitted = [], fixBuilds = 0, suggestionBuilds = 0\<rparr>"

lemma sample_ok:
  "scanner_ok (envScan (sample_env sample_scan)) sample_source" "scanner_ok (envScan (sample_env (\<lambda>_. []))) sample_source"
  "places_ok (envLineCol (sample_env scan))"
  "WithReporter sample_unbound ''r'' SeverityError True = Some sample_bound"
  "list_all (\<lambda>c. \<not> nil_builder c) sample_calls" "rpManager sample_state = Some (fresh_manager sample_source)"
  by (simp_all add: scanner_ok_def sample_env_def sample_scan_def comment_ok_def sample_source_def has_prefix_def
      places_ok_def not_after_def WithReporter_def WithDiagnosticConsumer_def sample_unbound_def sample_bound_def
      EditDemand_IsValid_def EditDemandAll_def EditDemandAutofix_def EditDemandSuggestion_def sample_calls_def nil_builder_def sample_state_def)

text \<open>With the directive of the sample the report is suppressed, without it the builder runs once.\<close>

lemma sample_shown:
  "shown_calls (sample_env sample_scan) sample_bound sample_source sample_calls = []"
  "shown_calls (sample_env (\<lambda>_. [])) sample_bound sample_source sample_calls = sample_calls"
proof -
  have "file_directives (\<lambda>_. []) lc sample_source = []" for lc
    by (simp add: file_directives_def canonical_def directives_of_def)
  then show "shown_calls (sample_env sample_scan) sample_bound sample_source sample_calls = []"
    "shown_calls (sample_env (\<lambda>_. [])) sample_bound sample_source sample_calls = sample_calls"
    by (simp_all add: shown_calls_def sample_calls_def suppressed_call_def sample_env_def sample_directives
        suppressed_def block_suppressed_def line_suppressed_def not_after_def names_rule_def call_range_def)
qed

lemma sample_edits:
  "map (FixesPtr \<circ> call_diagnostic sample_bound f) sample_calls = [Some [RuleFixRemoveRange (TextRange 3 4)]]"
  "sum_list (map (fix_runs sample_bound) sample_calls) = 1"
  by (simp_all add: sample_calls_def call_diagnostic_def call_fixes_def fix_runs_def demands_def sample_bound_def
      EditDemandAll_def EditDemandAutofix_def EditDemandSuggestion_def)

theorem perform_all_spec_witness:
  "(\<exists>s. perform_all (sample_env sample_scan) sample_bound sample_calls sample_state = Some s \<and>
      rpEmitted s = [] \<and> fixBuilds s = 0) \<and>
   (\<exists>s. perform_all (sample_env (\<lambda>_. [])) sample_bound sample_calls sample_state = Some s \<and>
      map FixesPtr (rpEmitted s) = [Some [RuleFixRemoveRange (TextRange 3 4)]] \<and> fixBuilds s = 1)"
proof -
  note spec = perform_all_spec [OF _ sample_ok(3) sample_ok(4) [unfolded WithReporter_def] _ sample_ok(5,6)]
  show ?thesis using spec [OF sample_ok(1)] spec [OF sample_ok(2)]
    by (auto simp: sample_shown sample_unbound_def sample_edits) (auto simp: sample_state_def sample_edits)
qed

end
