(* ===== verification/Ipc_Frame.thy ===== *)
theory Ipc_Frame
  imports Prelude "HOL-Library.Word"
begin

text \<open>
  The frames of the transport between the Go process and its Node peer,
  \<^verbatim>\<open>internal/ipc/frame.go\<close>: a little-endian 32-bit length and a JSON body.

  Bytes are characters, as in the other theories.  \<open>encoding/json\<close> is a parameter: \<open>enc\<close> stands for
  \<open>marshalJSON\<close> of a message, \<open>dec\<close> for \<open>json.Unmarshal\<close> into one.  A writer answers every call; an
  answer \<open>Wrote n e\<close> is what \<open>Write\<close> returns, and the first \<open>n\<close> bytes have reached the peer (also
  when it panics).  A
  reader is the list of bytes it will still deliver and the error it returns after them.
\<close>

unbundle bit_operations_syntax

section \<open>Errors and messages\<close>

text \<open>The sentinels of \<open>io\<close> and of the package; a text (with its operands); a text wrapping errors;
  \<open>errors.Join\<close>; an error of a foreign reader, writer or handler.\<close>

datatype ipc_error =
    EOF
  | ErrUnexpectedEOF
  | ErrShortWrite
  | errTerminalResponse
  | errWriteNotAdmitted
  | ErrText string
  | ErrNums string "int list"
  | ErrWrap string "int list" "ipc_error list"
  | ErrJoined "ipc_error list"
  | ErrForeign string

text \<open>\<open>errors.Is\<close> for a sentinel.\<close>

fun ipc_Is :: "ipc_error \<Rightarrow> ipc_error \<Rightarrow> bool" where
  "ipc_Is (ErrWrap _ _ es) target = list_ex (\<lambda>e. ipc_Is e target) es"
| "ipc_Is (ErrJoined es) target = list_ex (\<lambda>e. ipc_Is e target) es"
| "ipc_Is e target = (e = target)"

type_synonym MessageKind = string

definition KindResponse :: MessageKind where "KindResponse = ''response''"
definition KindError :: MessageKind where "KindError = ''error''"
definition KindHandshake :: MessageKind where "KindHandshake = ''handshake''"
definition KindExit :: MessageKind where "KindExit = ''exit''"

record Message =
  msKind :: MessageKind
  msID :: int
  msData :: string

definition maxFrameSize :: nat where
  "maxFrameSize = 256 * 1024 * 1024"

text \<open>A payload is nil, a nil pointer, map or slice, or a value that can be marshalled.\<close>

datatype 'p payload = UntypedNil | TypedNil | Payload 'p

datatype marshalled = Marshalled string | MarshalFailed ipc_error | MarshalPanics string

definition isNilPayload :: "'p payload \<Rightarrow> bool" where
  "isNilPayload p = (case p of UntypedNil \<Rightarrow> True | TypedNil \<Rightarrow> True | Payload _ \<Rightarrow> False)"

datatype new_message = MessageOK Message | MessageFailed ipc_error | MessagePanics string

definition NewMessage :: "('p \<Rightarrow> marshalled) \<Rightarrow> MessageKind \<Rightarrow> int \<Rightarrow> 'p payload \<Rightarrow> new_message" where
  "NewMessage marshal kind ident p =
     (case p of
        Payload v \<Rightarrow>
          (case marshal v of
             Marshalled raw \<Rightarrow> MessageOK \<lparr>msKind = kind, msID = ident, msData = raw\<rparr>
           | MarshalFailed e \<Rightarrow> MessageFailed (ErrWrap (''ipc: marshal payload (kind='' @ kind @ ''): %w'') [] [e])
           | MarshalPanics x \<Rightarrow> MessagePanics x)
      | _ \<Rightarrow> MessageOK \<lparr>msKind = kind, msID = ident, msData = []\<rparr>)"

lemma NewMessage_nil: "isNilPayload p \<Longrightarrow> NewMessage marshal kind ident p = MessageOK \<lparr>msKind = kind, msID = ident, msData = []\<rparr>"
  by (cases p) (simp_all add: isNilPayload_def NewMessage_def)

text \<open>\<open>Message.Decode\<close> into a value, \<open>unmarshal\<close> being \<open>json.Unmarshal\<close>.\<close>

definition Decode :: "(string \<Rightarrow> ipc_error + 'v) \<Rightarrow> 'v \<Rightarrow> Message \<Rightarrow> ipc_error + 'v" where
  "Decode unmarshal v m =
     (if length (msData m) = 0 then Inr v
      else case unmarshal (msData m) of
             Inl e \<Rightarrow> Inl (ErrWrap (''ipc: decode message data (kind='' @ msKind m @ ''): %w'') [] [e])
           | Inr w \<Rightarrow> Inr w)"

section \<open>Words on the wire\<close>

definition PutUint32 :: "32 word \<Rightarrow> string" where
  "PutUint32 v = [char_of (unat v), char_of (unat (drop_bit 8 v)), char_of (unat (drop_bit 16 v)), char_of (unat (drop_bit 24 v))]"

definition byte_word :: "char \<Rightarrow> 32 word" where
  "byte_word c = of_nat (of_char c)"

definition Uint32 :: "string \<Rightarrow> 32 word" where
  "Uint32 b = byte_word (b ! 0) OR push_bit 8 (byte_word (b ! 1)) OR push_bit 16 (byte_word (b ! 2)) OR push_bit 24 (byte_word (b ! 3))"

lemma length_PutUint32 [simp]: "length (PutUint32 v) = 4"
  by (simp add: PutUint32_def)

lemma byte_word_char: "byte_word (char_of (unat v)) = take_bit 8 v"
proof -
  have "of_char (char_of (unat v) :: char) = unat v mod 256" by simp
  also have "\<dots> = unat (take_bit 8 v)" by (simp add: take_bit_eq_mod unat_mod)
  finally show ?thesis by (simp add: byte_word_def)
qed

lemma Uint32_PutUint32 [simp]: "Uint32 (PutUint32 v) = v"
proof (rule bit_word_eqI)
  fix n
  assume "n < LENGTH(32)"
  then have "n < 8 \<or> (8 \<le> n \<and> n < 16) \<or> (16 \<le> n \<and> n < 24) \<or> (24 \<le> n \<and> n < 32)" by auto
  then show "bit (Uint32 (PutUint32 v)) n \<longleftrightarrow> bit v n"
    by (auto simp: Uint32_def PutUint32_def byte_word_char bit_simps)
qed

section \<open>Reading\<close>

record byte_stream =
  bsBytes :: string
  bsEnd :: ipc_error

text \<open>\<open>io.ReadFull\<close>, which \<open>binary.Read\<close> uses as well.\<close>

definition read_full :: "nat \<Rightarrow> byte_stream \<Rightarrow> (ipc_error + string) \<times> byte_stream" where
  "read_full n r =
     (if n \<le> length (bsBytes r) then (Inr (take n (bsBytes r)), r\<lparr>bsBytes := drop n (bsBytes r)\<rparr>)
      else (Inl (if bsEnd r = EOF \<and> bsBytes r \<noteq> [] then ErrUnexpectedEOF else bsEnd r), r\<lparr>bsBytes := []\<rparr>))"

definition ReadFrame :: "(string \<Rightarrow> ipc_error + Message) \<Rightarrow> byte_stream \<Rightarrow> (ipc_error + Message) \<times> byte_stream" where
  "ReadFrame dec r =
     (case read_full 4 r of
        (Inl e, r) \<Rightarrow> (Inl e, r)
      | (Inr b, r) \<Rightarrow>
          (let len = unat (Uint32 b)
           in if len > maxFrameSize
              then (Inl (ErrNums ''ipc: frame length %d exceeds cap %d (likely stream desync)'' [int len, int maxFrameSize]), r)
              else (case read_full len r of
                      (Inl e, r) \<Rightarrow> (Inl (ErrWrap ''ipc: read frame body (len=%d): %w'' [int len] [e]), r)
                    | (Inr body, r) \<Rightarrow>
                        (case dec body of
                           Inl e \<Rightarrow> (Inl (ErrWrap ''ipc: decode frame (len=%d): %w'' [int len] [e]), r)
                         | Inr msg \<Rightarrow> (Inr msg, r)))))"

section \<open>Writing\<close>

datatype write_answer = Wrote nat "ipc_error option" | WritePanics nat string

text \<open>The calls a writer has seen and the bytes that reached the peer.\<close>

record wire =
  wrCalls :: nat
  wrBytes :: string

type_synonym io_writer = "nat \<Rightarrow> string \<Rightarrow> write_answer"

datatype write_end = WriteOK | WriteFailed ipc_error | WritePanicked string

definition writeExact :: "io_writer \<Rightarrow> string \<Rightarrow> wire \<Rightarrow> write_end \<times> wire" where
  "writeExact w p s =
     (case w (wrCalls s) p of
        WritePanics n x \<Rightarrow> (WritePanicked x, s\<lparr>wrCalls := Suc (wrCalls s), wrBytes := wrBytes s @ take n p\<rparr>)
      | Wrote n e \<Rightarrow>
          ((case e of Some e \<Rightarrow> WriteFailed e
            | None \<Rightarrow> if n \<noteq> length p then WriteFailed ErrShortWrite else WriteOK),
           s\<lparr>wrCalls := Suc (wrCalls s), wrBytes := wrBytes s @ take n p\<rparr>))"

definition WriteFrame ::
  "(Message \<Rightarrow> ipc_error + string) \<Rightarrow> io_writer \<Rightarrow> Message \<Rightarrow> wire \<Rightarrow> write_end \<times> wire" where
  "WriteFrame enc w msg s =
     (case enc msg of
        Inl e \<Rightarrow> (WriteFailed (ErrWrap (''ipc: encode frame (kind='' @ msKind msg @ ''): %w'') [] [e]), s)
      | Inr body \<Rightarrow>
          if length body > maxFrameSize
          then (WriteFailed (ErrNums ''ipc: frame body %d exceeds cap %d'' [int (length body), int maxFrameSize]), s)
          else (case writeExact w (PutUint32 (of_nat (length body))) s of
                  (WriteFailed e, s) \<Rightarrow> (WriteFailed (ErrWrap ''ipc: write frame length: %w'' [] [e]), s)
                | (WritePanicked x, s) \<Rightarrow> (WritePanicked x, s)
                | (WriteOK, s) \<Rightarrow>
                    (case writeExact w body s of
                       (WriteFailed e, s) \<Rightarrow> (WriteFailed (ErrWrap ''ipc: write frame body: %w'' [] [e]), s)
                     | (WritePanicked x, s) \<Rightarrow> (WritePanicked x, s)
                     | (WriteOK, s) \<Rightarrow> (WriteOK, s))))"

section \<open>Frames\<close>

definition frame_of :: "string \<Rightarrow> string" where
  "frame_of body = PutUint32 (of_nat (length body)) @ body"

lemma length_frame_of [simp]: "length (frame_of body) = 4 + length body"
  by (simp add: frame_of_def)

lemma unat_length: "length body \<le> maxFrameSize \<Longrightarrow> unat (of_nat (length body) :: 32 word) = length body"
  by (simp add: unat_of_nat maxFrameSize_def)

lemma writeExact_effect:
  "writeExact w p s = (e, s') \<Longrightarrow>
   \<exists>n. wrBytes s' = wrBytes s @ take n p \<and> (e = WriteOK \<longrightarrow> take n p = p)"
  by (auto simp: writeExact_def split: write_answer.splits option.splits if_splits intro: exI [of _ "length p"])

lemma WriteFrame_effect:
  assumes "WriteFrame enc w msg s = (e, s')"
  shows "\<exists>out. wrBytes s' = wrBytes s @ out \<and>
     (e = WriteOK \<longrightarrow> (\<exists>body. enc msg = Inr body \<and> length body \<le> maxFrameSize \<and> out = frame_of body))"
proof (cases "enc msg")
  case (Inr body)
  show ?thesis
  proof (cases "length body > maxFrameSize")
    case False
    obtain e1 s1 where 1: "writeExact w (PutUint32 (of_nat (length body))) s = (e1, s1)" by fastforce
    obtain e2 s2 where 2: "writeExact w body s1 = (e2, s2)" by fastforce
    show ?thesis using writeExact_effect [OF 1] writeExact_effect [OF 2] assms Inr False 1 2
      by (auto simp: WriteFrame_def frame_of_def split: write_end.splits)
  qed (use assms Inr in \<open>auto simp: WriteFrame_def\<close>)
qed (use assms in \<open>auto simp: WriteFrame_def\<close>)

lemma ReadFrame_frame:
  assumes "length body \<le> maxFrameSize" and "dec body = Inr m"
  shows "ReadFrame dec \<lparr>bsBytes = frame_of body @ rest, bsEnd = e\<rparr> = (Inr m, \<lparr>bsBytes = rest, bsEnd = e\<rparr>)"
  using assms by (simp add: ReadFrame_def read_full_def frame_of_def unat_length Let_def)

text \<open>A cut inside a frame is an error, and the clean end of the stream only if the cut is at its start.\<close>

lemma ReadFrame_cut:
  assumes "length body \<le> maxFrameSize" and "k < length (frame_of body)"
  shows "\<exists>err r. ReadFrame dec \<lparr>bsBytes = take k (frame_of body), bsEnd = EOF\<rparr> = (Inl err, r) \<and> (err = EOF \<longleftrightarrow> k = 0)"
proof (cases "k < 4")
  case True
  moreover have "frame_of body \<noteq> []" using length_frame_of [of body] by (metis add_eq_0_iff_both_eq_0 list.size(3) zero_neq_numeral)
  ultimately show ?thesis by (auto simp: ReadFrame_def read_full_def)
next
  case False
  then have "take k (frame_of body) = PutUint32 (of_nat (length body)) @ take (k - 4) body" by (simp add: frame_of_def)
  moreover have "\<not> length body \<le> k - 4" using assms(2) False by simp
  ultimately show ?thesis using assms False by (simp add: ReadFrame_def read_full_def unat_length Let_def)
qed

lemma ReadFrame_shrinks:
  "ReadFrame dec r = (Inr m, r') \<Longrightarrow> length (bsBytes r') < length (bsBytes r)"
  by (auto simp: ReadFrame_def read_full_def Let_def split: if_splits sum.splits)

section \<open>Streams of frames\<close>

text \<open>What a read loop sees: the messages up to the first error, and that error.\<close>

function read_frames :: "(string \<Rightarrow> ipc_error + Message) \<Rightarrow> byte_stream \<Rightarrow> Message list \<times> ipc_error" where
  "read_frames dec r =
     (case ReadFrame dec r of
        (Inl e, _) \<Rightarrow> ([], e)
      | (Inr m, r') \<Rightarrow> (case read_frames dec r' of (ms, e) \<Rightarrow> (m # ms, e)))"
  by pat_completeness auto
termination
  by (relation "measure (\<lambda>(dec, r). length (bsBytes r))") (auto dest: ReadFrame_shrinks [OF sym])

declare read_frames.simps [simp del]

fun write_frames :: "(Message \<Rightarrow> ipc_error + string) \<Rightarrow> io_writer \<Rightarrow> Message list \<Rightarrow> wire \<Rightarrow> write_end \<times> wire" where
  "write_frames enc w [] s = (WriteOK, s)"
| "write_frames enc w (m # ms) s =
     (case WriteFrame enc w m s of (WriteOK, s) \<Rightarrow> write_frames enc w ms s | (e, s) \<Rightarrow> (e, s))"

text \<open>A message the codec carries: it encodes within the cap and decodes to itself.\<close>

definition carried :: "(Message \<Rightarrow> ipc_error + string) \<Rightarrow> (string \<Rightarrow> ipc_error + Message) \<Rightarrow> Message \<Rightarrow> bool" where
  "carried enc dec m = (case enc m of Inl _ \<Rightarrow> False | Inr body \<Rightarrow> length body \<le> maxFrameSize \<and> dec body = Inr m)"

definition frame_bytes :: "(Message \<Rightarrow> ipc_error + string) \<Rightarrow> Message \<Rightarrow> string" where
  "frame_bytes enc m = (case enc m of Inl _ \<Rightarrow> [] | Inr body \<Rightarrow> frame_of body)"

lemma carriedE:
  assumes "carried enc dec m"
  obtains body where "enc m = Inr body" and "length body \<le> maxFrameSize" and "dec body = Inr m"
    and "frame_bytes enc m = frame_of body"
  using assms by (auto simp: carried_def frame_bytes_def split: sum.splits)

lemma read_frames_frame:
  assumes "carried enc dec m"
  shows "read_frames dec \<lparr>bsBytes = frame_bytes enc m @ rest, bsEnd = e\<rparr> =
     (case read_frames dec \<lparr>bsBytes = rest, bsEnd = e\<rparr> of (ms, err) \<Rightarrow> (m # ms, err))"
  using assms by (elim carriedE) (simp add: read_frames.simps [of dec "\<lparr>bsBytes = _ @ _, bsEnd = e\<rparr>"] ReadFrame_frame)

lemma read_frames_end [simp]: "read_frames dec \<lparr>bsBytes = [], bsEnd = e\<rparr> = ([], e)"
  by (subst read_frames.simps) (simp add: ReadFrame_def read_full_def)

lemma read_frames_concat:
  "list_all (carried enc dec) ms \<Longrightarrow>
   read_frames dec \<lparr>bsBytes = concat (map (frame_bytes enc) ms) @ rest, bsEnd = e\<rparr> =
     (case read_frames dec \<lparr>bsBytes = rest, bsEnd = e\<rparr> of (ms', err) \<Rightarrow> (ms @ ms', err))"
  by (induction ms) (auto simp: read_frames_frame split: prod.splits)

text \<open>A writer that takes everything.\<close>

definition accepts :: "io_writer \<Rightarrow> bool" where
  "accepts w = (\<forall>n p. w n p = Wrote (length p) None)"

lemma writeExact_accepts:
  "accepts w \<Longrightarrow> writeExact w p s = (WriteOK, s\<lparr>wrCalls := Suc (wrCalls s), wrBytes := wrBytes s @ p\<rparr>)"
  by (simp add: writeExact_def accepts_def)

lemma write_frames_bytes:
  assumes "accepts w" and "list_all (carried enc dec) ms"
  shows "\<exists>s'. write_frames enc w ms s = (WriteOK, s') \<and> wrBytes s' = wrBytes s @ concat (map (frame_bytes enc) ms)"
  using assms(2)
proof (induction ms arbitrary: s)
  case (Cons m ms)
  then have "carried enc dec m" by simp
  then obtain s1 where "WriteFrame enc w m s = (WriteOK, s1)" "wrBytes s1 = wrBytes s @ frame_bytes enc m"
    using writeExact_accepts [OF assms(1)] by (auto simp: WriteFrame_def frame_of_def elim!: carriedE)
  then show ?case using Cons.IH [of s1] Cons.prems by auto
qed simp

text \<open>
  Claim C35.  Frames survive the wire: whatever messages are written to a writer that takes them, a reader at the
  other end gets the same messages in the same order and then the clean end of the stream.
  The codec of the bodies is a parameter; it must carry each of the messages within the cap.
\<close>

theorem frames_roundtrip:
  assumes "accepts w" and "list_all (carried enc dec) ms" and "wrBytes s = []"
  shows "\<exists>s'. write_frames enc w ms s = (WriteOK, s') \<and> read_frames dec \<lparr>bsBytes = wrBytes s', bsEnd = EOF\<rparr> = (ms, EOF)"
  using write_frames_bytes [OF assms(1,2), of s] read_frames_concat [OF assms(2), of "[]" EOF] assms(3) by auto

lemma read_frames_cut:
  assumes "carried enc dec m" and "k < length (frame_bytes enc m)"
  shows "\<exists>err. read_frames dec \<lparr>bsBytes = take k (frame_bytes enc m), bsEnd = EOF\<rparr> = ([], err) \<and> (err = EOF \<longleftrightarrow> k = 0)"
proof -
  obtain body where b: "length body \<le> maxFrameSize" "frame_bytes enc m = frame_of body" using assms(1) by (elim carriedE) blast
  show ?thesis using ReadFrame_cut [OF b(1), of k dec] assms(2) unfolding b(2) by (subst read_frames.simps) auto
qed

text \<open>How many whole frames the first \<open>k\<close> bytes hold, and what is left of the next one.\<close>

fun whole_frames :: "(Message \<Rightarrow> ipc_error + string) \<Rightarrow> nat \<Rightarrow> Message list \<Rightarrow> nat \<times> nat" where
  "whole_frames enc k [] = (0, 0)"
| "whole_frames enc k (m # ms) =
     (if k < length (frame_bytes enc m) then (0, k)
      else case whole_frames enc (k - length (frame_bytes enc m)) ms of (n, left) \<Rightarrow> (Suc n, left))"

text \<open>
  A stream that breaks off never yields a wrong message: if the peer stops after any number of bytes of a
  sequence of frames, the reader gets exactly the messages whose frames are complete and then an
  error, and this error is the clean end of the stream exactly when no part of a
  further frame was received.
\<close>

theorem frames_truncated:
  assumes "list_all (carried enc dec) ms"
  shows "\<exists>err. read_frames dec \<lparr>bsBytes = take k (concat (map (frame_bytes enc) ms)), bsEnd = EOF\<rparr> =
      (take (fst (whole_frames enc k ms)) ms, err) \<and> (err = EOF \<longleftrightarrow> snd (whole_frames enc k ms) = 0)"
  using assms
proof (induction ms arbitrary: k)
  case (Cons m ms)
  then have m: "carried enc dec m" by simp
  show ?case
  proof (cases "k < length (frame_bytes enc m)")
    case True
    then show ?thesis using read_frames_cut [OF m True] by simp
  next
    case False
    then show ?thesis using Cons.IH [of "k - length (frame_bytes enc m)"] Cons.prems
      by (auto simp: read_frames_frame [OF m] split: prod.splits)
  qed
qed simp

definition sample_codec :: "(Message \<Rightarrow> ipc_error + string) \<times> (string \<Rightarrow> ipc_error + Message)" where
  "sample_codec =
     (\<lambda>m. Inr (replicate (nat (msID m)) CHR ''.'' @ CHR '':'' # msKind m),
      \<lambda>b. Inr \<lparr>msKind = tl (dropWhile (\<lambda>c. c = CHR ''.'') b), msID = int (length (takeWhile (\<lambda>c. c = CHR ''.'') b)), msData = []\<rparr>)"

definition sample_messages :: "Message list" where
  "sample_messages = [\<lparr>msKind = KindHandshake, msID = 1, msData = []\<rparr>, \<lparr>msKind = KindExit, msID = 0, msData = []\<rparr>]"

lemma sample_carried: "list_all (carried (fst sample_codec) (snd sample_codec)) sample_messages"
  by (simp add: sample_codec_def sample_messages_def carried_def KindHandshake_def KindExit_def maxFrameSize_def)

theorem frames_roundtrip_witness:
  "\<exists>s. write_frames (fst sample_codec) (\<lambda>n p. Wrote (length p) None) sample_messages \<lparr>wrCalls = 0, wrBytes = []\<rparr> = (WriteOK, s) \<and>
     read_frames (snd sample_codec) \<lparr>bsBytes = wrBytes s, bsEnd = EOF\<rparr> = (sample_messages, EOF)"
  by (rule frames_roundtrip [OF _ sample_carried]) (simp_all add: accepts_def)

theorem frames_truncated_witness:
  "\<exists>err. read_frames (snd sample_codec)
      \<lparr>bsBytes = take 16 (concat (map (frame_bytes (fst sample_codec)) sample_messages)), bsEnd = EOF\<rparr> =
      ([\<lparr>msKind = KindHandshake, msID = 1, msData = []\<rparr>], err) \<and> err \<noteq> EOF"
proof -
  have "whole_frames (fst sample_codec) 16 sample_messages = (1, 1)"
    by (simp add: sample_codec_def sample_messages_def frame_bytes_def KindHandshake_def KindExit_def)
  then show ?thesis using frames_truncated [OF sample_carried, of 16] by (auto simp: sample_messages_def)
qed

end
