(* ===== verification/Ipc_Channel.thy ===== *)
theory Ipc_Channel
  imports Ipc_Frame
begin

text \<open>
  The request channel of the transport, \<^verbatim>\<open>internal/ipc/channel.go\<close>.

  The functions are cut where the code takes and releases its mutexes: what runs under \<open>mu\<close> or
  \<open>writeMu\<close> is one step, and a call of the channel that goes on after releasing one is a task.  A write is one
  step of this system, which is about requests and their responses; a write as the code interleaves it with
  closes and other writers, from its admission to its seal, is the subject of \<open>Ipc_Writers\<close>.  Two actions that
  follow a release of \<open>mu\<close> at once are part of the section they follow: the send of \<open>dispatch\<close> on the buffered channel
  of a request, before which the request can only take the arms of its select it can also take
  afterwards, and the closing of \<open>done\<close> by \<open>closeWith\<close>, which delays the requests that wait for it.  A
  system is a channel, the tasks under way, the results of finished requests and the bytes the peer
  sends; its steps run any task, read one frame, or start a request, a notification or a close.

  \<open>pending\<close> is the list of its keys; the buffered Go channel a key is mapped to belongs to one request
  and is the entry of \<open>chBuf\<close> under its id.  Deadlines only make a context end, which may happen at any
  time; a request whose handler table has no handler is answered by a task instead of the read loop.
  Request ids do not overflow (64 bits).
\<close>

section \<open>State\<close>

record ResponseReceipt =
  rcDone :: bool
  rcErr :: "ipc_error option"

record Channel =
  chStarted :: bool
  chClosed :: bool
  chCloseErr :: "ipc_error option"
  chWriteSealed :: bool
  chWriteSealErr :: "ipc_error option"
  chNextID :: int
  chPending :: "int list"
  chNotify :: "MessageKind list"
  chInbound :: bool
  chDone :: bool
  chInCancelled :: bool
  chBuf :: "(int \<times> Message) list"
  chReceipts :: "ResponseReceipt list"
  chWire :: wire
  chStderr :: "(string \<times> int) list"

definition NewChannel :: Channel where
  "NewChannel = \<lparr>chStarted = False, chClosed = False, chCloseErr = None, chWriteSealed = False, chWriteSealErr = None,
     chNextID = 1, chPending = [], chNotify = [], chInbound = False, chDone = False, chInCancelled = False,
     chBuf = [], chReceipts = [], chWire = \<lparr>wrCalls = 0, wrBytes = []\<rparr>, chStderr = []\<rparr>"

text \<open>A panic is \<^term>\<open>None\<close>.\<close>

definition SetInboundHandler :: "bool \<Rightarrow> Channel \<Rightarrow> Channel option" where
  "SetInboundHandler h c = (if chStarted c then None else Some (c\<lparr>chInbound := h\<rparr>))"

definition RegisterNotification :: "MessageKind \<Rightarrow> Channel \<Rightarrow> Channel option" where
  "RegisterNotification kind c =
     (if chStarted c then None else Some (c\<lparr>chNotify := List.insert kind (chNotify c)\<rparr>))"

definition Start :: "Channel \<Rightarrow> Channel" where
  "Start c = c\<lparr>chStarted := True\<rparr>"

definition log_line :: "string option \<Rightarrow> int \<Rightarrow> Channel \<Rightarrow> Channel" where
  "log_line line n c = (case line of None \<Rightarrow> c | Some l \<Rightarrow> c\<lparr>chStderr := chStderr c @ [(l, n)]\<rparr>)"

section \<open>Receipts\<close>

definition receipt_complete :: "ipc_error option \<Rightarrow> ResponseReceipt \<Rightarrow> ResponseReceipt" where
  "receipt_complete e r = (if rcDone r then r else \<lparr>rcDone = True, rcErr = e\<rparr>)"

definition complete_receipt :: "nat option \<Rightarrow> ipc_error option \<Rightarrow> Channel \<Rightarrow> Channel" where
  "complete_receipt receipt e c =
     (case receipt of
        None \<Rightarrow> c
      | Some i \<Rightarrow> c\<lparr>chReceipts := (chReceipts c)[i := receipt_complete e (chReceipts c ! i)]\<rparr>)"

text \<open>What a handler hands back: a payload, or one wrapped with its receipt and the terminal flag.\<close>

datatype 'p response = Untracked "'p payload" | Tracked "'p payload" nat bool

definition newTrackedResponse :: "'p payload \<Rightarrow> bool \<Rightarrow> Channel \<Rightarrow> 'p response \<times> nat \<times> Channel" where
  "newTrackedResponse p terminal c =
     (let i = length (chReceipts c)
      in (Tracked p i terminal, i, c\<lparr>chReceipts := chReceipts c @ [\<lparr>rcDone = False, rcErr = None\<rparr>]\<rparr>))"

definition TrackResponse :: "'p payload \<Rightarrow> Channel \<Rightarrow> 'p response \<times> nat \<times> Channel" where
  "TrackResponse p c = newTrackedResponse p False c"

definition TrackTerminalResponse :: "'p payload \<Rightarrow> Channel \<Rightarrow> 'p response \<times> nat \<times> Channel" where
  "TrackTerminalResponse p c = newTrackedResponse p True c"

definition unwrapTrackedResponse :: "'p response \<Rightarrow> 'p payload \<times> nat option \<times> bool \<times> bool" where
  "unwrapTrackedResponse r =
     (case r of Untracked p \<Rightarrow> (p, None, False, False) | Tracked p i terminal \<Rightarrow> (p, Some i, terminal, True))"

section \<open>Closing and sealing\<close>

definition sealWrites :: "ipc_error \<Rightarrow> Channel \<Rightarrow> Channel" where
  "sealWrites e c = (if chWriteSealed c then c else c\<lparr>chWriteSealed := True, chWriteSealErr := Some e\<rparr>)"

definition nil_or :: "'a option \<Rightarrow> 'a list" where
  "nil_or x = (case x of None \<Rightarrow> [] | Some a \<Rightarrow> [a])"

definition writeAdmissionError :: "Channel \<Rightarrow> ipc_error option" where
  "writeAdmissionError c =
     (if chWriteSealed c then Some (ErrWrap ''%w: %w'' [] (errWriteNotAdmitted # nil_or (chWriteSealErr c)))
      else if chClosed c then Some (ErrWrap ''%w: %w'' [] (errWriteNotAdmitted # nil_or (chCloseErr c)))
      else None)"

definition closeWith :: "ipc_error option \<Rightarrow> Channel \<Rightarrow> Channel" where
  "closeWith cause c =
     (if chClosed c then c
      else (let err = (case cause of
                         None \<Rightarrow> ErrText ''ipc: channel closed (peer EOF)''
                       | Some e \<Rightarrow> if ipc_Is e EOF then ErrText ''ipc: channel closed (peer EOF)''
                                   else ErrWrap ''ipc: channel closed: %w'' [] [e]);
                c = c\<lparr>chClosed := True, chCloseErr := Some err\<rparr>;
                c = (if chWriteSealed c then c else c\<lparr>chWriteSealed := True, chWriteSealErr := Some err\<rparr>)
            in c\<lparr>chPending := [], chInCancelled := True, chDone := True\<rparr>))"

definition Close :: "Channel \<Rightarrow> Channel" where
  "Close c = closeWith (Some (ErrText ''closed by caller'')) c"

section \<open>Writing\<close>

text \<open>\<open>envEnc\<close> and \<open>envWriter\<close> are the codec and the writer, \<open>envDec\<close> the decoder, \<open>envMarshal\<close> the
  marshaller of payloads and \<open>envErrorData\<close> that of \<open>ErrorResponseData\<close>; \<open>envErrorText\<close> reads the
  message of an error frame, \<open>envShow\<close> is \<open>Error()\<close>.\<close>

record 'p ipc_env =
  envEnc :: "Message \<Rightarrow> ipc_error + string"
  envDec :: "string \<Rightarrow> ipc_error + Message"
  envWriter :: io_writer
  envMarshal :: "'p \<Rightarrow> marshalled"
  envErrorData :: "string \<Rightarrow> string option"
  envErrorText :: "Message \<Rightarrow> string"
  envShow :: "ipc_error \<Rightarrow> string"

definition writeFrameBytes :: "'p ipc_env \<Rightarrow> Message \<Rightarrow> Channel \<Rightarrow> ipc_error option \<times> Channel" where
  "writeFrameBytes E msg c =
     (case WriteFrame (envEnc E) (envWriter E) msg (chWire c) of
        (e, w) \<Rightarrow>
          ((case e of
              WriteOK \<Rightarrow> None
            | WriteFailed err \<Rightarrow> Some err
            | WritePanicked x \<Rightarrow> Some (ErrText (''ipc: writer panicked: '' @ x))),
           c\<lparr>chWire := w\<rparr>))"

datatype write_outcome = Written | NotAdmitted ipc_error | Broken ipc_error

text \<open>\<open>writeFrameTracked\<close> up to the release of \<open>writeMu\<close>, and what follows a broken write.\<close>

definition write_locked ::
  "'p ipc_env \<Rightarrow> Message \<Rightarrow> nat option \<Rightarrow> bool \<Rightarrow> Channel \<Rightarrow> write_outcome \<times> Channel" where
  "write_locked E msg receipt terminal c =
     (case writeAdmissionError c of
        Some e \<Rightarrow> (NotAdmitted e, complete_receipt receipt (Some e) c)
      | None \<Rightarrow>
          (case writeFrameBytes E msg c of
             (Some e, c) \<Rightarrow> (Broken e, sealWrites e c)
           | (None, c) \<Rightarrow>
               (Written, complete_receipt receipt None (if terminal then sealWrites errTerminalResponse c else c))))"

definition write_broken :: "ipc_error \<Rightarrow> nat option \<Rightarrow> Channel \<Rightarrow> Channel" where
  "write_broken e receipt c = complete_receipt receipt (Some e) (closeWith (Some e) c)"

definition writeFrameTracked ::
  "'p ipc_env \<Rightarrow> Message \<Rightarrow> nat option \<Rightarrow> bool \<Rightarrow> Channel \<Rightarrow> ipc_error option \<times> Channel" where
  "writeFrameTracked E msg receipt terminal c =
     (case write_locked E msg receipt terminal c of
        (NotAdmitted e, c) \<Rightarrow> (Some e, c)
      | (Broken e, c) \<Rightarrow> (Some e, write_broken e receipt c)
      | (Written, c) \<Rightarrow> (None, c))"

section \<open>Tasks\<close>

text \<open>
  A request between its registration and its result, a frame to write (with its receipt, the terminal flag, a
  receipt to complete afterwards with an error, and the label of the line to log when the write breaks), a
  handler that runs.
\<close>

datatype task =
    ReqWrite Message
  | ReqClose int ipc_error
  | ReqDelete int ipc_error
  | ReqWait int
  | FrameWrite Message "nat option" bool "(nat \<times> ipc_error) option" "string option"
  | FrameClose int ipc_error "nat option" "(nat \<times> ipc_error) option" "string option"
  | NotifyHandler Message
  | RequestHandler Message

text \<open>\<open>SendRequest\<close> up to its write: the id, and the message with it.\<close>

definition SendRequest_begin :: "Message \<Rightarrow> Channel \<Rightarrow> (ipc_error option + Message) \<times> Channel" where
  "SendRequest_begin msg c =
     (if chClosed c then (Inl (chCloseErr c), c)
      else (let i = chNextID c
            in (Inr (msg\<lparr>msID := i\<rparr>), c\<lparr>chNextID := i + 1, chPending := chPending c @ [i]\<rparr>)))"

definition delete_pending :: "int \<Rightarrow> Channel \<Rightarrow> Channel" where
  "delete_pending i c = c\<lparr>chPending := filter (\<lambda>j. j \<noteq> i) (chPending c)\<rparr>"

definition response_result :: "'p ipc_env \<Rightarrow> Message \<Rightarrow> ipc_error + Message" where
  "response_result E resp =
     (if msKind resp = KindError
      then Inl (ErrText (if envErrorText E resp = [] then ''request failed'' else envErrorText E resp))
      else Inr resp)"

text \<open>The arms of the select of \<open>SendRequest\<close>, and the outcomes of a handler.\<close>

datatype error_text = ErrorText string | ErrorPanics string

datatype 'p choice =
    TakeResponse
  | TakeCancelled ipc_error
  | TakeDone
  | Proceed
  | HandlerPanics string
  | HandlerReturns "'p response"
  | HandlerFails "'p response" error_text

definition SendRequest_select ::
  "'p ipc_env \<Rightarrow> 'p choice \<Rightarrow> int \<Rightarrow> Channel \<Rightarrow> ((ipc_error + Message) \<times> Channel) option" where
  "SendRequest_select E choice i c =
     (case choice of
        TakeResponse \<Rightarrow>
          (case map_of (chBuf c) i of
             None \<Rightarrow> None
           | Some resp \<Rightarrow> Some (response_result E resp, c\<lparr>chBuf := filter (\<lambda>b. fst b \<noteq> i) (chBuf c)\<rparr>))
      | TakeCancelled e \<Rightarrow> Some (Inl e, delete_pending i c)
      | TakeDone \<Rightarrow> if chDone c then Some (Inl (case chCloseErr c of None \<Rightarrow> ErrText [] | Some e \<Rightarrow> e), c) else None
      | _ \<Rightarrow> None)"

section \<open>Inbound frames\<close>

definition error_message :: "'p ipc_env \<Rightarrow> int \<Rightarrow> string \<Rightarrow> Message" where
  "error_message E i m = \<lparr>msKind = KindError, msID = i, msData = (case envErrorData E m of None \<Rightarrow> [] | Some raw \<Rightarrow> raw)\<rparr>"

definition sendError :: "'p ipc_env \<Rightarrow> int \<Rightarrow> string \<Rightarrow> task list" where
  "sendError E i m = [FrameWrite (error_message E i m) None False None (Some ''rslint: write error'')]"

definition dispatch :: "'p ipc_env \<Rightarrow> Message \<Rightarrow> Channel \<Rightarrow> task list \<times> Channel" where
  "dispatch E msg c =
     (if msKind msg = KindResponse \<or> msKind msg = KindError
      then (if msID msg \<in> set (chPending c)
            then ([], (delete_pending (msID msg) c)\<lparr>chBuf := chBuf c @ [(msID msg, msg)]\<rparr>)
            else ([], log_line (Some ''rslint: orphan response'') (msID msg) c))
      else if msID msg = 0
      then (if msKind msg \<in> set (chNotify c) then ([NotifyHandler msg], c)
            else ([], log_line (Some ''rslint: unhandled notification'') 0 c))
      else if \<not> chInbound c
      then (sendError E (msID msg) (''no inbound handler registered (kind='' @ msKind msg @ '')''), c)
      else ([RequestHandler msg], c))"

definition callInboundHandler :: "'p choice \<Rightarrow> ('p response \<times> error_text option) option" where
  "callInboundHandler answer =
     (case answer of
        HandlerPanics x \<Rightarrow> Some (Untracked UntypedNil, Some (ErrorText (''inbound handler panicked: '' @ x)))
      | HandlerReturns r \<Rightarrow> Some (r, None)
      | HandlerFails r e \<Rightarrow> Some (r, Some e)
      | _ \<Rightarrow> None)"

definition stableInboundError :: "error_text \<Rightarrow> string" where
  "stableInboundError e =
     (case e of ErrorText m \<Rightarrow> m | ErrorPanics x \<Rightarrow> ''inbound handler error panicked: '' @ x)"

definition newResponseMessage :: "'p ipc_env \<Rightarrow> int \<Rightarrow> 'p payload \<Rightarrow> ipc_error + Message" where
  "newResponseMessage E i p =
     (case NewMessage (envMarshal E) KindResponse i p of
        MessageOK m \<Rightarrow> Inr m
      | MessageFailed e \<Rightarrow> Inl e
      | MessagePanics x \<Rightarrow> Inl (ErrText (''ipc: marshal response payload panicked: '' @ x)))"

definition sendResponse :: "'p ipc_env \<Rightarrow> int \<Rightarrow> 'p response \<Rightarrow> task list" where
  "sendResponse E i r =
     (case unwrapTrackedResponse r of
        (p, receipt, terminal, _) \<Rightarrow>
          (case newResponseMessage E i p of
             Inl e \<Rightarrow>
               [FrameWrite (error_message E i (''marshal response failed: '' @ envShow E e)) None (receipt \<noteq> None \<or> terminal)
                  (map_option (\<lambda>rid. (rid, e)) receipt) None]
           | Inr msg \<Rightarrow> [FrameWrite msg receipt terminal None (Some ''rslint: write response'')]))"

definition handleInboundRequest :: "'p ipc_env \<Rightarrow> 'p choice \<Rightarrow> Message \<Rightarrow> task list option" where
  "handleInboundRequest E answer msg =
     (case callInboundHandler answer of
        None \<Rightarrow> None
      | Some (r, None) \<Rightarrow> Some (sendResponse E (msID msg) r)
      | Some (r, Some e) \<Rightarrow>
          (let m = stableInboundError e
           in case unwrapTrackedResponse r of
                (_, Some receipt, _, True) \<Rightarrow>
                  Some [FrameWrite (error_message E (msID msg) m) None True (Some (receipt, ErrText m)) (Some ''rslint: write error'')]
              | _ \<Rightarrow> Some (sendError E (msID msg) m)))"

section \<open>Running tasks\<close>

definition complete_after :: "(nat \<times> ipc_error) option \<Rightarrow> ipc_error option \<Rightarrow> Channel \<Rightarrow> Channel" where
  "complete_after after writeErr c =
     (case after of
        None \<Rightarrow> c
      | Some (receipt, e) \<Rightarrow>
          complete_receipt (Some receipt) (Some (case writeErr of None \<Rightarrow> e | Some w \<Rightarrow> ErrJoined [e, w])) c)"

type_synonym request_result = "int \<times> (ipc_error + Message)"

fun task_step ::
  "'p ipc_env \<Rightarrow> 'p choice \<Rightarrow> task \<Rightarrow> Channel \<Rightarrow> (task list \<times> request_result list \<times> Channel) option" where
  "task_step E ch (ReqWrite msg) c =
     (case write_locked E msg None False c of
        (Written, c) \<Rightarrow> Some ([ReqWait (msID msg)], [], c)
      | (NotAdmitted e, c) \<Rightarrow> Some ([ReqDelete (msID msg) e], [], c)
      | (Broken e, c) \<Rightarrow> Some ([ReqClose (msID msg) e], [], c))"
| "task_step E ch (ReqClose i e) c = Some ([ReqDelete i e], [], closeWith (Some e) c)"
| "task_step E ch (ReqDelete i e) c = Some ([], [(i, Inl e)], delete_pending i c)"
| "task_step E ch (ReqWait i) c =
     (case SendRequest_select E ch i c of None \<Rightarrow> None | Some (r, c) \<Rightarrow> Some ([], [(i, r)], c))"
| "task_step E ch (FrameWrite msg receipt terminal after label) c =
     (case write_locked E msg receipt terminal c of
        (Written, c) \<Rightarrow> Some ([], [], complete_after after None c)
      | (NotAdmitted e, c) \<Rightarrow> Some ([], [], complete_after after (Some e) c)
      | (Broken e, c) \<Rightarrow> Some ([FrameClose (msID msg) e receipt after label], [], c))"
| "task_step E ch (FrameClose i e receipt after label) c =
     Some ([], [], log_line label i (complete_after after (Some e) (write_broken e receipt c)))"
| "task_step E ch (NotifyHandler msg) c =
     Some ([], [], case ch of HandlerPanics x \<Rightarrow> log_line (Some ''rslint: notification handler panicked'') 0 c | _ \<Rightarrow> c)"
| "task_step E ch (RequestHandler msg) c =
     (case handleInboundRequest E ch msg of None \<Rightarrow> None | Some ts \<Rightarrow> Some (ts, [], c))"

record ipc_system =
  syChan :: Channel
  syTasks :: "task list"
  syResults :: "request_result list"
  syIn :: byte_stream
  syReading :: bool

definition start_system :: "Channel \<Rightarrow> byte_stream \<Rightarrow> ipc_system" where
  "start_system c r = \<lparr>syChan = Start c, syTasks = [], syResults = [], syIn = r, syReading = True\<rparr>"

text \<open>One turn of \<open>readLoop\<close>.\<close>

definition read_turn :: "'p ipc_env \<Rightarrow> ipc_system \<Rightarrow> ipc_system" where
  "read_turn E s =
     (case ReadFrame (envDec E) (syIn s) of
        (Inl e, r) \<Rightarrow> s\<lparr>syChan := closeWith (Some e) (syChan s), syIn := r, syReading := False\<rparr>
      | (Inr msg, r) \<Rightarrow>
          (case dispatch E msg (syChan s) of
             (ts, c) \<Rightarrow> s\<lparr>syChan := c, syTasks := syTasks s @ ts, syIn := r\<rparr>))"

inductive ipc_step :: "'p ipc_env \<Rightarrow> ipc_system \<Rightarrow> ipc_system \<Rightarrow> bool" for E :: "'p ipc_env" where
  request: "NewMessage (envMarshal E) kind 0 p = MessageOK msg \<Longrightarrow> SendRequest_begin msg (syChan s) = (Inr m, c) \<Longrightarrow>
    ipc_step E s (s\<lparr>syChan := c, syTasks := syTasks s @ [ReqWrite m]\<rparr>)"
| notification: "\<not> chClosed (syChan s) \<Longrightarrow> NewMessage (envMarshal E) kind 0 p = MessageOK msg \<Longrightarrow>
    ipc_step E s (s\<lparr>syTasks := syTasks s @ [FrameWrite msg None False None None]\<rparr>)"
| close: "ipc_step E s (s\<lparr>syChan := Close (syChan s)\<rparr>)"
| track: "newTrackedResponse (p :: 'p payload) terminal (syChan s) = (r, i, c) \<Longrightarrow> ipc_step E s (s\<lparr>syChan := c\<rparr>)"
| read: "syReading s \<Longrightarrow> ipc_step E s (read_turn E s)"
| run: "syTasks s = xs @ t # ys \<Longrightarrow> task_step E ch t (syChan s) = Some (ts, res, c) \<Longrightarrow>
    ipc_step E s (s\<lparr>syChan := c, syTasks := xs @ ts @ ys, syResults := syResults s @ res\<rparr>)"

inductive ipc_reach :: "'p ipc_env \<Rightarrow> ipc_system \<Rightarrow> ipc_system \<Rightarrow> bool" for E :: "'p ipc_env" and s0 :: ipc_system where
  start: "ipc_reach E s0 s0"
| step: "ipc_reach E s0 s \<Longrightarrow> ipc_step E s t \<Longrightarrow> ipc_reach E s0 t"

section \<open>What the operations leave alone\<close>

definition same_requests :: "Channel \<Rightarrow> Channel \<Rightarrow> bool" where
  "same_requests c d \<longleftrightarrow> chNextID d = chNextID c \<and> chPending d = chPending c \<and> chBuf d = chBuf c \<and>
     chClosed d = chClosed c \<and> chDone d = chDone c \<and> chCloseErr d = chCloseErr c \<and>
     (chWriteSealed c \<longrightarrow> chWriteSealed d \<and> chWriteSealErr d = chWriteSealErr c)"

lemma same_requests_refl [simp]: "same_requests c c"
  by (simp add: same_requests_def)

lemma same_requests_trans: "same_requests c d \<Longrightarrow> same_requests d e \<Longrightarrow> same_requests c e"
  by (auto simp: same_requests_def)

lemma same_complete_receipt [simp]:
  "same_requests c (complete_receipt r e c)" "chWire (complete_receipt r e c) = chWire c"
  "chWriteSealed (complete_receipt r e c) = chWriteSealed c"
  by (auto simp: complete_receipt_def same_requests_def split: option.splits)

lemma same_complete_after [simp]:
  "same_requests c (complete_after a e c)" "chWire (complete_after a e c) = chWire c"
  "chWriteSealed (complete_after a e c) = chWriteSealed c"
  by (auto simp: complete_after_def split: option.splits)

lemma same_log_line [simp]:
  "same_requests c (log_line l n c)" "chWire (log_line l n c) = chWire c"
  "chWriteSealed (log_line l n c) = chWriteSealed c"
  by (auto simp: log_line_def same_requests_def split: option.splits)

lemma write_locked_cases:
  assumes "write_locked E msg r terminal c = (out, d)"
  shows "same_requests c d \<and>
    (case out of
       NotAdmitted _ \<Rightarrow> chWire d = chWire c
     | Broken _ \<Rightarrow> \<not> chWriteSealed c \<and> chWriteSealed d \<and> (\<exists>part. wrBytes (chWire d) = wrBytes (chWire c) @ part)
     | Written \<Rightarrow> \<not> chWriteSealed c \<and> chWriteSealed d = terminal \<and>
         (\<exists>body. envEnc E msg = Inr body \<and> length body \<le> maxFrameSize \<and> wrBytes (chWire d) = wrBytes (chWire c) @ frame_of body))"
proof -
  obtain e w where w: "WriteFrame (envEnc E) (envWriter E) msg (chWire c) = (e, w)" by fastforce
  show ?thesis using assms w WriteFrame_effect [OF w]
    by (auto simp: write_locked_def writeFrameBytes_def writeAdmissionError_def sealWrites_def same_requests_def
        complete_receipt_def split: option.splits if_splits write_end.splits)
qed

section \<open>Invariants\<close>

definition req_of :: "task \<Rightarrow> int list" where
  "req_of t = (case t of ReqWrite m \<Rightarrow> [msID m] | ReqClose i _ \<Rightarrow> [i] | ReqDelete i _ \<Rightarrow> [i] | ReqWait i \<Rightarrow> [i] | _ \<Rightarrow> [])"

definition req_ids :: "task list \<Rightarrow> int list" where
  "req_ids ts = concat (map req_of ts)"

lemma req_ids_simps [simp]:
  "req_ids [] = []" "req_ids (t # ts) = req_of t @ req_ids ts" "req_ids (ts @ us) = req_ids ts @ req_ids us"
  by (simp_all add: req_ids_def)

lemma req_of_simps [simp]:
  "req_of (ReqWrite m) = [msID m]" "req_of (ReqClose i e) = [i]" "req_of (ReqDelete i e) = [i]" "req_of (ReqWait i) = [i]"
  "req_of (FrameWrite m r tm a l) = []" "req_of (FrameClose i e r a l) = []" "req_of (NotifyHandler m) = []"
  "req_of (RequestHandler m) = []"
  by (simp_all add: req_of_def)

text \<open>A task that may still wait for a response.\<close>

definition awaits :: "task \<Rightarrow> int \<Rightarrow> bool" where
  "awaits t i = (t = ReqWait i \<or> (\<exists>m. t = ReqWrite m \<and> msID m = i))"

definition closed_ok :: "Channel \<Rightarrow> bool" where
  "closed_ok c \<longleftrightarrow> chDone c = chClosed c \<and>
     (chClosed c \<longrightarrow> chWriteSealed c \<and> chPending c = [] \<and> chCloseErr c \<noteq> None)"

definition buffers_ok :: "Channel \<Rightarrow> bool" where
  "buffers_ok c \<longleftrightarrow> distinct (map fst (chBuf c)) \<and> distinct (chPending c) \<and>
     set (chPending c) \<inter> fst ` set (chBuf c) = {} \<and>
     (\<forall>i \<in> set (chPending c) \<union> fst ` set (chBuf c). 1 \<le> i \<and> i < chNextID c) \<and>
     (\<forall>(i, m) \<in> set (chBuf c). msID m = i \<and> (msKind m = KindResponse \<or> msKind m = KindError))"

definition waiting_ok :: "task list \<Rightarrow> Channel \<Rightarrow> bool" where
  "waiting_ok ts c \<longleftrightarrow>
     (\<forall>t \<in> set ts. \<forall>i. awaits t i \<longrightarrow> chClosed c \<or> i \<in> set (chPending c) \<or> i \<in> fst ` set (chBuf c))"

definition ids_ok :: "task list \<Rightarrow> request_result list \<Rightarrow> Channel \<Rightarrow> bool" where
  "ids_ok ts res c \<longleftrightarrow> distinct (req_ids ts @ map fst res) \<and> 1 \<le> chNextID c \<and>
     (\<forall>i \<in> set (req_ids ts @ map fst res). 1 \<le> i \<and> i < chNextID c)"

definition answers_ok :: "request_result list \<Rightarrow> bool" where
  "answers_ok res \<longleftrightarrow> (\<forall>i m. (i, Inr m) \<in> set res \<longrightarrow> msID m = i \<and> msKind m = KindResponse)"

definition ipc_inv :: "'p ipc_env \<Rightarrow> ipc_system \<Rightarrow> bool" where
  "ipc_inv E s \<longleftrightarrow> closed_ok (syChan s) \<and> buffers_ok (syChan s) \<and> waiting_ok (syTasks s) (syChan s) \<and>
     ids_ok (syTasks s) (syResults s) (syChan s) \<and> answers_ok (syResults s)"

lemmas inv_defs = closed_ok_def buffers_ok_def waiting_ok_def ids_ok_def

text \<open>The parts of the invariant read the request side of a channel only.\<close>

lemma same_requests_inv:
  assumes "same_requests c d"
  shows "closed_ok c \<Longrightarrow> closed_ok d" "buffers_ok c \<Longrightarrow> buffers_ok d" "waiting_ok ts c \<Longrightarrow> waiting_ok ts d"
    "ids_ok ts res c \<Longrightarrow> ids_ok ts res d"
  using assms by (auto simp: same_requests_def inv_defs)

lemma closeWith_inv:
  assumes "closed_ok c" and "buffers_ok c"
  shows "closed_ok (closeWith e c)" "buffers_ok (closeWith e c)" "waiting_ok ts c \<Longrightarrow> waiting_ok ts (closeWith e c)"
    "ids_ok ts res c \<Longrightarrow> ids_ok ts res (closeWith e c)"
  using assms by (auto simp: closeWith_def inv_defs Let_def)

section \<open>Every step keeps the invariants\<close>

lemma awaits_req: "awaits t i \<Longrightarrow> i \<in> set (req_of t)"
  by (auto simp: awaits_def)

lemma awaits_simps [simp]:
  "awaits (ReqWait i) j = (i = j)" "awaits (ReqWrite m) j = (msID m = j)" "\<not> awaits (ReqClose i e) j" "\<not> awaits (ReqDelete i e) j"
  "\<not> awaits (FrameWrite m r tm a l) j" "\<not> awaits (FrameClose i e r a l) j" "\<not> awaits (NotifyHandler m) j"
  "\<not> awaits (RequestHandler m) j"
  by (auto simp: awaits_def)

lemma waiting_replace:
  assumes "waiting_ok (xs @ t # ys) c" and "\<forall>u \<in> set ts. \<forall>i. awaits u i \<longrightarrow> awaits t i"
  shows "waiting_ok (xs @ ts @ ys) c"
  using assms by (fastforce simp: waiting_ok_def)

lemma ids_replace:
  assumes "ids_ok (xs @ t # ys) results c" and "req_ids ts @ map fst res = req_of t"
  shows "ids_ok (xs @ ts @ ys) (results @ res) c"
proof -
  have "set (req_of t) = set (req_ids ts) \<union> fst ` set res" using arg_cong [OF assms(2), of set] by simp
  moreover have "distinct (req_ids ts)" "distinct (map fst res)" "set (req_ids ts) \<inter> fst ` set res = {}"
    using assms(1) arg_cong [OF assms(2), of distinct] by (auto simp: ids_ok_def)
  ultimately have "distinct (req_ids (xs @ ts @ ys) @ map fst (results @ res))"
    "set (req_ids (xs @ ts @ ys) @ map fst (results @ res)) = set (req_ids (xs @ t # ys) @ map fst results)"
    using assms(1) by (auto simp: ids_ok_def)
  then show ?thesis using assms(1) unfolding ids_ok_def by simp
qed

lemma handler_tasks: "handleInboundRequest E ch msg = Some ts \<Longrightarrow> list_all (\<lambda>t. \<exists>m r tm a l. t = FrameWrite m r tm a l) ts"
  by (auto simp: handleInboundRequest_def sendResponse_def sendError_def Let_def
      split: option.splits sum.splits prod.splits bool.splits)

lemma frame_tasks_no_request: "list_all (\<lambda>t. \<exists>m r tm a l. t = FrameWrite m r tm a l) ts \<Longrightarrow> req_ids ts = []"
  by (induction ts) auto

lemma frame_tasks_no_await: "list_all (\<lambda>t. \<exists>m r tm a l. t = FrameWrite m r tm a l) ts \<Longrightarrow> u \<in> set ts \<Longrightarrow> \<not> awaits u i"
  by (auto simp: list_all_iff awaits_def)

lemma task_step_ids: "task_step E ch t c = Some (ts, res, d) \<Longrightarrow> req_ids ts @ map fst res = req_of t"
  by (cases t) (auto split: prod.splits write_outcome.splits option.splits dest!: handler_tasks simp: frame_tasks_no_request)

lemma task_step_awaits: "task_step E ch t c = Some (ts, res, d) \<Longrightarrow> \<forall>u \<in> set ts. \<forall>i. awaits u i \<longrightarrow> awaits t i"
  by (cases t) (auto split: prod.splits write_outcome.splits option.splits dest!: handler_tasks dest: frame_tasks_no_await)

text \<open>What a task does to the requests of the channel: nothing, a close, or giving up its own id.\<close>

definition gives_up :: "int \<Rightarrow> Channel \<Rightarrow> Channel \<Rightarrow> bool" where
  "gives_up i c d \<longleftrightarrow> d = delete_pending i c \<or> d = c\<lparr>chBuf := filter (\<lambda>b. fst b \<noteq> i) (chBuf c)\<rparr>"

lemma task_step_effect:
  assumes "task_step E ch t c = Some (ts, res, d)"
  shows "same_requests c d \<or> (\<exists>e. same_requests (closeWith e c) d) \<or> (\<exists>i. req_of t = [i] \<and> ts = [] \<and> gives_up i c d)"
proof (cases t)
  case (ReqWrite msg)
  obtain out d' where w: "write_locked E msg None False c = (out, d')" by fastforce
  then show ?thesis using assms ReqWrite write_locked_cases [OF w] by (auto split: write_outcome.splits)
next
  case (FrameWrite msg r tm a l)
  obtain out d' where w: "write_locked E msg r tm c = (out, d')" by fastforce
  then show ?thesis using assms FrameWrite write_locked_cases [OF w]
    by (auto split: write_outcome.splits intro: same_requests_trans)
next
  case (FrameClose i e r a l)
  then have "d = log_line l i (complete_after a (Some e) (complete_receipt r (Some e) (closeWith (Some e) c)))"
    using assms by (simp add: write_broken_def)
  moreover have "same_requests (closeWith (Some e) c) (log_line l i (complete_after a (Some e) (complete_receipt r (Some e) (closeWith (Some e) c))))"
    by (meson same_requests_trans same_complete_receipt(1) same_complete_after(1) same_log_line(1))
  ultimately show ?thesis by blast
next
  case (ReqWait i)
  then show ?thesis using assms
    by (auto simp: SendRequest_select_def gives_up_def split: choice.splits option.splits if_splits)
next
  case (ReqClose i e)
  then have "d = closeWith (Some e) c" using assms by simp
  then show ?thesis using same_requests_refl by blast
qed (use assms in \<open>auto simp: gives_up_def split: option.splits choice.splits\<close>)

lemma buffers_ok_less:
  assumes "buffers_ok c" and "chNextID d = chNextID c" and "set (chPending d) \<subseteq> set (chPending c)" and "set (chBuf d) \<subseteq> set (chBuf c)"
    and "distinct (chPending d)" and "distinct (map fst (chBuf d))"
  shows "buffers_ok d"
proof -
  have sub: "fst ` set (chBuf d) \<subseteq> fst ` set (chBuf c)" using assms(4) by (rule image_mono)
  have "set (chPending d) \<inter> fst ` set (chBuf d) = {}"
    using assms(1,3) sub unfolding buffers_ok_def by (meson disjoint_iff subsetD)
  moreover have "\<forall>i \<in> set (chPending d) \<union> fst ` set (chBuf d). 1 \<le> i \<and> i < chNextID d"
    using assms(1-3) sub unfolding buffers_ok_def by (metis Un_iff subsetD)
  moreover have "\<forall>b \<in> set (chBuf d). case b of (i, m) \<Rightarrow> msID m = i \<and> (msKind m = KindResponse \<or> msKind m = KindError)"
    using assms(1,4) unfolding buffers_ok_def by (meson subsetD)
  ultimately show ?thesis using assms(5,6) unfolding buffers_ok_def by simp
qed

lemma gives_up_inv:
  assumes "gives_up i c d" and "req_of t = [i]" and "ids_ok (xs @ t # ys) results c"
  shows "closed_ok c \<Longrightarrow> closed_ok d" "buffers_ok c \<Longrightarrow> buffers_ok d" "waiting_ok (xs @ t # ys) c \<Longrightarrow> waiting_ok (xs @ ys) d"
    "ids_ok us res c \<Longrightarrow> ids_ok us res d"
proof -
  have other: "j \<noteq> i" if "u \<in> set (xs @ ys)" "awaits u j" for u j
  proof -
    have "j \<in> set (req_ids xs @ req_ids ys)" using that awaits_req [of u j] by (auto simp: req_ids_def)
    then show ?thesis using assms(2,3) by (auto simp: ids_ok_def)
  qed
  show "closed_ok d" if "closed_ok c" using that assms(1) by (auto simp: gives_up_def closed_ok_def delete_pending_def)
  show "ids_ok us res d" if "ids_ok us res c"
  proof -
    have "chNextID d = chNextID c" using assms(1) by (auto simp: gives_up_def delete_pending_def)
    then show ?thesis using that by (simp add: ids_ok_def)
  qed
  show "buffers_ok d" if "buffers_ok c"
    by (rule buffers_ok_less [OF that])
       (use that assms(1) in \<open>auto simp: gives_up_def buffers_ok_def delete_pending_def distinct_map_filter\<close>)
  show "waiting_ok (xs @ ys) d" if "waiting_ok (xs @ t # ys) c"
    unfolding waiting_ok_def
  proof (intro ballI allI impI)
    fix u j
    assume u: "u \<in> set (xs @ ys)" "awaits u j"
    then have "chClosed c \<or> j \<in> set (chPending c) \<or> j \<in> fst ` set (chBuf c)"
      using that by (auto simp: waiting_ok_def)
    then show "chClosed d \<or> j \<in> set (chPending d) \<or> j \<in> fst ` set (chBuf d)"
      using assms(1) other [OF u] by (force simp: gives_up_def delete_pending_def)
  qed
qed

lemma task_step_answers:
  assumes "task_step E ch t c = Some (ts, res, d)" and "buffers_ok c"
  shows "answers_ok res"
proof (cases t)
  case (ReqWait i)
  then have "\<forall>m. map_of (chBuf c) i = Some m \<longrightarrow> msID m = i \<and> (msKind m = KindResponse \<or> msKind m = KindError)"
    using assms(2) by (auto simp: buffers_ok_def dest: map_of_SomeD)
  then show ?thesis using assms(1) ReqWait
    by (auto simp: SendRequest_select_def response_result_def answers_ok_def split: choice.splits option.splits if_splits)
qed (use assms(1) in \<open>auto simp: answers_ok_def split: prod.splits write_outcome.splits option.splits\<close>)

lemma run_inv:
  assumes "ipc_inv E s" and "syTasks s = xs @ t # ys" and "task_step E ch t (syChan s) = Some (ts, res, c)"
  shows "ipc_inv E (s\<lparr>syChan := c, syTasks := xs @ ts @ ys, syResults := syResults s @ res\<rparr>)"
proof -
  let ?c = "syChan s"
  have old: "closed_ok ?c" "buffers_ok ?c" "waiting_ok (xs @ t # ys) ?c" "ids_ok (xs @ t # ys) (syResults s) ?c"
    "answers_ok (syResults s)"
    using assms(1,2) by (simp_all add: ipc_inv_def)
  have new: "waiting_ok (xs @ ts @ ys) ?c" "ids_ok (xs @ ts @ ys) (syResults s @ res) ?c"
    using waiting_replace [OF old(3)] task_step_awaits [OF assms(3)] ids_replace [OF old(4) task_step_ids [OF assms(3)]] by auto
  consider (same) "same_requests ?c c" | (shut) e where "same_requests (closeWith e ?c) c"
    | (own) i where "req_of t = [i]" "ts = []" "gives_up i ?c c"
    using task_step_effect [OF assms(3)] by blast
  then have "closed_ok c \<and> buffers_ok c \<and> waiting_ok (xs @ ts @ ys) c \<and> ids_ok (xs @ ts @ ys) (syResults s @ res) c"
  proof cases
    case same
    then show ?thesis using same_requests_inv [OF same] old new by blast
  next
    case shut
    then show ?thesis using same_requests_inv [OF shut] closeWith_inv [OF old(1,2)] new by blast
  next
    case own
    then show ?thesis using gives_up_inv [OF own(3,1) old(4)] old new by simp
  qed
  moreover have "answers_ok (syResults s @ res)"
    using old(5) task_step_answers [OF assms(3) old(2)] by (auto simp: answers_ok_def)
  ultimately show ?thesis by (simp add: ipc_inv_def)
qed

lemma dispatch_effect:
  assumes "dispatch E msg c = (ts, d)"
  shows "req_ids ts = [] \<and> (\<forall>u \<in> set ts. \<forall>i. \<not> awaits u i) \<and> chWire d = chWire c \<and> chWriteSealed d = chWriteSealed c \<and>
    (same_requests c d \<or> msID msg \<in> set (chPending c) \<and> (msKind msg = KindResponse \<or> msKind msg = KindError) \<and>
       d = (delete_pending (msID msg) c)\<lparr>chBuf := chBuf c @ [(msID msg, msg)]\<rparr>)"
  using assms by (auto simp: dispatch_def sendError_def delete_pending_def split: if_splits)

lemma delivery_inv:
  assumes "i \<in> set (chPending c)" and "msID msg = i" and "msKind msg = KindResponse \<or> msKind msg = KindError"
    and "d = (delete_pending i c)\<lparr>chBuf := chBuf c @ [(i, msg)]\<rparr>"
  shows "closed_ok c \<Longrightarrow> closed_ok d" "buffers_ok c \<Longrightarrow> buffers_ok d" "waiting_ok ts c \<Longrightarrow> waiting_ok ts d"
    "ids_ok ts res c \<Longrightarrow> ids_ok ts res d"
proof -
  show "buffers_ok d" if b: "buffers_ok c"
  proof -
    have i: "i \<notin> fst ` set (chBuf c)" "1 \<le> i" "i < chNextID c" using b assms(1) by (auto simp: buffers_ok_def)
    have f: "chPending d = filter (\<lambda>j. j \<noteq> i) (chPending c)" "chBuf d = chBuf c @ [(i, msg)]" "chNextID d = chNextID c"
      by (simp_all add: assms(4) delete_pending_def)
    have "set (chPending d) \<inter> fst ` set (chBuf d) = {}" using b unfolding buffers_ok_def f by auto
    moreover have "\<forall>j \<in> set (chPending d) \<union> fst ` set (chBuf d). 1 \<le> j \<and> j < chNextID d"
      using b i unfolding buffers_ok_def f by auto
    moreover have "\<forall>x \<in> set (chBuf d). case x of (j, m) \<Rightarrow> msID m = j \<and> (msKind m = KindResponse \<or> msKind m = KindError)"
      using b assms(2,3) unfolding buffers_ok_def f by auto
    moreover have "distinct (map fst (chBuf d))" "distinct (chPending d)" using b i(1) unfolding buffers_ok_def f by auto
    ultimately show ?thesis unfolding buffers_ok_def by simp
  qed
qed (use assms in \<open>auto simp: closed_ok_def waiting_ok_def ids_ok_def delete_pending_def\<close>)

lemma waiting_add: "waiting_ok ts c \<Longrightarrow> \<forall>u \<in> set us. \<forall>i. \<not> awaits u i \<Longrightarrow> waiting_ok (ts @ us) c"
  by (auto simp: waiting_ok_def)

lemma ids_add: "ids_ok ts res c \<Longrightarrow> req_ids us = [] \<Longrightarrow> ids_ok (ts @ us) res c"
  by (simp add: ids_ok_def)

lemma read_inv:
  assumes "ipc_inv E s"
  shows "ipc_inv E (read_turn E s)"
proof -
  have old: "closed_ok (syChan s)" "buffers_ok (syChan s)" "waiting_ok (syTasks s) (syChan s)"
    "ids_ok (syTasks s) (syResults s) (syChan s)" "answers_ok (syResults s)"
    using assms by (simp_all add: ipc_inv_def)
  obtain x r where r: "ReadFrame (envDec E) (syIn s) = (x, r)" by fastforce
  show ?thesis
  proof (cases x)
    case (Inl e)
    then show ?thesis using closeWith_inv [OF old(1,2)] old r by (simp add: read_turn_def ipc_inv_def)
  next
    case (Inr msg)
    obtain ts d where d: "dispatch E msg (syChan s) = (ts, d)" by fastforce
    note eff = dispatch_effect [OF d]
    have "closed_ok d \<and> buffers_ok d \<and> waiting_ok (syTasks s) d \<and> ids_ok (syTasks s) (syResults s) d"
      using eff same_requests_inv [of "syChan s" d] delivery_inv [of "msID msg" "syChan s" msg d] old by blast
    then show ?thesis using eff old(5) r d Inr
      by (simp add: read_turn_def ipc_inv_def waiting_add ids_add)
  qed
qed

lemma request_inv:
  assumes "ipc_inv E s" and "SendRequest_begin msg (syChan s) = (Inr m, c)"
  shows "ipc_inv E (s\<lparr>syChan := c, syTasks := syTasks s @ [ReqWrite m]\<rparr>)"
proof -
  let ?c = "syChan s"
  have old: "closed_ok ?c" "buffers_ok ?c" "waiting_ok (syTasks s) ?c" "ids_ok (syTasks s) (syResults s) ?c"
    "answers_ok (syResults s)" using assms(1) by (simp_all add: ipc_inv_def)
  have m: "\<not> chClosed ?c" "msID m = chNextID ?c" and c: "c = ?c\<lparr>chNextID := chNextID ?c + 1, chPending := chPending ?c @ [chNextID ?c]\<rparr>"
    using assms(2) by (auto simp: SendRequest_begin_def Let_def split: if_splits)
  have fresh: "chNextID ?c \<notin> set (chPending ?c) \<union> fst ` set (chBuf ?c)" "1 \<le> chNextID ?c"
    using old(2,4) by (auto simp: buffers_ok_def ids_ok_def)
  have "closed_ok c" "waiting_ok (syTasks s @ [ReqWrite m]) c" using old(1,3) m by (auto simp: c closed_ok_def waiting_ok_def)
  moreover have "buffers_ok c"
  proof -
    have "\<forall>i \<in> set (chPending c) \<union> fst ` set (chBuf c). 1 \<le> i \<and> i < chNextID c"
    proof -
      have "\<forall>i \<in> set (chPending ?c) \<union> fst ` set (chBuf ?c). 1 \<le> i \<and> i < chNextID ?c"
        using old(2) unfolding buffers_ok_def by (elim conjE)
      then have "\<forall>i \<in> set (chPending ?c) \<union> fst ` set (chBuf ?c). 1 \<le> i \<and> i < chNextID ?c + 1"
        by (meson less_add_one less_trans)
      then show ?thesis using fresh(2) by (simp add: c)
    qed
    then show ?thesis using old(2) fresh unfolding buffers_ok_def by (simp add: c)
  qed
  moreover have "ids_ok (syTasks s @ [ReqWrite m]) (syResults s) c"
  proof -
    have "\<forall>i \<in> set (req_ids (syTasks s) @ map fst (syResults s)). 1 \<le> i \<and> i < chNextID ?c"
      using old(4) unfolding ids_ok_def by (elim conjE)
    then have "chNextID ?c \<notin> set (req_ids (syTasks s) @ map fst (syResults s))"
      "\<forall>i \<in> set (req_ids (syTasks s) @ map fst (syResults s)). 1 \<le> i \<and> i < chNextID ?c + 1"
      by (meson less_irrefl, meson less_add_one less_trans)
    then show ?thesis using old(4) m(2) fresh(2) by (auto simp: ids_ok_def c)
  qed
  ultimately show ?thesis using old(5) by (simp add: ipc_inv_def)
qed

lemma step_inv: "ipc_step E s t \<Longrightarrow> ipc_inv E s \<Longrightarrow> ipc_inv E t"
proof (induction rule: ipc_step.induct)
  case (request kind p msg s m c)
  then show ?case using request_inv by blast
next
  case (notification s kind p msg)
  then show ?case by (simp add: ipc_inv_def waiting_add ids_add)
next
  case (close s)
  then show ?case by (simp add: ipc_inv_def Close_def closeWith_inv)
next
  case (track p terminal s r i c)
  then have c: "c = (syChan s)\<lparr>chReceipts := chReceipts (syChan s) @ [\<lparr>rcDone = False, rcErr = None\<rparr>]\<rparr>"
    by (simp add: newTrackedResponse_def Let_def)
  then have "same_requests (syChan s) c" by (simp add: same_requests_def)
  then show ?case using track.prems same_requests_inv [of "syChan s" c] by (auto simp: ipc_inv_def)
next
  case (read s)
  then show ?case using read_inv by blast
next
  case (run s xs t ys ch ts res c)
  then show ?case using run_inv by blast
qed

definition configured :: "bool \<Rightarrow> MessageKind list \<Rightarrow> Channel" where
  "configured inbound kinds = NewChannel\<lparr>chInbound := inbound, chNotify := kinds\<rparr>"

lemma start_inv: "ipc_inv E (start_system (configured inbound kinds) r)"
  by (auto simp: ipc_inv_def start_system_def configured_def Start_def NewChannel_def inv_defs answers_ok_def)

lemma reach_inv: "ipc_reach E (start_system (configured inbound kinds) r) s \<Longrightarrow> ipc_inv E s"
  by (induction rule: ipc_reach.induct) (auto intro: start_inv step_inv)

section \<open>Properties of a channel\<close>

text \<open>Delivered messages were read from the peer.\<close>

definition heard :: "'p ipc_env \<Rightarrow> Message set \<Rightarrow> ipc_system \<Rightarrow> bool" where
  "heard E M s \<longleftrightarrow> (syReading s \<longrightarrow> set (fst (read_frames (envDec E) (syIn s))) \<subseteq> M) \<and>
     (\<forall>i m. (i, m) \<in> set (chBuf (syChan s)) \<longrightarrow> m \<in> M) \<and> (\<forall>i m. (i, Inr m) \<in> set (syResults s) \<longrightarrow> m \<in> M)"

lemma task_step_buf: "task_step E ch t c = Some (ts, res, d) \<Longrightarrow> set (chBuf d) \<subseteq> set (chBuf c)"
  using task_step_effect [of E ch t c ts res d]
  by (auto simp: same_requests_def gives_up_def closeWith_def delete_pending_def Let_def split: if_splits)

lemma task_step_taken: "task_step E ch t c = Some (ts, res, d) \<Longrightarrow> (i, Inr m) \<in> set res \<Longrightarrow> (i, m) \<in> set (chBuf c)"
  by (cases t) (auto simp: SendRequest_select_def response_result_def dest: map_of_SomeD
      split: prod.splits write_outcome.splits option.splits choice.splits if_splits)

lemma heard_read:
  assumes "heard E M s" and "syReading s"
  shows "heard E M (read_turn E s)"
proof -
  obtain x r where r: "ReadFrame (envDec E) (syIn s) = (x, r)" by fastforce
  show ?thesis
  proof (cases x)
    case (Inl e)
    then show ?thesis using assms r by (auto simp: read_turn_def heard_def closeWith_def Let_def)
  next
    case (Inr msg)
    obtain ts d where d: "dispatch E msg (syChan s) = (ts, d)" by fastforce
    have "set (chBuf d) \<subseteq> insert (msID msg, msg) (set (chBuf (syChan s)))"
      using dispatch_effect [OF d] by (auto simp: same_requests_def)
    moreover have "set (fst (read_frames (envDec E) (syIn s))) = insert msg (set (fst (read_frames (envDec E) r)))"
      using r Inr by (simp add: read_frames.simps [of "envDec E" "syIn s"] split: prod.splits)
    ultimately show ?thesis using assms r Inr d by (auto simp: read_turn_def heard_def)
  qed
qed

lemma heard_less:
  "heard E M s \<Longrightarrow> set (chBuf (syChan t)) \<subseteq> set (chBuf (syChan s)) \<Longrightarrow> syIn t = syIn s \<Longrightarrow> syReading t = syReading s \<Longrightarrow>
   \<forall>i m. (i, Inr m) \<in> set (syResults t) \<longrightarrow> (i, Inr m) \<in> set (syResults s) \<or> (i, m) \<in> set (chBuf (syChan s)) \<Longrightarrow> heard E M t"
  unfolding heard_def by (simp add: subset_iff) blast

lemma heard_step: "ipc_step E s t \<Longrightarrow> heard E M s \<Longrightarrow> heard E M t"
proof (induction rule: ipc_step.induct)
  case (run s xs t ys ch ts res c)
  from run.prems show ?case
    by (rule heard_less) (use task_step_buf [OF run(2)] task_step_taken [OF run(2)] in auto)
next
  case (read s)
  then show ?case by (simp add: heard_read)
next
  case (request kind p msg s m c)
  from request.prems show ?case
    by (rule heard_less) (use request(2) in \<open>auto simp: SendRequest_begin_def Let_def split: if_splits\<close>)
next
  case (track p terminal s r i c)
  from track.prems show ?case by (rule heard_less) (use track(1) in \<open>auto simp: newTrackedResponse_def Let_def\<close>)
next
  case (close s)
  from close.prems show ?case by (rule heard_less) (auto simp: Close_def closeWith_def Let_def)
qed (auto simp: heard_def)

lemma heard_start: "chBuf c = [] \<Longrightarrow> heard E (set (fst (read_frames (envDec E) r))) (start_system c r)"
  by (simp add: heard_def start_system_def Start_def)

lemma reach_heard:
  assumes "ipc_reach E (start_system c r) s" and "chBuf c = []"
  shows "heard E (set (fst (read_frames (envDec E) r))) s"
  using assms(1) by (induction rule: ipc_reach.induct) (auto intro: heard_step heard_start [OF assms(2)])

text \<open>
  Claim C21.  Requests are matched with their responses: under every interleaving of callers, handlers, closes and
  the read loop, no request returns twice, and a request that succeeds returns a response frame that
  carries its own id and that the peer sent.
\<close>

theorem requests_matched:
  assumes "ipc_reach E (start_system (configured inbound kinds) r) s"
  shows "distinct (map fst (syResults s)) \<and>
    (\<forall>i m. (i, Inr m) \<in> set (syResults s) \<longrightarrow>
       msID m = i \<and> msKind m = KindResponse \<and> m \<in> set (fst (read_frames (envDec E) r)))"
proof -
  have "ipc_inv E s" "heard E (set (fst (read_frames (envDec E) r))) s"
    using reach_inv [OF assms] reach_heard [OF assms] by (simp_all add: configured_def NewChannel_def)
  then show ?thesis by (auto simp: ipc_inv_def answers_ok_def heard_def ids_ok_def)
qed

text \<open>How far a request is from its result.\<close>

definition request_rank :: "task \<Rightarrow> nat" where
  "request_rank t = (case t of ReqWrite _ \<Rightarrow> 3 | ReqClose _ _ \<Rightarrow> 2 | ReqDelete _ _ \<Rightarrow> 1 | ReqWait _ \<Rightarrow> 1 | _ \<Rightarrow> 0)"

text \<open>
  Claim C22.  No request is lost: while the channel is open, a request that waits is registered, or its response
  lies in its buffer and it can take it; and once the channel is closed for whatever reason, every request that
  is under way is able to go on whatever the peer does, and each of its steps brings it closer
  to its result, so that it returns after at most three steps of its own.
\<close>

theorem requests_not_lost:
  assumes "ipc_reach E (start_system (configured inbound kinds) r) s" and "t \<in> set (syTasks s)" and "req_of t = [i]"
  shows "(t = ReqWait i \<and> \<not> chClosed (syChan s) \<longrightarrow>
      i \<in> set (chPending (syChan s)) \<or> (\<exists>m c. msID m = i \<and> task_step E TakeResponse t (syChan s) = Some ([], [(i, response_result E m)], c))) \<and>
    (chClosed (syChan s) \<longrightarrow>
      (\<exists>ch out. task_step E ch t (syChan s) = Some out) \<and>
      (\<forall>ch ts res c. task_step E ch t (syChan s) = Some (ts, res, c) \<longrightarrow>
         chClosed c \<and> (ts = [] \<and> map fst res = [i] \<or> (\<exists>u. ts = [u] \<and> req_of u = [i] \<and> request_rank u < request_rank t))))"
proof (intro conjI impI allI)
  have inv: "closed_ok (syChan s)" "buffers_ok (syChan s)" "waiting_ok (syTasks s) (syChan s)"
    using reach_inv [OF assms(1)] by (simp_all add: ipc_inv_def)
  { assume t: "t = ReqWait i \<and> \<not> chClosed (syChan s)"
    then have "i \<in> set (chPending (syChan s)) \<or> i \<in> fst ` set (chBuf (syChan s))"
      using inv(3) assms(2) by (auto simp: waiting_ok_def)
    then consider "i \<in> set (chPending (syChan s))" | m where "map_of (chBuf (syChan s)) i = Some m" "msID m = i"
      using inv(2) by (auto simp: buffers_ok_def)
    then show "i \<in> set (chPending (syChan s)) \<or>
      (\<exists>m c. msID m = i \<and> task_step E TakeResponse t (syChan s) = Some ([], [(i, response_result E m)], c))"
      using t by cases (auto simp: SendRequest_select_def) }
  { assume closed: "chClosed (syChan s)"
    have "\<exists>ch. \<exists>out. task_step E ch t (syChan s) = Some out"
      using assms(3) closed inv(1)
      by (cases t; intro exI [of _ TakeDone])
         (auto simp: SendRequest_select_def closed_ok_def split: prod.splits write_outcome.splits)
    then show "\<exists>ch out. task_step E ch t (syChan s) = Some out" . }
  { fix ch ts res c
    assume closed: "chClosed (syChan s)" and st: "task_step E ch t (syChan s) = Some (ts, res, c)"
    show "chClosed c" using task_step_effect [OF st] closed
      by (auto simp: same_requests_def gives_up_def delete_pending_def closeWith_def)
    show "ts = [] \<and> map fst res = [i] \<or> (\<exists>u. ts = [u] \<and> req_of u = [i] \<and> request_rank u < request_rank t)"
      using st assms(3) by (cases t) (auto simp: request_rank_def split: prod.splits write_outcome.splits option.splits) }
qed

text \<open>
  The receipt of a response tells the truth: writing a tracked frame completes its receipt with what the
  write returned; this is nil exactly when the whole frame has been appended to the stream,
  a terminal frame then seals the writing, and any failure leaves the channel sealed or
  closed.  A receipt that is complete never changes again.
\<close>

theorem tracked_write_spec:
  assumes "writeFrameTracked E msg (Some i) terminal c = (err, d)" and "i < length (chReceipts c)"
    and "chReceipts c ! i = \<lparr>rcDone = False, rcErr = None\<rparr>"
  shows "chReceipts d ! i = \<lparr>rcDone = True, rcErr = err\<rparr> \<and>
    (err = None \<longrightarrow> wrBytes (chWire d) = wrBytes (chWire c) @ frame_bytes (envEnc E) msg \<and> frame_bytes (envEnc E) msg \<noteq> [] \<and>
       (terminal \<longrightarrow> chWriteSealed d)) \<and>
    (err \<noteq> None \<longrightarrow> chWriteSealed d \<or> chClosed d) \<and>
    (\<forall>e. (complete_receipt (Some i) e d) = d)"
proof -
  obtain out c1 where w: "write_locked E msg (Some i) terminal c = (out, c1)" by fastforce
  have receipts: "chReceipts d ! i = \<lparr>rcDone = True, rcErr = err\<rparr>"
    using assms w
    by (auto simp: writeFrameTracked_def write_locked_def write_broken_def writeFrameBytes_def complete_receipt_def
        receipt_complete_def sealWrites_def closeWith_def Let_def split: write_outcome.splits option.splits prod.splits if_splits)
  then have "(chReceipts d)[i := \<lparr>rcDone = True, rcErr = err\<rparr>] = chReceipts d" by (metis list_update_id)
  then have "\<forall>e. complete_receipt (Some i) e d = d"
    using receipts by (simp add: complete_receipt_def receipt_complete_def)
  moreover have "err = None \<longrightarrow> wrBytes (chWire d) = wrBytes (chWire c) @ frame_bytes (envEnc E) msg \<and>
      frame_bytes (envEnc E) msg \<noteq> [] \<and> (terminal \<longrightarrow> chWriteSealed d)"
    using assms(1) w write_locked_cases [OF w]
    by (auto simp: writeFrameTracked_def frame_bytes_def frame_of_def PutUint32_def split: write_outcome.splits)
  moreover have "err \<noteq> None \<longrightarrow> chWriteSealed d \<or> chClosed d"
    using assms(1) w write_locked_cases [OF w]
    by (auto simp: writeFrameTracked_def write_broken_def closeWith_def complete_receipt_def write_locked_def
        writeAdmissionError_def Let_def split: write_outcome.splits option.splits if_splits prod.splits)
  ultimately show ?thesis using receipts by blast
qed

text \<open>
  A stream that ends right after the header of a frame is reported like one that ends between two
  frames: the error of the body wraps \<open>io.EOF\<close>, and \<open>closeWith\<close> looks through the wrapping.
\<close>

lemma header_only_closes_as_eof:
  assumes "body \<noteq> []" and "length body \<le> maxFrameSize"
  shows "\<exists>e r. ReadFrame dec \<lparr>bsBytes = PutUint32 (of_nat (length body)), bsEnd = EOF\<rparr> = (Inl e, r) \<and> e \<noteq> EOF \<and>
     chCloseErr (closeWith (Some e) NewChannel) = Some (ErrText ''ipc: channel closed (peer EOF)'')"
  using assms by (simp add: ReadFrame_def read_full_def unat_length closeWith_def NewChannel_def Let_def)

section \<open>A run\<close>

text \<open>One request, answered by the peer with a response frame; the stream then ends.\<close>

definition sample_ipc :: "unit ipc_env" where
  "sample_ipc = \<lparr>envEnc = fst sample_codec, envDec = snd sample_codec, envWriter = \<lambda>n p. Wrote (length p) None,
     envMarshal = \<lambda>_. Marshalled [], envErrorData = \<lambda>_. None, envErrorText = \<lambda>_. [], envShow = \<lambda>_. []\<rparr>"

definition sample_request :: Message where "sample_request = \<lparr>msKind = ''lint'', msID = 1, msData = []\<rparr>"
definition sample_reply :: Message where "sample_reply = \<lparr>msKind = KindResponse, msID = 1, msData = []\<rparr>"

definition sample_peer :: byte_stream where
  "sample_peer = \<lparr>bsBytes = frame_bytes (fst sample_codec) sample_reply, bsEnd = EOF\<rparr>"

abbreviation sample_start :: ipc_system where
  "sample_start \<equiv> start_system (configured False []) sample_peer"

definition sample_open :: Channel where
  "sample_open = (configured False [])\<lparr>chStarted := True, chNextID := 2, chPending := [1],
     chWire := \<lparr>wrCalls = 2, wrBytes = frame_bytes (fst sample_codec) sample_request\<rparr>\<rparr>"

lemma sample_carried1: "carried (fst sample_codec) (snd sample_codec) sample_request" "carried (fst sample_codec) (snd sample_codec) sample_reply"
  by (simp_all add: carried_def sample_codec_def sample_request_def sample_reply_def KindResponse_def maxFrameSize_def)

lemma sample_msg [simp]: "msID sample_request = 1" "msID sample_reply = 1" "msKind sample_reply = KindResponse"
  by (simp_all add: sample_request_def sample_reply_def)

lemma sample_write:
  "write_locked sample_ipc sample_request None False
     ((configured False [])\<lparr>chStarted := True, chNextID := 2, chPending := [1]\<rparr>) = (Written, sample_open)"
  using sample_carried1(1)
  by (elim carriedE)
     (simp add: write_locked_def writeAdmissionError_def writeFrameBytes_def WriteFrame_def writeExact_def sample_ipc_def
       configured_def NewChannel_def complete_receipt_def sample_open_def frame_of_def)

lemma sample_waiting:
  "ipc_reach sample_ipc sample_start (sample_start\<lparr>syChan := sample_open, syTasks := [ReqWait 1]\<rparr>)"
proof -
  let ?c = "(configured False [])\<lparr>chStarted := True, chNextID := 2, chPending := [1]\<rparr>"
  have "SendRequest_begin (sample_request\<lparr>msID := 0\<rparr>) (syChan sample_start) = (Inr sample_request, ?c)"
    by (simp add: SendRequest_begin_def start_system_def Start_def configured_def NewChannel_def sample_request_def)
  then have 1: "ipc_step sample_ipc sample_start (sample_start\<lparr>syChan := ?c, syTasks := [ReqWrite sample_request]\<rparr>)"
    using ipc_step.request [of sample_ipc "''lint''" UntypedNil "sample_request\<lparr>msID := 0\<rparr>" sample_start]
    by (simp add: NewMessage_def sample_request_def start_system_def)
  have 2: "ipc_step sample_ipc (sample_start\<lparr>syChan := ?c, syTasks := [ReqWrite sample_request]\<rparr>)
      (sample_start\<lparr>syChan := sample_open, syTasks := [ReqWait 1]\<rparr>)"
    using ipc_step.run [of "sample_start\<lparr>syChan := ?c, syTasks := [ReqWrite sample_request]\<rparr>" "[]" "ReqWrite sample_request" "[]" sample_ipc Proceed]
    by (simp add: sample_write start_system_def)
  show ?thesis by (rule ipc_reach.step [OF ipc_reach.step [OF ipc_reach.start 1] 2])
qed

definition sample_answered :: ipc_system where
  "sample_answered = sample_start\<lparr>syChan := sample_open\<lparr>chPending := []\<rparr>, syResults := [(1, Inr sample_reply)],
     syIn := \<lparr>bsBytes = [], bsEnd = EOF\<rparr>\<rparr>"

lemma sample_returns: "ipc_reach sample_ipc sample_start sample_answered"
proof -
  let ?w = "sample_start\<lparr>syChan := sample_open, syTasks := [ReqWait 1]\<rparr>"
  let ?d = "?w\<lparr>syChan := sample_open\<lparr>chPending := [], chBuf := [(1, sample_reply)]\<rparr>, syIn := \<lparr>bsBytes = [], bsEnd = EOF\<rparr>\<rparr>"
  have "ReadFrame (snd sample_codec) sample_peer = (Inr sample_reply, \<lparr>bsBytes = [], bsEnd = EOF\<rparr>)"
    using sample_carried1(2) ReadFrame_frame [of _ "snd sample_codec" sample_reply "[]"]
    by (auto simp: sample_peer_def elim!: carriedE)
  then have "read_turn sample_ipc ?w = ?d"
    by (simp add: read_turn_def sample_ipc_def start_system_def dispatch_def sample_open_def delete_pending_def configured_def NewChannel_def)
  then have 1: "ipc_reach sample_ipc sample_start ?d"
    using ipc_reach.step [OF sample_waiting ipc_step.read] by (simp add: start_system_def)
  have "task_step sample_ipc TakeResponse (ReqWait 1) (syChan ?d) = Some ([], [(1, Inr sample_reply)], sample_open\<lparr>chPending := []\<rparr>)"
    by (simp add: SendRequest_select_def response_result_def KindResponse_def KindError_def sample_open_def configured_def NewChannel_def)
  then have "ipc_step sample_ipc ?d sample_answered"
    using ipc_step.run [of ?d "[]" "ReqWait 1" "[]" sample_ipc TakeResponse] by (simp add: sample_answered_def start_system_def)
  with 1 show ?thesis by (rule ipc_reach.step)
qed

theorem requests_matched_witness:
  "(1, Inr sample_reply) \<in> set (syResults sample_answered) \<and> sample_reply \<in> set (fst (read_frames (snd sample_codec) sample_peer))"
  using requests_matched [OF sample_returns] by (auto simp: sample_answered_def sample_ipc_def)

lemma sample_shut: "ipc_reach sample_ipc sample_start (sample_start\<lparr>syChan := Close sample_open, syTasks := [ReqWait 1]\<rparr>)"
  using ipc_reach.step [OF sample_waiting ipc_step.close] by (simp add: start_system_def)

theorem requests_not_lost_witness:
  "chClosed (Close sample_open) \<and> (\<exists>ch out. task_step sample_ipc ch (ReqWait 1) (Close sample_open) = Some out)"
  using requests_not_lost [OF sample_shut, of "ReqWait 1" 1] by (simp add: Close_def closeWith_def sample_open_def configured_def NewChannel_def Let_def)

definition sample_tracked :: Channel where
  "sample_tracked = sample_open\<lparr>chReceipts := [\<lparr>rcDone = False, rcErr = None\<rparr>]\<rparr>"

theorem tracked_write_spec_witness:
  "\<exists>d. writeFrameTracked sample_ipc sample_reply (Some 0) True sample_tracked = (None, d) \<and> chWriteSealed d \<and>
     chReceipts d ! 0 = \<lparr>rcDone = True, rcErr = None\<rparr>"
proof -
  obtain d where d: "writeFrameTracked sample_ipc sample_reply (Some 0) True sample_tracked = (None, d)"
    using sample_carried1(2)
    by (elim carriedE)
       (simp add: writeFrameTracked_def write_locked_def writeAdmissionError_def writeFrameBytes_def WriteFrame_def
         writeExact_def sample_ipc_def sample_tracked_def sample_open_def configured_def NewChannel_def)
  show ?thesis using tracked_write_spec [OF d] d by (simp add: sample_tracked_def)
qed

end
