(* ===== verification/Ipc_Writers.thy ===== *)
theory Ipc_Writers
  imports Ipc_Channel "HOL-Library.Sublist" "HOL-Library.Multiset"
begin

text \<open>
  The writers of a channel, \<^verbatim>\<open>internal/ipc/channel.go\<close>, \<open>writeFrameTracked\<close>, at the grain of its locks.

  The system of \<open>Ipc_Channel\<close> runs a write as one step.  Here a write is cut wherever the code can be
  interrupted: taking \<open>writeMu\<close>, the admission (a section of \<open>mu\<close>), each of the two calls of the
  \<open>io.Writer\<close>, the sealing (a section of \<open>mu\<close>), the release of \<open>writeMu\<close>, the close after a fault and
  the completion of the receipt.  Any number of writers take turns in any order; \<open>closeWith\<close> takes
  \<open>mu\<close> alone and comes in between anywhere, so that a frame that was admitted is still written after a
  close has sealed the stream.
\<close>

section \<open>Writers\<close>

datatype write_phase =
    Queued
  | Locked
  | Refused ipc_error
  | Admitted
  | HeaderWritten string
  | BytesDone "ipc_error option"
  | SealDone "ipc_error option"
  | Closing ipc_error
  | Completing ipc_error
  | Returned "ipc_error option"

record writer =
  wtMsg :: Message
  wtReceipt :: "nat option"
  wtTerminal :: bool
  wtPhase :: write_phase

record write_system =
  wsChan :: Channel
  wsWriteMu :: "nat option"
  wsWriters :: "writer list"

text \<open>An error or a panic of the \<open>io.Writer\<close>, as \<open>writeFrameBytes\<close> reports it; \<open>label\<close> is what \<open>WriteFrame\<close> wraps it in.\<close>

definition fault_of :: "string \<Rightarrow> write_end \<Rightarrow> ipc_error option" where
  "fault_of label e =
     (case e of
        WriteOK \<Rightarrow> None
      | WriteFailed err \<Rightarrow> Some (ErrWrap label [] [err])
      | WritePanicked x \<Rightarrow> Some (ErrText (''ipc: writer panicked: '' @ x)))"

definition begin_frame :: "'p ipc_env \<Rightarrow> Message \<Rightarrow> Channel \<Rightarrow> write_phase \<times> Channel" where
  "begin_frame E msg c =
     (case envEnc E msg of
        Inl e \<Rightarrow> (BytesDone (Some (ErrWrap (''ipc: encode frame (kind='' @ msKind msg @ ''): %w'') [] [e])), c)
      | Inr body \<Rightarrow>
          if length body > maxFrameSize
          then (BytesDone (Some (ErrNums ''ipc: frame body %d exceeds cap %d'' [int (length body), int maxFrameSize])), c)
          else (case writeExact (envWriter E) (PutUint32 (of_nat (length body))) (chWire c) of
                  (e, w) \<Rightarrow>
                    ((case fault_of ''ipc: write frame length: %w'' e of None \<Rightarrow> HeaderWritten body | Some err \<Rightarrow> BytesDone (Some err)),
                     c\<lparr>chWire := w\<rparr>)))"

definition finish_frame :: "'p ipc_env \<Rightarrow> string \<Rightarrow> Channel \<Rightarrow> write_phase \<times> Channel" where
  "finish_frame E body c =
     (case writeExact (envWriter E) body (chWire c) of
        (e, w) \<Rightarrow> (BytesDone (fault_of ''ipc: write frame body: %w'' e), c\<lparr>chWire := w\<rparr>))"

text \<open>
  The next phase of a writer, whether it now takes or releases \<open>writeMu\<close>, and the channel afterwards; a returned
  writer has no turn, and one that waits for a mutex that is held has none either.
\<close>

datatype lock_move = Keep | Take | Release

fun phase_step :: "'p ipc_env \<Rightarrow> writer \<Rightarrow> Channel \<Rightarrow> (write_phase \<times> lock_move \<times> Channel) option" where
  "phase_step E x c =
     (case wtPhase x of
        Queued \<Rightarrow> Some (Locked, Take, c)
      | Locked \<Rightarrow>
          (case writeAdmissionError c of
             Some e \<Rightarrow> Some (Refused e, Release, c)
           | None \<Rightarrow> Some (Admitted, Keep, c))
      | Refused e \<Rightarrow> Some (Returned (Some e), Keep, complete_receipt (wtReceipt x) (Some e) c)
      | Admitted \<Rightarrow> (case begin_frame E (wtMsg x) c of (p, d) \<Rightarrow> Some (p, Keep, d))
      | HeaderWritten body \<Rightarrow> (case finish_frame E body c of (p, d) \<Rightarrow> Some (p, Keep, d))
      | BytesDone err \<Rightarrow>
          Some (SealDone err, Keep,
            case err of Some e \<Rightarrow> sealWrites e c | None \<Rightarrow> if wtTerminal x then sealWrites errTerminalResponse c else c)
      | SealDone err \<Rightarrow>
          (case err of
             None \<Rightarrow> Some (Returned None, Release, complete_receipt (wtReceipt x) None c)
           | Some e \<Rightarrow> Some (Closing e, Release, c))
      | Closing e \<Rightarrow> Some (Completing e, Keep, closeWith (Some e) c)
      | Completing e \<Rightarrow> Some (Returned (Some e), Keep, complete_receipt (wtReceipt x) (Some e) c)
      | Returned err \<Rightarrow> None)"

definition move_lock :: "lock_move \<Rightarrow> nat \<Rightarrow> nat option \<Rightarrow> nat option option" where
  "move_lock m w h =
     (case m of
        Keep \<Rightarrow> Some h
      | Take \<Rightarrow> if h = None then Some (Some w) else None
      | Release \<Rightarrow> Some None)"

definition writer_turn :: "'p ipc_env \<Rightarrow> nat \<Rightarrow> write_system \<Rightarrow> write_system option" where
  "writer_turn E w s =
     (if w < length (wsWriters s)
      then (case phase_step E (wsWriters s ! w) (wsChan s) of
              None \<Rightarrow> None
            | Some (p, m, c) \<Rightarrow>
                (case move_lock m w (wsWriteMu s) of
                   None \<Rightarrow> None
                 | Some h \<Rightarrow> Some \<lparr>wsChan = c, wsWriteMu = h, wsWriters = (wsWriters s)[w := (wsWriters s ! w)\<lparr>wtPhase := p\<rparr>]\<rparr>))
      else None)"

text \<open>
  What the rest of the channel does between the turns: registering and dropping requests, delivering responses, handing out
  receipts and logging leave the stream, the seal and the closing alone.
\<close>

definition beside_writes :: "Channel \<Rightarrow> Channel \<Rightarrow> bool" where
  "beside_writes c d \<longleftrightarrow> chWire d = chWire c \<and> chWriteSealed d = chWriteSealed c \<and> chWriteSealErr d = chWriteSealErr c \<and>
     chClosed d = chClosed c \<and> chCloseErr d = chCloseErr c"

inductive write_step :: "'p ipc_env \<Rightarrow> write_system \<Rightarrow> write_system \<Rightarrow> bool" for E :: "'p ipc_env" where
  call: "write_step E s (s\<lparr>wsWriters := wsWriters s @ [\<lparr>wtMsg = msg, wtReceipt = receipt, wtTerminal = terminal, wtPhase = Queued\<rparr>]\<rparr>)"
| turn: "writer_turn E w s = Some t \<Longrightarrow> write_step E s t"
| shut: "write_step E s (s\<lparr>wsChan := closeWith cause (wsChan s)\<rparr>)"
| beside: "beside_writes (wsChan s) d \<Longrightarrow> write_step E s (s\<lparr>wsChan := d\<rparr>)"

inductive write_reach :: "'p ipc_env \<Rightarrow> write_system \<Rightarrow> write_system \<Rightarrow> bool" for E :: "'p ipc_env" and s0 :: write_system where
  start: "write_reach E s0 s0"
| step: "write_reach E s0 s \<Longrightarrow> write_step E s t \<Longrightarrow> write_reach E s0 t"

definition start_writers :: "Channel \<Rightarrow> write_system" where
  "start_writers c = \<lparr>wsChan = c, wsWriteMu = None, wsWriters = []\<rparr>"

section \<open>One writer alone\<close>

text \<open>A write that is not interrupted is the \<open>writeFrameTracked\<close> of the request channel.\<close>

lemma beside_request:
  "SendRequest_begin msg c = (r, d) \<Longrightarrow> beside_writes c d" "dispatch E msg c = (ts, d) \<Longrightarrow> beside_writes c d"
  "newTrackedResponse p terminal c = (x, k, d) \<Longrightarrow> beside_writes c d" "beside_writes c (delete_pending i c)"
  "SendRequest_select E ch i c = Some (res, d) \<Longrightarrow> beside_writes c d"
  by (auto simp: beside_writes_def SendRequest_begin_def dispatch_def newTrackedResponse_def delete_pending_def log_line_def
      SendRequest_select_def Let_def split: if_splits choice.splits option.splits)

fun turns :: "'p ipc_env \<Rightarrow> nat \<Rightarrow> nat \<Rightarrow> write_system \<Rightarrow> write_system option" where
  "turns E w 0 s = Some s"
| "turns E w (Suc n) s = (case writer_turn E w s of None \<Rightarrow> None | Some t \<Rightarrow> turns E w n t)"

definition alone :: "Channel \<Rightarrow> nat option \<Rightarrow> writer \<Rightarrow> write_phase \<Rightarrow> write_system" where
  "alone c h x p = \<lparr>wsChan = c, wsWriteMu = h, wsWriters = [x\<lparr>wtPhase := p\<rparr>]\<rparr>"

lemma turn_alone:
  "writer_turn E 0 (alone c h x p) =
     (case phase_step E (x\<lparr>wtPhase := p\<rparr>) c of None \<Rightarrow> None
      | Some (q, m, d) \<Rightarrow> (case move_lock m 0 h of None \<Rightarrow> None | Some h' \<Rightarrow> Some (alone d h' x q)))"
  by (auto simp: writer_turn_def alone_def split: option.splits prod.splits)

lemma write_alone:
  assumes "writeFrameTracked E (wtMsg x) (wtReceipt x) (wtTerminal x) c = (err, d)"
  shows "\<exists>n \<le> 8. turns E 0 n (alone c None x Queued) = Some (alone d None x (Returned err))"
proof -
  note run = turn_alone move_lock_def eval_nat_numeral
  note sequential = writeFrameTracked_def write_locked_def write_broken_def writeFrameBytes_def WriteFrame_def
  show ?thesis
  proof (cases "writeAdmissionError c")
    case (Some e)
    then have "err = Some e" "d = complete_receipt (wtReceipt x) (Some e) c" using assms by (auto simp: sequential)
    then have "turns E 0 3 (alone c None x Queued) = Some (alone d None x (Returned err))" using Some by (simp add: run)
    then show ?thesis by (intro exI [of _ 3]) simp
  next
    case None
    note admitted = this
    show ?thesis
    proof (cases "\<exists>body. envEnc E (wtMsg x) = Inr body \<and> length body \<le> maxFrameSize")
      case False
      then have "turns E 0 7 (alone c None x Queued) = Some (alone d None x (Returned err))"
        using assms admitted by (auto simp: run sequential begin_frame_def split: sum.splits)
      then show ?thesis by (intro exI [of _ 7]) simp
    next
      case True
      then obtain body where enc: "envEnc E (wtMsg x) = Inr body" "\<not> length body > maxFrameSize" by auto
      obtain e1 w1 where h: "writeExact (envWriter E) (PutUint32 (of_nat (length body))) (chWire c) = (e1, w1)" by fastforce
      obtain e2 w2 where b: "writeExact (envWriter E) body w1 = (e2, w2)" by fastforce
      show ?thesis
      proof (cases "e1 = WriteOK")
        case False
        then have "turns E 0 7 (alone c None x Queued) = Some (alone d None x (Returned err))"
          using assms admitted enc h by (cases e1) (auto simp: run sequential begin_frame_def fault_of_def)
        then show ?thesis by (intro exI [of _ 7]) simp
      next
        case True
        have "e2 = WriteOK \<Longrightarrow> turns E 0 6 (alone c None x Queued) = Some (alone d None x (Returned err))"
          using assms admitted enc h b True by (auto simp: run sequential begin_frame_def finish_frame_def fault_of_def)
        moreover have "e2 \<noteq> WriteOK \<Longrightarrow> turns E 0 8 (alone c None x Queued) = Some (alone d None x (Returned err))"
          using assms admitted enc h b True
          by (cases e2) (auto simp: run sequential begin_frame_def finish_frame_def fault_of_def)
        ultimately show ?thesis by (cases "e2 = WriteOK") (auto intro: exI [of _ 6])
      qed
    qed
  qed
qed

section \<open>The invariant\<close>

definition good_body :: "'p ipc_env \<Rightarrow> string \<Rightarrow> bool" where
  "good_body E b \<longleftrightarrow> length b \<le> maxFrameSize \<and> (\<exists>m. envEnc E m = Inr b)"

definition part_of_frame :: "'p ipc_env \<Rightarrow> string \<Rightarrow> bool" where
  "part_of_frame E r \<longleftrightarrow> r = [] \<or> (\<exists>b. good_body E b \<and> prefix r (frame_of b))"

fun holds_lock :: "write_phase \<Rightarrow> bool" where
  "holds_lock Locked = True"
| "holds_lock Admitted = True"
| "holds_lock (HeaderWritten body) = True"
| "holds_lock (BytesDone err) = True"
| "holds_lock (SealDone err) = True"
| "holds_lock _ = False"

text \<open>What may follow the whole frames on the stream, by the phase of the writer that holds \<open>writeMu\<close>.\<close>

definition tail_ok :: "'p ipc_env \<Rightarrow> Channel \<Rightarrow> writer option \<Rightarrow> string \<Rightarrow> bool" where
  "tail_ok E c h r =
     (let rest = (r = [] \<or> chWriteSealed c \<and> part_of_frame E r)
      in case h of
           None \<Rightarrow> rest
         | Some x \<Rightarrow>
             (case wtPhase x of
                Admitted \<Rightarrow> r = []
              | HeaderWritten body \<Rightarrow> r = PutUint32 (of_nat (length body)) \<and> envEnc E (wtMsg x) = Inr body \<and> length body \<le> maxFrameSize
              | BytesDone err \<Rightarrow> if err = None then r = [] else part_of_frame E r
              | SealDone err \<Rightarrow> if err = None then r = [] else chWriteSealed c \<and> part_of_frame E r
              | _ \<Rightarrow> rest))"

definition wrote_frame :: "writer \<Rightarrow> bool" where
  "wrote_frame x \<longleftrightarrow> wtPhase x \<in> {BytesDone None, SealDone None, Returned None}"

definition frames_written :: "'p ipc_env \<Rightarrow> writer list \<Rightarrow> (ipc_error + string) multiset" where
  "frames_written E ws = mset (map (\<lambda>x. envEnc E (wtMsg x)) (filter wrote_frame ws))"

definition terminal_sealed :: "Channel \<Rightarrow> writer \<Rightarrow> bool" where
  "terminal_sealed c x \<longleftrightarrow> (wtTerminal x \<and> wtPhase x \<in> {SealDone None, Returned None} \<longrightarrow> chWriteSealed c)"

definition lock_ok :: "write_system \<Rightarrow> bool" where
  "lock_ok s \<longleftrightarrow> (\<forall>w < length (wsWriters s). holds_lock (wtPhase (wsWriters s ! w)) \<longleftrightarrow> wsWriteMu s = Some w) \<and>
     (\<forall>w. wsWriteMu s = Some w \<longrightarrow> w < length (wsWriters s))"

definition lock_holder :: "write_system \<Rightarrow> writer option" where
  "lock_holder s = map_option (\<lambda>w. wsWriters s ! w) (wsWriteMu s)"

definition stream_ok :: "'p ipc_env \<Rightarrow> Channel \<Rightarrow> writer option \<Rightarrow> writer list \<Rightarrow> bool" where
  "stream_ok E c h ws \<longleftrightarrow> (\<exists>bodies r. wrBytes (chWire c) = concat (map frame_of bodies) @ r \<and> list_all (good_body E) bodies \<and>
     tail_ok E c h r \<and> mset (map Inr bodies) = frames_written E ws)"

definition write_inv :: "'p ipc_env \<Rightarrow> write_system \<Rightarrow> bool" where
  "write_inv E s \<longleftrightarrow> lock_ok s \<and> (\<forall>x \<in> set (wsWriters s). terminal_sealed (wsChan s) x) \<and>
     stream_ok E (wsChan s) (lock_holder s) (wsWriters s)"

lemma frames_written_update:
  assumes "w < length ws"
  shows "frames_written E (ws[w := (ws ! w)\<lparr>wtPhase := p\<rparr>]) +
      (if wrote_frame (ws ! w) then {#envEnc E (wtMsg (ws ! w))#} else {#}) =
    frames_written E ws + (if wrote_frame ((ws ! w)\<lparr>wtPhase := p\<rparr>) then {#envEnc E (wtMsg (ws ! w))#} else {#})"
proof -
  have "frames_written E ws = frames_written E (take w ws @ ws ! w # drop (Suc w) ws)"
    using assms by (simp add: id_take_nth_drop [symmetric])
  then show ?thesis using assms by (simp add: frames_written_def upd_conv_take_nth_drop)
qed

lemma part_of_frame_take:
  assumes "envEnc E m = Inr b" and "length b \<le> maxFrameSize" and "prefix r (frame_of b)"
  shows "part_of_frame E r"
  using assms unfolding part_of_frame_def good_body_def by blast

lemma tail_ok_part:
  assumes "tail_ok E c h r" and "r \<noteq> []"
  shows "(\<exists>m body. envEnc E m = Inr body \<and> prefix r (frame_of body)) \<and> (chWriteSealed c \<or> h \<noteq> None)"
proof (cases "\<exists>x body. h = Some x \<and> wtPhase x = HeaderWritten body")
  case True
  then obtain x body where x: "h = Some x" "envEnc E (wtMsg x) = Inr body" "r = PutUint32 (of_nat (length body))"
    using assms(1) by (auto simp: tail_ok_def)
  then have "prefix r (frame_of body)" by (simp add: frame_of_def)
  then show ?thesis using x by blast
next
  case False
  then have "part_of_frame E r \<and> (chWriteSealed c \<or> h \<noteq> None)" using assms
    by (auto simp: tail_ok_def Let_def split: option.splits write_phase.splits if_splits)
  then show ?thesis using assms(2) unfolding part_of_frame_def good_body_def by blast
qed

lemma tail_ok_later:
  "tail_ok E c h r \<Longrightarrow> (chWriteSealed c \<longrightarrow> chWriteSealed d) \<Longrightarrow> tail_ok E d h r"
  by (auto simp: tail_ok_def Let_def split: option.splits write_phase.splits if_splits)

lemma stream_ok_later:
  "stream_ok E c h ws \<Longrightarrow> chWire d = chWire c \<Longrightarrow> (chWriteSealed c \<longrightarrow> chWriteSealed d) \<Longrightarrow> stream_ok E d h ws"
  unfolding stream_ok_def by (metis tail_ok_later)

lemma terminal_sealed_later:
  "terminal_sealed c x \<Longrightarrow> (chWriteSealed c \<longrightarrow> chWriteSealed d) \<Longrightarrow> terminal_sealed d x"
  by (auto simp: terminal_sealed_def)

lemma begin_frame_cases:
  assumes "begin_frame E msg c = (p, d)"
  obtains (header) body where "p = HeaderWritten body" "envEnc E msg = Inr body" "length body \<le> maxFrameSize"
      "wrBytes (chWire d) = wrBytes (chWire c) @ PutUint32 (of_nat (length body))" "chWriteSealed d = chWriteSealed c"
  | (fault) e r where "p = BytesDone (Some e)" "wrBytes (chWire d) = wrBytes (chWire c) @ r" "part_of_frame E r"
      "chWriteSealed d = chWriteSealed c" "\<And>body. envEnc E msg = Inr body \<Longrightarrow> prefix r (frame_of body)"
proof (cases "\<exists>body. envEnc E msg = Inr body \<and> length body \<le> maxFrameSize")
  case True
  then obtain body where enc: "envEnc E msg = Inr body" "\<not> length body > maxFrameSize" by auto
  obtain e w where w: "writeExact (envWriter E) (PutUint32 (of_nat (length body))) (chWire c) = (e, w)" by fastforce
  obtain n where n: "wrBytes w = wrBytes (chWire c) @ take n (PutUint32 (of_nat (length body)))"
    "e = WriteOK \<longrightarrow> take n (PutUint32 (of_nat (length body))) = PutUint32 (of_nat (length body))"
    using writeExact_effect [OF w] by blast
  have pre: "prefix (take n (PutUint32 (of_nat (length body)))) (frame_of body)"
    unfolding frame_of_def by (simp add: take_is_prefix prefix_prefix)
  show ?thesis
  proof (cases "e = WriteOK")
    case True
    then show ?thesis using assms enc w n by (intro header [of body]) (auto simp: begin_frame_def fault_of_def)
  next
    case False
    have "d = c\<lparr>chWire := w\<rparr>" using assms enc w by (simp add: begin_frame_def)
    moreover obtain err where "p = BytesDone (Some err)"
      using assms enc w False by (cases e) (auto simp: begin_frame_def fault_of_def)
    moreover have "part_of_frame E (take n (PutUint32 (of_nat (length body))))"
      using enc pre part_of_frame_take [of E msg body] by simp
    ultimately show ?thesis using n pre enc by (intro fault) auto
  qed
next
  case False
  then obtain err where "p = BytesDone (Some err)" "d = c" using assms
    by (auto simp: begin_frame_def split: sum.splits if_splits)
  then show ?thesis by (intro fault [of err "[]"]) (auto simp: part_of_frame_def)
qed

lemma finish_frame_cases:
  assumes "finish_frame E body c = (p, d)"
  obtains (whole) "p = BytesDone None" "wrBytes (chWire d) = wrBytes (chWire c) @ body" "chWriteSealed d = chWriteSealed c"
  | (fault) e n where "p = BytesDone (Some e)" "wrBytes (chWire d) = wrBytes (chWire c) @ take n body"
      "chWriteSealed d = chWriteSealed c"
proof -
  obtain e w where w: "writeExact (envWriter E) body (chWire c) = (e, w)" by fastforce
  obtain n where n: "wrBytes w = wrBytes (chWire c) @ take n body" "e = WriteOK \<longrightarrow> take n body = body"
    using writeExact_effect [OF w] by blast
  show ?thesis
  proof (cases "e = WriteOK")
    case True
    then show ?thesis using assms w n by (intro whole) (auto simp: finish_frame_def fault_of_def)
  next
    case False
    then obtain err where "p = BytesDone (Some err)" using assms w by (cases e) (auto simp: finish_frame_def fault_of_def)
    then show ?thesis using assms w n by (intro fault) (auto simp: finish_frame_def)
  qed
qed

section \<open>Every step keeps it\<close>

lemma phase_step_seals:
  assumes "phase_step E x c = Some (p, m, d)"
  shows "(chWriteSealed c \<longrightarrow> chWriteSealed d \<and> chWriteSealErr d = chWriteSealErr c) \<and>
    (terminal_sealed c x \<longrightarrow> terminal_sealed d (x\<lparr>wtPhase := p\<rparr>))"
  using assms
  by (auto simp: begin_frame_def finish_frame_def fault_of_def sealWrites_def closeWith_def complete_receipt_def terminal_sealed_def Let_def
      split: write_phase.splits option.splits prod.splits sum.splits if_splits write_end.splits)

lemma phase_step_lock:
  assumes "phase_step E x c = Some (p, m, d)"
  shows "holds_lock p \<longleftrightarrow> (case m of Keep \<Rightarrow> holds_lock (wtPhase x) | Take \<Rightarrow> True | Release \<Rightarrow> False)"
    and "m = Take \<longrightarrow> \<not> holds_lock (wtPhase x)" and "m = Release \<longrightarrow> holds_lock (wtPhase x)"
  using assms
  by (auto simp: begin_frame_def finish_frame_def split: write_phase.splits option.splits prod.splits sum.splits if_splits)

text \<open>A writer without the lock leaves the stream alone.\<close>

lemma phase_step_outside:
  assumes "phase_step E x c = Some (p, m, d)" and "\<not> holds_lock (wtPhase x)"
  shows "chWire d = chWire c" and "wrote_frame (x\<lparr>wtPhase := p\<rparr>) = wrote_frame x"
    and "m = Take \<longrightarrow> p = Locked"
  using assms by (auto simp: wrote_frame_def closeWith_def complete_receipt_def Let_def split: write_phase.splits option.splits if_splits)

text \<open>The holder of the lock adds whole frames, or part of one before the seal.\<close>

lemma phase_step_holder:
  assumes "phase_step E x c = Some (p, m, d)" and "holds_lock (wtPhase x)"
    and "wrBytes (chWire c) = concat (map frame_of bodies) @ r" and "list_all (good_body E) bodies" and "tail_ok E c (Some x) r"
  shows "\<exists>bodies' r'. wrBytes (chWire d) = concat (map frame_of bodies') @ r' \<and> list_all (good_body E) bodies' \<and>
    tail_ok E d (if m = Release then None else Some (x\<lparr>wtPhase := p\<rparr>)) r' \<and>
    (wrote_frame (x\<lparr>wtPhase := p\<rparr>) = wrote_frame x \<and> bodies' = bodies \<or>
     \<not> wrote_frame x \<and> wrote_frame (x\<lparr>wtPhase := p\<rparr>) \<and> (\<exists>b. envEnc E (wtMsg x) = Inr b \<and> bodies' = bodies @ [b]))"
proof (cases "wtPhase x")
  case Locked
  then show ?thesis using assms
    by (intro exI [of _ bodies] exI [of _ r])
       (auto simp: tail_ok_def wrote_frame_def writeAdmissionError_def Let_def split: option.splits if_splits)
next
  case Admitted
  then have r: "r = []" using assms(5) by (simp add: tail_ok_def)
  have b: "begin_frame E (wtMsg x) c = (p, d)" "m = Keep" using assms(1) Admitted by (auto split: prod.splits)
  from b(1) show ?thesis
  proof (cases rule: begin_frame_cases)
    case (header body)
    then show ?thesis using assms(3,4) b(2) r
      using Admitted by (intro exI [of _ bodies] exI [of _ "PutUint32 (of_nat (length body))"]) (simp add: tail_ok_def wrote_frame_def)
  next
    case (fault e part)
    then show ?thesis using assms(3,4) b(2) r
      using Admitted by (intro exI [of _ bodies] exI [of _ part]) (simp add: tail_ok_def wrote_frame_def)
  qed
next
  case (HeaderWritten body)
  then have r: "r = PutUint32 (of_nat (length body))" "envEnc E (wtMsg x) = Inr body" "length body \<le> maxFrameSize"
    using assms(5) by (simp_all add: tail_ok_def)
  have b: "finish_frame E body c = (p, d)" "m = Keep" using assms(1) HeaderWritten by (auto split: prod.splits)
  from b(1) show ?thesis
  proof (cases rule: finish_frame_cases)
    case whole
    then have "wrBytes (chWire d) = concat (map frame_of (bodies @ [body])) @ []" using assms(3) r by (simp add: frame_of_def)
    then show ?thesis using assms(4) b(2) r whole(1) HeaderWritten
      by (intro exI [of _ "bodies @ [body]"] exI [of _ "[]"]) (auto simp: tail_ok_def good_body_def wrote_frame_def)
  next
    case (fault e n)
    have "prefix (PutUint32 (of_nat (length body)) @ take n body) (frame_of body)"
      by (simp add: frame_of_def take_is_prefix)
    then have "part_of_frame E (PutUint32 (of_nat (length body)) @ take n body)" using r part_of_frame_take by blast
    then show ?thesis using assms(3,4) b(2) r fault HeaderWritten
      by (intro exI [of _ bodies] exI [of _ "PutUint32 (of_nat (length body)) @ take n body"]) (simp add: tail_ok_def wrote_frame_def)
  qed
next
  case (BytesDone err)
  then show ?thesis using assms
    by (intro exI [of _ bodies] exI [of _ r]) (auto simp: tail_ok_def wrote_frame_def sealWrites_def split: option.splits if_splits)
next
  case (SealDone err)
  then show ?thesis using assms
    by (intro exI [of _ bodies] exI [of _ r])
       (auto simp: tail_ok_def wrote_frame_def complete_receipt_def Let_def split: option.splits if_splits)
qed (use assms(2) in simp_all)

lemma writer_turnE:
  assumes "writer_turn E w s = Some t"
  obtains p m c h where "w < length (wsWriters s)" "phase_step E (wsWriters s ! w) (wsChan s) = Some (p, m, c)"
    "move_lock m w (wsWriteMu s) = Some h"
    "t = \<lparr>wsChan = c, wsWriteMu = h, wsWriters = (wsWriters s)[w := (wsWriters s ! w)\<lparr>wtPhase := p\<rparr>]\<rparr>"
  using assms by (auto simp: writer_turn_def split: if_splits option.splits prod.splits)

lemma turn_lock:
  assumes "writer_turn E w s = Some t" and "lock_ok s"
  shows "lock_ok t"
proof -
  from assms(1) obtain p m c h where t: "w < length (wsWriters s)" "phase_step E (wsWriters s ! w) (wsChan s) = Some (p, m, c)"
    "move_lock m w (wsWriteMu s) = Some h"
    "t = \<lparr>wsChan = c, wsWriteMu = h, wsWriters = (wsWriters s)[w := (wsWriters s ! w)\<lparr>wtPhase := p\<rparr>]\<rparr>"
    by (rule writer_turnE)
  have "holds_lock (wtPhase (wsWriters s ! w)) \<longleftrightarrow> wsWriteMu s = Some w" using assms(2) t(1) by (simp add: lock_ok_def)
  then show ?thesis using phase_step_lock [OF t(2)] t assms(2)
    by (cases m) (auto simp: lock_ok_def move_lock_def nth_list_update split: if_splits)
qed

lemma turn_stream:
  assumes "writer_turn E w s = Some t" and "write_inv E s"
  shows "stream_ok E (wsChan t) (lock_holder t) (wsWriters t)"
proof -
  from assms(1) obtain p m c h where t: "w < length (wsWriters s)" "phase_step E (wsWriters s ! w) (wsChan s) = Some (p, m, c)"
    "move_lock m w (wsWriteMu s) = Some h"
    "t = \<lparr>wsChan = c, wsWriteMu = h, wsWriters = (wsWriters s)[w := (wsWriters s ! w)\<lparr>wtPhase := p\<rparr>]\<rparr>"
    by (rule writer_turnE)
  let ?x = "wsWriters s ! w" and ?x' = "(wsWriters s ! w)\<lparr>wtPhase := p\<rparr>"
  have lk: "holds_lock (wtPhase ?x) \<longleftrightarrow> wsWriteMu s = Some w" "\<And>v. wsWriteMu s = Some v \<Longrightarrow> v < length (wsWriters s)"
    using assms(2) t(1) by (auto simp: write_inv_def lock_ok_def)
  obtain bodies r where b: "wrBytes (chWire (wsChan s)) = concat (map frame_of bodies) @ r" "list_all (good_body E) bodies"
    "tail_ok E (wsChan s) (lock_holder s) r" "mset (map Inr bodies) = frames_written E (wsWriters s)"
    using assms(2) unfolding write_inv_def stream_ok_def by blast
  have upd: "frames_written E (wsWriters t) + (if wrote_frame ?x then {#envEnc E (wtMsg ?x)#} else {#}) =
      mset (map Inr bodies) + (if wrote_frame ?x' then {#envEnc E (wtMsg ?x)#} else {#})"
    using frames_written_update [OF t(1), of E p] t(4) b(4) by simp
  show ?thesis
  proof (cases "holds_lock (wtPhase ?x)")
    case True
    then have holder: "lock_holder s = Some ?x" using lk by (simp add: lock_holder_def)
    have mu: "wsWriteMu s = Some w" using True lk(1) by blast
    have "wsWriteMu t = (if m = Release then None else Some w)"
      using True phase_step_lock(2) [OF t(2)] t(3,4) mu by (cases m) (auto simp: move_lock_def)
    then have "lock_holder t = (if m = Release then None else Some ?x')" using t(1,4) by (simp add: lock_holder_def)
    moreover obtain bodies' r' where b': "wrBytes (chWire c) = concat (map frame_of bodies') @ r'" "list_all (good_body E) bodies'"
      "tail_ok E c (if m = Release then None else Some ?x') r'"
      "wrote_frame ?x' = wrote_frame ?x \<and> bodies' = bodies \<or>
       \<not> wrote_frame ?x \<and> wrote_frame ?x' \<and> (\<exists>b. envEnc E (wtMsg ?x) = Inr b \<and> bodies' = bodies @ [b])"
      using phase_step_holder [OF t(2) True b(1,2)] b(3) unfolding holder by blast
    moreover have "mset (map Inr bodies') = frames_written E (wsWriters t)" using b'(4) upd by (auto split: if_splits)
    ultimately show ?thesis unfolding stream_ok_def using t(4) by (intro exI [of _ bodies'] exI [of _ r']) simp
  next
    case False
    note out = phase_step_outside [OF t(2) False]
    have seal: "chWriteSealed (wsChan s) \<longrightarrow> chWriteSealed c" using phase_step_seals [OF t(2)] by blast
    have "tail_ok E c (lock_holder t) r"
    proof (cases "m = Take")
      case True
      then have "lock_holder s = None" "lock_holder t = Some (?x\<lparr>wtPhase := Locked\<rparr>)"
        using t(1,3,4) out(3) by (auto simp: lock_holder_def move_lock_def split: if_splits)
      then show ?thesis using b(3) seal by (auto simp: tail_ok_def Let_def)
    next
      case no: False
      then have "wsWriteMu t = wsWriteMu s" using phase_step_lock(3) [OF t(2)] False t(3,4) by (cases m) (auto simp: move_lock_def)
      moreover have "wsWriteMu s \<noteq> Some w" using False lk(1) by simp
      ultimately have "lock_holder t = lock_holder s" using t(4) by (cases "wsWriteMu s") (auto simp: lock_holder_def)
      then show ?thesis using b(3) seal tail_ok_later by metis
    qed
    moreover have "mset (map Inr bodies) = frames_written E (wsWriters t)" using upd out(2) by (auto split: if_splits)
    ultimately show ?thesis unfolding stream_ok_def using b(1,2) out(1) t(4) by (intro exI [of _ bodies] exI [of _ r]) simp
  qed
qed

lemma turn_terminal:
  assumes "writer_turn E w s = Some t" and "\<forall>x \<in> set (wsWriters s). terminal_sealed (wsChan s) x"
  shows "\<forall>x \<in> set (wsWriters t). terminal_sealed (wsChan t) x"
proof -
  from assms(1) obtain p m c h where t: "w < length (wsWriters s)" "phase_step E (wsWriters s ! w) (wsChan s) = Some (p, m, c)"
    "t = \<lparr>wsChan = c, wsWriteMu = h, wsWriters = (wsWriters s)[w := (wsWriters s ! w)\<lparr>wtPhase := p\<rparr>]\<rparr>"
    by (rule writer_turnE)
  note later = phase_step_seals [OF t(2)]
  have "terminal_sealed c ((wsWriters s ! w)\<lparr>wtPhase := p\<rparr>)" using later assms(2) t(1) by simp
  moreover have "terminal_sealed c x" if "x \<in> set (wsWriters s)" for x
    using later assms(2) that terminal_sealed_later [of "wsChan s" x c] by blast
  ultimately show ?thesis using t(1,3) by (auto dest: set_update_subset_insert [THEN subsetD])
qed

lemma write_step_inv: "write_step E s t \<Longrightarrow> write_inv E s \<Longrightarrow> write_inv E t"
proof (induction rule: write_step.induct)
  case (call s msg receipt terminal)
  then show ?case
    by (cases "wsWriteMu s")
       (auto simp: write_inv_def lock_ok_def lock_holder_def nth_append terminal_sealed_def stream_ok_def
          frames_written_def wrote_frame_def less_Suc_eq)
next
  case (turn w s t)
  then show ?case using turn_lock [OF turn(1)] turn_stream [OF turn(1)] turn_terminal [OF turn(1)] unfolding write_inv_def by blast
next
  case (shut s cause)
  have "chWire (closeWith cause (wsChan s)) = chWire (wsChan s)" "chWriteSealed (wsChan s) \<longrightarrow> chWriteSealed (closeWith cause (wsChan s))"
    by (auto simp: closeWith_def Let_def)
  then show ?case using shut stream_ok_later [of E "wsChan s" "lock_holder s" "wsWriters s"]
    by (auto simp: write_inv_def lock_ok_def lock_holder_def intro: terminal_sealed_later)
next
  case (beside s d)
  then show ?case using stream_ok_later [of E "wsChan s" "lock_holder s" "wsWriters s" d]
    by (auto simp: write_inv_def lock_ok_def lock_holder_def beside_writes_def intro: terminal_sealed_later)
qed

lemma start_write_inv: "wrBytes (chWire c) = [] \<Longrightarrow> write_inv E (start_writers c)"
  by (auto simp: write_inv_def start_writers_def lock_ok_def lock_holder_def stream_ok_def tail_ok_def frames_written_def intro: exI [of _ "[]"])

lemma write_reach_inv: "write_reach E s t \<Longrightarrow> write_inv E s \<Longrightarrow> write_inv E t"
  by (induction rule: write_reach.induct) (auto intro: write_step_inv)

section \<open>After the seal\<close>

text \<open>What the write that was admitted before the seal may still add.\<close>

definition to_write :: "'p ipc_env \<Rightarrow> writer \<Rightarrow> string" where
  "to_write E x =
     (case wtPhase x of
        Admitted \<Rightarrow> (case envEnc E (wtMsg x) of Inl _ \<Rightarrow> [] | Inr body \<Rightarrow> frame_of body)
      | HeaderWritten body \<Rightarrow> body
      | _ \<Rightarrow> [])"

definition unwritten :: "'p ipc_env \<Rightarrow> write_system \<Rightarrow> string" where
  "unwritten E s = (case lock_holder s of None \<Rightarrow> [] | Some x \<Rightarrow> to_write E x)"

lemma phase_step_unwritten:
  assumes "phase_step E x c = Some (p, m, d)" and "chWriteSealed c"
  shows "\<exists>extra. wrBytes (chWire d) = wrBytes (chWire c) @ extra \<and> prefix (extra @ to_write E (x\<lparr>wtPhase := p\<rparr>)) (to_write E x)"
proof (cases "wtPhase x")
  case Admitted
  then have b: "begin_frame E (wtMsg x) c = (p, d)" using assms(1) by (auto split: prod.splits)
  then show ?thesis
  proof (cases rule: begin_frame_cases)
    case (header body)
    then show ?thesis using Admitted by (intro exI [of _ "PutUint32 (of_nat (length body))"]) (simp add: to_write_def frame_of_def)
  next
    case (fault e r)
    then show ?thesis using Admitted b
      by (intro exI [of _ r]) (auto simp: to_write_def begin_frame_def split: sum.splits)
  qed
next
  case (HeaderWritten body)
  then have "finish_frame E body c = (p, d)" using assms(1) by (auto split: prod.splits)
  then show ?thesis
  proof (cases rule: finish_frame_cases)
    case whole
    then show ?thesis using HeaderWritten by (intro exI [of _ body]) (simp add: to_write_def)
  next
    case (fault e n)
    then show ?thesis using HeaderWritten by (intro exI [of _ "take n body"]) (simp add: to_write_def take_is_prefix)
  qed
qed (use assms in \<open>auto simp: to_write_def writeAdmissionError_def sealWrites_def complete_receipt_def closeWith_def Let_def
      split: option.splits if_splits\<close>)

lemma to_write_unlocked: "\<not> holds_lock (wtPhase x) \<Longrightarrow> to_write E x = []"
  by (cases "wtPhase x") (simp_all add: to_write_def)

lemma turn_unwritten:
  assumes "writer_turn E w s = Some t" and "lock_ok s" and "chWriteSealed (wsChan s)"
  shows "\<exists>extra. wrBytes (chWire (wsChan t)) = wrBytes (chWire (wsChan s)) @ extra \<and> prefix (extra @ unwritten E t) (unwritten E s)"
proof -
  from assms(1) obtain p m c h where t: "w < length (wsWriters s)" "phase_step E (wsWriters s ! w) (wsChan s) = Some (p, m, c)"
    "move_lock m w (wsWriteMu s) = Some h"
    "t = \<lparr>wsChan = c, wsWriteMu = h, wsWriters = (wsWriters s)[w := (wsWriters s ! w)\<lparr>wtPhase := p\<rparr>]\<rparr>"
    by (rule writer_turnE)
  let ?x = "wsWriters s ! w" and ?x' = "(wsWriters s ! w)\<lparr>wtPhase := p\<rparr>"
  obtain extra where x: "wrBytes (chWire c) = wrBytes (chWire (wsChan s)) @ extra" "prefix (extra @ to_write E ?x') (to_write E ?x)"
    using phase_step_unwritten [OF t(2) assms(3)] by blast
  have lk: "holds_lock (wtPhase ?x) \<longleftrightarrow> wsWriteMu s = Some w" "wsWriteMu s = Some v \<Longrightarrow> v < length (wsWriters s)"
    "holds_lock p \<longleftrightarrow> wsWriteMu t = Some w" for v
    using assms(2) turn_lock [OF assms(1,2)] t(1,4) by (auto simp: lock_ok_def)
  show ?thesis
  proof (cases "wsWriteMu s = Some w")
    case True
    then have "unwritten E s = to_write E ?x" by (simp add: unwritten_def lock_holder_def)
    moreover have "unwritten E t = to_write E ?x'"
    proof (cases "wsWriteMu t = Some w")
      case True
      then show ?thesis using t(1,4) by (simp add: unwritten_def lock_holder_def)
    next
      case False
      then have "wsWriteMu t = None" using \<open>wsWriteMu s = Some w\<close> t(3,4) by (cases m) (auto simp: move_lock_def)
      then show ?thesis using False lk(3) to_write_unlocked [of ?x' E] by (simp add: unwritten_def lock_holder_def)
    qed
    ultimately show ?thesis using x t(4) by auto
  next
    case False
    then have none: "extra = []" "to_write E ?x' = []" using x(2) lk(1) to_write_unlocked [of ?x E] by auto
    have "unwritten E t = unwritten E s"
    proof (cases "wsWriteMu t = Some w")
      case True
      then have "wsWriteMu s = None" using False t(3,4) by (cases m) (auto simp: move_lock_def split: if_splits)
      then show ?thesis using True t(1,4) none(2) by (simp add: unwritten_def lock_holder_def)
    next
      case no: False
      have "m \<noteq> Release" using phase_step_lock(3) [OF t(2)] lk(1) False by blast
      then have "wsWriteMu t = wsWriteMu s" using no t(3,4) by (cases m) (auto simp: move_lock_def split: if_splits)
      then show ?thesis using False t(4) by (cases "wsWriteMu s") (auto simp: unwritten_def lock_holder_def)
    qed
    then show ?thesis using x(1) none(1) t(4) by simp
  qed
qed

lemma step_unwritten:
  assumes "write_step E s t" and "lock_ok s" and "chWriteSealed (wsChan s)"
  shows "chWriteSealed (wsChan t) \<and> chWriteSealErr (wsChan t) = chWriteSealErr (wsChan s) \<and>
    (\<exists>extra. wrBytes (chWire (wsChan t)) = wrBytes (chWire (wsChan s)) @ extra \<and> prefix (extra @ unwritten E t) (unwritten E s))"
  using assms
proof (induction rule: write_step.induct)
  case (turn w s t)
  have "chWriteSealed (wsChan t) \<and> chWriteSealErr (wsChan t) = chWriteSealErr (wsChan s)"
    using turn(1,3) by (elim writer_turnE) (auto dest!: phase_step_seals simp del: phase_step.simps)
  then show ?case using turn_unwritten [OF turn] by blast
next
  case (call s msg receipt terminal)
  then show ?case by (cases "wsWriteMu s") (auto simp: unwritten_def lock_holder_def lock_ok_def nth_append)
qed (auto simp: closeWith_def beside_writes_def unwritten_def lock_holder_def Let_def)

lemma reach_unwritten:
  assumes "write_reach E s t" and "write_inv E s" and "chWriteSealed (wsChan s)"
  shows "chWriteSealed (wsChan t) \<and> chWriteSealErr (wsChan t) = chWriteSealErr (wsChan s) \<and>
    (\<exists>extra. wrBytes (chWire (wsChan t)) = wrBytes (chWire (wsChan s)) @ extra \<and> prefix (extra @ unwritten E t) (unwritten E s))"
  using assms(1)
proof induction
  case (step t u)
  from step.IH obtain e1 where e1: "wrBytes (chWire (wsChan t)) = wrBytes (chWire (wsChan s)) @ e1" "prefix (e1 @ unwritten E t) (unwritten E s)"
    by blast
  have "lock_ok t" using write_reach_inv [OF step(1) assms(2)] by (simp add: write_inv_def)
  from step_unwritten [OF step(2) this] step.IH obtain e2 where
    e2: "wrBytes (chWire (wsChan u)) = wrBytes (chWire (wsChan t)) @ e2" "prefix (e2 @ unwritten E u) (unwritten E t)" by blast
  have "prefix ((e1 @ e2) @ unwritten E u) (unwritten E s)"
    using e1(2) e2(2) by (metis append.assoc prefix_order.trans same_prefix_prefix)
  then show ?case using e1(1) e2(1) step_unwritten [OF step(2) \<open>lock_ok t\<close>] step.IH
    by (intro conjI exI [of _ "e1 @ e2"]) auto
qed (use assms(3) in auto)

section \<open>Properties\<close>

text \<open>
  Claim C23.  The outgoing stream is well framed under every interleaving of the writers, with closes and other work
  of the channel at any point between their locks.  What has reached the peer is a sequence of whole frames within the cap, one
  for each write that succeeded, followed by part of one frame only while a writer holds \<open>writeMu\<close> or when writing is
  sealed; a terminal response that was written has sealed it.  Once writing is sealed, the reason stays
  the first one and no write is admitted any more: the stream grows at most by what is left of the one frame that was
  admitted before, and not at all if no writer held \<open>writeMu\<close>.
\<close>

theorem stream_framed:
  assumes "write_reach E (start_writers (configured inbound kinds)) s"
  shows "(\<exists>bodies rest. wrBytes (chWire (wsChan s)) = concat (map frame_of bodies) @ rest \<and>
       list_all (\<lambda>b. length b \<le> maxFrameSize) bodies \<and>
       mset (map Inr bodies) = mset (map (\<lambda>x. envEnc E (wtMsg x)) (filter wrote_frame (wsWriters s))) \<and>
       (rest \<noteq> [] \<longrightarrow> (\<exists>m body. envEnc E m = Inr body \<and> prefix rest (frame_of body)) \<and>
          (chWriteSealed (wsChan s) \<or> wsWriteMu s \<noteq> None))) \<and>
    (\<forall>x \<in> set (wsWriters s). wtTerminal x \<and> wtPhase x = Returned None \<longrightarrow> chWriteSealed (wsChan s)) \<and>
    (\<forall>t. write_reach E s t \<longrightarrow> chWriteSealed (wsChan s) \<longrightarrow>
       chWriteSealErr (wsChan t) = chWriteSealErr (wsChan s) \<and>
       (\<exists>extra. wrBytes (chWire (wsChan t)) = wrBytes (chWire (wsChan s)) @ extra \<and> prefix extra (unwritten E s)))"
proof (intro conjI)
  have inv: "write_inv E s"
    by (rule write_reach_inv [OF assms]) (rule start_write_inv, simp add: configured_def NewChannel_def)
  then obtain bodies r where b: "wrBytes (chWire (wsChan s)) = concat (map frame_of bodies) @ r" "list_all (good_body E) bodies"
    "tail_ok E (wsChan s) (lock_holder s) r" "mset (map Inr bodies) = frames_written E (wsWriters s)"
    unfolding write_inv_def stream_ok_def by blast
  show "\<exists>bodies rest. wrBytes (chWire (wsChan s)) = concat (map frame_of bodies) @ rest \<and>
       list_all (\<lambda>b. length b \<le> maxFrameSize) bodies \<and>
       mset (map Inr bodies) = mset (map (\<lambda>x. envEnc E (wtMsg x)) (filter wrote_frame (wsWriters s))) \<and>
       (rest \<noteq> [] \<longrightarrow> (\<exists>m body. envEnc E m = Inr body \<and> prefix rest (frame_of body)) \<and>
          (chWriteSealed (wsChan s) \<or> wsWriteMu s \<noteq> None))"
    using b tail_ok_part [OF b(3)] by (intro exI [of _ bodies] exI [of _ r]) (auto simp: frames_written_def good_body_def lock_holder_def list_all_iff)
  show "\<forall>x \<in> set (wsWriters s). wtTerminal x \<and> wtPhase x = Returned None \<longrightarrow> chWriteSealed (wsChan s)"
    using inv by (auto simp: write_inv_def terminal_sealed_def)
  show "\<forall>t. write_reach E s t \<longrightarrow> chWriteSealed (wsChan s) \<longrightarrow>
       chWriteSealErr (wsChan t) = chWriteSealErr (wsChan s) \<and>
       (\<exists>extra. wrBytes (chWire (wsChan t)) = wrBytes (chWire (wsChan s)) @ extra \<and> prefix extra (unwritten E s))"
    using reach_unwritten [OF _ inv] by (meson append_prefixD)
qed

text \<open>How many turns a writer has before it returns.\<close>

fun write_rank :: "write_phase \<Rightarrow> nat" where
  "write_rank Queued = 8"
| "write_rank Locked = 7"
| "write_rank Admitted = 6"
| "write_rank (HeaderWritten body) = 5"
| "write_rank (BytesDone err) = 4"
| "write_rank (SealDone err) = 3"
| "write_rank (Closing e) = 2"
| "write_rank (Completing e) = 1"
| "write_rank (Refused e) = 1"
| "write_rank (Returned err) = 0"

lemma phase_step_rank:
  "phase_step E x c = Some (p, m, d) \<Longrightarrow> write_rank p < write_rank (wtPhase x)"
  by (auto simp: begin_frame_def finish_frame_def split: write_phase.splits option.splits prod.splits sum.splits if_splits)

lemma phase_step_enabled:
  assumes "\<And>err. wtPhase x \<noteq> Returned err"
  obtains p m d where "phase_step E x c = Some (p, m, d)" "m = Take \<longrightarrow> wtPhase x = Queued"
proof (cases "phase_step E x c")
  case None
  then show ?thesis using assms by (auto split: write_phase.splits option.splits prod.splits)
next
  case (Some out)
  then obtain p m d where "phase_step E x c = Some (p, m, d)" by (cases out) auto
  moreover from this have "m = Take \<longrightarrow> wtPhase x = Queued"
    by (auto split: write_phase.splits option.splits prod.splits)
  ultimately show ?thesis by (rule that)
qed

lemma turn_enabled:
  assumes "w < length (wsWriters s)" and "\<And>err. wtPhase (wsWriters s ! w) \<noteq> Returned err"
    and "wtPhase (wsWriters s ! w) = Queued \<longrightarrow> wsWriteMu s = None"
  shows "\<exists>t. writer_turn E w s = Some t"
proof -
  obtain p m d where "phase_step E (wsWriters s ! w) (wsChan s) = Some (p, m, d)" "m = Take \<longrightarrow> wtPhase (wsWriters s ! w) = Queued"
    using assms(2) by (rule phase_step_enabled)
  then show ?thesis using assms(1,3) by (cases m) (auto simp: writer_turn_def move_lock_def simp del: phase_step.simps)
qed

text \<open>
  Claim C24.  Writers do not block each other for good: under every interleaving, a writer that has not returned can take
  its next turn, or it waits for \<open>writeMu\<close> and the writer that holds it can; and every turn of a writer brings it
  closer to its return, which it reaches after at most eight turns of its own, whatever the peer, the closes and the other
  writers do.
\<close>

theorem writers_return:
  assumes "write_reach E (start_writers (configured inbound kinds)) s" and "w < length (wsWriters s)"
  shows "((\<forall>err. wtPhase (wsWriters s ! w) \<noteq> Returned err) \<longrightarrow>
      (\<exists>t. writer_turn E w s = Some t) \<or>
      (\<exists>v t. wtPhase (wsWriters s ! w) = Queued \<and> wsWriteMu s = Some v \<and> writer_turn E v s = Some t)) \<and>
    (\<forall>t. writer_turn E w s = Some t \<longrightarrow>
      write_rank (wtPhase (wsWriters t ! w)) < write_rank (wtPhase (wsWriters s ! w)) \<and>
      (\<forall>v < length (wsWriters s). v \<noteq> w \<longrightarrow> wsWriters t ! v = wsWriters s ! v)) \<and>
    write_rank (wtPhase (wsWriters s ! w)) \<le> 8"
proof (intro conjI impI allI)
  have inv: "lock_ok s"
    using write_reach_inv [OF assms(1) start_write_inv] by (simp add: configured_def NewChannel_def write_inv_def)
  { assume going: "\<forall>err. wtPhase (wsWriters s ! w) \<noteq> Returned err"
    show "(\<exists>t. writer_turn E w s = Some t) \<or>
      (\<exists>v t. wtPhase (wsWriters s ! w) = Queued \<and> wsWriteMu s = Some v \<and> writer_turn E v s = Some t)"
    proof (cases "wtPhase (wsWriters s ! w) = Queued \<and> wsWriteMu s \<noteq> None")
      case True
      then obtain v where v: "wsWriteMu s = Some v" by auto
      then have "v < length (wsWriters s)" "holds_lock (wtPhase (wsWriters s ! v))" using inv by (auto simp: lock_ok_def)
      then have "\<exists>t. writer_turn E v s = Some t" by (intro turn_enabled) (auto elim: holds_lock.elims)
      then show ?thesis using True v by blast
    next
      case False
      then have "\<exists>t. writer_turn E w s = Some t" by (intro turn_enabled assms(2)) (use going in auto)
      then show ?thesis ..
    qed }
  { fix t assume t: "writer_turn E w s = Some t"
    then show "write_rank (wtPhase (wsWriters t ! w)) < write_rank (wtPhase (wsWriters s ! w))"
      using phase_step_rank by (elim writer_turnE) auto
    fix v assume "v < length (wsWriters s)" "v \<noteq> w"
    then show "wsWriters t ! v = wsWriters s ! v" using t by (elim writer_turnE) auto }
  show "write_rank (wtPhase (wsWriters s ! w)) \<le> 8" by (cases "wtPhase (wsWriters s ! w)") simp_all
qed

section \<open>A close in the middle of a write\<close>

text \<open>A request is admitted, the channel is closed, and the frame is still written to its end.\<close>

definition sample_writer :: writer where
  "sample_writer = \<lparr>wtMsg = sample_request, wtReceipt = None, wtTerminal = False, wtPhase = Queued\<rparr>"

definition sample_closed :: write_system where
  "sample_closed = alone (Close (configured False [])) (Some 0) sample_writer Admitted"

definition sample_written :: write_system where
  "sample_written = alone ((Close (configured False []))\<lparr>chWire := \<lparr>wrCalls = 2, wrBytes = frame_bytes (fst sample_codec) sample_request\<rparr>\<rparr>)
     (Some 0) sample_writer (BytesDone None)"

lemma turns_reach: "turns E w n s = Some t \<Longrightarrow> write_reach E r s \<Longrightarrow> write_reach E r t"
proof (induction n arbitrary: s)
  case (Suc n)
  then obtain u where u: "writer_turn E w s = Some u" "turns E w n u = Some t" by (auto split: option.splits)
  show ?case by (rule Suc.IH [OF u(2)]) (rule write_reach.step [OF Suc.prems(2) write_step.turn [OF u(1)]])
qed simp

lemma sample_closed_reached: "write_reach sample_ipc (start_writers (configured False [])) sample_closed"
proof -
  let ?c = "configured False []"
  have queued: "write_reach sample_ipc (start_writers ?c) (alone ?c None sample_writer Queued)"
    using write_reach.step [OF write_reach.start write_step.call [of sample_ipc "start_writers ?c" sample_request None False]]
    by (simp add: start_writers_def alone_def sample_writer_def)
  have "turns sample_ipc 0 2 (alone ?c None sample_writer Queued) = Some (alone ?c (Some 0) sample_writer Admitted)"
    by (simp add: turn_alone move_lock_def eval_nat_numeral writeAdmissionError_def configured_def NewChannel_def)
  then have "write_reach sample_ipc (start_writers ?c) (alone ?c (Some 0) sample_writer Admitted)" using queued by (rule turns_reach)
  from write_reach.step [OF this write_step.shut [of _ _ "Some (ErrText ''closed by caller'')"]]
  show ?thesis by (simp add: sample_closed_def alone_def Close_def)
qed

lemma sample_written_reached: "write_reach sample_ipc sample_closed sample_written"
proof (rule turns_reach [OF _ write_reach.start])
  obtain body where body: "fst sample_codec sample_request = Inr body" "length body \<le> maxFrameSize"
    using sample_carried1(1) by (auto elim: carriedE)
  then show "turns sample_ipc 0 2 sample_closed = Some sample_written"
    by (simp add: sample_closed_def sample_written_def turn_alone move_lock_def eval_nat_numeral begin_frame_def finish_frame_def
        fault_of_def sample_ipc_def writeExact_def sample_writer_def frame_bytes_def frame_of_def Close_def closeWith_def
        configured_def NewChannel_def Let_def)
qed

theorem stream_framed_witness:
  "chWriteSealed (wsChan sample_closed) \<and>
   (\<exists>extra. wrBytes (chWire (wsChan sample_written)) = extra \<and> prefix extra (unwritten sample_ipc sample_closed)) \<and>
   wrBytes (chWire (wsChan sample_written)) \<noteq> []"
proof -
  have sealed: "chWriteSealed (wsChan sample_closed)" "wrBytes (chWire (wsChan sample_closed)) = []"
    by (simp_all add: sample_closed_def alone_def Close_def closeWith_def configured_def NewChannel_def Let_def)
  moreover have "wrBytes (chWire (wsChan sample_written)) \<noteq> []"
    using sample_carried1(1) by (elim carriedE) (simp add: sample_written_def alone_def frame_bytes_def frame_of_def PutUint32_def)
  ultimately show ?thesis using stream_framed [OF sample_closed_reached] sample_written_reached by auto
qed

theorem writers_return_witness:
  "\<exists>t. writer_turn sample_ipc 0 sample_closed = Some t"
  using writers_return [OF sample_closed_reached, of 0] by (simp add: sample_closed_def alone_def)

end
