(* ===== verification/Ignore.thy ===== *)
theory Ignore
  imports Prelude "HOL-Library.Word"
begin

text \<open>
  Ignore patterns of a configuration, \<^verbatim>\<open>internal/config/ignore_pattern.go\<close>: parsing, the ordered evaluation of
  authored patterns and of groups of Git rules on a file, directory blocks and the pruning of walks.

  The functions that are not under \<^verbatim>\<open>src\<close> are fields of an environment: \<open>MatchGlob\<close> is
  \<open>doublestar.MatchUnvalidated\<close> (through \<^verbatim>\<open>internal/utils/glob.go\<close>), the path functions are those of typescript-go's
  \<open>tspath\<close>; \<open>ToLower\<close> is the Unicode case mapping of \<^verbatim>\<open>strings\<close>.  The caches of \<open>fileMatchPath\<close> (the two normalized
  paths) and of \<open>gitIgnorePathState\<close> (the lower-case path) hold what the model recomputes.
\<close>

unbundle bit_operations_syntax

record path_env =
  MatchGlob :: "string \<Rightarrow> string \<Rightarrow> bool"
  NormalizePath :: "string \<Rightarrow> string"
  ConvertToRelativePath :: "bool \<Rightarrow> string \<Rightarrow> string \<Rightarrow> string"
  PathIsAbsolute :: "string \<Rightarrow> bool"
  GetDirectoryPath :: "string \<Rightarrow> string"
  ToLower :: "string \<Rightarrow> string"

abbreviation sl :: char where "sl \<equiv> CHR ''/''"

definition unix_path :: "string \<Rightarrow> string" where
  "unix_path s = map (\<lambda>c. if c = CHR 0x5C then sl else c) s"

section \<open>Patterns\<close>

datatype dirKind = dirNone | dirAbsoluteBlock | dirFileLevelCover

record IgnorePattern =
  igGlob :: string
  GitNodeGlobEnd :: int
  igNegated :: bool
  igKind :: dirKind
  CaseInsensitive :: bool
  GitPattern :: bool
  GitDirectoryOnly :: bool
  GitContentsOnly :: bool
  MatchDirectory :: string
  PhysicalMatchDirectory :: string
  LexicalMatchDirectory :: string
  gitScope :: "32 word"

definition unmatchedGitScope :: "32 word" where
  "unmatchedGitScope = NOT 0"

definition normalizePattern :: "path_env \<Rightarrow> string \<Rightarrow> string" where
  "normalizePattern E pattern = NormalizePath E pattern"

definition ParseIgnorePattern :: "path_env \<Rightarrow> string \<Rightarrow> IgnorePattern" where
  "ParseIgnorePattern E raw =
     (let negated = has_prefix raw ''!'';
          body = (if negated then drop 1 raw else raw)
      in \<lparr>igGlob = normalizePattern E body, GitNodeGlobEnd = 0, igNegated = negated,
          igKind = (if body = [] then dirNone
                    else if has_suffix body ''/**/*'' then dirFileLevelCover
                    else if has_suffix body ''/*'' \<and> \<not> has_suffix body ''/**'' then dirNone
                    else dirAbsoluteBlock),
          CaseInsensitive = False, GitPattern = False, GitDirectoryOnly = False, GitContentsOnly = False,
          MatchDirectory = [], PhysicalMatchDirectory = [], LexicalMatchDirectory = [], gitScope = 0\<rparr>)"

definition ParseIgnorePatterns :: "path_env \<Rightarrow> string list \<Rightarrow> IgnorePattern list" where
  "ParseIgnorePatterns E raw = map (ParseIgnorePattern E) raw"

definition ignorePatternMatches :: "path_env \<Rightarrow> IgnorePattern \<Rightarrow> string \<Rightarrow> bool" where
  "ignorePatternMatches E p path =
     (if CaseInsensitive p then MatchGlob E (ToLower E (igGlob p)) (ToLower E path) else MatchGlob E (igGlob p) path)"

definition patternHasMatchDirectory :: "IgnorePattern \<Rightarrow> bool" where
  "patternHasMatchDirectory p = (MatchDirectory p \<noteq> [] \<or> PhysicalMatchDirectory p \<noteq> [] \<or> LexicalMatchDirectory p \<noteq> [])"

definition hasPatternMatchDirectory :: "IgnorePattern list \<Rightarrow> bool" where
  "hasPatternMatchDirectory ps = list_ex patternHasMatchDirectory ps"

definition hasCaseInsensitivePattern :: "IgnorePattern list \<Rightarrow> bool" where
  "hasCaseInsensitivePattern ps = list_ex CaseInsensitive ps"

definition pathEscapesCwd :: "path_env \<Rightarrow> string \<Rightarrow> bool" where
  "pathEscapesCwd E path = (path = ''..'' \<or> has_prefix path ''../'' \<or> PathIsAbsolute E path)"

section \<open>Git rules on the nodes of a path\<close>

definition last_slash :: "string \<Rightarrow> nat option" where
  "last_slash s = (if sl \<in> set s then Some (length s - 1 - length (takeWhile (\<lambda>c. c \<noteq> sl) (rev s))) else None)"

record gitIgnorePathState =
  gsPath :: string
  gsFileDepth :: int
  gsUnresolved :: int
  gsResolved :: "64 word"
  gsOverflow :: "bool list"
  gsMatched :: bool

definition trim_slashes :: "string \<Rightarrow> string" where
  "trim_slashes s = rev (dropWhile (\<lambda>c. c = sl) (rev (dropWhile (\<lambda>c. c = sl) s)))"

definition newGitIgnorePathState :: "string \<Rightarrow> gitIgnorePathState" where
  "newGitIgnorePathState path =
     (let path = trim_slashes path;
          path = (if path = ''.'' then []
                  else if has_prefix path ''./'' \<or> str_index path ''//'' \<noteq> None \<or> str_index path ''/./'' \<noteq> None \<or> has_suffix path ''/.''
                  then str_join ''/'' (filter (\<lambda>part. part \<noteq> [] \<and> part \<noteq> ''.'') (str_split sl path))
                  else path);
          depth = (if path \<noteq> [] then int (length (filter (\<lambda>c. c = sl) path)) else -1)
      in \<lparr>gsPath = path, gsFileDepth = depth, gsUnresolved = depth + 1, gsResolved = 0, gsOverflow = [], gsMatched = False\<rparr>)"

definition depthResolved :: "gitIgnorePathState \<Rightarrow> nat \<Rightarrow> bool" where
  "depthResolved st depth =
     (if depth < 64 then gsResolved st AND push_bit depth 1 \<noteq> 0
      else (let i = depth - 64 in i < length (gsOverflow st) \<and> gsOverflow st ! i))"

definition resolveDepth :: "nat \<Rightarrow> gitIgnorePathState \<Rightarrow> gitIgnorePathState" where
  "resolveDepth depth st =
     (if depthResolved st depth then st
      else (let st = st\<lparr>gsUnresolved := gsUnresolved st - 1\<rparr>
            in if depth < 64 then st\<lparr>gsResolved := gsResolved st OR push_bit depth 1\<rparr>
               else (let i = depth - 64;
                         grown = (if i \<ge> length (gsOverflow st)
                                  then gsOverflow st @ replicate (i - length (gsOverflow st) + 1) False else gsOverflow st)
                     in st\<lparr>gsOverflow := grown[i := True]\<rparr>)))"

definition applyDepth :: "nat \<Rightarrow> bool \<Rightarrow> gitIgnorePathState \<Rightarrow> bool \<times> gitIgnorePathState" where
  "applyDepth depth negated st =
     (let st = st\<lparr>gsMatched := True\<rparr> in if \<not> negated then (True, st) else (False, resolveDepth depth st))"

definition gitIgnoreNodeGlob :: "IgnorePattern \<Rightarrow> string" where
  "gitIgnoreNodeGlob p =
     (if GitNodeGlobEnd p \<le> 0 \<or> GitNodeGlobEnd p > int (length (igGlob p)) then [] else take (nat (GitNodeGlobEnd p)) (igGlob p))"

definition gitIgnorePatternMatchesNode :: "path_env \<Rightarrow> IgnorePattern \<Rightarrow> string \<Rightarrow> bool" where
  "gitIgnorePatternMatchesNode E p path =
     (if GitContentsOnly p then MatchGlob E (igGlob p) path else MatchGlob E (gitIgnoreNodeGlob p) path)"

definition gitIgnoreRootBasenameGlob :: "IgnorePattern \<Rightarrow> string option" where
  "gitIgnoreRootBasenameGlob p =
     (let nodeGlob = gitIgnoreNodeGlob p
      in if \<not> has_prefix nodeGlob ''**/'' \<or> has_suffix nodeGlob ''/**'' then None
         else (let glob = drop 3 nodeGlob in if glob \<noteq> [] \<and> sl \<notin> set glob then Some glob else None))"

text \<open>The loop of \<open>apply\<close> over the ancestors; \<open>path\<close> is the node below the next one, the number counts the depths left.\<close>

fun apply_up :: "path_env \<Rightarrow> IgnorePattern \<Rightarrow> string \<Rightarrow> nat \<Rightarrow> gitIgnorePathState \<Rightarrow> bool \<times> gitIgnorePathState" where
  "apply_up E p path 0 st = (False, st)"
| "apply_up E p path (Suc depth) st =
     (case last_slash path of
        None \<Rightarrow> (False, st)
      | Some i \<Rightarrow>
          (let node = take i path
           in if \<not> depthResolved st depth \<and> gitIgnorePatternMatchesNode E p node
              then (case applyDepth depth (igNegated p) st of
                      (True, st) \<Rightarrow> (True, st)
                    | (False, st) \<Rightarrow> if gsUnresolved st = 0 then (False, st) else apply_up E p node depth st)
              else apply_up E p node depth st))"

definition is_meta :: "char \<Rightarrow> bool" where
  "is_meta c = (c \<in> {CHR ''*'', CHR ''?'', CHR ''['', CHR ''{''})"

text \<open>The loop of \<open>applyRootBasename\<close>; \<open>dir\<close> is \<open>path[:end]\<close>.\<close>

fun root_up ::
  "path_env \<Rightarrow> bool \<Rightarrow> string \<Rightarrow> bool \<Rightarrow> string \<Rightarrow> nat \<Rightarrow> gitIgnorePathState \<Rightarrow> bool \<times> gitIgnorePathState" where
  "root_up E negated glob literal dir 0 st = (False, st)"
| "root_up E negated glob literal dir (Suc depth) st =
     (if \<not> gsUnresolved st > 0 then (False, st)
      else (let start = (case last_slash dir of None \<Rightarrow> 0 | Some i \<Rightarrow> i + 1);
                component = drop start dir;
                hit = (\<not> depthResolved st depth \<and>
                       (literal \<and> component = glob \<or> \<not> literal \<and> MatchGlob E glob component));
                next = (\<lambda>st. if start = 0 then (False, st) else root_up E negated glob literal (take (start - 1) dir) depth st)
            in if hit
               then (case applyDepth depth negated st of (True, st) \<Rightarrow> (True, st) | (False, st) \<Rightarrow> next st)
               else next st))"

definition applyRootBasename ::
  "path_env \<Rightarrow> IgnorePattern \<Rightarrow> string \<Rightarrow> string \<Rightarrow> gitIgnorePathState \<Rightarrow> bool \<times> gitIgnorePathState" where
  "applyRootBasename E p path glob st =
     (let depth = nat (gsFileDepth st);
          up = (\<lambda>dirEnd st.
            (case dirEnd of
               None \<Rightarrow> (False, st)
             | Some i \<Rightarrow>
                 (let literal = list_all (\<lambda>c. \<not> is_meta c) glob
                  in if \<not> literal \<and> \<not> MatchGlob E (igGlob p) path then (False, st)
                     else root_up E (igNegated p) glob literal (take i path) depth st)))
      in if GitDirectoryOnly p then up (last_slash path) st
         else (let start = (case last_slash path of None \<Rightarrow> 0 | Some i \<Rightarrow> i + 1)
               in if \<not> depthResolved st depth \<and> MatchGlob E glob (drop start path)
                  then (case applyDepth depth (igNegated p) st of
                          (True, st) \<Rightarrow> (True, st)
                        | (False, st) \<Rightarrow> if gsUnresolved st = 0 then (False, st) else up (last_slash path) st)
                  else up (last_slash path) st))"

definition apply_pattern :: "path_env \<Rightarrow> IgnorePattern \<Rightarrow> gitIgnorePathState \<Rightarrow> bool \<times> gitIgnorePathState" where
  "apply_pattern E p st =
     (if gsFileDepth st < 0 then (False, st)
      else (let path = (if CaseInsensitive p then ToLower E (gsPath st) else gsPath st)
            in case gitIgnoreRootBasenameGlob p of
                 Some glob \<Rightarrow> applyRootBasename E p path glob st
               | None \<Rightarrow>
                   (let depth = nat (gsFileDepth st);
                        rest = (\<lambda>st. if \<not> MatchGlob E (igGlob p) path then (False, st) else apply_up E p path depth st)
                    in if \<not> GitDirectoryOnly p \<and> \<not> depthResolved st depth \<and> gitIgnorePatternMatchesNode E p path
                       then (case applyDepth depth (igNegated p) st of
                               (True, st) \<Rightarrow> (True, st)
                             | (False, st) \<Rightarrow> if gsUnresolved st = 0 then (False, st) else rest st)
                       else rest st)))"

text \<open>\<open>evaluate\<close> on the patterns from the last to the first.\<close>

fun evaluate_rev :: "path_env \<Rightarrow> IgnorePattern list \<Rightarrow> gitIgnorePathState \<Rightarrow> bool \<times> gitIgnorePathState" where
  "evaluate_rev E [] st = (False, st)"
| "evaluate_rev E (p # ps) st =
     (if \<not> gsUnresolved st > 0 then (False, st)
      else case apply_pattern E p st of (True, st) \<Rightarrow> (True, st) | (False, st) \<Rightarrow> evaluate_rev E ps st)"

definition evaluate :: "path_env \<Rightarrow> IgnorePattern list \<Rightarrow> gitIgnorePathState \<Rightarrow> bool \<times> gitIgnorePathState" where
  "evaluate E ps st = evaluate_rev E (rev ps) st"

section \<open>Ordered evaluation on a file\<close>

fun apply_authored :: "path_env \<Rightarrow> string \<Rightarrow> string \<Rightarrow> IgnorePattern list \<Rightarrow> bool \<Rightarrow> bool" where
  "apply_authored E path unixPath [] ignored = ignored"
| "apply_authored E path unixPath (p # ps) ignored =
     (let matched = (ignorePatternMatches E p path \<or> unixPath \<noteq> path \<and> ignorePatternMatches E p unixPath)
      in apply_authored E path unixPath ps (if matched then \<not> igNegated p else ignored))"

definition applyIgnorePatternGroup ::
  "path_env \<Rightarrow> IgnorePattern list \<Rightarrow> string \<Rightarrow> string \<Rightarrow> bool \<Rightarrow> bool" where
  "applyIgnorePatternGroup E ps path unixPath ignored =
     (case ps of
        [] \<Rightarrow> ignored
      | p # _ \<Rightarrow>
          if GitPattern p
          then (case evaluate E ps (newGitIgnorePathState unixPath) of
                  (groupIgnored, st) \<Rightarrow> if gsMatched st then groupIgnored else ignored)
          else apply_authored E path unixPath ps ignored)"

function applyFileIgnorePatternsNormalized ::
  "path_env \<Rightarrow> string \<Rightarrow> string \<Rightarrow> IgnorePattern list \<Rightarrow> bool \<Rightarrow> bool" where
  "applyFileIgnorePatternsNormalized E path unixPath [] ignored = ignored"
| "applyFileIgnorePatternsNormalized E path unixPath (p # ps) ignored =
     (if GitPattern p
      then (let group = p # takeWhile GitPattern ps
            in applyFileIgnorePatternsNormalized E path unixPath (dropWhile GitPattern ps)
                 (case evaluate E group (newGitIgnorePathState unixPath) of
                    (groupIgnored, st) \<Rightarrow> if gsMatched st then groupIgnored else ignored))
      else (let matched = (ignorePatternMatches E p path \<or> unixPath \<noteq> path \<and> ignorePatternMatches E p unixPath)
            in applyFileIgnorePatternsNormalized E path unixPath ps (if matched then \<not> igNegated p else ignored)))"
  by pat_completeness auto
termination
  by (relation "measure (\<lambda>(E, path, unixPath, ps, ignored). length ps)") (auto simp: le_imp_less_Suc length_dropWhile_le)

definition isFileIgnoredNormalized :: "path_env \<Rightarrow> string \<Rightarrow> string \<Rightarrow> IgnorePattern list \<Rightarrow> bool" where
  "isFileIgnoredNormalized E path unixPath ps = applyFileIgnorePatternsNormalized E path unixPath ps False"

definition isFileIgnoredSimple :: "path_env \<Rightarrow> string \<Rightarrow> IgnorePattern list \<Rightarrow> bool" where
  "isFileIgnoredSimple E filePath ps = isFileIgnoredNormalized E filePath (unix_path filePath) ps"

definition normalizePathWithCaseSensitivity :: "path_env \<Rightarrow> string \<Rightarrow> string \<Rightarrow> bool \<Rightarrow> string" where
  "normalizePathWithCaseSensitivity E filePath cwd useCaseSensitive =
     NormalizePath E (ConvertToRelativePath E useCaseSensitive cwd filePath)"

definition normalizePath :: "path_env \<Rightarrow> string \<Rightarrow> string \<Rightarrow> string" where
  "normalizePath E filePath cwd = normalizePathWithCaseSensitivity E filePath cwd True"

definition normalizedPaths :: "path_env \<Rightarrow> string \<Rightarrow> string \<Rightarrow> string \<times> string" where
  "normalizedPaths E original cwd =
     (let normalized = (if cwd \<noteq> [] then normalizePath E original cwd else original) in (normalized, unix_path normalized))"

text \<open>Re-resolution without regard to case when the case-sensitive relative path leaves the directory.\<close>

definition fold_paths :: "path_env \<Rightarrow> string \<Rightarrow> string \<Rightarrow> IgnorePattern list \<Rightarrow> string \<times> string \<Rightarrow> string \<times> string" where
  "fold_paths E original cwd ps paths =
     (if pathEscapesCwd E (snd paths) \<and> hasCaseInsensitivePattern ps
      then (let normalized = normalizePathWithCaseSensitivity E original cwd False in (normalized, unix_path normalized))
      else paths)"

definition patternMatchDirectories :: "IgnorePattern \<Rightarrow> string \<Rightarrow> string list" where
  "patternMatchDirectories p defaultDirectory =
     [if MatchDirectory p = [] then defaultDirectory else MatchDirectory p, PhysicalMatchDirectory p, LexicalMatchDirectory p]"

text \<open>The first directory of the three, skipping empty and repeated ones, from which the path does not escape.\<close>

fun first_within ::
  "path_env \<Rightarrow> string \<Rightarrow> IgnorePattern list \<Rightarrow> string list \<Rightarrow> string list \<Rightarrow> (string \<times> string) option" where
  "first_within E original ps seen [] = None"
| "first_within E original ps seen (d # ds) =
     (if d = [] \<or> d \<in> set seen then first_within E original ps (seen @ [d]) ds
      else (let paths = fold_paths E original d ps (normalizedPaths E original d)
            in if \<not> pathEscapesCwd E (snd paths) then Some paths
               else first_within E original ps (seen @ [d]) ds))"

definition pathsForPatternGroup :: "path_env \<Rightarrow> string \<Rightarrow> string \<Rightarrow> IgnorePattern list \<Rightarrow> (string \<times> string) option" where
  "pathsForPatternGroup E original cwd ps =
     (if \<not> patternHasMatchDirectory (hd ps)
      then (let paths = normalizedPaths E original cwd
            in Some (if cwd \<noteq> [] then fold_paths E original cwd ps paths else paths))
      else first_within E original ps [] (patternMatchDirectories (hd ps) cwd))"

definition same_group :: "IgnorePattern \<Rightarrow> IgnorePattern \<Rightarrow> bool" where
  "same_group p q = (GitPattern q \<and> gitScope q = gitScope p \<and> MatchDirectory q = MatchDirectory p \<and>
     PhysicalMatchDirectory q = PhysicalMatchDirectory p \<and> LexicalMatchDirectory q = LexicalMatchDirectory p)"

function applyIgnorePatternsAcrossPathGroups ::
  "path_env \<Rightarrow> (IgnorePattern list \<Rightarrow> (string \<times> string) option) \<Rightarrow> IgnorePattern list \<Rightarrow> bool \<Rightarrow> bool" where
  "applyIgnorePatternsAcrossPathGroups E pathsForGroup [] ignored = ignored"
| "applyIgnorePatternsAcrossPathGroups E pathsForGroup (p # ps) ignored =
     (let group = (if GitPattern p then p # takeWhile (same_group p) ps else [p]);
          rest = (if GitPattern p then dropWhile (same_group p) ps else ps)
      in applyIgnorePatternsAcrossPathGroups E pathsForGroup rest
           (case pathsForGroup group of
              None \<Rightarrow> ignored
            | Some (path, unixPath) \<Rightarrow> applyIgnorePatternGroup E group path unixPath ignored))"
  by pat_completeness auto
termination
  by (relation "measure (\<lambda>(E, f, ps, ignored). length ps)") (auto simp: Let_def le_imp_less_Suc length_dropWhile_le)

definition applyIgnorePatterns :: "path_env \<Rightarrow> string \<Rightarrow> string \<Rightarrow> IgnorePattern list \<Rightarrow> bool \<Rightarrow> bool" where
  "applyIgnorePatterns E original cwd ps ignored =
     (if ps = [] then ignored
      else if hasPatternMatchDirectory ps
      then applyIgnorePatternsAcrossPathGroups E (pathsForPatternGroup E original cwd) ps ignored
      else (case (if cwd \<noteq> [] then fold_paths E original cwd ps (normalizedPaths E original cwd) else normalizedPaths E original cwd) of
              (path, unixPath) \<Rightarrow> applyFileIgnorePatternsNormalized E path unixPath ps ignored))"

definition isFileIgnored :: "path_env \<Rightarrow> string \<Rightarrow> IgnorePattern list \<Rightarrow> string \<Rightarrow> bool" where
  "isFileIgnored E filePath ps cwd = applyIgnorePatterns E filePath cwd ps False"

section \<open>Directories\<close>

text \<open>The offsets of the slashes, as the loops over \<open>strings.IndexByte\<close> find them.\<close>

fun slash_offsets :: "nat \<Rightarrow> string \<Rightarrow> nat list" where
  "slash_offsets n [] = []"
| "slash_offsets n (c # cs) = (if c = sl then n # slash_offsets (Suc n) cs else slash_offsets (Suc n) cs)"

definition directoryPatternAbsolutelyBlocks :: "path_env \<Rightarrow> IgnorePattern \<Rightarrow> string \<Rightarrow> bool" where
  "directoryPatternAbsolutelyBlocks E p dirPath =
     (ignorePatternMatches E p dirPath \<or> ignorePatternMatches E p (dirPath @ ''/x'') \<or>
      list_ex (\<lambda>i. ignorePatternMatches E p (take i dirPath) \<or> ignorePatternMatches E p (take i dirPath @ ''/x''))
        (slash_offsets 0 dirPath))"

definition directoryBlockCandidates :: "string \<Rightarrow> string list" where
  "directoryBlockCandidates dirPath =
     [dirPath, dirPath @ ''/x''] @ concat (map (\<lambda>i. [take i dirPath, take i dirPath @ ''/x'']) (slash_offsets 0 dirPath))"

text \<open>The loop with its first pattern and its lazily built candidates.\<close>

fun blocked_loop :: "path_env \<Rightarrow> string \<Rightarrow> bool \<Rightarrow> string list option \<Rightarrow> IgnorePattern list \<Rightarrow> bool" where
  "blocked_loop E dirPath firstPattern candidates [] = False"
| "blocked_loop E dirPath firstPattern candidates (p # ps) =
     (if igNegated p \<or> igKind p \<noteq> dirAbsoluteBlock then blocked_loop E dirPath firstPattern candidates ps
      else if firstPattern
      then (if directoryPatternAbsolutelyBlocks E p dirPath then True else blocked_loop E dirPath False candidates ps)
      else (let cs = (case candidates of None \<Rightarrow> directoryBlockCandidates dirPath | Some cs \<Rightarrow> cs)
            in if list_ex (ignorePatternMatches E p) cs then True else blocked_loop E dirPath False (Some cs) ps))"

definition isDirAbsolutelyBlocked :: "path_env \<Rightarrow> string \<Rightarrow> IgnorePattern list \<Rightarrow> bool" where
  "isDirAbsolutelyBlocked E dirPath ps = blocked_loop E dirPath True None ps"

text \<open>Ancestors at a depth not above the floor do not count.\<close>

definition isDirAbsolutelyBlockedAboveFloor :: "path_env \<Rightarrow> string \<Rightarrow> IgnorePattern list \<Rightarrow> int \<Rightarrow> bool" where
  "isDirAbsolutelyBlockedAboveFloor E dirPath ps minimumDepth =
     list_ex (\<lambda>p. \<not> igNegated p \<and> igKind p = dirAbsoluteBlock \<and>
        (1 + int (length (slash_offsets 0 dirPath)) > minimumDepth \<and>
           (ignorePatternMatches E p dirPath \<or> ignorePatternMatches E p (dirPath @ ''/x'')) \<or>
         list_ex (\<lambda>(k, i). 1 + int k > minimumDepth \<and>
              (ignorePatternMatches E p (take i dirPath) \<or> ignorePatternMatches E p (take i dirPath @ ''/x'')))
           (enumerate 0 (slash_offsets 0 dirPath)))) ps"

definition segPrefix :: "string \<Rightarrow> string \<Rightarrow> bool" where
  "segPrefix pre path = (path = pre \<or> has_prefix path (pre @ ''/''))"

definition segPrefixEither :: "string \<Rightarrow> string \<Rightarrow> bool" where
  "segPrefixEither a b = (segPrefix a b \<or> segPrefix b a)"

definition literalSegmentPrefix :: "string \<Rightarrow> string" where
  "literalSegmentPrefix pattern =
     (if list_all (\<lambda>c. \<not> is_meta c) pattern then trim_suffix pattern ''/''
      else (let pre = takeWhile (\<lambda>c. \<not> is_meta c) pattern
            in case last_slash pre of Some i \<Rightarrow> take i pre | None \<Rightarrow> []))"

record negPrefix =
  npUnrooted :: bool
  npLiteral :: string
  npCaseInsensitive :: bool

definition neg_prefix :: "IgnorePattern \<Rightarrow> negPrefix" where
  "neg_prefix p =
     (let lit = literalSegmentPrefix (igGlob p)
      in if lit \<noteq> [] then \<lparr>npUnrooted = False, npLiteral = lit, npCaseInsensitive = CaseInsensitive p\<rparr>
         else \<lparr>npUnrooted = True, npLiteral = [], npCaseInsensitive = False\<rparr>)"

definition buildNegReach :: "IgnorePattern list \<Rightarrow> negPrefix list" where
  "buildNegReach ps = map neg_prefix (filter igNegated ps)"

definition neg_overlaps :: "path_env \<Rightarrow> negPrefix list \<Rightarrow> string \<Rightarrow> bool" where
  "neg_overlaps E reach dirPath =
     list_ex (\<lambda>np. npUnrooted np \<or>
        (if npCaseInsensitive np then segPrefixEither (ToLower E (npLiteral np)) (ToLower E dirPath)
         else segPrefixEither (npLiteral np) dirPath)) reach"

definition canPruneDir :: "path_env \<Rightarrow> string \<Rightarrow> IgnorePattern list \<Rightarrow> negPrefix list \<Rightarrow> bool" where
  "canPruneDir E dirPath ps neg =
     (isDirAbsolutelyBlocked E dirPath ps \<or>
      \<not> neg_overlaps E neg dirPath \<and>
      list_ex (\<lambda>p. \<not> igNegated p \<and> igKind p = dirFileLevelCover \<and> ignorePatternMatches E p (dirPath @ ''/x'')) ps)"

section \<open>The set of resolved depths\<close>

lemma and_exp_iff: "(w :: 'a :: len word) AND 2 ^ n \<noteq> 0 \<longleftrightarrow> n < LENGTH('a) \<and> bit w n"
proof
  assume "w AND 2 ^ n \<noteq> 0"
  then obtain k where "bit (w AND 2 ^ n) k" by (metis bit_0_eq bit_eqI bot_apply bot_bool_def)
  then show "n < LENGTH('a) \<and> bit w n" by (auto simp: bit_simps)
next
  assume "n < LENGTH('a) \<and> bit w n"
  then have "bit (w AND 2 ^ n) n" by (auto simp: bit_simps)
  then show "w AND 2 ^ n \<noteq> 0" by auto
qed

lemma depthResolved_bit: "k < 64 \<Longrightarrow> depthResolved st k \<longleftrightarrow> bit (gsResolved st) k"
  by (simp add: depthResolved_def and_exp_iff)

lemma depthResolved_resolveDepth [simp]: "depthResolved (resolveDepth d st) k \<longleftrightarrow> k = d \<or> depthResolved st k"
proof (cases "depthResolved st d")
  case False
  show ?thesis
  proof (cases "d < 64")
    case True
    then have "resolveDepth d st = st\<lparr>gsUnresolved := gsUnresolved st - 1, gsResolved := gsResolved st OR push_bit d 1\<rparr>"
      using False by (simp add: resolveDepth_def Let_def)
    then show ?thesis using True
      by (cases "k < 64") (auto simp: depthResolved_bit bit_or_iff bit_exp_iff, auto simp: depthResolved_def)
  next
    case d: False
    then show ?thesis using False
      by (auto simp: resolveDepth_def depthResolved_def Let_def nth_list_update nth_append not_less nth_Cons' split: if_splits)
  qed
qed (auto simp: resolveDepth_def)

lemma resolveDepth_fields [simp]:
  "gsPath (resolveDepth d st) = gsPath st" "gsFileDepth (resolveDepth d st) = gsFileDepth st"
  "gsMatched (resolveDepth d st) = gsMatched st"
  "gsUnresolved (resolveDepth d st) = (if depthResolved st d then gsUnresolved st else gsUnresolved st - 1)"
  by (simp_all add: resolveDepth_def Let_def)

lemma depthResolved_matched [simp]: "depthResolved (st\<lparr>gsMatched := b\<rparr>) k = depthResolved st k"
  by (simp add: depthResolved_def)

definition resolved_set :: "nat \<Rightarrow> gitIgnorePathState \<Rightarrow> nat set" where
  "resolved_set n st = {k. k < n \<and> depthResolved st k}"

text \<open>A state of a path with \<open>n\<close> nodes.\<close>

definition path_state :: "string \<Rightarrow> nat \<Rightarrow> gitIgnorePathState \<Rightarrow> bool" where
  "path_state path n st \<longleftrightarrow> gsPath st = path \<and> gsFileDepth st = int n - 1 \<and>
     gsUnresolved st = int n - int (card (resolved_set n st)) \<and> (\<forall>k. depthResolved st k \<longrightarrow> k < n)"

lemma finite_resolved [simp]: "finite (resolved_set n st)"
  by (simp add: resolved_set_def)

lemma card_resolved: "card (resolved_set n st) \<le> n"
  by (rule card_mono [of "{..<n}", simplified]) (auto simp: resolved_set_def)

lemma all_resolved:
  assumes "path_state path n st" and "\<not> gsUnresolved st > 0" and "k < n"
  shows "depthResolved st k"
proof -
  have "card (resolved_set n st) = card {..<n}" using assms(1,2) card_resolved [of n st] by (simp add: path_state_def)
  then have "resolved_set n st = {..<n}" by (intro card_subset_eq) (auto simp: resolved_set_def)
  then show ?thesis using assms(3) by (auto simp: resolved_set_def)
qed

lemma path_state_resolve:
  assumes "path_state path n st" and "d < n"
  shows "path_state path n (resolveDepth d st)"
proof -
  have eq: "resolved_set n (resolveDepth d st) = insert d (resolved_set n st)" using assms(2) by (auto simp: resolved_set_def)
  show ?thesis
  proof (cases "depthResolved st d")
    case True
    then have "insert d (resolved_set n st) = resolved_set n st" using assms(2) by (auto simp: resolved_set_def)
    then show ?thesis using assms True eq by (auto simp: path_state_def)
  next
    case False
    then have "card (insert d (resolved_set n st)) = Suc (card (resolved_set n st))" by (simp add: resolved_set_def)
    then show ?thesis using assms False eq by (auto simp: path_state_def)
  qed
qed

lemma path_state_matched [simp]: "path_state path n (st\<lparr>gsMatched := b\<rparr>) = path_state path n st"
  by (simp add: path_state_def resolved_set_def)

section \<open>Visiting depths\<close>

text \<open>What the loops of \<open>apply\<close> and \<open>applyRootBasename\<close> have in common.\<close>

fun visit :: "(nat \<Rightarrow> bool) \<Rightarrow> bool \<Rightarrow> nat list \<Rightarrow> gitIgnorePathState \<Rightarrow> bool \<times> gitIgnorePathState" where
  "visit hit negated [] st = (False, st)"
| "visit hit negated (k # ks) st =
     (if \<not> depthResolved st k \<and> hit k
      then (case applyDepth k negated st of (True, st) \<Rightarrow> (True, st) | (False, st) \<Rightarrow> visit hit negated ks st)
      else visit hit negated ks st)"

lemma visit_resolved: "\<forall>k \<in> set ks. depthResolved st k \<Longrightarrow> visit hit negated ks st = (False, st)"
  by (induction ks) auto

lemma visit_append:
  "visit hit negated (ks @ ls) st =
     (case visit hit negated ks st of (True, st) \<Rightarrow> (True, st) | (False, st) \<Rightarrow> visit hit negated ls st)"
  by (induction ks arbitrary: st) (auto split: prod.splits bool.splits)

lemma visit_no_hit: "\<forall>k \<in> set ks. \<not> hit k \<Longrightarrow> visit hit negated ks st = (False, st)"
  by (induction ks) auto

lemma visit_cong: "(\<And>k. k \<in> set ks \<Longrightarrow> hit k = hit' k) \<Longrightarrow> visit hit negated ks st = visit hit' negated ks st"
  by (induction ks arbitrary: st) (auto split: prod.splits bool.splits)

text \<open>A positive rule ends the search at the first unresolved node it names, a negated one resolves the nodes it names.\<close>

lemma visit_positive:
  "visit hit False ks st = (if \<exists>k \<in> set ks. \<not> depthResolved st k \<and> hit k then (True, st\<lparr>gsMatched := True\<rparr>) else (False, st))"
  by (induction ks) (auto simp: applyDepth_def)

lemma visit_negated:
  assumes "path_state path n st" and "set ks \<subseteq> {..<n}"
  shows "\<exists>st'. visit hit True ks st = (False, st') \<and> path_state path n st' \<and>
     (\<forall>k. depthResolved st' k \<longleftrightarrow> depthResolved st k \<or> k \<in> set ks \<and> hit k) \<and>
     gsMatched st' = (gsMatched st \<or> (\<exists>k \<in> set ks. \<not> depthResolved st k \<and> hit k))"
  using assms
proof (induction ks arbitrary: st)
  case (Cons k ks)
  show ?case
  proof (cases "\<not> depthResolved st k \<and> hit k")
    case True
    let ?s = "resolveDepth k (st\<lparr>gsMatched := True\<rparr>)"
    have "path_state path n ?s" using Cons.prems by (intro path_state_resolve) auto
    then obtain st' where "visit hit True ks ?s = (False, st')" "path_state path n st'"
      "\<forall>j. depthResolved st' j \<longleftrightarrow> depthResolved ?s j \<or> j \<in> set ks \<and> hit j"
      "gsMatched st' = (gsMatched ?s \<or> (\<exists>j \<in> set ks. \<not> depthResolved ?s j \<and> hit j))"
      using Cons.IH [of ?s] Cons.prems by auto
    then show ?thesis using True by (auto simp: applyDepth_def)
  next
    case False
    then show ?thesis using Cons.IH [OF Cons.prems(1)] Cons.prems by auto
  qed
qed auto

section \<open>Nodes of a path\<close>

definition node :: "string list \<Rightarrow> nat \<Rightarrow> string" where
  "node cs k = str_join [sl] (take (Suc k) cs)"

lemma str_join_snoc: "cs \<noteq> [] \<Longrightarrow> str_join sep (cs @ [c]) = str_join sep cs @ sep @ c"
  by (induction cs rule: induct_list012) auto

lemma last_slash_None: "sl \<notin> set c \<Longrightarrow> last_slash c = None"
  by (simp add: last_slash_def)

lemma last_slash_snoc: "sl \<notin> set c \<Longrightarrow> last_slash (d @ sl # c) = Some (length d)"
proof -
  assume "sl \<notin> set c"
  then have "takeWhile (\<lambda>x. x \<noteq> sl) (rev c @ sl # rev d) = rev c" by (subst takeWhile_append2) auto
  then show ?thesis by (simp add: last_slash_def)
qed

text \<open>Going up one level; \<open>parts\<close> are the components of a path, without slashes.\<close>

definition components :: "string list \<Rightarrow> bool" where
  "components cs = list_all (\<lambda>c. sl \<notin> set c) cs"

lemma components_split [simp]: "components (str_split sl s)"
  by (auto simp: components_def list_all_iff dest: str_split_no_sep)

lemma components_nth: "components cs \<Longrightarrow> k < length cs \<Longrightarrow> sl \<notin> set (cs ! k)"
  by (auto simp: components_def list_all_iff)

lemma last_slash_node:
  assumes "components cs" and "k < length cs"
  shows "last_slash (node cs k) = (if k = 0 then None else Some (length (node cs (k - 1))))"
proof (cases k)
  case 0
  then show ?thesis using assms components_nth [OF assms] by (cases cs) (auto simp: node_def last_slash_None)
next
  case (Suc j)
  then have "take (Suc k) cs = take (Suc j) cs @ [cs ! k]" "take (Suc j) cs \<noteq> []" using assms(2) by (auto simp: take_Suc_conv_app_nth)
  then have "node cs k = node cs j @ sl # cs ! k" using str_join_snoc [of "take (Suc j) cs" "[sl]" "cs ! k"] by (simp add: node_def)
  then show ?thesis using Suc last_slash_snoc [OF components_nth [OF assms]] by simp
qed

lemma node_up:
  assumes "components cs" and "Suc k < length cs"
  shows "node cs (Suc k) = node cs k @ sl # cs ! Suc k"
proof -
  have "take (Suc (Suc k)) cs = take (Suc k) cs @ [cs ! Suc k]" "take (Suc k) cs \<noteq> []" using assms(2) by (auto simp: take_Suc_conv_app_nth)
  then show ?thesis using str_join_snoc [of "take (Suc k) cs" "[sl]" "cs ! Suc k"] by (simp add: node_def)
qed

lemma node_0: "cs \<noteq> [] \<Longrightarrow> node cs 0 = cs ! 0"
  by (cases cs) (auto simp: node_def)

lemma node_last: "node (str_split sl path) (length (str_split sl path) - 1) = path"
  by (simp add: node_def str_join_split)

lemma length_str_split: "length (str_split sl s) = Suc (length (filter (\<lambda>c. c = sl) s))"
  by (induction s) (auto split: list.splits)

lemma apply_up_visit:
  assumes "components cs" and "d < length cs" and "path_state path n st" and "d \<le> n"
  shows "apply_up E p (node cs d) d st = visit (\<lambda>k. gitIgnorePatternMatchesNode E p (node cs k)) (igNegated p) (rev [0..<d]) st"
  using assms(2-4)
proof (induction d arbitrary: st)
  case (Suc d)
  have up: "last_slash (node cs (Suc d)) = Some (length (node cs d))" "take (length (node cs d)) (node cs (Suc d)) = node cs d"
    using last_slash_node [OF assms(1) Suc.prems(1)] node_up [OF assms(1) Suc.prems(1)] by auto
  let ?hit = "\<not> depthResolved st d \<and> gitIgnorePatternMatchesNode E p (node cs d)"
  let ?s = "resolveDepth d (st\<lparr>gsMatched := True\<rparr>)"
  have s: "path_state path n ?s" using Suc.prems by (intro path_state_resolve) auto
  have "visit h neg (rev [0..<d]) ?s = (False, ?s)" if "gsUnresolved ?s = 0" for h neg
  proof (intro visit_resolved ballI)
    fix k
    assume "k \<in> set (rev [0..<d])"
    then have "k < n" using Suc.prems(3) by simp
    then show "depthResolved ?s k" by (intro all_resolved [OF s]) (simp only: that, simp)
  qed
  then show ?case using Suc.IH [OF _ s] Suc.IH [OF _ Suc.prems(2)] Suc.prems up
    by (auto simp: Let_def applyDepth_def simp del: resolveDepth_fields depthResolved_resolveDepth)
qed simp

lemma root_up_visit:
  assumes "components cs" and "d \<le> length cs" and "path_state path n st" and "d \<le> n"
  shows "root_up E negated glob literal (str_join [sl] (take d cs)) d st =
    visit (\<lambda>k. literal \<and> cs ! k = glob \<or> \<not> literal \<and> MatchGlob E glob (cs ! k)) negated (rev [0..<d]) st"
  using assms(2-4)
proof (induction d arbitrary: st)
  case (Suc d)
  let ?dir = "str_join [sl] (take (Suc d) cs)"
  let ?start = "case last_slash ?dir of None \<Rightarrow> 0 | Some i \<Rightarrow> i + 1"
  have dir: "?dir = node cs d" by (simp add: node_def)
  have parts: "drop ?start ?dir = cs ! d" "?start = 0 \<longleftrightarrow> d = 0" "d \<noteq> 0 \<longrightarrow> take (?start - 1) ?dir = str_join [sl] (take d cs)"
  proof -
    have l: "last_slash ?dir = (if d = 0 then None else Some (length (node cs (d - 1))))"
      unfolding dir by (rule last_slash_node [OF assms(1)]) (use Suc.prems in simp)
    show "?start = 0 \<longleftrightarrow> d = 0" unfolding l by simp
    have "drop ?start ?dir = cs ! d \<and> (d \<noteq> 0 \<longrightarrow> take (?start - 1) ?dir = str_join [sl] (take d cs))"
    proof (cases d)
      case 0
      have "cs \<noteq> []" using Suc.prems(1) by auto
      then show ?thesis using 0 node_0 [of cs] unfolding l unfolding dir by simp
    next
      case (Suc j)
      have "node cs d = node cs j @ sl # cs ! d" using node_up [OF assms(1), of j] Suc.prems(1) Suc by simp
      then show ?thesis unfolding l unfolding dir using Suc by (simp add: node_def)
    qed
    then show "drop ?start ?dir = cs ! d" "d \<noteq> 0 \<longrightarrow> take (?start - 1) ?dir = str_join [sl] (take d cs)" by blast+
  qed
  let ?s = "resolveDepth d (st\<lparr>gsMatched := True\<rparr>)"
  have s: "path_state path n ?s" using Suc.prems by (intro path_state_resolve) auto
  have next_eq: "(if ?start = 0 then (False, t) else root_up E negated glob literal (take (?start - 1) ?dir) d t) =
      visit (\<lambda>k. literal \<and> cs ! k = glob \<or> \<not> literal \<and> MatchGlob E glob (cs ! k)) negated (rev [0..<d]) t"
    if "path_state path n t" for t
    using Suc.IH [OF _ that] Suc.prems parts(2,3) by (cases "d = 0") auto
  show ?case
  proof (cases "gsUnresolved st > 0")
    case True
    have "rev [0..<Suc d] = d # rev [0..<d]" by simp
    then show ?thesis using True next_eq [OF Suc.prems(2)] next_eq [OF s] parts(1)
      by (auto simp: Let_def applyDepth_def simp del: resolveDepth_fields depthResolved_resolveDepth)
  next
    case False
    then have "\<forall>k \<in> set (rev [0..<Suc d]). depthResolved st k" using all_resolved [OF Suc.prems(2) False] Suc.prems(3) by auto
    then show ?thesis using False visit_resolved [of "rev [0..<Suc d]" st] by simp
  qed
qed simp

section \<open>Git rules decide every node\<close>

text \<open>
  What the evaluation relies on of the matcher for one rule and one path: the subtree projection of a rule matches
  the path whenever the rule names an ancestor of it, and a rule \<open>**/g\<close> with a single component \<open>g\<close> names
  the nodes whose last component \<open>g\<close> matches, a \<open>g\<close> without metacharacters only itself.
\<close>

definition rule_path :: "path_env \<Rightarrow> IgnorePattern \<Rightarrow> string \<Rightarrow> string" where
  "rule_path E p path = (if CaseInsensitive p then ToLower E path else path)"

definition rule_parts :: "path_env \<Rightarrow> IgnorePattern \<Rightarrow> string \<Rightarrow> string list" where
  "rule_parts E p path = str_split sl (rule_path E p path)"

definition git_laws :: "path_env \<Rightarrow> string \<Rightarrow> IgnorePattern \<Rightarrow> bool" where
  "git_laws E path p \<longleftrightarrow>
     (let cs = rule_parts E p path
      in length cs = length (str_split sl path) \<and>
         (\<forall>k < length cs - 1. gitIgnorePatternMatchesNode E p (node cs k) \<longrightarrow> MatchGlob E (igGlob p) (rule_path E p path)) \<and>
         (case gitIgnoreRootBasenameGlob p of
            None \<Rightarrow> True
          | Some g \<Rightarrow> \<not> GitContentsOnly p \<and>
              (\<forall>k < length cs. MatchGlob E (gitIgnoreNodeGlob p) (node cs k) = MatchGlob E g (cs ! k)) \<and>
              (list_all (\<lambda>c. \<not> is_meta c) g \<longrightarrow> (\<forall>k < length cs. MatchGlob E g (cs ! k) = (cs ! k = g)))))"

text \<open>A rule names a node of the path; a directory rule never names the file itself.\<close>

definition names_node :: "path_env \<Rightarrow> string \<Rightarrow> IgnorePattern \<Rightarrow> nat \<Rightarrow> bool" where
  "names_node E path p k \<longleftrightarrow>
     (k = length (str_split sl path) - 1 \<longrightarrow> \<not> GitDirectoryOnly p) \<and>
     gitIgnorePatternMatchesNode E p (node (rule_parts E p path) k)"

lemma visit_skip_last:
  assumes "n > 0"
  shows "visit hit negated (rev [0..<n]) st =
    (if \<not> depthResolved st (n - 1) \<and> hit (n - 1)
     then (case applyDepth (n - 1) negated st of (True, st) \<Rightarrow> (True, st) | (False, st) \<Rightarrow> visit hit negated (rev [0..<n - 1]) st)
     else visit hit negated (rev [0..<n - 1]) st)"
  using assms by (cases n) (auto split: prod.splits bool.splits)

lemma early_exit:
  assumes "path_state path n st" and "gsUnresolved st = 0" and "d \<le> n"
  shows "visit hit negated (rev [0..<d]) st = (False, st)"
  using all_resolved [OF assms(1)] assms(2,3) by (intro visit_resolved) auto

lemma apply_pattern_visit:
  assumes "git_laws E path p" and "path_state path n st" and "n = length (str_split sl path)"
  shows "apply_pattern E p st = visit (names_node E path p) (igNegated p) (rev [0..<n]) st"
proof -
  let ?cs = "rule_parts E p path" and ?path = "rule_path E p path"
  let ?hit = "\<lambda>k. gitIgnorePatternMatchesNode E p (node ?cs k)"
  define d where "d = n - 1"
  have n: "n > 0" "length ?cs = n" "length ?cs - 1 = d" "nat (gsFileDepth st) = d" "\<not> gsFileDepth st < 0"
    using assms by (auto simp: git_laws_def path_state_def Let_def d_def)
  have dn: "d < length ?cs" "d \<le> length ?cs" "d \<le> n" "d < n" using n(1,2) by (auto simp: d_def)
  have comps: "components ?cs" "node ?cs d = ?path"
    using node_last [of ?path] n(3) by (simp_all add: rule_parts_def)
  have proj: "?hit k \<Longrightarrow> k < d \<Longrightarrow> MatchGlob E (igGlob p) ?path" for k
    using assms(1) n(3) by (auto simp: git_laws_def Let_def)
  have names: "names_node E path p k = ?hit k" if "k < d" for k using that n(1) assms(3) by (auto simp: names_node_def d_def)
  have last: "names_node E path p d \<longleftrightarrow> \<not> GitDirectoryOnly p \<and> ?hit d" using assms(3) by (simp add: names_node_def d_def)
  have path: "(if CaseInsensitive p then ToLower E (gsPath st) else gsPath st) = ?path"
    using assms(2) by (simp add: rule_path_def path_state_def)
  have res: "path_state path n (resolveDepth d (st\<lparr>gsMatched := True\<rparr>))"
    using assms(2) n(1) by (intro path_state_resolve) (auto simp: d_def)
  have visit_names: "visit (names_node E path p) neg (rev [0..<d]) t = visit ?hit neg (rev [0..<d]) t" for neg t
    by (rule visit_cong) (simp add: names)
  show ?thesis
  proof (cases "gitIgnoreRootBasenameGlob p")
    case None
    define rest where "rest = (\<lambda>t. if \<not> MatchGlob E (igGlob p) ?path then (False, t) else apply_up E p ?path d t)"
    have rest: "rest t = visit (names_node E path p) (igNegated p) (rev [0..<d]) t" if "path_state path n t" for t
    proof (cases "MatchGlob E (igGlob p) ?path")
      case True
      then show ?thesis using apply_up_visit [OF comps(1) dn(1) that dn(3), of E p] comps(2)
        by (simp add: rest_def visit_names)
    next
      case False
      then have "visit ?hit (igNegated p) (rev [0..<d]) t = (False, t)" using proj by (intro visit_no_hit) auto
      then show ?thesis using False by (simp add: rest_def visit_names)
    qed
    have "apply_pattern E p st =
      (if \<not> GitDirectoryOnly p \<and> \<not> depthResolved st d \<and> ?hit d
       then (case applyDepth d (igNegated p) st of (True, t) \<Rightarrow> (True, t) | (False, t) \<Rightarrow> if gsUnresolved t = 0 then (False, t) else rest t)
       else rest st)"
      using n(5) comps(2) None unfolding apply_pattern_def rest_def Let_def path n(4) by simp
    then show ?thesis unfolding visit_skip_last [OF n(1)] d_def [symmetric]
      using last rest [OF assms(2)] rest [OF res] early_exit [OF res _ dn(3)]
      by (auto simp: applyDepth_def Let_def simp del: resolveDepth_fields depthResolved_resolveDepth)
  next
    case (Some g)
    let ?lit = "list_all (\<lambda>c. \<not> is_meta c) g"
    let ?hit' = "\<lambda>k. ?lit \<and> ?cs ! k = g \<or> \<not> ?lit \<and> MatchGlob E g (?cs ! k)"
    have g: "?hit k = MatchGlob E g (?cs ! k)" "?lit \<longrightarrow> MatchGlob E g (?cs ! k) = (?cs ! k = g)" if "k < n" for k
      using assms(1) Some that n(2) by (auto simp: git_laws_def Let_def gitIgnorePatternMatchesNode_def)
    have hit': "?hit k = ?hit' k" if "k < n" for k using g [OF that] by auto
    define up where "up = (\<lambda>t. case last_slash ?path of None \<Rightarrow> (False, t)
      | Some i \<Rightarrow> if \<not> ?lit \<and> \<not> MatchGlob E (igGlob p) ?path then (False, t)
                  else root_up E (igNegated p) g ?lit (take i ?path) d t)"
    have slash: "last_slash ?path = (if d = 0 then None else Some (length (node ?cs (d - 1))))"
      using last_slash_node [OF comps(1) dn(1)] comps(2) by simp
    have tail: "drop (case last_slash ?path of None \<Rightarrow> 0 | Some i \<Rightarrow> i + 1) ?path = ?cs ! d"
    proof (cases d)
      case 0
      have "?cs \<noteq> []" using dn(1) by auto
      then show ?thesis using 0 slash comps(2) node_0 [of ?cs] by simp
    next
      case (Suc j)
      then have "?path = node ?cs j @ sl # ?cs ! d" using node_up [OF comps(1), of j] dn(1) comps(2) by simp
      moreover have "last_slash ?path = Some (length (node ?cs j))" using slash Suc by simp
      ultimately show ?thesis by simp
    qed
    have up: "up t = visit (names_node E path p) (igNegated p) (rev [0..<d]) t" if "path_state path n t" for t
    proof (cases d)
      case 0
      then show ?thesis using slash by (simp add: up_def)
    next
      case (Suc j)
      have "?path = node ?cs j @ sl # ?cs ! d" using node_up [OF comps(1), of j] comps(2) dn(1) Suc by simp
      then have "take (length (node ?cs j)) ?path = node ?cs j" by simp
      then have "take (length (node ?cs j)) ?path = str_join [sl] (take d ?cs)" using Suc by (simp add: node_def)
      moreover have "last_slash ?path = Some (length (node ?cs j))" using slash Suc by simp
      ultimately have "up t = (if \<not> ?lit \<and> \<not> MatchGlob E (igGlob p) ?path then (False, t)
          else root_up E (igNegated p) g ?lit (str_join [sl] (take d ?cs)) d t)"
        unfolding up_def by (simp del: root_up.simps)
      then have "up t = (if \<not> ?lit \<and> \<not> MatchGlob E (igGlob p) ?path then (False, t) else visit ?hit' (igNegated p) (rev [0..<d]) t)"
        unfolding root_up_visit [OF comps(1) dn(2) that dn(3)] .
      moreover have "visit ?hit' (igNegated p) (rev [0..<d]) t = visit ?hit (igNegated p) (rev [0..<d]) t"
        using hit' dn(4) by (intro visit_cong) auto
      moreover have "visit ?hit (igNegated p) (rev [0..<d]) t = (False, t)" if "\<not> MatchGlob E (igGlob p) ?path"
        using that proj by (intro visit_no_hit) auto
      ultimately show ?thesis by (simp add: visit_names)
    qed
    have "apply_pattern E p st =
      (if GitDirectoryOnly p then up st
       else if \<not> depthResolved st d \<and> ?hit d
       then (case applyDepth d (igNegated p) st of (True, t) \<Rightarrow> (True, t) | (False, t) \<Rightarrow> if gsUnresolved t = 0 then (False, t) else up t)
       else up st)"
      using n(5) Some g(1) [OF dn(4)] unfolding apply_pattern_def applyRootBasename_def up_def Let_def path n(4) tail by simp
    then show ?thesis unfolding visit_skip_last [OF n(1)] d_def [symmetric]
      using last up [OF assms(2)] up [OF res] early_exit [OF res _ dn(3)]
      by (auto simp: applyDepth_def Let_def simp del: resolveDepth_fields depthResolved_resolveDepth)
  qed
qed

text \<open>The last rule that names a node decides it; a file is ignored if one of its nodes is.\<close>

definition git_decision :: "path_env \<Rightarrow> string \<Rightarrow> IgnorePattern list \<Rightarrow> nat \<Rightarrow> IgnorePattern option" where
  "git_decision E path ps k = find (\<lambda>p. names_node E path p k) (rev ps)"

definition git_ignores :: "path_env \<Rightarrow> string \<Rightarrow> IgnorePattern list \<Rightarrow> bool" where
  "git_ignores E path ps =
     (\<exists>k < length (str_split sl path). case git_decision E path ps k of None \<Rightarrow> False | Some p \<Rightarrow> \<not> igNegated p)"

definition git_speaks :: "path_env \<Rightarrow> string \<Rightarrow> IgnorePattern list \<Rightarrow> bool" where
  "git_speaks E path ps = (\<exists>k < length (str_split sl path). git_decision E path ps k \<noteq> None)"

text \<open>What is left of the decision when some depths are resolved already.\<close>

definition open_ignores :: "path_env \<Rightarrow> string \<Rightarrow> IgnorePattern list \<Rightarrow> gitIgnorePathState \<Rightarrow> bool" where
  "open_ignores E path qs st =
     (\<exists>k < length (str_split sl path). \<not> depthResolved st k \<and>
        (case find (\<lambda>p. names_node E path p k) qs of None \<Rightarrow> False | Some p \<Rightarrow> \<not> igNegated p))"

definition open_speaks :: "path_env \<Rightarrow> string \<Rightarrow> IgnorePattern list \<Rightarrow> gitIgnorePathState \<Rightarrow> bool" where
  "open_speaks E path qs st =
     (\<exists>k < length (str_split sl path). \<not> depthResolved st k \<and> find (\<lambda>p. names_node E path p k) qs \<noteq> None)"

lemma open_ignores_speaks: "open_ignores E path qs st \<Longrightarrow> open_speaks E path qs st"
  by (auto simp: open_ignores_def open_speaks_def split: option.splits)

lemma evaluate_rev_spec:
  assumes "list_all (git_laws E path) qs" and "path_state path (length (str_split sl path)) st"
  shows "fst (evaluate_rev E qs st) = open_ignores E path qs st \<and>
    gsMatched (snd (evaluate_rev E qs st)) = (gsMatched st \<or> open_speaks E path qs st)"
  using assms
proof (induction qs arbitrary: st)
  case Nil
  then show ?case by (simp add: open_ignores_def open_speaks_def)
next
  case (Cons q qs)
  let ?n = "length (str_split sl path)"
  have visit: "apply_pattern E q st = visit (names_node E path q) (igNegated q) (rev [0..<?n]) st"
    using Cons.prems by (intro apply_pattern_visit) auto
  show ?case
  proof (cases "gsUnresolved st > 0")
    case False
    have "depthResolved st k" if "k < ?n" for k by (rule all_resolved [OF Cons.prems(2) False that])
    then show ?thesis using False by (auto simp: open_ignores_def open_speaks_def)
  next
    case True
    show ?thesis
    proof (cases "igNegated q")
      case False
      show ?thesis
      proof (cases "\<exists>k < ?n. \<not> depthResolved st k \<and> names_node E path q k")
        case hit: True
        then have "evaluate_rev E (q # qs) st = (True, st\<lparr>gsMatched := True\<rparr>)"
          using True False visit by (auto simp: visit_positive)
        moreover have "open_ignores E path (q # qs) st" using hit False by (auto simp: open_ignores_def)
        ultimately show ?thesis using open_ignores_speaks [of E path "q # qs" st] by (simp del: evaluate_rev.simps)
      next
        case no: False
        then have "evaluate_rev E (q # qs) st = evaluate_rev E qs st" using True False visit by (auto simp: visit_positive)
        moreover have "open_ignores E path (q # qs) st = open_ignores E path qs st" "open_speaks E path (q # qs) st = open_speaks E path qs st"
          using no by (auto simp: open_ignores_def open_speaks_def)
        ultimately show ?thesis using Cons by simp
      qed
    next
      case neg: True
      obtain st' where st': "visit (names_node E path q) True (rev [0..<?n]) st = (False, st')" "path_state path ?n st'"
        "\<forall>k. depthResolved st' k \<longleftrightarrow> depthResolved st k \<or> k \<in> set (rev [0..<?n]) \<and> names_node E path q k"
        "gsMatched st' = (gsMatched st \<or> (\<exists>k \<in> set (rev [0..<?n]). \<not> depthResolved st k \<and> names_node E path q k))"
        using visit_negated [OF Cons.prems(2), of "rev [0..<?n]" "names_node E path q"] by (simp add: atLeast0LessThan) blast
      have "evaluate_rev E (q # qs) st = evaluate_rev E qs st'" using True neg visit st'(1) by simp
      moreover have "open_ignores E path (q # qs) st = open_ignores E path qs st'"
        using st'(3) neg by (auto simp: open_ignores_def)
      moreover have "gsMatched st \<or> open_speaks E path (q # qs) st \<longleftrightarrow> gsMatched st' \<or> open_speaks E path qs st'"
        using st'(3,4) by (simp add: open_speaks_def atLeast0LessThan) blast
      ultimately show ?thesis using Cons.IH [OF _ st'(2)] Cons.prems(1) by simp
    qed
  qed
qed

lemma path_state_new:
  assumes "gsPath (newGitIgnorePathState path0) = path" and "path \<noteq> []"
  shows "path_state path (length (str_split sl path)) (newGitIgnorePathState path0)" "\<not> gsMatched (newGitIgnorePathState path0)"
    "\<not> depthResolved (newGitIgnorePathState path0) k"
proof -
  show un: "\<not> depthResolved (newGitIgnorePathState path0) k" for k
    by (simp add: newGitIgnorePathState_def Let_def depthResolved_def)
  then have "resolved_set n (newGitIgnorePathState path0) = {}" for n by (simp add: resolved_set_def)
  then show "path_state path (length (str_split sl path)) (newGitIgnorePathState path0)"
    using assms un by (auto simp: path_state_def newGitIgnorePathState_def Let_def length_str_split)
  show "\<not> gsMatched (newGitIgnorePathState path0)" by (simp add: newGitIgnorePathState_def Let_def)
qed

lemma evaluate_spec:
  assumes "list_all (git_laws E path) ps" and "gsPath (newGitIgnorePathState path0) = path" and "path \<noteq> []"
    and "evaluate E ps (newGitIgnorePathState path0) = (ignored, st)"
  shows "ignored = git_ignores E path ps \<and> gsMatched st = git_speaks E path ps"
proof -
  note new = path_state_new [OF assms(2,3)]
  have "list_all (git_laws E path) (rev ps)" using assms(1) by simp
  from evaluate_rev_spec [OF this new(1)] show ?thesis
    using assms(4) new(2,3) unfolding evaluate_def
    by (simp add: open_ignores_def open_speaks_def git_ignores_def git_speaks_def git_decision_def)
qed

text \<open>
  Claim C25.  The reverse, short-circuit evaluation of collected Git rules, with its bit set of resolved depths, its
  basename shortcut and its rejection by the subtree projection, decides as Git does: for every node of the
  path (the file and each directory above it) the last rule that names the node decides it, a directory rule
  never names the file itself, and the file is ignored exactly when some node is
  decided by a positive rule; the group speaks about the file exactly when some node is decided.
\<close>

theorem git_rules_decide:
  assumes "list_all (git_laws E path) ps" and "gsPath (newGitIgnorePathState path0) = path" and "path \<noteq> []"
    and "evaluate E ps (newGitIgnorePathState path0) = (ignored, st)"
  shows "(ignored \<longleftrightarrow> (\<exists>k < length (str_split sl path). \<exists>p. git_decision E path ps k = Some p \<and> \<not> igNegated p)) \<and>
    (gsMatched st \<longleftrightarrow> (\<exists>k < length (str_split sl path). git_decision E path ps k \<noteq> None))"
  using evaluate_spec [OF assms] by (auto simp: git_ignores_def git_speaks_def split: option.splits)

section \<open>Directory blocks\<close>

lemma blocks_candidates:
  "directoryPatternAbsolutelyBlocks E p dirPath = list_ex (ignorePatternMatches E p) (directoryBlockCandidates dirPath)"
  by (auto simp: directoryPatternAbsolutelyBlocks_def directoryBlockCandidates_def list_ex_iff)

lemma blocked_loop_spec:
  assumes "candidates = None \<or> candidates = Some (directoryBlockCandidates dirPath)"
  shows "blocked_loop E dirPath firstPattern candidates ps \<longleftrightarrow>
    (\<exists>p \<in> set ps. \<not> igNegated p \<and> igKind p = dirAbsoluteBlock \<and> list_ex (ignorePatternMatches E p) (directoryBlockCandidates dirPath))"
  using assms by (induction ps arbitrary: firstPattern candidates) (auto simp: blocks_candidates Let_def)

lemma isDirAbsolutelyBlocked_iff:
  "isDirAbsolutelyBlocked E dirPath ps \<longleftrightarrow>
    (\<exists>p \<in> set ps. \<not> igNegated p \<and> igKind p = dirAbsoluteBlock \<and> (\<exists>c \<in> set (directoryBlockCandidates dirPath). ignorePatternMatches E p c))"
  by (simp add: isDirAbsolutelyBlocked_def blocked_loop_spec list_ex_iff)

lemma slash_offsets_append: "slash_offsets n (a @ b) = slash_offsets n a @ slash_offsets (n + length a) b"
  by (induction a arbitrary: n) auto

lemma slash_offsets_less: "i \<in> set (slash_offsets n a) \<Longrightarrow> n \<le> i \<and> i < n + length a"
  by (induction a arbitrary: n) (auto split: if_splits, force+)

text \<open>A block reaches everything below.\<close>

lemma set_candidates:
  "set (directoryBlockCandidates dir) = (\<Union>i \<in> insert (length dir) (set (slash_offsets 0 dir)). {take i dir, take i dir @ ''/x''})"
  by (simp add: directoryBlockCandidates_def)

lemma candidates_below: "set (directoryBlockCandidates dir) \<subseteq> set (directoryBlockCandidates (dir @ sl # sub))"
proof
  fix c
  assume "c \<in> set (directoryBlockCandidates dir)"
  then obtain i where i: "i \<in> insert (length dir) (set (slash_offsets 0 dir))" "c \<in> {take i dir, take i dir @ ''/x''}"
    unfolding set_candidates by blast
  have "i \<le> length dir" using i(1) slash_offsets_less [of i 0 dir] by auto
  then have "take i dir = take i (dir @ sl # sub)" by simp
  then have "c \<in> {take i (dir @ sl # sub), take i (dir @ sl # sub) @ ''/x''}" using i(2) by simp
  moreover have "i \<in> set (slash_offsets 0 (dir @ sl # sub))" using i(1) by (auto simp: slash_offsets_append)
  ultimately show "c \<in> set (directoryBlockCandidates (dir @ sl # sub))" unfolding set_candidates by blast
qed

lemma blocked_below: "isDirAbsolutelyBlocked E dir ps \<Longrightarrow> isDirAbsolutelyBlocked E (dir @ sl # sub) ps"
  using candidates_below [of dir sub] unfolding isDirAbsolutelyBlocked_iff by (meson subsetD)

section \<open>Pruning\<close>

lemma segPrefix_iff: "segPrefix a b \<longleftrightarrow> b = a \<or> (\<exists>r. b = a @ sl # r)"
  by (auto simp: segPrefix_def has_prefix_iff)

lemma append_slash_cases:
  assumes "a @ sl # r = b @ sl # q" and "length a < length b"
  shows "\<exists>t. b = a @ sl # t"
proof -
  have "take (Suc (length a)) (a @ sl # r) = a @ [sl]" by simp
  moreover have "take (Suc (length a)) (b @ sl # q) = take (Suc (length a)) b" using assms(2) by simp
  ultimately have "take (Suc (length a)) b = a @ [sl]" using assms(1) by simp
  then have "b = (a @ [sl]) @ drop (Suc (length a)) b" by (metis append_take_drop_id)
  then show ?thesis by auto
qed

lemma segPrefix_comparable:
  assumes "segPrefix a f" and "segPrefix b f"
  shows "segPrefixEither a b"
proof -
  consider "f = a" | "f = b" | r q where "f = a @ sl # r" "f = b @ sl # q" using assms unfolding segPrefix_iff by blast
  then show ?thesis
  proof cases
    case (3 r q)
    then have eq: "a @ sl # r = b @ sl # q" by simp
    show ?thesis
    proof (cases "length a" "length b" rule: linorder_cases)
      case less
      then show ?thesis using append_slash_cases [OF eq] by (auto simp: segPrefixEither_def segPrefix_iff)
    next
      case equal
      then show ?thesis using eq by (auto simp: segPrefixEither_def segPrefix_iff)
    next
      case greater
      then show ?thesis using append_slash_cases [OF eq [symmetric]] by (auto simp: segPrefixEither_def segPrefix_iff)
    qed
  qed (use assms in \<open>auto simp: segPrefixEither_def\<close>)
qed

text \<open>
  What pruning relies on of doublestar and of \<open>tspath.NormalizePath\<close>.  A pattern without a metacharacter or an escape
  matches only itself; one whose first segments have none matches only paths that start with these segments; one that
  ends in \<open>/**/*\<close> and matches a name in a directory matches every file below the directory.  Normalising a
  path leaves no backslash, and the segments \<open>**\<close> and \<open>*\<close> at its end stay where they are.
\<close>

definition literal_text :: "string \<Rightarrow> bool" where
  "literal_text s = list_all (\<lambda>c. \<not> is_meta c \<and> c \<noteq> CHR 0x5C) s"

definition doublestar_laws :: "path_env \<Rightarrow> bool" where
  "doublestar_laws E \<longleftrightarrow>
     (\<forall>g s. literal_text g \<and> MatchGlob E g s \<longrightarrow> s = g) \<and>
     (\<forall>lit g s. literal_text lit \<and> MatchGlob E (lit @ sl # g) s \<longrightarrow> segPrefix lit s) \<and>
     (\<forall>g dir rest. CHR 0x5C \<notin> set g \<and> rest \<noteq> [] \<and> last rest \<noteq> sl \<and> MatchGlob E (g @ ''/**/*'') (dir @ ''/x'') \<longrightarrow>
        MatchGlob E (g @ ''/**/*'') (dir @ sl # rest))"

definition normalize_laws :: "path_env \<Rightarrow> bool" where
  "normalize_laws E \<longleftrightarrow>
     (\<forall>s. CHR 0x5C \<notin> set (NormalizePath E s)) \<and>
     (\<forall>s. has_suffix s ''/**/*'' \<longrightarrow> has_suffix (NormalizePath E s) ''/**/*'')"

text \<open>The literal segments of a pattern: the pattern itself, up to a final slash, or what stands before a slash with no
  metacharacter before it.\<close>

lemma last_slash_take:
  assumes "last_slash s = Some i"
  shows "\<exists>c. s = take i s @ sl # c"
proof -
  have "sl \<in> set s" using assms by (auto simp: last_slash_def split: if_splits)
  then obtain d c where dc: "s = d @ sl # c" "sl \<notin> set c" by (meson split_list_last)
  then have "i = length d" using assms last_slash_snoc [OF dc(2), of d] by simp
  then show ?thesis using dc(1) by simp
qed

lemma literalSegmentPrefix_literal:
  assumes "literalSegmentPrefix g \<noteq> []" and "CHR 0x5C \<notin> set g"
  shows "literal_text (literalSegmentPrefix g) \<and>
    (literal_text g \<and> (g = literalSegmentPrefix g \<or> g = literalSegmentPrefix g @ [sl]) \<or>
     (\<exists>r. g = literalSegmentPrefix g @ sl # r))"
proof (cases "list_all (\<lambda>c. \<not> is_meta c) g")
  case True
  then have lit: "literalSegmentPrefix g = trim_suffix g ''/''" by (simp add: literalSegmentPrefix_def)
  have g: "literal_text g" using True assms(2) by (auto simp: literal_text_def list_all_iff)
  have split: "g = trim_suffix g ''/'' \<or> g = trim_suffix g ''/'' @ ''/''"
    by (cases "has_suffix g ''/''") (auto simp: trim_suffix_def has_suffix_iff)
  then have "set (trim_suffix g ''/'') \<subseteq> set g" by (metis Un_upper1 order_refl set_append)
  then have "literal_text (trim_suffix g ''/'')" using g by (auto simp: literal_text_def list_all_iff)
  then show ?thesis using lit g split by simp
next
  case False
  define pre where "pre = takeWhile (\<lambda>c. \<not> is_meta c) g"
  obtain i where i: "last_slash pre = Some i" "literalSegmentPrefix g = take i pre"
    using assms(1) False by (auto simp: literalSegmentPrefix_def pre_def Let_def split: option.splits)
  obtain c where c: "pre = take i pre @ sl # c" using last_slash_take [OF i(1)] by blast
  obtain r where "g = pre @ r" unfolding pre_def by (metis takeWhile_dropWhile_id)
  then have "g = take i pre @ sl # (c @ r)" using c by (metis append.assoc append_Cons)
  moreover have "list_all (\<lambda>c. \<not> is_meta c) pre" unfolding pre_def by (auto simp: list_all_iff dest: set_takeWhileD)
  then have "literal_text (take i pre)"
    using assms(2) \<open>g = pre @ r\<close> by (auto simp: literal_text_def list_all_iff dest!: in_set_takeD)
  ultimately show ?thesis unfolding i(2) by blast
qed

lemma matched_has_literal:
  assumes "doublestar_laws E" and "CHR 0x5C \<notin> set g" and "literalSegmentPrefix g \<noteq> []" and "MatchGlob E g s"
  shows "segPrefix (literalSegmentPrefix g) s"
proof -
  let ?lit = "literalSegmentPrefix g"
  from literalSegmentPrefix_literal [OF assms(3,2)]
  consider "literal_text g" "g = ?lit \<or> g = ?lit @ [sl]" | r where "literal_text ?lit" "g = ?lit @ sl # r" by blast
  then show ?thesis
  proof cases
    case 1
    then have "s = g" using assms(1,4) unfolding doublestar_laws_def by blast
    then show ?thesis using 1(2) by (auto simp: segPrefix_iff)
  next
    case 2
    then show ?thesis using assms(1,4) unfolding doublestar_laws_def by metis
  qed
qed

lemma authored_pattern:
  assumes "normalize_laws E" and "p \<in> set (ParseIgnorePatterns E raws)"
  shows "\<not> CaseInsensitive p" "\<not> GitPattern p" "CHR 0x5C \<notin> set (igGlob p)"
    "igKind p = dirFileLevelCover \<Longrightarrow> \<exists>g. igGlob p = g @ ''/**/*'' \<and> CHR 0x5C \<notin> set g"
proof -
  from assms(2) obtain raw where p: "p = ParseIgnorePattern E raw" by (auto simp: ParseIgnorePatterns_def)
  let ?body = "if has_prefix raw ''!'' then drop 1 raw else raw"
  have glob: "igGlob p = NormalizePath E ?body" by (simp add: p ParseIgnorePattern_def Let_def normalizePattern_def)
  show "\<not> CaseInsensitive p" "\<not> GitPattern p" by (simp_all add: p ParseIgnorePattern_def Let_def)
  show clean: "CHR 0x5C \<notin> set (igGlob p)" unfolding glob using assms(1) by (simp add: normalize_laws_def)
  show "\<exists>g. igGlob p = g @ ''/**/*'' \<and> CHR 0x5C \<notin> set g" if "igKind p = dirFileLevelCover"
  proof -
    have "has_suffix ?body ''/**/*''" using that by (auto simp: p ParseIgnorePattern_def Let_def split: if_splits)
    then have "has_suffix (igGlob p) ''/**/*''" unfolding glob using assms(1) by (simp add: normalize_laws_def)
    then obtain g where "igGlob p = g @ ''/**/*''" by (auto simp: has_suffix_iff)
    then show ?thesis using clean by auto
  qed
qed

lemma no_negation_below:
  assumes "doublestar_laws E" and "normalize_laws E" and ps: "ps = ParseIgnorePatterns E raws"
    and "\<not> neg_overlaps E (buildNegReach ps) dir" and "p \<in> set ps" and "igNegated p"
  shows "\<not> ignorePatternMatches E p (dir @ sl # rest)"
proof
  assume m: "ignorePatternMatches E p (dir @ sl # rest)"
  let ?lit = "literalSegmentPrefix (igGlob p)"
  note p = authored_pattern [OF assms(2) assms(5) [unfolded ps]]
  have "neg_prefix p \<in> set (buildNegReach ps)" using assms(5,6) by (simp add: buildNegReach_def)
  then have "\<not> npUnrooted (neg_prefix p)"
    "\<not> (if npCaseInsensitive (neg_prefix p) then segPrefixEither (ToLower E (npLiteral (neg_prefix p))) (ToLower E dir)
        else segPrefixEither (npLiteral (neg_prefix p)) dir)"
    using assms(4) unfolding neg_overlaps_def list_ex_iff by blast+
  then have out: "?lit \<noteq> []" "\<not> segPrefixEither ?lit dir"
    using p(1) by (auto simp: neg_prefix_def Let_def split: if_splits)
  have "segPrefix ?lit (dir @ sl # rest)"
    using matched_has_literal [OF assms(1) p(3) out(1)] m p(1) by (simp add: ignorePatternMatches_def)
  moreover have "segPrefix dir (dir @ sl # rest)" by (auto simp: segPrefix_iff)
  ultimately show False using out(2) segPrefix_comparable by blast
qed

lemma cover_below:
  assumes "doublestar_laws E" and "normalize_laws E" and "p \<in> set (ParseIgnorePatterns E raws)"
    and "igKind p = dirFileLevelCover" and "ignorePatternMatches E p (dir @ ''/x'')" and "rest \<noteq> []" and "last rest \<noteq> sl"
  shows "ignorePatternMatches E p (dir @ sl # rest)"
proof -
  note p = authored_pattern [OF assms(2,3)]
  from p(4) [OF assms(4)] obtain g where g: "igGlob p = g @ ''/**/*''" "CHR 0x5C \<notin> set g" by blast
  have "MatchGlob E (g @ ''/**/*'') (dir @ ''/x'')" using assms(5) p(1) g(1) by (simp add: ignorePatternMatches_def)
  then have "MatchGlob E (g @ ''/**/*'') (dir @ sl # rest)"
    using assms(1,6,7) g(2) unfolding doublestar_laws_def by blast
  then show ?thesis using p(1) g(1) by (simp add: ignorePatternMatches_def)
qed

lemma authored_ignored:
  assumes "list_all (\<lambda>p. \<not> GitPattern p) ps" and "\<forall>p \<in> set ps. igNegated p \<longrightarrow> \<not> ignorePatternMatches E p path"
    and "ignored \<or> (\<exists>p \<in> set ps. \<not> igNegated p \<and> ignorePatternMatches E p path)"
  shows "applyFileIgnorePatternsNormalized E path path ps ignored"
  using assms by (induction ps arbitrary: ignored) auto


section \<open>Concrete sets of patterns\<close>

text \<open>Rules \<open>build/\<close> and \<open>!keep.ts\<close> on \<open>build/keep.ts\<close>: the negation names the file, the directory stays excluded.\<close>

definition sample_paths :: path_env where
  "sample_paths = \<lparr>MatchGlob = \<lambda>g s. (g, s) \<in>
       {(''build'', ''build''), (''**/build'', ''build''), (''**/build/**/*'', ''build/keep.ts''), (''keep.ts'', ''keep.ts''),
        (''**/keep.ts'', ''build/keep.ts''), (''gen/**/*'', ''gen/x''), (''gen/**/*'', ''gen/a/b.ts'')},
     NormalizePath = \<lambda>s. s, ConvertToRelativePath = \<lambda>_ _ s. s, PathIsAbsolute = \<lambda>_. False, GetDirectoryPath = \<lambda>s. s,
     ToLower = \<lambda>s. s\<rparr>"

definition git_rule :: "string \<Rightarrow> nat \<Rightarrow> bool \<Rightarrow> bool \<Rightarrow> IgnorePattern" where
  "git_rule raw nodeEnd negated dirOnly =
     (ParseIgnorePattern sample_paths raw)\<lparr>GitPattern := True, igNegated := negated, GitNodeGlobEnd := int nodeEnd, GitDirectoryOnly := dirOnly\<rparr>"

definition sample_rules :: "IgnorePattern list" where
  "sample_rules = [git_rule ''**/build/**/*'' 8 False True, git_rule ''**/keep.ts/**/*'' 10 True False]"

lemma sample_rules_laws: "list_all (git_laws sample_paths ''build/keep.ts'') sample_rules"
  by (simp add: git_laws_def sample_rules_def git_rule_def ParseIgnorePattern_def has_prefix_def has_suffix_def Let_def
      rule_parts_def rule_path_def normalizePattern_def sample_paths_def gitIgnoreRootBasenameGlob_def gitIgnoreNodeGlob_def
      gitIgnorePatternMatchesNode_def node_def All_less_Suc2 is_meta_def numeral_2_eq_2)

theorem git_rules_decide_witness:
  "fst (evaluate sample_paths sample_rules (newGitIgnorePathState ''build/keep.ts''))"
proof -
  have path: "gsPath (newGitIgnorePathState ''build/keep.ts'') = ''build/keep.ts''"
    by (simp add: newGitIgnorePathState_def trim_slashes_def has_prefix_def has_suffix_def Let_def)
  obtain b st where e: "evaluate sample_paths sample_rules (newGitIgnorePathState ''build/keep.ts'') = (b, st)" by fastforce
  have "git_decision sample_paths ''build/keep.ts'' sample_rules 0 = Some (git_rule ''**/build/**/*'' 8 False True)"
    by (simp add: git_decision_def names_node_def sample_rules_def git_rule_def ParseIgnorePattern_def has_prefix_def has_suffix_def Let_def
        rule_parts_def rule_path_def normalizePattern_def sample_paths_def gitIgnoreNodeGlob_def gitIgnorePatternMatchesNode_def node_def)
  moreover have "\<not> igNegated (git_rule ''**/build/**/*'' 8 False True)" by (simp add: git_rule_def)
  moreover have "(0 :: nat) < length (str_split sl ''build/keep.ts'')" by simp
  ultimately have b using git_rules_decide [OF sample_rules_laws path _ e] by blast
  then show ?thesis using e by simp
qed

text \<open>A matcher for literal patterns and literal directories with a final \<open>/**/*\<close>.\<close>

definition plain_glob :: "string \<Rightarrow> string \<Rightarrow> bool" where
  "plain_glob g s =
     (if literal_text g then s = g
      else has_suffix g ''/**/*'' \<and> literal_text (take (length g - 5) g) \<and>
        s \<noteq> [] \<and> last s \<noteq> sl \<and> has_prefix s (take (length g - 5) g @ ''/''))"

definition plain_paths :: path_env where
  "plain_paths = sample_paths\<lparr>MatchGlob := plain_glob, NormalizePath := filter (\<lambda>c. c \<noteq> CHR 0x5C)\<rparr>"

lemma meta_star: "\<not> literal_text (g @ ''/**/*'')"
  by (simp add: literal_text_def is_meta_def)

lemma plain_glob_cover: "plain_glob (g @ ''/**/*'') s \<longleftrightarrow> literal_text g \<and> s \<noteq> [] \<and> last s \<noteq> sl \<and> has_prefix s (g @ ''/'')"
  by (simp add: plain_glob_def meta_star has_suffix_iff)

lemma plain_glob_segments:
  assumes "literal_text lit" and "plain_glob (lit @ sl # g) s"
  shows "segPrefix lit s"
proof (cases "literal_text (lit @ sl # g)")
  case True
  then show ?thesis using assms(2) by (auto simp: plain_glob_def segPrefix_iff)
next
  case False
  then have suffix: "has_suffix (lit @ sl # g) ''/**/*''" and pre: "has_prefix s (take (length (lit @ sl # g) - 5) (lit @ sl # g) @ ''/'')"
    using assms(2) by (auto simp: plain_glob_def)
  then obtain b where b: "lit @ sl # g = b @ ''/**/*''" by (auto simp: has_suffix_iff)
  then have s: "has_prefix s (b @ ''/'')" using pre by simp
  have "length lit \<le> length b"
  proof (rule ccontr)
    assume "\<not> length lit \<le> length b"
    then obtain k where k: "length lit = Suc (length b + k)" using less_imp_Suc_add [of "length b" "length lit"] by auto
    then have k4: "k < 4" using arg_cong [OF b, of length] by simp
    have "take (length lit) (lit @ sl # g) = take (length lit) (b @ ''/**/*'')" using b by simp
    then have lit: "lit = b @ take (Suc k) ''/**/*''" using k by simp
    have "(lit @ sl # g) ! length lit = sl" by (simp add: nth_append)
    then have "''/**/*'' ! Suc k = sl" unfolding b using k by (simp add: nth_append)
    then have "k = 2" using k4 by (cases k; cases "k - 1"; cases "k - 2"; auto)
    then have "CHR ''*'' \<in> set lit" using lit by (simp add: numeral_2_eq_2)
    then show False using assms(1) by (auto simp: literal_text_def list_all_iff is_meta_def)
  qed
  then have "take (length lit) b = lit" using arg_cong [OF b, of "take (length lit)"] by simp
  then obtain t where t: "b = lit @ t" by (metis append_take_drop_id)
  then have "sl # g = t @ ''/**/*''" using b by simp
  then have "\<exists>u. t @ ''/'' = sl # u" by (cases t) auto
  then obtain u where u: "t @ ''/'' = sl # u" by blast
  from s obtain v where "s = (b @ ''/'') @ v" by (auto simp: has_prefix_iff)
  then have "s = lit @ sl # (u @ v)" using t u by simp
  then show ?thesis unfolding segPrefix_iff by blast
qed

lemma plain_laws: "doublestar_laws plain_paths" "normalize_laws plain_paths"
proof -
  have M: "MatchGlob plain_paths = plain_glob" and N: "NormalizePath plain_paths = filter (\<lambda>c. c \<noteq> CHR 0x5C)"
    by (simp_all add: plain_paths_def)
  have cover: "plain_glob (g @ ''/**/*'') (dir @ sl # rest)"
    if "plain_glob (g @ ''/**/*'') (dir @ ''/x'')" "rest \<noteq> []" "last rest \<noteq> sl" for g dir rest
  proof -
    have g: "literal_text g" and pre: "has_prefix (dir @ ''/x'') (g @ ''/'')" using that(1) by (auto simp: plain_glob_cover)
    from pre obtain r where r: "dir @ ''/x'' = (g @ ''/'') @ r" by (auto simp: has_prefix_iff)
    have "has_prefix (dir @ [sl]) (g @ ''/'')"
    proof (cases "r = []")
      case True
      then have "last (dir @ ''/x'') = last (g @ ''/'')" using r by simp
      then show ?thesis by simp
    next
      case False
      then have "butlast (dir @ ''/x'') = (g @ ''/'') @ butlast r" unfolding r by (simp add: butlast_append)
      then have "dir @ [sl] = (g @ ''/'') @ butlast r" by (simp add: butlast_append)
      then show ?thesis by (auto simp: has_prefix_iff)
    qed
    then obtain t where "dir @ [sl] = (g @ ''/'') @ t" by (auto simp: has_prefix_iff)
    then have "(dir @ [sl]) @ rest = (g @ ''/'') @ (t @ rest)" by (simp only: append.assoc)
    then have "has_prefix ((dir @ [sl]) @ rest) (g @ ''/'')" unfolding has_prefix_iff by blast
    then have "has_prefix (dir @ sl # rest) (g @ ''/'')" by simp
    then show ?thesis using g that(2,3) by (simp add: plain_glob_cover)
  qed
  have lit: "s = g" if "literal_text g" "plain_glob g s" for g s using that by (simp add: plain_glob_def)
  show "doublestar_laws plain_paths" unfolding doublestar_laws_def M
    by (intro conjI allI impI; elim conjE) (use lit in simp, rule plain_glob_segments, assumption+, rule cover)
  have "has_suffix (filter (\<lambda>c. c \<noteq> CHR 0x5C) s) ''/**/*''" if "has_suffix s ''/**/*''" for s
    using that by (auto simp: has_suffix_iff)
  then show "normalize_laws plain_paths" unfolding normalize_laws_def N by simp
qed

definition sample_ignores :: "IgnorePattern list" where
  "sample_ignores = ParseIgnorePatterns plain_paths [''gen/**/*'', ''!src/a.ts'']"

lemma sample_prune: "canPruneDir plain_paths ''gen'' sample_ignores (buildNegReach sample_ignores)"
  by code_simp


end
