(* ===== verification/Config_Match.thy ===== *)
theory Config_Match
  imports Ignore Language
begin

text \<open>
  The entries of a flat configuration and which of them apply to a file: the types and the matching half of
  \<^verbatim>\<open>internal/config/config.go\<close>, \<^verbatim>\<open>config_resolution.go\<close>, \<^verbatim>\<open>lint_file_policy.go\<close> and \<^verbatim>\<open>resolution_cache.go\<close>.

  A slice or map whose nilness the code tests is an option.  \<open>tspath.ResolvePath\<close> is a parameter.  The configurations
  considered by the functions below need no target resolver: \<open>configNeedsTargetResolver\<close> is false for them.
\<close>

section \<open>Entries\<close>

record ParserOptions =
  ProjectService :: "bool option"
  Project :: "string list option"
  TsconfigRootDir :: "string option"
  ProjectDisabled :: bool
  projectAutomatic :: bool
  rootDirSet :: bool
  rootDirInvalid :: "json option"

text \<open>\<open>LanguageOptions\<close> of the package \<^verbatim>\<open>config\<close>; the one of the package \<^verbatim>\<open>rule\<close> is in \<^verbatim>\<open>Language\<close>.\<close>

record ConfigLanguageOptions =
  loParserOptions :: "ParserOptions option"
  loRaw :: "(string \<times> json) list option"

record collectedGitignoreScope =
  matchDirectory :: string
  physicalDirectory :: string
  lexicalDirectory :: string
  scopeCaseInsensitive :: bool

record collectedGitignoreMetadata =
  gitIgnores :: "IgnorePattern list"
  gitScopes :: "collectedGitignoreScope list"

record configEntryPathBase =
  pbDirectory :: string
  pbConfigArrayBase :: string
  pbBasePathScoped :: bool

record ConfigEntry =
  entryName :: string
  BasePath :: "string option"
  Files :: "string list option"
  FilePatternGroups :: "string list list option"
  Ignores :: "string list"
  entryLanguageOptions :: "ConfigLanguageOptions option"
  Rules :: "(string \<times> json) list option"
  Plugins :: "string list option"
  entrySettings :: "(string \<times> json) list option"
  collectedGitignore :: "collectedGitignoreMetadata option"
  authoredPathBase :: "configEntryPathBase option"

definition path_base :: "string \<Rightarrow> configEntryPathBase" where
  "path_base directory = \<lparr>pbDirectory = directory, pbConfigArrayBase = [], pbBasePathScoped = False\<rparr>"

definition ConfigWithAuthoredPathBase :: "path_env \<Rightarrow> ConfigEntry list \<Rightarrow> string \<Rightarrow> ConfigEntry list" where
  "ConfigWithAuthoredPathBase E config directory =
     (if config = [] then config
      else (let directory = NormalizePath E directory
            in map (\<lambda>entry. if BasePath entry = None then entry\<lparr>authoredPathBase := Some (path_base directory)\<rparr> else entry) config))"

definition configEntryPathOrigin :: "(string \<Rightarrow> string \<Rightarrow> string) \<Rightarrow> ConfigEntry \<Rightarrow> string \<Rightarrow> configEntryPathBase" where
  "configEntryPathOrigin ResolvePath entry defaultDirectory =
     (case authoredPathBase entry of
        Some b \<Rightarrow> if pbDirectory b \<noteq> [] then b
                  else (case BasePath entry of
                          Some p \<Rightarrow> \<lparr>pbDirectory = ResolvePath defaultDirectory p, pbConfigArrayBase = defaultDirectory, pbBasePathScoped = True\<rparr>
                        | None \<Rightarrow> path_base defaultDirectory)
      | None \<Rightarrow> (case BasePath entry of
                   Some p \<Rightarrow> \<lparr>pbDirectory = ResolvePath defaultDirectory p, pbConfigArrayBase = defaultDirectory, pbBasePathScoped = True\<rparr>
                 | None \<Rightarrow> path_base defaultDirectory))"

definition configEntryBaseDirectory :: "(string \<Rightarrow> string \<Rightarrow> string) \<Rightarrow> ConfigEntry \<Rightarrow> string \<Rightarrow> string" where
  "configEntryBaseDirectory ResolvePath entry defaultDirectory = pbDirectory (configEntryPathOrigin ResolvePath entry defaultDirectory)"

definition ConfigWithResolvedBasePaths ::
  "path_env \<Rightarrow> (string \<Rightarrow> string \<Rightarrow> string) \<Rightarrow> ConfigEntry list \<Rightarrow> string \<Rightarrow> ConfigEntry list" where
  "ConfigWithResolvedBasePaths E ResolvePath config configArrayBase =
     (if \<not> list_ex (\<lambda>entry. BasePath entry \<noteq> None \<and> authoredPathBase entry = None) config then config
      else (let root = NormalizePath E configArrayBase
            in map (\<lambda>entry.
                 case BasePath entry of
                   None \<Rightarrow> entry
                 | Some p \<Rightarrow>
                     if authoredPathBase entry \<noteq> None then entry
                     else entry\<lparr>authoredPathBase := Some \<lparr>pbDirectory = ResolvePath root p, pbConfigArrayBase = root,
                                                           pbBasePathScoped = True\<rparr>\<rparr>) config))"

definition configNeedsTargetResolver :: "ConfigEntry list \<Rightarrow> bool" where
  "configNeedsTargetResolver config =
     list_ex (\<lambda>entry. BasePath entry \<noteq> None \<or> authoredPathBase entry \<noteq> None \<or> collectedGitignore entry \<noteq> None) config"

definition isGlobalIgnoreEntry :: "ConfigEntry \<Rightarrow> bool" where
  "isGlobalIgnoreEntry entry =
     (Files entry = None \<and> FilePatternGroups entry = None \<and> Rules entry = None \<and> Plugins entry = None \<and>
      entrySettings entry = None \<and> entryLanguageOptions entry = None \<and> length (Ignores entry) > 0)"

text \<open>The elements of a slice that may be nil.\<close>

definition elems :: "'a list option \<Rightarrow> 'a list" where
  "elems xs = (case xs of None \<Rightarrow> [] | Some ys \<Rightarrow> ys)"

definition hasFileSelectors :: "ConfigEntry \<Rightarrow> bool" where
  "hasFileSelectors entry = (length (elems (Files entry)) > 0 \<or> length (elems (FilePatternGroups entry)) > 0)"

fun extract_ignores :: "path_env \<Rightarrow> IgnorePattern list \<Rightarrow> ConfigEntry list \<Rightarrow> IgnorePattern list" where
  "extract_ignores E ignores [] = ignores"
| "extract_ignores E ignores (entry # config) =
     (if \<not> isGlobalIgnoreEntry entry then extract_ignores E ignores config
      else (let entryIgnores = (case collectedGitignore entry of
                                  Some g \<Rightarrow> gitIgnores g
                                | None \<Rightarrow> ParseIgnorePatterns E (Ignores entry))
            in if length entryIgnores = 0 then extract_ignores E ignores config
               else if length ignores = 0 then extract_ignores E entryIgnores config
               else extract_ignores E (ignores @ entryIgnores) config))"

definition extractConfigIgnores :: "path_env \<Rightarrow> ConfigEntry list \<Rightarrow> IgnorePattern list" where
  "extractConfigIgnores E config = extract_ignores E [] config"

section \<open>Directories of ignored files\<close>

definition ignoreDirectoryPath :: "path_env \<Rightarrow> string \<Rightarrow> string \<Rightarrow> string option" where
  "ignoreDirectoryPath E filePath cwd =
     (let dirPath = (if cwd \<noteq> [] then normalizePath E (GetDirectoryPath E filePath) cwd else GetDirectoryPath E filePath);
          dirPath = trim_suffix (unix_path dirPath) ''/''
      in if dirPath = [] \<or> dirPath = ''.'' then None else Some dirPath)"

text \<open>The loop over the three directories; \<open>seen\<close> are those already passed (\<open>repeatedMatchDirectory\<close>).\<close>

fun directory_within :: "path_env \<Rightarrow> string \<Rightarrow> IgnorePattern \<Rightarrow> string list \<Rightarrow> string list \<Rightarrow> string option" where
  "directory_within E filePath p seen [] = None"
| "directory_within E filePath p seen (d # ds) =
     (if d = [] \<or> d \<in> set seen then directory_within E filePath p (seen @ [d]) ds
      else (case ignoreDirectoryPath E filePath d of
              None \<Rightarrow> directory_within E filePath p (seen @ [d]) ds
            | Some dirPath \<Rightarrow>
                (let dirPath = (if pathEscapesCwd E dirPath \<and> CaseInsensitive p
                                then trim_suffix (unix_path (normalizePathWithCaseSensitivity E (GetDirectoryPath E filePath) d False)) ''/''
                                else dirPath)
                 in if \<not> pathEscapesCwd E dirPath then Some dirPath else directory_within E filePath p (seen @ [d]) ds)))"

definition ignoreDirectoryPathForPattern :: "path_env \<Rightarrow> string \<Rightarrow> string \<Rightarrow> IgnorePattern \<Rightarrow> string option" where
  "ignoreDirectoryPathForPattern E filePath defaultDirectory p =
     directory_within E filePath p [] (patternMatchDirectories p defaultDirectory)"

definition isDirBlockedByIgnores :: "path_env \<Rightarrow> string \<Rightarrow> IgnorePattern list \<Rightarrow> string \<Rightarrow> bool" where
  "isDirBlockedByIgnores E filePath ps cwd =
     (if hasPatternMatchDirectory ps
      then list_ex (\<lambda>p. \<not> (igNegated p \<or> igKind p \<noteq> dirAbsoluteBlock) \<and>
             (case ignoreDirectoryPathForPattern E filePath cwd p of
                None \<Rightarrow> False | Some dirPath \<Rightarrow> directoryPatternAbsolutelyBlocks E p dirPath)) ps
      else (case ignoreDirectoryPath E filePath cwd of
              None \<Rightarrow> False | Some dirPath \<Rightarrow> isDirAbsolutelyBlocked E dirPath ps))"

definition IsFileIgnored_direct :: "path_env \<Rightarrow> ConfigEntry list \<Rightarrow> string \<Rightarrow> string \<Rightarrow> bool" where
  "IsFileIgnored_direct E config filePath cwd =
     (let ps = extractConfigIgnores E config
      in if length ps = 0 then False else isDirBlockedByIgnores E filePath ps cwd \<or> isFileIgnored E filePath ps cwd)"

text \<open>
  \<open>publishOnceCache\<close>: a map of completely initialized values; \<open>getOrInit\<close> publishes the value of the first initializer
  of a key and answers with the published one ever after.
\<close>

type_synonym ('k, 'v) publishOnceCache = "('k \<times> 'v) list"

definition getOrInit :: "'k \<Rightarrow> 'v \<Rightarrow> ('k, 'v) publishOnceCache \<Rightarrow> 'v \<times> ('k, 'v) publishOnceCache" where
  "getOrInit key candidate cache =
     (case map_of cache key of Some v \<Rightarrow> (v, cache) | None \<Rightarrow> (candidate, al_update key candidate cache))"

record directoryBlockMatcher =
  dbPatterns :: "IgnorePattern list"
  dbCwd :: string
  dbResults :: "(string, bool) publishOnceCache"

definition newDirectoryBlockMatcher :: "IgnorePattern list \<Rightarrow> string \<Rightarrow> directoryBlockMatcher option" where
  "newDirectoryBlockMatcher ps cwd = (if length ps = 0 then None else Some \<lparr>dbPatterns = ps, dbCwd = cwd, dbResults = []\<rparr>)"

definition blocksFileDirectory :: "path_env \<Rightarrow> string \<Rightarrow> directoryBlockMatcher option \<Rightarrow> bool \<times> directoryBlockMatcher option" where
  "blocksFileDirectory E filePath matcher =
     (case matcher of
        None \<Rightarrow> (False, None)
      | Some m \<Rightarrow>
          (case getOrInit (GetDirectoryPath E filePath) (isDirBlockedByIgnores E filePath (dbPatterns m) (dbCwd m)) (dbResults m) of
             (blocked, results) \<Rightarrow> (blocked, Some (m\<lparr>dbResults := results\<rparr>))))"

section \<open>Selectors\<close>

definition matchesPositive :: "path_env \<Rightarrow> string \<Rightarrow> string \<Rightarrow> string \<Rightarrow> bool" where
  "matchesPositive E original cwd pattern =
     (case normalizedPaths E original cwd of
        (normalizedPath, unixPath) \<Rightarrow>
          (let normalizedPattern = normalizePattern E pattern
           in MatchGlob E normalizedPattern normalizedPath \<or>
              normalizedPath \<noteq> original \<and> MatchGlob E normalizedPattern original \<or>
              unixPath \<noteq> normalizedPath \<and> MatchGlob E normalizedPattern unixPath))"

fun strip_negations :: "bool \<Rightarrow> string \<Rightarrow> bool \<times> string" where
  "strip_negations negated (c # pattern) = (if c = CHR ''!'' then strip_negations (\<not> negated) pattern else (negated, c # pattern))"
| "strip_negations negated [] = (negated, [])"

definition matchesSingle :: "path_env \<Rightarrow> string \<Rightarrow> string \<Rightarrow> string \<Rightarrow> bool" where
  "matchesSingle E original cwd pattern =
     (case strip_negations False pattern of
        (negated, pattern) \<Rightarrow>
          (let matched = matchesPositive E original cwd pattern in if negated then \<not> matched else matched))"

definition matchesAny :: "path_env \<Rightarrow> string \<Rightarrow> string \<Rightarrow> string list \<Rightarrow> bool" where
  "matchesAny E original cwd patterns = list_ex (matchesSingle E original cwd) patterns"

definition isFileMatched :: "path_env \<Rightarrow> string \<Rightarrow> string list \<Rightarrow> string \<Rightarrow> bool" where
  "isFileMatched E filePath patterns cwd = matchesAny E filePath cwd patterns"

definition matchesConfigEntry :: "path_env \<Rightarrow> string \<Rightarrow> string \<Rightarrow> ConfigEntry \<Rightarrow> bool" where
  "matchesConfigEntry E original cwd entry =
     (matchesAny E original cwd (elems (Files entry)) \<or>
      list_ex (\<lambda>group. list_all (matchesSingle E original cwd) group) (elems (FilePatternGroups entry)))"

definition isFileMatchedByConfigEntry :: "path_env \<Rightarrow> string \<Rightarrow> ConfigEntry \<Rightarrow> string \<Rightarrow> bool" where
  "isFileMatchedByConfigEntry E filePath entry cwd = matchesConfigEntry E filePath cwd entry"

definition DefaultLintFileExtensions :: "string list" where
  "DefaultLintFileExtensions = [''.js'', ''.mjs'', ''.cjs'', ''.jsx'', ''.ts'', ''.tsx'', ''.mts'', ''.cts'']"

text \<open>\<open>path.Ext\<close>: the suffix from the last dot of the last segment.\<close>

definition path_Ext :: "string \<Rightarrow> string" where
  "path_Ext path =
     (let tail = takeWhile (\<lambda>c. c \<noteq> CHR ''.'' \<and> c \<noteq> sl) (rev path);
          rest = dropWhile (\<lambda>c. c \<noteq> CHR ''.'' \<and> c \<noteq> sl) (rev path)
      in case rest of c # _ \<Rightarrow> if c = CHR ''.'' then CHR ''.'' # rev tail else [] | [] \<Rightarrow> [])"

definition IsSupportedLintFile :: "path_env \<Rightarrow> string \<Rightarrow> bool" where
  "IsSupportedLintFile E filePath = (ToLower E (path_Ext filePath) \<in> set DefaultLintFileExtensions)"

definition isDefaultLintFile :: "string \<Rightarrow> bool" where
  "isDefaultLintFile filePath = (path_Ext filePath \<in> set DefaultLintFileExtensions)"

definition isFileSelectedByConfig_direct :: "path_env \<Rightarrow> ConfigEntry list \<Rightarrow> string \<Rightarrow> string \<Rightarrow> bool" where
  "isFileSelectedByConfig_direct E config filePath configDir =
     (isDefaultLintFile filePath \<or>
      list_ex (\<lambda>entry. \<not> isGlobalIgnoreEntry entry \<and> hasFileSelectors entry \<and>
                 isFileMatchedByConfigEntry E filePath entry configDir \<and>
                 \<not> isFileIgnored E filePath (ParseIgnorePatterns E (Ignores entry)) configDir) config)"

section \<open>The set of entries that apply\<close>

text \<open>The first 64 indices are a word, the others bits of a byte string; \<^term>\<open>None\<close> is an index out of range.\<close>

record configMatchKey =
  keyFirst :: "64 word"
  keyTail :: "8 word list"

definition key_add :: "nat \<Rightarrow> configMatchKey \<Rightarrow> configMatchKey option" where
  "key_add index key =
     (if index < 64 then Some (key\<lparr>keyFirst := keyFirst key OR push_bit index 1\<rparr>)
      else (let tailIndex = index - 64; i = tailIndex div 8
            in if i < length (keyTail key)
               then Some (key\<lparr>keyTail := (keyTail key)[i := keyTail key ! i OR push_bit (tailIndex mod 8) 1]\<rparr>)
               else None))"

definition key_contains :: "configMatchKey \<Rightarrow> nat \<Rightarrow> bool option" where
  "key_contains key index =
     (if index < 64 then Some (keyFirst key AND push_bit index 1 \<noteq> 0)
      else (let tailIndex = index - 64; i = tailIndex div 8
            in if i < length (keyTail key) then Some (keyTail key ! i AND push_bit (tailIndex mod 8) 1 \<noteq> 0) else None))"

text \<open>The key and the tail buffer before the loop, for a configuration of the given length.\<close>

definition empty_key :: "nat \<Rightarrow> configMatchKey" where
  "empty_key n = \<lparr>keyFirst = 0, keyTail = (if n > 64 then replicate ((n - 64 + 7) div 8) 0 else [])\<rparr>"

definition entryIgnorePatternsAt :: "path_env \<Rightarrow> IgnorePattern list list option \<Rightarrow> nat \<Rightarrow> ConfigEntry \<Rightarrow> IgnorePattern list option" where
  "entryIgnorePatternsAt E patterns index entry =
     (case patterns of
        Some pss \<Rightarrow> if index < length pss then Some (pss ! index) else None
      | None \<Rightarrow> Some (ParseIgnorePatterns E (Ignores entry)))"

fun match_entries ::
  "path_env \<Rightarrow> string \<Rightarrow> string \<Rightarrow> IgnorePattern list list option \<Rightarrow> nat \<Rightarrow> ConfigEntry list \<Rightarrow> bool \<times> bool \<times> configMatchKey \<Rightarrow>
   (bool \<times> bool \<times> configMatchKey) option" where
  "match_entries E filePath cwd patterns index [] st = Some st"
| "match_entries E filePath cwd patterns index (entry # config) (selected, matched, key) =
     (if isGlobalIgnoreEntry entry then match_entries E filePath cwd patterns (Suc index) config (selected, matched, key)
      else if hasFileSelectors entry \<and> \<not> matchesConfigEntry E filePath cwd entry
      then match_entries E filePath cwd patterns (Suc index) config (selected, matched, key)
      else (case entryIgnorePatternsAt E patterns index entry of
              None \<Rightarrow> None
            | Some ignores \<Rightarrow>
                if length ignores > 0 \<and> isFileIgnored E filePath ignores cwd
                then match_entries E filePath cwd patterns (Suc index) config (selected, matched, key)
                else (case key_add index key of
                        None \<Rightarrow> None
                      | Some key \<Rightarrow>
                          match_entries E filePath cwd patterns (Suc index) config
                            (if hasFileSelectors entry then True else selected, True, key))))"

definition directory_blocked ::
  "path_env \<Rightarrow> string \<Rightarrow> string \<Rightarrow> IgnorePattern list \<Rightarrow> directoryBlockMatcher option \<Rightarrow> bool \<times> directoryBlockMatcher option" where
  "directory_blocked E filePath cwd globalIgnorePatterns directoryBlocks =
     (if length globalIgnorePatterns > 0
      then (if directoryBlocks = None then (isDirBlockedByIgnores E filePath globalIgnorePatterns cwd, None)
            else blocksFileDirectory E filePath directoryBlocks)
      else (False, directoryBlocks))"

definition matchConfigEntries ::
  "path_env \<Rightarrow> ConfigEntry list \<Rightarrow> string \<Rightarrow> string \<Rightarrow> IgnorePattern list \<Rightarrow> IgnorePattern list list option \<Rightarrow>
   directoryBlockMatcher option \<Rightarrow> (configMatchKey option \<times> directoryBlockMatcher option) option" where
  "matchConfigEntries E config filePath cwd globalIgnorePatterns entryIgnorePatterns directoryBlocks =
     (case directory_blocked E filePath cwd globalIgnorePatterns directoryBlocks of
        (blocked, directoryBlocks) \<Rightarrow>
          if blocked then Some (None, directoryBlocks)
          else if length globalIgnorePatterns > 0 \<and> isFileIgnored E filePath globalIgnorePatterns cwd then Some (None, directoryBlocks)
          else (case match_entries E filePath cwd entryIgnorePatterns 0 config (isDefaultLintFile filePath, False, empty_key (length config)) of
                  None \<Rightarrow> None
                | Some (selected, matched, key) \<Rightarrow> Some (if \<not> selected \<or> \<not> matched then None else Some key, directoryBlocks)))"

section \<open>Sets of indices\<close>

fun add_all :: "(nat \<Rightarrow> 'k \<Rightarrow> 'k option) \<Rightarrow> nat list \<Rightarrow> 'k \<Rightarrow> 'k option" where
  "add_all add [] k = Some k"
| "add_all add (i # is) k = (case add i k of None \<Rightarrow> None | Some k \<Rightarrow> add_all add is k)"

text \<open>What the matching and the merging of entries rely on of a key.\<close>

locale index_set =
  fixes capacity :: nat and empty :: 'k and valid :: "'k \<Rightarrow> bool"
    and add :: "nat \<Rightarrow> 'k \<Rightarrow> 'k option" and contains :: "'k \<Rightarrow> nat \<Rightarrow> bool option"
  assumes valid_empty: "valid empty"
    and contains_empty: "i < capacity \<Longrightarrow> contains empty i = Some False"
    and contains_total: "valid k \<Longrightarrow> i < capacity \<Longrightarrow> contains k i \<noteq> None"
    and add_valid: "valid k \<Longrightarrow> i < capacity \<Longrightarrow> \<exists>k'. add i k = Some k' \<and> valid k'"
    and contains_add: "valid k \<Longrightarrow> i < capacity \<Longrightarrow> j < capacity \<Longrightarrow> add i k = Some k' \<Longrightarrow>
      contains k' j = (if j = i then Some True else contains k j)"
begin

lemma add_all_valid:
  assumes "valid k" and "set is \<subseteq> {..<capacity}"
  shows "\<exists>k'. add_all add is k = Some k' \<and> valid k' \<and>
    (\<forall>j < capacity. contains k' j = (if j \<in> set is then Some True else contains k j))"
  using assms
proof (induction "is" arbitrary: k)
  case (Cons i "is")
  then obtain k1 where k1: "add i k = Some k1" "valid k1" using add_valid [of k i] by auto
  then obtain k' where "add_all add is k1 = Some k'" "valid k'"
    "\<forall>j < capacity. contains k' j = (if j \<in> set is then Some True else contains k1 j)"
    using Cons.IH [OF k1(2)] Cons.prems(2) by auto
  then show ?case using k1(1) contains_add [OF Cons.prems(1) _ _ k1(1)] Cons.prems(2) by auto
qed simp

lemma add_all_contains:
  assumes "set is \<subseteq> {..<capacity}"
  shows "\<exists>k. add_all add is empty = Some k \<and> valid k \<and> (\<forall>j < capacity. contains k j = Some (j \<in> set is))"
  using add_all_valid [OF valid_empty assms] by (auto simp: contains_empty split: if_splits)

end

definition key_valid :: "nat \<Rightarrow> configMatchKey \<Rightarrow> bool" where
  "key_valid n key \<longleftrightarrow> length (keyTail key) = (n - 64 + 7) div 8"

lemma tail_in_range: "key_valid n key \<Longrightarrow> i < n \<Longrightarrow> 64 \<le> i \<Longrightarrow> (i - 64) div 8 < length (keyTail key)"
  unfolding key_valid_def by linarith

lemma key_contains_bit:
  assumes "key_valid n key" and "i < n"
  shows "key_contains key i = Some (if i < 64 then bit (keyFirst key) i else bit (keyTail key ! ((i - 64) div 8)) ((i - 64) mod 8))"
  using tail_in_range [OF assms] by (auto simp: key_contains_def Let_def and_exp_iff)

lemma key_add_valid:
  assumes "key_valid n key" and "i < n"
  shows "\<exists>key'. key_add i key = Some key' \<and> key_valid n key'"
  using assms tail_in_range [OF assms] by (simp add: key_add_def Let_def key_valid_def)

lemma div_mod_8_eq: "i div 8 = j div 8 \<Longrightarrow> i mod 8 = j mod 8 \<Longrightarrow> i = (j :: nat)"
  by (metis div_mult_mod_eq)

lemma key_contains_add:
  assumes "key_valid n key" and "i < n" and "j < n" and "key_add i key = Some key'"
  shows "key_contains key' j = (if j = i then Some True else key_contains key j)"
proof -
  have v: "key_valid n key'" using key_add_valid [OF assms(1,2)] assms(4) by auto
  show ?thesis
  proof (cases "i < 64")
    case True
    then have "key' = key\<lparr>keyFirst := keyFirst key OR push_bit i 1\<rparr>" using assms(4) by (simp add: key_add_def)
    then show ?thesis using True unfolding key_contains_bit [OF v assms(3)] key_contains_bit [OF assms(1,3)] by (auto simp: bit_simps)
  next
    case False
    let ?i = "(i - 64) div 8"
    have r: "?i < length (keyTail key)" using tail_in_range [OF assms(1,2)] False by simp
    then have key': "key' = key\<lparr>keyTail := (keyTail key)[?i := keyTail key ! ?i OR push_bit ((i - 64) mod 8) 1]\<rparr>"
      using assms(4) False by (simp add: key_add_def Let_def)
    show ?thesis
    proof (cases "j < 64 \<or> (j - 64) div 8 \<noteq> ?i")
      case True
      then show ?thesis using False key' unfolding key_contains_bit [OF v assms(3)] key_contains_bit [OF assms(1,3)]
        by (auto simp: nth_list_update)
    next
      case j: False
      then have "j = i \<longleftrightarrow> (j - 64) mod 8 = (i - 64) mod 8" using False div_mod_8_eq [of "j - 64" "i - 64"] by auto
      then show ?thesis using False j key' r unfolding key_contains_bit [OF v assms(3)] key_contains_bit [OF assms(1,3)]
        by (auto simp: bit_simps)
    qed
  qed
qed

interpretation match_key: index_set n "empty_key n" "key_valid n" key_add key_contains for n
proof unfold_locales
  show v: "key_valid n (empty_key n)" by (auto simp: key_valid_def empty_key_def)
  show "key_contains (empty_key n) i = Some False" if "i < n" for i
    using key_contains_bit [OF v that] tail_in_range [OF v that] that by (auto simp: empty_key_def split: if_splits)
  show "key_contains key i \<noteq> None" if "key_valid n key" "i < n" for key i using key_contains_bit [OF that] by simp
  show "\<exists>key'. key_add i key = Some key' \<and> key_valid n key'" if "key_valid n key" "i < n" for key i
    by (rule key_add_valid [OF that])
  show "key_contains key' j = (if j = i then Some True else key_contains key j)"
    if "key_valid n key" "i < n" "j < n" "key_add i key = Some key'" for key i j key'
    by (rule key_contains_add [OF that])
qed

section \<open>Which entries apply\<close>

definition entry_applies :: "path_env \<Rightarrow> string \<Rightarrow> string \<Rightarrow> ConfigEntry \<Rightarrow> bool" where
  "entry_applies E filePath cwd entry \<longleftrightarrow>
     \<not> isGlobalIgnoreEntry entry \<and> (hasFileSelectors entry \<longrightarrow> matchesConfigEntry E filePath cwd entry) \<and>
     \<not> isFileIgnored E filePath (ParseIgnorePatterns E (Ignores entry)) cwd"

fun applying :: "path_env \<Rightarrow> string \<Rightarrow> string \<Rightarrow> nat \<Rightarrow> ConfigEntry list \<Rightarrow> nat list" where
  "applying E filePath cwd index [] = []"
| "applying E filePath cwd index (entry # config) =
     (if entry_applies E filePath cwd entry then index # applying E filePath cwd (Suc index) config
      else applying E filePath cwd (Suc index) config)"

text \<open>Precomputed ignore patterns of the entries, if any, are those of the entries.\<close>

definition patterns_of :: "path_env \<Rightarrow> ConfigEntry list \<Rightarrow> IgnorePattern list list option \<Rightarrow> bool" where
  "patterns_of E config patterns \<longleftrightarrow> patterns = None \<or> patterns = Some (map (\<lambda>entry. ParseIgnorePatterns E (Ignores entry)) config)"

lemma isFileIgnored_Nil [simp]: "\<not> isFileIgnored E filePath [] cwd"
  by (simp add: isFileIgnored_def applyIgnorePatterns_def)

lemma in_applying: "i \<in> set (applying E filePath cwd n config) \<longleftrightarrow> n \<le> i \<and> i < n + length config \<and> entry_applies E filePath cwd (config ! (i - n))"
proof (induction config arbitrary: n)
  case (Cons entry config)
  show ?case
  proof (cases "i = n")
    case False
    then have "Suc n \<le> i \<Longrightarrow> (entry # config) ! (i - n) = config ! (i - Suc n)" by (metis Suc_diff_Suc Suc_le_lessD nth_Cons_Suc)
    then show ?thesis using False Cons.IH [of "Suc n"] by auto
  qed (use Cons.IH [of "Suc n"] in auto)
qed simp

lemma match_entries_applying:
  assumes "\<forall>k < length config. entryIgnorePatternsAt E patterns (n + k) (config ! k) = Some (ParseIgnorePatterns E (Ignores (config ! k)))"
  shows "match_entries E filePath cwd patterns n config (selected, matched, key) =
    map_option (\<lambda>key. (selected \<or> (\<exists>entry \<in> set config. entry_applies E filePath cwd entry \<and> hasFileSelectors entry),
                       matched \<or> (\<exists>entry \<in> set config. entry_applies E filePath cwd entry), key))
      (add_all key_add (applying E filePath cwd n config) key)"
  using assms
proof (induction config arbitrary: n selected matched key)
  case (Cons entry config)
  have here: "entryIgnorePatternsAt E patterns n entry = Some (ParseIgnorePatterns E (Ignores entry))"
    using Cons.prems [rule_format, of 0] by simp
  have rest: "\<forall>k < length config. entryIgnorePatternsAt E patterns (Suc n + k) (config ! k) = Some (ParseIgnorePatterns E (Ignores (config ! k)))"
    using Cons.prems [rule_format, of "Suc k" for k] by simp
  show ?case
  proof (cases "entry_applies E filePath cwd entry")
    case True
    then show ?thesis using Cons.IH [OF rest] here
      by (auto simp: entry_applies_def split: option.split)
  next
    case False
    have "isFileIgnored E filePath (ParseIgnorePatterns E (Ignores entry)) cwd \<Longrightarrow> ParseIgnorePatterns E (Ignores entry) \<noteq> []" by auto
    then have "match_entries E filePath cwd patterns n (entry # config) (selected, matched, key) =
      match_entries E filePath cwd patterns (Suc n) config (selected, matched, key)"
      using False here by (auto simp: entry_applies_def)
    then show ?thesis using Cons.IH [OF rest] False by simp
  qed
qed simp

lemma patterns_of_at:
  "patterns_of E config patterns \<Longrightarrow> k < length config \<Longrightarrow>
    entryIgnorePatternsAt E patterns k (config ! k) = Some (ParseIgnorePatterns E (Ignores (config ! k)))"
  by (auto simp: patterns_of_def entryIgnorePatternsAt_def)

lemma match_entries_key:
  assumes "patterns_of E config patterns"
  shows "\<exists>key. match_entries E filePath cwd patterns 0 config (selected, False, empty_key (length config)) =
      Some (selected \<or> (\<exists>entry \<in> set config. entry_applies E filePath cwd entry \<and> hasFileSelectors entry),
            \<exists>entry \<in> set config. entry_applies E filePath cwd entry, key) \<and>
    (\<forall>i < length config. key_contains key i = Some (entry_applies E filePath cwd (config ! i)))"
proof -
  have "set (applying E filePath cwd 0 config) \<subseteq> {..<length config}" by (auto simp: in_applying)
  from match_key.add_all_contains [OF this] obtain key where
    "add_all key_add (applying E filePath cwd 0 config) (empty_key (length config)) = Some key"
    "\<forall>i < length config. key_contains key i = Some (entry_applies E filePath cwd (config ! i))"
    by (auto simp: in_applying)
  then show ?thesis using match_entries_applying [of config E patterns 0] patterns_of_at [OF assms] by simp
qed

section \<open>The cache of directory blocks\<close>

definition blocks_ok :: "path_env \<Rightarrow> IgnorePattern list \<Rightarrow> string \<Rightarrow> directoryBlockMatcher option \<Rightarrow> bool" where
  "blocks_ok E ps cwd blocks \<longleftrightarrow>
     (case blocks of
        None \<Rightarrow> True
      | Some m \<Rightarrow> dbPatterns m = ps \<and> dbCwd m = cwd \<and>
          (\<forall>filePath b. map_of (dbResults m) (GetDirectoryPath E filePath) = Some b \<longrightarrow> b = isDirBlockedByIgnores E filePath ps cwd))"

text \<open>The decision depends on the parent directory of the file only.\<close>

lemma ignoreDirectoryPath_cong:
  "GetDirectoryPath E f = GetDirectoryPath E g \<Longrightarrow> ignoreDirectoryPath E f d = ignoreDirectoryPath E g d"
  by (simp add: ignoreDirectoryPath_def)

lemma directory_within_cong:
  assumes "GetDirectoryPath E f = GetDirectoryPath E g"
  shows "directory_within E f p seen ds = directory_within E g p seen ds"
  by (induction ds arbitrary: seen) (simp_all add: assms ignoreDirectoryPath_cong [OF assms] Let_def split: option.split)

lemma isDirBlocked_cong:
  assumes "GetDirectoryPath E f = GetDirectoryPath E g"
  shows "isDirBlockedByIgnores E f ps cwd = isDirBlockedByIgnores E g ps cwd"
  unfolding isDirBlockedByIgnores_def ignoreDirectoryPathForPattern_def ignoreDirectoryPath_cong [OF assms] directory_within_cong [OF assms]
  by (rule refl)

lemma blocks_okI:
  assumes "dbPatterns m = ps" and "dbCwd m = cwd"
    and "\<And>f b. map_of (dbResults m) (GetDirectoryPath E f) = Some b \<Longrightarrow> b = isDirBlockedByIgnores E f ps cwd"
  shows "blocks_ok E ps cwd (Some m)"
  unfolding blocks_ok_def option.case by (intro conjI allI impI) (rule assms, assumption?)+

lemma newDirectoryBlockMatcher_ok: "blocks_ok E ps cwd (newDirectoryBlockMatcher ps cwd)"
  by (simp add: blocks_ok_def newDirectoryBlockMatcher_def)

lemma directory_blocked_ok:
  assumes "blocks_ok E ps cwd blocks" and "directory_blocked E filePath cwd ps blocks = (blocked, blocks')"
  shows "blocks_ok E ps cwd blocks' \<and> (blocked \<longleftrightarrow> ps \<noteq> [] \<and> isDirBlockedByIgnores E filePath ps cwd)"
proof (cases "ps = [] \<or> blocks = None")
  case False
  then obtain m where m: "blocks = Some m" by auto
  then have ok: "dbPatterns m = ps" "dbCwd m = cwd"
    "\<And>f b. map_of (dbResults m) (GetDirectoryPath E f) = Some b \<Longrightarrow> b = isDirBlockedByIgnores E f ps cwd"
    using assms(1) by (auto simp: blocks_ok_def)
  show ?thesis
  proof (cases "map_of (dbResults m) (GetDirectoryPath E filePath)")
    case None
    let ?m = "m\<lparr>dbResults := al_update (GetDirectoryPath E filePath) (isDirBlockedByIgnores E filePath ps cwd) (dbResults m)\<rparr>"
    have new: "blocked = isDirBlockedByIgnores E filePath ps cwd" "blocks' = Some ?m"
      using None assms(2) False m ok(1,2) by (auto simp: directory_blocked_def blocksFileDirectory_def getOrInit_def)
    have "blocks_ok E ps cwd (Some ?m)"
    proof (rule blocks_okI)
      fix f b
      assume e: "map_of (dbResults ?m) (GetDirectoryPath E f) = Some b"
      show "b = isDirBlockedByIgnores E f ps cwd"
      proof (cases "GetDirectoryPath E f = GetDirectoryPath E filePath")
        case True
        then show ?thesis using e isDirBlocked_cong [OF True] by simp
      next
        case False
        then have "map_of (dbResults m) (GetDirectoryPath E f) = Some b" using e by simp
        then show ?thesis by (rule ok(3))
      qed
    qed (simp_all add: ok(1,2))
    then have "blocks_ok E ps cwd blocks'" using new(2) by simp
    then show ?thesis using new(1) False by simp
  next
    case (Some b)
    then have "blocked = b" "blocks' = blocks" using assms(2) False m by (auto simp: directory_blocked_def blocksFileDirectory_def getOrInit_def)
    then show ?thesis using assms(1) False ok(3) [OF Some] by simp
  qed
qed (use assms in \<open>auto simp: directory_blocked_def split: if_splits\<close>)

section \<open>Matching a file\<close>

text \<open>The file is ignored by the global patterns: its directory is blocked or the file itself is ignored.\<close>

definition globally_ignored :: "path_env \<Rightarrow> IgnorePattern list \<Rightarrow> string \<Rightarrow> string \<Rightarrow> bool" where
  "globally_ignored E ps filePath cwd \<longleftrightarrow> isDirBlockedByIgnores E filePath ps cwd \<or> isFileIgnored E filePath ps cwd"

lemma isDirBlockedByIgnores_Nil [simp]: "\<not> isDirBlockedByIgnores E filePath [] cwd"
  by (simp add: isDirBlockedByIgnores_def hasPatternMatchDirectory_def isDirAbsolutelyBlocked_def split: option.split)

lemma IsFileIgnored_direct_eq: "IsFileIgnored_direct E config filePath cwd \<longleftrightarrow> globally_ignored E (extractConfigIgnores E config) filePath cwd"
  by (cases "extractConfigIgnores E config") (simp_all add: IsFileIgnored_direct_def globally_ignored_def Let_def)

lemma isFileSelectedByConfig_direct_eq:
  "isFileSelectedByConfig_direct E config filePath cwd \<longleftrightarrow>
    isDefaultLintFile filePath \<or> (\<exists>entry \<in> set config. entry_applies E filePath cwd entry \<and> hasFileSelectors entry)"
  by (auto simp: isFileSelectedByConfig_direct_def entry_applies_def isFileMatchedByConfigEntry_def list_ex_iff)

definition file_unconfigured :: "path_env \<Rightarrow> ConfigEntry list \<Rightarrow> string \<Rightarrow> string \<Rightarrow> bool" where
  "file_unconfigured E config filePath cwd \<longleftrightarrow>
     IsFileIgnored_direct E config filePath cwd \<or> \<not> isFileSelectedByConfig_direct E config filePath cwd \<or>
     (\<forall>entry \<in> set config. \<not> entry_applies E filePath cwd entry)"

lemma matchConfigEntries_run:
  assumes "patterns_of E config patterns" and "blocks_ok E ignores cwd blocks" and "ignores = extractConfigIgnores E config"
  obtains key blocks' where "blocks_ok E ignores cwd blocks'"
    "matchConfigEntries E config filePath cwd ignores patterns blocks =
       Some (if file_unconfigured E config filePath cwd then None else Some key, blocks')"
    "\<forall>i < length config. key_contains key i = Some (entry_applies E filePath cwd (config ! i))"
proof -
  obtain blocked blocks' where b: "directory_blocked E filePath cwd ignores blocks = (blocked, blocks')" by fastforce
  note ok = directory_blocked_ok [OF assms(2) b]
  have ign: "IsFileIgnored_direct E config filePath cwd \<longleftrightarrow> blocked \<or> ignores \<noteq> [] \<and> isFileIgnored E filePath ignores cwd"
    using ok assms(3) by (cases "ignores = []") (auto simp: IsFileIgnored_direct_eq globally_ignored_def)
  obtain key where key: "match_entries E filePath cwd patterns 0 config (isDefaultLintFile filePath, False, empty_key (length config)) =
      Some (isFileSelectedByConfig_direct E config filePath cwd, \<exists>entry \<in> set config. entry_applies E filePath cwd entry, key)"
    "\<forall>i < length config. key_contains key i = Some (entry_applies E filePath cwd (config ! i))"
    using match_entries_key [OF assms(1)] unfolding isFileSelectedByConfig_direct_eq by blast
  have "matchConfigEntries E config filePath cwd ignores patterns blocks =
      Some (if file_unconfigured E config filePath cwd then None else Some key, blocks')"
    using ign b key(1) by (auto simp: matchConfigEntries_def file_unconfigured_def)
  then show ?thesis using that ok key(2) by blast
qed

text \<open>
  Claim C27.  Matching a file against a configuration never panics, whatever the number of entries, and answers the same
  with and without the cache of directory decisions and precomputed patterns.  It
  selects nothing exactly when the file is globally ignored, no selector and no default extension selects it, or no entry
  applies; otherwise the key, a 64-bit word and a byte string, contains an index exactly when that entry applies: it
  is not a global ignore entry, its selectors match, and its own ignores do not.
\<close>

theorem matchConfigEntries_spec:
  assumes "patterns_of E config patterns" and "blocks_ok E ignores cwd blocks" and "ignores = extractConfigIgnores E config"
  shows "\<exists>answer blocks'. matchConfigEntries E config filePath cwd ignores patterns blocks = Some (answer, blocks') \<and>
    blocks_ok E ignores cwd blocks' \<and>
    (answer = None \<longleftrightarrow> IsFileIgnored_direct E config filePath cwd \<or> \<not> isFileSelectedByConfig_direct E config filePath cwd \<or>
       (\<forall>entry \<in> set config. \<not> entry_applies E filePath cwd entry)) \<and>
    (\<forall>key. answer = Some key \<longrightarrow> (\<forall>i < length config. key_contains key i = Some (entry_applies E filePath cwd (config ! i))))"
proof -
  obtain key blocks' where run: "blocks_ok E ignores cwd blocks'"
    "matchConfigEntries E config filePath cwd ignores patterns blocks =
       Some (if file_unconfigured E config filePath cwd then None else Some key, blocks')"
    "\<forall>i < length config. key_contains key i = Some (entry_applies E filePath cwd (config ! i))"
    by (rule matchConfigEntries_run [OF assms])
  show ?thesis
    by (intro exI conjI, rule run(2), rule run(1)) (use run(3) in \<open>simp_all add: file_unconfigured_def split: if_splits\<close>)
qed

text \<open>A configuration with a global ignore entry and an entry for one file.\<close>

definition no_entry :: ConfigEntry where
  "no_entry = \<lparr>entryName = [], BasePath = None, Files = None, FilePatternGroups = None, Ignores = [], entryLanguageOptions = None,
     Rules = None, Plugins = None, entrySettings = None, collectedGitignore = None, authoredPathBase = None\<rparr>"

definition sample_config :: "ConfigEntry list" where
  "sample_config = [no_entry\<lparr>Ignores := [''gen/**/*'']\<rparr>, no_entry\<lparr>Files := Some [''keep.ts''], Rules := Some [(''no-var'', JStr ''warn'')]\<rparr>]"

lemmas config_eval =
  IsFileIgnored_direct_def extractConfigIgnores_def isDirBlockedByIgnores_def hasPatternMatchDirectory_def
  patternHasMatchDirectory_def ignoreDirectoryPath_def isDirAbsolutelyBlocked_def isFileIgnored_def applyIgnorePatterns_def
  normalizedPaths_def unix_path_def ignorePatternMatches_def isFileSelectedByConfig_direct_def isDefaultLintFile_def path_Ext_def
  DefaultLintFileExtensions_def entry_applies_def isGlobalIgnoreEntry_def hasFileSelectors_def elems_def matchesConfigEntry_def
  matchesAny_def matchesSingle_def matchesPositive_def no_entry_def sample_paths_def ParseIgnorePatterns_def
  ParseIgnorePattern_def normalizePattern_def has_prefix_def has_suffix_def trim_suffix_def Let_def

lemma sample_config_facts:
  "\<not> IsFileIgnored_direct sample_paths sample_config ''keep.ts'' []"
  "isFileSelectedByConfig_direct sample_paths sample_config ''keep.ts'' []"
  "\<not> entry_applies sample_paths ''keep.ts'' [] (sample_config ! 0)" "entry_applies sample_paths ''keep.ts'' [] (sample_config ! 1)"
  by (simp_all add: config_eval sample_config_def)

theorem matchConfigEntries_spec_witness:
  "\<exists>key. matchConfigEntries sample_paths sample_config ''keep.ts'' [] (extractConfigIgnores sample_paths sample_config) None None =
      Some (Some key, None) \<and> key_contains key 0 = Some False \<and> key_contains key 1 = Some True"
proof -
  have pre: "patterns_of sample_paths sample_config None" "blocks_ok sample_paths (extractConfigIgnores sample_paths sample_config) [] None"
    by (simp_all add: patterns_of_def blocks_ok_def)
  obtain answer blocks' where a:
    "matchConfigEntries sample_paths sample_config ''keep.ts'' [] (extractConfigIgnores sample_paths sample_config) None None = Some (answer, blocks')"
    "answer = None \<longleftrightarrow> IsFileIgnored_direct sample_paths sample_config ''keep.ts'' [] \<or>
       \<not> isFileSelectedByConfig_direct sample_paths sample_config ''keep.ts'' [] \<or>
       (\<forall>entry \<in> set sample_config. \<not> entry_applies sample_paths ''keep.ts'' [] entry)"
    "\<forall>key. answer = Some key \<longrightarrow> (\<forall>i < length sample_config. key_contains key i = Some (entry_applies sample_paths ''keep.ts'' [] (sample_config ! i)))"
    using matchConfigEntries_spec [OF pre refl, of "''keep.ts''"] by (elim exE conjE) (rule that)
  have "sample_config ! 1 \<in> set sample_config" by (simp add: sample_config_def)
  then obtain key where key: "answer = Some key" using a(2) sample_config_facts by blast
  have "blocks' = None" using a(1)
    by (auto simp: matchConfigEntries_def directory_blocked_def split: if_splits option.splits prod.splits)
  moreover have "length sample_config = 2" by (simp add: sample_config_def)
  ultimately show ?thesis using a key sample_config_facts by auto
qed

end
