(* ===== verification/Config_Value.thy ===== *)
theory Config_Value
  imports Config_Match Text "HOL-Library.Log_Nat"
begin

text \<open>
  Values of a configuration: numbers and severities, the settings of a rule, the validation of entries, the decoding
  of selectors (\<^verbatim>\<open>internal/config/config.go\<close>, \<^verbatim>\<open>internal/utils/utils.go\<close>), the declarations of bundled plugins
  (\<^verbatim>\<open>plugin_declarations.go\<close>) and the rules of the command line (\<^verbatim>\<open>cli_rules.go\<close>).

  A value that was decoded from JSON is a \<open>json\<close>; a number is a \<open>float64\<close>, so its literal is rounded.  An error keeps
  its format string and its operands.
\<close>

datatype config_error =
    CfgErrorf string "json list"
  | CfgWrapf string "json list" config_error
  | CfgUnmarshal json

section \<open>Numbers\<close>

fun digits_value :: "nat \<Rightarrow> string \<Rightarrow> nat" where
  "digits_value acc [] = acc"
| "digits_value acc (c # cs) = digits_value (10 * acc + (of_char c - 48)) cs"

text \<open>The exact value of a JSON number literal.\<close>

definition number_value :: "string \<Rightarrow> rat" where
  "number_value s =
     (let t = trim_prefix s ''-'';
          mantissa = takeWhile (\<lambda>c. c \<noteq> CHR ''e'' \<and> c \<noteq> CHR ''E'') t;
          exponent = drop (length mantissa + 1) t;
          whole = takeWhile (\<lambda>c. c \<noteq> CHR ''.'') mantissa;
          frac = drop (length whole + 1) mantissa;
          m = of_nat (digits_value 0 (whole @ frac)) / 10 ^ length frac;
          k = digits_value 0 (filter (\<lambda>c. c \<noteq> CHR ''+'' \<and> c \<noteq> CHR ''-'') exponent);
          v = (if has_prefix exponent ''-'' then m / 10 ^ k else m * 10 ^ k)
      in if has_prefix s ''-'' then - v else v)"

definition pow2 :: "int \<Rightarrow> rat" where
  "pow2 k = (if k \<ge> 0 then 2 ^ nat k else 1 / 2 ^ nat (- k))"

definition round_even :: "rat \<Rightarrow> int" where
  "round_even x =
     (let f = \<lfloor>x\<rfloor>; d = x - of_int f
      in if d < 1 / 2 then f else if d > 1 / 2 then f + 1 else if even f then f else f + 1)"

text \<open>The exponent of the greatest power of two that does not exceed a positive number.\<close>

definition log2_floor :: "rat \<Rightarrow> int" where
  "log2_floor x =
     (case quotient_of x of
        (p, q) \<Rightarrow> (let a = int (floorlog 2 (nat p)) - int (floorlog 2 (nat q)) in if pow2 a \<le> x then a else a - 1))"

text \<open>The nearest \<open>float64\<close>, ties to even: 53 bits, exponents down to that of the smallest subnormal number.\<close>

definition float64 :: "rat \<Rightarrow> rat" where
  "float64 x =
     (if x = 0 then 0
      else (let y = \<bar>x\<bar>; e = max (log2_floor y - 52) (- 1074); v = of_int (round_even (y / pow2 e)) * pow2 e
            in if x < 0 then - v else v))"

definition CoerceIntegral :: "json \<Rightarrow> int option" where
  "CoerceIntegral v =
     (case v of
        JNum s \<Rightarrow> (let n = float64 (number_value s) in if n \<noteq> of_int \<lfloor>n\<rfloor> then None else Some \<lfloor>n\<rfloor>)
      | _ \<Rightarrow> None)"

section \<open>Rule settings\<close>

record RuleConfig =
  rcLevel :: string
  rcOptions :: "json list"

definition IsEnabled :: "RuleConfig option \<Rightarrow> bool" where
  "IsEnabled rc = (case rc of None \<Rightarrow> False | Some rc \<Rightarrow> rcLevel rc \<noteq> ''off'' \<and> rcLevel rc \<noteq> [])"

definition GetLevel :: "RuleConfig option \<Rightarrow> string" where
  "GetLevel rc = (case rc of None \<Rightarrow> ''error'' | Some rc \<Rightarrow> if rcLevel rc = [] then ''error'' else rcLevel rc)"

definition GetOptions :: "RuleConfig option \<Rightarrow> json list" where
  "GetOptions rc = (case rc of None \<Rightarrow> [] | Some rc \<Rightarrow> rcOptions rc)"

definition SetOptions :: "json list \<Rightarrow> RuleConfig option \<Rightarrow> RuleConfig option" where
  "SetOptions options rc = map_option (\<lambda>rc. rc\<lparr>rcOptions := options\<rparr>) rc"

definition GetSeverity :: "RuleConfig option \<Rightarrow> DiagnosticSeverity" where
  "GetSeverity rc = (case rc of None \<Rightarrow> SeverityError | Some rc \<Rightarrow> ParseSeverity (rcLevel rc))"

definition invalidRuleSeverity :: "json \<Rightarrow> config_error" where
  \<open>invalidRuleSeverity v = CfgErrorf ''invalid severity %v (%T); expected "off", "warn", "error", 0, 1, or 2'' [v, v]\<close>

definition normalizeNumericRuleSeverity :: "rat \<Rightarrow> json \<Rightarrow> config_error + string" where
  "normalizeNumericRuleSeverity v original =
     (if v = 0 then Inr ''off'' else if v = 1 then Inr ''warn'' else if v = 2 then Inr ''error'' else Inl (invalidRuleSeverity original))"

definition normalizeRuleSeverity :: "json \<Rightarrow> config_error + string" where
  "normalizeRuleSeverity v =
     (case v of
        JNull \<Rightarrow> Inl (invalidRuleSeverity v)
      | JNum s \<Rightarrow> normalizeNumericRuleSeverity (float64 (number_value s)) v
      | JStr level \<Rightarrow> if level = ''off'' \<or> level = ''warn'' \<or> level = ''error'' then Inr level else Inl (invalidRuleSeverity v)
      | _ \<Rightarrow> Inl (invalidRuleSeverity v))"

definition parseRuleConfigValue :: "json \<Rightarrow> config_error + RuleConfig \<times> bool" where
  "parseRuleConfigValue v =
     (case v of
        JArr ruleArray \<Rightarrow>
          (case ruleArray of
             [] \<Rightarrow> Inl (CfgErrorf ''rule configuration array must contain a severity'' [])
           | severity # options \<Rightarrow>
               (case normalizeRuleSeverity severity of
                  Inl e \<Rightarrow> Inl (CfgWrapf ''invalid array severity at index 0: %w'' [] e)
                | Inr level \<Rightarrow> Inr (\<lparr>rcLevel = level, rcOptions = options\<rparr>, length ruleArray > 1)))
      | _ \<Rightarrow> (case normalizeRuleSeverity v of
                 Inl e \<Rightarrow> Inl e
               | Inr level \<Rightarrow> Inr (\<lparr>rcLevel = level, rcOptions = []\<rparr>, False)))"

definition parseArrayRuleConfig :: "json list \<Rightarrow> RuleConfig option" where
  "parseArrayRuleConfig ruleArray =
     (case parseRuleConfigValue (JArr ruleArray) of Inl _ \<Rightarrow> None | Inr (rc, _) \<Rightarrow> Some rc)"

section \<open>Validation\<close>

text \<open>The maps are in the order in which Go happens to iterate them.\<close>

fun validateConfigRules :: "(string \<times> json) list \<Rightarrow> config_error option" where
  "validateConfigRules [] = None"
| \<open>validateConfigRules ((name, v) # rules) =
     (case parseRuleConfigValue v of
        Inl e \<Rightarrow> Some (CfgWrapf ''key "rules": rule %q: %w'' [JStr name] e)
      | Inr _ \<Rightarrow> validateConfigRules rules)\<close>

fun validate_globals :: "(string \<times> json) list \<Rightarrow> config_error option" where
  "validate_globals [] = None"
| \<open>validate_globals ((name, access) # globals) =
     (if name \<noteq> TrimSpace name
      then Some (CfgErrorf ''key "languageOptions.globals": global %q has leading or trailing whitespace'' [JStr name])
      else if \<not> snd (NormalizeGlobalAccess access)
      then Some (CfgErrorf ''key "languageOptions.globals": global %q has invalid access %v; expected a boolean, null, "true", "false", "readonly", "readable", "writable", "writeable", or "off"'' [JStr name, access])
      else validate_globals globals)\<close>

text \<open>The raw object of the language options, if there is one.\<close>

definition raw_options :: "ConfigLanguageOptions option \<Rightarrow> (string \<times> json) list option" where
  "raw_options lo = (case lo of None \<Rightarrow> None | Some lo \<Rightarrow> loRaw lo)"

definition validateConfigGlobals :: "ConfigLanguageOptions option \<Rightarrow> config_error option" where
  \<open>validateConfigGlobals lo =
     (case raw_options lo of
        None \<Rightarrow> None
      | Some raw \<Rightarrow>
          (case map_of raw ''globals'' of
             None \<Rightarrow> None
           | Some (JObj globals) \<Rightarrow> validate_globals globals
           | Some _ \<Rightarrow> Some (CfgErrorf ''key "languageOptions.globals": expected an object'' [])))\<close>

definition validateConfigSourceType :: "ConfigLanguageOptions option \<Rightarrow> config_error option" where
  \<open>validateConfigSourceType lo =
     (case raw_options lo of
        None \<Rightarrow> None
      | Some raw \<Rightarrow>
          (case map_of raw ''sourceType'' of
             None \<Rightarrow> None
           | Some v \<Rightarrow>
               if (case v of JStr s \<Rightarrow> IsValidSourceType s | _ \<Rightarrow> False) then None
               else Some (CfgErrorf ''key "languageOptions.sourceType": invalid value %v; expected "module", "script", or "commonjs"'' [v])))\<close>

definition normalizeConfigECMAVersion :: "json \<Rightarrow> int \<times> bool" where
  "normalizeConfigECMAVersion v =
     (case v of
        JStr s \<Rightarrow> if s = ''latest'' then (0, True) else (0, False)
      | _ \<Rightarrow> (case CoerceIntegral v of None \<Rightarrow> (0, False) | Some version \<Rightarrow> NormalizeECMAScriptVersion version))"

definition validateLanguageOptions :: "ConfigLanguageOptions option \<Rightarrow> config_error option" where
  \<open>validateLanguageOptions lo =
     (case validateConfigGlobals lo of
        Some e \<Rightarrow> Some e
      | None \<Rightarrow>
          (case validateConfigSourceType lo of
             Some e \<Rightarrow> Some e
           | None \<Rightarrow>
               (case raw_options lo of
                  None \<Rightarrow> None
                | Some raw \<Rightarrow>
                    (case map_of raw ''ecmaVersion'' of
                       None \<Rightarrow> None
                     | Some v \<Rightarrow>
                         if snd (normalizeConfigECMAVersion v) then None
                         else Some (CfgErrorf ''key "languageOptions.ecmaVersion": invalid value %v; expected "latest", 3, 5, an edition from 6 through %d, or a year from 2015 through %d''
                           [v, JNum (go_itoa (LatestECMAScriptVersion - 2009)), JNum (go_itoa LatestECMAScriptVersion)])))))\<close>

definition empty_files_error :: "nat \<Rightarrow> config_error" where
  \<open>empty_files_error index = CfgErrorf ''config entry at index %d: key "files": expected value to be a non-empty array'' [JNum (go_itoa (int index))]\<close>

fun validate_entries :: "nat \<Rightarrow> ConfigEntry list \<Rightarrow> config_error option" where
  "validate_entries index [] = None"
| "validate_entries index (entry # config) =
     (if (Files entry \<noteq> None \<or> FilePatternGroups entry \<noteq> None) \<and> length (elems (Files entry)) = 0 \<and> length (elems (FilePatternGroups entry)) = 0
      then Some (empty_files_error index)
      else (case validateLanguageOptions (entryLanguageOptions entry) of
              Some e \<Rightarrow> Some (CfgWrapf ''config entry at index %d: %w'' [JNum (go_itoa (int index))] e)
            | None \<Rightarrow>
                (case validateConfigRules (elems (Rules entry)) of
                   Some e \<Rightarrow> Some (CfgWrapf ''config entry at index %d: %w'' [JNum (go_itoa (int index))] e)
                 | None \<Rightarrow> validate_entries (Suc index) config)))"

definition ValidateConfig :: "ConfigEntry list \<Rightarrow> config_error option" where
  "ValidateConfig config = validate_entries 0 config"

section \<open>Selectors\<close>

fun string_items :: "json list \<Rightarrow> string list option" where
  "string_items [] = Some []"
| "string_items (v # vs) =
     (case v of JStr s \<Rightarrow> (case string_items vs of None \<Rightarrow> None | Some ss \<Rightarrow> Some (s # ss)) | _ \<Rightarrow> None)"

definition selector_error :: "nat \<Rightarrow> nat \<Rightarrow> config_error" where
  \<open>selector_error entryIndex selectorIndex =
     CfgErrorf ''config entry at index %d: key "files": item at index %d must be a string or an array of strings''
       [JNum (go_itoa (int entryIndex)), JNum (go_itoa (int selectorIndex))]\<close>

fun decode_selectors ::
  "nat \<Rightarrow> nat \<Rightarrow> json list \<Rightarrow> string list \<times> string list list option \<Rightarrow> config_error + string list \<times> string list list option" where
  "decode_selectors entryIndex selectorIndex [] st = Inr st"
| "decode_selectors entryIndex selectorIndex (v # vs) (files, groups) =
     (case v of
        JStr s \<Rightarrow> decode_selectors entryIndex (Suc selectorIndex) vs (files @ [s], groups)
      | JArr items \<Rightarrow>
          (case string_items items of
             None \<Rightarrow> Inl (selector_error entryIndex selectorIndex)
           | Some grp \<Rightarrow> decode_selectors entryIndex (Suc selectorIndex) vs (files, Some (elems groups @ [grp])))
      | _ \<Rightarrow> Inl (selector_error entryIndex selectorIndex))"

text \<open>Decoding \<open>null\<close> into a slice gives an empty one; any other value that is no array is an error.\<close>

definition decodeFilesSelectors :: "json \<Rightarrow> nat \<Rightarrow> config_error + string list \<times> string list list option" where
  \<open>decodeFilesSelectors raw entryIndex =
     (case raw of
        JArr selectors \<Rightarrow>
          if length selectors = 0 then Inl (empty_files_error entryIndex)
          else decode_selectors entryIndex 0 selectors ([], None)
      | JNull \<Rightarrow> Inl (empty_files_error entryIndex)
      | _ \<Rightarrow> Inl (CfgWrapf ''config entry at index %d: key "files": expected value to be a non-empty array: %w''
                    [JNum (go_itoa (int entryIndex))] (CfgUnmarshal raw)))\<close>

section \<open>Plugins\<close>

record bundledPluginDeclaration =
  ruleNamespace :: string
  declarationNames :: "string list"

definition bundledPluginDeclarations :: "bundledPluginDeclaration list" where
  "bundledPluginDeclarations =
     [\<lparr>ruleNamespace = ''@typescript-eslint'', declarationNames = [''@typescript-eslint'']\<rparr>,
      \<lparr>ruleNamespace = ''import'', declarationNames = [''eslint-plugin-import'', ''import'']\<rparr>,
      \<lparr>ruleNamespace = ''jest'', declarationNames = [''eslint-plugin-jest'', ''jest'']\<rparr>,
      \<lparr>ruleNamespace = ''jsx-a11y'', declarationNames = [''eslint-plugin-jsx-a11y'', ''jsx-a11y'']\<rparr>,
      \<lparr>ruleNamespace = ''node'', declarationNames = [''eslint-plugin-node'', ''node'']\<rparr>,
      \<lparr>ruleNamespace = ''promise'', declarationNames = [''eslint-plugin-promise'', ''promise'']\<rparr>,
      \<lparr>ruleNamespace = ''react'', declarationNames = [''react'']\<rparr>,
      \<lparr>ruleNamespace = ''react-hooks'', declarationNames = [''eslint-plugin-react-hooks'', ''react-hooks'']\<rparr>,
      \<lparr>ruleNamespace = ''rstest'', declarationNames = [''rstest'']\<rparr>,
      \<lparr>ruleNamespace = ''unicorn'', declarationNames = [''eslint-plugin-unicorn'', ''unicorn'']\<rparr>]"

definition bundledPluginByDeclarationName :: "(string \<times> bundledPluginDeclaration) list" where
  "bundledPluginByDeclarationName =
     foldl (\<lambda>byName plugin. foldl (\<lambda>byName name. al_update name plugin byName) byName (declarationNames plugin)) [] bundledPluginDeclarations"

definition NormalizePluginName :: "string \<Rightarrow> string" where
  "NormalizePluginName pluginName =
     (case map_of bundledPluginByDeclarationName pluginName of Some plugin \<Rightarrow> ruleNamespace plugin | None \<Rightarrow> pluginName)"

section \<open>Rules of the command line\<close>

text \<open>\<open>json.Unmarshal\<close> into a slice is the parameter \<open>parseArray\<close>.\<close>

definition ParseCLIRuleFlag :: "(string \<Rightarrow> config_error + json list) \<Rightarrow> string \<Rightarrow> config_error + string \<times> json" where
  \<open>ParseCLIRuleFlag parseArray input =
     (case str_index input '':'' of
        None \<Rightarrow> Inl (CfgErrorf ''invalid --rule format %q: expected "ruleName: severity"'' [JStr input])
      | Some idx \<Rightarrow>
          (let name = TrimSpace (take idx input); val = TrimSpace (drop (idx + 1) input)
           in if name = [] then Inl (CfgErrorf ''invalid --rule format %q: empty rule name'' [JStr input])
              else if val = [] then Inl (CfgErrorf ''invalid --rule format %q: empty value'' [JStr input])
              else if has_prefix val ''[''
              then (case parseArray val of
                      Inl e \<Rightarrow> Inl (CfgWrapf ''invalid --rule format %q: %w'' [JStr input] e)
                    | Inr arr \<Rightarrow> Inr (name, JArr arr))
              else Inr (name, JStr val)))\<close>

fun cli_rules :: "(string \<Rightarrow> config_error + json list) \<Rightarrow> (string \<times> json) list \<Rightarrow> string list \<Rightarrow> config_error + (string \<times> json) list" where
  "cli_rules parseArray rules [] = Inr rules"
| "cli_rules parseArray rules (f # flags) =
     (case ParseCLIRuleFlag parseArray f of
        Inl e \<Rightarrow> Inl e
      | Inr (name, v) \<Rightarrow> cli_rules parseArray (al_update name v rules) flags)"

definition BuildCLIRuleEntry :: "(string \<Rightarrow> config_error + json list) \<Rightarrow> string list \<Rightarrow> config_error + ConfigEntry option" where
  "BuildCLIRuleEntry parseArray flags =
     (if length flags = 0 then Inr None
      else (case cli_rules parseArray [] flags of
              Inl e \<Rightarrow> Inl e
            | Inr rules \<Rightarrow> Inr (Some (no_entry\<lparr>Rules := Some rules\<rparr>))))"

section \<open>Laws\<close>

lemma normalizeRuleSeverity_level: "normalizeRuleSeverity v = Inr level \<Longrightarrow> level \<in> {''off'', ''warn'', ''error''}"
  by (auto simp: normalizeRuleSeverity_def normalizeNumericRuleSeverity_def split: json.splits if_splits)

lemma parseRuleConfigValue_level:
  "parseRuleConfigValue v = Inr (rc, has) \<Longrightarrow> rcLevel rc \<in> {''off'', ''warn'', ''error''} \<and> (has \<longleftrightarrow> rcOptions rc \<noteq> [])"
  by (auto simp: parseRuleConfigValue_def dest: normalizeRuleSeverity_level split: json.splits list.splits sum.splits)

lemma validateConfigRules_iff:
  "validateConfigRules rules = None \<longleftrightarrow> (\<forall>(name, v) \<in> set rules. \<exists>r. parseRuleConfigValue v = Inr r)"
  by (induction rules rule: validateConfigRules.induct) (auto split: sum.splits)

lemma validate_entries_iff:
  "validate_entries n config = None \<longleftrightarrow>
    (\<forall>entry \<in> set config. (Files entry \<noteq> None \<or> FilePatternGroups entry \<noteq> None \<longrightarrow> hasFileSelectors entry) \<and>
       validateLanguageOptions (entryLanguageOptions entry) = None \<and> validateConfigRules (elems (Rules entry)) = None)"
  by (induction n config rule: validate_entries.induct) (auto simp: hasFileSelectors_def split: option.splits)

text \<open>Rounding is exact on the integers of at most 53 bits, and so on every severity and ECMAScript edition.\<close>

lemma round_even_of_int [simp]: "round_even (of_int k) = k"
  by (simp add: round_even_def)

lemma floorlog_two_bounds: "0 < n \<Longrightarrow> 2 ^ (floorlog 2 n - 1) \<le> n \<and> n < 2 ^ floorlog 2 n"
  using floorlog_bounds [of n 2] by simp

lemma log2_floor_of_nat: "0 < n \<Longrightarrow> log2_floor (of_nat n) = int (floorlog 2 n) - 1"
proof -
  assume n: "0 < n"
  have q: "quotient_of (of_nat n) = (int n, 1)" using quotient_of_int [of "int n", unfolded Rat.of_int_def] by simp
  have one: "floorlog 2 1 = 1" by (simp add: compute_floorlog)
  have "0 < floorlog 2 n" using n by (simp add: floorlog_def)
  then have "pow2 (int (floorlog 2 n) - 1) = of_nat (2 ^ (floorlog 2 n - 1))" by (simp add: pow2_def nat_diff_distrib)
  also have "\<dots> \<le> (of_nat n :: rat)" using floorlog_two_bounds [OF n] by (metis of_nat_le_iff)
  finally show ?thesis using n one by (simp add: log2_floor_def q Let_def)
qed

lemma float64_of_nat:
  assumes "n < 2 ^ 53"
  shows "float64 (of_nat n) = of_nat n"
proof (cases "n = 0")
  case False
  then have n: "0 < n" by simp
  have "2 ^ (floorlog 2 n - 1) < (2 :: nat) ^ 53" using floorlog_two_bounds [OF n] assms by linarith
  then have "floorlog 2 n - 1 < 53" by (rule power_less_imp_less_exp [rotated]) simp
  then have "log2_floor (of_nat n) - 52 \<le> 0" using log2_floor_of_nat [OF n] by linarith
  then have "max (log2_floor (of_nat n) - 52) (- 1074) = - int (nat (- max (log2_floor (of_nat n) - 52) (- 1074)))" by simp
  then obtain k where k: "max (log2_floor (of_nat n) - 52) (- 1074) = - int k" by blast
  have "of_nat n / pow2 (- int k) = (of_int (int n * 2 ^ k) :: rat)" by (simp add: pow2_def)
  then have "round_even (of_nat n / pow2 (- int k)) = int n * 2 ^ k" by (simp only: round_even_of_int)
  then have "of_int (round_even (of_nat n / pow2 (- int k))) * pow2 (- int k) = (of_nat n :: rat)" by (simp add: pow2_def)
  then show ?thesis using n by (simp add: float64_def Let_def k)
qed (simp add: float64_def)

end
