(* ===== verification/Config_Merge.thy ===== *)
theory Config_Merge
  imports Config_Value
begin

text \<open>
  Merging the entries that apply to a file and resolving the result to configured rules: \<open>mergeConfigEntries\<close>
  (\<^verbatim>\<open>internal/config/config_resolution.go\<close>), the merging functions of \<^verbatim>\<open>config.go\<close>, \<^verbatim>\<open>rule_resolution.go\<close> and
  \<^verbatim>\<open>eslint_plugin.go\<close>.

  A Go map is an association list with distinct keys, in the order in which the program happens to iterate it.
\<close>

section \<open>Deep merging\<close>

definition configObject :: "json option \<Rightarrow> (string \<times> json) list option" where
  "configObject v = (case v of Some (JObj fs) \<Rightarrow> Some fs | _ \<Rightarrow> None)"

text \<open>\<open>clone_fields merged fs\<close> is the loop of \<open>deepMergeConfigObjects(nil, fs)\<close>.\<close>

fun cloneConfigValue :: "json \<Rightarrow> json"
and clone_fields :: "(string \<times> json) list \<Rightarrow> (string \<times> json) list \<Rightarrow> (string \<times> json) list"
and clone_items :: "json list \<Rightarrow> json list" where
  "cloneConfigValue (JObj fs) = JObj (clone_fields [] fs)"
| "cloneConfigValue (JArr vs) = JArr (clone_items vs)"
| "cloneConfigValue v = v"
| "clone_fields merged [] = merged"
| "clone_fields merged ((k, v) # fs) = clone_fields (al_update k (cloneConfigValue v) merged) fs"
| "clone_items [] = []"
| "clone_items (v # vs) = cloneConfigValue v # clone_items vs"

text \<open>The second loop: the nested merge starts with a clone of the fields of the base object.\<close>

fun merge_fields :: "(string \<times> json) list \<Rightarrow> (string \<times> json) list \<Rightarrow> (string \<times> json) list \<Rightarrow> (string \<times> json) list" where
  "merge_fields base merged [] = merged"
| "merge_fields base merged ((k, v) # override) =
     merge_fields base
       (al_update k
          (case v of
             JObj overrideObject \<Rightarrow>
               (case configObject (map_of base k) of
                  Some baseObject \<Rightarrow> JObj (merge_fields baseObject (clone_fields [] baseObject) overrideObject)
                | None \<Rightarrow> cloneConfigValue v)
           | _ \<Rightarrow> cloneConfigValue v) merged) override"

definition deepMergeConfigObjects :: "(string \<times> json) list \<Rightarrow> (string \<times> json) list \<Rightarrow> (string \<times> json) list" where
  "deepMergeConfigObjects base override = merge_fields base (clone_fields [] base) override"

definition merge_parser_options :: "ParserOptions \<Rightarrow> ParserOptions \<Rightarrow> ParserOptions" where
  "merge_parser_options base override =
     (let po = base;
          po = (if ProjectService override \<noteq> None then po\<lparr>ProjectService := ProjectService override\<rparr> else po);
          po = (if Project override \<noteq> None \<or> ProjectDisabled override \<or> projectAutomatic override
                then po\<lparr>Project := Project override, ProjectDisabled := ProjectDisabled override, projectAutomatic := projectAutomatic override\<rparr>
                else po)
      in if TsconfigRootDir override \<noteq> None \<or> rootDirSet override
         then po\<lparr>TsconfigRootDir := TsconfigRootDir override, rootDirSet := rootDirSet override, rootDirInvalid := rootDirInvalid override\<rparr>
         else po)"

definition mergeLanguageOptions :: "ConfigLanguageOptions option \<Rightarrow> ConfigLanguageOptions option \<Rightarrow> ConfigLanguageOptions option" where
  "mergeLanguageOptions base override =
     (case override of
        None \<Rightarrow> base
      | Some ov \<Rightarrow>
          (case base of
             None \<Rightarrow> override
           | Some b \<Rightarrow>
               Some \<lparr>loParserOptions = (case loParserOptions ov of
                                            None \<Rightarrow> loParserOptions b
                                          | Some po \<Rightarrow> (case loParserOptions b of
                                                          None \<Rightarrow> Some po
                                                        | Some bpo \<Rightarrow> Some (merge_parser_options bpo po))),
                     loRaw = Some (deepMergeConfigObjects (elems (loRaw b)) (elems (loRaw ov)))\<rparr>))"

section \<open>Merging entries\<close>

record MergedConfig =
  mcRules :: "(string \<times> RuleConfig) list"
  mcSettings :: "(string \<times> json) list option"
  mcLanguageOptions :: "ConfigLanguageOptions option"
  mcPlugins :: "(string \<times> unit) list"

fun merge_rules :: "(string \<times> json) list \<Rightarrow> (string \<times> RuleConfig) list \<Rightarrow> (string \<times> RuleConfig) list" where
  "merge_rules [] merged = merged"
| "merge_rules ((ruleName', ruleValue) # rules) merged =
     (case parseRuleConfigValue ruleValue of
        Inl _ \<Rightarrow> merge_rules rules merged
      | Inr (nxt, hasOptions) \<Rightarrow>
          (let nxt = (case map_of merged ruleName' of
                        Some previous \<Rightarrow> if \<not> hasOptions then nxt\<lparr>rcOptions := rcOptions previous\<rparr> else nxt
                      | None \<Rightarrow> nxt)
           in merge_rules rules (al_update ruleName' nxt merged)))"

definition merge_entry :: "ConfigEntry \<Rightarrow> MergedConfig \<Rightarrow> MergedConfig" where
  "merge_entry entry merged =
     merged\<lparr>mcRules := merge_rules (elems (Rules entry)) (mcRules merged),
            mcPlugins := foldl (\<lambda>ps plugin. al_update (NormalizePluginName plugin) () ps) (mcPlugins merged) (elems (Plugins entry)),
            mcSettings := (case entrySettings entry of
                             None \<Rightarrow> mcSettings merged
                           | Some settings \<Rightarrow> Some (deepMergeConfigObjects (elems (mcSettings merged)) settings)),
            mcLanguageOptions := mergeLanguageOptions (mcLanguageOptions merged) (entryLanguageOptions entry)\<rparr>"

fun merge_entries :: "configMatchKey \<Rightarrow> nat \<Rightarrow> ConfigEntry list \<Rightarrow> MergedConfig \<Rightarrow> MergedConfig option" where
  "merge_entries key index [] merged = Some merged"
| "merge_entries key index (entry # config) merged =
     (case key_contains key index of
        None \<Rightarrow> None
      | Some b \<Rightarrow> merge_entries key (Suc index) config (if \<not> b then merged else merge_entry entry merged))"

definition empty_merged :: MergedConfig where
  "empty_merged = \<lparr>mcRules = [], mcSettings = None, mcLanguageOptions = None, mcPlugins = []\<rparr>"

definition mergeConfigEntries :: "ConfigEntry list \<Rightarrow> configMatchKey \<Rightarrow> MergedConfig option" where
  "mergeConfigEntries config key = merge_entries key 0 config empty_merged"

text \<open>The outer option is a panic, the inner one a file that no entry configures.\<close>

definition getConfigForFileWithIgnores ::
  "path_env \<Rightarrow> ConfigEntry list \<Rightarrow> string \<Rightarrow> string \<Rightarrow> IgnorePattern list \<Rightarrow> MergedConfig option option" where
  "getConfigForFileWithIgnores E config filePath cwd globalIgnorePatterns =
     (case matchConfigEntries E config filePath cwd globalIgnorePatterns None None of
        None \<Rightarrow> None
      | Some (None, _) \<Rightarrow> Some None
      | Some (Some key, _) \<Rightarrow> map_option Some (mergeConfigEntries config key))"

definition GetConfigForFile_direct :: "path_env \<Rightarrow> ConfigEntry list \<Rightarrow> string \<Rightarrow> string \<Rightarrow> MergedConfig option option" where
  "GetConfigForFile_direct E config filePath cwd = getConfigForFileWithIgnores E config filePath cwd (extractConfigIgnores E config)"

section \<open>Configured rules\<close>

definition ExtractGlobals :: "ConfigLanguageOptions option \<Rightarrow> (string \<rightharpoonup> GlobalAccess)" where
  "ExtractGlobals langOpts =
     (case raw_options langOpts of
        None \<Rightarrow> Map.empty
      | Some raw \<Rightarrow>
          (case map_of raw ''globals'' of
             Some (JObj globals) \<Rightarrow>
               map_of (map (\<lambda>(name, v). (name, fst (NormalizeGlobalAccess v))) (filter (\<lambda>(name, v). snd (NormalizeGlobalAccess v)) globals))
           | _ \<Rightarrow> Map.empty))"

definition ExtractLanguageOptions :: "ConfigLanguageOptions option \<Rightarrow> LanguageOptions" where
  "ExtractLanguageOptions langOpts =
     (case raw_options langOpts of
        None \<Rightarrow> \<lparr>ECMAVersion = 0, SourceType = []\<rparr>
      | Some raw \<Rightarrow>
          \<lparr>ECMAVersion = (case map_of raw ''ecmaVersion'' of
                             None \<Rightarrow> 0
                           | Some v \<Rightarrow> (case normalizeConfigECMAVersion v of (version, ok) \<Rightarrow> if ok then version else 0)),
           SourceType = (case map_of raw ''sourceType'' of
                           Some (JStr s) \<Rightarrow> if IsValidSourceType s then s else []
                         | _ \<Rightarrow> [])\<rparr>)"

definition CloneSettings :: "(string \<times> json) list option \<Rightarrow> (string \<times> json) list" where
  "CloneSettings settings = (if length (elems settings) = 0 then [] else foldl (\<lambda>cloned (k, v). al_update k v cloned) [] (elems settings))"

definition rule_environment :: "MergedConfig \<Rightarrow> RuleEnvironment" where
  "rule_environment mc =
     \<lparr>envSettings = CloneSettings (mcSettings mc), envLanguageOptions = ExtractLanguageOptions (mcLanguageOptions mc),
      envGlobals = ExtractGlobals (mcLanguageOptions mc)\<rparr>"

definition rule_declared :: "MergedConfig \<Rightarrow> string \<Rightarrow> bool" where
  "rule_declared mc name = (RuleNamespace name = [] \<or> map_of (mcPlugins mc) (RuleNamespace name) \<noteq> None)"

definition configured_rule :: "MergedConfig \<Rightarrow> string \<Rightarrow> RuleConfig \<Rightarrow> Rule \<Rightarrow> ConfiguredRule" where
  "configured_rule mc name rc impl =
     \<lparr>crName = name, crEnvironment = Some (rule_environment mc), crSeverity = GetSeverity (Some rc),
      RequiresTypeInfo = ruleRequiresTypeInfo impl, IsEslintPluginRule = ruleIsPlugin impl, crOptions = rcOptions rc\<rparr>"

fun collect_rules :: "Catalog \<Rightarrow> MergedConfig \<Rightarrow> ConfiguredRule list \<Rightarrow> (string \<times> RuleConfig) list \<Rightarrow> ConfiguredRule list" where
  "collect_rules catalog mc enabledRules [] = enabledRules"
| "collect_rules catalog mc enabledRules ((name, rc) # rules) =
     (if \<not> IsEnabled (Some rc) then collect_rules catalog mc enabledRules rules
      else if \<not> rule_declared mc name then collect_rules catalog mc enabledRules rules
      else (case Lookup catalog name of
              None \<Rightarrow> collect_rules catalog mc enabledRules rules
            | Some impl \<Rightarrow> collect_rules catalog mc (enabledRules @ [configured_rule mc name rc impl]) rules))"

definition cmp_rule_name :: "ConfiguredRule \<Rightarrow> ConfiguredRule \<Rightarrow> int" where
  "cmp_rule_name a b = str_compare (crName a) (crName b)"

text \<open>A nil catalog panics.\<close>

definition ConfiguredRules ::
  "(ConfiguredRule list \<Rightarrow> ConfiguredRule list) \<Rightarrow> Catalog option \<Rightarrow> MergedConfig option \<Rightarrow> ConfiguredRule list option" where
  "ConfiguredRules sortRules catalog mergedConfig =
     (case catalog of
        None \<Rightarrow> None
      | Some c \<Rightarrow> Some (case mergedConfig of None \<Rightarrow> [] | Some mc \<Rightarrow> sortRules (collect_rules c mc [] (mcRules mc))))"

definition PluginMergedMaps :: "MergedConfig option \<Rightarrow> (string \<times> json) list option \<times> (string \<times> json) list option" where
  "PluginMergedMaps merged =
     (case merged of
        None \<Rightarrow> (None, None)
      | Some mc \<Rightarrow> (raw_options (mcLanguageOptions mc), mcSettings mc))"

section \<open>Laws of deep merging\<close>

text \<open>Values whose objects have distinct keys, as Go's maps do.\<close>

fun json_wf :: "json \<Rightarrow> bool" where
  "json_wf (JObj fs) \<longleftrightarrow> distinct (map fst fs) \<and> (\<forall>f \<in> set fs. json_wf (snd f))"
| "json_wf (JArr vs) \<longleftrightarrow> (\<forall>v \<in> set vs. json_wf v)"
| "json_wf v \<longleftrightarrow> True"

lemma al_update_new: "k \<notin> fst ` set m \<Longrightarrow> al_update k v m = m @ [(k, v)]"
  by (induction m) auto

lemma clone_id:
  "json_wf v \<Longrightarrow> cloneConfigValue v = v"
  "json_wf (JObj (merged @ fs)) \<Longrightarrow> clone_fields merged fs = merged @ fs"
  "\<forall>v \<in> set vs. json_wf v \<Longrightarrow> clone_items vs = vs"
proof (induction v and merged fs and vs rule: cloneConfigValue_clone_fields_clone_items.induct)
  case (5 merged k v fs)
  then have "cloneConfigValue v = v" "k \<notin> fst ` set merged" by auto
  then show ?case using 5 by (simp add: al_update_new)
qed (auto simp: list_all_iff)

lemma clone_fields_Nil: "json_wf (JObj fs) \<Longrightarrow> clone_fields [] fs = fs"
  using clone_id(2) [of "[]" fs] by simp

text \<open>The value of one key.\<close>

definition merge_value :: "json option \<Rightarrow> json \<Rightarrow> json" where
  "merge_value bv v =
     (case v of
        JObj oo \<Rightarrow> (case configObject bv of Some bo \<Rightarrow> JObj (deepMergeConfigObjects bo oo) | None \<Rightarrow> v)
      | _ \<Rightarrow> v)"

lemma merge_fields_lookup:
  assumes "json_wf (JObj override)"
  shows "map_of (merge_fields base merged override) k =
    (case map_of override k of None \<Rightarrow> map_of merged k | Some v \<Rightarrow> Some (merge_value (map_of base k) v))"
  using assms
proof (induction override arbitrary: merged)
  case (Cons f override)
  obtain k' v where f: "f = (k', v)" by (cases f)
  then have v: "json_wf v" "k' \<notin> fst ` set override" "json_wf (JObj override)" using Cons.prems by auto
  let ?v = "case v of JObj oo \<Rightarrow> (case configObject (map_of base k') of
      Some bo \<Rightarrow> JObj (merge_fields bo (clone_fields [] bo) oo) | None \<Rightarrow> cloneConfigValue v) | _ \<Rightarrow> cloneConfigValue v"
  have "?v = merge_value (map_of base k') v"
    using clone_id(1) [OF v(1)] by (auto simp: merge_value_def deepMergeConfigObjects_def split: json.split option.split)
  then have "merge_fields base merged (f # override) = merge_fields base (al_update k' (merge_value (map_of base k') v) merged) override"
    unfolding f by simp
  moreover have "map_of override k' = None" using v(2) by (simp add: map_of_eq_None_iff)
  ultimately show ?case using Cons.IH [OF v(3)] f by (auto split: option.split)
qed simp

lemma deepMerge_lookup:
  assumes "json_wf (JObj base)" and "json_wf (JObj override)"
  shows "map_of (deepMergeConfigObjects base override) k =
    (case map_of override k of None \<Rightarrow> map_of base k | Some v \<Rightarrow> Some (merge_value (map_of base k) v))"
  unfolding deepMergeConfigObjects_def merge_fields_lookup [OF assms(2)] clone_fields_Nil [OF assms(1)] by (rule refl)

lemma json_wf_lookup: "json_wf (JObj fs) \<Longrightarrow> map_of fs k = Some v \<Longrightarrow> json_wf v"
  by (auto dest: map_of_SomeD)

lemma json_wf_al_update: "json_wf (JObj fs) \<Longrightarrow> json_wf v \<Longrightarrow> json_wf (JObj (al_update k v fs))"
proof (induction fs)
  case (Cons f fs)
  then show ?case using keys_al_update [of k v fs] by (cases f) (auto simp: al_keys_def)
qed simp

lemma json_wf_merge_fields:
  "json_wf (JObj base) \<Longrightarrow> json_wf (JObj merged) \<Longrightarrow> json_wf (JObj override) \<Longrightarrow> json_wf (JObj (merge_fields base merged override))"
proof (induction base merged override rule: merge_fields.induct)
  case (2 base merged k v override)
  have v: "json_wf v" using 2(5) by simp
  let ?v = "case v of JObj oo \<Rightarrow> (case configObject (map_of base k) of
      Some bo \<Rightarrow> JObj (merge_fields bo (clone_fields [] bo) oo) | None \<Rightarrow> cloneConfigValue v) | _ \<Rightarrow> cloneConfigValue v"
  have "json_wf ?v"
  proof (cases "\<exists>oo bo. v = JObj oo \<and> configObject (map_of base k) = Some bo")
    case True
    then obtain oo bo where ob: "v = JObj oo" "configObject (map_of base k) = Some bo" by blast
    then have "map_of base k = Some (JObj bo)" by (auto simp: configObject_def split: option.splits json.splits)
    then have "json_wf (JObj bo)" using 2(3) json_wf_lookup by blast
    then show ?thesis using 2(1) [OF ob] ob v clone_fields_Nil by simp
  next
    case False
    then have "?v = v" using clone_id(1) [OF v] by (auto split: json.split option.split)
    then show ?thesis using v by (simp only:)
  qed
  then have "json_wf (JObj (al_update k ?v merged))" using 2(4) json_wf_al_update by blast
  moreover have "json_wf (JObj override)" using 2(5) by simp
  ultimately show ?case unfolding merge_fields.simps by (rule 2(2) [OF 2(3)])
qed simp

lemma json_wf_deepMerge: "json_wf (JObj base) \<Longrightarrow> json_wf (JObj override) \<Longrightarrow> json_wf (JObj (deepMergeConfigObjects base override))"
  unfolding deepMergeConfigObjects_def by (rule json_wf_merge_fields) (simp_all only: clone_fields_Nil)

text \<open>The scalar or array at a path, and whether a value says anything about it.\<close>

fun scalar_at :: "json \<Rightarrow> string list \<Rightarrow> json option" where
  "scalar_at v [] = (case v of JObj _ \<Rightarrow> None | _ \<Rightarrow> Some v)"
| "scalar_at v (k # path) =
     (case v of JObj fs \<Rightarrow> (case map_of fs k of None \<Rightarrow> None | Some w \<Rightarrow> scalar_at w path) | _ \<Rightarrow> None)"

fun mentions :: "json \<Rightarrow> string list \<Rightarrow> bool" where
  "mentions v [] = True"
| "mentions v (k # path) =
     (case v of JObj fs \<Rightarrow> (case map_of fs k of None \<Rightarrow> False | Some w \<Rightarrow> mentions w path) | _ \<Rightarrow> True)"

lemma scalar_at_unmentioned: "\<not> mentions v path \<Longrightarrow> scalar_at v path = None"
  by (induction path arbitrary: v) (auto split: json.splits option.splits)

lemma deepMerge_scalar_at:
  assumes "json_wf (JObj base)" and "json_wf (JObj override)"
  shows "scalar_at (JObj (deepMergeConfigObjects base override)) path =
    (if mentions (JObj override) path then scalar_at (JObj override) path else scalar_at (JObj base) path)"
  using assms
proof (induction path arbitrary: base override)
  case (Cons k path)
  note lookup = deepMerge_lookup [OF Cons.prems, of k]
  show ?case
  proof (cases "map_of override k")
    case (Some v)
    show ?thesis
    proof (cases "\<exists>oo bo. v = JObj oo \<and> configObject (map_of base k) = Some bo")
      case True
      then obtain oo bo where ob: "v = JObj oo" "map_of base k = Some (JObj bo)"
        by (auto simp: configObject_def split: option.splits json.splits)
      then have "json_wf (JObj bo)" "json_wf (JObj oo)" using Cons.prems Some json_wf_lookup by blast+
      then show ?thesis using Cons.IH lookup Some ob by (simp add: merge_value_def configObject_def)
    next
      case False
      then have "merge_value (map_of base k) v = v" by (auto simp: merge_value_def split: json.split option.split)
      moreover have "scalar_at w path = None" if "map_of base k = Some w" "\<not> mentions v path" for w
        using that False by (cases path; cases v; cases w) (auto simp: configObject_def)
      ultimately show ?thesis using lookup Some scalar_at_unmentioned [of v path] by (auto split: option.split)
    qed
  qed (use lookup in simp)
qed simp

section \<open>The contributing entries\<close>

text \<open>The settings of several entries, merged in order: the last one that mentions a path decides it.\<close>

definition merge_all :: "(string \<times> json) list list \<Rightarrow> (string \<times> json) list" where
  "merge_all objects = foldl deepMergeConfigObjects [] objects"

definition last_mention :: "(string \<times> json) list list \<Rightarrow> string list \<Rightarrow> json option" where
  "last_mention objects path =
     (case filter (\<lambda>fs. mentions (JObj fs) path) (rev objects) of [] \<Rightarrow> None | fs # _ \<Rightarrow> scalar_at (JObj fs) path)"

lemma merge_all_scalar_at:
  assumes "\<forall>fs \<in> set objects. json_wf (JObj fs)"
  shows "json_wf (JObj (merge_all objects)) \<and> (path \<noteq> [] \<longrightarrow> scalar_at (JObj (merge_all objects)) path = last_mention objects path)"
  using assms
proof (induction objects rule: rev_induct)
  case Nil
  show ?case by (cases path) (simp_all add: merge_all_def last_mention_def)
next
  case (snoc fs objects)
  then have wf: "json_wf (JObj (merge_all objects))" "json_wf (JObj fs)" by auto
  then show ?case using snoc json_wf_deepMerge [OF wf] deepMerge_scalar_at [OF wf]
    by (simp add: merge_all_def last_mention_def)
qed

text \<open>The settings of one rule in several entries: the last decides the level, the last with options the options.\<close>

definition rule_setting :: "string \<Rightarrow> ConfigEntry \<Rightarrow> (RuleConfig \<times> bool) list" where
  "rule_setting name entry =
     (case map_of (elems (Rules entry)) name of
        None \<Rightarrow> []
      | Some v \<Rightarrow> (case parseRuleConfigValue v of Inl _ \<Rightarrow> [] | Inr setting \<Rightarrow> [setting]))"

definition decide_rule :: "(RuleConfig \<times> bool) list \<Rightarrow> RuleConfig option" where
  "decide_rule settings =
     (if settings = [] then None
      else Some \<lparr>rcLevel = rcLevel (fst (last settings)),
                 rcOptions = (case filter snd (rev settings) of [] \<Rightarrow> [] | s # _ \<Rightarrow> rcOptions (fst s))\<rparr>)"

definition entry_rules_distinct :: "ConfigEntry \<Rightarrow> bool" where
  "entry_rules_distinct entry \<longleftrightarrow> distinct (map fst (elems (Rules entry)))"

definition next_rule :: "RuleConfig option \<Rightarrow> RuleConfig \<times> bool \<Rightarrow> RuleConfig" where
  "next_rule previous setting =
     (case previous of
        Some p \<Rightarrow> if \<not> snd setting then (fst setting)\<lparr>rcOptions := rcOptions p\<rparr> else fst setting
      | None \<Rightarrow> fst setting)"

lemma decide_rule_snoc:
  assumes "\<forall>s \<in> set (settings @ [s]). snd s \<longleftrightarrow> rcOptions (fst s) \<noteq> []"
  shows "decide_rule (settings @ [s]) = Some (next_rule (decide_rule settings) s)"
  using assms by (cases s) (auto simp: decide_rule_def next_rule_def)

lemma merge_rules_lookup:
  assumes "distinct (map fst rules)"
  shows "map_of (merge_rules rules merged) name =
    (case map_of rules name of
       None \<Rightarrow> map_of merged name
     | Some v \<Rightarrow> (case parseRuleConfigValue v of
                    Inl _ \<Rightarrow> map_of merged name
                  | Inr setting \<Rightarrow> Some (next_rule (map_of merged name) setting)))"
  using assms
proof (induction rules arbitrary: merged)
  case (Cons r rules)
  obtain n v where r: "r = (n, v)" by (cases r)
  then have none: "map_of rules n = None" "distinct (map fst rules)" using Cons.prems by (auto simp: map_of_eq_None_iff)
  show ?case
  proof (cases "parseRuleConfigValue v")
    case (Inl e)
    then show ?thesis using Cons.IH [OF none(2), of merged] none(1) r by auto
  next
    case (Inr setting)
    have "merge_rules (r # rules) merged = merge_rules rules (al_update n (next_rule (map_of merged n) setting) merged)"
      unfolding r using Inr by (cases setting) (auto simp: next_rule_def split: option.split)
    then show ?thesis using Cons.IH [OF none(2), of "al_update n (next_rule (map_of merged n) setting) merged"] none(1) Inr r
      by (auto split: option.split sum.split)
  qed
qed simp

section \<open>The configuration of a file\<close>

definition contributing :: "path_env \<Rightarrow> string \<Rightarrow> string \<Rightarrow> ConfigEntry list \<Rightarrow> ConfigEntry list" where
  "contributing E filePath cwd config = filter (entry_applies E filePath cwd) config"

definition merge_contributions :: "ConfigEntry list \<Rightarrow> MergedConfig" where
  "merge_contributions entries = foldl (\<lambda>merged entry. merge_entry entry merged) empty_merged entries"

lemma merge_entries_filter:
  assumes "\<forall>i < length config. key_contains key (n + i) = Some (P (config ! i))"
  shows "merge_entries key n config merged = Some (foldl (\<lambda>merged entry. merge_entry entry merged) merged (filter P config))"
  using assms
proof (induction config arbitrary: n merged)
  case (Cons entry config)
  have "key_contains key n = Some (P entry)" using Cons.prems [rule_format, of 0] by simp
  moreover have "\<forall>i < length config. key_contains key (Suc n + i) = Some (P (config ! i))"
    using Cons.prems [rule_format, of "Suc i" for i] by simp
  ultimately show ?case using Cons.IH by simp
qed simp

lemma GetConfigForFile_direct_eq:
  "GetConfigForFile_direct E config filePath cwd =
    Some (if file_unconfigured E config filePath cwd then None else Some (merge_contributions (contributing E filePath cwd config)))"
proof -
  have "patterns_of E config None" "blocks_ok E (extractConfigIgnores E config) cwd None" by (simp_all add: patterns_of_def blocks_ok_def)
  from matchConfigEntries_run [OF this refl] obtain key blocks' where
    "matchConfigEntries E config filePath cwd (extractConfigIgnores E config) None None =
       Some (if file_unconfigured E config filePath cwd then None else Some key, blocks')"
    and "\<forall>i < length config. key_contains key i = Some (entry_applies E filePath cwd (config ! i))" by blast
  then show ?thesis using merge_entries_filter [of config key 0]
    by (simp add: GetConfigForFile_direct_def getConfigForFileWithIgnores_def mergeConfigEntries_def merge_contributions_def contributing_def)
qed

lemma file_unconfigured_iff:
  "file_unconfigured E config filePath cwd \<longleftrightarrow> IsFileIgnored_direct E config filePath cwd \<or>
    \<not> isFileSelectedByConfig_direct E config filePath cwd \<or> contributing E filePath cwd config = []"
  by (auto simp: file_unconfigured_def contributing_def filter_empty_conv)

lemma merge_contributions_snoc: "merge_contributions (entries @ [entry]) = merge_entry entry (merge_contributions entries)"
  by (simp add: merge_contributions_def)

lemma merge_contributions_Nil: "merge_contributions [] = empty_merged"
  by (simp add: merge_contributions_def)

lemma rule_setting_has: "s \<in> set (rule_setting name entry) \<Longrightarrow> snd s \<longleftrightarrow> rcOptions (fst s) \<noteq> []"
  by (cases s) (auto simp: rule_setting_def dest!: parseRuleConfigValue_level sym [of "Inr _"] split: option.splits sum.splits)

lemma rule_setting_level: "s \<in> set (rule_setting name entry) \<Longrightarrow> rcLevel (fst s) \<in> {''off'', ''warn'', ''error''}"
  by (cases s) (auto simp: rule_setting_def dest!: parseRuleConfigValue_level sym [of "Inr _"] split: option.splits sum.splits)

lemma contributions_rules:
  assumes "\<forall>entry \<in> set entries. entry_rules_distinct entry"
  shows "map_of (mcRules (merge_contributions entries)) name = decide_rule (concat (map (rule_setting name) entries))"
  using assms
proof (induction entries rule: rev_induct)
  case Nil
  show ?case by (simp add: merge_contributions_Nil empty_merged_def decide_rule_def)
next
  case (snoc entry entries)
  let ?old = "concat (map (rule_setting name) entries)"
  have old: "map_of (mcRules (merge_contributions entries)) name = decide_rule ?old" using snoc by simp
  have d: "distinct (map fst (elems (Rules entry)))" using snoc.prems by (simp add: entry_rules_distinct_def)
  have "map_of (mcRules (merge_contributions (entries @ [entry]))) name =
      (case rule_setting name entry of [] \<Rightarrow> decide_rule ?old | s # _ \<Rightarrow> Some (next_rule (decide_rule ?old) s))"
    using merge_rules_lookup [OF d] old
    by (auto simp: merge_contributions_snoc merge_entry_def rule_setting_def split: option.split sum.split)
  also have "\<dots> = decide_rule (?old @ rule_setting name entry)"
  proof (cases "rule_setting name entry")
    case (Cons s ss)
    then have one: "rule_setting name entry = [s]" by (auto simp: rule_setting_def split: option.splits sum.splits)
    then have "\<forall>t \<in> set (?old @ [s]). snd t \<longleftrightarrow> rcOptions (fst t) \<noteq> []" 
      using rule_setting_has [of s name entry] rule_setting_has [of _ name] by (auto simp: one)
    then show ?thesis using decide_rule_snoc one by simp
  qed simp
  finally show ?case by simp
qed

lemma foldl_plugins:
  "map_of (foldl (\<lambda>ps p. al_update (f p) () ps) m plugins) n = Some () \<longleftrightarrow> map_of m n = Some () \<or> n \<in> f ` set plugins"
  by (induction plugins arbitrary: m) auto

lemma contributions_plugins:
  "map_of (mcPlugins (merge_contributions entries)) n = Some () \<longleftrightarrow>
    (\<exists>entry \<in> set entries. n \<in> NormalizePluginName ` set (elems (Plugins entry)))"
proof (induction entries rule: rev_induct)
  case (snoc entry entries)
  then show ?case by (auto simp: merge_contributions_snoc merge_entry_def foldl_plugins)
qed (simp add: merge_contributions_Nil empty_merged_def)

text \<open>What the entries that have an optional part say.\<close>

definition present :: "('e \<Rightarrow> 'a option) \<Rightarrow> 'e list \<Rightarrow> 'a list" where
  "present f entries = concat (map (\<lambda>entry. case f entry of None \<Rightarrow> [] | Some x \<Rightarrow> [x]) entries)"

lemma present_Nil [simp]: "present f [] = []"
  by (simp add: present_def)

lemma present_snoc [simp]: "present f (entries @ [entry]) = present f entries @ (case f entry of None \<Rightarrow> [] | Some x \<Rightarrow> [x])"
  by (simp add: present_def)

lemma in_present: "x \<in> set (present f entries) \<longleftrightarrow> (\<exists>entry \<in> set entries. f entry = Some x)"
  by (induction entries rule: rev_induct) (auto split: option.splits)

definition settings_of :: "ConfigEntry list \<Rightarrow> (string \<times> json) list list" where
  "settings_of entries = present entrySettings entries"

definition languages_of :: "ConfigEntry list \<Rightarrow> (string \<times> json) list list" where
  "languages_of entries = map (\<lambda>lo. elems (loRaw lo)) (present entryLanguageOptions entries)"

lemma elems_simps [simp]: "elems None = []" "elems (Some xs) = xs"
  by (simp_all add: elems_def)

lemma contributions_settings:
  "elems (mcSettings (merge_contributions entries)) = merge_all (settings_of entries) \<and>
   (mcSettings (merge_contributions entries) = None \<longleftrightarrow> settings_of entries = [])"
proof (induction entries rule: rev_induct)
  case Nil
  show ?case by (simp add: merge_contributions_Nil empty_merged_def settings_of_def merge_all_def)
next
  case (snoc entry entries)
  then show ?case
    by (cases "entrySettings entry") (simp_all add: merge_contributions_snoc merge_entry_def settings_of_def merge_all_def)
qed

lemma last_mention_snoc:
  "last_mention (objects @ [fs]) path = (if mentions (JObj fs) path then scalar_at (JObj fs) path else last_mention objects path)"
  by (simp add: last_mention_def)

lemma last_mention_Nil: "last_mention [] path = None"
  by (simp add: last_mention_def)

lemma contributions_language:
  assumes "\<forall>fs \<in> set (languages_of entries). json_wf (JObj fs)"
  shows "let raw = elems (raw_options (mcLanguageOptions (merge_contributions entries)))
    in json_wf (JObj raw) \<and> (path \<noteq> [] \<longrightarrow> scalar_at (JObj raw) path = last_mention (languages_of entries) path) \<and>
       (mcLanguageOptions (merge_contributions entries) = None \<longleftrightarrow> languages_of entries = [])"
  using assms
proof (induction entries rule: rev_induct)
  case Nil
  show ?case
    by (cases path) (simp_all add: merge_contributions_Nil empty_merged_def languages_of_def last_mention_def raw_options_def)
next
  case (snoc entry entries)
  let ?old = "mcLanguageOptions (merge_contributions entries)"
  let ?raw = "elems (raw_options ?old)"
  have new: "mcLanguageOptions (merge_contributions (entries @ [entry])) = mergeLanguageOptions ?old (entryLanguageOptions entry)"
    by (simp add: merge_contributions_snoc merge_entry_def)
  have sub: "\<forall>fs \<in> set (languages_of entries). json_wf (JObj fs)" using snoc.prems by (auto simp: languages_of_def)
  have IH: "json_wf (JObj ?raw)" "path \<noteq> [] \<longrightarrow> scalar_at (JObj ?raw) path = last_mention (languages_of entries) path"
    "?old = None \<longleftrightarrow> languages_of entries = []"
    using snoc.IH [OF sub] unfolding Let_def by blast+
  show ?case
  proof (cases "entryLanguageOptions entry")
    case None
    then show ?thesis using IH new by (simp add: languages_of_def mergeLanguageOptions_def Let_def)
  next
    case (Some lo)
    then have l: "languages_of (entries @ [entry]) = languages_of entries @ [elems (loRaw lo)]" by (simp add: languages_of_def)
    then have wf: "json_wf (JObj (elems (loRaw lo)))" using snoc.prems by simp
    show ?thesis
    proof (cases ?old)
      case None
      then have "mcLanguageOptions (merge_contributions (entries @ [entry])) = Some lo" "languages_of entries = []"
        using IH(3) new Some by (simp_all add: mergeLanguageOptions_def)
      then show ?thesis using wf l scalar_at_unmentioned [of "JObj (elems (loRaw lo))" path] last_mention_snoc [of "[]"]
        by (simp add: raw_options_def last_mention_Nil Let_def del: json_wf.simps)
    next
      case (Some b)
      let ?new = "mcLanguageOptions (merge_contributions (entries @ [entry]))"
      have raw: "raw_options ?new = Some (deepMergeConfigObjects ?raw (elems (loRaw lo)))" and some: "?new \<noteq> None"
        unfolding new \<open>entryLanguageOptions entry = Some lo\<close> Some by (simp_all add: mergeLanguageOptions_def raw_options_def)
      show ?thesis unfolding raw elems_simps Let_def l last_mention_snoc deepMerge_scalar_at [OF IH(1) wf]
        using json_wf_deepMerge [OF IH(1) wf] IH(2) some by (simp only: simp_thms append_is_Nil_conv list.distinct split: if_split) blast
    qed
  qed
qed

section \<open>Validated values stay valid\<close>

definition globals_valid :: "(string \<times> json) list \<Rightarrow> bool" where
  "globals_valid globals \<longleftrightarrow> (\<forall>(name, access) \<in> set globals. name = TrimSpace name \<and> snd (NormalizeGlobalAccess access))"

definition raw_valid :: "(string \<times> json) list \<Rightarrow> bool" where
  "raw_valid raw \<longleftrightarrow>
     (\<forall>v. map_of raw ''globals'' = Some v \<longrightarrow> (\<exists>globals. v = JObj globals \<and> globals_valid globals)) \<and>
     (\<forall>v. map_of raw ''sourceType'' = Some v \<longrightarrow> (\<exists>s. v = JStr s \<and> IsValidSourceType s)) \<and>
     (\<forall>v. map_of raw ''ecmaVersion'' = Some v \<longrightarrow> snd (normalizeConfigECMAVersion v))"

lemma validate_globals_iff: "validate_globals globals = None \<longleftrightarrow> globals_valid globals"
  by (induction globals rule: validate_globals.induct) (auto simp: globals_valid_def)

lemma validateConfigGlobals_iff:
  "validateConfigGlobals lo = None \<longleftrightarrow>
    (\<forall>raw v. raw_options lo = Some raw \<longrightarrow> map_of raw ''globals'' = Some v \<longrightarrow> (\<exists>globals. v = JObj globals \<and> globals_valid globals))"
  by (auto simp: validateConfigGlobals_def validate_globals_iff split: option.splits json.splits)

lemma validateConfigSourceType_iff:
  "validateConfigSourceType lo = None \<longleftrightarrow>
    (\<forall>raw v. raw_options lo = Some raw \<longrightarrow> map_of raw ''sourceType'' = Some v \<longrightarrow> (\<exists>s. v = JStr s \<and> IsValidSourceType s))"
  by (auto simp: validateConfigSourceType_def split: option.splits json.splits if_splits)

lemma validateLanguageOptions_iff: "validateLanguageOptions lo = None \<longleftrightarrow> (\<forall>raw. raw_options lo = Some raw \<longrightarrow> raw_valid raw)"
proof (cases "raw_options lo")
  case (Some raw)
  have "validateLanguageOptions lo = None \<longleftrightarrow> validateConfigGlobals lo = None \<and> validateConfigSourceType lo = None \<and>
      (\<forall>v. map_of raw ''ecmaVersion'' = Some v \<longrightarrow> snd (normalizeConfigECMAVersion v))"
    using Some by (auto simp: validateLanguageOptions_def split: option.splits)
  then show ?thesis using Some by (simp add: validateConfigGlobals_iff validateConfigSourceType_iff raw_valid_def)
qed (simp add: validateLanguageOptions_def validateConfigGlobals_def validateConfigSourceType_def)

lemma merge_value_scalar: "(\<And>fs. v \<noteq> JObj fs) \<Longrightarrow> merge_value bv v = v"
  by (simp add: merge_value_def split: json.split)

lemma access_not_object: "snd (NormalizeGlobalAccess v) \<Longrightarrow> v \<noteq> JObj fs"
  by (auto simp: NormalizeGlobalAccess_def)

lemma version_not_object: "snd (normalizeConfigECMAVersion v) \<Longrightarrow> v \<noteq> JObj fs"
  by (auto simp: normalizeConfigECMAVersion_def CoerceIntegral_def)

lemma globals_valid_merge:
  assumes "json_wf (JObj b)" and "json_wf (JObj ov)" and "globals_valid b" and "globals_valid ov"
  shows "globals_valid (deepMergeConfigObjects b ov)"
  unfolding globals_valid_def
proof (clarify)
  fix name access
  assume "(name, access) \<in> set (deepMergeConfigObjects b ov)"
  then have a: "map_of (deepMergeConfigObjects b ov) name = Some access" using json_wf_deepMerge [OF assms(1,2)] by simp
  show "name = TrimSpace name \<and> snd (NormalizeGlobalAccess access)"
  proof (cases "map_of ov name")
    case None
    then have "(name, access) \<in> set b" using a deepMerge_lookup [OF assms(1,2)] by (auto dest: map_of_SomeD)
    then show ?thesis using assms(3) by (auto simp: globals_valid_def)
  next
    case (Some v)
    then have v: "name = TrimSpace name" "snd (NormalizeGlobalAccess v)" using assms(4) by (auto simp: globals_valid_def dest: map_of_SomeD)
    then have "access = v" using a Some deepMerge_lookup [OF assms(1,2), of name] merge_value_scalar [OF access_not_object] by simp
    then show ?thesis using v by simp
  qed
qed

lemma raw_valid_merge:
  assumes "json_wf (JObj b)" and "json_wf (JObj ov)" and "raw_valid b" and "raw_valid ov"
  shows "raw_valid (deepMergeConfigObjects b ov)"
proof -
  note lookup = deepMerge_lookup [OF assms(1,2)]
  have "\<exists>globals. v = JObj globals \<and> globals_valid globals"
    if v: "map_of (deepMergeConfigObjects b ov) ''globals'' = Some v" for v
  proof (cases "map_of ov ''globals''")
    case None
    then show ?thesis using v lookup assms(3) by (simp add: raw_valid_def)
  next
    case (Some w)
    then obtain g where g: "w = JObj g" "globals_valid g" using assms(4) by (auto simp: raw_valid_def)
    show ?thesis
    proof (cases "map_of b ''globals''")
      case None
      then have "v = JObj g" using v lookup Some g(1) by (simp add: merge_value_def configObject_def)
      then show ?thesis using g(2) by blast
    next
      case (Some w')
      then obtain h where h: "w' = JObj h" "globals_valid h" using assms(3) by (auto simp: raw_valid_def)
      have "v = JObj (deepMergeConfigObjects h g)"
        using v lookup Some \<open>map_of ov ''globals'' = Some w\<close> g(1) h(1) by (simp add: merge_value_def configObject_def)
      moreover have "json_wf (JObj h)" "json_wf (JObj g)"
        using json_wf_lookup [OF assms(1) Some] json_wf_lookup [OF assms(2) \<open>map_of ov ''globals'' = Some w\<close>] g(1) h(1) by blast+
      ultimately show ?thesis using globals_valid_merge g(2) h(2) by blast
    qed
  qed
  moreover have "\<exists>s. v = JStr s \<and> IsValidSourceType s" if "map_of (deepMergeConfigObjects b ov) ''sourceType'' = Some v" for v
    using that lookup assms(3,4) by (auto simp: raw_valid_def merge_value_scalar split: option.splits)
  moreover have "snd (normalizeConfigECMAVersion v)" if "map_of (deepMergeConfigObjects b ov) ''ecmaVersion'' = Some v" for v
    using that lookup assms(3,4) version_not_object by (auto simp: raw_valid_def merge_value_scalar split: option.splits)
  ultimately show ?thesis by (simp add: raw_valid_def)
qed

text \<open>The maps of an entry have distinct keys.\<close>

definition entry_wf :: "ConfigEntry \<Rightarrow> bool" where
  "entry_wf entry \<longleftrightarrow> entry_rules_distinct entry \<and> (\<forall>settings. entrySettings entry = Some settings \<longrightarrow> json_wf (JObj settings)) \<and>
     (\<forall>lo. entryLanguageOptions entry = Some lo \<longrightarrow> json_wf (JObj (elems (loRaw lo))))"

lemma contributions_wf:
  assumes "\<forall>entry \<in> set entries. entry_wf entry"
  shows "\<forall>fs \<in> set (settings_of entries). json_wf (JObj fs)" "\<forall>fs \<in> set (languages_of entries). json_wf (JObj fs)"
    "\<forall>entry \<in> set entries. entry_rules_distinct entry"
  using assms by (auto simp: settings_of_def languages_of_def in_present entry_wf_def simp del: json_wf.simps)

lemma contributions_valid:
  assumes "\<forall>entry \<in> set entries. entry_wf entry \<and> validateLanguageOptions (entryLanguageOptions entry) = None"
  shows "validateLanguageOptions (mcLanguageOptions (merge_contributions entries)) = None"
  using assms
proof (induction entries rule: rev_induct)
  case Nil
  show ?case by (simp add: merge_contributions_Nil empty_merged_def validateLanguageOptions_iff raw_options_def)
next
  case (snoc entry entries)
  let ?old = "mcLanguageOptions (merge_contributions entries)"
  have old: "raw_valid (elems (raw_options ?old))"
    using snoc by (cases "raw_options ?old") (auto simp: validateLanguageOptions_iff raw_valid_def)
  have wf: "json_wf (JObj (elems (raw_options ?old)))"
    using contributions_language [of entries "[]"] contributions_wf(2) [of entries] snoc.prems by (simp add: Let_def)
  have new: "mcLanguageOptions (merge_contributions (entries @ [entry])) = mergeLanguageOptions ?old (entryLanguageOptions entry)"
    by (simp add: merge_contributions_snoc merge_entry_def)
  show ?case
  proof (cases "entryLanguageOptions entry = None \<or> ?old = None")
    case True
    then show ?thesis using snoc new by (auto simp: mergeLanguageOptions_def split: option.splits)
  next
    case False
    then obtain lo b where lo: "entryLanguageOptions entry = Some lo" "?old = Some b" by auto
    then have "raw_valid (elems (loRaw lo))" "json_wf (JObj (elems (loRaw lo)))"
      using snoc.prems by (cases "loRaw lo", auto simp: validateLanguageOptions_iff raw_options_def raw_valid_def entry_wf_def simp del: json_wf.simps)
    then show ?thesis using raw_valid_merge [OF wf _ old] lo new
      by (simp add: mergeLanguageOptions_def validateLanguageOptions_iff raw_options_def del: json_wf.simps)
  qed
qed

section \<open>What a file is configured with\<close>

text \<open>
  Claim C28.  Resolving the configuration of a file never panics and gives none exactly when the file is ignored, not
  selected, or no entry applies.  Otherwise the level of a rule is that of the last applying entry with a
  valid setting for it, and its options are those of the last applying entry that gives options, so that a later setting
  with a severity only keeps them; a plugin is declared exactly when an applying entry names it under any of its names.
\<close>

theorem merged_config_rules:
  assumes "\<forall>entry \<in> set config. entry_wf entry"
  shows "\<exists>answer. GetConfigForFile_direct E config filePath cwd = Some answer \<and>
    (answer = None \<longleftrightarrow> IsFileIgnored_direct E config filePath cwd \<or> \<not> isFileSelectedByConfig_direct E config filePath cwd \<or>
       contributing E filePath cwd config = []) \<and>
    (\<forall>mc. answer = Some mc \<longrightarrow>
       (\<forall>name. map_of (mcRules mc) name = decide_rule (concat (map (rule_setting name) (contributing E filePath cwd config)))) \<and>
       (\<forall>ns. map_of (mcPlugins mc) ns = Some () \<longleftrightarrow>
          (\<exists>entry \<in> set (contributing E filePath cwd config). ns \<in> NormalizePluginName ` set (elems (Plugins entry)))))"
proof -
  have "\<forall>entry \<in> set (contributing E filePath cwd config). entry_rules_distinct entry"
    using assms by (auto simp: contributing_def entry_wf_def)
  then show ?thesis unfolding GetConfigForFile_direct_eq using file_unconfigured_iff [of E config filePath cwd]
    by (auto simp: contributions_rules contributions_plugins)
qed

text \<open>
  Claim C30.  Settings and language options are merged deeply, and the last word counts: at every path below the root the
  merged value is what the last applying entry that mentions the path says there, where an entry mentions a path if it has a
  value at it or a value that is no object at a prefix of it.
\<close>

theorem merged_config_settings:
  assumes "\<forall>entry \<in> set config. entry_wf entry" and "GetConfigForFile_direct E config filePath cwd = Some (Some mc)" and "path \<noteq> []"
  shows "scalar_at (JObj (elems (mcSettings mc))) path = last_mention (settings_of (contributing E filePath cwd config)) path \<and>
    scalar_at (JObj (elems (raw_options (mcLanguageOptions mc)))) path = last_mention (languages_of (contributing E filePath cwd config)) path"
proof -
  let ?entries = "contributing E filePath cwd config"
  have mc: "mc = merge_contributions ?entries" using assms(2) unfolding GetConfigForFile_direct_eq by (simp split: if_splits)
  have "\<forall>entry \<in> set ?entries. entry_wf entry" using assms(1) by (auto simp: contributing_def)
  note wf = contributions_wf [OF this]
  show ?thesis using contributions_settings [of ?entries] merge_all_scalar_at [OF wf(1), of path] contributions_language [OF wf(2), of path] assms(3)
    unfolding mc Let_def by simp
qed

text \<open>
  Claim C29.  Well-formedness is kept by resolution: when the validation accepts a configuration, no rule setting of
  an applying entry is dropped by the merge, every merged level is one of the three severities, and the merged language
  options are valid again, so that what the rules are given is a legal edition, source type and table of globals.
\<close>

theorem merged_config_valid:
  assumes "\<forall>entry \<in> set config. entry_wf entry" and "ValidateConfig config = None"
    and "GetConfigForFile_direct E config filePath cwd = Some (Some mc)"
  shows "(\<forall>name rc. map_of (mcRules mc) name = Some rc \<longrightarrow> rcLevel rc \<in> {''off'', ''warn'', ''error''}) \<and>
    (\<forall>name. map_of (mcRules mc) name \<noteq> None \<longleftrightarrow>
       (\<exists>entry \<in> set (contributing E filePath cwd config). map_of (elems (Rules entry)) name \<noteq> None)) \<and>
    validateLanguageOptions (mcLanguageOptions mc) = None"
proof -
  let ?entries = "contributing E filePath cwd config"
  have mc: "mc = merge_contributions ?entries" using assms(3) unfolding GetConfigForFile_direct_eq by (simp split: if_splits)
  have e: "\<forall>entry \<in> set ?entries. entry_wf entry \<and> validateLanguageOptions (entryLanguageOptions entry) = None \<and>
      validateConfigRules (elems (Rules entry)) = None"
    using assms(1,2) by (auto simp: contributing_def ValidateConfig_def validate_entries_iff)
  have rules: "map_of (mcRules mc) name = decide_rule (concat (map (rule_setting name) ?entries))" for name
    unfolding mc using e by (intro contributions_rules) (auto simp: entry_wf_def)
  have nonempty: "rule_setting name entry \<noteq> [] \<longleftrightarrow> map_of (elems (Rules entry)) name \<noteq> None" if "entry \<in> set ?entries" for name entry
  proof (cases "map_of (elems (Rules entry)) name")
    case (Some v)
    then have "\<exists>r. parseRuleConfigValue v = Inr r" using e that map_of_SomeD [OF Some] unfolding validateConfigRules_iff by blast
    then show ?thesis using Some by (auto simp: rule_setting_def)
  qed (simp add: rule_setting_def)
  have "rcLevel rc \<in> {''off'', ''warn'', ''error''}" if "map_of (mcRules mc) name = Some rc" for name rc
  proof -
    let ?ss = "concat (map (rule_setting name) ?entries)"
    have ss: "?ss \<noteq> []" "rcLevel rc = rcLevel (fst (last ?ss))" using that rules by (auto simp: decide_rule_def split: if_splits)
    then obtain entry where "last ?ss \<in> set (rule_setting name entry)" using last_in_set [of ?ss] by auto
    then show ?thesis unfolding ss(2) by (rule rule_setting_level)
  qed
  moreover have "map_of (mcRules mc) name \<noteq> None \<longleftrightarrow> (\<exists>entry \<in> set ?entries. map_of (elems (Rules entry)) name \<noteq> None)" for name
  proof -
    have "map_of (mcRules mc) name \<noteq> None \<longleftrightarrow> (\<exists>entry \<in> set ?entries. rule_setting name entry \<noteq> [])"
      unfolding rules by (simp add: decide_rule_def)
    then show ?thesis using nonempty by blast
  qed
  moreover have "validateLanguageOptions (mcLanguageOptions mc) = None" unfolding mc using e by (intro contributions_valid) blast
  ultimately show ?thesis by blast
qed

section \<open>The rules of a file\<close>

definition enabled_rule :: "Catalog \<Rightarrow> MergedConfig \<Rightarrow> string \<times> RuleConfig \<Rightarrow> ConfiguredRule list" where
  "enabled_rule c mc r =
     (if IsEnabled (Some (snd r)) \<and> rule_declared mc (fst r)
      then (case Lookup c (fst r) of None \<Rightarrow> [] | Some impl \<Rightarrow> [configured_rule mc (fst r) (snd r) impl]) else [])"

lemma collect_rules_eq: "collect_rules c mc acc rules = acc @ concat (map (enabled_rule c mc) rules)"
  by (induction c mc acc rules rule: collect_rules.induct) (auto simp: enabled_rule_def split: option.split)

lemma crName_configured_rule [simp]: "crName (configured_rule mc name rc impl) = name"
  by (simp add: configured_rule_def)

lemma in_enabled_rule:
  "r \<in> set (enabled_rule c mc nr) \<longleftrightarrow> IsEnabled (Some (snd nr)) \<and> rule_declared mc (fst nr) \<and>
    (\<exists>impl. Lookup c (fst nr) = Some impl \<and> r = configured_rule mc (fst nr) (snd nr) impl)"
proof (cases "IsEnabled (Some (snd nr)) \<and> rule_declared mc (fst nr)")
  case True
  show ?thesis
  proof (cases "Lookup c (fst nr)")
    case (Some impl)
    then have "enabled_rule c mc nr = [configured_rule mc (fst nr) (snd nr) impl]" using True by (simp add: enabled_rule_def)
    then have "r \<in> set (enabled_rule c mc nr) \<longleftrightarrow> r = configured_rule mc (fst nr) (snd nr) impl" by simp
    then show ?thesis using True Some by (metis option.inject)
  next
    case None
    then have "enabled_rule c mc nr = []" by (simp add: enabled_rule_def)
    then have "r \<notin> set (enabled_rule c mc nr)" by simp
    then show ?thesis using None by (metis option.distinct(1))
  qed
next
  case False
  then have "enabled_rule c mc nr = []" unfolding enabled_rule_def by (rule if_not_P)
  then have "r \<notin> set (enabled_rule c mc nr)" by simp
  then show ?thesis using False by blast
qed

lemma distinct_enabled_rule: "distinct (map crName (enabled_rule c mc nr))"
  by (cases "Lookup c (fst nr)") (simp_all add: enabled_rule_def)

lemma enabled_rule_crName: "r \<in> set (enabled_rule c mc nr) \<Longrightarrow> crName r = fst nr"
  unfolding in_enabled_rule by (elim conjE exE) (simp only: crName_configured_rule)

lemma enabled_rule_names:
  "distinct (map fst rules) \<Longrightarrow> distinct (map crName (concat (map (enabled_rule c mc) rules)))"
proof (induction rules)
  case (Cons nr rules)
  have "crName r \<noteq> crName q" if r: "r \<in> set (enabled_rule c mc nr)" and q: "q \<in> set (concat (map (enabled_rule c mc) rules))" for r q
  proof -
    obtain nr' where "nr' \<in> set rules" "q \<in> set (enabled_rule c mc nr')" using q by auto
    then have "crName q \<in> fst ` set rules" using enabled_rule_crName by blast
    then show ?thesis using Cons.prems enabled_rule_crName [OF r] by (metis distinct.simps(2) list.set_map list.simps(9))
  qed
  then have "crName ` set (enabled_rule c mc nr) \<inter> crName ` set (concat (map (enabled_rule c mc) rules)) = {}" by blast
  then show ?case using Cons distinct_enabled_rule [of c mc nr] by (simp only: map_append list.map concat.simps distinct_append set_map) simp
qed simp

lemma cmp_rule_name_total: "cmp_total cmp_rule_name"
  using str_compare_total by (auto simp: cmp_total_def cmp_rule_name_def)

interpretation rule_sorter: func_sorter cmp_rule_name "sort_cmp cmp_rule_name"
  by (rule func_sorter_sort_cmp) (rule cmp_rule_name_total)

definition names_increase :: "ConfiguredRule list \<Rightarrow> bool" where
  "names_increase rules \<longleftrightarrow> sorted_wrt (\<lambda>a b. str_less (crName a) (crName b)) rules"

lemma ordered_names_increase:
  assumes "ordered_by cmp_rule_name rules" and "distinct (map crName rules)"
  shows "names_increase rules"
  using assms unfolding names_increase_def ordered_by_def
proof (induction rules)
  case (Cons r rules)
  have "str_less (crName r) (crName s)" if "s \<in> set rules" for s
  proof -
    have "\<not> str_less (crName s) (crName r)" using Cons.prems(1) that by (auto simp: cmp_rule_name_def str_compare_le0)
    moreover have "crName s \<noteq> crName r" using Cons.prems(2) that by (metis distinct.simps(2) imageI list.set_map list.simps(9))
    ultimately show ?thesis using str_less_linear by blast
  qed
  then show ?case using Cons by simp
qed simp

lemma names_increase_unique:
  assumes "names_increase xs" and "names_increase ys" and "set xs = set ys"
  shows "xs = ys"
  using assms
proof (induction xs arbitrary: ys)
  case (Cons x xs)
  then obtain y ys' where ys: "ys = y # ys'" by (cases ys) auto
  have "x = y"
  proof (rule ccontr)
    assume "x \<noteq> y"
    then have "y \<in> set xs" "x \<in> set ys'" using Cons.prems(3) ys by auto
    then have "str_less (crName x) (crName y)" "str_less (crName y) (crName x)"
      using Cons.prems(1,2) ys by (auto simp: names_increase_def)
    then show False using str_less_trans str_less_irrefl by blast
  qed
  moreover have "x \<notin> set xs" "y \<notin> set ys'" using Cons.prems(1,2) ys by (auto simp: names_increase_def)
  ultimately have "set xs = set ys'" using Cons.prems(3) ys by auto
  moreover have "names_increase xs" "names_increase ys'" using Cons.prems(1,2) ys by (auto simp: names_increase_def)
  ultimately show ?case using Cons.IH \<open>x = y\<close> ys by blast
qed simp

text \<open>
  Claim C31.  The configured rules of a file are in strictly increasing order of their names and are exactly the rules of the
  merged configuration that are on, whose plugin is declared, and that the catalog has, each with its
  severity, options and the shared environment.  They do not depend on the order in which the map of rules is iterated nor on
  the sorting routine.
\<close>

theorem ConfiguredRules_spec:
  assumes "func_sorter cmp_rule_name sortRules" and "distinct (map fst (mcRules mc))"
  shows "\<exists>rules. ConfiguredRules sortRules (Some c) (Some mc) = Some rules \<and> names_increase rules \<and>
    (\<forall>r. r \<in> set rules \<longleftrightarrow> (\<exists>rc impl. map_of (mcRules mc) (crName r) = Some rc \<and> IsEnabled (Some rc) \<and>
       rule_declared mc (crName r) \<and> Lookup c (crName r) = Some impl \<and> r = configured_rule mc (crName r) rc impl)) \<and>
    (\<forall>order sortRules'. mset order = mset (mcRules mc) \<longrightarrow> func_sorter cmp_rule_name sortRules' \<longrightarrow>
       ConfiguredRules sortRules' (Some c) (Some (mc\<lparr>mcRules := order\<rparr>)) = Some rules)"
proof -
  let ?collected = "\<lambda>order. concat (map (enabled_rule c mc) order)"
  have inc: "names_increase (s (?collected order))" "set (s (?collected order)) = set (?collected order)"
    if s: "func_sorter cmp_rule_name s" and "distinct (map fst order)" for s order
  proof -
    have "mset (map crName (s (?collected order))) = mset (map crName (?collected order))"
      using func_sorter.sorter_perm [OF s] by simp
    then have "distinct (map crName (s (?collected order)))"
      using enabled_rule_names [OF that(2)] by (metis mset_eq_imp_distinct_iff)
    then show "names_increase (s (?collected order))" using ordered_names_increase func_sorter.sorter_ordered [OF s] by blast
    show "set (s (?collected order)) = set (?collected order)" by (rule func_sorter.sorter_set [OF s])
  qed
  have env: "enabled_rule c (mc\<lparr>mcRules := order\<rparr>) = enabled_rule c mc" for order
  proof -
    have "rule_declared (mc\<lparr>mcRules := order\<rparr>) = rule_declared mc" "configured_rule (mc\<lparr>mcRules := order\<rparr>) = configured_rule mc"
      by (intro ext, simp add: rule_declared_def configured_rule_def rule_environment_def)+
    then show ?thesis unfolding enabled_rule_def [abs_def] by (simp only:)
  qed
  have run: "ConfiguredRules s (Some c) (Some (mc\<lparr>mcRules := order\<rparr>)) = Some (s (?collected order))" for s order
    by (simp add: ConfiguredRules_def collect_rules_eq env)
  have same: "ConfiguredRules s (Some c) (Some (mc\<lparr>mcRules := order\<rparr>)) = Some (sortRules (?collected (mcRules mc)))"
    if "mset order = mset (mcRules mc)" "func_sorter cmp_rule_name s" for order s
  proof -
    have "distinct (map fst order)" using that(1) assms(2) by (metis mset_eq_imp_distinct_iff mset_map)
    moreover have "set (?collected order) = set (?collected (mcRules mc))" using mset_eq_setD [OF that(1)] by simp
    ultimately show ?thesis using run inc [OF that(2)] inc [OF assms] names_increase_unique by metis
  qed
  have mem: "r \<in> set (?collected (mcRules mc)) \<longleftrightarrow> (\<exists>rc impl. map_of (mcRules mc) (crName r) = Some rc \<and> IsEnabled (Some rc) \<and>
       rule_declared mc (crName r) \<and> Lookup c (crName r) = Some impl \<and> r = configured_rule mc (crName r) rc impl)" for r
  proof -
    have "r \<in> set (?collected (mcRules mc)) \<longleftrightarrow> (\<exists>rc. (crName r, rc) \<in> set (mcRules mc) \<and> r \<in> set (enabled_rule c mc (crName r, rc)))"
      using enabled_rule_crName by fastforce
    then show ?thesis unfolding in_enabled_rule fst_conv snd_conv map_of_eq_Some_iff [OF assms(2)] by blast
  qed
  have "ConfiguredRules sortRules (Some c) (Some mc) = Some (sortRules (?collected (mcRules mc)))"
    using run [of sortRules "mcRules mc"] by simp
  then show ?thesis using inc [OF assms] same mem by auto
qed

section \<open>Rules of the command line\<close>

lemma cli_rules_lookup:
  assumes "cli_rules parseArray rules flags = Inr result"
  shows "map_of result name =
    (case filter (\<lambda>(n, v). n = name) (rev (map (\<lambda>f. projr (ParseCLIRuleFlag parseArray f)) flags)) of
       [] \<Rightarrow> map_of rules name | (_, v) # _ \<Rightarrow> Some v) \<and> (\<forall>f \<in> set flags. \<exists>r. ParseCLIRuleFlag parseArray f = Inr r)"
  using assms
proof (induction parseArray rules flags rule: cli_rules.induct)
  case (2 parseArray rules f flags)
  then obtain n v where f: "ParseCLIRuleFlag parseArray f = Inr (n, v)" by (auto split: sum.splits)
  have "cli_rules parseArray (al_update n v rules) flags = Inr result" using 2(2) f by simp
  note IH = 2(1) [OF f refl this]
  show ?case
    using IH f by (cases "filter (\<lambda>(n, v). n = name) (rev (map (\<lambda>f. projr (ParseCLIRuleFlag parseArray f)) flags))") auto
qed simp

lemma cli_rules_distinct: "cli_rules parseArray rules flags = Inr result \<Longrightarrow> distinct (map fst rules) \<Longrightarrow> distinct (map fst result)"
proof (induction parseArray rules flags rule: cli_rules.induct)
  case (2 parseArray rules f flags)
  then obtain n v where f: "ParseCLIRuleFlag parseArray f = Inr (n, v)" by (auto split: sum.splits)
  have "distinct (map fst (al_update n v rules))" using distinct_al_update [of rules n v] 2(3) by (simp add: al_keys_def)
  then show ?case using 2(1) [OF f refl] 2(2) f by simp
qed simp

lemma selected_append: "Files entry = None \<Longrightarrow> FilePatternGroups entry = None \<Longrightarrow>
    isFileSelectedByConfig_direct E (config @ [entry]) filePath cwd = isFileSelectedByConfig_direct E config filePath cwd"
  by (simp add: isFileSelectedByConfig_direct_def hasFileSelectors_def)

lemma extract_ignores_append:
  "\<not> isGlobalIgnoreEntry entry \<Longrightarrow> extract_ignores E acc (config @ [entry]) = extract_ignores E acc config"
  by (induction config arbitrary: acc) (auto simp: Let_def)

lemma ignored_append: "\<not> isGlobalIgnoreEntry entry \<Longrightarrow>
    IsFileIgnored_direct E (config @ [entry]) filePath cwd = IsFileIgnored_direct E config filePath cwd"
  by (simp add: IsFileIgnored_direct_def extractConfigIgnores_def extract_ignores_append)

lemma decide_rule_last: "decide_rule (settings @ [(rc, has)]) = Some r \<Longrightarrow> rcLevel r = rcLevel rc \<and> (has \<longrightarrow> rcOptions r = rcOptions rc)"
  by (auto simp: decide_rule_def)

text \<open>
  Rules given on the command line win.  The entry built from the flags, appended to any configuration,
  neither selects nor ignores a file; a file that is linted is configured, and a rule named by a flag has the severity of the last
  flag that names it, and its options if the flag has options.
\<close>

theorem cli_rules_win:
  assumes "BuildCLIRuleEntry parseArray (flags @ flag # later) = Inr (Some entry)"
    and "ParseCLIRuleFlag parseArray flag = Inr (name, v)" and "parseRuleConfigValue v = Inr (rc, has)"
    and "\<forall>f \<in> set later. \<forall>n w. ParseCLIRuleFlag parseArray f = Inr (n, w) \<longrightarrow> n \<noteq> name"
    and "\<forall>entry \<in> set config. entry_wf entry"
    and "\<not> IsFileIgnored_direct E config filePath cwd" and "isFileSelectedByConfig_direct E config filePath cwd"
  shows "\<exists>mc merged. GetConfigForFile_direct E (config @ [entry]) filePath cwd = Some (Some mc) \<and>
    map_of (mcRules mc) name = Some merged \<and> rcLevel merged = rcLevel rc \<and> (has \<longrightarrow> rcOptions merged = rcOptions rc)"
proof -
  obtain rules where r: "cli_rules parseArray [] (flags @ flag # later) = Inr rules" "entry = no_entry\<lparr>Rules := Some rules\<rparr>"
    using assms(1) by (auto simp: BuildCLIRuleEntry_def split: sum.splits)
  have parsed: "\<forall>f \<in> set later. \<exists>n w. ParseCLIRuleFlag parseArray f = Inr (n, w)"
    using cli_rules_lookup [OF r(1)] by auto
  then have "filter (\<lambda>(n, v). n = name) (rev (map (\<lambda>f. projr (ParseCLIRuleFlag parseArray f)) later)) = []"
    using assms(4) by (fastforce simp: filter_empty_conv)
  then have rule: "map_of rules name = Some v" using cli_rules_lookup [OF r(1), of name] assms(2) by simp
  have g: "\<not> isGlobalIgnoreEntry entry" "Files entry = None" "FilePatternGroups entry = None" "Ignores entry = []"
    by (simp_all add: r(2) no_entry_def isGlobalIgnoreEntry_def)
  then have applies: "entry_applies E filePath cwd entry" by (simp add: entry_applies_def hasFileSelectors_def ParseIgnorePatterns_def)
  let ?entries = "contributing E filePath cwd config @ [entry]"
  have run: "GetConfigForFile_direct E (config @ [entry]) filePath cwd = Some (Some (merge_contributions ?entries))"
    unfolding GetConfigForFile_direct_eq file_unconfigured_iff
    using assms(6,7) g applies by (simp add: ignored_append selected_append contributing_def)
  have "entry_rules_distinct entry" using cli_rules_distinct [OF r(1)] by (simp add: r(2) entry_rules_distinct_def)
  then have "\<forall>entry \<in> set ?entries. entry_rules_distinct entry" using assms(5) by (auto simp: contributing_def entry_wf_def)
  note merged = contributions_rules [OF this, of name]
  have "rule_setting name entry = [(rc, has)]" using rule assms(3) by (simp add: rule_setting_def r(2))
  then have d: "map_of (mcRules (merge_contributions ?entries)) name =
      decide_rule (concat (map (rule_setting name) (contributing E filePath cwd config)) @ [(rc, has)])" using merged by simp
  then obtain m where "map_of (mcRules (merge_contributions ?entries)) name = Some m" by (simp add: decide_rule_def)
  then show ?thesis using run decide_rule_last d by metis
qed

section \<open>A concrete configuration\<close>

text \<open>A general entry with options and a plugin, and one for a file that changes the severity only.\<close>

definition sample_entries :: "ConfigEntry list" where
  "sample_entries =
     [no_entry\<lparr>Rules := Some [(''no-var'', JArr [JStr ''error'', JStr ''x''])], Plugins := Some [''eslint-plugin-jest''],
               entrySettings := Some [(''a'', JObj [(''b'', JBool True)])]\<rparr>,
      no_entry\<lparr>Files := Some [''keep.ts''], Rules := Some [(''no-var'', JStr ''warn'')], entrySettings := Some [(''a'', JObj [(''c'', JNull)])]\<rparr>]"

lemma sample_entries_wf: "\<forall>entry \<in> set sample_entries. entry_wf entry"
  by (simp add: sample_entries_def no_entry_def entry_wf_def entry_rules_distinct_def)

lemma sample_entries_linted:
  "\<not> IsFileIgnored_direct sample_paths sample_entries ''keep.ts'' []"
  "isFileSelectedByConfig_direct sample_paths sample_entries ''keep.ts'' []"
  by (simp_all add: config_eval sample_entries_def)

lemma sample_entries_contribute: "contributing sample_paths ''keep.ts'' [] sample_entries = sample_entries"
  by (simp add: contributing_def config_eval sample_entries_def)

lemma sample_entries_configured:
  "GetConfigForFile_direct sample_paths sample_entries ''keep.ts'' [] = Some (Some (merge_contributions sample_entries))"
  using sample_entries_linted sample_entries_contribute
  by (simp add: GetConfigForFile_direct_eq file_unconfigured_iff) (simp add: sample_entries_def)

lemma sample_rule: "decide_rule (concat (map (rule_setting ''no-var'') sample_entries)) = Some \<lparr>rcLevel = ''warn'', rcOptions = [JStr ''x'']\<rparr>"
  by (simp add: decide_rule_def rule_setting_def sample_entries_def no_entry_def parseRuleConfigValue_def normalizeRuleSeverity_def)

theorem merged_config_rules_witness:
  "\<exists>mc. GetConfigForFile_direct sample_paths sample_entries ''keep.ts'' [] = Some (Some mc) \<and>
     map_of (mcRules mc) ''no-var'' = Some \<lparr>rcLevel = ''warn'', rcOptions = [JStr ''x'']\<rparr>"
  using merged_config_rules [OF sample_entries_wf, of sample_paths "''keep.ts''" "[]"] sample_rule
  unfolding sample_entries_configured sample_entries_contribute by auto

theorem merged_config_settings_witness:
  "scalar_at (JObj (elems (mcSettings (merge_contributions sample_entries)))) [''a'', ''b''] = Some (JBool True)"
proof -
  have "last_mention (settings_of sample_entries) [''a'', ''b''] = Some (JBool True)"
    by (simp add: last_mention_def settings_of_def present_def sample_entries_def no_entry_def)
  then show ?thesis
    using merged_config_settings [OF sample_entries_wf sample_entries_configured, of "[''a'', ''b'']"] sample_entries_contribute by simp
qed

theorem merged_config_valid_witness:
  "validateLanguageOptions (mcLanguageOptions (merge_contributions sample_entries)) = None \<and>
   map_of (mcRules (merge_contributions sample_entries)) ''no-var'' \<noteq> None"
proof -
  have "ValidateConfig sample_entries = None"
    unfolding ValidateConfig_def validate_entries_iff
    by (simp add: sample_entries_def no_entry_def hasFileSelectors_def validateLanguageOptions_iff raw_options_def
        parseRuleConfigValue_def normalizeRuleSeverity_def)
  moreover have "\<exists>entry \<in> set sample_entries. map_of (elems (Rules entry)) ''no-var'' \<noteq> None" by (simp add: sample_entries_def)
  ultimately show ?thesis
    using merged_config_valid [OF sample_entries_wf _ sample_entries_configured] unfolding sample_entries_contribute by blast
qed

definition sample_merged :: MergedConfig where
  "sample_merged = empty_merged\<lparr>mcRules := [(''no-var'', \<lparr>rcLevel = ''warn'', rcOptions = []\<rparr>), (''eqeqeq'', \<lparr>rcLevel = ''off'', rcOptions = []\<rparr>)]\<rparr>"

theorem ConfiguredRules_spec_witness:
  "\<exists>rules. ConfiguredRules (sort_cmp cmp_rule_name)
       (Some (NewCatalog [\<lparr>ruleName = ''no-var'', ruleIsPlugin = False, ruleRequiresTypeInfo = False\<rparr>])) (Some sample_merged) = Some rules \<and>
     names_increase rules"
proof -
  have "distinct (map fst (mcRules sample_merged))" by (simp add: sample_merged_def)
  from ConfiguredRules_spec [OF rule_sorter.func_sorter_axioms this,
      of "NewCatalog [\<lparr>ruleName = ''no-var'', ruleIsPlugin = False, ruleRequiresTypeInfo = False\<rparr>]"]
  show ?thesis by (elim exE conjE) (intro exI conjI, assumption+)
qed

lemma sample_trims: "TrimSpace ''no-var'' = ''no-var''" "TrimSpace ''off'' = ''off''"
proof -
  have "ltrim_len unicode_IsSpace ''no-var'' = 0" "rtrim_len unicode_IsSpace ''no-var'' = 0"
    "ltrim_len unicode_IsSpace ''off'' = 0" "rtrim_len unicode_IsSpace ''off'' = 0"
    by (subst ltrim_len.simps rtrim_len.simps,
        simp add: DecodeRuneInString_def DecodeLastRuneInString_def byte_at_def unicode_IsSpace_def is_Zs_def)+
  then show "TrimSpace ''no-var'' = ''no-var''" "TrimSpace ''off'' = ''off''" by (simp_all add: TrimSpace_def TrimFunc_def)
qed

theorem cli_rules_win_witness:
  "\<exists>entry mc merged. BuildCLIRuleEntry (\<lambda>_. Inr []) [''no-var:off''] = Inr (Some entry) \<and>
     GetConfigForFile_direct sample_paths (sample_entries @ [entry]) ''keep.ts'' [] = Some (Some mc) \<and>
     map_of (mcRules mc) ''no-var'' = Some merged \<and> rcLevel merged = ''off''"
proof -
  have flag: "ParseCLIRuleFlag (\<lambda>_. Inr []) ''no-var:off'' = Inr (''no-var'', JStr ''off'')"
  proof -
    have "str_index ''no-var:off'' '':'' = Some 6" by code_simp
    then show ?thesis using sample_trims by (simp add: ParseCLIRuleFlag_def has_prefix_def Let_def)
  qed
  obtain entry where build: "BuildCLIRuleEntry (\<lambda>_. Inr []) ([] @ ''no-var:off'' # []) = Inr (Some entry)"
    using flag by (simp add: BuildCLIRuleEntry_def)
  have off: "parseRuleConfigValue (JStr ''off'') = Inr (\<lparr>rcLevel = ''off'', rcOptions = []\<rparr>, False)"
    by (simp add: parseRuleConfigValue_def normalizeRuleSeverity_def)
  have "\<exists>mc merged. GetConfigForFile_direct sample_paths (sample_entries @ [entry]) ''keep.ts'' [] = Some (Some mc) \<and>
      map_of (mcRules mc) ''no-var'' = Some merged \<and> rcLevel merged = rcLevel \<lparr>rcLevel = ''off'', rcOptions = []\<rparr> \<and>
      (False \<longrightarrow> rcOptions merged = rcOptions \<lparr>rcLevel = ''off'', rcOptions = []\<rparr>)"
    by (rule cli_rules_win [OF build flag off _ sample_entries_wf sample_entries_linted]) simp
  then show ?thesis using build by auto
qed

end
