(* ===== verification/Path_Space.thy ===== *)
theory Path_Space
  imports Config_Match
begin

text \<open>
  Path identities and the coordinate systems of configuration directories: \<^verbatim>\<open>internal/config/path_space.go\<close>,
  \<^verbatim>\<open>path_identity.go\<close>, \<^verbatim>\<open>path_space_snapshot.go\<close> and \<^verbatim>\<open>internal/utils/path_identity.go\<close>.

  The path functions of typescript-go's \<open>tspath\<close> are fields of an environment, a file system (\<open>vfs.FS\<close>) is its
  \<open>Realpath\<close> (empty when it fails) and its case sensitivity; a nil file system is \<^term>\<open>None\<close>.
\<close>

section \<open>The environment\<close>

record tree_env =
  pathEnv :: path_env
  ResolvePath :: "string \<Rightarrow> string \<Rightarrow> string"
  ComparePaths :: "bool \<Rightarrow> string \<Rightarrow> string \<Rightarrow> string \<Rightarrow> int"
  StartsWithDirectory :: "bool \<Rightarrow> string \<Rightarrow> string \<Rightarrow> bool"
  GetRelativePathFromDirectory :: "bool \<Rightarrow> string \<Rightarrow> string \<Rightarrow> string \<Rightarrow> string"
  GetBaseFileName :: "string \<Rightarrow> string"
  GetRootLength :: "string \<Rightarrow> nat"
  RemoveTrailingDirectorySeparators :: "string \<Rightarrow> string"
  SplitVolumePath :: "string \<Rightarrow> (string \<times> string) option"
  ToPath :: "string \<Rightarrow> string"

record vfs =
  Realpath :: "string \<Rightarrow> string"
  UseCaseSensitiveFileNames :: bool

abbreviation normalize :: "tree_env \<Rightarrow> string \<Rightarrow> string" where
  "normalize T \<equiv> NormalizePath (pathEnv T)"

abbreviation parent_dir :: "tree_env \<Rightarrow> string \<Rightarrow> string" where
  "parent_dir T \<equiv> GetDirectoryPath (pathEnv T)"

section \<open>Identities\<close>

definition NormalizeAbsoluteDrive :: "tree_env \<Rightarrow> string \<Rightarrow> string" where
  "NormalizeAbsoluteDrive T filePath =
     (case SplitVolumePath T filePath of
        Some (volume, path) \<Rightarrow>
          if GetRootLength T filePath > length volume \<and> take (length volume) filePath \<noteq> volume then volume @ path else filePath
      | None \<Rightarrow> filePath)"

definition ExactPathID :: "tree_env \<Rightarrow> string \<Rightarrow> string" where
  "ExactPathID T filePath = NormalizeAbsoluteDrive T (ToPath T filePath)"

definition PathsEqual :: "tree_env \<Rightarrow> string \<Rightarrow> string \<Rightarrow> bool \<Rightarrow> bool" where
  "PathsEqual T left right useCaseSensitive = (ComparePaths T useCaseSensitive [] left right = 0)"

definition normalizeAuthoredBase :: "tree_env \<Rightarrow> string \<Rightarrow> string" where
  "normalizeAuthoredBase T directory =
     (let directory = normalize T directory
      in if length directory > GetRootLength T directory then RemoveTrailingDirectorySeparators T directory else directory)"

definition authoredBaseID :: "tree_env \<Rightarrow> string \<Rightarrow> string" where
  "authoredBaseID T directory = ExactPathID T (normalizeAuthoredBase T directory)"

definition RelativePathWithinConfigRoot :: "tree_env \<Rightarrow> string \<Rightarrow> string \<Rightarrow> bool \<Rightarrow> string option" where
  "RelativePathWithinConfigRoot T filePath configDir useCaseSensitive =
     (let filePath = NormalizeAbsoluteDrive T filePath; configDir = NormalizeAbsoluteDrive T configDir
      in if ComparePaths T useCaseSensitive configDir filePath configDir = 0 then Some []
         else if \<not> StartsWithDirectory T useCaseSensitive filePath configDir then None
         else Some (GetRelativePathFromDirectory T useCaseSensitive configDir configDir filePath))"

definition isPathWithinNormalizedRoot :: "tree_env \<Rightarrow> string \<Rightarrow> string \<Rightarrow> bool" where
  "isPathWithinNormalizedRoot T filePath root =
     (let filePath = NormalizeAbsoluteDrive T filePath; root = NormalizeAbsoluteDrive T root
      in filePath = root \<or> StartsWithDirectory T True filePath root)"

definition isPathWithinRootCaseInsensitive :: "tree_env \<Rightarrow> string \<Rightarrow> string \<Rightarrow> bool" where
  "isPathWithinRootCaseInsensitive T path root = (RelativePathWithinConfigRoot T path root False \<noteq> None)"

record PathIdentity =
  piPath :: string
  CanonicalPath :: string
  CanonicalParentPath :: string

record DirectoryIdentity =
  diLexicalPath :: string
  diCanonicalPath :: string

text \<open>\<open>fsys.Realpath\<close>, normalized, or the given path when there is no file system or it fails.\<close>

definition realpath_or :: "tree_env \<Rightarrow> vfs option \<Rightarrow> string \<Rightarrow> string \<Rightarrow> string" where
  "realpath_or T fsys path dflt =
     (case fsys of None \<Rightarrow> dflt | Some fs \<Rightarrow> if Realpath fs path \<noteq> [] then normalize T (Realpath fs path) else dflt)"

definition ResolveDirectoryIdentities :: "tree_env \<Rightarrow> string list option \<Rightarrow> vfs option \<Rightarrow> DirectoryIdentity list option" where
  "ResolveDirectoryIdentities T directories fsys =
     map_option (map (\<lambda>directory.
       let lexicalPath = normalize T directory
       in \<lparr>diLexicalPath = lexicalPath, diCanonicalPath = realpath_or T fsys lexicalPath lexicalPath\<rparr>)) directories"

definition directory_contains :: "tree_env \<Rightarrow> DirectoryIdentity \<Rightarrow> DirectoryIdentity \<Rightarrow> bool" where
  "directory_contains T parent child =
     (case RelativePathWithinConfigRoot T (diLexicalPath child) (diLexicalPath parent) True of
        None \<Rightarrow> False
      | Some lexicalRelative \<Rightarrow>
          (case RelativePathWithinConfigRoot T (diCanonicalPath child) (diCanonicalPath parent) True of
             None \<Rightarrow> False
           | Some canonicalRelative \<Rightarrow> ExactPathID T lexicalRelative = ExactPathID T canonicalRelative))"

fun coalesce :: "tree_env \<Rightarrow> DirectoryIdentity list \<Rightarrow> DirectoryIdentity list \<Rightarrow> DirectoryIdentity list" where
  "coalesce T roots [] = roots"
| "coalesce T roots (candidate # rest) =
     (if list_ex (\<lambda>existing. directory_contains T existing candidate) roots then coalesce T roots rest
      else coalesce T (filter (\<lambda>existing. \<not> directory_contains T candidate existing) roots @ [candidate]) rest)"

definition CoalesceDirectoryIdentities :: "tree_env \<Rightarrow> string list option \<Rightarrow> vfs option \<Rightarrow> DirectoryIdentity list option" where
  "CoalesceDirectoryIdentities T directories fsys =
     (case ResolveDirectoryIdentities T directories fsys of
        None \<Rightarrow> None
      | Some resolved \<Rightarrow> if length resolved = 0 then None else Some (coalesce T [] resolved))"

section \<open>The coordinate system of a directory\<close>

definition expectedPhysicalFileFromLexicalPathWithCanonicalParent ::
  "tree_env \<Rightarrow> string \<Rightarrow> string \<Rightarrow> vfs option \<Rightarrow> string" where
  "expectedPhysicalFileFromLexicalPathWithCanonicalParent T filePath canonicalParentPath fsys =
     (let physicalParent =
            (if canonicalParentPath \<noteq> [] then canonicalParentPath
             else (case fsys of None \<Rightarrow> [] | Some fs \<Rightarrow> Realpath fs (parent_dir T filePath)))
      in if physicalParent = [] then filePath
         else ResolvePath T (normalize T physicalParent) (GetBaseFileName T filePath))"

definition hasDistinctFileIdentityWithCanonicalParent :: "tree_env \<Rightarrow> string \<Rightarrow> string \<Rightarrow> string \<Rightarrow> vfs option \<Rightarrow> bool" where
  "hasDistinctFileIdentityWithCanonicalParent T filePath canonicalPath canonicalParentPath fsys =
     (ComparePaths T True [] (expectedPhysicalFileFromLexicalPathWithCanonicalParent T filePath canonicalParentPath fsys) canonicalPath \<noteq> 0)"

definition pathUsesVerifiedConfigAlias :: "tree_env \<Rightarrow> string \<Rightarrow> string list \<Rightarrow> bool" where
  "pathUsesVerifiedConfigAlias T path physicalAncestors =
     list_ex (\<lambda>ancestor. RelativePathWithinConfigRoot T path ancestor True \<noteq> None) physicalAncestors"

text \<open>One turn of the loop over the ancestors of the directory.\<close>

definition alias_ancestor :: "tree_env \<Rightarrow> vfs \<Rightarrow> string \<Rightarrow> string \<Rightarrow> string \<Rightarrow> string list \<Rightarrow> string list" where
  "alias_ancestor T fs configDir physicalConfigDir current ancestors =
     (let physicalCurrent = (if current = configDir then physicalConfigDir else Realpath fs current)
      in if physicalCurrent = [] then ancestors
         else (let physicalCurrent = normalize T physicalCurrent
               in if PathsEqual T current physicalCurrent True then ancestors
                  else (case RelativePathWithinConfigRoot T configDir current True of
                          None \<Rightarrow> ancestors
                        | Some relativeConfig \<Rightarrow>
                            if PathsEqual T (ResolvePath T physicalCurrent relativeConfig) physicalConfigDir True \<and>
                               \<not> list_ex (\<lambda>ancestor. PathsEqual T ancestor physicalCurrent True) ancestors
                            then ancestors @ [physicalCurrent] else ancestors)))"

text \<open>
  The loops go up one directory per turn.  \<open>GetDirectoryPath\<close> shortens every path that is not a root, so that the length
  of the path bounds the number of turns.
\<close>

fun alias_ancestors :: "tree_env \<Rightarrow> vfs \<Rightarrow> string \<Rightarrow> string \<Rightarrow> nat \<Rightarrow> string \<Rightarrow> string list \<Rightarrow> string list" where
  "alias_ancestors T fs configDir physicalConfigDir 0 current ancestors = ancestors"
| "alias_ancestors T fs configDir physicalConfigDir (Suc n) current ancestors =
     (if current = [] then ancestors
      else if parent_dir T current = current then ancestors
      else alias_ancestors T fs configDir physicalConfigDir n (parent_dir T current)
             (alias_ancestor T fs configDir physicalConfigDir current ancestors))"

definition verifiedConfigAliasAncestors :: "tree_env \<Rightarrow> string \<Rightarrow> string \<Rightarrow> vfs option \<Rightarrow> string list" where
  "verifiedConfigAliasAncestors T configDir physicalConfigDir fsys =
     (case fsys of
        None \<Rightarrow> []
      | Some fs \<Rightarrow> alias_ancestors T fs configDir physicalConfigDir (length configDir + 1) configDir [])"

fun up_path :: "tree_env \<Rightarrow> nat \<Rightarrow> string \<Rightarrow> string \<Rightarrow> string" where
  "up_path T 0 remaining aliasRoot = aliasRoot"
| "up_path T (Suc n) remaining aliasRoot =
     (if remaining = [] then aliasRoot else up_path T n (parent_dir T remaining) (parent_dir T aliasRoot))"

text \<open>The spelling of the file that differs from the directory in case only, when the file system confirms it.\<close>

definition case_alias_space ::
  "tree_env \<Rightarrow> string \<Rightarrow> string \<Rightarrow> string \<Rightarrow> string \<Rightarrow> vfs \<Rightarrow> bool" where
  "case_alias_space T filePath canonicalParentPath physicalConfigDir relative fs =
     (if canonicalParentPath \<noteq> []
      then RelativePathWithinConfigRoot T
             (expectedPhysicalFileFromLexicalPathWithCanonicalParent T filePath canonicalParentPath (Some fs)) physicalConfigDir True \<noteq> None
      else (let realRoot = Realpath fs (up_path T (length relative + 1) relative filePath)
            in realRoot \<noteq> [] \<and> ComparePaths T True [] (normalize T realRoot) physicalConfigDir = 0))"

definition resolveConfigPathSpaceWithCanonicalParent ::
  "tree_env \<Rightarrow> string \<Rightarrow> string \<Rightarrow> string \<Rightarrow> string \<Rightarrow> string \<Rightarrow> string list \<Rightarrow> vfs option \<Rightarrow> bool \<Rightarrow> string \<times> string" where
  "resolveConfigPathSpaceWithCanonicalParent T filePath canonicalPath canonicalParentPath configDir physicalConfigDir
       physicalAliasAncestors fsys preserveDistinctFileSymlink =
     (if configDir = physicalConfigDir \<and> isPathWithinNormalizedRoot T filePath configDir then (filePath, configDir)
      else case RelativePathWithinConfigRoot T filePath configDir True of
        Some relative \<Rightarrow> (ResolvePath T physicalConfigDir relative, physicalConfigDir)
      | None \<Rightarrow>
      (case RelativePathWithinConfigRoot T filePath physicalConfigDir True of
        Some relative \<Rightarrow> (ResolvePath T physicalConfigDir relative, physicalConfigDir)
      | None \<Rightarrow>
          (let folded = RelativePathWithinConfigRoot T filePath configDir False;
               aliased = (case folded of
                            None \<Rightarrow> False
                          | Some relative \<Rightarrow>
                              (case fsys of None \<Rightarrow> False | Some fs \<Rightarrow> case_alias_space T filePath canonicalParentPath physicalConfigDir relative fs))
           in if aliased then (ResolvePath T physicalConfigDir (the folded), physicalConfigDir)
              else (let physicalFilePath = (if canonicalPath \<noteq> [] then normalize T canonicalPath else []);
                        physicalFilePath = (if physicalFilePath = [] then realpath_or T fsys filePath filePath else physicalFilePath)
                    in if folded \<noteq> None then (physicalFilePath, physicalConfigDir)
                       else (let expectedPhysicalFile =
                                   (if preserveDistinctFileSymlink
                                    then expectedPhysicalFileFromLexicalPathWithCanonicalParent T filePath canonicalParentPath fsys
                                    else physicalFilePath);
                                 targetHasDistinctLeafIdentity =
                                   (preserveDistinctFileSymlink \<and>
                                    hasDistinctFileIdentityWithCanonicalParent T filePath physicalFilePath canonicalParentPath fsys)
                             in if pathUsesVerifiedConfigAlias T expectedPhysicalFile physicalAliasAncestors
                                then (expectedPhysicalFile, physicalConfigDir)
                                else (case (if targetHasDistinctLeafIdentity then None
                                            else RelativePathWithinConfigRoot T physicalFilePath physicalConfigDir True) of
                                        Some relative \<Rightarrow> (ResolvePath T physicalConfigDir relative, physicalConfigDir)
                                      | None \<Rightarrow> (filePath, configDir)))))))"

definition resolveConfigPathSpace ::
  "tree_env \<Rightarrow> string \<Rightarrow> string \<Rightarrow> string \<Rightarrow> string \<Rightarrow> string list \<Rightarrow> vfs option \<Rightarrow> bool \<Rightarrow> string \<times> string" where
  "resolveConfigPathSpace T filePath canonicalPath configDir physicalConfigDir physicalAliasAncestors fsys preserveDistinctFileSymlink =
     resolveConfigPathSpaceWithCanonicalParent T filePath canonicalPath [] configDir physicalConfigDir physicalAliasAncestors fsys
       preserveDistinctFileSymlink"

definition ResolveConfigFilePathSpaceForTarget :: "tree_env \<Rightarrow> PathIdentity \<Rightarrow> string \<Rightarrow> vfs option \<Rightarrow> string \<times> string" where
  "ResolveConfigFilePathSpaceForTarget T target configDir fsys =
     (let filePath = normalize T (piPath target); configDir = normalize T configDir
      in if configDir = [] then (filePath, [])
         else (let physicalConfigDir = realpath_or T fsys configDir configDir
               in resolveConfigPathSpaceWithCanonicalParent T filePath (CanonicalPath target) (CanonicalParentPath target) configDir
                    physicalConfigDir (verifiedConfigAliasAncestors T configDir physicalConfigDir fsys) fsys True))"

definition ResolveConfigFilePathSpaceWithCanonical :: "tree_env \<Rightarrow> string \<Rightarrow> string \<Rightarrow> string \<Rightarrow> vfs option \<Rightarrow> string \<times> string" where
  "ResolveConfigFilePathSpaceWithCanonical T filePath canonicalPath configDir fsys =
     ResolveConfigFilePathSpaceForTarget T \<lparr>piPath = filePath, CanonicalPath = canonicalPath, CanonicalParentPath = []\<rparr> configDir fsys"

definition ResolveConfigFilePathSpace :: "tree_env \<Rightarrow> string \<Rightarrow> string \<Rightarrow> vfs option \<Rightarrow> string \<times> string" where
  "ResolveConfigFilePathSpace T filePath configDir fsys = ResolveConfigFilePathSpaceWithCanonical T filePath [] configDir fsys"

definition ResolveConfigDirectoryPathSpace :: "tree_env \<Rightarrow> string \<Rightarrow> string \<Rightarrow> vfs option \<Rightarrow> string \<times> string" where
  "ResolveConfigDirectoryPathSpace T directory configDir fsys =
     (let directory = normalize T directory; configDir = normalize T configDir
      in if configDir = [] then (directory, [])
         else (let physicalConfigDir = realpath_or T fsys configDir configDir;
                   canonicalDirectory = realpath_or T fsys directory directory
               in if RelativePathWithinConfigRoot T physicalConfigDir canonicalDirectory True \<noteq> None
                  then (canonicalDirectory, physicalConfigDir)
                  else resolveConfigPathSpace T directory canonicalDirectory configDir physicalConfigDir
                         (verifiedConfigAliasAncestors T configDir physicalConfigDir fsys) fsys False))"

section \<open>Snapshots\<close>

record configTargetBase =
  tbDirectory :: string
  tbPhysicalDirectory :: string
  tbPhysicalAliasAncestors :: "string list"

definition freezeConfigTargetBase :: "tree_env \<Rightarrow> string \<Rightarrow> vfs option \<Rightarrow> configTargetBase" where
  "freezeConfigTargetBase T directory fsys =
     (let directory = normalizeAuthoredBase T directory; physicalDirectory = realpath_or T fsys directory directory
      in \<lparr>tbDirectory = directory, tbPhysicalDirectory = physicalDirectory,
          tbPhysicalAliasAncestors = verifiedConfigAliasAncestors T directory physicalDirectory fsys\<rparr>)"

type_synonym PathSpaceSnapshot = "(string \<times> configTargetBase) list"

definition freeze_base :: "tree_env \<Rightarrow> vfs option \<Rightarrow> string \<Rightarrow> PathSpaceSnapshot \<Rightarrow> PathSpaceSnapshot" where
  "freeze_base T fsys directory bases =
     (let directory = normalizeAuthoredBase T directory; baseID = authoredBaseID T directory
      in if map_of bases baseID \<noteq> None then bases else al_update baseID (freezeConfigTargetBase T directory fsys) bases)"

fun freeze_entries :: "tree_env \<Rightarrow> vfs option \<Rightarrow> string \<Rightarrow> ConfigEntry list \<Rightarrow> PathSpaceSnapshot \<Rightarrow> PathSpaceSnapshot" where
  "freeze_entries T fsys configDir [] bases = bases"
| "freeze_entries T fsys configDir (entry # entries) bases =
     (let origin = configEntryPathOrigin (ResolvePath T) entry configDir;
          bases = freeze_base T fsys (pbDirectory origin) bases
      in freeze_entries T fsys configDir entries (if pbBasePathScoped origin then freeze_base T fsys (pbConfigArrayBase origin) bases else bases))"

definition NewPathSpaceSnapshot :: "tree_env \<Rightarrow> (string \<times> ConfigEntry list) list \<Rightarrow> vfs option \<Rightarrow> PathSpaceSnapshot" where
  "NewPathSpaceSnapshot T configMap fsys =
     foldl (\<lambda>bases (configDir, entries). freeze_entries T fsys configDir entries (freeze_base T fsys configDir bases)) [] configMap"

definition snapshot_base :: "tree_env \<Rightarrow> PathSpaceSnapshot option \<Rightarrow> string \<Rightarrow> configTargetBase option" where
  "snapshot_base T snapshot directory = (case snapshot of None \<Rightarrow> None | Some bases \<Rightarrow> map_of bases (authoredBaseID T directory))"

datatype snapshot_error = ErrSnapshotRequired | ErrMissingBase string

definition requireBase :: "tree_env \<Rightarrow> PathSpaceSnapshot option \<Rightarrow> string \<Rightarrow> snapshot_error + configTargetBase" where
  "requireBase T snapshot directory =
     (if snapshot = None then Inl ErrSnapshotRequired
      else (case snapshot_base T snapshot directory of
              None \<Rightarrow> Inl (ErrMissingBase (normalize T directory))
            | Some b \<Rightarrow> Inr b))"

definition PhysicalDirectory :: "tree_env \<Rightarrow> PathSpaceSnapshot option \<Rightarrow> string \<Rightarrow> string option" where
  "PhysicalDirectory T snapshot directory = map_option tbPhysicalDirectory (snapshot_base T snapshot directory)"

definition SameDirectory :: "tree_env \<Rightarrow> PathSpaceSnapshot option \<Rightarrow> string \<Rightarrow> string \<Rightarrow> bool \<Rightarrow> bool" where
  "SameDirectory T snapshot left right useCaseSensitive =
     (let left = normalize T left; right = normalize T right
      in if ExactPathID T left = ExactPathID T right then True
         else if useCaseSensitive \<or> \<not> PathsEqual T left right False then False
         else (case (snapshot_base T snapshot left, snapshot_base T snapshot right) of
                 (Some l, Some r) \<Rightarrow> ExactPathID T (tbPhysicalDirectory l) = ExactPathID T (tbPhysicalDirectory r)
               | _ \<Rightarrow> False))"

definition snapshot_ResolvePath :: "tree_env \<Rightarrow> PathSpaceSnapshot option \<Rightarrow> string \<Rightarrow> string \<Rightarrow> vfs option \<Rightarrow> snapshot_error + string \<times> string" where
  "snapshot_ResolvePath T snapshot path configDir fsys =
     (case requireBase T snapshot configDir of
        Inl e \<Rightarrow> Inl e
      | Inr b \<Rightarrow> Inr (resolveConfigPathSpaceWithCanonicalParent T (normalize T path) [] [] (tbDirectory b) (tbPhysicalDirectory b)
                        (tbPhysicalAliasAncestors b) fsys True))"

section \<open>A concrete tree\<close>

definition sample_tree :: tree_env where
  "sample_tree = \<lparr>pathEnv = sample_paths, ResolvePath = \<lambda>a b. a @ sl # b, ComparePaths = \<lambda>_ _ a b. if a = b then 0 else 1,
     StartsWithDirectory = \<lambda>_ a b. has_prefix a (b @ ''/''), GetRelativePathFromDirectory = \<lambda>_ _ b a. drop (length b + 1) a,
     GetBaseFileName = \<lambda>s. s, GetRootLength = \<lambda>_. 0, RemoveTrailingDirectorySeparators = \<lambda>s. s, SplitVolumePath = \<lambda>_. None,
     ToPath = \<lambda>s. s\<rparr>"

section \<open>Enough turns\<close>

text \<open>
  \<open>GetDirectoryPath\<close> returns a root unchanged and shortens every other path: more turns than the length of the path change
  nothing.
\<close>

lemma alias_ancestors_turns:
  assumes "\<And>p. parent_dir T p = p \<or> length (parent_dir T p) < length p" and "length current < n" and "n \<le> m"
  shows "alias_ancestors T fs configDir physicalConfigDir m current ancestors = alias_ancestors T fs configDir physicalConfigDir n current ancestors"
  using assms(2,3)
proof (induction n arbitrary: m current ancestors)
  case (Suc n)
  then obtain m' where m: "m = Suc m'" "n \<le> m'" by (cases m) auto
  show ?case
  proof (cases "current = [] \<or> parent_dir T current = current")
    case False
    then have "length (parent_dir T current) < n" using assms(1) [of current] Suc.prems(1) by auto
    from Suc.IH [OF this m(2)] show ?thesis using False by (simp add: m(1))
  qed (auto simp: m)
qed simp

lemma up_path_turns:
  assumes "\<And>k. (parent_dir T ^^ k) remaining \<noteq> [] \<Longrightarrow> length ((parent_dir T ^^ Suc k) remaining) < length ((parent_dir T ^^ k) remaining)"
    and "length remaining < n" and "n \<le> m"
  shows "up_path T m remaining aliasRoot = up_path T n remaining aliasRoot"
  using assms
proof (induction n arbitrary: m remaining aliasRoot)
  case (Suc n)
  then obtain m' where m: "m = Suc m'" "n \<le> m'" by (cases m) auto
  show ?case
  proof (cases "remaining = []")
    case False
    then have "length (parent_dir T remaining) < n" using Suc.prems(1) [of 0] Suc.prems(2) by simp
    moreover have "length ((parent_dir T ^^ Suc k) (parent_dir T remaining)) < length ((parent_dir T ^^ k) (parent_dir T remaining))"
      if "(parent_dir T ^^ k) (parent_dir T remaining) \<noteq> []" for k
      using Suc.prems(1) [of "Suc k"] that by (simp add: funpow_swap1)
    ultimately have "up_path T m' (parent_dir T remaining) (parent_dir T aliasRoot) = up_path T n (parent_dir T remaining) (parent_dir T aliasRoot)"
      using Suc.IH m(2) by blast
    then show ?thesis using False by (simp add: m(1))
  qed (simp add: m)
qed simp

section \<open>Coalescing directories\<close>

text \<open>Containment is a preorder on the directories.\<close>

definition containment_laws :: "tree_env \<Rightarrow> DirectoryIdentity set \<Rightarrow> bool" where
  "containment_laws T S \<longleftrightarrow> (\<forall>a \<in> S. directory_contains T a a) \<and>
     (\<forall>a \<in> S. \<forall>b \<in> S. \<forall>c \<in> S. directory_contains T a b \<longrightarrow> directory_contains T b c \<longrightarrow> directory_contains T a c)"

abbreviation independent :: "tree_env \<Rightarrow> DirectoryIdentity \<Rightarrow> DirectoryIdentity \<Rightarrow> bool" where
  "independent T a b \<equiv> \<not> directory_contains T a b \<and> \<not> directory_contains T b a"

lemma coalesce_spec:
  assumes "containment_laws T S" and "set roots \<subseteq> S" and "set rest \<subseteq> S" and "sorted_wrt (independent T) roots"
  shows "set (coalesce T roots rest) \<subseteq> set roots \<union> set rest \<and> sorted_wrt (independent T) (coalesce T roots rest) \<and>
    (\<forall>d \<in> set roots \<union> set rest. \<exists>r \<in> set (coalesce T roots rest). directory_contains T r d)"
  using assms(2-4)
proof (induction rest arbitrary: roots)
  case Nil
  then show ?case using assms(1) unfolding containment_laws_def by auto
next
  case (Cons candidate rest)
  have trans: "directory_contains T a c" if "directory_contains T a b" "directory_contains T b c" "a \<in> S" "b \<in> S" "c \<in> S" for a b c
    using assms(1) that unfolding containment_laws_def by blast
  show ?case
  proof (cases "list_ex (\<lambda>existing. directory_contains T existing candidate) roots")
    case True
    then obtain r where r: "r \<in> set roots" "directory_contains T r candidate" by (auto simp: list_ex_iff)
    note IH = Cons.IH [of roots]
    have spec: "set (coalesce T roots rest) \<subseteq> set roots \<union> set rest" "sorted_wrt (independent T) (coalesce T roots rest)"
      "\<forall>d \<in> set roots \<union> set rest. \<exists>r \<in> set (coalesce T roots rest). directory_contains T r d"
      using IH Cons.prems by auto
    then obtain q where "q \<in> set (coalesce T roots rest)" "directory_contains T q r" using r(1) by blast
    moreover have "q \<in> S" "r \<in> S" "candidate \<in> S" using calculation spec(1) r(1) Cons.prems by auto
    ultimately have "\<exists>q \<in> set (coalesce T roots rest). directory_contains T q candidate" using trans r(2) by blast
    then show ?thesis using spec True by auto
  next
    case False
    let ?kept = "filter (\<lambda>existing. \<not> directory_contains T candidate existing) roots"
    have sorted: "sorted_wrt (independent T) (?kept @ [candidate])"
      using Cons.prems(3) False by (auto simp: sorted_wrt_append sorted_wrt_filter list_ex_iff)
    have spec: "set (coalesce T (?kept @ [candidate]) rest) \<subseteq> set (?kept @ [candidate]) \<union> set rest"
      "sorted_wrt (independent T) (coalesce T (?kept @ [candidate]) rest)"
      "\<forall>d \<in> set (?kept @ [candidate]) \<union> set rest. \<exists>r \<in> set (coalesce T (?kept @ [candidate]) rest). directory_contains T r d"
      using Cons.IH [of "?kept @ [candidate]", OF _ _ sorted] Cons.prems by auto
    then obtain q where q: "q \<in> set (coalesce T (?kept @ [candidate]) rest)" "directory_contains T q candidate" by auto
    then have "q \<in> S" using spec(1) Cons.prems by auto
    then have "\<exists>r \<in> set (coalesce T (?kept @ [candidate]) rest). directory_contains T r d" if "d \<in> set roots" for d
      using that spec(3) q trans [of q candidate d] Cons.prems by (cases "directory_contains T candidate d") auto
    then show ?thesis using spec False by auto
  qed
qed

text \<open>
  Coalescing directories keeps a smallest cover: every given directory lies, both as written and
  physically, within a kept one, the kept ones are among the given ones, and no kept directory contains another.
\<close>

theorem CoalesceDirectoryIdentities_covers:
  assumes "ResolveDirectoryIdentities T directories fsys = Some resolved" and "resolved \<noteq> []" and "containment_laws T (set resolved)"
  shows "\<exists>roots. CoalesceDirectoryIdentities T directories fsys = Some roots \<and> set roots \<subseteq> set resolved \<and>
    (\<forall>d \<in> set resolved. \<exists>r \<in> set roots. directory_contains T r d) \<and>
    (\<forall>i < length roots. \<forall>j < length roots. i \<noteq> j \<longrightarrow> \<not> directory_contains T (roots ! i) (roots ! j))"
proof -
  have spec: "set (coalesce T [] resolved) \<subseteq> set resolved" "sorted_wrt (independent T) (coalesce T [] resolved)"
    "\<forall>d \<in> set resolved. \<exists>r \<in> set (coalesce T [] resolved). directory_contains T r d"
    using coalesce_spec [OF assms(3), of "[]" resolved] by auto
  have "\<not> directory_contains T (coalesce T [] resolved ! i) (coalesce T [] resolved ! j)"
    if "i < length (coalesce T [] resolved)" "j < length (coalesce T [] resolved)" "i \<noteq> j" for i j
    using spec(2) that unfolding sorted_wrt_iff_nth_less by (metis linorder_neqE_nat)
  then show ?thesis using assms(1,2) spec by (simp add: CoalesceDirectoryIdentities_def)
qed

theorem CoalesceDirectoryIdentities_covers_witness:
  "\<exists>roots. CoalesceDirectoryIdentities sample_tree (Some [''a/b'', ''a'', ''c'']) None = Some roots \<and>
    (\<exists>r \<in> set roots. directory_contains sample_tree r \<lparr>diLexicalPath = ''a/b'', diCanonicalPath = ''a/b''\<rparr>)"
proof -
  let ?d = "map (\<lambda>d. \<lparr>diLexicalPath = d, diCanonicalPath = d\<rparr>) [''a/b'', ''a'', ''c'']"
  have r: "ResolveDirectoryIdentities sample_tree (Some [''a/b'', ''a'', ''c'']) None = Some ?d"
    by (simp add: ResolveDirectoryIdentities_def realpath_or_def sample_tree_def sample_paths_def)
  have "directory_contains sample_tree \<lparr>diLexicalPath = a, diCanonicalPath = a\<rparr> \<lparr>diLexicalPath = b, diCanonicalPath = b\<rparr> \<longleftrightarrow>
      b = a \<or> has_prefix b (a @ ''/'')" for a b
    by (auto simp: directory_contains_def RelativePathWithinConfigRoot_def NormalizeAbsoluteDrive_def sample_tree_def Let_def)
  then have "containment_laws sample_tree (set ?d)" by (simp add: containment_laws_def has_prefix_def)
  from CoalesceDirectoryIdentities_covers [OF r _ this] show ?thesis by auto
qed

section \<open>Completeness of a snapshot\<close>

definition frozen :: "tree_env \<Rightarrow> string \<Rightarrow> PathSpaceSnapshot \<Rightarrow> bool" where
  "frozen T directory bases \<longleftrightarrow> map_of bases (authoredBaseID T directory) \<noteq> None"

definition same_base :: "tree_env \<Rightarrow> string \<Rightarrow> string \<Rightarrow> bool" where
  "same_base T d e \<longleftrightarrow> authoredBaseID T d = authoredBaseID T e"

lemma freeze_base_frozen:
  assumes "\<And>d. normalizeAuthoredBase T (normalizeAuthoredBase T d) = normalizeAuthoredBase T d"
  shows "frozen T d (freeze_base T fsys e bases) \<longleftrightarrow> same_base T d e \<or> frozen T d bases"
  using assms by (auto simp: frozen_def same_base_def freeze_base_def authoredBaseID_def Let_def)

text \<open>The directories an entry is relative to.\<close>

definition entry_directories :: "tree_env \<Rightarrow> string \<Rightarrow> ConfigEntry \<Rightarrow> string list" where
  "entry_directories T configDir entry =
     (let origin = configEntryPathOrigin (ResolvePath T) entry configDir
      in pbDirectory origin # (if pbBasePathScoped origin then [pbConfigArrayBase origin] else []))"

lemma freeze_entries_frozen:
  assumes "\<And>d. normalizeAuthoredBase T (normalizeAuthoredBase T d) = normalizeAuthoredBase T d"
  shows "frozen T d (freeze_entries T fsys configDir entries bases) \<longleftrightarrow>
    (\<exists>entry \<in> set entries. \<exists>e \<in> set (entry_directories T configDir entry). same_base T d e) \<or> frozen T d bases"
  by (induction entries arbitrary: bases) (auto simp: Let_def entry_directories_def freeze_base_frozen [OF assms])

definition config_directories :: "tree_env \<Rightarrow> string \<times> ConfigEntry list \<Rightarrow> string list" where
  "config_directories T c = fst c # concat (map (entry_directories T (fst c)) (snd c))"

lemma snapshot_frozen:
  assumes "\<And>d. normalizeAuthoredBase T (normalizeAuthoredBase T d) = normalizeAuthoredBase T d"
  shows "frozen T d (foldl (\<lambda>bases (configDir, entries). freeze_entries T fsys configDir entries (freeze_base T fsys configDir bases)) bases configMap) \<longleftrightarrow>
    (\<exists>c \<in> set configMap. \<exists>e \<in> set (config_directories T c). same_base T d e) \<or> frozen T d bases"
  by (induction configMap arbitrary: bases)
    (auto simp: config_directories_def freeze_base_frozen [OF assms] freeze_entries_frozen [OF assms])

lemma requireBase_frozen: "frozen T d bases \<Longrightarrow> \<exists>b. requireBase T (Some bases) d = Inr b"
  by (auto simp: frozen_def requireBase_def snapshot_base_def)

end
