(* ===== verification/Target.thy ===== *)
theory Target
  imports Path_Space
begin

text \<open>
  The target resolver, \<^verbatim>\<open>internal/config/config_target_resolver.go\<close>, which matches a file against a configuration whose
  entries may have base directories of their own and collected Git rules, with the matchers built on it
  (\<^verbatim>\<open>ignore_pattern.go\<close>, \<^verbatim>\<open>target_matcher.go\<close>).

  The resolver's cache of directory decisions is threaded through the functions that use it.  Base indices are always in
  range: the resolver creates one match per base.
\<close>

section \<open>The resolver\<close>

record ignorePatternCoordinateGroup =
  cgPatterns :: "IgnorePattern list"
  cgNegationReach :: "negPrefix list"

record configTargetEntry =
  baseIndex :: nat
  configArrayBaseIndex :: "nat option"
  teIgnorePatterns :: "IgnorePattern list"
  teGitScopes :: "collectedGitignoreScope list"
  ignorePatternGroups :: "ignorePatternCoordinateGroup list"

record configTargetMatch =
  tmPath :: string
  tmDirectory :: string

record configTargetIdentity =
  tiPath :: string
  canonicalMatchPath :: string

record configTargetDecision =
  tdKey :: configMatchKey
  tdMatched :: bool
  tdSelected :: bool
  globallyIgnored :: bool

record configTargetResolver =
  trConfig :: "ConfigEntry list"
  trFs :: "vfs option"
  trUseCaseSensitive :: bool
  trBases :: "configTargetBase list"
  trEntries :: "configTargetEntry list"
  globalEntryIndexes :: "nat list"

type_synonym block_cache = "(configTargetIdentity, bool) publishOnceCache"

definition patternsShareTargetCoordinate :: "IgnorePattern \<Rightarrow> IgnorePattern \<Rightarrow> bool" where
  "patternsShareTargetCoordinate left right =
     (if GitPattern left \<noteq> GitPattern right \<or> CaseInsensitive left \<noteq> CaseInsensitive right then False
      else (let leftScoped = patternHasMatchDirectory left; rightScoped = patternHasMatchDirectory right
            in if leftScoped \<noteq> rightScoped then False
               else if \<not> leftScoped then True
               else gitScope left = gitScope right \<and> MatchDirectory left = MatchDirectory right \<and>
                    PhysicalMatchDirectory left = PhysicalMatchDirectory right \<and> LexicalMatchDirectory left = LexicalMatchDirectory right))"

function buildIgnorePatternCoordinateGroups :: "IgnorePattern list \<Rightarrow> ignorePatternCoordinateGroup list" where
  "buildIgnorePatternCoordinateGroups [] = []"
| "buildIgnorePatternCoordinateGroups (p # ps) =
     (let groupPatterns = p # takeWhile (patternsShareTargetCoordinate p) ps
      in \<lparr>cgPatterns = groupPatterns, cgNegationReach = buildNegReach groupPatterns\<rparr> #
         buildIgnorePatternCoordinateGroups (dropWhile (patternsShareTargetCoordinate p) ps))"
  by pat_completeness auto
termination
  by (relation "measure length") (auto simp: le_imp_less_Suc length_dropWhile_le)

definition configEntryIgnorePatterns :: "path_env \<Rightarrow> ConfigEntry \<Rightarrow> IgnorePattern list" where
  "configEntryIgnorePatterns E entry =
     (case collectedGitignore entry of Some g \<Rightarrow> gitIgnores g | None \<Rightarrow> ParseIgnorePatterns E (Ignores entry))"

text \<open>\<open>addBase\<close>: the bases so far and the index of each identity.\<close>

definition addBase ::
  "tree_env \<Rightarrow> vfs option \<Rightarrow> PathSpaceSnapshot \<Rightarrow> string \<Rightarrow> configTargetBase list \<times> (string \<times> nat) list \<Rightarrow>
   nat \<times> configTargetBase list \<times> (string \<times> nat) list" where
  "addBase T fsys frozenBases directory st =
     (case st of
        (bases, byDirectory) \<Rightarrow>
          (let directory = normalizeAuthoredBase T directory; baseID = authoredBaseID T directory
           in case map_of byDirectory baseID of
                Some i \<Rightarrow> (i, bases, byDirectory)
              | None \<Rightarrow>
                  (let frozenBase = (case map_of frozenBases baseID of Some b \<Rightarrow> b | None \<Rightarrow> freezeConfigTargetBase T directory fsys)
                   in (length bases, bases @ [frozenBase], al_update baseID (length bases) byDirectory))))"

definition target_entry ::
  "tree_env \<Rightarrow> ConfigEntry \<Rightarrow> nat \<Rightarrow> nat option \<Rightarrow> configTargetEntry" where
  "target_entry T entry bi ci =
     (let patterns = configEntryIgnorePatterns (pathEnv T) entry
      in \<lparr>baseIndex = bi, configArrayBaseIndex = ci, teIgnorePatterns = patterns,
          teGitScopes = (case collectedGitignore entry of Some g \<Rightarrow> gitScopes g | None \<Rightarrow> []),
          ignorePatternGroups = (if isGlobalIgnoreEntry entry then buildIgnorePatternCoordinateGroups patterns else [])\<rparr>)"

fun resolver_entries ::
  "tree_env \<Rightarrow> vfs option \<Rightarrow> PathSpaceSnapshot \<Rightarrow> string \<Rightarrow> ConfigEntry list \<Rightarrow> configTargetBase list \<times> (string \<times> nat) list \<Rightarrow>
   configTargetEntry list \<times> configTargetBase list \<times> (string \<times> nat) list" where
  "resolver_entries T fsys frozenBases defaultDirectory [] st = ([], st)"
| "resolver_entries T fsys frozenBases defaultDirectory (entry # config) st =
     (let origin = configEntryPathOrigin (ResolvePath T) entry defaultDirectory
      in case addBase T fsys frozenBases (pbDirectory origin) st of
           (bi, st) \<Rightarrow>
             (case (if pbBasePathScoped origin
                    then (case addBase T fsys frozenBases (pbConfigArrayBase origin) st of (ci, st) \<Rightarrow> (Some ci, st))
                    else (None, st)) of
                (ci, st) \<Rightarrow>
                  (case resolver_entries T fsys frozenBases defaultDirectory config st of
                     (entries, st) \<Rightarrow> (target_entry T entry bi ci # entries, st))))"

definition newConfigTargetResolverWithBases ::
  "tree_env \<Rightarrow> ConfigEntry list \<Rightarrow> string \<Rightarrow> vfs option \<Rightarrow> PathSpaceSnapshot \<Rightarrow> configTargetResolver" where
  "newConfigTargetResolverWithBases T config defaultDirectory fsys frozenBases =
     (case resolver_entries T fsys frozenBases defaultDirectory config ([], []) of
        (entries, bases, _) \<Rightarrow>
          \<lparr>trConfig = config, trFs = fsys,
           trUseCaseSensitive = (case fsys of None \<Rightarrow> True | Some fs \<Rightarrow> UseCaseSensitiveFileNames fs),
           trBases = bases, trEntries = entries,
           globalEntryIndexes = filter (\<lambda>i. isGlobalIgnoreEntry (config ! i)) [0..<length config]\<rparr>)"

definition newConfigTargetResolver :: "tree_env \<Rightarrow> ConfigEntry list \<Rightarrow> string \<Rightarrow> vfs option \<Rightarrow> configTargetResolver" where
  "newConfigTargetResolver T config defaultDirectory fsys = newConfigTargetResolverWithBases T config defaultDirectory fsys []"

section \<open>Path spaces of a target\<close>

definition filesystemFreeCaseInsensitivePath :: "configTargetResolver \<Rightarrow> string \<Rightarrow> bool" where
  "filesystemFreeCaseInsensitivePath R directory =
     (trFs R = None \<and> (has_prefix directory ''//'' \<or> length directory \<ge> 2 \<and> directory ! 1 = CHR '':''))"

definition scopeUseCaseSensitive :: "configTargetResolver \<Rightarrow> string \<Rightarrow> bool" where
  "scopeUseCaseSensitive R directory = (if filesystemFreeCaseInsensitivePath R directory then False else trUseCaseSensitive R)"

text \<open>Whether the match is within its base, and whether it is the base.\<close>

definition configTargetMatchWithinBase :: "tree_env \<Rightarrow> configTargetResolver \<Rightarrow> configTargetMatch \<Rightarrow> bool \<times> bool" where
  "configTargetMatchWithinBase T R match =
     (case RelativePathWithinConfigRoot T (tmPath match) (tmDirectory match) (scopeUseCaseSensitive R (tmDirectory match)) of
        None \<Rightarrow> (False, False)
      | Some relative \<Rightarrow> (True, relative = []))"

definition scope_contains :: "tree_env \<Rightarrow> string \<Rightarrow> bool \<Rightarrow> string \<Rightarrow> bool" where
  "scope_contains T path caseInsensitive directory =
     (\<not> caseInsensitive \<and> isPathWithinNormalizedRoot T path directory \<or>
      caseInsensitive \<and> isPathWithinRootCaseInsensitive T path directory)"

definition needsCanonicalPath :: "tree_env \<Rightarrow> configTargetResolver \<Rightarrow> string \<Rightarrow> bool" where
  "needsCanonicalPath T R path =
     (list_ex (\<lambda>b. \<not> isPathWithinNormalizedRoot T path (tbDirectory b) \<and>
                   \<not> isPathWithinNormalizedRoot T path (tbPhysicalDirectory b)) (trBases R) \<or>
      list_ex (\<lambda>entry. teGitScopes entry \<noteq> [] \<and>
                 \<not> list_ex (\<lambda>scope. scope_contains T path (scopeCaseInsensitive scope) (lexicalDirectory scope)) (teGitScopes entry))
        (trEntries R))"

definition target_match :: "tree_env \<Rightarrow> configTargetResolver \<Rightarrow> string \<Rightarrow> string \<Rightarrow> string \<Rightarrow> bool \<Rightarrow> configTargetBase \<Rightarrow> configTargetMatch" where
  "target_match T R path canonicalPath canonicalParentPath directory b =
     (case resolveConfigPathSpaceWithCanonicalParent T path canonicalPath canonicalParentPath (tbDirectory b) (tbPhysicalDirectory b)
             (tbPhysicalAliasAncestors b) (trFs R) (\<not> directory) of
        (matchPath, matchDir) \<Rightarrow> \<lparr>tmPath = matchPath, tmDirectory = matchDir\<rparr>)"

definition resolvePathSpacesWithCanonicalParent ::
  "tree_env \<Rightarrow> configTargetResolver \<Rightarrow> string \<Rightarrow> string \<Rightarrow> string \<Rightarrow> bool \<Rightarrow> configTargetIdentity \<times> configTargetMatch list" where
  "resolvePathSpacesWithCanonicalParent T R path canonicalPath canonicalParentPath directory =
     (let path = normalize T path;
          canonicalPath =
            (if canonicalPath \<noteq> [] then normalize T canonicalPath
             else (case trFs R of
                     None \<Rightarrow> []
                   | Some fs \<Rightarrow> if needsCanonicalPath T R path \<and> Realpath fs path \<noteq> [] then normalize T (Realpath fs path) else []));
          canonicalParentPath = (if canonicalParentPath \<noteq> [] then normalize T canonicalParentPath else []);
          matches = map (target_match T R path canonicalPath canonicalParentPath directory) (trBases R);
          matchPath = (if canonicalPath = [] \<and> trFs R = None then path else canonicalPath);
          identityAlreadyExact = (matchPath = path \<and> (canonicalParentPath = [] \<or> canonicalParentPath = parent_dir T path));
          matchPath =
            (if \<not> directory \<and> matchPath \<noteq> [] \<and> \<not> identityAlreadyExact \<and>
                hasDistinctFileIdentityWithCanonicalParent T path matchPath canonicalParentPath (trFs R)
             then [] else matchPath)
      in (\<lparr>tiPath = path, canonicalMatchPath = matchPath\<rparr>, matches))"

definition resolvePathSpaces ::
  "tree_env \<Rightarrow> configTargetResolver \<Rightarrow> string \<Rightarrow> string \<Rightarrow> bool \<Rightarrow> configTargetIdentity \<times> configTargetMatch list" where
  "resolvePathSpaces T R path canonicalPath directory = resolvePathSpacesWithCanonicalParent T R path canonicalPath [] directory"

section \<open>Scopes\<close>

definition entryMatchesScope :: "tree_env \<Rightarrow> configTargetResolver \<Rightarrow> configTargetMatch \<Rightarrow> configTargetMatch \<Rightarrow> bool \<Rightarrow> bool" where
  "entryMatchesScope T R match configArrayMatch directory =
     (case configTargetMatchWithinBase T R match of
        (withinBase, atBase) \<Rightarrow>
          if \<not> withinBase \<or> directory \<and> atBase then False
          else if directory then \<not> snd (configTargetMatchWithinBase T R configArrayMatch)
          else True)"

definition entryAppliesTo :: "tree_env \<Rightarrow> configTargetResolver \<Rightarrow> configTargetEntry \<Rightarrow> nat \<Rightarrow> configTargetMatch list \<Rightarrow> bool \<Rightarrow> bool" where
  "entryAppliesTo T R entry ci matches directory = entryMatchesScope T R (matches ! baseIndex entry) (matches ! ci) directory"

definition relativePathDepth :: "string \<Rightarrow> int" where
  "relativePathDepth path = (if path = [] then 0 else 1 + int (length (filter (\<lambda>c. c = sl) path)))"

definition entryDirectoryCandidateDepthFloor ::
  "tree_env \<Rightarrow> configTargetResolver \<Rightarrow> string \<Rightarrow> configTargetMatch \<Rightarrow> configTargetMatch \<Rightarrow> int" where
  "entryDirectoryCandidateDepthFloor T R matcherPath entryMatch configArrayMatch =
     (case RelativePathWithinConfigRoot T (tmPath entryMatch) (tmDirectory entryMatch) (scopeUseCaseSensitive R (tmDirectory entryMatch)) of
        None \<Rightarrow> 0
      | Some entryRelative \<Rightarrow>
          (case RelativePathWithinConfigRoot T (tmPath configArrayMatch) (tmDirectory configArrayMatch)
                  (scopeUseCaseSensitive R (tmDirectory configArrayMatch)) of
             None \<Rightarrow> 0
           | Some configArrayRelative \<Rightarrow>
               (let configArrayDepth = relativePathDepth configArrayRelative; matcherDepth = relativePathDepth matcherPath
                in if relativePathDepth entryRelative \<le> configArrayDepth then 0
                   else if matcherDepth \<le> configArrayDepth then 0
                   else matcherDepth - configArrayDepth)))"

datatype scopedDirectoryRelation = scopedDirectoryOutside | scopedDirectoryDescendantsOnly | scopedDirectoryInside

definition targetContainsBase :: "tree_env \<Rightarrow> configTargetResolver \<Rightarrow> configTargetMatch \<Rightarrow> nat \<Rightarrow> configTargetIdentity \<Rightarrow> bool" where
  "targetContainsBase T R match bi target =
     (RelativePathWithinConfigRoot T (tmDirectory match) (tmPath match) (scopeUseCaseSensitive R (tmDirectory match)) \<noteq> None \<or>
      canonicalMatchPath target \<noteq> [] \<and>
      RelativePathWithinConfigRoot T (tbPhysicalDirectory (trBases R ! bi)) (canonicalMatchPath target) True \<noteq> None)"

definition entryDirectoryRelation ::
  "tree_env \<Rightarrow> configTargetResolver \<Rightarrow> configTargetEntry \<Rightarrow> nat \<Rightarrow> configTargetMatch list \<Rightarrow> configTargetIdentity \<Rightarrow> scopedDirectoryRelation" where
  "entryDirectoryRelation T R entry ci matches target =
     (let match = matches ! baseIndex entry
      in case configTargetMatchWithinBase T R match of
           (withinBase, atBase) \<Rightarrow>
             if withinBase
             then (if atBase then scopedDirectoryDescendantsOnly
                   else (let configArrayMatch = matches ! ci
                         in case configTargetMatchWithinBase T R configArrayMatch of
                              (withinConfigArray, atConfigArrayBase) \<Rightarrow>
                                if atConfigArrayBase \<or> \<not> withinConfigArray \<and> targetContainsBase T R configArrayMatch ci target
                                then scopedDirectoryDescendantsOnly else scopedDirectoryInside))
             else if targetContainsBase T R match (baseIndex entry) target then scopedDirectoryDescendantsOnly
             else scopedDirectoryOutside)"

text \<open>The first scope, counted from one, that contains the path; zero when there is none.\<close>

fun first_scope :: "(collectedGitignoreScope \<Rightarrow> bool) \<Rightarrow> nat \<Rightarrow> collectedGitignoreScope list \<Rightarrow> 32 word option" where
  "first_scope P index [] = None"
| "first_scope P index (scope # scopes) = (if P scope then Some (word_of_nat (index + 1)) else first_scope P (Suc index) scopes)"

definition selectGitScope :: "tree_env \<Rightarrow> configTargetEntry \<Rightarrow> configTargetIdentity \<Rightarrow> 32 word" where
  "selectGitScope T entry target =
     (case first_scope (\<lambda>scope. scope_contains T (tiPath target) (scopeCaseInsensitive scope) (lexicalDirectory scope)) 0 (teGitScopes entry) of
        Some s \<Rightarrow> s
      | None \<Rightarrow>
          if canonicalMatchPath target = [] then 0
          else (case first_scope (\<lambda>scope. scope_contains T (canonicalMatchPath target) (scopeCaseInsensitive scope) (physicalDirectory scope)) 0
                       (teGitScopes entry) of
                  Some s \<Rightarrow> s
                | None \<Rightarrow> 0))"

section \<open>Groups of patterns\<close>

text \<open>The candidates of \<open>pathsForGitPatternGroup\<close>: pairs of a spelling of the target and a spelling of the root.\<close>

fun first_candidate ::
  "path_env \<Rightarrow> IgnorePattern list \<Rightarrow> (string \<times> string) list \<Rightarrow> (string \<times> string) list \<Rightarrow> (string \<times> string) option" where
  "first_candidate E ps seen [] = None"
| "first_candidate E ps seen ((path, root) # candidates) =
     (if path = [] \<or> root = [] \<or> (path, root) \<in> set seen then first_candidate E ps (seen @ [(path, root)]) candidates
      else (let paths = fold_paths E path root ps (normalizedPaths E path root)
            in if \<not> pathEscapesCwd E (snd paths) then Some paths
               else first_candidate E ps (seen @ [(path, root)]) candidates))"

definition pathsForGitPatternGroup :: "path_env \<Rightarrow> string \<Rightarrow> string \<Rightarrow> string \<Rightarrow> IgnorePattern list \<Rightarrow> (string \<times> string) option" where
  "pathsForGitPatternGroup E lexicalPath canonicalPath projectedPath ps =
     (let p = hd ps;
          lexicalRoot = (if LexicalMatchDirectory p = [] then MatchDirectory p else LexicalMatchDirectory p);
          physicalRoot = (if PhysicalMatchDirectory p = [] then MatchDirectory p else PhysicalMatchDirectory p)
      in first_candidate E ps [] [(lexicalPath, lexicalRoot), (canonicalPath, physicalRoot), (projectedPath, MatchDirectory p)])"

definition target_pathsForPatternGroup ::
  "path_env \<Rightarrow> configTargetIdentity \<Rightarrow> configTargetMatch \<Rightarrow> IgnorePattern list \<Rightarrow> (string \<times> string) option" where
  "target_pathsForPatternGroup E target match ps =
     (let p = hd ps;
          lexicalRoot = (if LexicalMatchDirectory p = [] then MatchDirectory p else LexicalMatchDirectory p);
          general = pathsForGitPatternGroup E (tiPath target) (canonicalMatchPath target) (tmPath match) ps
      in if tiPath target = tmPath match \<and> lexicalRoot = tmDirectory match
         then (let paths = fold_paths E (tmPath match) (tmDirectory match) ps (normalizedPaths E (tmPath match) (tmDirectory match))
               in if \<not> pathEscapesCwd E (snd paths) then Some paths else general)
         else general)"

fun applyIgnorePatternGroups ::
  "path_env \<Rightarrow> configTargetIdentity \<Rightarrow> configTargetMatch \<Rightarrow> 32 word \<Rightarrow> ignorePatternCoordinateGroup list \<Rightarrow> bool \<Rightarrow> bool" where
  "applyIgnorePatternGroups E target match selectedGitScope [] ignored = ignored"
| "applyIgnorePatternGroups E target match selectedGitScope (g # groups) ignored =
     (let ps = cgPatterns g; p = hd ps
      in if patternHasMatchDirectory p \<and> gitScope p \<noteq> 0 \<and> gitScope p \<noteq> selectedGitScope
         then applyIgnorePatternGroups E target match selectedGitScope groups ignored
         else (let paths = (if patternHasMatchDirectory p then target_pathsForPatternGroup E target match ps
                            else pathsForPatternGroup E (tmPath match) (tmDirectory match) ps)
               in applyIgnorePatternGroups E target match selectedGitScope groups
                    (case paths of None \<Rightarrow> ignored | Some (path, unixPath) \<Rightarrow> applyIgnorePatternGroup E ps path unixPath ignored)))"

definition targetPathForPatternGroup ::
  "path_env \<Rightarrow> configTargetIdentity \<Rightarrow> configTargetMatch \<Rightarrow> IgnorePattern list \<Rightarrow> 32 word \<Rightarrow> string option" where
  "targetPathForPatternGroup E target match ps selectedGitScope =
     (let p = hd ps;
          proper = (\<lambda>relative. if relative \<noteq> [] \<and> relative \<noteq> ''.'' then Some relative else None)
      in if \<not> patternHasMatchDirectory p
         then (let relative = trim_suffix (snd (normalizedPaths E (tmPath match) (tmDirectory match))) ''/'';
                   relative = (if pathEscapesCwd E relative \<and> hasCaseInsensitivePattern ps
                               then trim_suffix (unix_path (normalizePathWithCaseSensitivity E (tmPath match) (tmDirectory match) False)) ''/''
                               else relative)
               in proper relative)
         else if gitScope p \<noteq> 0 \<and> gitScope p \<noteq> selectedGitScope then None
         else (case target_pathsForPatternGroup E target match ps of
                 None \<Rightarrow> None
               | Some (_, relative) \<Rightarrow> proper (trim_suffix relative ''/'')))"

section \<open>Directory blocks\<close>

text \<open>Whether a group blocks the directory that has the given spelling in the space of the entry.\<close>

definition group_blocks :: "tree_env \<Rightarrow> configTargetResolver \<Rightarrow> configTargetMatch \<Rightarrow> configTargetMatch option \<Rightarrow> IgnorePattern list \<Rightarrow> string \<Rightarrow> bool" where
  "group_blocks T R match configArrayMatch ps relative =
     (let minimumDepth = (case configArrayMatch of
                            None \<Rightarrow> 0 | Some c \<Rightarrow> entryDirectoryCandidateDepthFloor T R relative match c)
      in if minimumDepth = 0 then isDirAbsolutelyBlocked (pathEnv T) relative ps
         else isDirAbsolutelyBlockedAboveFloor (pathEnv T) relative ps minimumDepth)"

definition entry_blocks :: "tree_env \<Rightarrow> configTargetResolver \<Rightarrow> configTargetIdentity \<Rightarrow> configTargetMatch list \<Rightarrow> bool \<Rightarrow> configTargetEntry \<Rightarrow> bool" where
  "entry_blocks T R target matches fileTarget entry =
     (let lift = (\<lambda>m. if fileTarget then m\<lparr>tmPath := parent_dir T (tmPath m)\<rparr> else m);
          match = lift (matches ! baseIndex entry);
          configArrayMatch = map_option (\<lambda>ci. lift (matches ! ci)) (configArrayBaseIndex entry)
      in (case configArrayMatch of None \<Rightarrow> True | Some c \<Rightarrow> entryMatchesScope T R match c True) \<and>
         list_ex (\<lambda>g. case targetPathForPatternGroup (pathEnv T) target match (cgPatterns g) (selectGitScope T entry target) of
                        None \<Rightarrow> False
                      | Some relative \<Rightarrow> group_blocks T R match configArrayMatch (cgPatterns g) relative)
           (ignorePatternGroups entry))"

definition hasAbsoluteDirectoryBlockForDirectory ::
  "tree_env \<Rightarrow> configTargetResolver \<Rightarrow> configTargetIdentity \<Rightarrow> configTargetMatch list \<Rightarrow> bool \<Rightarrow> bool" where
  "hasAbsoluteDirectoryBlockForDirectory T R target matches fileTarget =
     list_ex (\<lambda>i. entry_blocks T R target matches fileTarget (trEntries R ! i)) (globalEntryIndexes R)"

definition hasAbsoluteDirectoryBlock ::
  "tree_env \<Rightarrow> configTargetResolver \<Rightarrow> configTargetIdentity \<Rightarrow> configTargetMatch list \<Rightarrow> bool \<Rightarrow> block_cache \<Rightarrow> bool \<times> block_cache" where
  "hasAbsoluteDirectoryBlock T R target matches fileTarget cache =
     (if fileTarget
      then (let target = \<lparr>tiPath = parent_dir T (tiPath target),
                          canonicalMatchPath = (if canonicalMatchPath target \<noteq> [] then parent_dir T (canonicalMatchPath target) else [])\<rparr>
            in getOrInit target (hasAbsoluteDirectoryBlockForDirectory T R target matches True) cache)
      else (hasAbsoluteDirectoryBlockForDirectory T R target matches False, cache))"

section \<open>Decisions\<close>

fun apply_global_entries ::
  "tree_env \<Rightarrow> configTargetResolver \<Rightarrow> configTargetIdentity \<Rightarrow> configTargetMatch list \<Rightarrow> nat list \<Rightarrow> bool \<Rightarrow> bool" where
  "apply_global_entries T R target matches [] ignored = ignored"
| "apply_global_entries T R target matches (i # is) ignored =
     (let entry = trEntries R ! i
      in if (case configArrayBaseIndex entry of None \<Rightarrow> False | Some ci \<Rightarrow> \<not> entryAppliesTo T R entry ci matches True)
         then apply_global_entries T R target matches is ignored
         else apply_global_entries T R target matches is
                (applyIgnorePatternGroups (pathEnv T) target (matches ! baseIndex entry) (selectGitScope T entry target)
                   (ignorePatternGroups entry) ignored))"

definition globallyIgnores ::
  "tree_env \<Rightarrow> configTargetResolver \<Rightarrow> configTargetIdentity \<Rightarrow> configTargetMatch list \<Rightarrow> block_cache \<Rightarrow> bool \<times> block_cache" where
  "globallyIgnores T R target matches cache =
     (case hasAbsoluteDirectoryBlock T R target matches True cache of
        (blocked, cache) \<Rightarrow>
          (if blocked then True else apply_global_entries T R target matches (globalEntryIndexes R) False, cache))"

fun target_entries ::
  "tree_env \<Rightarrow> configTargetResolver \<Rightarrow> configTargetMatch list \<Rightarrow> nat \<Rightarrow> ConfigEntry list \<Rightarrow> configTargetDecision \<Rightarrow> configTargetDecision option" where
  "target_entries T R matches index [] decision = Some decision"
| "target_entries T R matches index (entry # config) decision =
     (let prepared = trEntries R ! index; match = matches ! baseIndex prepared
      in if isGlobalIgnoreEntry entry then target_entries T R matches (Suc index) config decision
         else if (case configArrayBaseIndex prepared of None \<Rightarrow> False | Some ci \<Rightarrow> \<not> entryAppliesTo T R prepared ci matches False)
         then target_entries T R matches (Suc index) config decision
         else if hasFileSelectors entry \<and> \<not> matchesConfigEntry (pathEnv T) (tmPath match) (tmDirectory match) entry
         then target_entries T R matches (Suc index) config decision
         else if applyIgnorePatterns (pathEnv T) (tmPath match) (tmDirectory match) (teIgnorePatterns prepared) False
         then target_entries T R matches (Suc index) config decision
         else (case key_add index (tdKey decision) of
                 None \<Rightarrow> None
               | Some key \<Rightarrow>
                   target_entries T R matches (Suc index) config
                     (decision\<lparr>tdMatched := True, tdSelected := (if hasFileSelectors entry then True else tdSelected decision), tdKey := key\<rparr>)))"

definition resolveTarget ::
  "tree_env \<Rightarrow> configTargetResolver \<Rightarrow> PathIdentity \<Rightarrow> block_cache \<Rightarrow> (configTargetDecision \<times> block_cache) option" where
  "resolveTarget T R discovered cache =
     (case resolvePathSpacesWithCanonicalParent T R (piPath discovered) (CanonicalPath discovered) (CanonicalParentPath discovered) False of
        (target, matches) \<Rightarrow>
          (case globallyIgnores T R target matches cache of
             (ignored, cache) \<Rightarrow>
               (let decision = \<lparr>tdKey = \<lparr>keyFirst = 0, keyTail = []\<rparr>, tdMatched = False,
                                tdSelected = isDefaultLintFile (tiPath target), globallyIgnored = ignored\<rparr>
                in if ignored then Some (decision, cache)
                   else map_option (\<lambda>decision. (decision, cache))
                          (target_entries T R matches 0 (trConfig R) (decision\<lparr>tdKey := empty_key (length (trConfig R))\<rparr>)))))"

definition target_resolve ::
  "tree_env \<Rightarrow> configTargetResolver \<Rightarrow> string \<Rightarrow> string \<Rightarrow> block_cache \<Rightarrow> (configTargetDecision \<times> block_cache) option" where
  "target_resolve T R path canonicalPath cache =
     resolveTarget T R \<lparr>piPath = path, CanonicalPath = canonicalPath, CanonicalParentPath = []\<rparr> cache"

definition blocksDirectory :: "tree_env \<Rightarrow> configTargetResolver \<Rightarrow> string \<Rightarrow> string \<Rightarrow> bool" where
  "blocksDirectory T R path canonicalPath =
     (case resolvePathSpaces T R path canonicalPath True of
        (target, matches) \<Rightarrow> hasAbsoluteDirectoryBlockForDirectory T R target matches False)"

section \<open>Pruning and reopening directories\<close>

text \<open>
  The state of the loop: whether a negation can reach below the directory and whether a pattern covers its files;
  \<^term>\<open>None\<close> is the early return for an absolute block.
\<close>

fun prune_groups ::
  "tree_env \<Rightarrow> configTargetResolver \<Rightarrow> configTargetIdentity \<Rightarrow> configTargetMatch \<Rightarrow> configTargetMatch option \<Rightarrow> 32 word \<Rightarrow>
   ignorePatternCoordinateGroup list \<Rightarrow> bool \<times> bool \<Rightarrow> (bool \<times> bool) option" where
  "prune_groups T R target match configArrayMatch scope [] st = Some st"
| "prune_groups T R target match configArrayMatch scope (g # groups) (negationCanReach, fileLevelCovered) =
     (case targetPathForPatternGroup (pathEnv T) target match (cgPatterns g) scope of
        None \<Rightarrow> prune_groups T R target match configArrayMatch scope groups (negationCanReach, fileLevelCovered)
      | Some relative \<Rightarrow>
          if group_blocks T R match configArrayMatch (cgPatterns g) relative then None
          else prune_groups T R target match configArrayMatch scope groups
                 (negationCanReach \<or> neg_overlaps (pathEnv T) (cgNegationReach g) relative,
                  fileLevelCovered \<or> list_ex (\<lambda>p. \<not> igNegated p \<and> igKind p = dirFileLevelCover \<and>
                                                 ignorePatternMatches (pathEnv T) p (relative @ ''/x'')) (cgPatterns g)))"

fun prune_entries ::
  "tree_env \<Rightarrow> configTargetResolver \<Rightarrow> configTargetIdentity \<Rightarrow> configTargetMatch list \<Rightarrow> nat list \<Rightarrow> bool \<times> bool \<Rightarrow> (bool \<times> bool) option" where
  "prune_entries T R target matches [] st = Some st"
| "prune_entries T R target matches (i # is) st =
     (let entry = trEntries R ! i; match = matches ! baseIndex entry;
          relation = (case configArrayBaseIndex entry of
                        None \<Rightarrow> scopedDirectoryInside
                      | Some ci \<Rightarrow> entryDirectoryRelation T R entry ci matches target)
      in case relation of
           scopedDirectoryOutside \<Rightarrow> prune_entries T R target matches is st
         | scopedDirectoryDescendantsOnly \<Rightarrow>
             prune_entries T R target matches is
               (fst st \<or> list_ex (\<lambda>g. length (cgNegationReach g) > 0) (ignorePatternGroups entry), snd st)
         | scopedDirectoryInside \<Rightarrow>
             (case prune_groups T R target match (map_option (\<lambda>ci. matches ! ci) (configArrayBaseIndex entry))
                     (selectGitScope T entry target) (ignorePatternGroups entry) st of
                None \<Rightarrow> None
              | Some st \<Rightarrow> prune_entries T R target matches is st))"

definition canPruneDirectory :: "tree_env \<Rightarrow> configTargetResolver \<Rightarrow> string \<Rightarrow> string \<Rightarrow> bool" where
  "canPruneDirectory T R path canonicalPath =
     (case resolvePathSpaces T R path canonicalPath True of
        (target, matches) \<Rightarrow>
          (case prune_entries T R target matches (globalEntryIndexes R) (False, False) of
             None \<Rightarrow> True
           | Some (negationCanReach, fileLevelCovered) \<Rightarrow> fileLevelCovered \<and> \<not> negationCanReach))"

fun reopen_patterns :: "path_env \<Rightarrow> string \<Rightarrow> IgnorePattern list \<Rightarrow> bool \<Rightarrow> bool" where
  "reopen_patterns E relativePath [] reopened = reopened"
| "reopen_patterns E relativePath (p # ps) reopened =
     (let matched = (if GitPattern p
                     then gitIgnorePatternMatchesNode E p (if CaseInsensitive p then ToLower E relativePath else relativePath)
                     else ignorePatternMatches E p relativePath \<or> ignorePatternMatches E p (relativePath @ ''/''))
      in reopen_patterns E relativePath ps (if matched then igNegated p else reopened))"

definition reopen_entry :: "tree_env \<Rightarrow> configTargetResolver \<Rightarrow> configTargetIdentity \<Rightarrow> configTargetMatch list \<Rightarrow> bool \<Rightarrow> nat \<Rightarrow> bool" where
  "reopen_entry T R target matches reopened i =
     (let entry = trEntries R ! i
      in if (case configArrayBaseIndex entry of None \<Rightarrow> False | Some ci \<Rightarrow> \<not> entryAppliesTo T R entry ci matches True) then reopened
         else foldl (\<lambda>reopened g.
                case targetPathForPatternGroup (pathEnv T) target (matches ! baseIndex entry) (cgPatterns g) (selectGitScope T entry target) of
                  None \<Rightarrow> reopened
                | Some relativePath \<Rightarrow> reopen_patterns (pathEnv T) relativePath (cgPatterns g) reopened)
                reopened (ignorePatternGroups entry))"

definition reopensDirectory :: "tree_env \<Rightarrow> configTargetResolver \<Rightarrow> string \<Rightarrow> string \<Rightarrow> bool" where
  "reopensDirectory T R path canonicalPath =
     (case resolvePathSpaces T R path canonicalPath True of
        (target, matches) \<Rightarrow> foldl (reopen_entry T R target matches) False (globalEntryIndexes R))"

section \<open>Matchers\<close>

text \<open>A matcher is its resolver, which may be missing.\<close>

definition NewGlobalIgnoreMatcher :: "tree_env \<Rightarrow> ConfigEntry list \<Rightarrow> string \<Rightarrow> vfs option \<Rightarrow> configTargetResolver option" where
  "NewGlobalIgnoreMatcher T config configDir fsys = Some (newConfigTargetResolver T config configDir fsys)"

definition BlocksDirectory :: "tree_env \<Rightarrow> configTargetResolver option \<Rightarrow> string \<Rightarrow> string \<Rightarrow> bool" where
  "BlocksDirectory T matcher directory canonicalDirectory =
     (case matcher of None \<Rightarrow> False | Some R \<Rightarrow> blocksDirectory T R directory canonicalDirectory)"

definition ReopensDirectoryNode :: "tree_env \<Rightarrow> configTargetResolver option \<Rightarrow> string \<Rightarrow> string \<Rightarrow> bool" where
  "ReopensDirectoryNode T matcher directory canonicalDirectory =
     (case matcher of None \<Rightarrow> False | Some R \<Rightarrow> reopensDirectory T R directory canonicalDirectory)"

definition IgnoresPath :: "tree_env \<Rightarrow> configTargetResolver option \<Rightarrow> string \<Rightarrow> string \<Rightarrow> block_cache \<Rightarrow> bool \<times> block_cache" where
  "IgnoresPath T matcher filePath canonicalPath cache =
     (case matcher of
        None \<Rightarrow> (False, cache)
      | Some R \<Rightarrow> (case resolvePathSpaces T R filePath canonicalPath False of (target, matches) \<Rightarrow> globallyIgnores T R target matches cache))"

fun require_bases :: "tree_env \<Rightarrow> PathSpaceSnapshot option \<Rightarrow> string \<Rightarrow> ConfigEntry list \<Rightarrow> snapshot_error option" where
  "require_bases T snapshot configDirectory [] = None"
| "require_bases T snapshot configDirectory (entry # config) =
     (let origin = configEntryPathOrigin (ResolvePath T) entry configDirectory
      in case requireBase T snapshot (pbDirectory origin) of
           Inl e \<Rightarrow> Some e
         | Inr _ \<Rightarrow>
             if pbBasePathScoped origin
             then (case requireBase T snapshot (pbConfigArrayBase origin) of
                     Inl e \<Rightarrow> Some e | Inr _ \<Rightarrow> require_bases T snapshot configDirectory config)
             else require_bases T snapshot configDirectory config)"

definition NewTargetMatcherWithPathSpaces ::
  "tree_env \<Rightarrow> ConfigEntry list \<Rightarrow> string \<Rightarrow> vfs option \<Rightarrow> PathSpaceSnapshot option \<Rightarrow> snapshot_error + configTargetResolver option" where
  "NewTargetMatcherWithPathSpaces T config configDirectory fsys pathSpaces =
     (case pathSpaces of
        None \<Rightarrow> Inl ErrSnapshotRequired
      | Some bases \<Rightarrow>
          (case requireBase T pathSpaces configDirectory of
             Inl e \<Rightarrow> Inl e
           | Inr _ \<Rightarrow>
               (case require_bases T pathSpaces configDirectory config of
                  Some e \<Rightarrow> Inl e
                | None \<Rightarrow> Inr (Some (newConfigTargetResolverWithBases T config configDirectory fsys bases)))))"

definition MatchFile :: "tree_env \<Rightarrow> configTargetResolver option \<Rightarrow> PathIdentity \<Rightarrow> block_cache \<Rightarrow> ((bool \<times> bool) \<times> block_cache) option" where
  "MatchFile T matcher target cache =
     (case matcher of
        None \<Rightarrow> Some ((False, False), cache)
      | Some R \<Rightarrow> map_option (\<lambda>(decision, cache). ((tdSelected decision, globallyIgnored decision), cache)) (resolveTarget T R target cache))"

definition CanPruneDirectory :: "tree_env \<Rightarrow> configTargetResolver option \<Rightarrow> DirectoryIdentity \<Rightarrow> bool" where
  "CanPruneDirectory T matcher directory =
     (case matcher of
        None \<Rightarrow> False
      | Some R \<Rightarrow> canPruneDirectory T R (normalize T (diLexicalPath directory)) (normalize T (diCanonicalPath directory)))"


section \<open>Authored patterns\<close>

text \<open>A pattern written in a configuration: no Git rule, case sensitive, relative to the directory of its entry.\<close>

definition authored :: "IgnorePattern \<Rightarrow> bool" where
  "authored p \<longleftrightarrow> \<not> GitPattern p \<and> \<not> CaseInsensitive p \<and> \<not> patternHasMatchDirectory p"

lemma ParseIgnorePatterns_authored [simp]: "list_all authored (ParseIgnorePatterns E raw)"
  by (auto simp: list_all_iff authored_def ParseIgnorePatterns_def ParseIgnorePattern_def patternHasMatchDirectory_def Let_def)

lemma authored_no_fold:
  assumes "list_all authored ps"
  shows "\<not> hasPatternMatchDirectory ps" "\<not> hasCaseInsensitivePattern ps"
  using assms by (auto simp: hasPatternMatchDirectory_def hasCaseInsensitivePattern_def list_ex_iff list_all_iff authored_def)

lemma authored_one_group:
  assumes "list_all authored ps" and "ps \<noteq> []"
  shows "buildIgnorePatternCoordinateGroups ps = [\<lparr>cgPatterns = ps, cgNegationReach = buildNegReach ps\<rparr>]"
proof (cases ps)
  case (Cons p rest)
  then have "\<forall>q \<in> set rest. patternsShareTargetCoordinate p q"
    using assms(1) by (auto simp: list_all_iff authored_def patternsShareTargetCoordinate_def)
  then have "takeWhile (patternsShareTargetCoordinate p) rest = rest" "dropWhile (patternsShareTargetCoordinate p) rest = []" by simp_all
  then show ?thesis using Cons by (simp only: buildIgnorePatternCoordinateGroups.simps Let_def)
qed (use assms in simp)

lemma apply_authored_append: "apply_authored E path unixPath (a @ b) ignored = apply_authored E path unixPath b (apply_authored E path unixPath a ignored)"
  by (induction a arbitrary: ignored) (simp_all add: Let_def)

lemma applyFileIgnorePatterns_authored:
  "list_all authored ps \<Longrightarrow> applyFileIgnorePatternsNormalized E path unixPath ps ignored = apply_authored E path unixPath ps ignored"
  by (induction ps arbitrary: ignored) (simp_all add: authored_def Let_def)

text \<open>The decision of authored patterns on a file.\<close>

definition authored_decision :: "path_env \<Rightarrow> string \<Rightarrow> string \<Rightarrow> IgnorePattern list \<Rightarrow> bool \<Rightarrow> bool" where
  "authored_decision E filePath cwd ps ignored =
     apply_authored E (fst (normalizedPaths E filePath cwd)) (snd (normalizedPaths E filePath cwd)) ps ignored"

lemma applyIgnorePatterns_authored:
  assumes "list_all authored ps"
  shows "applyIgnorePatterns E filePath cwd ps ignored = authored_decision E filePath cwd ps ignored"
  by (simp add: applyIgnorePatterns_def authored_decision_def authored_no_fold [OF assms] fold_paths_def
      applyFileIgnorePatterns_authored [OF assms] split: prod.split)

lemma applyIgnorePatternGroups_authored:
  assumes "list_all authored ps" and "ps \<noteq> []"
  shows "applyIgnorePatternGroups E target match scope (buildIgnorePatternCoordinateGroups ps) ignored =
    authored_decision E (tmPath match) (tmDirectory match) ps ignored"
proof -
  have "\<not> patternHasMatchDirectory (hd ps)" "\<not> GitPattern (hd ps)" using assms by (cases ps; simp add: authored_def)+
  moreover have "applyIgnorePatternGroup E ps path unixPath ignored = apply_authored E path unixPath ps ignored" for path unixPath
    using calculation(2) assms(2) by (cases ps) (simp_all add: applyIgnorePatternGroup_def)
  ultimately show ?thesis
    by (simp add: authored_one_group [OF assms] pathsForPatternGroup_def authored_decision_def fold_paths_def
        authored_no_fold [OF assms(1)] Let_def split: prod.split)
qed

section \<open>The resolver of a plain configuration\<close>

text \<open>The patterns of a global entry, and those of all global entries.\<close>

abbreviation entry_patterns :: "path_env \<Rightarrow> ConfigEntry \<Rightarrow> IgnorePattern list" where
  "entry_patterns E entry \<equiv> ParseIgnorePatterns E (Ignores entry)"

lemma plain_Cons:
  "\<not> configNeedsTargetResolver (entry # config) \<longleftrightarrow>
    BasePath entry = None \<and> authoredPathBase entry = None \<and> collectedGitignore entry = None \<and> \<not> configNeedsTargetResolver config"
  by (auto simp: configNeedsTargetResolver_def)

lemma extract_ignores_plain:
  "\<not> configNeedsTargetResolver config \<Longrightarrow>
    extract_ignores E ignores config = ignores @ concat (map (entry_patterns E) (filter isGlobalIgnoreEntry config))"
  by (induction config arbitrary: ignores) (simp_all add: plain_Cons Let_def configNeedsTargetResolver_def)

lemma extractConfigIgnores_plain:
  "\<not> configNeedsTargetResolver config \<Longrightarrow>
    extractConfigIgnores E config = concat (map (entry_patterns E) (filter isGlobalIgnoreEntry config))"
  by (simp add: extractConfigIgnores_def extract_ignores_plain)

lemma extractConfigIgnores_authored:
  "\<not> configNeedsTargetResolver config \<Longrightarrow> list_all authored (extractConfigIgnores E config)"
  using ParseIgnorePatterns_authored by (auto simp: extractConfigIgnores_plain list_all_iff)

definition plain_base :: "string \<Rightarrow> configTargetBase" where
  "plain_base cwd = \<lparr>tbDirectory = cwd, tbPhysicalDirectory = cwd, tbPhysicalAliasAncestors = []\<rparr>"

lemma addBase_plain:
  assumes "normalizeAuthoredBase T cwd = cwd"
  shows "addBase T None [] cwd ([], []) = (0, [plain_base cwd], [(authoredBaseID T cwd, 0)])"
    "addBase T None [] cwd ([plain_base cwd], [(authoredBaseID T cwd, 0)]) = (0, [plain_base cwd], [(authoredBaseID T cwd, 0)])"
  by (simp_all add: addBase_def assms freezeConfigTargetBase_def realpath_or_def verifiedConfigAliasAncestors_def plain_base_def Let_def)

lemma origin_plain:
  "BasePath entry = None \<Longrightarrow> authoredPathBase entry = None \<Longrightarrow> configEntryPathOrigin resolve entry cwd = path_base cwd"
  by (simp add: configEntryPathOrigin_def)

lemma resolver_entries_step:
  assumes "normalizeAuthoredBase T cwd = cwd" and "\<not> configNeedsTargetResolver config"
  shows "resolver_entries T None [] cwd config ([plain_base cwd], [(authoredBaseID T cwd, 0)]) =
    (map (\<lambda>entry. target_entry T entry 0 None) config, [plain_base cwd], [(authoredBaseID T cwd, 0)])"
  using assms(2) by (induction config) (simp_all add: plain_Cons origin_plain path_base_def addBase_plain [OF assms(1)] Let_def)

lemma resolver_entries_plain:
  assumes "normalizeAuthoredBase T cwd = cwd" and "\<not> configNeedsTargetResolver config" and "config \<noteq> []"
  shows "resolver_entries T None [] cwd config ([], []) =
    (map (\<lambda>entry. target_entry T entry 0 None) config, [plain_base cwd], [(authoredBaseID T cwd, 0)])"
  using assms(2,3)
  by (cases config) (simp_all add: plain_Cons origin_plain path_base_def addBase_plain [OF assms(1)] resolver_entries_step [OF assms(1)] Let_def)

lemma resolver_plain:
  assumes "normalizeAuthoredBase T cwd = cwd" and "\<not> configNeedsTargetResolver config" and "config \<noteq> []"
  shows "newConfigTargetResolver T config cwd None =
    \<lparr>trConfig = config, trFs = None, trUseCaseSensitive = True, trBases = [plain_base cwd],
     trEntries = map (\<lambda>entry. target_entry T entry 0 None) config,
     globalEntryIndexes = filter (\<lambda>i. isGlobalIgnoreEntry (config ! i)) [0..<length config]\<rparr>"
  by (simp add: newConfigTargetResolver_def newConfigTargetResolverWithBases_def resolver_entries_plain [OF assms])

section \<open>A file under a plain configuration\<close>

text \<open>The file is in normal form and the two tests of containment in the configuration's directory agree on it.\<close>

definition plain_path :: "tree_env \<Rightarrow> string \<Rightarrow> string \<Rightarrow> bool" where
  "plain_path T cwd filePath \<longleftrightarrow> normalize T filePath = filePath \<and>
     (isPathWithinNormalizedRoot T filePath cwd \<or> RelativePathWithinConfigRoot T filePath cwd True = None)"

abbreviation plain_match :: "string \<Rightarrow> string \<Rightarrow> configTargetMatch" where
  "plain_match cwd filePath \<equiv> \<lparr>tmPath = filePath, tmDirectory = cwd\<rparr>"

abbreviation plain_identity :: "string \<Rightarrow> configTargetIdentity" where
  "plain_identity filePath \<equiv> \<lparr>tiPath = filePath, canonicalMatchPath = filePath\<rparr>"

lemma target_match_plain:
  assumes "trFs R = None" and "plain_path T cwd filePath"
  shows "target_match T R filePath [] [] False (plain_base cwd) = plain_match cwd filePath"
  using assms
  by (auto simp: target_match_def plain_base_def plain_path_def resolveConfigPathSpaceWithCanonicalParent_def realpath_or_def
      expectedPhysicalFileFromLexicalPathWithCanonicalParent_def pathUsesVerifiedConfigAlias_def Let_def split: option.split prod.split)

lemma resolvePathSpaces_plain:
  assumes "trFs R = None" and "plain_path T cwd filePath" and "trBases R = [plain_base cwd]"
  shows "resolvePathSpacesWithCanonicalParent T R filePath [] [] False = (plain_identity filePath, [plain_match cwd filePath])"
proof -
  have "normalize T filePath = filePath" using assms(2) by (simp add: plain_path_def)
  then show ?thesis using assms target_match_plain [OF assms(1,2)] by (simp add: resolvePathSpacesWithCanonicalParent_def Let_def)
qed

section \<open>Global entries of a plain configuration\<close>

lemma map_global_indexes: "map ((!) config) (filter (\<lambda>i. Q (config ! i)) [0..<length config]) = filter Q config"
  using filter_map [of Q "(!) config" "[0..<length config]"] by (simp add: map_nth comp_def)

lemma global_entry_patterns:
  assumes "isGlobalIgnoreEntry entry" and "collectedGitignore entry = None"
  shows "ignorePatternGroups (target_entry T entry 0 None) =
    [\<lparr>cgPatterns = entry_patterns (pathEnv T) entry, cgNegationReach = buildNegReach (entry_patterns (pathEnv T) entry)\<rparr>]"
    "entry_patterns (pathEnv T) entry \<noteq> []"
proof -
  show "entry_patterns (pathEnv T) entry \<noteq> []" using assms(1) by (auto simp: isGlobalIgnoreEntry_def ParseIgnorePatterns_def)
  then show "ignorePatternGroups (target_entry T entry 0 None) =
      [\<lparr>cgPatterns = entry_patterns (pathEnv T) entry, cgNegationReach = buildNegReach (entry_patterns (pathEnv T) entry)\<rparr>]"
    using assms by (simp add: target_entry_def configEntryIgnorePatterns_def authored_one_group Let_def)
qed

lemma entry_blocks_plain:
  assumes "isGlobalIgnoreEntry entry" and "collectedGitignore entry = None"
  shows "entry_blocks T R target [plain_match cwd filePath] True (target_entry T entry 0 None) \<longleftrightarrow>
    isDirBlockedByIgnores (pathEnv T) filePath (entry_patterns (pathEnv T) entry) cwd"
proof -
  let ?ps = "entry_patterns (pathEnv T) entry"
  have authored: "list_all authored ?ps" by simp
  have "\<not> patternHasMatchDirectory (hd ?ps)" using authored global_entry_patterns(2) [OF assms, of T] by (cases ?ps) (simp_all add: authored_def)
  then show ?thesis
    using global_entry_patterns(1) [OF assms, of T]
    by (auto simp: entry_blocks_def targetPathForPatternGroup_def isDirBlockedByIgnores_def ignoreDirectoryPath_def group_blocks_def
        normalizedPaths_def authored_no_fold [OF authored] Let_def target_entry_def)
qed

lemma isDirBlocked_concat:
  assumes "\<forall>ps \<in> set pss. list_all authored ps"
  shows "isDirBlockedByIgnores E filePath (concat pss) cwd \<longleftrightarrow> (\<exists>ps \<in> set pss. isDirBlockedByIgnores E filePath ps cwd)"
proof -
  have "list_all authored (concat pss)" using assms by (auto simp: list_all_iff)
  then show ?thesis using assms
    by (auto simp: isDirBlockedByIgnores_def authored_no_fold isDirAbsolutelyBlocked_iff split: option.split)
qed

text \<open>The resolver's view of the entries of a plain configuration.\<close>

definition plain_resolver :: "tree_env \<Rightarrow> ConfigEntry list \<Rightarrow> string \<Rightarrow> configTargetResolver \<Rightarrow> bool" where
  "plain_resolver T config cwd R \<longleftrightarrow>
     trConfig R = config \<and> trFs R = None \<and> (config \<noteq> [] \<longrightarrow> trBases R = [plain_base cwd]) \<and>
     trEntries R = map (\<lambda>entry. target_entry T entry 0 None) config \<and>
     globalEntryIndexes R = filter (\<lambda>i. isGlobalIgnoreEntry (config ! i)) [0..<length config]"

lemma plain_resolver_new:
  assumes "normalizeAuthoredBase T cwd = cwd" and "\<not> configNeedsTargetResolver config"
  shows "plain_resolver T config cwd (newConfigTargetResolver T config cwd None)"
proof (cases "config = []")
  case False
  then show ?thesis by (simp add: plain_resolver_def resolver_plain [OF assms])
qed (simp add: plain_resolver_def newConfigTargetResolver_def newConfigTargetResolverWithBases_def)

lemma plain_entry:
  assumes "\<not> configNeedsTargetResolver config" and "entry \<in> set config"
  shows "collectedGitignore entry = None"
  using assms by (auto simp: configNeedsTargetResolver_def list_ex_iff)

lemma directory_block_plain:
  assumes "plain_resolver T config cwd R" and "\<not> configNeedsTargetResolver config"
  shows "hasAbsoluteDirectoryBlockForDirectory T R target [plain_match cwd filePath] True \<longleftrightarrow>
    isDirBlockedByIgnores (pathEnv T) filePath (extractConfigIgnores (pathEnv T) config) cwd"
proof -
  let ?is = "filter (\<lambda>i. isGlobalIgnoreEntry (config ! i)) [0..<length config]"
  have "hasAbsoluteDirectoryBlockForDirectory T R target [plain_match cwd filePath] True \<longleftrightarrow>
      (\<exists>i \<in> set ?is. isDirBlockedByIgnores (pathEnv T) filePath (entry_patterns (pathEnv T) (config ! i)) cwd)"
    using assms(1) plain_entry [OF assms(2)]
    by (auto simp: hasAbsoluteDirectoryBlockForDirectory_def plain_resolver_def list_ex_iff entry_blocks_plain)
  also have "\<dots> \<longleftrightarrow> (\<exists>entry \<in> set (map ((!) config) ?is).
      isDirBlockedByIgnores (pathEnv T) filePath (entry_patterns (pathEnv T) entry) cwd)" by simp
  finally show ?thesis unfolding map_global_indexes
    by (simp add: extractConfigIgnores_plain [OF assms(2)] isDirBlocked_concat)
qed

lemma apply_global_plain:
  assumes "plain_resolver T config cwd R" and "\<not> configNeedsTargetResolver config"
    and "\<forall>i \<in> set is. i < length config \<and> isGlobalIgnoreEntry (config ! i)"
  shows "apply_global_entries T R target [plain_match cwd filePath] is ignored =
    authored_decision (pathEnv T) filePath cwd (concat (map (entry_patterns (pathEnv T)) (map ((!) config) is))) ignored"
  using assms(3)
proof (induction "is" arbitrary: ignored)
  case (Cons i "is")
  have e: "trEntries R ! i = target_entry T (config ! i) 0 None" "isGlobalIgnoreEntry (config ! i)" "collectedGitignore (config ! i) = None"
    using assms(1) Cons.prems plain_entry [OF assms(2)] by (auto simp: plain_resolver_def)
  have none: "configArrayBaseIndex (target_entry T (config ! i) 0 None) = None" "baseIndex (target_entry T (config ! i) 0 None) = 0"
    by (simp_all add: target_entry_def Let_def)
  have groups: "ignorePatternGroups (target_entry T (config ! i) 0 None) =
      buildIgnorePatternCoordinateGroups (entry_patterns (pathEnv T) (config ! i))"
    using e(2,3) by (simp add: target_entry_def configEntryIgnorePatterns_def Let_def)
  show ?case
    using Cons applyIgnorePatternGroups_authored [OF _ global_entry_patterns(2) [OF e(2,3)], where E = "pathEnv T"]
    by (simp add: e(1) none groups authored_decision_def apply_authored_append Let_def)
qed (simp add: authored_decision_def)

lemma apply_globals_plain:
  assumes "plain_resolver T config cwd R" and "\<not> configNeedsTargetResolver config"
  shows "apply_global_entries T R target [plain_match cwd filePath] (globalEntryIndexes R) False \<longleftrightarrow>
    isFileIgnored (pathEnv T) filePath (extractConfigIgnores (pathEnv T) config) cwd"
proof -
  have "apply_global_entries T R target [plain_match cwd filePath] (globalEntryIndexes R) False =
      authored_decision (pathEnv T) filePath cwd (extractConfigIgnores (pathEnv T) config) False"
    using apply_global_plain [OF assms, of "globalEntryIndexes R" target filePath False] assms(1)
    by (simp add: plain_resolver_def map_global_indexes extractConfigIgnores_plain [OF assms(2)] del: map_map)
  then show ?thesis
    by (simp add: isFileIgnored_def applyIgnorePatterns_authored [OF extractConfigIgnores_authored [OF assms(2)]])
qed

lemma target_entries_plain:
  assumes "\<forall>k < length config. trEntries R ! (n + k) = target_entry T (config ! k) 0 None" and "\<not> configNeedsTargetResolver config"
  shows "target_entries T R [plain_match cwd filePath] n config decision =
    map_option (\<lambda>(selected, matched, key). decision\<lparr>tdSelected := selected, tdMatched := matched, tdKey := key\<rparr>)
      (match_entries (pathEnv T) filePath cwd None n config (tdSelected decision, tdMatched decision, tdKey decision))"
  using assms
proof (induction config arbitrary: n decision)
  case (Cons entry config)
  have here: "trEntries R ! n = target_entry T entry 0 None" "collectedGitignore entry = None" "\<not> configNeedsTargetResolver config"
    using Cons.prems(1) [rule_format, of 0] Cons.prems(2) by (simp_all add: plain_Cons)
  have rest: "\<forall>k < length config. trEntries R ! (Suc n + k) = target_entry T (config ! k) 0 None"
    using Cons.prems(1) [rule_format, of "Suc k" for k] by simp
  have prepared: "baseIndex (target_entry T entry 0 None) = 0" "configArrayBaseIndex (target_entry T entry 0 None) = None"
    "teIgnorePatterns (target_entry T entry 0 None) = entry_patterns (pathEnv T) entry"
    using here(2) by (simp_all add: target_entry_def configEntryIgnorePatterns_def Let_def)
  have ignored: "applyIgnorePatterns (pathEnv T) filePath cwd (entry_patterns (pathEnv T) entry) False \<longleftrightarrow>
      length (entry_patterns (pathEnv T) entry) > 0 \<and> isFileIgnored (pathEnv T) filePath (entry_patterns (pathEnv T) entry) cwd"
    by (cases "entry_patterns (pathEnv T) entry") (simp_all add: isFileIgnored_def applyIgnorePatterns_def)
  show ?case
    using Cons.IH [OF rest here(3)]
    by (simp add: here(1) prepared ignored entryIgnorePatternsAt_def Let_def split: option.split)
qed simp

section \<open>The cache of directory decisions\<close>

definition parent_identity :: "tree_env \<Rightarrow> string \<Rightarrow> configTargetIdentity" where
  "parent_identity T filePath =
     \<lparr>tiPath = parent_dir T filePath, canonicalMatchPath = (if filePath \<noteq> [] then parent_dir T filePath else [])\<rparr>"

definition block_cache_ok :: "tree_env \<Rightarrow> ConfigEntry list \<Rightarrow> string \<Rightarrow> block_cache \<Rightarrow> bool" where
  "block_cache_ok T config cwd cache \<longleftrightarrow>
     (\<forall>filePath b. map_of cache (parent_identity T filePath) = Some b \<longrightarrow>
        b = isDirBlockedByIgnores (pathEnv T) filePath (extractConfigIgnores (pathEnv T) config) cwd)"

lemma block_cache_okI:
  assumes "\<And>f b. map_of cache (parent_identity T f) = Some b \<Longrightarrow>
      b = isDirBlockedByIgnores (pathEnv T) f (extractConfigIgnores (pathEnv T) config) cwd"
  shows "block_cache_ok T config cwd cache"
  unfolding block_cache_ok_def by (intro allI impI) (rule assms)

lemma block_cache_Nil [simp]: "block_cache_ok T config cwd []"
  by (simp add: block_cache_ok_def)

lemma block_cache_step:
  assumes "block_cache_ok T config cwd cache"
    and "blocked = isDirBlockedByIgnores (pathEnv T) filePath (extractConfigIgnores (pathEnv T) config) cwd"
  obtains cache' where "getOrInit (parent_identity T filePath) blocked cache = (blocked, cache')" "block_cache_ok T config cwd cache'"
proof (cases "map_of cache (parent_identity T filePath)")
  case (Some b)
  then have "b = blocked" using assms unfolding block_cache_ok_def by blast
  then show ?thesis using that [of cache] Some assms(1) by (simp add: getOrInit_def)
next
  case None
  have "block_cache_ok T config cwd (al_update (parent_identity T filePath) blocked cache)"
  proof (rule block_cache_okI)
    fix f b
    assume e: "map_of (al_update (parent_identity T filePath) blocked cache) (parent_identity T f) = Some b"
    show "b = isDirBlockedByIgnores (pathEnv T) f (extractConfigIgnores (pathEnv T) config) cwd"
    proof (cases "parent_identity T f = parent_identity T filePath")
      case True
      then have "parent_dir T f = parent_dir T filePath" by (simp add: parent_identity_def)
      moreover have "b = blocked" using e True by simp
      ultimately show ?thesis using assms(2) isDirBlocked_cong [of "pathEnv T" f filePath] by simp
    next
      case False
      then have "map_of cache (parent_identity T f) = Some b" using e by simp
      then show ?thesis using assms(1) unfolding block_cache_ok_def by blast
    qed
  qed
  then show ?thesis using that None by (simp add: getOrInit_def)
qed

lemma globallyIgnores_plain:
  assumes "plain_resolver T config cwd R" and "\<not> configNeedsTargetResolver config" and "block_cache_ok T config cwd cache"
  obtains cache' where "block_cache_ok T config cwd cache'"
    "globallyIgnores T R (plain_identity filePath) [plain_match cwd filePath] cache =
       (IsFileIgnored_direct (pathEnv T) config filePath cwd, cache')"
proof -
  obtain cache' where c: "block_cache_ok T config cwd cache'"
    "getOrInit (parent_identity T filePath)
       (isDirBlockedByIgnores (pathEnv T) filePath (extractConfigIgnores (pathEnv T) config) cwd) cache =
     (isDirBlockedByIgnores (pathEnv T) filePath (extractConfigIgnores (pathEnv T) config) cwd, cache')"
    using block_cache_step [OF assms(3) refl] by metis
  have "hasAbsoluteDirectoryBlock T R (plain_identity filePath) [plain_match cwd filePath] True cache =
      getOrInit (parent_identity T filePath)
        (isDirBlockedByIgnores (pathEnv T) filePath (extractConfigIgnores (pathEnv T) config) cwd) cache"
    by (simp add: hasAbsoluteDirectoryBlock_def directory_block_plain [OF assms(1,2)] parent_identity_def Let_def)
  then have "globallyIgnores T R (plain_identity filePath) [plain_match cwd filePath] cache =
      (IsFileIgnored_direct (pathEnv T) config filePath cwd, cache')"
    by (simp add: globallyIgnores_def c(2) apply_globals_plain [OF assms(1,2)] IsFileIgnored_direct_eq globally_ignored_def)
  then show ?thesis using that c(1) by blast
qed

text \<open>A configuration without entries has no base: nothing looks at the matches.\<close>

lemma globallyIgnores_empty:
  assumes "plain_resolver T [] cwd R"
  shows "globallyIgnores T R target matches cache = globallyIgnores T R target [plain_match cwd filePath] cache"
proof -
  have none: "globalEntryIndexes R = []" using assms by (simp add: plain_resolver_def)
  show ?thesis unfolding globallyIgnores_def hasAbsoluteDirectoryBlock_def hasAbsoluteDirectoryBlockForDirectory_def none by (simp split: prod.split)
qed

lemma resolve_plain:
  assumes "plain_resolver T config cwd R" and "\<not> configNeedsTargetResolver config" and "plain_path T cwd filePath"
    and "block_cache_ok T config cwd cache"
  obtains cache' key where "block_cache_ok T config cwd cache'"
    "\<forall>i < length config. key_contains key i = Some (entry_applies (pathEnv T) filePath cwd (config ! i))"
    "target_resolve T R filePath [] cache =
      (if IsFileIgnored_direct (pathEnv T) config filePath cwd
       then Some (\<lparr>tdKey = \<lparr>keyFirst = 0, keyTail = []\<rparr>, tdMatched = False, tdSelected = isDefaultLintFile filePath, globallyIgnored = True\<rparr>, cache')
       else Some (\<lparr>tdKey = key, tdMatched = (\<exists>entry \<in> set config. entry_applies (pathEnv T) filePath cwd entry),
                   tdSelected = isFileSelectedByConfig_direct (pathEnv T) config filePath cwd, globallyIgnored = False\<rparr>, cache'))"
proof -
  note R = assms(1) [unfolded plain_resolver_def]
  obtain cache' where c: "block_cache_ok T config cwd cache'"
    "globallyIgnores T R (plain_identity filePath) [plain_match cwd filePath] cache =
       (IsFileIgnored_direct (pathEnv T) config filePath cwd, cache')"
    using globallyIgnores_plain [OF assms(1,2,4)] by metis
  obtain matches where m: "resolvePathSpacesWithCanonicalParent T R filePath [] [] False = (plain_identity filePath, matches)"
    "config \<noteq> [] \<longrightarrow> matches = [plain_match cwd filePath]"
  proof (cases "config = []")
    case False
    then show ?thesis using that resolvePathSpaces_plain [OF _ assms(3)] R by simp
  next
    case True
    then have "normalize T filePath = filePath" "trFs R = None" using assms(3) R by (simp_all add: plain_path_def)
    then show ?thesis using that True by (simp add: resolvePathSpacesWithCanonicalParent_def Let_def)
  qed
  have g: "globallyIgnores T R (plain_identity filePath) matches cache = (IsFileIgnored_direct (pathEnv T) config filePath cwd, cache')"
    using c(2) m(2) globallyIgnores_empty assms(1) by (cases "config = []") metis+
  obtain key where key: "match_entries (pathEnv T) filePath cwd None 0 config (isDefaultLintFile filePath, False, empty_key (length config)) =
      Some (isFileSelectedByConfig_direct (pathEnv T) config filePath cwd, \<exists>entry \<in> set config. entry_applies (pathEnv T) filePath cwd entry, key)"
    "\<forall>i < length config. key_contains key i = Some (entry_applies (pathEnv T) filePath cwd (config ! i))"
    using match_entries_key [of "pathEnv T" config None filePath cwd "isDefaultLintFile filePath"]
    unfolding isFileSelectedByConfig_direct_eq patterns_of_def by blast
  have entries: "target_entries T R matches 0 config decision = target_entries T R [plain_match cwd filePath] 0 config decision" for decision
    using m(2) by (cases "config = []") simp_all
  have prepared: "\<forall>k < length config. trEntries R ! (0 + k) = target_entry T (config ! k) 0 None" using R by simp
  have "target_resolve T R filePath [] cache =
      (if IsFileIgnored_direct (pathEnv T) config filePath cwd
       then Some (\<lparr>tdKey = \<lparr>keyFirst = 0, keyTail = []\<rparr>, tdMatched = False, tdSelected = isDefaultLintFile filePath, globallyIgnored = True\<rparr>, cache')
       else Some (\<lparr>tdKey = key, tdMatched = (\<exists>entry \<in> set config. entry_applies (pathEnv T) filePath cwd entry),
                   tdSelected = isFileSelectedByConfig_direct (pathEnv T) config filePath cwd, globallyIgnored = False\<rparr>, cache'))"
    using R by (simp add: target_resolve_def resolveTarget_def m(1) g entries target_entries_plain [OF prepared assms(2)] key(1) Let_def)
  then show ?thesis using that c(1) key(2) by blast
qed

text \<open>
  Claim C33.  The target resolver and the direct matcher agree.  For a configuration whose entries have no base path of their
  own and no collected Git rules, resolved without a file system, and with any state of the resolver's cache that earlier queries
  can have left, resolving a file returns, keeps the cache consistent, and decides
  as direct matching does: globally ignored or not, and otherwise whether the
  configuration selects the file, whether an entry applies and which.
\<close>

theorem target_resolver_agrees:
  assumes "normalizeAuthoredBase T cwd = cwd" and "\<not> configNeedsTargetResolver config" and "plain_path T cwd filePath"
    and "block_cache_ok T config cwd cache"
  shows "\<exists>decision cache'. target_resolve T (newConfigTargetResolver T config cwd None) filePath [] cache = Some (decision, cache') \<and>
    block_cache_ok T config cwd cache' \<and>
    (globallyIgnored decision \<longleftrightarrow> IsFileIgnored_direct (pathEnv T) config filePath cwd) \<and>
    (\<not> globallyIgnored decision \<longrightarrow>
       (tdSelected decision \<longleftrightarrow> isFileSelectedByConfig_direct (pathEnv T) config filePath cwd) \<and>
       (tdMatched decision \<longleftrightarrow> (\<exists>entry \<in> set config. entry_applies (pathEnv T) filePath cwd entry)) \<and>
       (\<forall>i < length config. key_contains (tdKey decision) i = Some (entry_applies (pathEnv T) filePath cwd (config ! i))))"
proof -
  obtain cache' key where run: "block_cache_ok T config cwd cache'"
    "\<forall>i < length config. key_contains key i = Some (entry_applies (pathEnv T) filePath cwd (config ! i))"
    "target_resolve T (newConfigTargetResolver T config cwd None) filePath [] cache =
      (if IsFileIgnored_direct (pathEnv T) config filePath cwd
       then Some (\<lparr>tdKey = \<lparr>keyFirst = 0, keyTail = []\<rparr>, tdMatched = False, tdSelected = isDefaultLintFile filePath, globallyIgnored = True\<rparr>, cache')
       else Some (\<lparr>tdKey = key, tdMatched = (\<exists>entry \<in> set config. entry_applies (pathEnv T) filePath cwd entry),
                   tdSelected = isFileSelectedByConfig_direct (pathEnv T) config filePath cwd, globallyIgnored = False\<rparr>, cache'))"
    by (rule resolve_plain [OF plain_resolver_new [OF assms(1,2)] assms(2-4)])
  show ?thesis
  proof (cases "IsFileIgnored_direct (pathEnv T) config filePath cwd")
    case True
    note r = run(3) [unfolded if_P [OF True]]
    show ?thesis by (intro exI conjI, rule r, rule run(1)) (simp_all add: True)
  next
    case False
    note r = run(3) [unfolded if_not_P [OF False]]
    show ?thesis by (intro exI conjI, rule r, rule run(1)) (use run(2) in \<open>simp_all add: False\<close>)
  qed
qed

theorem target_resolver_agrees_witness:
  "\<exists>decision cache'. target_resolve sample_tree (newConfigTargetResolver sample_tree sample_config [] None) ''keep.ts'' [] [] =
      Some (decision, cache') \<and> \<not> globallyIgnored decision \<and> tdSelected decision \<and> key_contains (tdKey decision) 1 = Some True"
proof -
  have env: "pathEnv sample_tree = sample_paths" by (simp add: sample_tree_def)
  have pre: "normalizeAuthoredBase sample_tree [] = []" "\<not> configNeedsTargetResolver sample_config" "plain_path sample_tree [] ''keep.ts''"
    by (simp_all add: normalizeAuthoredBase_def sample_tree_def sample_paths_def configNeedsTargetResolver_def sample_config_def no_entry_def
        plain_path_def RelativePathWithinConfigRoot_def NormalizeAbsoluteDrive_def has_prefix_def Let_def)
  have "length sample_config = 2" by (simp add: sample_config_def)
  then show ?thesis
    using target_resolver_agrees [OF pre block_cache_Nil] sample_config_facts unfolding env
    by (elim exE conjE) (intro exI conjI, assumption, simp_all)
qed

section \<open>Matchers on a snapshot\<close>

lemma require_bases_frozen:
  assumes "\<And>entry d. entry \<in> set config \<Longrightarrow> d \<in> set (entry_directories T configDir entry) \<Longrightarrow> frozen T d bases"
  shows "require_bases T (Some bases) configDir config = None"
  using assms
proof (induction config)
  case (Cons entry config)
  let ?o = "configEntryPathOrigin (ResolvePath T) entry configDir"
  have d: "d \<in> set (entry_directories T configDir entry) \<Longrightarrow> \<exists>b. requireBase T (Some bases) d = Inr b" for d
    using Cons.prems [of entry d] by (simp add: requireBase_frozen)
  obtain b where "requireBase T (Some bases) (pbDirectory ?o) = Inr b" using d [of "pbDirectory ?o"] by (auto simp: entry_directories_def Let_def)
  moreover have "require_bases T (Some bases) configDir config = None" using Cons.IH Cons.prems by auto
  moreover have "pbBasePathScoped ?o \<Longrightarrow> \<exists>b. requireBase T (Some bases) (pbConfigArrayBase ?o) = Inr b"
    using d [of "pbConfigArrayBase ?o"] by (simp add: entry_directories_def Let_def)
  ultimately show ?case by (auto simp: Let_def)
qed simp

text \<open>
  A snapshot of the path spaces is complete for its configurations: building a target matcher for any
  configuration of the map the snapshot was taken from never fails with a missing base; the matcher is
  the resolver over the frozen bases.
\<close>

theorem snapshot_matcher_complete:
  assumes "\<And>d. normalizeAuthoredBase T (normalizeAuthoredBase T d) = normalizeAuthoredBase T d" and "(configDir, config) \<in> set configMap"
  shows "NewTargetMatcherWithPathSpaces T config configDir fsys' (Some (NewPathSpaceSnapshot T configMap fsys)) =
    Inr (Some (newConfigTargetResolverWithBases T config configDir fsys' (NewPathSpaceSnapshot T configMap fsys)))"
proof -
  let ?bases = "NewPathSpaceSnapshot T configMap fsys"
  have cover: "frozen T d ?bases" if "d \<in> set (config_directories T (configDir, config))" for d
    using that assms(2) snapshot_frozen [OF assms(1), of d fsys "[]" configMap] by (auto simp: NewPathSpaceSnapshot_def same_base_def)
  obtain b where "requireBase T (Some ?bases) configDir = Inr b"
    using requireBase_frozen [OF cover [of configDir]] by (auto simp: config_directories_def)
  moreover have "require_bases T (Some ?bases) configDir config = None"
    by (rule require_bases_frozen) (rule cover, auto simp: config_directories_def)
  ultimately show ?thesis by (simp add: NewTargetMatcherWithPathSpaces_def)
qed

theorem snapshot_matcher_complete_witness:
  "\<exists>matcher. NewTargetMatcherWithPathSpaces sample_tree sample_config [] None (Some (NewPathSpaceSnapshot sample_tree [([], sample_config)] None)) = Inr matcher"
proof -
  have "normalizeAuthoredBase sample_tree (normalizeAuthoredBase sample_tree d) = normalizeAuthoredBase sample_tree d" for d
    by (simp add: normalizeAuthoredBase_def sample_tree_def sample_paths_def)
  from snapshot_matcher_complete [OF this, of "[]" sample_config "[([], sample_config)]"] show ?thesis by auto
qed

end
