(* ===== verification/File_Resolver.thy ===== *)
theory File_Resolver
  imports Config_Merge Target
begin

text \<open>
  The configuration of files: the entry points of \<^verbatim>\<open>internal/config/config.go\<close>, \<^verbatim>\<open>lint_file_policy.go\<close> and
  \<^verbatim>\<open>rule_resolution.go\<close> that choose between the target resolver and direct matching, and the resolver of
  \<^verbatim>\<open>file_resolver.go\<close>, which caches the plan of every file and shares the plans of files to which the same
  entries apply.

  The outer option of a result is a panic.  The caches are threaded as state; each \<open>getOrInit\<close> runs its initializer at
  most once per key.
\<close>

section \<open>Entry points\<close>

definition decision_unconfigured :: "configTargetDecision \<Rightarrow> bool" where
  "decision_unconfigured decision = (\<not> tdMatched decision \<or> \<not> tdSelected decision \<or> globallyIgnored decision)"

definition IsFileIgnored :: "tree_env \<Rightarrow> ConfigEntry list \<Rightarrow> string \<Rightarrow> string \<Rightarrow> bool option" where
  "IsFileIgnored T config filePath cwd =
     (if configNeedsTargetResolver config
      then map_option (\<lambda>(decision, _). globallyIgnored decision) (target_resolve T (newConfigTargetResolver T config cwd None) filePath [] [])
      else Some (IsFileIgnored_direct (pathEnv T) config filePath cwd))"

definition isFileSelectedByConfig :: "tree_env \<Rightarrow> ConfigEntry list \<Rightarrow> string \<Rightarrow> string \<Rightarrow> bool option" where
  "isFileSelectedByConfig T config filePath configDir =
     (if configNeedsTargetResolver config
      then map_option (\<lambda>(decision, _). tdSelected decision \<and> \<not> globallyIgnored decision)
             (target_resolve T (newConfigTargetResolver T config configDir None) filePath [] [])
      else Some (isFileSelectedByConfig_direct (pathEnv T) config filePath configDir))"

definition resolver_config :: "ConfigEntry list \<Rightarrow> configTargetDecision \<Rightarrow> MergedConfig option option" where
  "resolver_config config decision =
     (if decision_unconfigured decision then Some None else map_option Some (mergeConfigEntries config (tdKey decision)))"

definition GetConfigForFile :: "tree_env \<Rightarrow> ConfigEntry list \<Rightarrow> string \<Rightarrow> string \<Rightarrow> MergedConfig option option" where
  "GetConfigForFile T config filePath cwd =
     (if configNeedsTargetResolver config
      then (case target_resolve T (newConfigTargetResolver T config cwd None) filePath [] [] of
              None \<Rightarrow> None
            | Some (decision, _) \<Rightarrow> resolver_config config decision)
      else GetConfigForFile_direct (pathEnv T) config filePath cwd)"

text \<open>No rules and no configuration when no entry selects the file.\<close>

definition ResolveEnabledRules ::
  "(ConfiguredRule list \<Rightarrow> ConfiguredRule list) \<Rightarrow> tree_env \<Rightarrow> Catalog option \<Rightarrow> ConfigEntry list \<Rightarrow> string \<Rightarrow> string \<Rightarrow>
   (ConfiguredRule list \<times> MergedConfig option) option" where
  "ResolveEnabledRules sortRules T catalog config filePath cwd =
     (if catalog = None then None
      else case GetConfigForFile T config filePath cwd of
             None \<Rightarrow> None
           | Some None \<Rightarrow> Some ([], None)
           | Some (Some mc) \<Rightarrow> map_option (\<lambda>rules. (rules, Some mc)) (ConfiguredRules sortRules catalog (Some mc)))"

section \<open>Directories excluded by default\<close>

definition DefaultExcludeDirNames :: "string list" where
  "DefaultExcludeDirNames = [''node_modules'', ''.git'']"

definition IsDefaultExcludedDirectoryName :: "tree_env \<Rightarrow> string \<Rightarrow> bool \<Rightarrow> bool" where
  "IsDefaultExcludedDirectoryName T name useCaseSensitive = list_ex (\<lambda>excluded. PathsEqual T name excluded useCaseSensitive) DefaultExcludeDirNames"

definition hasDefaultExcludedSegment :: "tree_env \<Rightarrow> string \<Rightarrow> bool \<Rightarrow> bool" where
  "hasDefaultExcludedSegment T walkPath useCaseSensitive =
     list_ex (\<lambda>segment. IsDefaultExcludedDirectoryName T segment useCaseSensitive) (str_split sl walkPath)"

definition IsDefaultExcludedPath :: "tree_env \<Rightarrow> string \<Rightarrow> string \<Rightarrow> bool \<Rightarrow> bool" where
  "IsDefaultExcludedPath T filePath scanRoot useCaseSensitive =
     (let filePath = normalize T filePath; scanRoot = normalize T scanRoot
      in if hasDefaultExcludedSegment T scanRoot useCaseSensitive then True
         else if PathsEqual T filePath scanRoot useCaseSensitive \<or> StartsWithDirectory T useCaseSensitive filePath scanRoot
         then hasDefaultExcludedSegment T (GetRelativePathFromDirectory T useCaseSensitive scanRoot scanRoot filePath) useCaseSensitive
         else hasDefaultExcludedSegment T filePath useCaseSensitive)"

section \<open>The caching resolver\<close>

record effectiveConfigPlan =
  planConfig :: MergedConfig
  planRules :: "ConfiguredRule list"

record configTargetResolution =
  resPlan :: "effectiveConfigPlan option"
  resIgnored :: bool

record ResolvedFileConfig =
  rfMergedConfig :: "MergedConfig option"
  rfEnabledRules :: "ConfiguredRule list"
  rfGloballyIgnored :: bool

text \<open>\<open>configTargetCacheKey\<close> has the fields of a path identity.\<close>

record FileConfigResolver =
  frConfig :: "ConfigEntry list"
  frCatalog :: Catalog
  targetResolver :: configTargetResolver
  directoryBlocks :: block_cache
  filePlans :: "(PathIdentity, configTargetResolution) publishOnceCache"
  shapePlans :: "(configMatchKey, effectiveConfigPlan) publishOnceCache"

definition newFileConfigResolver :: "ConfigEntry list \<Rightarrow> Catalog option \<Rightarrow> configTargetResolver \<Rightarrow> FileConfigResolver option" where
  "newFileConfigResolver config catalog R =
     map_option (\<lambda>c. \<lparr>frConfig = config, frCatalog = c, targetResolver = R, directoryBlocks = [], filePlans = [], shapePlans = []\<rparr>) catalog"

definition NewFileConfigResolverWithFS ::
  "tree_env \<Rightarrow> ConfigEntry list \<Rightarrow> string \<Rightarrow> vfs option \<Rightarrow> Catalog option \<Rightarrow> FileConfigResolver option" where
  "NewFileConfigResolverWithFS T config cwd fsys catalog = newFileConfigResolver config catalog (newConfigTargetResolver T config cwd fsys)"

definition NewFileConfigResolver :: "tree_env \<Rightarrow> ConfigEntry list \<Rightarrow> string \<Rightarrow> Catalog option \<Rightarrow> FileConfigResolver option" where
  "NewFileConfigResolver T config cwd catalog = NewFileConfigResolverWithFS T config cwd None catalog"

definition NewFileConfigResolverWithPathSpaces ::
  "tree_env \<Rightarrow> ConfigEntry list \<Rightarrow> string \<Rightarrow> vfs option \<Rightarrow> PathSpaceSnapshot option \<Rightarrow> Catalog option \<Rightarrow>
   (snapshot_error + FileConfigResolver) option" where
  "NewFileConfigResolverWithPathSpaces T config configDirectory fsys pathSpaces catalog =
     (case NewTargetMatcherWithPathSpaces T config configDirectory fsys pathSpaces of
        Inl e \<Rightarrow> Some (Inl e)
      | Inr None \<Rightarrow> None
      | Inr (Some R) \<Rightarrow> map_option Inr (newFileConfigResolver config catalog R))"

text \<open>The plan of a shape: the merged configuration of a set of entries and its rules.\<close>

definition shape_plan ::
  "(ConfiguredRule list \<Rightarrow> ConfiguredRule list) \<Rightarrow> ConfigEntry list \<Rightarrow> Catalog \<Rightarrow> configMatchKey \<Rightarrow> effectiveConfigPlan option" where
  "shape_plan sortRules config catalog key =
     (case mergeConfigEntries config key of
        None \<Rightarrow> None
      | Some mc \<Rightarrow> map_option (\<lambda>rules. \<lparr>planConfig = mc, planRules = rules\<rparr>) (ConfiguredRules sortRules (Some catalog) (Some mc)))"

definition planForShape ::
  "(ConfiguredRule list \<Rightarrow> ConfiguredRule list) \<Rightarrow> configMatchKey \<Rightarrow> FileConfigResolver \<Rightarrow> (effectiveConfigPlan \<times> FileConfigResolver) option" where
  "planForShape sortRules key r =
     (case map_of (shapePlans r) key of
        Some plan \<Rightarrow> Some (plan, r)
      | None \<Rightarrow> map_option (\<lambda>plan. (plan, r\<lparr>shapePlans := al_update key plan (shapePlans r)\<rparr>))
                  (shape_plan sortRules (frConfig r) (frCatalog r) key))"

definition initResolution ::
  "(ConfiguredRule list \<Rightarrow> ConfiguredRule list) \<Rightarrow> tree_env \<Rightarrow> PathIdentity \<Rightarrow> FileConfigResolver \<Rightarrow>
   (configTargetResolution \<times> FileConfigResolver) option" where
  "initResolution sortRules T key r =
     (case resolveTarget T (targetResolver r) key (directoryBlocks r) of
        None \<Rightarrow> None
      | Some (decision, blocks) \<Rightarrow>
          (let r = r\<lparr>directoryBlocks := blocks\<rparr>
           in if decision_unconfigured decision then Some (\<lparr>resPlan = None, resIgnored = globallyIgnored decision\<rparr>, r)
              else map_option (\<lambda>(plan, r). (\<lparr>resPlan = Some plan, resIgnored = globallyIgnored decision\<rparr>, r))
                     (planForShape sortRules (tdKey decision) r)))"

definition resolutionForTarget ::
  "(ConfiguredRule list \<Rightarrow> ConfiguredRule list) \<Rightarrow> tree_env \<Rightarrow> PathIdentity \<Rightarrow> FileConfigResolver \<Rightarrow>
   (configTargetResolution \<times> FileConfigResolver) option" where
  "resolutionForTarget sortRules T target r =
     (let key = \<lparr>piPath = normalize T (piPath target), CanonicalPath = normalize T (CanonicalPath target),
                 CanonicalParentPath = normalize T (CanonicalParentPath target)\<rparr>
      in case map_of (filePlans r) key of
           Some resolution \<Rightarrow> Some (resolution, r)
         | None \<Rightarrow> map_option (\<lambda>(resolution, r). (resolution, r\<lparr>filePlans := al_update key resolution (filePlans r)\<rparr>))
                     (initResolution sortRules T key r))"

definition planForTarget ::
  "(ConfiguredRule list \<Rightarrow> ConfiguredRule list) \<Rightarrow> tree_env \<Rightarrow> string \<Rightarrow> string \<Rightarrow> FileConfigResolver \<Rightarrow>
   (effectiveConfigPlan option \<times> FileConfigResolver) option" where
  "planForTarget sortRules T filePath canonicalPath r =
     map_option (\<lambda>(resolution, r). (resPlan resolution, r))
       (resolutionForTarget sortRules T \<lparr>piPath = filePath, CanonicalPath = canonicalPath, CanonicalParentPath = []\<rparr> r)"

definition ConfigForTarget ::
  "(ConfiguredRule list \<Rightarrow> ConfiguredRule list) \<Rightarrow> tree_env \<Rightarrow> string \<Rightarrow> string \<Rightarrow> FileConfigResolver \<Rightarrow>
   (MergedConfig option \<times> FileConfigResolver) option" where
  "ConfigForTarget sortRules T filePath canonicalPath r =
     map_option (\<lambda>(plan, r). (map_option planConfig plan, r)) (planForTarget sortRules T filePath canonicalPath r)"

definition EnabledRulesForTarget ::
  "(ConfiguredRule list \<Rightarrow> ConfiguredRule list) \<Rightarrow> tree_env \<Rightarrow> string \<Rightarrow> string \<Rightarrow> FileConfigResolver \<Rightarrow>
   ((ConfiguredRule list \<times> MergedConfig option) \<times> FileConfigResolver) option" where
  "EnabledRulesForTarget sortRules T filePath canonicalPath r =
     map_option (\<lambda>(plan, r). (case plan of None \<Rightarrow> ([], None) | Some p \<Rightarrow> (planRules p, Some (planConfig p)), r))
       (planForTarget sortRules T filePath canonicalPath r)"

definition ConfigForFile ::
  "(ConfiguredRule list \<Rightarrow> ConfiguredRule list) \<Rightarrow> tree_env \<Rightarrow> string \<Rightarrow> FileConfigResolver \<Rightarrow> (MergedConfig option \<times> FileConfigResolver) option" where
  "ConfigForFile sortRules T filePath r = ConfigForTarget sortRules T filePath [] r"

definition EnabledRulesForFile ::
  "(ConfiguredRule list \<Rightarrow> ConfiguredRule list) \<Rightarrow> tree_env \<Rightarrow> string \<Rightarrow> FileConfigResolver \<Rightarrow>
   ((ConfiguredRule list \<times> MergedConfig option) \<times> FileConfigResolver) option" where
  "EnabledRulesForFile sortRules T filePath r = EnabledRulesForTarget sortRules T filePath [] r"

definition ResolveTarget ::
  "(ConfiguredRule list \<Rightarrow> ConfiguredRule list) \<Rightarrow> tree_env \<Rightarrow> PathIdentity \<Rightarrow> FileConfigResolver \<Rightarrow>
   (ResolvedFileConfig \<times> FileConfigResolver) option" where
  "ResolveTarget sortRules T target r =
     map_option (\<lambda>(resolution, r).
         (\<lparr>rfMergedConfig = map_option planConfig (resPlan resolution),
           rfEnabledRules = (case resPlan resolution of None \<Rightarrow> [] | Some p \<Rightarrow> planRules p),
           rfGloballyIgnored = resIgnored resolution\<rparr>, r))
       (resolutionForTarget sortRules T target r)"

section \<open>The caches are transparent\<close>

text \<open>What a file under a plain configuration resolves to, without any cache.\<close>

definition direct_plan ::
  "(ConfiguredRule list \<Rightarrow> ConfiguredRule list) \<Rightarrow> path_env \<Rightarrow> Catalog \<Rightarrow> ConfigEntry list \<Rightarrow> string \<Rightarrow> string \<Rightarrow> effectiveConfigPlan option" where
  "direct_plan sortRules E catalog config cwd filePath =
     (if file_unconfigured E config filePath cwd then None
      else (let mc = merge_contributions (contributing E filePath cwd config)
            in Some \<lparr>planConfig = mc, planRules = sortRules (collect_rules catalog mc [] (mcRules mc))\<rparr>))"

definition direct_resolution ::
  "(ConfiguredRule list \<Rightarrow> ConfiguredRule list) \<Rightarrow> path_env \<Rightarrow> Catalog \<Rightarrow> ConfigEntry list \<Rightarrow> string \<Rightarrow> string \<Rightarrow> configTargetResolution" where
  "direct_resolution sortRules E catalog config cwd filePath =
     \<lparr>resPlan = direct_plan sortRules E catalog config cwd filePath, resIgnored = IsFileIgnored_direct E config filePath cwd\<rparr>"

abbreviation file_key :: "string \<Rightarrow> PathIdentity" where
  "file_key filePath \<equiv> \<lparr>piPath = filePath, CanonicalPath = [], CanonicalParentPath = []\<rparr>"

definition resolver_ok ::
  "(ConfiguredRule list \<Rightarrow> ConfiguredRule list) \<Rightarrow> tree_env \<Rightarrow> ConfigEntry list \<Rightarrow> string \<Rightarrow> Catalog \<Rightarrow> FileConfigResolver \<Rightarrow> bool" where
  "resolver_ok sortRules T config cwd catalog r \<longleftrightarrow>
     frConfig r = config \<and> frCatalog r = catalog \<and> plain_resolver T config cwd (targetResolver r) \<and>
     block_cache_ok T config cwd (directoryBlocks r) \<and>
     (\<forall>filePath res. map_of (filePlans r) (file_key filePath) = Some res \<longrightarrow> plain_path T cwd filePath \<longrightarrow>
        res = direct_resolution sortRules (pathEnv T) catalog config cwd filePath) \<and>
     (\<forall>key plan. map_of (shapePlans r) key = Some plan \<longrightarrow> shape_plan sortRules config catalog key = Some plan)"

lemma resolver_ok_new:
  assumes "normalizeAuthoredBase T cwd = cwd" and "\<not> configNeedsTargetResolver config"
    and "NewFileConfigResolver T config cwd (Some catalog) = Some r"
  shows "resolver_ok sortRules T config cwd catalog r"
  using plain_resolver_new [OF assms(1,2)] assms(3)
  by (auto simp: NewFileConfigResolver_def NewFileConfigResolverWithFS_def newFileConfigResolver_def resolver_ok_def)

lemma shape_plan_direct:
  assumes "\<forall>i < length config. key_contains key i = Some (entry_applies E filePath cwd (config ! i))"
    and "\<not> file_unconfigured E config filePath cwd"
  shows "shape_plan sortRules config catalog key = direct_plan sortRules E catalog config cwd filePath"
  using merge_entries_filter [of config key 0 "entry_applies E filePath cwd"] assms
  by (simp add: shape_plan_def mergeConfigEntries_def direct_plan_def merge_contributions_def contributing_def ConfiguredRules_def Let_def)

lemma planForShape_ok:
  assumes "resolver_ok sortRules T config cwd catalog r" and "shape_plan sortRules config catalog key = Some plan"
  obtains r' where "planForShape sortRules key r = Some (plan, r')" "resolver_ok sortRules T config cwd catalog r'"
proof (cases "map_of (shapePlans r) key")
  case (Some p)
  then have "p = plan" using assms unfolding resolver_ok_def by force
  then show ?thesis using that Some assms(1) by (simp add: planForShape_def)
next
  case None
  have "resolver_ok sortRules T config cwd catalog (r\<lparr>shapePlans := al_update key plan (shapePlans r)\<rparr>)"
    using assms unfolding resolver_ok_def by simp
  moreover have "frConfig r = config" "frCatalog r = catalog" using assms(1) by (simp_all add: resolver_ok_def)
  ultimately show ?thesis using that None assms(2) by (simp add: planForShape_def)
qed

lemma initResolution_ok:
  assumes ok: "resolver_ok sortRules T config cwd catalog r" and plain: "\<not> configNeedsTargetResolver config" "plain_path T cwd filePath"
  obtains r' where "initResolution sortRules T (file_key filePath) r =
      Some (direct_resolution sortRules (pathEnv T) catalog config cwd filePath, r')" "resolver_ok sortRules T config cwd catalog r'"
proof -
  have "plain_resolver T config cwd (targetResolver r)" "block_cache_ok T config cwd (directoryBlocks r)"
    using ok by (simp_all add: resolver_ok_def)
  from resolve_plain [OF this(1) plain this(2)] obtain blocks key where run: "block_cache_ok T config cwd blocks"
    "\<forall>i < length config. key_contains key i = Some (entry_applies (pathEnv T) filePath cwd (config ! i))"
    "target_resolve T (targetResolver r) filePath [] (directoryBlocks r) =
      (if IsFileIgnored_direct (pathEnv T) config filePath cwd
       then Some (\<lparr>tdKey = \<lparr>keyFirst = 0, keyTail = []\<rparr>, tdMatched = False, tdSelected = isDefaultLintFile filePath, globallyIgnored = True\<rparr>, blocks)
       else Some (\<lparr>tdKey = key, tdMatched = (\<exists>entry \<in> set config. entry_applies (pathEnv T) filePath cwd entry),
                   tdSelected = isFileSelectedByConfig_direct (pathEnv T) config filePath cwd, globallyIgnored = False\<rparr>, blocks))" .
  have ok': "resolver_ok sortRules T config cwd catalog (r\<lparr>directoryBlocks := blocks\<rparr>)" using ok run(1) by (simp add: resolver_ok_def)
  show ?thesis
  proof (cases "file_unconfigured (pathEnv T) config filePath cwd")
    case True
    then have "initResolution sortRules T (file_key filePath) r =
        Some (direct_resolution sortRules (pathEnv T) catalog config cwd filePath, r\<lparr>directoryBlocks := blocks\<rparr>)"
      using run(3) by (auto simp: initResolution_def target_resolve_def decision_unconfigured_def direct_resolution_def direct_plan_def
          file_unconfigured_def)
    then show ?thesis using that ok' by blast
  next
    case False
    note shape = shape_plan_direct [OF run(2) False, of sortRules catalog]
    obtain plan where plan: "direct_plan sortRules (pathEnv T) catalog config cwd filePath = Some plan"
      using False by (auto simp: direct_plan_def Let_def)
    obtain r' where r': "planForShape sortRules key (r\<lparr>directoryBlocks := blocks\<rparr>) = Some (plan, r')" "resolver_ok sortRules T config cwd catalog r'"
      using planForShape_ok [OF ok'] shape plan by metis
    then have "initResolution sortRules T (file_key filePath) r =
        Some (direct_resolution sortRules (pathEnv T) catalog config cwd filePath, r')"
      using run(3) False plan
      by (auto simp: initResolution_def target_resolve_def decision_unconfigured_def direct_resolution_def file_unconfigured_def)
    then show ?thesis using that r'(2) by blast
  qed
qed

lemma resolver_okI:
  assumes "resolver_ok sortRules T config cwd catalog r"
  shows "resolver_ok sortRules T config cwd catalog
    (r\<lparr>filePlans := al_update (file_key filePath) (direct_resolution sortRules (pathEnv T) catalog config cwd filePath) (filePlans r)\<rparr>)"
  using assms unfolding resolver_ok_def by simp

lemma resolutionForTarget_ok:
  assumes ok: "resolver_ok sortRules T config cwd catalog r" and plain: "\<not> configNeedsTargetResolver config" "plain_path T cwd filePath"
    and empty: "normalize T [] = []"
  obtains r' where "resolutionForTarget sortRules T (file_key filePath) r =
      Some (direct_resolution sortRules (pathEnv T) catalog config cwd filePath, r')" "resolver_ok sortRules T config cwd catalog r'"
proof -
  have key: "normalize T filePath = filePath" using plain(2) by (simp add: plain_path_def)
  show ?thesis
  proof (cases "map_of (filePlans r) (file_key filePath)")
    case (Some res)
    then have "res = direct_resolution sortRules (pathEnv T) catalog config cwd filePath"
      using ok plain(2) unfolding resolver_ok_def by blast
    then show ?thesis using that [of r] ok Some by (simp add: resolutionForTarget_def key empty)
  next
    case None
    obtain r' where r': "initResolution sortRules T (file_key filePath) r =
        Some (direct_resolution sortRules (pathEnv T) catalog config cwd filePath, r')" "resolver_ok sortRules T config cwd catalog r'"
      by (rule initResolution_ok [OF ok plain])
    show ?thesis using that [OF _ resolver_okI [OF r'(2), of filePath]] r'(1) None by (simp add: resolutionForTarget_def key empty)
  qed
qed

text \<open>The files of a run, one after the other.\<close>

fun resolve_files ::
  "(ConfiguredRule list \<Rightarrow> ConfiguredRule list) \<Rightarrow> tree_env \<Rightarrow> string list \<Rightarrow> FileConfigResolver \<Rightarrow>
   ((ConfiguredRule list \<times> MergedConfig option) list \<times> FileConfigResolver) option" where
  "resolve_files sortRules T [] r = Some ([], r)"
| "resolve_files sortRules T (filePath # files) r =
     (case EnabledRulesForFile sortRules T filePath r of
        None \<Rightarrow> None
      | Some (answer, r) \<Rightarrow> map_option (\<lambda>(answers, r). (answer # answers, r)) (resolve_files sortRules T files r))"

lemma ResolveEnabledRules_plain:
  assumes "\<not> configNeedsTargetResolver config"
  shows "ResolveEnabledRules sortRules T (Some catalog) config filePath cwd =
    Some (case direct_plan sortRules (pathEnv T) catalog config cwd filePath of None \<Rightarrow> ([], None) | Some p \<Rightarrow> (planRules p, Some (planConfig p)))"
  using assms
  by (simp add: ResolveEnabledRules_def GetConfigForFile_def GetConfigForFile_direct_eq direct_plan_def ConfiguredRules_def Let_def)

lemma resolve_files_ok:
  assumes "resolver_ok sortRules T config cwd catalog r" and "\<not> configNeedsTargetResolver config" and "normalize T [] = []"
    and "\<forall>filePath \<in> set files. plain_path T cwd filePath"
  shows "\<exists>answers r'. resolve_files sortRules T files r = Some (answers, r') \<and> resolver_ok sortRules T config cwd catalog r' \<and>
    map Some answers = map (\<lambda>filePath. ResolveEnabledRules sortRules T (Some catalog) config filePath cwd) files"
  using assms(1,4)
proof (induction files arbitrary: r)
  case (Cons filePath files)
  have p: "plain_path T cwd filePath" using Cons.prems(2) by simp
  obtain r' where r': "resolutionForTarget sortRules T (file_key filePath) r =
      Some (direct_resolution sortRules (pathEnv T) catalog config cwd filePath, r')" "resolver_ok sortRules T config cwd catalog r'"
    by (rule resolutionForTarget_ok [OF Cons.prems(1) assms(2) p assms(3)])
  have "\<forall>filePath \<in> set files. plain_path T cwd filePath" using Cons.prems(2) by simp
  from Cons.IH [OF r'(2) this] obtain answers r'' where rest: "resolve_files sortRules T files r' = Some (answers, r'')"
    "resolver_ok sortRules T config cwd catalog r''"
    "map Some answers = map (\<lambda>filePath. ResolveEnabledRules sortRules T (Some catalog) config filePath cwd) files" by (elim exE conjE)
  have "EnabledRulesForFile sortRules T filePath r =
      Some (case direct_plan sortRules (pathEnv T) catalog config cwd filePath of None \<Rightarrow> ([], None) | Some p \<Rightarrow> (planRules p, Some (planConfig p)), r')"
    by (simp add: EnabledRulesForFile_def EnabledRulesForTarget_def planForTarget_def r'(1) direct_resolution_def)
  then show ?case using rest by (auto simp: ResolveEnabledRules_plain [OF assms(2)])
qed simp

text \<open>
  Claim C32.  The caching resolver is transparent for plain configurations.  The scope: no entry has a base path, an
  authored base or collected Git rules (no target resolver is needed), the resolver is the one of
  NewFileConfigResolver, built without a file system, and every file is named by a plain path.  Then the rules and
  the configuration it returns for a sequence of files, in any order and with repetitions, with the plans of files
  and of sets of entries and the decisions on directories cached, are for every file those that a resolution of
  that file alone gives, and no query panics.
\<close>

theorem FileConfigResolver_transparent:
  assumes "normalizeAuthoredBase T cwd = cwd" and "normalize T [] = []" and "\<not> configNeedsTargetResolver config"
    and "\<forall>filePath \<in> set files. plain_path T cwd filePath" and "NewFileConfigResolver T config cwd (Some catalog) = Some r"
  shows "\<exists>answers r'. resolve_files sortRules T files r = Some (answers, r') \<and>
    map Some answers = map (\<lambda>filePath. ResolveEnabledRules sortRules T (Some catalog) config filePath cwd) files"
  using resolve_files_ok [OF resolver_ok_new [OF assms(1,3,5)] assms(3,2,4), of sortRules] by blast

theorem FileConfigResolver_transparent_witness:
  "\<exists>r answers r'. NewFileConfigResolver sample_tree sample_config [] (Some (NewCatalog [])) = Some r \<and>
    resolve_files (sort_cmp cmp_rule_name) sample_tree [''keep.ts'', ''gen/a.ts'', ''keep.ts''] r = Some (answers, r') \<and> answers ! 0 = answers ! 2"
proof -
  have pre: "normalizeAuthoredBase sample_tree [] = []" "normalize sample_tree [] = []" "\<not> configNeedsTargetResolver sample_config"
    "\<forall>filePath \<in> set [''keep.ts'', ''gen/a.ts'', ''keep.ts'']. plain_path sample_tree [] filePath"
    by (simp_all add: normalizeAuthoredBase_def sample_tree_def sample_paths_def configNeedsTargetResolver_def sample_config_def no_entry_def
        plain_path_def RelativePathWithinConfigRoot_def NormalizeAbsoluteDrive_def has_prefix_def Let_def)
  obtain r where r: "NewFileConfigResolver sample_tree sample_config [] (Some (NewCatalog [])) = Some r"
    by (auto simp: NewFileConfigResolver_def NewFileConfigResolverWithFS_def newFileConfigResolver_def)
  from FileConfigResolver_transparent [OF pre r, of "sort_cmp cmp_rule_name"] obtain answers r' where
    a: "resolve_files (sort_cmp cmp_rule_name) sample_tree [''keep.ts'', ''gen/a.ts'', ''keep.ts''] r = Some (answers, r')"
    "map Some answers = map (\<lambda>filePath. ResolveEnabledRules (sort_cmp cmp_rule_name) sample_tree (Some (NewCatalog [])) sample_config filePath [])
       [''keep.ts'', ''gen/a.ts'', ''keep.ts'']" by (elim exE conjE)
  have "length answers = 3" using arg_cong [OF a(2), of length] by simp
  moreover have "map Some answers ! 0 = map Some answers ! 2" unfolding a(2) by simp
  ultimately have "answers ! 0 = answers ! 2" by simp
  then show ?thesis using r a(1) by blast
qed

end
