(* ===== verification/Gitignore.thy ===== *)
theory Gitignore
  imports File_Resolver
begin

text \<open>
  The text of \<^verbatim>\<open>.gitignore\<close> files (\<^verbatim>\<open>internal/utils/gitignore/patterns.go\<close>) and how collected rules enter a configuration
  (\<^verbatim>\<open>internal/config/gitignore_config.go\<close> and the binding half of \<^verbatim>\<open>gitignore_scope.go\<close>).
\<close>

section \<open>Parsing\<close>

abbreviation backslash :: char where "backslash \<equiv> CHR 0x5C"

record Pattern =
  gpGlob :: string
  NodeGlob :: string
  gpNegated :: bool
  DirectoryOnly :: bool
  ContentsOnly :: bool

text \<open>The trailing white space is removed from the back; an odd number of backslashes before it escapes it.\<close>

fun trim_escaped :: "string \<Rightarrow> string \<Rightarrow> string" where
  "trim_escaped whitespace [] = []"
| "trim_escaped whitespace (c # before) =
     (if c \<notin> set whitespace then c # before
      else if odd (length (takeWhile (\<lambda>c. c = backslash) before)) then c # before
      else trim_escaped whitespace before)"

definition trimUnescapedTrailingWhitespace :: "string \<Rightarrow> string \<Rightarrow> string" where
  "trimUnescapedTrailingWhitespace line whitespace = rev (trim_escaped whitespace (rev line))"

definition normalizeGitignoreLine :: "string \<Rightarrow> string option" where
  "normalizeGitignoreLine line =
     (let line = trimUnescapedTrailingWhitespace (trim_suffix line [CHR 0x0D]) [CHR '' '', CHR 0x09]
      in if line = [] \<or> has_prefix line ''#'' then None else Some line)"

definition containsParentPathComponent :: "string \<Rightarrow> bool" where
  "containsParentPathComponent pattern = list_ex (\<lambda>component. component = ''..'') (str_split sl pattern)"

definition appendConfigGlobLiteral :: "string \<Rightarrow> char \<Rightarrow> string" where
  "appendConfigGlobLiteral result character =
     result @ (if character = CHR ''*'' then ''[*]'' else if character = CHR ''?'' then ''[?]'' else if character = CHR ''['' then ''[[]''
               else if character = CHR ''{'' then ''[{]'' else if character = CHR ''}'' then ''[}]'' else [character])"

definition gitignoreBaseDirForConfigGlob :: "string \<Rightarrow> string" where
  "gitignoreBaseDirForConfigGlob baseDir =
     (if \<not> list_ex (\<lambda>c. c \<in> set ''*?[{}'') baseDir then baseDir
      else foldl (\<lambda>result character. if character = sl then result @ [character] else appendConfigGlobLiteral result character) [] baseDir)"

fun quote_pattern :: "string \<Rightarrow> bool \<Rightarrow> string \<Rightarrow> string" where
  "quote_pattern result inClass [] = result"
| "quote_pattern result inClass [c] =
     (if c = CHR ''['' \<or> c = CHR '']'' \<and> inClass then result @ [c]
      else if \<not> inClass \<and> (c = CHR ''{'' \<or> c = CHR ''}'') then appendConfigGlobLiteral result c
      else result @ [c])"
| "quote_pattern result inClass (c # d # rest) =
     (if c = backslash then quote_pattern (appendConfigGlobLiteral result d) inClass rest
      else if c = CHR ''['' then quote_pattern (result @ [c]) True (d # rest)
      else if c = CHR '']'' \<and> inClass then quote_pattern (result @ [c]) False (d # rest)
      else if \<not> inClass \<and> (c = CHR ''{'' \<or> c = CHR ''}'') then quote_pattern (appendConfigGlobLiteral result c) inClass (d # rest)
      else quote_pattern (result @ [c]) inClass (d # rest))"

definition gitignorePatternForConfigGlob :: "string \<Rightarrow> string" where
  "gitignorePatternForConfigGlob pattern = quote_pattern [] False pattern"

definition node_glob :: "bool \<Rightarrow> string \<Rightarrow> string \<Rightarrow> string" where
  "node_glob rooted baseGlob line =
     (if rooted then (if baseGlob \<noteq> [] then baseGlob @ ''/'' @ line else line)
      else (if baseGlob \<noteq> [] then baseGlob @ ''/**/'' @ line else ''**/'' @ line))"

definition expand_directory :: "bool \<Rightarrow> bool \<Rightarrow> string \<Rightarrow> string" where
  "expand_directory dirOnly contentsOnly glob =
     (if dirOnly \<and> \<not> has_suffix glob ''/**/*'' then (if contentsOnly then glob @ ''/*'' else glob @ ''/**/*'') else glob)"

definition mark_negation :: "bool \<Rightarrow> string \<Rightarrow> string" where
  "mark_negation negated glob = (if negated then ''!'' @ glob else if has_prefix glob ''!'' then ''./'' @ glob else glob)"

definition parsePattern :: "string \<Rightarrow> string \<Rightarrow> (string \<Rightarrow> string) \<Rightarrow> Pattern option" where
  "parsePattern line baseDir quote =
     (let negated = has_prefix line ''!'';
          line = (if negated then drop 1 line else line)
      in if containsParentPathComponent line then None
         else (let dirOnly = has_suffix line ''/'';
                   line = (if dirOnly then trim_suffix line ''/'' else line);
                   rooted = (has_prefix line ''/'' \<or> sl \<in> set line);
                   line = (if has_prefix line ''/'' then trim_prefix line ''/'' else line)
               in if line = [] then None
                  else (let contentsOnly = has_suffix line ''/**'';
                            nodeGlob = node_glob rooted (gitignoreBaseDirForConfigGlob baseDir) (quote line)
                        in Some \<lparr>gpGlob = mark_negation negated (expand_directory dirOnly contentsOnly nodeGlob), NodeGlob = nodeGlob,
                                 gpNegated = negated, DirectoryOnly = dirOnly, ContentsOnly = contentsOnly\<rparr>)))"

text \<open>The sequence is always consumed to its end.\<close>

definition ParseText :: "string \<Rightarrow> string \<Rightarrow> Pattern list" where
  "ParseText content baseDir =
     concat (map (\<lambda>line. case normalizeGitignoreLine line of
                           None \<Rightarrow> []
                         | Some line \<Rightarrow> (case parsePattern line baseDir gitignorePatternForConfigGlob of None \<Rightarrow> [] | Some p \<Rightarrow> [p]))
              (str_split (CHR 0x0A) content))"

section \<open>Collected rules in a configuration\<close>

text \<open>\<open>Pattern\<close> of the package \<^verbatim>\<open>config/gitignore\<close>: the rule with the identities of its root.\<close>

record CollectedPattern = Pattern +
  cpMatchDirectory :: string
  cpPhysicalMatchDirectory :: string
  cpLexicalMatchDirectory :: string

definition convertGitignoreToPatterns :: "string \<Rightarrow> string \<Rightarrow> CollectedPattern list" where
  "convertGitignoreToPatterns content baseDir =
     map (\<lambda>p. \<lparr>gpGlob = gpGlob p, NodeGlob = NodeGlob p, gpNegated = gpNegated p, DirectoryOnly = DirectoryOnly p,
               ContentsOnly = ContentsOnly p, cpMatchDirectory = [], cpPhysicalMatchDirectory = [], cpLexicalMatchDirectory = []\<rparr>)
       (ParseText content baseDir)"

definition rule_body :: "CollectedPattern \<Rightarrow> string" where
  "rule_body source = (if gpNegated source then trim_prefix (gpGlob source) ''!'' else gpGlob source)"

definition cover_body :: "string \<Rightarrow> string" where
  "cover_body body =
     (if has_suffix body ''/**'' \<and> \<not> has_suffix body ''/**/*'' then body @ ''/*''
      else if \<not> has_suffix body ''/**/*'' then body @ ''/**/*'' else body)"

definition git_projection :: "CollectedPattern \<Rightarrow> string" where
  "git_projection source =
     (let projection = cover_body (rule_body source) in if gpNegated source then ''!'' @ projection else projection)"

definition parse_collected :: "path_env \<Rightarrow> bool \<Rightarrow> CollectedPattern \<Rightarrow> IgnorePattern option" where
  "parse_collected E caseInsensitive source =
     (let nodeGlob = normalizePattern E (NodeGlob source)
      in if rule_body source = [] \<or> nodeGlob = [] then None
         else (let pattern = (ParseIgnorePattern E (git_projection source))
                     \<lparr>CaseInsensitive := caseInsensitive, GitPattern := True, GitDirectoryOnly := DirectoryOnly source,
                      GitContentsOnly := ContentsOnly source, MatchDirectory := cpMatchDirectory source,
                      PhysicalMatchDirectory := cpPhysicalMatchDirectory source, LexicalMatchDirectory := cpLexicalMatchDirectory source\<rparr>;
                   pattern = (if caseInsensitive then pattern\<lparr>igGlob := ToLower E (igGlob pattern)\<rparr> else pattern);
                   nodeGlob = (if caseInsensitive then ToLower E nodeGlob else nodeGlob)
               in if \<not> has_prefix (igGlob pattern) nodeGlob then None
                  else Some (pattern\<lparr>GitNodeGlobEnd := int (length nodeGlob)\<rparr>)))"

definition parseCollectedGitignorePatterns :: "path_env \<Rightarrow> CollectedPattern list \<Rightarrow> bool \<Rightarrow> IgnorePattern list" where
  "parseCollectedGitignorePatterns E collected caseInsensitive = List.map_filter (parse_collected E caseInsensitive) collected"

text \<open>The scope a pattern belongs to; a missing directory is the matching one.\<close>

definition pattern_scope :: "IgnorePattern \<Rightarrow> collectedGitignoreScope" where
  "pattern_scope p =
     \<lparr>matchDirectory = MatchDirectory p,
      physicalDirectory = (if PhysicalMatchDirectory p = [] then MatchDirectory p else PhysicalMatchDirectory p),
      lexicalDirectory = (if LexicalMatchDirectory p = [] then MatchDirectory p else LexicalMatchDirectory p),
      scopeCaseInsensitive = CaseInsensitive p\<rparr>"

definition scoped :: "IgnorePattern \<Rightarrow> bool" where
  "scoped p = (GitPattern p \<and> patternHasMatchDirectory p)"

definition add_scope :: "collectedGitignoreScope list \<Rightarrow> collectedGitignoreScope \<Rightarrow> collectedGitignoreScope list" where
  "add_scope scopes scope = (if list_ex (\<lambda>existing. existing = scope) scopes then scopes else scopes @ [scope])"

definition collectedGitignoreScopesFromPatterns :: "IgnorePattern list \<Rightarrow> collectedGitignoreScope list" where
  "collectedGitignoreScopesFromPatterns patterns =
     foldl (\<lambda>scopes p. if \<not> scoped p then scopes else add_scope scopes (pattern_scope p)) [] patterns"

definition bind_pattern :: "collectedGitignoreScope list \<Rightarrow> IgnorePattern \<Rightarrow> IgnorePattern" where
  "bind_pattern scopes p =
     (if \<not> scoped p then p
      else p\<lparr>gitScope := (case first_scope (\<lambda>candidate. candidate = pattern_scope p) 0 scopes of Some s \<Rightarrow> s | None \<Rightarrow> unmatchedGitScope)\<rparr>)"

definition bindCollectedGitignorePatterns :: "IgnorePattern list \<Rightarrow> collectedGitignoreScope list \<Rightarrow> IgnorePattern list" where
  "bindCollectedGitignorePatterns patterns scopes = map (bind_pattern scopes) patterns"

definition configWithCollectedGitignoreMetadata ::
  "ConfigEntry list \<Rightarrow> CollectedPattern list \<Rightarrow> IgnorePattern list \<Rightarrow> collectedGitignoreScope list \<Rightarrow> ConfigEntry list" where
  "configWithCollectedGitignoreMetadata config patterns parsed scopes =
     no_entry\<lparr>Ignores := map gpGlob patterns,
              collectedGitignore := Some \<lparr>gitIgnores = bindCollectedGitignorePatterns parsed scopes, gitScopes = scopes\<rparr>\<rparr> # config"

definition ConfigWithCollectedGitignore :: "path_env \<Rightarrow> ConfigEntry list \<Rightarrow> CollectedPattern list \<Rightarrow> bool \<Rightarrow> ConfigEntry list" where
  "ConfigWithCollectedGitignore E config patterns caseInsensitive =
     (if length patterns = 0 then config
      else (let parsed = parseCollectedGitignorePatterns E patterns caseInsensitive
            in configWithCollectedGitignoreMetadata config patterns parsed (collectedGitignoreScopesFromPatterns parsed)))"

definition resolveCollectedGitignoreScope :: "tree_env \<Rightarrow> string \<Rightarrow> string \<Rightarrow> vfs option \<Rightarrow> bool \<Rightarrow> collectedGitignoreScope" where
  "resolveCollectedGitignoreScope T configDirectory gitignoreRoot fsys caseInsensitive =
     (let configDirectory = normalize T configDirectory; gitignoreRoot = normalize T gitignoreRoot
      in \<lparr>matchDirectory = fst (ResolveConfigDirectoryPathSpace T gitignoreRoot configDirectory fsys),
          physicalDirectory = realpath_or T fsys gitignoreRoot gitignoreRoot, lexicalDirectory = gitignoreRoot,
          scopeCaseInsensitive = caseInsensitive\<rparr>)"

definition CollectedGitignorePatternsForRoot ::
  "tree_env \<Rightarrow> CollectedPattern list \<Rightarrow> string \<Rightarrow> string \<Rightarrow> vfs option \<Rightarrow> CollectedPattern list" where
  "CollectedGitignorePatternsForRoot T patterns configDirectory gitignoreRoot fsys =
     (let root = resolveCollectedGitignoreScope T configDirectory gitignoreRoot fsys False
      in map (\<lambda>p. p\<lparr>cpMatchDirectory := matchDirectory root, cpPhysicalMatchDirectory := physicalDirectory root,
                    cpLexicalMatchDirectory := lexicalDirectory root\<rparr>) patterns)"

definition ConfigWithCollectedGitignoreScopes ::
  "tree_env \<Rightarrow> ConfigEntry list \<Rightarrow> CollectedPattern list \<Rightarrow> string list \<Rightarrow> string \<Rightarrow> vfs option \<Rightarrow> bool \<Rightarrow> ConfigEntry list" where
  "ConfigWithCollectedGitignoreScopes T config patterns scopeRoots configDirectory fsys caseInsensitive =
     (if length patterns = 0 then config
      else (let parsed = parseCollectedGitignorePatterns (pathEnv T) patterns caseInsensitive;
                scopes = foldl (\<lambda>scopes root. add_scope scopes (resolveCollectedGitignoreScope T configDirectory root fsys caseInsensitive)) [] scopeRoots
            in configWithCollectedGitignoreMetadata config patterns parsed scopes))"

definition hasGlobalIgnoreEntries :: "ConfigEntry list \<Rightarrow> bool" where
  "hasGlobalIgnoreEntries config = list_ex isGlobalIgnoreEntry config"

definition resolveGitignoreCollectionTargetPath :: "tree_env \<Rightarrow> PathIdentity \<Rightarrow> string \<Rightarrow> vfs option \<Rightarrow> string" where
  "resolveGitignoreCollectionTargetPath T target configDir fsys =
     (let target = target\<lparr>piPath := normalize T (piPath target)\<rparr>
      in case ResolveConfigFilePathSpaceForTarget T target configDir fsys of
           (matchFile, matchDir) \<Rightarrow>
             (case RelativePathWithinConfigRoot T matchFile matchDir True of
                Some relative \<Rightarrow> ResolvePath T configDir relative
              | None \<Rightarrow> piPath target))"

definition ResolveGitignoreCollectionPath :: "tree_env \<Rightarrow> string \<Rightarrow> string \<Rightarrow> string \<Rightarrow> vfs option \<Rightarrow> string" where
  "ResolveGitignoreCollectionPath T filePath canonicalPath configDir fsys =
     resolveGitignoreCollectionTargetPath T \<lparr>piPath = filePath, CanonicalPath = canonicalPath, CanonicalParentPath = []\<rparr> configDir fsys"

definition ResolveGitignoreCollectionDirectory :: "tree_env \<Rightarrow> string \<Rightarrow> string \<Rightarrow> vfs option \<Rightarrow> string" where
  "ResolveGitignoreCollectionDirectory T directory configDir fsys =
     (let directory = normalize T directory
      in case ResolveConfigDirectoryPathSpace T directory configDir fsys of
           (matchDirectory', matchConfigDir) \<Rightarrow>
             (case RelativePathWithinConfigRoot T matchDirectory' matchConfigDir True of
                Some relative \<Rightarrow> ResolvePath T configDir relative
              | None \<Rightarrow> if RelativePathWithinConfigRoot T matchConfigDir matchDirectory' True \<noteq> None then normalize T configDir else directory))"

section \<open>Trailing white space\<close>

lemma trim_escaped_suffix: "\<exists>ws. set ws \<subseteq> set whitespace \<and> line = ws @ trim_escaped whitespace line"
proof (induction line)
  case (Cons c before)
  then obtain ws where ws: "set ws \<subseteq> set whitespace" "before = ws @ trim_escaped whitespace before" by blast
  show ?case
  proof (cases "c \<in> set whitespace \<and> even (length (takeWhile (\<lambda>c. c = backslash) before))")
    case True
    then have "trim_escaped whitespace (c # before) = trim_escaped whitespace before" by simp
    moreover have "set (c # ws) \<subseteq> set whitespace" "c # before = (c # ws) @ trim_escaped whitespace before" using True ws by auto
    ultimately show ?thesis by metis
  next
    case False
    then have "trim_escaped whitespace (c # before) = c # before" by auto
    then show ?thesis by (intro exI [of _ "[]"]) simp
  qed
qed simp

lemma trim_escaped_hd:
  "trim_escaped whitespace line = c # before \<Longrightarrow> c \<notin> set whitespace \<or> odd (length (takeWhile (\<lambda>c. c = backslash) before))"
  by (induction line) (auto split: if_splits)

text \<open>What is removed is white space, and what is left ends with no white space that a backslash does not escape.\<close>

lemma trimUnescapedTrailingWhitespace_spec:
  "\<exists>ws. set ws \<subseteq> set whitespace \<and> line = trimUnescapedTrailingWhitespace line whitespace @ ws"
  "trimUnescapedTrailingWhitespace line whitespace = before @ [c] \<Longrightarrow>
    c \<notin> set whitespace \<or> odd (length (takeWhile (\<lambda>c. c = backslash) (rev before)))"
proof -
  obtain ws where "set ws \<subseteq> set whitespace" "rev line = ws @ trim_escaped whitespace (rev line)" using trim_escaped_suffix by blast
  then show "\<exists>ws. set ws \<subseteq> set whitespace \<and> line = trimUnescapedTrailingWhitespace line whitespace @ ws"
    by (metis rev_append rev_rev_ident set_rev trimUnescapedTrailingWhitespace_def)
  assume "trimUnescapedTrailingWhitespace line whitespace = before @ [c]"
  then have "trim_escaped whitespace (rev line) = c # rev before" unfolding trimUnescapedTrailingWhitespace_def by (simp add: rev_swap)
  then show "c \<notin> set whitespace \<or> odd (length (takeWhile (\<lambda>c. c = backslash) (rev before)))" by (rule trim_escaped_hd)
qed

section \<open>Representation of collected rules\<close>

definition cover :: string where "cover = ''/**/*''"

lemma cover_body_cases:
  obtains pre where "cover_body body = pre @ cover"
proof -
  consider r where "body = r @ ''/**''" "\<not> has_suffix body ''/**/*''" | "\<not> has_suffix body ''/**''" "\<not> has_suffix body ''/**/*''"
    | r where "body = r @ ''/**/*''" unfolding has_suffix_iff by blast
  then show ?thesis
  proof cases
    case (1 r)
    then have "cover_body body = r @ cover" by (simp add: cover_body_def cover_def has_suffix_iff)
    then show ?thesis by (rule that)
  next
    case 2
    then have "cover_body body = body @ cover" by (simp add: cover_body_def cover_def)
    then show ?thesis by (rule that)
  next
    case (3 r)
    then have "cover_body body = r @ cover" by (simp add: cover_body_def cover_def has_suffix_iff)
    then show ?thesis by (rule that)
  qed
qed

lemma git_projection_cover:
  obtains pre where "git_projection source = (if gpNegated source then CHR ''!'' # pre else pre) @ cover"
proof -
  obtain pre where "cover_body (rule_body source) = pre @ cover" by (rule cover_body_cases)
  then show ?thesis using that by (simp add: git_projection_def)
qed

lemma ParseIgnorePattern_cover:
  assumes "raw = (if neg then CHR ''!'' # pre else pre) @ cover"
  shows "igKind (ParseIgnorePattern E raw) = dirFileLevelCover"
proof -
  let ?body = "if has_prefix raw ''!'' then drop 1 raw else raw"
  have "\<exists>q. ?body = q @ cover" using assms by (cases pre) (auto simp: has_prefix_def cover_def)
  then obtain q where q: "?body = q @ cover" by blast
  then have "?body \<noteq> []" "has_suffix ?body ''/**/*''" by (auto simp: cover_def has_suffix_iff)
  then show ?thesis by (simp add: ParseIgnorePattern_def Let_def)
qed

lemma parse_collected_cover: "parse_collected E caseInsensitive source = Some p \<Longrightarrow> igKind p = dirFileLevelCover"
proof -
  assume parsed: "parse_collected E caseInsensitive source = Some p"
  obtain pre where "git_projection source = (if gpNegated source then CHR ''!'' # pre else pre) @ cover" by (rule git_projection_cover)
  from ParseIgnorePattern_cover [OF this, of E] show "igKind p = dirFileLevelCover"
    using parsed by (auto simp: parse_collected_def Let_def split: if_splits)
qed

lemma parseCollected_cover: "p \<in> set (parseCollectedGitignorePatterns E collected ci) \<Longrightarrow> igKind p = dirFileLevelCover"
  by (auto simp: parseCollectedGitignorePatterns_def map_filter_def dest: parse_collected_cover)

lemma isDirAbsolutelyBlocked_none:
  "(\<And>p. p \<in> set ps \<Longrightarrow> igKind p \<noteq> dirAbsoluteBlock) \<Longrightarrow> \<not> isDirAbsolutelyBlocked E dir ps"
  by (auto simp: isDirAbsolutelyBlocked_iff)

lemma isDirBlocked_none:
  assumes "\<And>p. p \<in> set ps \<Longrightarrow> igKind p \<noteq> dirAbsoluteBlock"
  shows "\<not> isDirBlockedByIgnores E filePath ps cwd"
  using assms isDirAbsolutelyBlocked_none [of ps E] by (auto simp: isDirBlockedByIgnores_def list_ex_iff split: option.split)

lemma bind_pattern_kind [simp]: "igKind (bind_pattern scopes p) = igKind p"
  by (simp add: bind_pattern_def)

section \<open>Rules of a text\<close>

text \<open>
  What the representation relies on of \<open>NormalizePath\<close> and \<open>ToLower\<close> for one glob: a glob followed by a wildcard suffix
  normalizes to an extension of the normalized glob, a leading \<open>./\<close> disappears, and lower case keeps prefixes.
\<close>

definition wildcards :: "string set" where
  "wildcards = {a @ b |a b. a \<in> {[], ''/*'', ''/**/*''} \<and> b \<in> {[], ''/*'', ''/**/*''}}"

definition glob_laws :: "path_env \<Rightarrow> string \<Rightarrow> bool" where
  "glob_laws E g \<longleftrightarrow> NormalizePath E g \<noteq> [] \<and> ToLower E (NormalizePath E g) \<noteq> [] \<and>
     (\<forall>w \<in> wildcards. has_prefix (NormalizePath E (g @ w)) (NormalizePath E g) \<and> NormalizePath E (''./'' @ g @ w) = NormalizePath E (g @ w) \<and>
        has_prefix (ToLower E (NormalizePath E (g @ w))) (ToLower E (NormalizePath E g)))"

text \<open>The glob of a parsed rule is its node glob with a wildcard suffix, marked when it is negated or starts with an exclamation mark.\<close>

definition rule_shape :: "'a Pattern_scheme \<Rightarrow> bool" where
  "rule_shape p \<longleftrightarrow> NodeGlob p \<noteq> [] \<and>
     (\<exists>w \<in> {[], ''/*'', ''/**/*''}. gpGlob p = (if gpNegated p then ''!'' @ NodeGlob p @ w
        else if has_prefix (NodeGlob p) ''!'' then ''./'' @ NodeGlob p @ w else NodeGlob p @ w))"

lemma appendConfigGlobLiteral_append: "appendConfigGlobLiteral (pre @ result) c = pre @ appendConfigGlobLiteral result c"
  by (simp add: appendConfigGlobLiteral_def)

lemma quote_pattern_append: "quote_pattern (pre @ result) inClass cs = pre @ quote_pattern result inClass cs"
  by (induction result inClass cs rule: quote_pattern.induct)
    (simp_all add: appendConfigGlobLiteral_append)

lemma quote_pattern_nonempty: "result \<noteq> [] \<or> cs \<noteq> [] \<Longrightarrow> quote_pattern result inClass cs \<noteq> []"
  by (induction result inClass cs rule: quote_pattern.induct) (simp_all add: appendConfigGlobLiteral_def)

lemma has_prefix_bang: "has_prefix (a @ w) ''!'' \<longleftrightarrow> (if a = [] then has_prefix w ''!'' else has_prefix a ''!'')"
  by (cases a) (auto simp: has_prefix_def)

lemma expand_directory_cases:
  obtains w where "w \<in> {[], ''/*'', ''/**/*''}" "expand_directory dirOnly contentsOnly g = g @ w"
  unfolding expand_directory_def by (cases "dirOnly \<and> \<not> has_suffix g ''/**/*''"; cases contentsOnly) auto

lemma node_glob_nonempty: "line \<noteq> [] \<Longrightarrow> node_glob rooted baseGlob line \<noteq> []"
  by (simp add: node_glob_def)

lemma gitignorePatternForConfigGlob_nonempty: "line \<noteq> [] \<Longrightarrow> gitignorePatternForConfigGlob line \<noteq> []"
  using quote_pattern_nonempty [of "[]" line False] by (simp add: gitignorePatternForConfigGlob_def)

lemma parsePattern_parts:
  assumes "parsePattern line baseDir gitignorePatternForConfigGlob = Some p"
  shows "gpGlob p = mark_negation (gpNegated p) (expand_directory (DirectoryOnly p) (ContentsOnly p) (NodeGlob p))" "NodeGlob p \<noteq> []"
proof -
  show "gpGlob p = mark_negation (gpNegated p) (expand_directory (DirectoryOnly p) (ContentsOnly p) (NodeGlob p))"
    using assms unfolding parsePattern_def Let_def by (auto split: if_splits)
  show "NodeGlob p \<noteq> []"
    using assms unfolding parsePattern_def Let_def
    by (auto split: if_splits simp: node_glob_nonempty gitignorePatternForConfigGlob_nonempty)
qed

lemma parsePattern_shape:
  assumes "parsePattern line baseDir gitignorePatternForConfigGlob = Some p"
  shows "rule_shape p"
proof -
  note parts = parsePattern_parts [OF assms]
  obtain w where w: "w \<in> {[], ''/*'', ''/**/*''}" "expand_directory (DirectoryOnly p) (ContentsOnly p) (NodeGlob p) = NodeGlob p @ w"
    by (rule expand_directory_cases)
  have "has_prefix (NodeGlob p @ w) ''!'' \<longleftrightarrow> has_prefix (NodeGlob p) ''!''" using parts(2) by (simp add: has_prefix_bang)
  then show ?thesis using w(1) parts unfolding rule_shape_def mark_negation_def w(2) by auto
qed

lemma ParseText_shape: "p \<in> set (ParseText content baseDir) \<Longrightarrow> rule_shape p"
  by (auto simp: ParseText_def intro: parsePattern_shape split: option.splits)

lemma cover_body_suffix:
  obtains w where "w \<in> {[], ''/*'', ''/**/*''}" "cover_body body = body @ w"
  unfolding cover_body_def by (cases "has_suffix body ''/**/*''"; cases "has_suffix body ''/**''") auto

definition fold_glob :: "path_env \<Rightarrow> bool \<Rightarrow> string \<Rightarrow> string" where
  "fold_glob E caseInsensitive g = (if caseInsensitive then ToLower E g else g)"

text \<open>How a collected rule is represented: nothing of the source rule is lost, and its node glob is a prefix of its glob.\<close>

definition represents :: "path_env \<Rightarrow> bool \<Rightarrow> 'a Pattern_scheme \<Rightarrow> IgnorePattern \<Rightarrow> bool" where
  "represents E ci source q \<longleftrightarrow> GitPattern q \<and> CaseInsensitive q = ci \<and> igNegated q = gpNegated source \<and> igKind q = dirFileLevelCover \<and>
     GitDirectoryOnly q = DirectoryOnly source \<and> GitContentsOnly q = ContentsOnly source \<and>
     gitIgnoreNodeGlob q = fold_glob E ci (NormalizePath E (NodeGlob source)) \<and>
     (\<exists>w \<in> wildcards. igGlob q = fold_glob E ci (NormalizePath E (NodeGlob source @ w)))"

lemma wildcards_append: "a \<in> {[], ''/*'', ''/**/*''} \<Longrightarrow> b \<in> {[], ''/*'', ''/**/*''} \<Longrightarrow> a @ b \<in> wildcards"
  by (auto simp: wildcards_def)

lemma projection_of_shape:
  assumes "rule_shape (source :: CollectedPattern)"
  obtains w where "w \<in> wildcards" "rule_body source \<noteq> []"
    "git_projection source = (if gpNegated source then ''!'' else if has_prefix (NodeGlob source) ''!'' then ''./'' else []) @ NodeGlob source @ w \<or>
     gpNegated source \<and> git_projection source = ''!'' @ NodeGlob source @ w"
proof -
  obtain a where a: "a \<in> {[], ''/*'', ''/**/*''}" "NodeGlob source \<noteq> []"
    "gpGlob source = (if gpNegated source then ''!'' @ NodeGlob source @ a
       else if has_prefix (NodeGlob source) ''!'' then ''./'' @ NodeGlob source @ a else NodeGlob source @ a)"
    using assms unfolding rule_shape_def by blast
  let ?pre = "if gpNegated source then [] else if has_prefix (NodeGlob source) ''!'' then ''./'' else []"
  have body: "rule_body source = ?pre @ NodeGlob source @ a"
    using a(3) by (simp add: rule_body_def trim_prefix_def has_prefix_def)
  obtain b where b: "b \<in> {[], ''/*'', ''/**/*''}" "cover_body (rule_body source) = rule_body source @ b" by (rule cover_body_suffix)
  show ?thesis
    by (rule that [OF wildcards_append [OF a(1) b(1)]]) (use body a(2) b(2) in \<open>auto simp: git_projection_def\<close>)
qed

lemma parse_collected_represents:
  assumes "rule_shape (source :: CollectedPattern)" and "glob_laws E (NodeGlob source)"
  shows "\<exists>q. parse_collected E ci source = Some q \<and> represents E ci source q"
proof -
  obtain w where w: "w \<in> wildcards" "rule_body source \<noteq> []"
    "git_projection source = (if gpNegated source then ''!'' else if has_prefix (NodeGlob source) ''!'' then ''./'' else []) @ NodeGlob source @ w"
    by (rule projection_of_shape [OF assms(1)]) auto
  let ?N = "NormalizePath E (NodeGlob source)"
  have laws: "?N \<noteq> []" "ToLower E ?N \<noteq> []" "has_prefix (NormalizePath E (NodeGlob source @ w)) ?N"
    "NormalizePath E (''./'' @ NodeGlob source @ w) = NormalizePath E (NodeGlob source @ w)"
    "has_prefix (ToLower E (NormalizePath E (NodeGlob source @ w))) (ToLower E ?N)"
    using assms(2) w(1) unfolding glob_laws_def by blast+
  have node: "NodeGlob source \<noteq> []" using assms(1) by (simp add: rule_shape_def)
  let ?p = "ParseIgnorePattern E (git_projection source)"
  have bang: "has_prefix (git_projection source) ''!'' \<longleftrightarrow> gpNegated source"
    unfolding w(3) using node by (auto simp: has_prefix_bang) (auto simp: has_prefix_def)
  have neg: "igNegated ?p = gpNegated source" using bang by (simp add: ParseIgnorePattern_def Let_def)
  have glob: "igGlob ?p = NormalizePath E (NodeGlob source @ w)"
    using bang laws(4) unfolding ParseIgnorePattern_def Let_def normalizePattern_def w(3) by simp
  have fold: "has_prefix (fold_glob E ci (NormalizePath E (NodeGlob source @ w))) (fold_glob E ci ?N)"
    using laws(3,5) by (simp add: fold_glob_def)
  obtain q where q: "parse_collected E ci source = Some q"
    using w(2) laws(1) fold glob by (cases ci) (auto simp: parse_collected_def normalizePattern_def fold_glob_def Let_def)
  have fields: "igKind q = dirFileLevelCover" "igGlob q = fold_glob E ci (NormalizePath E (NodeGlob source @ w))" "GitPattern q" "CaseInsensitive q = ci" "igNegated q = gpNegated source" "GitDirectoryOnly q = DirectoryOnly source"
    "GitContentsOnly q = ContentsOnly source"
    using q glob neg parse_collected_cover [OF q] by (auto simp: parse_collected_def normalizePattern_def fold_glob_def Let_def split: if_splits)
  have "GitNodeGlobEnd q = int (length (fold_glob E ci ?N))"
    using q by (auto simp: parse_collected_def normalizePattern_def fold_glob_def Let_def split: if_splits)
  moreover have "fold_glob E ci ?N \<noteq> []" using laws(1,2) by (simp add: fold_glob_def)
  ultimately have "gitIgnoreNodeGlob q = fold_glob E ci ?N" using fold fields(2) by (auto simp: gitIgnoreNodeGlob_def has_prefix_iff)
  then have "represents E ci source q" using fields w(1) unfolding represents_def by blast
  then show ?thesis using q by blast
qed

lemma list_all2_map_filter: "(\<And>x. x \<in> set xs \<Longrightarrow> \<exists>y. f x = Some y \<and> P x y) \<Longrightarrow> list_all2 P xs (List.map_filter f xs)"
proof (induction xs)
  case (Cons x xs)
  then obtain y where "f x = Some y" "P x y" by (meson list.set_intros(1))
  then show ?case using Cons by (simp add: map_filter_simps)
qed (simp add: map_filter_simps)


section \<open>Collected rules never block a directory\<close>

lemma coordinate_groups_subset: "g \<in> set (buildIgnorePatternCoordinateGroups ps) \<Longrightarrow> set (cgPatterns g) \<subseteq> set ps"
proof (induction ps rule: buildIgnorePatternCoordinateGroups.induct)
  case (2 p ps)
  then consider "g = \<lparr>cgPatterns = p # takeWhile (patternsShareTargetCoordinate p) ps,
        cgNegationReach = buildNegReach (p # takeWhile (patternsShareTargetCoordinate p) ps)\<rparr>"
    | "g \<in> set (buildIgnorePatternCoordinateGroups (dropWhile (patternsShareTargetCoordinate p) ps))" by (auto simp: Let_def)
  then show ?case
  proof cases
    case 1
    then show ?thesis using set_takeWhileD [of _ "patternsShareTargetCoordinate p" ps] by auto
  next
    case 2
    then have "set (cgPatterns g) \<subseteq> set (dropWhile (patternsShareTargetCoordinate p) ps)" using "2.IH" by simp
    then show ?thesis using set_dropWhileD [of _ "patternsShareTargetCoordinate p" ps] by auto
  qed
qed simp

lemma group_blocks_none:
  "(\<And>p. p \<in> set ps \<Longrightarrow> igKind p \<noteq> dirAbsoluteBlock) \<Longrightarrow> \<not> group_blocks T R match configArrayMatch ps relative"
  using isDirAbsolutelyBlocked_none [of ps]
  by (auto simp: group_blocks_def isDirAbsolutelyBlockedAboveFloor_def list_ex_iff Let_def split: option.split)

lemma entry_blocks_none:
  assumes "\<And>p. p \<in> set (configEntryIgnorePatterns (pathEnv T) entry) \<Longrightarrow> igKind p \<noteq> dirAbsoluteBlock"
  shows "\<not> entry_blocks T R target matches fileTarget (target_entry T entry bi ci)"
proof -
  have "\<not> group_blocks T R match configArrayMatch (cgPatterns g) relative"
    if "g \<in> set (ignorePatternGroups (target_entry T entry bi ci))" for g match configArrayMatch relative
  proof (rule group_blocks_none)
    fix p
    assume "p \<in> set (cgPatterns g)"
    moreover have "set (cgPatterns g) \<subseteq> set (configEntryIgnorePatterns (pathEnv T) entry)"
      using that coordinate_groups_subset by (auto simp: target_entry_def Let_def split: if_splits)
    ultimately show "igKind p \<noteq> dirAbsoluteBlock" using assms by blast
  qed
  then show ?thesis by (auto simp: entry_blocks_def Let_def list_ex_iff split: option.splits)
qed

text \<open>
  Collected Git rules never block a directory for good: the entry they form, whatever the rules, roots, file
  system and target, contributes no absolute block to the resolver nor to direct matching, so that a later authored negation can
  still re-include a file.
\<close>

theorem collected_rules_never_block:
  assumes "patterns \<noteq> []"
  shows "\<exists>entry. ConfigWithCollectedGitignoreScopes T config patterns scopeRoots configDirectory fsys ci = entry # config \<and>
    isGlobalIgnoreEntry entry \<and> \<not> entry_blocks T R target matches fileTarget (target_entry T entry bi ai) \<and>
    \<not> isDirBlockedByIgnores (pathEnv T) filePath (configEntryIgnorePatterns (pathEnv T) entry) cwd"
proof -
  obtain scopes where run: "ConfigWithCollectedGitignoreScopes T config patterns scopeRoots configDirectory fsys ci =
      configWithCollectedGitignoreMetadata config patterns (parseCollectedGitignorePatterns (pathEnv T) patterns ci) scopes"
    using assms by (simp add: ConfigWithCollectedGitignoreScopes_def)
  let ?bound = "bindCollectedGitignorePatterns (parseCollectedGitignorePatterns (pathEnv T) patterns ci) scopes"
  define entry where "entry = no_entry\<lparr>Ignores := map gpGlob patterns, collectedGitignore := Some \<lparr>gitIgnores = ?bound, gitScopes = scopes\<rparr>\<rparr>"
  have ps: "configEntryIgnorePatterns (pathEnv T) entry = ?bound" by (simp add: entry_def configEntryIgnorePatterns_def)
  have kind: "igKind p \<noteq> dirAbsoluteBlock" if "p \<in> set ?bound" for p
    using that parseCollected_cover by (fastforce simp: bindCollectedGitignorePatterns_def)
  have "isGlobalIgnoreEntry entry" using assms by (simp add: entry_def no_entry_def isGlobalIgnoreEntry_def)
  moreover have "ConfigWithCollectedGitignoreScopes T config patterns scopeRoots configDirectory fsys ci = entry # config"
    unfolding run by (simp add: configWithCollectedGitignoreMetadata_def entry_def)
  moreover have "\<not> entry_blocks T R target matches fileTarget (target_entry T entry bi ai)"
    by (rule entry_blocks_none) (simp add: ps kind)
  moreover have "\<not> isDirBlockedByIgnores (pathEnv T) filePath (configEntryIgnorePatterns (pathEnv T) entry) cwd"
    unfolding ps by (rule isDirBlocked_none) (rule kind)
  ultimately show ?thesis by blast
qed

section \<open>Scopes\<close>

lemma set_add_scope [simp]: "set (add_scope scopes scope) = insert scope (set scopes)"
  by (auto simp: add_scope_def list_ex_iff)

lemma distinct_add_scope: "distinct scopes \<Longrightarrow> distinct (add_scope scopes scope)"
  by (auto simp: add_scope_def list_ex_iff)

lemma length_add_scope: "length (add_scope scopes scope) \<le> Suc (length scopes)"
  by (simp add: add_scope_def)

lemma foldl_scopes:
  fixes patterns :: "IgnorePattern list"
  defines "step \<equiv> \<lambda>scopes p. if \<not> scoped p then scopes else add_scope scopes (pattern_scope p)"
  shows "set (foldl step scopes patterns) = set scopes \<union> pattern_scope ` {p \<in> set patterns. scoped p}"
    "distinct scopes \<Longrightarrow> distinct (foldl step scopes patterns)" "length (foldl step scopes patterns) \<le> length scopes + length patterns"
proof (induction patterns arbitrary: scopes)
  case (Cons p patterns)
  { case 1 show ?case using Cons.IH(1) [of "step scopes p"] by (auto simp: step_def) }
  { case 2 then show ?case using Cons.IH(2) [of "step scopes p"] by (simp add: step_def distinct_add_scope) }
  { case 3 show ?case using Cons.IH(3) [of "step scopes p"] length_add_scope [of scopes "pattern_scope p"] by (simp add: step_def split: if_splits) }
qed simp_all

lemma first_scope_index:
  assumes "x \<in> set scopes"
  shows "\<exists>i < length scopes. scopes ! i = x \<and> first_scope (\<lambda>c. c = x) n scopes = Some (word_of_nat (n + i + 1))"
  using assms
proof (induction scopes arbitrary: n)
  case (Cons c scopes)
  show ?case
  proof (cases "c = x")
    case False
    then have "x \<in> set scopes" using Cons.prems by simp
    from Cons.IH [OF this, of "Suc n"] obtain i where
      "i < length scopes" "scopes ! i = x" "first_scope (\<lambda>c. c = x) (Suc n) scopes = Some (word_of_nat (Suc n + i + 1))" by blast
    then show ?thesis using False by (intro exI [of _ "Suc i"]) simp
  qed auto
qed simp

text \<open>
  Claim C0.  Every collected rule is bound to the scope of its own root: the 32-bit scope numbers, which are the positions from one
  in the list of distinct scopes, are never zero (which means no scope) nor the number for an unmatched rule, as long as there are
  fewer than \<open>2\<^sup>3\<^sup>2 - 1\<close> rules.
\<close>

theorem collected_rules_scoped:
  assumes "p \<in> set patterns" and "scoped p" and "length patterns < 2 ^ 32 - 1"
    and "scopes = collectedGitignoreScopesFromPatterns patterns" and "s = gitScope (bind_pattern scopes p)"
  shows "distinct scopes \<and> s \<noteq> 0 \<and> s \<noteq> unmatchedGitScope \<and> unat s \<le> length scopes \<and> scopes ! (unat s - 1) = pattern_scope p"
proof -
  have scopes: "distinct scopes" "pattern_scope p \<in> set scopes" "length scopes \<le> length patterns"
    using assms(1,2,4) foldl_scopes [of "[]" patterns] by (auto simp: collectedGitignoreScopesFromPatterns_def)
  obtain i where i: "i < length scopes" "scopes ! i = pattern_scope p"
    "first_scope (\<lambda>c. c = pattern_scope p) 0 scopes = Some (word_of_nat (i + 1))"
    using first_scope_index [OF scopes(2), of 0] by auto
  have s: "s = word_of_nat (i + 1)" using assms(2,5) i(3) by (simp add: bind_pattern_def)
  have small: "i + 1 < 2 ^ 32 - 1" using i(1) scopes(3) assms(3) by linarith
  then have u: "unat s = i + 1" unfolding s by (subst unat_of_nat) simp
  have "unat unmatchedGitScope = 2 ^ 32 - 1" by (simp add: unmatchedGitScope_def unsigned_minus_1_eq_mask mask_eq_exp_minus_1)
  then have "s \<noteq> unmatchedGitScope" using u small by auto
  moreover have "s \<noteq> 0" using u by auto
  ultimately show ?thesis using scopes(1) i u by simp
qed

section \<open>A concrete file\<close>

definition git_paths :: path_env where
  "git_paths = sample_paths\<lparr>NormalizePath := \<lambda>s. if has_prefix s ''./'' then drop 2 s else s\<rparr>"

definition sample_text :: string where
  "sample_text = ''# out'' @ [CHR 0x0A] @ ''build/ '' @ [CHR 0x0A] @ ''!keep.ts''"

lemma sample_text_rules:
  "ParseText sample_text [] =
    [\<lparr>gpGlob = ''**/build/**/*'', NodeGlob = ''**/build'', gpNegated = False, DirectoryOnly = True, ContentsOnly = False\<rparr>,
     \<lparr>gpGlob = ''!**/keep.ts'', NodeGlob = ''**/keep.ts'', gpNegated = True, DirectoryOnly = False, ContentsOnly = False\<rparr>]"
  by code_simp

lemma git_paths_laws: "glob_laws git_paths (CHR ''*'' # g)"
  by (auto simp: glob_laws_def wildcards_def git_paths_def sample_paths_def has_prefix_def)


definition sample_collected :: "CollectedPattern list" where
  "sample_collected = map (\<lambda>p. p\<lparr>cpMatchDirectory := ''repo''\<rparr>) (convertGitignoreToPatterns sample_text [])"

theorem collected_rules_never_block_witness:
  "\<exists>entry. ConfigWithCollectedGitignoreScopes sample_tree [] sample_collected [''repo''] [] None False = [entry] \<and> isGlobalIgnoreEntry entry \<and>
    \<not> isDirBlockedByIgnores sample_paths ''build/keep.ts'' (configEntryIgnorePatterns sample_paths entry) []"
proof -
  have env: "pathEnv sample_tree = sample_paths" by (simp add: sample_tree_def)
  have "sample_collected \<noteq> []" by (simp add: sample_collected_def convertGitignoreToPatterns_def sample_text_rules)
  from collected_rules_never_block [OF this, of sample_tree "[]" "[''repo'']" "[]" None False _ _ _ _ _ _ "''build/keep.ts''" "[]"] show ?thesis
    unfolding env by blast
qed

definition sample_scoped :: IgnorePattern where
  "sample_scoped = (ParseIgnorePattern sample_paths ''**/build/**/*'')\<lparr>GitPattern := True, MatchDirectory := ''repo''\<rparr>"

theorem collected_rules_scoped_witness:
  "gitScope (bind_pattern (collectedGitignoreScopesFromPatterns [sample_scoped]) sample_scoped) \<noteq> 0"
proof -
  have "sample_scoped \<in> set [sample_scoped]" "scoped sample_scoped" "length [sample_scoped] < 2 ^ 32 - 1"
    by (simp_all add: sample_scoped_def scoped_def patternHasMatchDirectory_def)
  from collected_rules_scoped [OF this refl refl] show ?thesis by blast
qed

end
