(* ===== verification/Git_Collect.thy ===== *)
theory Git_Collect
  imports Gitignore
begin

text \<open>
  Collection of \<^verbatim>\<open>.gitignore\<close> files, \<^verbatim>\<open>internal/config/gitignore/collector.go\<close>, the planning of collection roots in
  \<^verbatim>\<open>internal/config/gitignore_scope.go\<close> and the entry points of \<^verbatim>\<open>gitignore_config.go\<close>.

  A file system gives the text of a file, the directories of a directory with the names that are links (if it tells), and real
  paths.  \<open>EqualFold\<close> is Unicode case folding.  The recursive walk takes a bound on the depth of the tree;
  \<^term>\<open>None\<close> means that the bound was too small.
\<close>

section \<open>The environment\<close>

record collect_env = tree_env +
  CombinePaths :: "string \<Rightarrow> string \<Rightarrow> string"
  ToPathCase :: "bool \<Rightarrow> string \<Rightarrow> string"
  EqualFold :: "string \<Rightarrow> string \<Rightarrow> bool"

record tree_fs = vfs +
  ReadFile :: "string \<Rightarrow> string option"
  accessibleDirectories :: "string \<Rightarrow> string list"
  accessibleSymlinks :: "string \<Rightarrow> string list option"

abbreviation tenv :: "collect_env \<Rightarrow> tree_env" where
  "tenv C \<equiv> tree_env.truncate C"

definition normalizeGlobPath :: "collect_env \<Rightarrow> string \<Rightarrow> string" where
  "normalizeGlobPath C path = unix_path (NormalizePath (pathEnv C) path)"

definition matchGitignoreGlob :: "collect_env \<Rightarrow> string \<Rightarrow> string \<Rightarrow> bool \<Rightarrow> bool" where
  "matchGitignoreGlob C pattern path useCaseSensitive =
     (if \<not> useCaseSensitive then MatchGlob (pathEnv C) (ToLower (pathEnv C) pattern) (ToLower (pathEnv C) path)
      else MatchGlob (pathEnv C) pattern path)"

definition isDefaultExcludedDirName :: "collect_env \<Rightarrow> string \<Rightarrow> bool \<Rightarrow> bool" where
  "isDefaultExcludedDirName C name useCaseSensitive =
     list_ex (\<lambda>excluded. name = excluded \<or> \<not> useCaseSensitive \<and> EqualFold C name excluded) DefaultExcludeDirNames"

section \<open>Paths and their roots\<close>

record filesystemPath =
  fpRoot :: string
  fpRest :: string
  fpCaseInsensitive :: bool

text \<open>The share of a network path is part of its root.\<close>

definition splitFilesystemPath :: "collect_env \<Rightarrow> string \<Rightarrow> filesystemPath" where
  "splitFilesystemPath C path =
     (let path = NormalizePath (pathEnv C) path
      in if has_prefix path ''//''
         then (case str_index (drop 2 path) ''/'' of
                 None \<Rightarrow> \<lparr>fpRoot = path, fpRest = [], fpCaseInsensitive = True\<rparr>
               | Some serverEnd \<Rightarrow>
                   (let shareStart = 2 + serverEnd + 1; shareAndRest = drop shareStart path
                    in if shareAndRest = [] then \<lparr>fpRoot = path, fpRest = [], fpCaseInsensitive = True\<rparr>
                       else (let rootEnd = (case str_index shareAndRest ''/'' of None \<Rightarrow> length path | Some shareEnd \<Rightarrow> shareStart + shareEnd)
                             in \<lparr>fpRoot = trim_suffix (take rootEnd path) ''/'' @ ''/'', fpRest = trim_slashes (drop rootEnd path),
                                 fpCaseInsensitive = True\<rparr>)))
         else (let rootLength = GetRootLength C path
               in if rootLength = 0 then \<lparr>fpRoot = [], fpRest = trim_slashes path, fpCaseInsensitive = False\<rparr>
                  else (let volume = take rootLength path; caseInsensitive = (length volume \<ge> 2 \<and> volume ! 1 = CHR '':'');
                            volume = (if caseInsensitive \<and> has_suffix volume '':'' then volume @ ''/'' else volume)
                        in \<lparr>fpRoot = volume, fpRest = trim_slashes (drop rootLength path), fpCaseInsensitive = caseInsensitive\<rparr>)))"

definition joinFilesystemPath :: "collect_env \<Rightarrow> filesystemPath \<Rightarrow> string \<Rightarrow> string" where
  "joinFilesystemPath C path rest =
     (if rest = [] then fpRoot path else if fpRoot path = [] then rest else CombinePaths C (fpRoot path) rest)"

definition sameFilesystemRoot :: "collect_env \<Rightarrow> filesystemPath \<Rightarrow> filesystemPath \<Rightarrow> bool \<Rightarrow> bool" where
  "sameFilesystemRoot C left right useCaseSensitive =
     (if fpCaseInsensitive left \<noteq> fpCaseInsensitive right then False
      else if fpCaseInsensitive left \<or> \<not> useCaseSensitive then EqualFold C (fpRoot left) (fpRoot right)
      else fpRoot left = fpRoot right)"

definition equalFilesystemPath :: "collect_env \<Rightarrow> string \<Rightarrow> string \<Rightarrow> bool \<Rightarrow> bool" where
  "equalFilesystemPath C left right caseInsensitive = (if caseInsensitive then EqualFold C left right else left = right)"

definition parentDir :: "collect_env \<Rightarrow> string \<Rightarrow> string" where
  "parentDir C dir =
     (let path = splitFilesystemPath C dir
      in if fpRest path = [] then []
         else (case last_slash (fpRest path) of None \<Rightarrow> fpRoot path | Some i \<Rightarrow> joinFilesystemPath C path (take i (fpRest path))))"

definition dirOfPath :: "collect_env \<Rightarrow> string \<Rightarrow> string" where
  "dirOfPath C filePath =
     (let path = splitFilesystemPath C filePath
      in if fpRest path = [] then fpRoot path
         else (case last_slash (fpRest path) of None \<Rightarrow> fpRoot path | Some i \<Rightarrow> joinFilesystemPath C path (take i (fpRest path))))"

definition relativeDir :: "collect_env \<Rightarrow> string \<Rightarrow> string \<Rightarrow> bool \<Rightarrow> string option" where
  "relativeDir C root' dir useCaseSensitive =
     (let rootPath = splitFilesystemPath C root'; dirPath = splitFilesystemPath C dir
      in if \<not> sameFilesystemRoot C rootPath dirPath useCaseSensitive then None
         else (let caseInsensitive = (fpCaseInsensitive rootPath \<or> \<not> useCaseSensitive)
               in if equalFilesystemPath C (fpRest rootPath) (fpRest dirPath) caseInsensitive then Some []
                  else if fpRest rootPath = [] then Some (fpRest dirPath)
                  else (let pre = fpRest rootPath @ ''/''
                        in if length (fpRest dirPath) > length pre \<and>
                              equalFilesystemPath C pre (take (length pre) (fpRest dirPath)) caseInsensitive
                           then Some (drop (length pre) (fpRest dirPath)) else None)))"

definition filesystemPathDepth :: "collect_env \<Rightarrow> string \<Rightarrow> nat" where
  "filesystemPathDepth C path =
     (let rest = fpRest (splitFilesystemPath C path) in if rest = [] then 0 else length (filter (\<lambda>c. c = sl) rest) + 1)"

definition cmp_depth :: "collect_env \<Rightarrow> string \<Rightarrow> string \<Rightarrow> int" where
  "cmp_depth C a b =
     (if filesystemPathDepth C a \<noteq> filesystemPathDepth C b then int (filesystemPathDepth C a) - int (filesystemPathDepth C b)
      else str_compare a b)"

text \<open>The paths are distinct, so that any sorting routine gives the same list.\<close>

definition sortByPathDepth :: "collect_env \<Rightarrow> string list \<Rightarrow> string list" where
  "sortByPathDepth C paths = sort_cmp (cmp_depth C) paths"

definition splitPathComponents :: "string \<Rightarrow> string list" where
  "splitPathComponents p = filter (\<lambda>part. part \<noteq> [] \<and> part \<noteq> ''.'') (str_split sl p)"

section \<open>Rules that prune\<close>

type_synonym gitignorePruneRule = "CollectedPattern list"

definition gitignorePrunePatternMatchesDirectoryNode :: "collect_env \<Rightarrow> CollectedPattern \<Rightarrow> string \<Rightarrow> bool \<Rightarrow> bool" where
  "gitignorePrunePatternMatchesDirectoryNode C p relative useCaseSensitive =
     matchGitignoreGlob C (if ContentsOnly p then NodeGlob p @ ''/*'' else NodeGlob p) relative useCaseSensitive"

definition prune_decision :: "collect_env \<Rightarrow> string \<Rightarrow> gitignorePruneRule list \<Rightarrow> bool \<Rightarrow> bool" where
  "prune_decision C relative rules useCaseSensitive =
     foldl (\<lambda>ignored p. if gitignorePrunePatternMatchesDirectoryNode C p relative useCaseSensitive then \<not> gpNegated p else ignored)
       False (concat rules)"

definition isDirIgnoredByPruneRules :: "collect_env \<Rightarrow> string \<Rightarrow> gitignorePruneRule list \<Rightarrow> bool \<Rightarrow> bool" where
  "isDirIgnoredByPruneRules C relative rules useCaseSensitive = (if relative = [] then False else prune_decision C relative rules useCaseSensitive)"

definition normalizeCollectionBoundaries :: "collect_env \<Rightarrow> string \<Rightarrow> string list \<Rightarrow> bool \<Rightarrow> string list" where
  "normalizeCollectionBoundaries C configDir stopDirs useCaseSensitive =
     filter (\<lambda>stopDir. case relativeDir C configDir stopDir useCaseSensitive of None \<Rightarrow> False | Some rel \<Rightarrow> rel \<noteq> [])
       (map (normalizeGlobPath C) stopDirs)"

definition isCollectionBoundary :: "collect_env \<Rightarrow> string \<Rightarrow> string list \<Rightarrow> bool \<Rightarrow> bool" where
  "isCollectionBoundary C dir boundaries useCaseSensitive = list_ex (\<lambda>boundary. ComparePaths C useCaseSensitive [] dir boundary = 0) boundaries"

definition isUnderPrunedDir :: "collect_env \<Rightarrow> string \<Rightarrow> string list \<Rightarrow> bool \<Rightarrow> bool" where
  "isUnderPrunedDir C dir prunedDirs useCaseSensitive = list_ex (\<lambda>prunedDir. relativeDir C prunedDir dir useCaseSensitive \<noteq> None) prunedDirs"

definition isDescendantSymlinkDir :: "collect_env \<Rightarrow> string \<Rightarrow> string \<Rightarrow> tree_fs \<Rightarrow> bool" where
  "isDescendantSymlinkDir C configDir dir fs =
     (let ucs = UseCaseSensitiveFileNames fs
      in case relativeDir C configDir dir ucs of
           None \<Rightarrow> False
         | Some rel \<Rightarrow>
             if rel = [] then False
             else (let parent = parentDir C dir; name = GetBaseFileName C dir
                   in case accessibleSymlinks fs parent of
                        Some symlinks \<Rightarrow> list_ex (\<lambda>symlink. symlink = name \<or> \<not> ucs \<and> EqualFold C symlink name) symlinks
                      | None \<Rightarrow>
                          if Realpath fs parent = [] \<or> Realpath fs dir = [] then False
                          else ComparePaths C ucs [] (Realpath fs dir) (CombinePaths C (Realpath fs parent) name) \<noteq> 0))"

section \<open>Targets of a collection\<close>

datatype collectionTargetKind = collectionTargetLeaf | collectionTargetBranch | collectionTargetRecursive

fun kind_number :: "collectionTargetKind option \<Rightarrow> nat" where
  "kind_number None = 0"
| "kind_number (Some collectionTargetLeaf) = 1"
| "kind_number (Some collectionTargetBranch) = 2"
| "kind_number (Some collectionTargetRecursive) = 3"

type_synonym collectionTargets = "(string \<times> collectionTargetKind) list"

definition raise_target :: "collect_env \<Rightarrow> bool \<Rightarrow> string \<Rightarrow> collectionTargetKind \<Rightarrow> collectionTargets \<Rightarrow> collectionTargets" where
  "raise_target C useCaseSensitive current kind targets =
     (let identity = ToPathCase C useCaseSensitive current
      in if kind_number (map_of targets identity) < kind_number (Some kind) then al_update identity kind targets else targets)"

fun add_chain ::
  "collect_env \<Rightarrow> bool \<Rightarrow> bool \<Rightarrow> string \<Rightarrow> string list \<Rightarrow> collectionTargets \<Rightarrow> collectionTargets" where
  "add_chain C recursive useCaseSensitive current [] targets =
     raise_target C useCaseSensitive current (if recursive then collectionTargetRecursive else collectionTargetLeaf) targets"
| "add_chain C recursive useCaseSensitive current (component # rest) targets =
     add_chain C recursive useCaseSensitive (CombinePaths C current component) rest
       (raise_target C useCaseSensitive current collectionTargetBranch targets)"

definition addCollectionTarget ::
  "collect_env \<Rightarrow> string \<Rightarrow> string \<Rightarrow> bool \<Rightarrow> bool \<Rightarrow> collectionTargets \<Rightarrow> collectionTargets" where
  "addCollectionTarget C configDir targetDirectory recursive useCaseSensitive targets =
     (case relativeDir C configDir targetDirectory useCaseSensitive of
        Some relative \<Rightarrow> add_chain C recursive useCaseSensitive configDir (splitPathComponents relative) targets
      | None \<Rightarrow>
          if \<not> recursive then targets
          else if relativeDir C targetDirectory configDir useCaseSensitive = None then targets
          else add_chain C recursive useCaseSensitive configDir (splitPathComponents []) targets)"

definition buildCollectionTargets :: "collect_env \<Rightarrow> string \<Rightarrow> string list \<Rightarrow> string list \<Rightarrow> bool \<Rightarrow> collectionTargets" where
  "buildCollectionTargets C configDir files directories useCaseSensitive =
     (let targets = foldl (\<lambda>targets file. addCollectionTarget C configDir (dirOfPath C (normalizeGlobPath C file)) False useCaseSensitive targets) [] files
      in foldl (\<lambda>targets directory. addCollectionTarget C configDir (normalizeGlobPath C directory) True useCaseSensitive targets) targets directories)"

section \<open>The walk\<close>

record gitignoreWalkState =
  resolvedPaths :: "(string \<times> string) list"
  visited :: "string list"
  collected :: "CollectedPattern list"

definition walk_realpath :: "tree_fs \<Rightarrow> string \<Rightarrow> gitignoreWalkState \<Rightarrow> string \<times> gitignoreWalkState" where
  "walk_realpath fs path st =
     (case map_of (resolvedPaths st) path of
        Some r \<Rightarrow> (r, st)
      | None \<Rightarrow> (Realpath fs path, st\<lparr>resolvedPaths := al_update path (Realpath fs path) (resolvedPaths st)\<rparr>))"

text \<open>What is the same for the whole walk.\<close>

record walk_env =
  wkEnv :: collect_env
  wkFs :: tree_fs
  wkBlocked :: "(string \<Rightarrow> bool) option"
  wkBoundaries :: "string list"

text \<open>
  The checks on a child before the walk enters it: \<^term>\<open>None\<close> when it is skipped, otherwise its real path when the
  file system does not tell links.
\<close>

definition child_link ::
  "walk_env \<Rightarrow> string \<Rightarrow> string \<Rightarrow> string \<Rightarrow> gitignoreWalkState \<Rightarrow> string option \<times> gitignoreWalkState" where
  "child_link W absDir parentRealPath dir st =
     (let C = wkEnv W; fs = wkFs W; childAbs = CombinePaths C absDir dir
      in case accessibleSymlinks fs absDir of
           Some symlinks \<Rightarrow> (if dir \<in> set symlinks then None else Some [], st)
         | None \<Rightarrow>
             (case walk_realpath fs childAbs st of
                (childRealPath, st) \<Rightarrow>
                  (if ComparePaths C (UseCaseSensitiveFileNames fs) [] childRealPath (CombinePaths C parentRealPath dir) \<noteq> 0
                   then None else Some childRealPath, st)))"

definition enter_child ::
  "walk_env \<Rightarrow> string \<Rightarrow> string \<Rightarrow> string \<Rightarrow> gitignorePruneRule list \<Rightarrow> collectionTargets option \<Rightarrow> string \<Rightarrow> gitignoreWalkState \<Rightarrow>
   bool \<times> gitignoreWalkState" where
  "enter_child W absDir relDir parentRealPath rules targets dir st =
     (let C = wkEnv W; fs = wkFs W; ucs = UseCaseSensitiveFileNames fs; childAbs = CombinePaths C absDir dir;
          childRel = (if relDir \<noteq> [] then relDir @ ''/'' @ dir else dir)
      in if (case targets of None \<Rightarrow> False | Some ts \<Rightarrow> map_of ts (ToPathCase C ucs childAbs) = None) then (False, st)
         else if isDefaultExcludedDirName C dir ucs then (False, st)
         else if isCollectionBoundary C childAbs (wkBoundaries W) ucs then (False, st)
         else (case child_link W absDir parentRealPath dir st of
                 (None, st) \<Rightarrow> (False, st)
               | (Some childRealPath, st) \<Rightarrow>
                   if (case wkBlocked W of None \<Rightarrow> False | Some blocked \<Rightarrow> blocked childRel) then (False, st)
                   else if isDirIgnoredByPruneRules C childRel rules ucs then (False, st)
                   else if childRealPath \<noteq> []
                   then (if childRealPath \<in> set (visited st) then (False, st) else (True, st\<lparr>visited := visited st @ [childRealPath]\<rparr>))
                   else (True, st)))"

definition child_rel :: "string \<Rightarrow> string \<Rightarrow> string" where
  "child_rel relDir dir = (if relDir \<noteq> [] then relDir @ ''/'' @ dir else dir)"

text \<open>The rules of the directory itself, and whether and how the walk goes on below it.\<close>

definition read_source :: "walk_env \<Rightarrow> string \<Rightarrow> string \<Rightarrow> CollectedPattern list" where
  "read_source W absDir relDir =
     (case ReadFile (wkFs W) (CombinePaths (wkEnv W) absDir ''.gitignore'') of
        None \<Rightarrow> [] | Some content \<Rightarrow> convertGitignoreToPatterns content relDir)"

definition extend_rules :: "gitignorePruneRule list \<Rightarrow> CollectedPattern list \<Rightarrow> gitignorePruneRule list" where
  "extend_rules rules local = (if length local > 0 then rules @ [local] else rules)"

definition mark_parent :: "walk_env \<Rightarrow> string \<Rightarrow> gitignoreWalkState \<Rightarrow> string \<times> gitignoreWalkState" where
  "mark_parent W absDir st =
     (if accessibleSymlinks (wkFs W) absDir = None \<and> length (accessibleDirectories (wkFs W) absDir) > 0
      then (case walk_realpath (wkFs W) absDir st of (r, st) \<Rightarrow> (r, st\<lparr>visited := visited st @ [r]\<rparr>))
      else ([], st))"

text \<open>
  The visit of one directory up to its children: the walk stops here, or goes on with the parent's real path and the
  rules and targets for the children.
\<close>

definition open_directory ::
  "walk_env \<Rightarrow> string \<Rightarrow> string \<Rightarrow> gitignorePruneRule list \<Rightarrow> collectionTargets option \<Rightarrow> gitignoreWalkState \<Rightarrow>
   gitignoreWalkState + string \<times> gitignorePruneRule list \<times> collectionTargets option \<times> gitignoreWalkState" where
  "open_directory W absDir relDir rules targets st =
     (let kind = (case targets of
                    None \<Rightarrow> Some collectionTargetBranch
                  | Some ts \<Rightarrow> map_of ts (ToPathCase (wkEnv W) (UseCaseSensitiveFileNames (wkFs W)) absDir))
      in case kind of
           None \<Rightarrow> Inl st
         | Some targetKind \<Rightarrow>
             (let targets = (if targetKind = collectionTargetRecursive then None else targets);
                  local = read_source W absDir relDir;
                  st = st\<lparr>collected := collected st @ local\<rparr>
              in if targetKind = collectionTargetLeaf then Inl st
                 else (case mark_parent W absDir st of (parentRealPath, st) \<Rightarrow> Inr (parentRealPath, extend_rules rules local, targets, st))))"

function (sequential) collectGitignorePatternsRecursive ::
  "nat \<Rightarrow> walk_env \<Rightarrow> string \<Rightarrow> string \<Rightarrow> gitignorePruneRule list \<Rightarrow> collectionTargets option \<Rightarrow> gitignoreWalkState \<Rightarrow> gitignoreWalkState option"
and collect_children ::
  "nat \<Rightarrow> walk_env \<Rightarrow> string \<Rightarrow> string \<Rightarrow> string \<Rightarrow> gitignorePruneRule list \<Rightarrow> collectionTargets option \<Rightarrow> string list \<Rightarrow> gitignoreWalkState \<Rightarrow>
   gitignoreWalkState option" where
  "collectGitignorePatternsRecursive 0 W absDir relDir rules targets st = None"
| "collectGitignorePatternsRecursive (Suc n) W absDir relDir rules targets st =
     (case open_directory W absDir relDir rules targets st of
        Inl st \<Rightarrow> Some st
      | Inr (parentRealPath, rules, targets, st) \<Rightarrow>
          collect_children n W absDir relDir parentRealPath rules targets (accessibleDirectories (wkFs W) absDir) st)"
| "collect_children n W absDir relDir parentRealPath rules targets [] st = Some st"
| "collect_children n W absDir relDir parentRealPath rules targets (dir # dirs) st =
     (case enter_child W absDir relDir parentRealPath rules targets dir st of
        (False, st) \<Rightarrow> collect_children n W absDir relDir parentRealPath rules targets dirs st
      | (True, st) \<Rightarrow>
          (case collectGitignorePatternsRecursive n W (CombinePaths (wkEnv W) absDir dir) (child_rel relDir dir) rules targets st of
             None \<Rightarrow> None
           | Some st \<Rightarrow> collect_children n W absDir relDir parentRealPath rules targets dirs st))"
  by pat_completeness auto
termination
  by (relation "measures [\<lambda>x. case x of Inl (n, _) \<Rightarrow> n | Inr (n, _) \<Rightarrow> n,
        \<lambda>x. case x of Inl _ \<Rightarrow> 0 | Inr (_, _, _, _, _, _, _, dirs, _) \<Rightarrow> Suc (length dirs)]") auto

definition collectGitignorePatterns ::
  "nat \<Rightarrow> walk_env \<Rightarrow> string \<Rightarrow> string \<Rightarrow> gitignorePruneRule list \<Rightarrow> collectionTargets option \<Rightarrow> CollectedPattern list option" where
  "collectGitignorePatterns n W absDir relDir rules targets =
     map_option collected (collectGitignorePatternsRecursive n W absDir relDir rules targets \<lparr>resolvedPaths = [], visited = [], collected = []\<rparr>)"


definition walk_all :: "collect_env \<Rightarrow> tree_fs \<Rightarrow> (string \<Rightarrow> bool) option \<Rightarrow> string list \<Rightarrow> walk_env" where
  "walk_all C fs isDirectoryBlocked boundaries = \<lparr>wkEnv = C, wkFs = fs, wkBlocked = isDirectoryBlocked, wkBoundaries = boundaries\<rparr>"

definition readGitignoreAsPatternsWithBoundaries ::
  "nat \<Rightarrow> collect_env \<Rightarrow> string \<Rightarrow> tree_fs option \<Rightarrow> (string \<Rightarrow> bool) option \<Rightarrow> string list \<Rightarrow> CollectedPattern list option" where
  "readGitignoreAsPatternsWithBoundaries n C configDir fsys isDirectoryBlocked stopDirs =
     (case fsys of
        None \<Rightarrow> Some []
      | Some fs \<Rightarrow>
          (let normalizedRoot = normalizeGlobPath C configDir
           in collectGitignorePatterns n
                (walk_all C fs isDirectoryBlocked (normalizeCollectionBoundaries C normalizedRoot stopDirs (UseCaseSensitiveFileNames fs)))
                normalizedRoot [] [] None))"

definition readGitignoreAsPatternsForTargets ::
  "nat \<Rightarrow> collect_env \<Rightarrow> string \<Rightarrow> tree_fs option \<Rightarrow> string list \<Rightarrow> string list \<Rightarrow> (string \<Rightarrow> bool) option \<Rightarrow> CollectedPattern list option" where
  "readGitignoreAsPatternsForTargets n C configDir fsys files directories isDirectoryBlocked =
     (case fsys of
        None \<Rightarrow> Some []
      | Some fs \<Rightarrow>
          (let normalizedRoot = normalizeGlobPath C configDir;
               targets = buildCollectionTargets C normalizedRoot files directories (UseCaseSensitiveFileNames fs)
           in if length targets = 0 then Some []
              else collectGitignorePatterns n (walk_all C fs isDirectoryBlocked []) normalizedRoot [] [] (Some targets)))"

text \<open>The directories from the configuration to a file, up to the first boundary.\<close>

fun chain_directories :: "collect_env \<Rightarrow> string list \<Rightarrow> bool \<Rightarrow> string \<Rightarrow> string list \<Rightarrow> string list" where
  "chain_directories C boundaries useCaseSensitive current [] = []"
| "chain_directories C boundaries useCaseSensitive current (component # comps) =
     (let current = CombinePaths C current component
      in if isCollectionBoundary C current boundaries useCaseSensitive then []
         else current # chain_directories C boundaries useCaseSensitive current comps)"

definition file_directories :: "collect_env \<Rightarrow> string \<Rightarrow> string list \<Rightarrow> bool \<Rightarrow> string \<Rightarrow> string list" where
  "file_directories C configDir boundaries useCaseSensitive file =
     (case relativeDir C configDir (dirOfPath C (normalizeGlobPath C file)) useCaseSensitive of
        None \<Rightarrow> []
      | Some rel \<Rightarrow> configDir # chain_directories C boundaries useCaseSensitive configDir (splitPathComponents rel))"

fun collect_chain ::
  "collect_env \<Rightarrow> tree_fs \<Rightarrow> string \<Rightarrow> string list \<Rightarrow> gitignorePruneRule list \<Rightarrow> string list \<Rightarrow> CollectedPattern list \<Rightarrow> CollectedPattern list" where
  "collect_chain C fs configDir [] rules prunedDirs allPatterns = allPatterns"
| "collect_chain C fs configDir (dir # dirs) rules prunedDirs allPatterns =
     (let ucs = UseCaseSensitiveFileNames fs; rel = (case relativeDir C configDir dir ucs of None \<Rightarrow> [] | Some rel \<Rightarrow> rel)
      in if isUnderPrunedDir C dir prunedDirs ucs then collect_chain C fs configDir dirs rules prunedDirs allPatterns
         else if isDescendantSymlinkDir C configDir dir fs then collect_chain C fs configDir dirs rules (prunedDirs @ [dir]) allPatterns
         else if isDirIgnoredByPruneRules C rel rules ucs then collect_chain C fs configDir dirs rules (prunedDirs @ [dir]) allPatterns
         else (case ReadFile fs (CombinePaths C dir ''.gitignore'') of
                 None \<Rightarrow> collect_chain C fs configDir dirs rules prunedDirs allPatterns
               | Some content \<Rightarrow>
                   (let local = convertGitignoreToPatterns content rel
                    in collect_chain C fs configDir dirs (extend_rules rules local) prunedDirs (allPatterns @ local))))"

text \<open>The map of directories is sorted before it is used: its order does not matter.\<close>

definition readGitignoreAsPatternsForFilesWithBoundaries ::
  "collect_env \<Rightarrow> string \<Rightarrow> tree_fs option \<Rightarrow> string list \<Rightarrow> string list \<Rightarrow> CollectedPattern list" where
  "readGitignoreAsPatternsForFilesWithBoundaries C configDir fsys files stopDirs =
     (case fsys of
        None \<Rightarrow> []
      | Some fs \<Rightarrow>
          if length files = 0 then []
          else (let configDir = normalizeGlobPath C configDir; ucs = UseCaseSensitiveFileNames fs;
                    boundaries = normalizeCollectionBoundaries C configDir stopDirs ucs;
                    dirs = sortByPathDepth C (remdups (concat (map (file_directories C configDir boundaries ucs) files)))
                in collect_chain C fs configDir dirs [] [] []))"

definition CollectPatternsWithBoundaries ::
  "nat \<Rightarrow> collect_env \<Rightarrow> string \<Rightarrow> tree_fs option \<Rightarrow> string list option \<Rightarrow> (string \<Rightarrow> bool) option \<Rightarrow> string list \<Rightarrow> CollectedPattern list option" where
  "CollectPatternsWithBoundaries n C configDir fsys targetFiles isDirectoryBlocked stopDirs =
     (case targetFiles of
        None \<Rightarrow> readGitignoreAsPatternsWithBoundaries n C configDir fsys isDirectoryBlocked stopDirs
      | Some files \<Rightarrow> Some (readGitignoreAsPatternsForFilesWithBoundaries C configDir fsys files stopDirs))"

definition CollectPatterns ::
  "nat \<Rightarrow> collect_env \<Rightarrow> string \<Rightarrow> tree_fs option \<Rightarrow> string list option \<Rightarrow> (string \<Rightarrow> bool) option \<Rightarrow> CollectedPattern list option" where
  "CollectPatterns n C configDir fsys targetFiles isDirectoryBlocked =
     CollectPatternsWithBoundaries n C configDir fsys targetFiles isDirectoryBlocked []"

definition CollectPatternsForTargets ::
  "nat \<Rightarrow> collect_env \<Rightarrow> string \<Rightarrow> tree_fs option \<Rightarrow> string list option \<Rightarrow> string list option \<Rightarrow> (string \<Rightarrow> bool) option \<Rightarrow>
   CollectedPattern list option" where
  "CollectPatternsForTargets n C configDir fsys targetFiles targetDirectories isDirectoryBlocked =
     (if length (elems targetDirectories) = 0 then CollectPatterns n C configDir fsys targetFiles isDirectoryBlocked
      else readGitignoreAsPatternsForTargets n C configDir fsys (elems targetFiles) (elems targetDirectories) isDirectoryBlocked)"

section \<open>Cursors\<close>

record Cursor =
  cuRootDir :: string
  cuUseCaseSensitive :: bool
  cuSourceReachable :: bool
  cuRules :: "gitignorePruneRule list"

definition NewCursor :: "collect_env \<Rightarrow> string \<Rightarrow> bool \<Rightarrow> Cursor" where
  "NewCursor C ownerRoot useCaseSensitive =
     (let ownerRoot = normalizeGlobPath C ownerRoot
      in \<lparr>cuRootDir = ownerRoot, cuUseCaseSensitive = useCaseSensitive, cuSourceReachable = (ownerRoot \<noteq> []), cuRules = []\<rparr>)"

definition BlockSourceTraversal :: "Cursor \<Rightarrow> Cursor" where
  "BlockSourceTraversal cursor = cursor\<lparr>cuSourceReachable := False\<rparr>"

definition blocksDirectoryNode :: "collect_env \<Rightarrow> Cursor \<Rightarrow> string \<Rightarrow> bool" where
  "blocksDirectoryNode C cursor directory =
     (if cuRootDir cursor = [] \<or> directory = [] then False
      else case relativeDir C (cuRootDir cursor) directory (cuUseCaseSensitive cursor) of
             None \<Rightarrow> False
           | Some relative \<Rightarrow> if relative = [] then False else prune_decision C relative (cuRules cursor) (cuUseCaseSensitive cursor))"

definition cursor_Enter :: "collect_env \<Rightarrow> Cursor \<Rightarrow> string \<Rightarrow> Cursor \<times> bool" where
  "cursor_Enter C cursor directory =
     (let directory = normalizeGlobPath C directory
      in if relativeDir C (cuRootDir cursor) directory (cuUseCaseSensitive cursor) = None
         then (cursor\<lparr>cuSourceReachable := False\<rparr>, True)
         else (let blocked = blocksDirectoryNode C cursor directory
               in (cursor\<lparr>cuSourceReachable := (cuSourceReachable cursor \<and> \<not> blocked)\<rparr>, blocked)))"

definition AppendSourcePatterns :: "collect_env \<Rightarrow> Cursor \<Rightarrow> string \<Rightarrow> string \<Rightarrow> Cursor \<times> CollectedPattern list" where
  "AppendSourcePatterns C cursor directory content =
     (if \<not> cuSourceReachable cursor then (cursor, [])
      else (let directory = normalizeGlobPath C directory
            in case relativeDir C (cuRootDir cursor) directory (cuUseCaseSensitive cursor) of
                 None \<Rightarrow> (cursor\<lparr>cuSourceReachable := False\<rparr>, [])
               | Some relative \<Rightarrow>
                   (let patterns = convertGitignoreToPatterns content relative
                    in (cursor\<lparr>cuRules := extend_rules (cuRules cursor) patterns\<rparr>, patterns))))"

definition patternGlobs :: "CollectedPattern list \<Rightarrow> string list" where
  "patternGlobs patterns = map gpGlob patterns"

definition AppendSource :: "collect_env \<Rightarrow> Cursor \<Rightarrow> string \<Rightarrow> string \<Rightarrow> Cursor \<times> string list" where
  "AppendSource C cursor directory content =
     (case AppendSourcePatterns C cursor directory content of (cursor, patterns) \<Rightarrow> (cursor, patternGlobs patterns))"

definition CollectWithBoundaries ::
  "nat \<Rightarrow> collect_env \<Rightarrow> string \<Rightarrow> tree_fs option \<Rightarrow> string list option \<Rightarrow> (string \<Rightarrow> bool) option \<Rightarrow> string list \<Rightarrow> string list option" where
  "CollectWithBoundaries n C configDir fsys targetFiles isDirectoryBlocked stopDirs =
     map_option patternGlobs (CollectPatternsWithBoundaries n C configDir fsys targetFiles isDirectoryBlocked stopDirs)"

definition Collect :: "nat \<Rightarrow> collect_env \<Rightarrow> string \<Rightarrow> tree_fs option \<Rightarrow> string list option \<Rightarrow> (string \<Rightarrow> bool) option \<Rightarrow> string list option" where
  "Collect n C configDir fsys targetFiles isDirectoryBlocked = CollectWithBoundaries n C configDir fsys targetFiles isDirectoryBlocked []"

section \<open>Planning of collection roots\<close>

record GitignoreCollectionScope =
  csRoot :: string
  csFiles :: "string list option"
  csDirectories :: "string list option"

definition path_id :: "collect_env \<Rightarrow> bool \<Rightarrow> string \<Rightarrow> string" where
  "path_id C useCaseSensitive path = ToPathCase C useCaseSensitive (NormalizePath (pathEnv C) path)"

definition appendUniquePath :: "collect_env \<Rightarrow> string list option \<Rightarrow> string \<Rightarrow> (string \<Rightarrow> string) \<Rightarrow> string list option" where
  "appendUniquePath C paths path pathID =
     (if list_ex (\<lambda>existing. pathID existing = pathID path) (elems paths) then paths
      else Some (elems paths @ [NormalizePath (pathEnv C) path]))"

definition directoryWithinGitignoreRoot :: "tree_env \<Rightarrow> string \<Rightarrow> string \<Rightarrow> string \<Rightarrow> vfs option \<Rightarrow> bool \<Rightarrow> bool" where
  "directoryWithinGitignoreRoot T lexicalDir canonicalDirectory scopeRoot fsys useCaseSensitive =
     (if RelativePathWithinConfigRoot T lexicalDir scopeRoot useCaseSensitive \<noteq> None then True
      else case fsys of
             None \<Rightarrow> False
           | Some fs \<Rightarrow>
               if Realpath fs scopeRoot = [] then False
               else (let physicalRoot = normalize T (Realpath fs scopeRoot);
                         canonicalDirectory = (if canonicalDirectory = [] then Realpath fs lexicalDir else canonicalDirectory)
                     in if canonicalDirectory = [] then False
                        else RelativePathWithinConfigRoot T (normalize T canonicalDirectory) physicalRoot useCaseSensitive \<noteq> None))"

definition collectionPathWithinGitignoreRoot :: "tree_env \<Rightarrow> string \<Rightarrow> string \<Rightarrow> vfs option \<Rightarrow> bool \<Rightarrow> bool" where
  "collectionPathWithinGitignoreRoot T filePath scopeRoot fsys useCaseSensitive =
     (RelativePathWithinConfigRoot T (ResolveGitignoreCollectionPath T filePath [] scopeRoot fsys) scopeRoot useCaseSensitive \<noteq> None)"

type_synonym scope_plan = "GitignoreCollectionScope option \<times> GitignoreCollectionScope list"

definition ensure_default :: "string \<Rightarrow> GitignoreCollectionScope option \<Rightarrow> GitignoreCollectionScope" where
  "ensure_default defaultRoot scope =
     (case scope of Some s \<Rightarrow> s | None \<Rightarrow> \<lparr>csRoot = defaultRoot, csFiles = None, csDirectories = None\<rparr>)"

text \<open>The index of the first scope with a property; scopes are found by the identity of their root.\<close>

definition find_scope :: "(GitignoreCollectionScope \<Rightarrow> bool) \<Rightarrow> GitignoreCollectionScope list \<Rightarrow> nat option" where
  "find_scope P scopes = List.find (\<lambda>i. P (scopes ! i)) [0..<length scopes]"

definition update_scope :: "nat \<Rightarrow> (GitignoreCollectionScope \<Rightarrow> GitignoreCollectionScope) \<Rightarrow> GitignoreCollectionScope list \<Rightarrow> GitignoreCollectionScope list" where
  "update_scope i f scopes = scopes[i := f (scopes ! i)]"

definition plan_directory :: "collect_env \<Rightarrow> string \<Rightarrow> vfs option \<Rightarrow> bool \<Rightarrow> scope_plan \<Rightarrow> DirectoryIdentity \<Rightarrow> scope_plan" where
  "plan_directory C defaultRoot fsys ucs plan directory =
     (case plan of
        (defaultScope, outside) \<Rightarrow>
          (let add = (\<lambda>s. s\<lparr>csDirectories := appendUniquePath C (csDirectories s) (diLexicalPath directory) (path_id C ucs)\<rparr>)
           in if directoryWithinGitignoreRoot (tenv C) (diLexicalPath directory) (diCanonicalPath directory) defaultRoot fsys ucs
              then (Some (add (ensure_default defaultRoot defaultScope)), outside)
              else (let scopeRoot = NormalizePath (pathEnv C) (diLexicalPath directory)
                    in case find_scope (\<lambda>s. path_id C ucs (csRoot s) = path_id C ucs scopeRoot) outside of
                         Some i \<Rightarrow> (defaultScope, update_scope i add outside)
                       | None \<Rightarrow> (defaultScope, outside @ [add \<lparr>csRoot = scopeRoot, csFiles = None, csDirectories = None\<rparr>]))))"

definition plan_file :: "collect_env \<Rightarrow> string \<Rightarrow> vfs option \<Rightarrow> bool \<Rightarrow> scope_plan \<Rightarrow> string \<Rightarrow> scope_plan" where
  "plan_file C defaultRoot fsys ucs plan file =
     (case plan of
        (defaultScope, outside) \<Rightarrow>
          (let file = NormalizePath (pathEnv C) file;
               add = (\<lambda>s. s\<lparr>csFiles := appendUniquePath C (csFiles s) file (path_id C ucs)\<rparr>)
           in if collectionPathWithinGitignoreRoot (tenv C) file defaultRoot fsys ucs
              then (Some (add (ensure_default defaultRoot defaultScope)), outside)
              else (case (case find_scope (\<lambda>s. RelativePathWithinConfigRoot (tenv C) file (csRoot s) ucs \<noteq> None) outside of
                            Some i \<Rightarrow> Some i
                          | None \<Rightarrow> find_scope (\<lambda>s. collectionPathWithinGitignoreRoot (tenv C) file (csRoot s) fsys ucs) outside) of
                      None \<Rightarrow> (defaultScope, outside)
                    | Some i \<Rightarrow> (defaultScope, update_scope i add outside))))"

definition cmp_root :: "GitignoreCollectionScope \<Rightarrow> GitignoreCollectionScope \<Rightarrow> int" where
  "cmp_root a b = str_compare (csRoot a) (csRoot b)"

definition PlanGitignoreCollectionScopes ::
  "collect_env \<Rightarrow> string \<Rightarrow> vfs option \<Rightarrow> string list option \<Rightarrow> string list option \<Rightarrow> GitignoreCollectionScope list" where
  "PlanGitignoreCollectionScopes C defaultRoot fsys targetFiles targetDirectories =
     (let defaultRoot = NormalizePath (pathEnv C) defaultRoot;
          ucs = (case fsys of None \<Rightarrow> True | Some fs \<Rightarrow> UseCaseSensitiveFileNames fs);
          start = (if targetFiles = None \<and> targetDirectories = None then Some (ensure_default defaultRoot None) else None);
          directories = elems (CoalesceDirectoryIdentities (tenv C) targetDirectories fsys)
      in case foldl (plan_directory C defaultRoot fsys ucs) (start, []) directories of
           (defaultScope, outside) \<Rightarrow>
             (case foldl (plan_file C defaultRoot fsys ucs) (defaultScope, sort_cmp cmp_root outside) (elems targetFiles) of
                (defaultScope, outside) \<Rightarrow>
                  (case defaultScope of
                     None \<Rightarrow> outside
                   | Some d \<Rightarrow> d # filter (\<lambda>s. path_id C ucs (csRoot s) \<noteq> path_id C ucs (csRoot d)) outside)))"

section \<open>Configurations with collected rules\<close>

definition blocked_by :: "collect_env \<Rightarrow> ConfigEntry list \<Rightarrow> string \<Rightarrow> vfs option \<Rightarrow> string \<Rightarrow> string \<Rightarrow> bool" where
  "blocked_by C config configDir fsys scopeRoot relativePath =
     BlocksDirectory (tenv C) (NewGlobalIgnoreMatcher (tenv C) config configDir fsys) (ResolvePath C scopeRoot relativePath) []"

abbreviation plain_fs :: "tree_fs option \<Rightarrow> vfs option" where
  "plain_fs fsys \<equiv> map_option vfs.truncate fsys"

definition case_insensitive :: "tree_fs option \<Rightarrow> bool" where
  "case_insensitive fsys = (case fsys of None \<Rightarrow> False | Some fs \<Rightarrow> \<not> UseCaseSensitiveFileNames fs)"

definition configWithGitignoreCollectionFiles ::
  "nat \<Rightarrow> collect_env \<Rightarrow> ConfigEntry list \<Rightarrow> string \<Rightarrow> tree_fs option \<Rightarrow> string list option \<Rightarrow> (string \<Rightarrow> bool) option \<Rightarrow> string list \<Rightarrow>
   ConfigEntry list option" where
  "configWithGitignoreCollectionFiles n C config configDir fsys collectionFiles isDirectoryBlocked stopDirs =
     map_option (\<lambda>patterns.
         ConfigWithCollectedGitignoreScopes (tenv C) config
           (CollectedGitignorePatternsForRoot (tenv C) patterns configDir configDir (plain_fs fsys)) [configDir] configDir (plain_fs fsys)
           (case_insensitive fsys))
       (CollectPatternsWithBoundaries n C configDir fsys collectionFiles isDirectoryBlocked stopDirs)"

definition ConfigWithGitignoreWithBoundaries ::
  "nat \<Rightarrow> collect_env \<Rightarrow> ConfigEntry list \<Rightarrow> string \<Rightarrow> tree_fs option \<Rightarrow> string list option \<Rightarrow> string list \<Rightarrow> ConfigEntry list option" where
  "ConfigWithGitignoreWithBoundaries n C config configDir fsys targetFiles stopDirs =
     (let collectionFiles = (if fsys \<noteq> None
                             then map_option (map (\<lambda>file. ResolveGitignoreCollectionPath (tenv C) file [] configDir (plain_fs fsys))) targetFiles
                             else targetFiles);
          isDirectoryBlocked = (if targetFiles = None \<and> hasGlobalIgnoreEntries config
                                then Some (blocked_by C config configDir (plain_fs fsys) configDir) else None)
      in configWithGitignoreCollectionFiles n C config configDir fsys collectionFiles isDirectoryBlocked stopDirs)"

definition ConfigWithGitignore ::
  "nat \<Rightarrow> collect_env \<Rightarrow> ConfigEntry list \<Rightarrow> string \<Rightarrow> tree_fs option \<Rightarrow> string list option \<Rightarrow> ConfigEntry list option" where
  "ConfigWithGitignore n C config configDir fsys targetFiles = ConfigWithGitignoreWithBoundaries n C config configDir fsys targetFiles []"

definition ConfigWithGitignoreForExactTarget ::
  "nat \<Rightarrow> collect_env \<Rightarrow> ConfigEntry list \<Rightarrow> string \<Rightarrow> tree_fs option \<Rightarrow> PathIdentity \<Rightarrow> ConfigEntry list option" where
  "ConfigWithGitignoreForExactTarget n C config configDir fsys target =
     configWithGitignoreCollectionFiles n C config configDir fsys
       (Some [resolveGitignoreCollectionTargetPath (tenv C) target configDir (plain_fs fsys)]) None []"

fun collect_scopes ::
  "nat \<Rightarrow> collect_env \<Rightarrow> ConfigEntry list \<Rightarrow> string \<Rightarrow> tree_fs option \<Rightarrow> GitignoreCollectionScope list \<Rightarrow> CollectedPattern list \<Rightarrow>
   CollectedPattern list option" where
  "collect_scopes n C config configDir fsys [] patterns = Some patterns"
| "collect_scopes n C config configDir fsys (scope # scopes) patterns =
     (let collectionFiles = map_option (map (\<lambda>file. ResolveGitignoreCollectionPath (tenv C) file [] (csRoot scope) (plain_fs fsys))) (csFiles scope);
          collectionDirectories =
            map_option (map (\<lambda>directory. ResolveGitignoreCollectionDirectory (tenv C) directory (csRoot scope) (plain_fs fsys))) (csDirectories scope);
          isDirectoryBlocked = (if hasGlobalIgnoreEntries config then Some (blocked_by C config configDir (plain_fs fsys) (csRoot scope)) else None)
      in case CollectPatternsForTargets n C (csRoot scope) fsys collectionFiles collectionDirectories isDirectoryBlocked of
           None \<Rightarrow> None
         | Some collected' \<Rightarrow>
             collect_scopes n C config configDir fsys scopes
               (patterns @ CollectedGitignorePatternsForRoot (tenv C) collected' configDir (csRoot scope) (plain_fs fsys)))"

definition ConfigWithGitignoreForTargetsFromRoot ::
  "nat \<Rightarrow> collect_env \<Rightarrow> ConfigEntry list \<Rightarrow> string \<Rightarrow> string \<Rightarrow> tree_fs option \<Rightarrow> string list option \<Rightarrow> string list option \<Rightarrow>
   ConfigEntry list option" where
  "ConfigWithGitignoreForTargetsFromRoot n C config configDir gitignoreRoot fsys targetFiles targetDirectories =
     (let configDir = NormalizePath (pathEnv C) configDir;
          scopes = PlanGitignoreCollectionScopes C gitignoreRoot (plain_fs fsys) targetFiles targetDirectories
      in map_option (\<lambda>patterns. ConfigWithCollectedGitignoreScopes (tenv C) config patterns (map csRoot scopes) configDir (plain_fs fsys)
                                  (case_insensitive fsys))
           (collect_scopes n C config configDir fsys scopes []))"

definition ConfigWithGitignoreForTargets ::
  "nat \<Rightarrow> collect_env \<Rightarrow> ConfigEntry list \<Rightarrow> string \<Rightarrow> tree_fs option \<Rightarrow> string list option \<Rightarrow> string list option \<Rightarrow> ConfigEntry list option" where
  "ConfigWithGitignoreForTargets n C config configDir fsys targetFiles targetDirectories =
     ConfigWithGitignoreForTargetsFromRoot n C config configDir configDir fsys targetFiles targetDirectories"

section \<open>Depth of the walk\<close>

fun tree_within :: "walk_env \<Rightarrow> nat \<Rightarrow> string \<Rightarrow> bool" where
  "tree_within W 0 absDir = False"
| "tree_within W (Suc n) absDir = (\<forall>dir \<in> set (accessibleDirectories (wkFs W) absDir). tree_within W n (CombinePaths (wkEnv W) absDir dir))"

lemma walk_returns:
  "tree_within W n absDir \<Longrightarrow> collectGitignorePatternsRecursive n W absDir relDir rules targets st \<noteq> None"
  "(\<forall>dir \<in> set dirs. tree_within W n (CombinePaths (wkEnv W) absDir dir)) \<Longrightarrow>
    collect_children n W absDir relDir parentRealPath rules targets dirs st \<noteq> None"
proof (induction n W absDir relDir rules targets st and n W absDir relDir parentRealPath rules targets dirs st
    rule: collectGitignorePatternsRecursive_collect_children.induct)
  case (2 n W absDir relDir rules targets st)
  then show ?case by (auto split: sum.split)
next
  case (4 n W absDir relDir parentRealPath rules targets dir dirs st)
  then show ?case by (auto split: option.split prod.split bool.split)
qed auto

lemma children_stable:
  assumes "\<And>absDir relDir rules targets st st'. collectGitignorePatternsRecursive n W absDir relDir rules targets st = Some st' \<Longrightarrow>
      collectGitignorePatternsRecursive m W absDir relDir rules targets st = Some st'"
    and "collect_children n W absDir relDir parentRealPath rules targets dirs st = Some st'"
  shows "collect_children m W absDir relDir parentRealPath rules targets dirs st = Some st'"
  using assms(2)
proof (induction dirs arbitrary: st)
  case (Cons dir dirs)
  obtain b s where e: "enter_child W absDir relDir parentRealPath rules targets dir st = (b, s)" by fastforce
  show ?case
  proof (cases b)
    case False
    then show ?thesis using Cons e by simp
  next
    case True
    then obtain s' where s': "collectGitignorePatternsRecursive n W (CombinePaths (wkEnv W) absDir dir) (child_rel relDir dir) rules targets s = Some s'"
      "collect_children n W absDir relDir parentRealPath rules targets dirs s' = Some st'"
      using Cons.prems e by (auto split: option.splits)
    show ?thesis using assms(1) [OF s'(1)] Cons.IH [OF s'(2)] e True by simp
  qed
qed simp

text \<open>A larger bound changes nothing.\<close>

lemma walk_stable:
  assumes "collectGitignorePatternsRecursive n W absDir relDir rules targets st = Some st'" and "n \<le> m"
  shows "collectGitignorePatternsRecursive m W absDir relDir rules targets st = Some st'"
  using assms
proof (induction n arbitrary: m absDir relDir rules targets st st')
  case (Suc n)
  obtain m' where m: "m = Suc m'" "n \<le> m'" using Suc.prems(2) by (cases m) auto
  have IH: "collectGitignorePatternsRecursive n W absDir relDir rules targets st = Some st' \<Longrightarrow>
      collectGitignorePatternsRecursive m' W absDir relDir rules targets st = Some st'" for absDir relDir rules targets st st'
    using Suc.IH m(2) by blast
  show ?case using Suc.prems(1) children_stable [where n = n and m = m', OF IH] unfolding m(1)
    by (auto split: sum.splits)
qed simp

section \<open>The walk and the cursors\<close>

text \<open>The sources that a cursor can reach when it descends a tree, in the order of the walk.\<close>

function (sequential) cursor_walk :: "nat \<Rightarrow> walk_env \<Rightarrow> Cursor \<Rightarrow> string \<Rightarrow> CollectedPattern list option"
and cursor_children :: "nat \<Rightarrow> walk_env \<Rightarrow> Cursor \<Rightarrow> string \<Rightarrow> string list \<Rightarrow> CollectedPattern list option" where
  "cursor_walk 0 W cursor absDir = None"
| "cursor_walk (Suc n) W cursor absDir =
     (case (case ReadFile (wkFs W) (CombinePaths (wkEnv W) absDir ''.gitignore'') of
              None \<Rightarrow> (cursor, []) | Some content \<Rightarrow> AppendSourcePatterns (wkEnv W) cursor absDir content) of
        (cursor, local) \<Rightarrow> map_option (\<lambda>ps. local @ ps) (cursor_children n W cursor absDir (accessibleDirectories (wkFs W) absDir)))"
| "cursor_children n W cursor absDir [] = Some []"
| "cursor_children n W cursor absDir (dir # dirs) =
     (let child = fst (cursor_Enter (wkEnv W) cursor (CombinePaths (wkEnv W) absDir dir))
      in if isDefaultExcludedDirName (wkEnv W) dir (UseCaseSensitiveFileNames (wkFs W)) \<or>
            dir \<in> set (elems (accessibleSymlinks (wkFs W) absDir)) \<or> \<not> cuSourceReachable child
         then cursor_children n W cursor absDir dirs
         else (case cursor_walk n W child (CombinePaths (wkEnv W) absDir dir) of
                 None \<Rightarrow> None
               | Some ps \<Rightarrow> map_option (\<lambda>qs. ps @ qs) (cursor_children n W cursor absDir dirs)))"
  by pat_completeness auto
termination
  by (relation "measures [\<lambda>x. case x of Inl (n, _) \<Rightarrow> n | Inr (n, _) \<Rightarrow> n,
        \<lambda>x. case x of Inl _ \<Rightarrow> 0 | Inr (_, _, _, _, dirs) \<Rightarrow> Suc (length dirs)]") auto

text \<open>
  A tree whose paths are in normal form: the path of a child relative to the root is that of its parent followed by its name, and
  the file system tells which names are links.
\<close>

definition path_ok :: "walk_env \<Rightarrow> string \<Rightarrow> string \<Rightarrow> string \<Rightarrow> bool" where
  "path_ok W base absDir relDir \<longleftrightarrow> base \<noteq> [] \<and> absDir \<noteq> [] \<and> normalizeGlobPath (wkEnv W) absDir = absDir \<and>
     relativeDir (wkEnv W) base absDir (UseCaseSensitiveFileNames (wkFs W)) = Some relDir"

definition tree_ok :: "walk_env \<Rightarrow> string \<Rightarrow> bool" where
  "tree_ok W base \<longleftrightarrow> wkBlocked W = None \<and> wkBoundaries W = [] \<and> (\<forall>absDir. accessibleSymlinks (wkFs W) absDir \<noteq> None) \<and>
     (\<forall>absDir relDir. \<forall>dir \<in> set (accessibleDirectories (wkFs W) absDir). path_ok W base absDir relDir \<longrightarrow>
        dir \<noteq> [] \<and> path_ok W base (CombinePaths (wkEnv W) absDir dir) (child_rel relDir dir))"

definition cursor_at :: "walk_env \<Rightarrow> string \<Rightarrow> gitignorePruneRule list \<Rightarrow> Cursor" where
  "cursor_at W base rules =
     \<lparr>cuRootDir = base, cuUseCaseSensitive = UseCaseSensitiveFileNames (wkFs W), cuSourceReachable = True, cuRules = rules\<rparr>"

lemma cursor_at_reachable [simp]: "(cursor_at W base rules)\<lparr>cuSourceReachable := True\<rparr> = cursor_at W base rules"
  "cuSourceReachable (cursor_at W base rules)"
  by (simp_all add: cursor_at_def)

lemma child_rel_nonempty [simp]: "dir \<noteq> [] \<Longrightarrow> child_rel relDir dir \<noteq> []"
  by (simp add: child_rel_def)

lemma cursor_enter_child:
  assumes "path_ok W base childAbs relDir" and "relDir \<noteq> []"
  shows "fst (cursor_Enter (wkEnv W) (cursor_at W base rules) childAbs) =
    (cursor_at W base rules)\<lparr>cuSourceReachable := \<not> isDirIgnoredByPruneRules (wkEnv W) relDir rules (UseCaseSensitiveFileNames (wkFs W))\<rparr>"
  using assms by (simp add: path_ok_def cursor_Enter_def cursor_at_def blocksDirectoryNode_def isDirIgnoredByPruneRules_def Let_def)

lemma cursor_source:
  assumes "path_ok W base absDir relDir"
  shows "(case ReadFile (wkFs W) (CombinePaths (wkEnv W) absDir ''.gitignore'') of
      None \<Rightarrow> (cursor_at W base rules, []) | Some content \<Rightarrow> AppendSourcePatterns (wkEnv W) (cursor_at W base rules) absDir content) =
    (cursor_at W base (extend_rules rules (read_source W absDir relDir)), read_source W absDir relDir)"
  using assms by (simp add: path_ok_def read_source_def AppendSourcePatterns_def cursor_at_def extend_rules_def Let_def split: option.split)

lemma enter_child_ok:
  assumes "tree_ok W base"
  shows "enter_child W absDir relDir parentRealPath rules None dir st =
    (\<not> (isDefaultExcludedDirName (wkEnv W) dir (UseCaseSensitiveFileNames (wkFs W)) \<or>
        dir \<in> set (elems (accessibleSymlinks (wkFs W) absDir)) \<or>
        isDirIgnoredByPruneRules (wkEnv W) (child_rel relDir dir) rules (UseCaseSensitiveFileNames (wkFs W))), st)"
proof -
  obtain links where "accessibleSymlinks (wkFs W) absDir = Some links" "wkBlocked W = None" "wkBoundaries W = []"
    using assms unfolding tree_ok_def by blast
  then show ?thesis by (simp add: enter_child_def child_link_def child_rel_def isCollectionBoundary_def elems_def Let_def)
qed

lemma open_directory_ok:
  assumes "tree_ok W base"
  shows "open_directory W absDir relDir rules None st =
    Inr ([], extend_rules rules (read_source W absDir relDir), None, st\<lparr>collected := collected st @ read_source W absDir relDir\<rparr>)"
proof -
  obtain links where "accessibleSymlinks (wkFs W) absDir = Some links" using assms unfolding tree_ok_def by blast
  then show ?thesis by (simp add: open_directory_def mark_parent_def Let_def)
qed

lemma children_cursor:
  assumes tree: "tree_ok W base" and here: "path_ok W base absDir relDir"
    and walk: "\<And>absDir relDir rules st. path_ok W base absDir relDir \<Longrightarrow>
      collectGitignorePatternsRecursive n W absDir relDir rules None st =
        map_option (\<lambda>ps. st\<lparr>collected := collected st @ ps\<rparr>) (cursor_walk n W (cursor_at W base rules) absDir)"
    and "set dirs \<subseteq> set (accessibleDirectories (wkFs W) absDir)"
  shows "collect_children n W absDir relDir [] rules None dirs st =
    map_option (\<lambda>ps. st\<lparr>collected := collected st @ ps\<rparr>) (cursor_children n W (cursor_at W base rules) absDir dirs)"
  using assms(4)
proof (induction dirs arbitrary: st)
  case (Cons dir dirs)
  let ?child = "CombinePaths (wkEnv W) absDir dir"
  have child: "dir \<noteq> []" "path_ok W base ?child (child_rel relDir dir)"
    using tree here Cons.prems unfolding tree_ok_def by auto
  note enter = cursor_enter_child [OF child(2) child_rel_nonempty [OF child(1)], of rules]
  note IH = Cons.IH [OF order_trans [OF set_subset_Cons Cons.prems]]
  show ?case
  proof (cases "isDefaultExcludedDirName (wkEnv W) dir (UseCaseSensitiveFileNames (wkFs W)) \<or>
      dir \<in> set (elems (accessibleSymlinks (wkFs W) absDir)) \<or>
      isDirIgnoredByPruneRules (wkEnv W) (child_rel relDir dir) rules (UseCaseSensitiveFileNames (wkFs W))")
    case True
    then show ?thesis using IH by (auto simp: enter_child_ok [OF tree] enter)
  next
    case False
    then have "cursor_children n W (cursor_at W base rules) absDir (dir # dirs) =
        (case cursor_walk n W (cursor_at W base rules) ?child of
           None \<Rightarrow> None | Some ps \<Rightarrow> map_option (\<lambda>qs. ps @ qs) (cursor_children n W (cursor_at W base rules) absDir dirs))"
      by (simp add: enter Let_def)
    then show ?thesis using False IH walk [OF child(2)]
      by (simp add: enter_child_ok [OF tree] option.map_comp comp_def split: option.split)
  qed
qed simp

lemma walk_cursor:
  assumes "tree_ok W base" and "path_ok W base absDir relDir"
  shows "collectGitignorePatternsRecursive n W absDir relDir rules None st =
    map_option (\<lambda>ps. st\<lparr>collected := collected st @ ps\<rparr>) (cursor_walk n W (cursor_at W base rules) absDir)"
  using assms(2)
proof (induction n arbitrary: absDir relDir rules st)
  case (Suc n)
  show ?case
    using children_cursor [OF assms(1) Suc.prems Suc.IH order_refl]
    by (simp add: open_directory_ok [OF assms(1)] cursor_source [OF Suc.prems] option.map_comp comp_def)
qed simp

text \<open>
  The recursive collection of \<^verbatim>\<open>.gitignore\<close> files and the cursors of config discovery see the same Git rules: a walk
  over a tree that is deep enough for its bound returns exactly the rules, in order, of the sources that a cursor started
  at the root reaches when it enters each directory in turn.
\<close>

theorem collection_follows_cursor:
  assumes "tree_ok W base" and "path_ok W base base []" and "tree_within W n base" and "normalizeGlobPath (wkEnv W) base = base"
  shows "\<exists>ps. collectGitignorePatterns n W base [] [] None = Some ps \<and>
    cursor_walk n W (NewCursor (wkEnv W) base (UseCaseSensitiveFileNames (wkFs W))) base = Some ps"
proof -
  have new: "NewCursor (wkEnv W) base (UseCaseSensitiveFileNames (wkFs W)) = cursor_at W base []"
    using assms(2,4) by (simp add: NewCursor_def cursor_at_def path_ok_def)
  have "collectGitignorePatternsRecursive n W base [] [] None \<lparr>resolvedPaths = [], visited = [], collected = []\<rparr> \<noteq> None"
    by (rule walk_returns(1) [OF assms(3)])
  then show ?thesis unfolding collectGitignorePatterns_def walk_cursor [OF assms(1,2)] new by auto
qed

section \<open>A concrete tree\<close>

definition sample_collect :: collect_env where
  "sample_collect = tree_env.extend sample_tree
     \<lparr>CombinePaths = \<lambda>a b. a @ sl # b, ToPathCase = \<lambda>_ s. s, EqualFold = \<lambda>a b. a = b\<rparr>"

definition sample_fs :: tree_fs where
  "sample_fs = \<lparr>Realpath = \<lambda>s. s, UseCaseSensitiveFileNames = True,
     ReadFile = \<lambda>s. if s = ''r/.gitignore'' then Some sample_text else None,
     accessibleDirectories = \<lambda>d. if d = ''r'' then [''a''] else [], accessibleSymlinks = \<lambda>_. Some []\<rparr>"

lemmas sample_walk_eval =
  sample_collect_def sample_fs_def sample_tree_def sample_paths_def tree_env.extend_def relativeDir_def splitFilesystemPath_def
  sameFilesystemRoot_def equalFilesystemPath_def trim_slashes_def has_prefix_def unix_path_def normalizeGlobPath_def child_rel_def

lemma sample_walk_ok:
  defines "W \<equiv> walk_all sample_collect sample_fs None []"
  shows "path_ok W ''r'' ''r'' []" "tree_ok W ''r''" "tree_within W 2 ''r''"
proof -
  have root: "path_ok W ''r'' ''r'' relDir \<longleftrightarrow> relDir = []" for relDir
    by (auto simp: path_ok_def W_def walk_all_def sample_walk_eval Let_def)
  then show "path_ok W ''r'' ''r'' []" by simp
  have "path_ok W ''r'' ''r/a'' ''a''"
    by (simp add: path_ok_def W_def walk_all_def sample_walk_eval Let_def)
  then show "tree_ok W ''r''" using root
    by (auto simp: tree_ok_def W_def walk_all_def sample_walk_eval split: if_splits)
  show "tree_within W 2 ''r''"
    by (simp add: W_def walk_all_def sample_fs_def sample_collect_def tree_env.extend_def numeral_2_eq_2)
qed

theorem collection_follows_cursor_witness:
  "\<exists>ps. collectGitignorePatterns 2 (walk_all sample_collect sample_fs None []) ''r'' [] [] None = Some ps \<and>
    cursor_walk 2 (walk_all sample_collect sample_fs None []) (NewCursor sample_collect ''r'' True) ''r'' = Some ps"
proof -
  have "normalizeGlobPath sample_collect ''r'' = ''r''" "UseCaseSensitiveFileNames sample_fs" by (simp_all add: sample_walk_eval)
  then show ?thesis using collection_follows_cursor [OF sample_walk_ok(2,1,3)] by (simp add: walk_all_def)
qed

end
