(* ===== verification/Code_Units.thy ===== *)
theory Code_Units
  imports Text
begin

text \<open>
  \<^verbatim>\<open>internal/utils/ecmascript/code_units.go\<close>: the UTF-16 code units of a JavaScript string that
  Go holds as bytes.  The bytes are UTF-8, except that an unpaired surrogate is spelled with the
  three bytes UTF-8 would give it.  A rune and a code unit are natural numbers here; the two
  \<^verbatim>\<open>unicode/utf16\<close> functions and \<^verbatim>\<open>utf8.AppendRune\<close> are modelled below.
\<close>

section \<open>Encoding\<close>

definition high_surrogate :: "nat \<Rightarrow> bool" where
  "high_surrogate u = (0xD800 \<le> u \<and> u \<le> 0xDBFF)"

definition low_surrogate :: "nat \<Rightarrow> bool" where
  "low_surrogate u = (0xDC00 \<le> u \<and> u \<le> 0xDFFF)"

definition surrogate :: "nat \<Rightarrow> bool" where
  "surrogate u = (0xD800 \<le> u \<and> u \<le> 0xDFFF)"

text \<open>\<open>utf16.EncodeRune\<close> and \<open>utf16.DecodeRune\<close>.\<close>

definition EncodeRune :: "nat \<Rightarrow> nat \<times> nat" where
  "EncodeRune r =
     (if r < 0x10000 \<or> 0x10FFFF < r then (RuneError, RuneError)
      else (0xD800 + (r - 0x10000) div 1024, 0xDC00 + (r - 0x10000) mod 1024))"

definition DecodeRune :: "nat \<Rightarrow> nat \<Rightarrow> nat" where
  "DecodeRune r1 r2 =
     (if high_surrogate r1 \<and> low_surrogate r2 then (r1 - 0xD800) * 1024 + (r2 - 0xDC00) + 0x10000
      else RuneError)"

definition three_bytes :: "nat \<Rightarrow> string" where
  "three_bytes r = [char_of (0xE0 + r div 4096), char_of (0x80 + r div 64 mod 64), char_of (0x80 + r mod 64)]"

text \<open>The bytes \<open>strings.Builder.WriteRune\<close> writes; a surrogate is not a valid rune.\<close>

definition WriteRune :: "nat \<Rightarrow> string" where
  "WriteRune r =
     (if r < 0x80 then [char_of r]
      else if r < 0x800 then [char_of (0xC0 + r div 64), char_of (0x80 + r mod 64)]
      else if surrogate r \<or> 0x10FFFF < r then three_bytes RuneError
      else if r < 0x10000 then three_bytes r
      else [char_of (0xF0 + r div 262144), char_of (0x80 + r div 4096 mod 64),
            char_of (0x80 + r div 64 mod 64), char_of (0x80 + r mod 64)])"

section \<open>The package\<close>

definition decodeStringRune :: "string \<Rightarrow> nat \<times> nat" where
  "decodeStringRune s =
     (if 3 \<le> length s \<and> byte_at s 0 = 0xED \<and> 0xA0 \<le> byte_at s 1 \<and> byte_at s 1 \<le> 0xBF
         \<and> 0x80 \<le> byte_at s 2 \<and> byte_at s 2 \<le> 0xBF
      then (0xD000 + (byte_at s 1 mod 64) * 64 + byte_at s 2 mod 64, 3)
      else DecodeRuneInString s)"

lemma decodeStringRune_size:
  assumes "decodeStringRune s = (r, n)" and "s \<noteq> []"
  shows "0 < n \<and> n \<le> length s \<and> n \<le> 4"
  using assms DecodeRune_size [of s r n] by (auto simp: decodeStringRune_def split: if_splits)

function StringCodeUnits :: "string \<Rightarrow> nat list" where
  "StringCodeUnits s =
     (if s = [] then []
      else let (r, n) = decodeStringRune s
           in (if 0xFFFF < r then [fst (EncodeRune r), snd (EncodeRune r)] else [r]) @ StringCodeUnits (drop n s))"
  by auto
termination
  by (relation "measure length") (auto dest: decodeStringRune_size [OF sym])

function StringCodeUnitRunes :: "string \<Rightarrow> nat list" where
  "StringCodeUnitRunes s =
     (if s = [] then []
      else if byte_at s 0 < 0x80 then byte_at s 0 # StringCodeUnitRunes (drop 1 s)
      else let (r, n) = decodeStringRune s
           in (if 0xFFFF < r then [fst (EncodeRune r), snd (EncodeRune r)] else [r]) @ StringCodeUnitRunes (drop n s))"
  by auto
termination
  by (relation "measure length") (auto dest: decodeStringRune_size [OF sym])

function StringCodeUnitCount :: "string \<Rightarrow> nat" where
  "StringCodeUnitCount s =
     (if s = [] then 0
      else if byte_at s 0 < 0x80 then 1 + StringCodeUnitCount (drop 1 s)
      else let (r, n) = decodeStringRune s
           in (if 0xFFFF < r then 2 else 1) + StringCodeUnitCount (drop n s))"
  by auto
termination
  by (relation "measure length") (auto dest: decodeStringRune_size [OF sym])

fun StringFromCodeUnits :: "nat list \<Rightarrow> string" where
  "StringFromCodeUnits [] = []"
| "StringFromCodeUnits [unit] = (if surrogate unit then three_bytes unit else WriteRune unit)"
| "StringFromCodeUnits (unit # next_unit # units) =
     (if high_surrogate unit \<and> low_surrogate next_unit
      then WriteRune (DecodeRune unit next_unit) @ StringFromCodeUnits units
      else (if surrogate unit then three_bytes unit else WriteRune unit)
             @ StringFromCodeUnits (next_unit # units))"

text \<open>The loop of \<open>CombineSurrogatePairs\<close>; past the end of the string the decoder answers
  \<open>RuneError\<close> and no bytes.\<close>

function combine_loop :: "string \<Rightarrow> string" where
  "combine_loop s =
     (if s = [] then []
      else let (r, n) = decodeStringRune s; (low, lowSize) = decodeStringRune (drop n s)
           in if high_surrogate r \<and> low_surrogate low
              then WriteRune (DecodeRune r low) @ combine_loop (drop (n + lowSize) s)
              else take n s @ combine_loop (drop n s))"
  by auto
termination
  by (relation "measure length") (auto dest: decodeStringRune_size [OF sym])

definition CombineSurrogatePairs :: "string \<Rightarrow> string" where
  "CombineSurrogatePairs s = (if char_of (0xED :: nat) \<notin> set s then s else combine_loop s)"

definition hasAstralCharacter :: "string \<Rightarrow> bool" where
  "hasAstralCharacter s = (\<exists>c \<in> set s. 0xF0 \<le> (of_char c :: nat))"

text \<open>\<open>strings.Compare\<close> on bytes, and the comparison of two slices of code units.\<close>

fun compare_lists :: "('a \<Rightarrow> nat) \<Rightarrow> 'a list \<Rightarrow> 'a list \<Rightarrow> int" where
  "compare_lists f [] [] = 0"
| "compare_lists f [] (y # ys) = - 1"
| "compare_lists f (x # xs) [] = 1"
| "compare_lists f (x # xs) (y # ys) =
     (if f x \<noteq> f y then (if f x < f y then - 1 else 1) else compare_lists f xs ys)"

definition CompareStrings :: "string \<Rightarrow> string \<Rightarrow> int" where
  "CompareStrings a b =
     (if a = b then 0
      else if \<not> hasAstralCharacter a \<and> \<not> hasAstralCharacter b then compare_lists of_char a b
      else compare_lists id (StringCodeUnits a) (StringCodeUnits b))"

declare StringCodeUnits.simps [simp del] StringCodeUnitRunes.simps [simp del]
  StringCodeUnitCount.simps [simp del] combine_loop.simps [simp del]

section \<open>The three readings agree\<close>

lemma decodeStringRune_ascii:
  "s \<noteq> [] \<Longrightarrow> byte_at s 0 < 0x80 \<Longrightarrow> decodeStringRune s = (byte_at s 0, 1)"
  by (cases s) (auto simp: decodeStringRune_def DecodeRuneInString_def byte_at_def)

lemma StringCodeUnitRunes_eq: "StringCodeUnitRunes s = StringCodeUnits s"
proof (induction s rule: StringCodeUnitRunes.induct)
  case (1 s)
  show ?case
  proof (cases "s \<noteq> [] \<and> byte_at s 0 < 0x80")
    case True
    then show ?thesis
      using 1 by (simp add: StringCodeUnits.simps [of s] StringCodeUnitRunes.simps [of s] decodeStringRune_ascii)
  next
    case False
    then show ?thesis
      using 1 by (auto simp: StringCodeUnits.simps [of s] StringCodeUnitRunes.simps [of s] split: prod.splits)
  qed
qed

lemma StringCodeUnitCount_eq: "StringCodeUnitCount s = length (StringCodeUnits s)"
proof (induction s rule: StringCodeUnitCount.induct)
  case (1 s)
  show ?case
  proof (cases "s \<noteq> [] \<and> byte_at s 0 < 0x80")
    case True
    then show ?thesis
      using 1 by (simp add: StringCodeUnits.simps [of s] StringCodeUnitCount.simps [of s] decodeStringRune_ascii)
  next
    case False
    then show ?thesis
      using 1 by (auto simp: StringCodeUnits.simps [of s] StringCodeUnitCount.simps [of s] split: prod.splits)
  qed
qed

section \<open>Decoding what was encoded\<close>

text \<open>The spelling of a code point, unpaired surrogates included.\<close>

definition wtf8 :: "nat \<Rightarrow> string" where
  "wtf8 r = (if surrogate r then three_bytes r else WriteRune r)"

lemma byte_char_of [simp]: "n < 256 \<Longrightarrow> of_char (char_of n) = (n :: nat)"
  by simp

lemma byte_at_Cons [simp]: "byte_at (c # s) 0 = of_char c" "byte_at (c # s) (Suc n) = byte_at s n"
  by (simp_all add: byte_at_def)

lemma byte_at_numeral [simp]: "byte_at (c # s) (numeral k) = byte_at s (pred_numeral k)"
  by (simp add: byte_at_def)

lemma decode_bytes2:
  "0xC2 \<le> b0 \<Longrightarrow> b0 \<le> 0xDF \<Longrightarrow> 0x80 \<le> b1 \<Longrightarrow> b1 \<le> 0xBF \<Longrightarrow>
     decodeStringRune (char_of b0 # char_of b1 # s) = ((b0 - 0xC0) * 64 + (b1 - 0x80), 2)"
  by (simp add: decodeStringRune_def DecodeRuneInString_def Let_def lead_byte_def)

lemma continuation_mod:
  assumes "0x80 \<le> b" and "b \<le> 0xBF"
  shows "b mod 64 = b - (0x80 :: nat)"
proof -
  have "b mod 64 = (b - 0x80 + 64 * 2) mod 64" using assms(1) by simp
  also have "\<dots> = (b - 0x80) mod 64" by (rule mod_mult_self2)
  finally show ?thesis using assms by simp
qed

lemma decode_bytes3:
  assumes "0xE0 \<le> b0" "b0 \<le> 0xEF" "0x80 \<le> b1" "b1 \<le> 0xBF" "0x80 \<le> b2" "b2 \<le> 0xBF"
    and "b0 = 0xE0 \<Longrightarrow> 0xA0 \<le> b1"
  shows "decodeStringRune (char_of b0 # char_of b1 # char_of b2 # s) =
    ((b0 - 0xE0) * 4096 + (b1 - 0x80) * 64 + (b2 - 0x80), 3)"
proof (cases "b0 = 0xED \<and> 0xA0 \<le> b1")
  case True
  then show ?thesis using assms by (simp add: decodeStringRune_def continuation_mod)
next
  case False
  then show ?thesis
    using assms by (auto simp: decodeStringRune_def DecodeRuneInString_def Let_def lead_byte_def continuation_def)
qed

lemma decode_bytes4:
  assumes "0xF0 \<le> b0" "b0 \<le> 0xF4" "0x80 \<le> b1" "b1 \<le> 0xBF" "0x80 \<le> b2" "b2 \<le> 0xBF" "0x80 \<le> b3" "b3 \<le> 0xBF"
    and "b0 = 0xF0 \<Longrightarrow> 0x90 \<le> b1" "b0 = 0xF4 \<Longrightarrow> b1 \<le> 0x8F"
  shows "decodeStringRune (char_of b0 # char_of b1 # char_of b2 # char_of b3 # s) =
    ((b0 - 0xF0) * 262144 + (b1 - 0x80) * 4096 + (b2 - 0x80) * 64 + (b3 - 0x80), 4)"
  using assms by (auto simp: decodeStringRune_def DecodeRuneInString_def Let_def lead_byte_def continuation_def)

lemma div64_split: "r div 64 * 64 + r mod 64 = (r :: nat)"
  by simp

lemma div4096_split: "r div 4096 * 4096 + r div 64 mod 64 * 64 + r mod 64 = (r :: nat)"
proof -
  have "r div 64 div 64 = r div 4096" by (simp add: div_mult2_eq [symmetric])
  then have "(r div 4096 * 64 + r div 64 mod 64) * 64 + r mod 64 = r"
    using div64_split [of "r div 64"] div64_split [of r] by simp
  then show ?thesis by (simp add: algebra_simps)
qed

lemma div262144_split:
  "r div 262144 * 262144 + r div 4096 mod 64 * 4096 + r div 64 mod 64 * 64 + r mod 64 = (r :: nat)"
proof -
  have "r div 4096 div 64 = r div 262144" by (simp add: div_mult2_eq [symmetric])
  then have "(r div 262144 * 64 + r div 4096 mod 64) * 4096 + r div 64 mod 64 * 64 + r mod 64 = r"
    using div64_split [of "r div 4096"] div4096_split [of r] by simp
  then show ?thesis by (simp add: algebra_simps)
qed

lemma decode_three_bytes:
  assumes "0x800 \<le> r" and "r < 0x10000"
  shows "decodeStringRune (three_bytes r @ s) = (r, 3)"
proof -
  have "r div 4096 < 16" using assms(2) by auto
  moreover have "32 \<le> r div 64 mod 64" if "r div 4096 = 0"
  proof -
    have "r < 4096" using that by (simp add: div_eq_0_iff)
    then have "r div 64 < 64" by auto
    moreover have "32 \<le> r div 64" using assms(1) by auto
    ultimately show ?thesis by simp
  qed
  moreover have "r div 64 mod 64 < 64" "r mod 64 < 64" by simp_all
  ultimately show ?thesis
    using div4096_split [of r] by (simp add: three_bytes_def decode_bytes3)
qed

lemma decode_wtf8:
  assumes "r \<le> 0x10FFFF"
  shows "decodeStringRune (wtf8 r @ s) = (r, length (wtf8 r))"
proof -
  consider "r < 0x80" | "0x80 \<le> r \<and> r < 0x800" | "0x800 \<le> r \<and> r < 0x10000" | "0x10000 \<le> r" by linarith
  then show ?thesis
  proof cases
    case 1
    then show ?thesis by (simp add: wtf8_def WriteRune_def surrogate_def decodeStringRune_ascii)
  next
    case 2
    then have "2 \<le> r div 64" "r div 64 < 32" "r mod 64 < 64" by auto
    with 2 show ?thesis
      by (simp add: wtf8_def WriteRune_def surrogate_def decode_bytes2 div64_split)
  next
    case 3
    then have "wtf8 r = three_bytes r" by (simp add: wtf8_def WriteRune_def)
    with 3 show ?thesis by (simp add: decode_three_bytes) (simp add: three_bytes_def)
  next
    case 4
    have "r div 262144 < 5" using assms by auto
    moreover have "16 \<le> r div 4096 mod 64" if "r div 262144 = 0"
    proof -
      have "r < 262144" using that by (simp add: div_eq_0_iff)
      then have "r div 4096 < 64" by auto
      moreover have "16 \<le> r div 4096" using 4 by auto
      ultimately show ?thesis by simp
    qed
    moreover have "r div 4096 mod 64 \<le> 15" if "r div 262144 = 4"
    proof -
      have "r div 4096 < 272" using assms by auto
      moreover have "r div 4096 div 64 = 4" using that by (simp add: div_mult2_eq [symmetric])
      then have "r div 4096 = 256 + r div 4096 mod 64" using div64_split [of "r div 4096"] by simp
      ultimately show ?thesis by linarith
    qed
    moreover have "r div 4096 mod 64 < 64" "r div 64 mod 64 < 64" "r mod 64 < 64" by simp_all
    ultimately show ?thesis
      using 4 assms div262144_split [of r]
      by (simp add: wtf8_def WriteRune_def surrogate_def decode_bytes4)
  qed
qed

section \<open>Code points and code units\<close>

text \<open>The code points that a sequence of code units spells: adjacent surrogate pairs are joined.\<close>

fun code_points :: "nat list \<Rightarrow> nat list" where
  "code_points [] = []"
| "code_points [u] = [u]"
| "code_points (u # v # us) =
     (if high_surrogate u \<and> low_surrogate v then DecodeRune u v # code_points us
      else u # code_points (v # us))"

definition units_of :: "nat \<Rightarrow> nat list" where
  "units_of r = (if 0xFFFF < r then [fst (EncodeRune r), snd (EncodeRune r)] else [r])"

definition spell :: "nat list \<Rightarrow> string" where
  "spell rs = concat (map wtf8 rs)"

lemmas surrogate_defs = high_surrogate_def low_surrogate_def surrogate_def

lemma spell_simps [simp]: "spell [] = []" "spell (r # rs) = wtf8 r @ spell rs" "spell (rs @ qs) = spell rs @ spell qs"
  by (simp_all add: spell_def)

lemma wtf8_not_Nil [simp]: "wtf8 r \<noteq> []"
  by (simp add: wtf8_def WriteRune_def three_bytes_def)

lemma DecodeRune_range:
  assumes "high_surrogate u" and "low_surrogate v"
  shows "0x10000 \<le> DecodeRune u v" and "DecodeRune u v \<le> 0x10FFFF"
proof -
  have "(u - 0xD800) * 1024 \<le> 1023 * 1024" using assms(1) by (intro mult_le_mono1) (auto simp: high_surrogate_def)
  then show "0x10000 \<le> DecodeRune u v" and "DecodeRune u v \<le> 0x10FFFF"
    using assms by (simp_all add: DecodeRune_def low_surrogate_def)
qed

lemma EncodeRune_DecodeRune:
  assumes "high_surrogate u" and "low_surrogate v"
  shows "EncodeRune (DecodeRune u v) = (u, v)"
proof -
  have "(v - 0xDC00) < 1024" using assms(2) by (auto simp: low_surrogate_def)
  then have "((u - 0xD800) * 1024 + (v - 0xDC00)) div 1024 = u - 0xD800"
    "((u - 0xD800) * 1024 + (v - 0xDC00)) mod 1024 = v - 0xDC00" by simp_all
  moreover have "DecodeRune u v - 0x10000 = (u - 0xD800) * 1024 + (v - 0xDC00)"
    using assms by (simp add: DecodeRune_def)
  moreover have "0xD800 \<le> u" "0xDC00 \<le> v" using assms by (simp_all add: surrogate_defs)
  ultimately show ?thesis
    using DecodeRune_range [OF assms] by (simp add: EncodeRune_def)
qed

lemma units_of_DecodeRune:
  "high_surrogate u \<Longrightarrow> low_surrogate v \<Longrightarrow> units_of (DecodeRune u v) = [u, v]"
  using DecodeRune_range(1) [of u v] by (simp add: units_of_def EncodeRune_DecodeRune)

lemma wtf8_DecodeRune:
  "high_surrogate u \<Longrightarrow> low_surrogate v \<Longrightarrow> WriteRune (DecodeRune u v) = wtf8 (DecodeRune u v)"
  using DecodeRune_range(1) [of u v] by (simp add: wtf8_def surrogate_def)

lemma StringFromCodeUnits_spell: "StringFromCodeUnits us = spell (code_points us)"
  by (induction us rule: StringFromCodeUnits.induct) (simp_all add: wtf8_DecodeRune, simp_all add: wtf8_def)

lemma code_points_range:
  "\<forall>u \<in> set us. u \<le> 0x10FFFF \<Longrightarrow> \<forall>r \<in> set (code_points us). r \<le> 0x10FFFF"
  by (induction us rule: code_points.induct) (auto simp: DecodeRune_range(2))

lemma concat_units_of:
  "\<forall>u \<in> set us. u < 0x10000 \<Longrightarrow> concat (map units_of (code_points us)) = us"
  by (induction us rule: code_points.induct) (auto simp: units_of_DecodeRune, auto simp: units_of_def)

lemma StringCodeUnits_spell:
  "\<forall>r \<in> set rs. r \<le> 0x10FFFF \<Longrightarrow> StringCodeUnits (spell rs) = concat (map units_of rs)"
proof (induction rs)
  case (Cons r rs)
  then show ?case
    by (simp add: StringCodeUnits.simps [of "wtf8 r @ spell rs"] decode_wtf8 units_of_def)
qed (simp add: StringCodeUnits.simps)

definition code_units_ok :: "nat list \<Rightarrow> bool" where
  "code_units_ok us = list_all (\<lambda>u. u < 0x10000) us"

lemma code_units_okD: "code_units_ok us \<Longrightarrow> \<forall>u \<in> set us. u < 0x10000"
  by (simp add: code_units_ok_def list_all_iff)

lemma StringCodeUnits_inverse:
  assumes "code_units_ok us"
  shows "StringCodeUnits (StringFromCodeUnits us) = us"
proof -
  have "\<forall>u \<in> set us. u \<le> 0x10FFFF" using code_units_okD [OF assms] by fastforce
  then show ?thesis
    using code_units_okD [OF assms]
    by (simp add: StringFromCodeUnits_spell StringCodeUnits_spell code_points_range concat_units_of)
qed

section \<open>Joining pieces\<close>

lemma pair_not_surrogate:
  assumes "high_surrogate u" and "low_surrogate v"
  shows "\<not> high_surrogate (DecodeRune u v)" and "\<not> low_surrogate (DecodeRune u v)"
  using DecodeRune_range(1) [OF assms] by (simp_all add: surrogate_defs)

lemma low_not_high: "low_surrogate v \<Longrightarrow> \<not> high_surrogate v"
  by (simp add: surrogate_defs)

lemma code_points_Cons_not_high: "\<not> high_surrogate u \<Longrightarrow> code_points (u # us) = u # code_points us"
  by (cases us) simp_all

lemma code_points_code_points:
  "code_points (u # code_points us) = code_points (u # us) \<and> code_points (code_points us) = code_points us"
proof (induction us arbitrary: u rule: code_points.induct)
  case (3 a b w)
  show ?case
  proof (cases "high_surrogate a \<and> low_surrogate b")
    case True
    then have "code_points (a # b # w) = DecodeRune a b # code_points w" by simp
    moreover have "\<not> low_surrogate a" using True low_not_high by blast
    ultimately show ?thesis
      using True 3(1) by (simp add: pair_not_surrogate code_points_Cons_not_high)
  next
    case False
    then have "code_points (a # b # w) = a # code_points (b # w)" by auto
    then show ?thesis
      using False 3(2) [OF False] by (cases "high_surrogate u \<and> low_surrogate a") auto
  qed
qed simp_all

lemma code_points_append: "code_points (code_points us @ code_points vs) = code_points (us @ vs)"
proof (induction us rule: code_points.induct)
  case (3 a b w)
  show ?case
  proof (cases "high_surrogate a \<and> low_surrogate b")
    case True
    then show ?thesis
      using 3(1) by (simp add: pair_not_surrogate code_points_Cons_not_high)
  next
    case False
    let ?rest = "code_points (b # w) @ code_points vs"
    have "code_points (a # ?rest) = code_points (a # code_points ?rest)"
      by (simp add: code_points_code_points)
    also have "\<dots> = code_points (a # (b # w) @ vs)"
      using 3(2) [OF False] by (simp only: code_points_code_points)
    finally show ?thesis using False by auto
  qed
qed (simp_all add: code_points_code_points)

lemma decodeStringRune_Nil: "decodeStringRune [] = (RuneError, 0)"
  by (simp add: decodeStringRune_def DecodeRuneInString_def)

lemma combine_loop_spell:
  "\<forall>r \<in> set rs. r \<le> 0x10FFFF \<Longrightarrow> combine_loop (spell rs) = spell (code_points rs)"
proof (induction rs rule: code_points.induct)
  case 1
  then show ?case by (simp add: combine_loop.simps)
next
  case (2 u)
  then have "decodeStringRune (wtf8 u) = (u, length (wtf8 u))" using decode_wtf8 [of u "[]"] by simp
  then show ?case
    by (simp add: combine_loop.simps [of "wtf8 u"] combine_loop.simps [of "[]"] decodeStringRune_Nil
        RuneError_def low_surrogate_def)
next
  case (3 u v us)
  have "decodeStringRune (wtf8 u @ wtf8 v @ spell us) = (u, length (wtf8 u))"
    "decodeStringRune (wtf8 v @ spell us) = (v, length (wtf8 v))"
    using 3(3) decode_wtf8 [of u "wtf8 v @ spell us"] decode_wtf8 [of v "spell us"] by simp_all
  then show ?case
    using 3 by (simp add: combine_loop.simps [of "wtf8 u @ wtf8 v @ spell us"] wtf8_DecodeRune)
qed

lemma wtf8_surrogate_byte:
  assumes "surrogate r"
  shows "char_of (0xED :: nat) \<in> set (wtf8 r)"
proof -
  have "r div 4096 = 13" using assms by (auto simp: surrogate_def)
  with assms show ?thesis by (simp add: wtf8_def three_bytes_def)
qed

lemma code_points_no_high: "\<forall>r \<in> set rs. \<not> high_surrogate r \<Longrightarrow> code_points rs = rs"
  by (induction rs rule: code_points.induct) auto

lemma CombineSurrogatePairs_spell:
  assumes "\<forall>r \<in> set rs. r \<le> 0x10FFFF"
  shows "CombineSurrogatePairs (spell rs) = spell (code_points rs)"
proof (cases "char_of (0xED :: nat) \<in> set (spell rs)")
  case True
  then show ?thesis using assms by (simp add: CombineSurrogatePairs_def combine_loop_spell)
next
  case False
  then have "\<not> surrogate r" if "r \<in> set rs" for r
    using that wtf8_surrogate_byte by (auto simp: spell_def)
  then have "\<forall>r \<in> set rs. \<not> high_surrogate r" by (fastforce simp: surrogate_defs)
  then show ?thesis using False by (simp add: CombineSurrogatePairs_def code_points_no_high)
qed

lemma CombineSurrogatePairs_append:
  assumes "code_units_ok us" and "code_units_ok vs"
  shows "CombineSurrogatePairs (StringFromCodeUnits us @ StringFromCodeUnits vs) = StringFromCodeUnits (us @ vs)"
proof -
  have "\<forall>u \<in> set us. u \<le> 0x10FFFF" "\<forall>u \<in> set vs. u \<le> 0x10FFFF"
    using assms [THEN code_units_okD] by fastforce+
  then have "\<forall>r \<in> set (code_points us @ code_points vs). r \<le> 0x10FFFF"
    using code_points_range by auto
  then have "CombineSurrogatePairs (spell (code_points us @ code_points vs)) = spell (code_points (us @ vs))"
    by (simp only: CombineSurrogatePairs_spell code_points_append)
  then show ?thesis by (simp add: StringFromCodeUnits_spell)
qed

section \<open>Comparison\<close>

lemma compare_lists_same [simp]: "compare_lists f xs xs = 0"
  by (induction xs) simp_all

lemma compare_lists_prefix: "compare_lists f (ps @ xs) (ps @ ys) = compare_lists f xs ys"
  by (induction ps) simp_all

lemma div_mod_less:
  assumes "x < (y :: nat)"
  shows "x div n < y div n \<or> x div n = y div n \<and> x mod n < y mod n"
  using assms by (metis div_le_mono div_mult_mod_eq le_neq_implies_less less_imp_le nat_add_left_cancel_less)

text \<open>The bytes of two code units of the basic plane already order them.\<close>

lemma compare_wtf8_less:
  assumes "x < y" and "y < 0x10000"
  shows "compare_lists of_char (wtf8 x @ s) (wtf8 y @ t) = - 1 \<and> compare_lists of_char (wtf8 y @ t) (wtf8 x @ s) = 1"
proof -
  have three: "wtf8 r = three_bytes r" if "0x800 \<le> r" "r < 0x10000" for r
    using that by (simp add: wtf8_def WriteRune_def)
  have 16: "r div 4096 < 16" if "r < 0x10000" for r :: nat using that by auto
  have lt: "(r :: nat) mod 64 < 64" for r by simp
  have byte: "(0x80 + r mod 64) mod 256 = 0x80 + (r :: nat) mod 64" for r using lt [of r] by simp
  consider "x < 0x80" "0x800 \<le> y" | "x < 0x80" "0x80 \<le> y" "y < 0x800" | "y < 0x80" | "0x80 \<le> x" "y < 0x800"
    | "0x80 \<le> x" "x < 0x800" "0x800 \<le> y" | "0x800 \<le> x"
    using assms by linarith
  then show ?thesis
  proof cases
    case 1
    then show ?thesis using three [of y] 16 [of y] assms
      by (simp add: wtf8_def [of x] WriteRune_def [of x] surrogate_def three_bytes_def)
  next
    case 2
    moreover have "y div 64 < 32" using 2 by auto
    ultimately show ?thesis by (simp add: wtf8_def WriteRune_def surrogate_def)
  next
    case 3
    then show ?thesis using assms by (simp add: wtf8_def WriteRune_def surrogate_def)
  next
    case 4
    then have d: "y div 64 < 32" "x div 64 < 32" using assms(1) by auto
    have "wtf8 r = [char_of (0xC0 + r div 64), char_of (0x80 + r mod 64)]" if "0x80 \<le> r" "r < 0x800" for r
      using that by (simp add: wtf8_def WriteRune_def surrogate_def)
    then have "wtf8 x = [char_of (0xC0 + x div 64), char_of (0x80 + x mod 64)]"
      "wtf8 y = [char_of (0xC0 + y div 64), char_of (0x80 + y mod 64)]" using 4 assms(1) by simp_all
    then show ?thesis using d div_mod_less [OF assms(1), of 64] lt [of x] lt [of y]
      by (elim disjE conjE) (simp_all add: byte)
  next
    case 5
    moreover have "x div 64 < 32" using 5 by auto
    ultimately show ?thesis using three [of y] 16 [of y] assms(2)
      by (simp add: wtf8_def [of x] WriteRune_def [of x] surrogate_def three_bytes_def)
  next
    case 6
    have "x div 64 div 64 = x div 4096" "y div 64 div 64 = y div 4096" by (simp_all add: div_mult2_eq [symmetric])
    then have "x div 4096 < y div 4096 \<or> x div 4096 = y div 4096 \<and>
        (x div 64 mod 64 < y div 64 mod 64 \<or> x div 64 mod 64 = y div 64 mod 64 \<and> x mod 64 < y mod 64)"
      using div_mod_less [OF assms(1), of 64] div_mod_less [of "x div 64" "y div 64" 64] by auto
    then show ?thesis
      using 6 assms three [of x] three [of y] 16 [of x] 16 [of y] lt [of x] lt [of y] lt [of "x div 64"] lt [of "y div 64"]
      by (elim disjE conjE) (simp_all add: three_bytes_def byte)
  qed
qed

lemma compare_spell:
  assumes "\<forall>r \<in> set rs. r < 0x10000" and "\<forall>r \<in> set qs. r < 0x10000"
  shows "compare_lists of_char (spell rs) (spell qs) = compare_lists id rs qs"
  using assms
proof (induction "id :: nat \<Rightarrow> nat" rs qs rule: compare_lists.induct)
  case (2 y ys)
  then show ?case by (cases "wtf8 y") simp_all
next
  case (3 x xs)
  then show ?case by (cases "wtf8 x") simp_all
next
  case (4 x xs y ys)
  then show ?case
    using compare_wtf8_less [of x y] compare_wtf8_less [of y x]
    by (cases x y rule: linorder_cases) (simp_all add: compare_lists_prefix)
qed simp

lemma wtf8_astral_byte:
  assumes "0x10000 \<le> r" and "r \<le> 0x10FFFF"
  shows "hasAstralCharacter (wtf8 r)"
proof -
  have "r div 262144 < 5" using assms by auto
  with assms show ?thesis by (simp add: hasAstralCharacter_def wtf8_def surrogate_def WriteRune_def)
qed

lemma code_points_no_pair:
  "\<forall>r \<in> set (code_points us). r < 0x10000 \<Longrightarrow> code_points us = us"
  by (induction us rule: code_points.induct) (auto dest: DecodeRune_range(1) split: if_splits)

lemma no_astral_spell:
  assumes "code_units_ok us" and "\<not> hasAstralCharacter (StringFromCodeUnits us)"
  shows "StringFromCodeUnits us = spell us"
proof -
  have "\<forall>u \<in> set us. u \<le> 0x10FFFF" using code_units_okD [OF assms(1)] by fastforce
  then have le: "\<forall>r \<in> set (code_points us). r \<le> 0x10FFFF" by (rule code_points_range)
  have "r < 0x10000" if "r \<in> set (code_points us)" for r
  proof (rule ccontr)
    assume "\<not> r < 0x10000"
    then have "hasAstralCharacter (wtf8 r)" using wtf8_astral_byte that le by simp
    then have "hasAstralCharacter (spell (code_points us))"
      using that by (auto simp: hasAstralCharacter_def spell_def)
    then show False using assms(2) by (simp add: StringFromCodeUnits_spell)
  qed
  then have "code_points us = us" by (intro code_points_no_pair) blast
  then show ?thesis by (simp add: StringFromCodeUnits_spell)
qed

text \<open>Claim C16.  \<open>CompareStrings\<close> orders strings as JavaScript's relational operators do, code unit
  by code unit and the shorter first, although it decides the common case on the bytes of the
  UTF-8 spelling; with the surrogates of a character outside the basic plane ranking below
  \<open>U+E000\<close>.\<close>

theorem CompareStrings_code_units:
  assumes "code_units_ok us" and "code_units_ok vs"
  shows "CompareStrings (StringFromCodeUnits us) (StringFromCodeUnits vs) = compare_lists id us vs"
proof (cases "StringFromCodeUnits us = StringFromCodeUnits vs")
  case True
  then have "us = vs" using StringCodeUnits_inverse assms by metis
  then show ?thesis by (simp add: CompareStrings_def)
next
  case False
  then show ?thesis
    using assms [THEN code_units_okD] assms
    by (simp add: CompareStrings_def StringCodeUnits_inverse no_astral_spell compare_spell)
qed

theorem CompareStrings_witness:
  "CompareStrings (StringFromCodeUnits [0xD83D, 0xDE00]) (StringFromCodeUnits [0xFF5E]) = - 1"
  using CompareStrings_code_units [of "[0xD83D, 0xDE00]" "[0xFF5E]"] by (simp add: code_units_ok_def)

text \<open>Claim C17.  A JavaScript string survives the trip through bytes: its code units are read back
  from the spelling that was written, the count and the rune slice agree with them, and two
  separately written pieces are joined into the spelling of their concatenation.\<close>

theorem code_units_roundtrip:
  assumes "code_units_ok us" and "code_units_ok vs"
  shows "StringCodeUnits (StringFromCodeUnits us) = us \<and>
    StringCodeUnitRunes (StringFromCodeUnits us) = us \<and>
    StringCodeUnitCount (StringFromCodeUnits us) = length us \<and>
    CombineSurrogatePairs (StringFromCodeUnits us @ StringFromCodeUnits vs) = StringFromCodeUnits (us @ vs)"
  using assms by (simp_all add: StringCodeUnits_inverse StringCodeUnitRunes_eq StringCodeUnitCount_eq
      CombineSurrogatePairs_append)

theorem code_units_roundtrip_witness:
  "CombineSurrogatePairs (StringFromCodeUnits [0x61, 0xD83D] @ StringFromCodeUnits [0xDE00]) =
     StringFromCodeUnits [0x61, 0xD83D, 0xDE00]"
  using code_units_roundtrip [of "[0x61, 0xD83D]" "[0xDE00]"] by (simp add: code_units_ok_def)

end
