(* ===== verification/Braces.thy ===== *)
theory Braces
  imports Text
begin

text \<open>
  Brace expansion, \<^verbatim>\<open>internal/utils/minimatch3/balanced.go\<close> and \<^verbatim>\<open>brace_expand.go\<close>.  The loop of
  \<open>balancedRange\<close> runs with fuel (one step per byte is enough, as is shown for the braces it is
  used with).  The members of a \<open>{x..y}\<close> sequence are counted in float64 arithmetic, which is not
  modelled: \<open>expandSequence\<close> is a parameter of the expansion.
\<close>

section \<open>Balanced pairs\<close>

record balancedMatch =
  bm_pre :: string
  bm_body :: string
  bm_post :: string

definition indexFrom :: "string \<Rightarrow> string \<Rightarrow> int \<Rightarrow> int" where
  "indexFrom str substr offset0 =
     (let offset = (if offset0 < 0 then 0 else offset0)
      in if int (length str) < offset then - 1
         else case str_index (drop (nat offset) str) substr of
                None \<Rightarrow> - 1
              | Some index \<Rightarrow> int index + offset)"

text \<open>The variables of the scan; \<open>b_begs\<close> holds the open positions with the last one first.\<close>

record balance =
  b_i :: int
  b_ai :: int
  b_bi :: int
  b_begs :: "int list"
  b_left :: int
  b_right :: int
  b_found :: bool

definition balance_step :: "string \<Rightarrow> string \<Rightarrow> string \<Rightarrow> balance \<Rightarrow> balance" where
  "balance_step opener closer str st =
     (let i = b_i st;
          st1 = (if i = b_ai st
                 then st\<lparr>b_begs := i # b_begs st, b_ai := indexFrom str opener (i + 1)\<rparr>
                 else case b_begs st of
                   [b] \<Rightarrow> st\<lparr>b_left := b, b_right := b_bi st, b_begs := [], b_found := True\<rparr>
                 | beg # begs \<Rightarrow>
                     (let st0 = st\<lparr>b_begs := begs\<rparr>;
                          st2 = (if beg < b_left st then st0\<lparr>b_left := beg, b_right := b_bi st\<rparr> else st0)
                      in st2\<lparr>b_bi := indexFrom str closer (i + 1)\<rparr>)
                 | [] \<Rightarrow> st)
      in st1\<lparr>b_i := (if b_ai st1 < b_bi st1 \<and> 0 \<le> b_ai st1 then b_ai st1 else b_bi st1)\<rparr>)"

fun balance_loop :: "nat \<Rightarrow> string \<Rightarrow> string \<Rightarrow> string \<Rightarrow> balance \<Rightarrow> balance option" where
  "balance_loop fuel opener closer str st =
     (if 0 \<le> b_i st \<and> \<not> b_found st
      then case fuel of 0 \<Rightarrow> None
           | Suc k \<Rightarrow> balance_loop k opener closer str (balance_step opener closer str st)
      else Some st)"

declare balance_loop.simps [simp del]

definition balancedRange :: "string \<Rightarrow> string \<Rightarrow> string \<Rightarrow> (int \<times> int) option" where
  "balancedRange opener closer str =
     (let ai = indexFrom str opener 0; bi = indexFrom str closer (ai + 1)
      in if ai < 0 \<or> bi \<le> 0 then None
         else case balance_loop (Suc (length str)) opener closer str
                \<lparr>b_i = ai, b_ai = ai, b_bi = bi, b_begs = [], b_left = int (length str), b_right = 0, b_found = False\<rparr> of
           None \<Rightarrow> None
         | Some st \<Rightarrow> if b_found st \<or> b_begs st \<noteq> [] then Some (b_left st, b_right st) else None)"

definition findBalanced :: "string \<Rightarrow> string \<Rightarrow> string \<Rightarrow> balancedMatch option" where
  "findBalanced opener closer str =
     (case balancedRange opener closer str of
        None \<Rightarrow> None
      | Some (start, stop) \<Rightarrow>
          Some \<lparr>bm_pre = take (nat start) str,
                bm_body = (if start + int (length opener) \<le> stop
                           then take (nat stop - nat (start + int (length opener))) (drop (nat (start + int (length opener))) str)
                           else []),
                bm_post = (if stop + int (length closer) \<le> int (length str)
                           then drop (nat (stop + int (length closer))) str else [])\<rparr>)"

section \<open>Escapes\<close>

definition nul :: char where "nul = char_of (0 :: nat)"

definition backslash :: char where "backslash = char_of (0x5C :: nat)"

definition escSlash :: string where "escSlash = nul # ''SLASH'' @ [nul]"
definition escOpen :: string where "escOpen = nul # ''OPEN'' @ [nul]"
definition escClose :: string where "escClose = nul # ''CLOSE'' @ [nul]"
definition escComma :: string where "escComma = nul # ''COMMA'' @ [nul]"
definition escPeriod :: string where "escPeriod = nul # ''PERIOD'' @ [nul]"

text \<open>\<open>strings.NewReplacer(pairs...).Replace(s)\<close> for pairs whose first string is not empty: the first
  pair that applies at a position wins.\<close>

function go_replace :: "(string \<times> string) list \<Rightarrow> string \<Rightarrow> string" where
  "go_replace pairs [] = []"
| "go_replace pairs (c # s) =
     (case find (\<lambda>p. fst p \<noteq> [] \<and> has_prefix (c # s) (fst p)) pairs of
        Some (old, new) \<Rightarrow> new @ go_replace pairs (drop (length old - 1) s)
      | None \<Rightarrow> c # go_replace pairs s)"
  by pat_completeness auto
termination by (relation "measure (\<lambda>(pairs, s). length s)") auto

definition escapeReplacer :: "(string \<times> string) list" where
  "escapeReplacer = [([backslash, backslash], escSlash), ([backslash, CHR ''{''], escOpen),
     ([backslash, CHR ''}''], escClose), ([backslash, CHR '',''], escComma), ([backslash, CHR ''.''], escPeriod)]"

definition unescapeReplacer :: "(string \<times> string) list" where
  "unescapeReplacer = [(escSlash, [backslash]), (escOpen, ''{''), (escClose, ''}''), (escComma, '',''),
     (escPeriod, ''.'')]"

definition escapeBraces :: "string \<Rightarrow> string" where
  "escapeBraces str = go_replace escapeReplacer str"

definition unescapeBraces :: "string \<Rightarrow> string" where
  "unescapeBraces str = go_replace unescapeReplacer str"

section \<open>Sequences\<close>

definition isDigit :: "char \<Rightarrow> bool" where
  "isDigit c = (48 \<le> (of_char c :: nat) \<and> of_char c \<le> (57 :: nat))"

definition isAlpha :: "char \<Rightarrow> bool" where
  "isAlpha c = (97 \<le> (of_char c :: nat) \<and> of_char c \<le> (122 :: nat)
     \<or> 65 \<le> (of_char c :: nat) \<and> of_char c \<le> (90 :: nat))"

definition isInteger :: "string \<Rightarrow> bool" where
  "isInteger str0 = (let str = trim_prefix str0 ''-'' in str \<noteq> [] \<and> list_all isDigit str)"

text \<open>\<open>strings.Split(s, "..")\<close>.\<close>

fun split_dots :: "string \<Rightarrow> string list" where
  "split_dots [] = [[]]"
| "split_dots [c] = [[c]]"
| "split_dots (c # d # s) =
     (if c = CHR ''.'' \<and> d = CHR ''.'' then [] # split_dots s
      else case split_dots (d # s) of [] \<Rightarrow> [[c]] | p # ps \<Rightarrow> (c # p) # ps)"

definition isNumericSequence :: "string \<Rightarrow> bool" where
  "isNumericSequence body =
     (let parts = split_dots body
      in (length parts = 2 \<or> length parts = 3) \<and> list_all isInteger parts)"

definition isAlphaSequence :: "string \<Rightarrow> bool" where
  "isAlphaSequence body =
     (let parts = split_dots body
      in (length parts = 2 \<or> length parts = 3)
         \<and> length (parts ! 0) = 1 \<and> isAlpha (hd (parts ! 0))
         \<and> length (parts ! 1) = 1 \<and> isAlpha (hd (parts ! 1))
         \<and> (length parts = 2 \<or> isInteger (parts ! 2)))"

text \<open>\<open>rest[:strings.IndexAny(rest, ecmascript.LineTerminators)]\<close>, the whole of \<open>rest\<close> when there is none.\<close>

function first_line :: "string \<Rightarrow> string" where
  "first_line s =
     (if s = [] then []
      else let (r, n) = DecodeRuneInString s
           in if IsLineTerminator r then [] else take n s @ first_line (drop n s))"
  by auto
termination
  by (relation "measure length") (auto dest: DecodeRune_size [OF sym])

declare first_line.simps [simp del]

fun hasCommaBeforeBrace :: "string \<Rightarrow> bool" where
  "hasCommaBeforeBrace [] = False"
| "hasCommaBeforeBrace (c # rest) =
     (if c = CHR '','' \<and> \<not> has_prefix rest '','' \<and> CHR ''}'' \<in> set (first_line rest) then True
      else hasCommaBeforeBrace rest)"

section \<open>The scan for a balanced pair, byte by byte\<close>

abbreviation lbrace :: char where "lbrace \<equiv> CHR ''{''"
abbreviation rbrace :: char where "rbrace \<equiv> CHR ''}''"

text \<open>What \<open>balancedRange\<close> computes with its jumps from brace to brace.\<close>

fun bscan :: "string \<Rightarrow> nat \<Rightarrow> nat list \<Rightarrow> nat \<Rightarrow> nat \<Rightarrow> nat \<times> nat" where
  "bscan [] p begs l r = (l, r)"
| "bscan (c # s) p begs l r =
     (if c = lbrace then bscan s (Suc p) (p # begs) l r
      else if c = rbrace
      then (case begs of
              [] \<Rightarrow> (l, r)
            | [b] \<Rightarrow> (b, p)
            | b # bs \<Rightarrow> (if b < l then bscan s (Suc p) bs b p else bscan s (Suc p) bs l r))
      else bscan s (Suc p) begs l r)"

definition idx :: "char \<Rightarrow> string \<Rightarrow> nat \<Rightarrow> int" where
  "idx c str k = (if c \<in> set (drop k str) then int (k + length (takeWhile (\<lambda>x. x \<noteq> c) (drop k str))) else - 1)"

lemma str_index_char:
  "str_index s [c] = (if c \<in> set s then Some (length (takeWhile (\<lambda>x. x \<noteq> c) s)) else None)"
proof (induction s)
  case Nil
  then show ?case by (simp add: str_index.simps has_prefix_def)
next
  case (Cons x s)
  then show ?case by (auto simp: str_index.simps [of "x # s"] has_prefix_def)
qed

lemma indexFrom_idx: "k \<le> length str \<Longrightarrow> indexFrom str [c] (int k) = idx c str k"
  by (auto simp: indexFrom_def idx_def str_index_char)

lemma idx_end [simp]: "drop k str = [] \<Longrightarrow> idx c str k = - 1"
  by (simp add: idx_def)

lemma drop_Cons_Suc: "drop k str = c # s \<Longrightarrow> drop (Suc k) str = s \<and> k < length str \<and> str ! k = c"
  by (metis drop_Suc drop_eq_Nil linorder_not_le list.discI list.sel(3) nth_via_drop tl_drop)

lemma idx_here: "drop k str = c # s \<Longrightarrow> idx c str k = int k"
  by (simp add: idx_def)

lemma idx_skip:
  assumes "drop k str = d # s" and "d \<noteq> c"
  shows "idx c str k = idx c str (Suc k)"
proof -
  have "drop (Suc k) str = s" using drop_Cons_Suc [OF assms(1)] by simp
  then show ?thesis using assms by (auto simp: idx_def)
qed

lemma idx_ge: "idx c str k = - 1 \<or> int k \<le> idx c str k"
  by (auto simp: idx_def)

lemma idx_none_iff: "idx c str k = - 1 \<longleftrightarrow> c \<notin> set (drop k str)"
  by (auto simp: idx_def)

lemma bscan_no_close: "rbrace \<notin> set s \<Longrightarrow> bscan s p begs l r = (l, r)"
  by (induction s arbitrary: p begs) auto

definition pick :: "int \<Rightarrow> int \<Rightarrow> int" where
  "pick ai bi = (if ai < bi \<and> 0 \<le> ai then ai else bi)"

definition at_pos :: "string \<Rightarrow> nat \<Rightarrow> nat list \<Rightarrow> nat \<Rightarrow> nat \<Rightarrow> balance" where
  "at_pos str k begs l r =
     \<lparr>b_i = pick (idx lbrace str k) (idx rbrace str k), b_ai = idx lbrace str k, b_bi = idx rbrace str k,
      b_begs = map int begs, b_left = int l, b_right = int r, b_found = False\<rparr>"

definition outcome :: "balance \<Rightarrow> (int \<times> int) option" where
  "outcome st = (if b_found st \<or> b_begs st \<noteq> [] then Some (b_left st, b_right st) else None)"

lemma at_pos_not_found [simp]: "\<not> b_found (at_pos str k begs l r)"
  by (simp add: at_pos_def)

lemma balance_loop_Suc:
  "0 \<le> b_i st \<Longrightarrow> \<not> b_found st \<Longrightarrow>
     balance_loop (Suc n) opener closer str st = balance_loop n opener closer str (balance_step opener closer str st)"
  by (simp add: balance_loop.simps [of "Suc n"])

lemma balance_loop_stop: "b_i st < 0 \<or> b_found st \<Longrightarrow> balance_loop n opener closer str st = Some st"
  by (auto simp: balance_loop.simps [of n])

lemma step_open:
  assumes "drop k str = lbrace # s" and "rbrace \<in> set s"
  shows "balance_step ''{'' ''}'' str (at_pos str k begs l r) = at_pos str (Suc k) (k # begs) l r"
proof -
  have d: "drop (Suc k) str = s" "k < length str" using drop_Cons_Suc [OF assms(1)] by simp_all
  have bi: "idx rbrace str k = idx rbrace str (Suc k)" using idx_skip [OF assms(1)] by simp
  have "int (Suc k) \<le> idx rbrace str (Suc k)" using idx_ge idx_none_iff d(1) assms(2) by metis
  moreover have "indexFrom str ''{'' (int k + 1) = idx lbrace str (Suc k)"
    using indexFrom_idx [of "Suc k" str lbrace] d(2) by (simp add: add.commute)
  ultimately show ?thesis
    by (simp add: balance_step_def Let_def at_pos_def pick_def idx_here [OF assms(1)] bi)
qed

lemma step_close:
  assumes "drop k str = rbrace # s"
  shows "b_i (at_pos str k begs l r) = int k"
    and "balance_step ''{'' ''}'' str (at_pos str k (b # b' # bs) l r) =
      at_pos str (Suc k) (b' # bs) (if b < l then b else l) (if b < l then k else r)"
    and "outcome (balance_step ''{'' ''}'' str (at_pos str k [b] l r)) = Some (int b, int k)"
    and "b_found (balance_step ''{'' ''}'' str (at_pos str k [b] l r))"
proof -
  have d: "drop (Suc k) str = s" "k < length str" using drop_Cons_Suc [OF assms(1)] by simp_all
  have ai: "idx lbrace str k = idx lbrace str (Suc k)" using idx_skip [OF assms(1)] by simp
  have far: "idx lbrace str (Suc k) = - 1 \<or> int k < idx lbrace str (Suc k)" using idx_ge [of lbrace str "Suc k"] by auto
  have here: "idx rbrace str k = int k" using idx_here [OF assms(1)] .
  have next_close: "indexFrom str ''}'' (int k + 1) = idx rbrace str (Suc k)"
    using indexFrom_idx [of "Suc k" str rbrace] d(2) by (simp add: add.commute)
  show "b_i (at_pos str k begs l r) = int k" using far by (auto simp: at_pos_def pick_def ai here)
  show "balance_step ''{'' ''}'' str (at_pos str k (b # b' # bs) l r) =
      at_pos str (Suc k) (b' # bs) (if b < l then b else l) (if b < l then k else r)"
    using far by (auto simp: balance_step_def Let_def at_pos_def pick_def ai here next_close)
  show "outcome (balance_step ''{'' ''}'' str (at_pos str k [b] l r)) = Some (int b, int k)"
    and "b_found (balance_step ''{'' ''}'' str (at_pos str k [b] l r))"
    using far by (auto simp: balance_step_def Let_def at_pos_def pick_def ai here outcome_def)
qed

lemma balance_loop_bscan:
  assumes "drop k str = rest" and "begs \<noteq> []" and "length rest \<le> fuel"
  shows "\<exists>st. balance_loop fuel ''{'' ''}'' str (at_pos str k begs l r) = Some st \<and>
      outcome st = Some (int (fst (bscan rest k begs l r)), int (snd (bscan rest k begs l r)))"
  using assms
proof (induction rest arbitrary: k begs l r fuel)
  case Nil
  then show ?case
    by (simp add: balance_loop_stop at_pos_def pick_def outcome_def)
next
  case (Cons c s)
  then obtain n where fuel: "fuel = Suc n" "length s \<le> n" by (cases fuel) auto
  have d: "drop (Suc k) str = s" using drop_Cons_Suc [OF Cons.prems(1)] by simp
  consider "c = lbrace" "rbrace \<in> set s" | "c = lbrace" "rbrace \<notin> set s" | "c = rbrace" "length begs = 1"
    | "c = rbrace" "1 < length begs" | "c \<noteq> lbrace" "c \<noteq> rbrace"
    using Cons.prems(2) by (cases begs) fastforce+
  then show ?case
  proof cases
    case 1
    have "0 \<le> b_i (at_pos str k begs l r)" using Cons.prems(1) 1
      by (auto simp: at_pos_def pick_def idx_here idx_def)
    then have "balance_loop fuel ''{'' ''}'' str (at_pos str k begs l r) =
        balance_loop n ''{'' ''}'' str (at_pos str (Suc k) (k # begs) l r)"
      using step_open [of k str s] Cons.prems(1) 1 fuel(1)
      by (simp add: balance_loop_Suc)
    then show ?thesis using Cons.IH [OF d, of "k # begs" n l r] 1 fuel by simp
  next
    case 2
    then have "idx rbrace str k = - 1" using Cons.prems(1) by (simp add: idx_none_iff)
    moreover have "idx lbrace str k = int k" using idx_here Cons.prems(1) 2 by blast
    ultimately show ?thesis
      using 2 Cons.prems(2)
      by (simp add: balance_loop_stop at_pos_def pick_def outcome_def bscan_no_close)
  next
    case 3
    then obtain b where "begs = [b]" by (cases begs) auto
    then show ?thesis
      using step_close(1,3,4) [of k str s] Cons.prems(1) 3 fuel(1)
      by (simp add: balance_loop_Suc balance_loop_stop)
  next
    case 4
    then obtain b b' bs where begs: "begs = b # b' # bs" by (cases begs; cases "tl begs") auto
    have "balance_loop fuel ''{'' ''}'' str (at_pos str k begs l r) =
        balance_loop n ''{'' ''}'' str (at_pos str (Suc k) (b' # bs) (if b < l then b else l) (if b < l then k else r))"
      using step_close(1,2) [of k str s] Cons.prems(1) 4 fuel(1) begs
      by (simp add: balance_loop_Suc)
    then show ?thesis
      using Cons.IH [OF d, of "b' # bs" n "if b < l then b else l" "if b < l then k else r"] 4 fuel begs by auto
  next
    case 5
    then have "at_pos str k begs l r = at_pos str (Suc k) begs l r"
      using idx_skip [OF Cons.prems(1)] by (simp add: at_pos_def)
    then show ?thesis using Cons.IH [OF d, of begs fuel l r] Cons.prems 5 by simp
  qed
qed

lemma balancedRange_eq:
  assumes "str = pre @ lbrace # s" and "lbrace \<notin> set pre"
  shows "balancedRange ''{'' ''}'' str =
    (if rbrace \<in> set s
     then (case bscan s (Suc (length pre)) [length pre] (length str) 0 of (l, r) \<Rightarrow> Some (int l, int r))
     else None)"
proof -
  let ?k = "length pre"
  have d: "drop ?k str = lbrace # s" "drop (Suc ?k) str = s" using assms(1) by simp_all
  have tw: "takeWhile (\<lambda>x. x \<noteq> lbrace) str = pre"
    using assms by (auto simp: takeWhile_append)
  have ai: "indexFrom str ''{'' 0 = int ?k"
    using indexFrom_idx [of 0 str lbrace] tw assms(1) by (simp add: idx_def)
  have bi: "indexFrom str ''}'' (int ?k + 1) = idx rbrace str (Suc ?k)"
    using indexFrom_idx [of "Suc ?k" str rbrace] assms(1) by (simp add: add.commute)
  show ?thesis
  proof (cases "rbrace \<in> set s")
    case False
    then have "idx rbrace str (Suc ?k) = - 1" using d(2) by (simp add: idx_none_iff)
    with False show ?thesis by (simp add: balancedRange_def ai bi)
  next
    case True
    then have far: "int (Suc ?k) \<le> idx rbrace str (Suc ?k)" using idx_ge idx_none_iff d(2) by metis
    have same: "idx rbrace str ?k = idx rbrace str (Suc ?k)" using idx_skip [OF d(1)] by simp
    have start: "at_pos str ?k [] (length str) 0 =
        \<lparr>b_i = int ?k, b_ai = int ?k, b_bi = idx rbrace str (Suc ?k), b_begs = [], b_left = int (length str),
         b_right = 0, b_found = False\<rparr>"
      using far by (simp add: at_pos_def pick_def same idx_here [OF d(1)])
    have "balance_loop (Suc (length str)) ''{'' ''}'' str (at_pos str ?k [] (length str) 0) =
        balance_loop (length str) ''{'' ''}'' str (at_pos str (Suc ?k) [?k] (length str) 0)"
      using step_open [OF d(1) True, of "[]" "length str" 0] start balance_loop_Suc [of "at_pos str ?k [] (length str) 0"] by simp
    moreover obtain st where
      "balance_loop (length str) ''{'' ''}'' str (at_pos str (Suc ?k) [?k] (length str) 0) = Some st"
      "outcome st = Some (int (fst (bscan s (Suc ?k) [?k] (length str) 0)), int (snd (bscan s (Suc ?k) [?k] (length str) 0)))"
      using balance_loop_bscan [OF d(2), of "[?k]" "length str" "length str" 0] assms(1) by auto
    ultimately show ?thesis
      using True far by (simp add: balancedRange_def ai bi start [symmetric] outcome_def split: prod.split)
  qed
qed

lemma balancedRange_no_open: "lbrace \<notin> set str \<Longrightarrow> balancedRange ''{'' ''}'' str = None"
  using indexFrom_idx [of 0 str lbrace] by (simp add: balancedRange_def idx_def)

text \<open>The positions found are those of an opening brace and a later closing one.\<close>

lemma bscan_pair:
  assumes "drop k str = rest" and "\<forall>b \<in> set begs. b < k \<and> str ! b = lbrace"
    and "l < r \<and> r < length str \<and> str ! l = lbrace \<and> str ! r = rbrace \<or> rbrace \<in> set rest \<and> l = length str \<and> begs \<noteq> []"
    and "bscan rest k begs l r = (l', r')"
  shows "l' < r' \<and> r' < length str \<and> str ! l' = lbrace \<and> str ! r' = rbrace"
  using assms
proof (induction rest arbitrary: k begs l r)
  case (Cons c s)
  have d: "drop (Suc k) str = s" "k < length str" "str ! k = c" using drop_Cons_Suc [OF Cons.prems(1)] by simp_all
  consider "c = lbrace" | "c = rbrace" "begs = []" | b where "c = rbrace" "begs = [b]"
    | b b' bs where "c = rbrace" "begs = b # b' # bs" | "c \<noteq> lbrace" "c \<noteq> rbrace"
    by (cases begs; cases "tl begs") auto
  then show ?case
  proof cases
    case 1
    then have "\<forall>b \<in> set (k # begs). b < Suc k \<and> str ! b = lbrace" using Cons.prems(2) d by auto
    then show ?thesis using Cons.IH [OF d(1), of "k # begs" l r] Cons.prems 1 by auto
  next
    case 2
    then show ?thesis using Cons.prems by auto
  next
    case (3 b)
    then show ?thesis using Cons.prems d by auto
  next
    case (4 b b' bs)
    then have b: "b < k" "str ! b = lbrace" and bs: "\<forall>b \<in> set (b' # bs). b < Suc k \<and> str ! b = lbrace"
      using Cons.prems(2) by auto
    show ?thesis
    proof (cases "b < l")
      case True
      then show ?thesis
        using Cons.IH [OF d(1) bs, of b k] Cons.prems(4) 4 b d by simp
    next
      case False
      then have "l \<noteq> length str" using b(1) d(2) by simp
      then show ?thesis
        using Cons.IH [OF d(1) bs, of l r] Cons.prems(3,4) 4 False by simp
    qed
  next
    case 5
    then have "\<forall>b \<in> set begs. b < Suc k \<and> str ! b = lbrace" using Cons.prems(2) by auto
    then show ?thesis using Cons.IH [OF d(1), of begs l r] Cons.prems 5 by auto
  qed
qed auto

lemma split_at_brace:
  assumes "lbrace \<in> set str"
  obtains pre s where "str = pre @ lbrace # s" and "lbrace \<notin> set pre"
  using split_list_first [OF assms] by blast

lemma balancedRange_pair:
  assumes "balancedRange ''{'' ''}'' str = Some (start, stop)"
  shows "0 \<le> start \<and> start < stop \<and> stop < int (length str) \<and> str ! nat start = lbrace \<and> str ! nat stop = rbrace"
proof -
  have "lbrace \<in> set str" using assms balancedRange_no_open by force
  then obtain pre s where str: "str = pre @ lbrace # s" "lbrace \<notin> set pre" by (rule split_at_brace)
  obtain l r where b: "bscan s (Suc (length pre)) [length pre] (length str) 0 = (l, r)" by fastforce
  have s: "rbrace \<in> set s" using assms balancedRange_eq [OF str] by (auto split: if_splits)
  then have lr: "start = int l" "stop = int r" using assms balancedRange_eq [OF str] b by (auto split: if_splits)
  have "drop (Suc (length pre)) str = s" using str by simp
  then have "l < r \<and> r < length str \<and> str ! l = lbrace \<and> str ! r = rbrace"
    by (rule bscan_pair [OF _ _ _ b]) (use s str in auto)
  then show ?thesis using lr by simp
qed

lemma findBalanced_split:
  assumes "findBalanced ''{'' ''}'' str = Some m"
  shows "str = bm_pre m @ ''{'' @ bm_body m @ ''}'' @ bm_post m"
proof -
  obtain start stop where r: "balancedRange ''{'' ''}'' str = Some (start, stop)"
    using assms by (auto simp: findBalanced_def split: option.splits)
  define l where "l = nat start"
  define q where "q = nat stop"
  have lq: "start = int l" "stop = int q" "l < q" "q < length str" "str ! l = lbrace" "str ! q = rbrace"
    using balancedRange_pair [OF r] by (auto simp: l_def q_def)
  then have "m = \<lparr>bm_pre = take l str, bm_body = take (q - Suc l) (drop (Suc l) str), bm_post = drop (Suc q) str\<rparr>"
    using assms r by (auto simp: findBalanced_def nat_add_distrib)
  moreover have "str = take l str @ lbrace # drop (Suc l) str"
    using lq id_take_nth_drop [of l str] by simp
  moreover have "drop (Suc l) str = take (q - Suc l) (drop (Suc l) str) @ rbrace # drop (Suc q) str"
    using lq id_take_nth_drop [of "q - Suc l" "drop (Suc l) str"] by simp
  ultimately show ?thesis by simp
qed

section \<open>Balanced bodies\<close>

text \<open>Every closing brace closes one that is open, and none of the \<open>d\<close> outer ones and no inner one
  stays open.\<close>

fun bal :: "nat \<Rightarrow> string \<Rightarrow> bool" where
  "bal d [] = (d = 0)"
| "bal d (c # s) =
     (if c = lbrace then bal (Suc d) s else if c = rbrace then 0 < d \<and> bal (d - 1) s else bal d s)"

lemma bscan_balanced:
  "bal (length bs) body \<Longrightarrow>
     bscan (body @ rbrace # post) k (bs @ [a]) l r = (a, k + length body)"
proof (induction body arbitrary: k bs l r)
  case (Cons c body)
  then show ?case
  proof (cases "c = lbrace")
    case True
    then show ?thesis using Cons.IH [of "k # bs"] Cons.prems by simp
  next
    case False
    show ?thesis
    proof (cases "c = rbrace")
      case True
      then obtain b bs' where bs: "bs = b # bs'" using Cons.prems by (cases bs) auto
      then have "bal (length bs') body" using Cons.prems True by simp
      then show ?thesis using Cons.IH [of bs'] True bs by (cases bs') auto
    next
      case F: False
      then show ?thesis using Cons.IH [of bs] Cons.prems False by simp
    qed
  qed
qed simp

lemma findBalanced_balanced:
  assumes "lbrace \<notin> set pre" and "bal 0 body"
  shows "findBalanced ''{'' ''}'' (pre @ ''{'' @ body @ ''}'' @ post) =
    Some \<lparr>bm_pre = pre, bm_body = body, bm_post = post\<rparr>"
proof -
  let ?str = "pre @ ''{'' @ body @ ''}'' @ post"
  have "balancedRange ''{'' ''}'' ?str = Some (int (length pre), int (Suc (length pre) + length body))"
    using balancedRange_eq [of ?str pre "body @ ''}'' @ post"] assms
      bscan_balanced [of "[]" body post "Suc (length pre)" "length pre"] by simp
  then show ?thesis by (simp add: findBalanced_def nat_add_distrib)
qed

section \<open>Expansion\<close>

lemma findBalanced_length:
  "findBalanced ''{'' ''}'' str = Some m \<Longrightarrow>
     length (bm_post m) < length str \<and> length (bm_body m) < length str \<and> length (bm_pre m) < length str"
  by (drule findBalanced_split, drule arg_cong [of _ _ length]) simp

function parseCommaParts :: "string \<Rightarrow> string list" where
  "parseCommaParts str =
     (if str = [] then [[]]
      else case findBalanced ''{'' ''}'' str of
        None \<Rightarrow> str_split CHR '','' str
      | Some m \<Rightarrow>
          let parts = str_split CHR '','' (bm_pre m);
              parts1 = butlast parts @ [last parts @ ''{'' @ bm_body m @ ''}''];
              postParts = parseCommaParts (bm_post m)
          in if bm_post m \<noteq> []
             then butlast parts1 @ [last parts1 @ hd postParts] @ tl postParts
             else parts1)"
  by auto
termination
  by (relation "measure length") (auto dest: findBalanced_length)

declare parseCommaParts.simps [simp del]

text \<open>Splitting into members loses nothing.\<close>

lemma str_join_last: "str_join sep (ps @ [p @ q]) = str_join sep (ps @ [p]) @ q"
proof (induction ps)
  case (Cons a ps)
  then show ?case by (cases ps) simp_all
qed simp

lemma str_join_glue:
  "str_join sep (ps @ [p @ q] @ qs) = str_join sep (ps @ [p]) @ str_join sep (q # qs)"
proof (induction ps)
  case Nil
  then show ?case by (cases qs) simp_all
next
  case (Cons a ps)
  then show ?case by (simp add: str_join_Cons)
qed

lemma parseCommaParts_not_Nil [simp]: "parseCommaParts str \<noteq> []"
  by (subst parseCommaParts.simps) (auto simp: Let_def split: option.splits)

lemma str_join_parseCommaParts: "str_join '','' (parseCommaParts str) = str"
proof (induction str rule: parseCommaParts.induct)
  case (1 str)
  show ?case
  proof (cases "findBalanced ''{'' ''}'' str")
    case None
    then show ?thesis by (simp add: parseCommaParts.simps [of str] str_join_split)
  next
    case (Some m)
    let ?parts = "str_split CHR '','' (bm_pre m)"
    have str: "str = bm_pre m @ ''{'' @ bm_body m @ ''}'' @ bm_post m" by (rule findBalanced_split [OF Some])
    then have "str \<noteq> []" by (cases str) simp_all
    have parts: "str_join '','' (butlast ?parts @ [last ?parts]) = bm_pre m"
      using str_join_split [of "CHR '',''" "bm_pre m"] by simp
    show ?thesis
    proof (cases "bm_post m = []")
      case True
      then show ?thesis
        using Some \<open>str \<noteq> []\<close> parts str [symmetric]
        by (simp add: parseCommaParts.simps [of str] Let_def) (simp add: str_join_last)
    next
      case False
      have "str_join '','' (parseCommaParts (bm_post m)) = bm_post m"
        using 1(1) [OF \<open>str \<noteq> []\<close> Some refl refl] by blast
      moreover have "hd (parseCommaParts (bm_post m)) # tl (parseCommaParts (bm_post m)) = parseCommaParts (bm_post m)"
        by simp
      ultimately have post: "str_join '','' (hd (parseCommaParts (bm_post m)) # tl (parseCommaParts (bm_post m))) = bm_post m"
        by simp
      have "str_join '','' (butlast ?parts @ [(last ?parts @ ''{'' @ bm_body m @ ''}'') @ hd (parseCommaParts (bm_post m))]
          @ tl (parseCommaParts (bm_post m))) =
          str_join '','' (butlast ?parts @ [last ?parts @ ''{'' @ bm_body m @ ''}'']) @ bm_post m"
        by (simp only: str_join_glue post)
      also have "\<dots> = bm_pre m @ ''{'' @ bm_body m @ ''}'' @ bm_post m"
        by (simp only: str_join_last parts append_assoc)
      finally have "str_join '','' (butlast ?parts @ [(last ?parts @ ''{'' @ bm_body m @ ''}'') @ hd (parseCommaParts (bm_post m))]
          @ tl (parseCommaParts (bm_post m))) = bm_pre m @ ''{'' @ bm_body m @ ''}'' @ bm_post m" .
      then show ?thesis
        using Some \<open>str \<noteq> []\<close> str [symmetric] False by (simp add: parseCommaParts.simps [of str] Let_def)
    qed
  qed
qed

lemma mem_str_join: "p \<in> set ps \<Longrightarrow> count_list p x \<le> count_list (str_join sep ps) x"
proof (induction ps)
  case (Cons a ps)
  then show ?case by (cases ps) (auto simp: intro: trans_le_add2)
qed simp

lemma count_parseCommaParts: "p \<in> set (parseCommaParts str) \<Longrightarrow> count_list p x \<le> count_list str x"
  using mem_str_join [of p "parseCommaParts str" x "'',''"] by (simp add: str_join_parseCommaParts)

lemma findBalanced_count:
  assumes "findBalanced ''{'' ''}'' str = Some m"
  shows "count_list str rbrace =
    Suc (count_list (bm_pre m) rbrace + count_list (bm_body m) rbrace + count_list (bm_post m) rbrace)"
  by (subst findBalanced_split [OF assms]) simp

lemma special_chars:
  "nul \<noteq> lbrace" "nul \<noteq> rbrace" "nul \<noteq> CHR '',''" "backslash \<noteq> nul" "backslash \<noteq> lbrace" "backslash \<noteq> rbrace"
  by code_simp+

lemma escClose_no_brace [simp]: "count_list escClose rbrace = 0"
  by (simp add: escClose_def special_chars)

text \<open>\<open>expandSeq\<close> stands for \<open>expandSequence\<close>.  The call on the members of \<open>{{...}}\<close> expands what an
  expansion returned, so the recursion runs with fuel; \<^term>\<open>None\<close> is out of fuel.\<close>

type_synonym expand_seq = "string list \<Rightarrow> bool \<Rightarrow> string list"

definition combine_members :: "bool \<Rightarrow> bool \<Rightarrow> string \<Rightarrow> string list \<Rightarrow> string list \<Rightarrow> string list" where
  "combine_members isTop sequence pre members post =
     concat (map (\<lambda>member. concat (map (\<lambda>postItem.
       let expansion = pre @ member @ postItem
       in if \<not> isTop \<or> sequence \<or> expansion \<noteq> [] then [expansion] else []) post)) members)"

text \<open>The members of a comma set, expanded and combined; \<open>expand\<close> is the recursive call.\<close>

definition expand_options ::
    "(string \<Rightarrow> string list option) \<Rightarrow> bool \<Rightarrow> balancedMatch \<Rightarrow> string list \<Rightarrow> string list option" where
  "expand_options expand isTop m post =
     (let n = parseCommaParts (bm_body m)
      in case (if length n = 1 then map_option (map (\<lambda>item. ''{'' @ item @ ''}'')) (expand (hd n)) else Some n) of
           None \<Rightarrow> None
         | Some n1 \<Rightarrow>
             if length n = 1 \<and> length n1 = 1
             then Some (map (\<lambda>item. bm_pre m @ hd n1 @ item) post)
             else map_option (\<lambda>members. combine_members isTop False (bm_pre m) (concat members) post)
                    (those (map expand n1)))"

fun expandBraces :: "expand_seq \<Rightarrow> nat \<Rightarrow> string \<Rightarrow> bool \<Rightarrow> string list option" where
  "expandBraces expandSeq 0 str isTop = None"
| "expandBraces expandSeq (Suc fuel) str isTop =
     (case findBalanced ''{'' ''}'' str of
        None \<Rightarrow> Some [str]
      | Some m \<Rightarrow>
          if has_suffix (bm_pre m) ''$'' then Some [str]
          else
            let alphaSequence = isAlphaSequence (bm_body m);
                sequence = alphaSequence \<or> isNumericSequence (bm_body m);
                options = CHR '','' \<in> set (bm_body m)
            in if \<not> sequence \<and> \<not> options
               then (if hasCommaBeforeBrace (bm_post m)
                     then expandBraces expandSeq fuel (bm_pre m @ ''{'' @ bm_body m @ escClose @ bm_post m) True
                     else Some [str])
               else
                 case (if bm_post m \<noteq> [] then expandBraces expandSeq fuel (bm_post m) False else Some [[]]) of
                   None \<Rightarrow> None
                 | Some post \<Rightarrow>
                     if sequence
                     then Some (combine_members isTop True (bm_pre m)
                            (expandSeq (split_dots (bm_body m)) alphaSequence) post)
                     else expand_options (\<lambda>item. expandBraces expandSeq fuel item False) isTop m post)"

definition expand_fuel :: "string \<Rightarrow> nat" where
  "expand_fuel str = Suc (count_list str rbrace)"

definition BraceExpand :: "expand_seq \<Rightarrow> string \<Rightarrow> string list option" where
  "BraceExpand expandSeq str0 =
     (if str0 = [] then Some []
      else let str = (if has_prefix str0 ''{}'' then [backslash, lbrace, backslash, rbrace] @ drop 2 str0 else str0);
               escaped = escapeBraces str
           in map_option (map unescapeBraces) (expandBraces expandSeq (expand_fuel escaped) escaped True))"

section \<open>Every expansion ends\<close>

definition seq_clean :: "expand_seq \<Rightarrow> bool" where
  "seq_clean expandSeq = (\<forall>n alpha. \<forall>member \<in> set (expandSeq n alpha). rbrace \<notin> set member)"

abbreviation closes :: "string \<Rightarrow> nat" where
  "closes s \<equiv> count_list s rbrace"

text \<open>An expansion never has more closing braces than its pattern, and fewer once there was a choice.\<close>

definition shrinks :: "string \<Rightarrow> string list \<Rightarrow> bool" where
  "shrinks str r = (\<forall>x \<in> set r. closes x \<le> closes str \<and> (length r \<noteq> 1 \<longrightarrow> closes x < closes str))"

lemma shrinks_same: "shrinks str [str]"
  by (simp add: shrinks_def)

lemma shrinks_fewer: "\<forall>x \<in> set r. closes x < closes str \<Longrightarrow> shrinks str r"
  by (auto simp: shrinks_def)

lemma set_combine_members:
  "x \<in> set (combine_members isTop sequence pre members post) \<Longrightarrow>
     \<exists>member \<in> set members. \<exists>postItem \<in> set post. x = pre @ member @ postItem"
  by (auto simp: combine_members_def Let_def split: if_splits)

lemma combine_members_closes:
  assumes "findBalanced ''{'' ''}'' str = Some m"
    and "\<forall>member \<in> set members. closes member \<le> closes (bm_body m)"
    and "\<forall>postItem \<in> set post. closes postItem \<le> closes (bm_post m)"
  shows "shrinks str (combine_members isTop sequence (bm_pre m) members post)"
proof (rule shrinks_fewer, rule ballI)
  fix x assume "x \<in> set (combine_members isTop sequence (bm_pre m) members post)"
  then obtain member postItem where "member \<in> set members" "postItem \<in> set post" "x = bm_pre m @ member @ postItem"
    using set_combine_members by blast
  then show "closes x < closes str"
    using assms(2,3) findBalanced_count [OF assms(1)] by force
qed

lemma those_all:
  "\<forall>x \<in> set xs. \<exists>y. f x = Some y \<and> P x y \<Longrightarrow>
     \<exists>ys. those (map f xs) = Some ys \<and> list_all2 P xs ys"
  by (induction xs) auto

lemma list_all2_set2: "list_all2 P xs ys \<Longrightarrow> y \<in> set ys \<Longrightarrow> \<exists>x \<in> set xs. P x y"
  by (metis in_set_conv_nth list_all2_conv_all_nth)

lemma expand_options_total:
  assumes m: "findBalanced ''{'' ''}'' str = Some m"
    and expand: "\<And>item. closes item \<le> closes (bm_body m) \<Longrightarrow> \<exists>r. expand item = Some r \<and> shrinks item r"
    and post: "post = [[]] \<or> shrinks (bm_post m) post"
  shows "\<exists>r. expand_options expand isTop m post = Some r \<and> shrinks str r"
proof -
  let ?n = "parseCommaParts (bm_body m)"
  note count = findBalanced_count [OF m]
  have post_le: "\<forall>x \<in> set post. closes x \<le> closes (bm_post m)" using post by (auto simp: shrinks_def)
  have n_le: "closes item \<le> closes (bm_body m)" if "item \<in> set ?n" for item
    using that by (rule count_parseCommaParts)
  have members: "\<exists>r. map_option (\<lambda>members. combine_members isTop False (bm_pre m) (concat members) post)
      (those (map expand n1)) = Some r \<and> shrinks str r" if "\<forall>item \<in> set n1. closes item \<le> closes (bm_body m)" for n1
  proof -
    have "\<forall>item \<in> set n1. \<exists>r. expand item = Some r \<and> shrinks item r" using that expand by blast
    then obtain rs where rs: "those (map expand n1) = Some rs" "list_all2 shrinks n1 rs"
      using those_all [of n1 expand shrinks] by blast
    have "closes x \<le> closes (bm_body m)" if "x \<in> set (concat rs)" for x
    proof -
      from that obtain r where "r \<in> set rs" "x \<in> set r" by auto
      then obtain item where "item \<in> set n1" "shrinks item r" using list_all2_set2 [OF rs(2)] by blast
      then have "closes x \<le> closes item" "closes item \<le> closes (bm_body m)"
        using \<open>x \<in> set r\<close> \<open>\<forall>item \<in> set n1. closes item \<le> closes (bm_body m)\<close> by (auto simp: shrinks_def)
      then show ?thesis by simp
    qed
    then show ?thesis using rs(1) combine_members_closes [OF m _ post_le] by simp
  qed
  show ?thesis
  proof (cases "length ?n = 1")
    case False
    then show ?thesis using members [of ?n] n_le by (auto simp: expand_options_def)
  next
    case True
    then obtain x where x: "?n = [x]" by (cases ?n) auto
    then have le: "closes x \<le> closes (bm_body m)" using n_le by simp
    then obtain r where r: "expand x = Some r" "shrinks x r" using expand by blast
    show ?thesis
    proof (cases "length r = 1")
      case True
      then obtain y where y: "r = [y]" by (cases r) auto
      then have "closes y \<le> closes (bm_body m)" using r(2) le by (auto simp: shrinks_def)
      then have "shrinks str (map (\<lambda>item. bm_pre m @ (''{'' @ y @ ''}'') @ item) post)"
        using post count by (fastforce simp: shrinks_def)
      then show ?thesis using x r y by (simp add: expand_options_def)
    next
      case False
      then have "\<forall>item \<in> set (map (\<lambda>item. ''{'' @ item @ ''}'') r). closes item \<le> closes (bm_body m)"
        using r(2) le by (auto simp: shrinks_def)
      from members [OF this] show ?thesis using x r False by (simp add: expand_options_def)
    qed
  qed
qed

lemma expandBraces_total:
  assumes "seq_clean expandSeq"
  shows "closes str < fuel \<Longrightarrow> \<exists>r. expandBraces expandSeq fuel str isTop = Some r \<and> shrinks str r"
proof (induction fuel arbitrary: str isTop)
  case (Suc fuel)
  show ?case
  proof (cases "findBalanced ''{'' ''}'' str")
    case None
    then show ?thesis by (simp add: shrinks_same)
  next
    case (Some m)
    let ?seq = "isAlphaSequence (bm_body m) \<or> isNumericSequence (bm_body m)"
    note count = findBalanced_count [OF Some]
    have expand: "\<exists>r. expandBraces expandSeq fuel item top = Some r \<and> shrinks item r"
      if "closes item < closes str" for item top
      using Suc that by simp
    obtain post where post: "(if bm_post m \<noteq> [] then expandBraces expandSeq fuel (bm_post m) False else Some [[]]) = Some post"
      "post = [[]] \<or> shrinks (bm_post m) post"
      using expand [of "bm_post m" False] count by (cases "bm_post m = []") auto
    show ?thesis
    proof (cases "has_suffix (bm_pre m) ''$'' \<or> \<not> ?seq \<and> CHR '','' \<notin> set (bm_body m)")
      case plain: True
      show ?thesis
      proof (cases "\<not> has_suffix (bm_pre m) ''$'' \<and> hasCommaBeforeBrace (bm_post m)")
        case True
        let ?str = "bm_pre m @ ''{'' @ bm_body m @ escClose @ bm_post m"
        have "closes ?str < closes str" using count by simp
        moreover have "shrinks str r" if "shrinks ?str r" for r
          using that \<open>closes ?str < closes str\<close> by (intro shrinks_fewer) (force simp: shrinks_def)
        ultimately show ?thesis
          using expand [of ?str True] True plain Some by auto
      next
        case False
        then show ?thesis using plain Some by (auto simp: shrinks_same)
      qed
    next
      case False
      show ?thesis
      proof (cases ?seq)
        case True
        have "\<forall>member \<in> set (expandSeq (split_dots (bm_body m)) (isAlphaSequence (bm_body m))). closes member \<le> closes (bm_body m)"
          using assms by (simp add: seq_clean_def count_list_0_iff)
        moreover have "\<forall>x \<in> set post. closes x \<le> closes (bm_post m)" using post(2) by (auto simp: shrinks_def)
        ultimately show ?thesis
          using combine_members_closes [OF Some] False True Some post(1) by auto
      next
        case F: False
        then show ?thesis
          using expand_options_total [OF Some _ post(2), of "\<lambda>item. expandBraces expandSeq fuel item False" isTop]
            expand count False Some post(1) by auto
      qed
    qed
  qed
qed simp

section \<open>The words a pattern stands for\<close>

text \<open>An abstract pattern: literal text and sets of alternatives, and the words it stands for, in
  order.\<close>

datatype brace_item = BLit string | BSet "brace_item list list"

definition cross :: "string list \<Rightarrow> string list \<Rightarrow> string list" where
  "cross us vs = concat (map (\<lambda>u. map (\<lambda>v. u @ v) vs) us)"

fun words_item :: "brace_item \<Rightarrow> string list" where
  "words_item (BLit s) = [s]"
| "words_item (BSet ps) = concat (map (\<lambda>p. foldr (\<lambda>i. cross (words_item i)) p [[]]) ps)"

definition words_of :: "brace_item list \<Rightarrow> string list" where
  "words_of p = foldr (\<lambda>i. cross (words_item i)) p [[]]"

fun print_item :: "brace_item \<Rightarrow> string" where
  "print_item (BLit s) = s"
| "print_item (BSet ps) = ''{'' @ str_join '','' (map (\<lambda>p. concat (map print_item p)) ps) @ ''}''"

definition print_pattern :: "brace_item list \<Rightarrow> string" where
  "print_pattern p = concat (map print_item p)"

text \<open>Literal text without a character that brace expansion reads, and sets with a choice.\<close>

definition plain_char :: "char \<Rightarrow> bool" where
  "plain_char c = (c \<notin> {lbrace, rbrace, CHR '','', CHR ''$'', backslash, nul})"

fun wf_item :: "brace_item \<Rightarrow> bool" where
  "wf_item (BLit s) = list_all plain_char s"
| "wf_item (BSet ps) = (2 \<le> length ps \<and> list_all (list_all wf_item) ps)"

definition wf_pattern :: "brace_item list \<Rightarrow> bool" where
  "wf_pattern p = list_all wf_item p"

lemma words_of_simps [simp]:
  "words_of [] = [[]]" "words_of (i # p) = cross (words_item i) (words_of p)"
  by (simp_all add: words_of_def)

lemma words_item_BSet: "words_item (BSet ps) = concat (map words_of ps)"
  by (simp add: words_of_def [abs_def])

lemma print_pattern_simps [simp]:
  "print_pattern [] = []" "print_pattern (i # p) = print_item i @ print_pattern p"
  "print_pattern (p @ q) = print_pattern p @ print_pattern q"
  by (simp_all add: print_pattern_def)

lemma print_item_BSet: "print_item (BSet ps) = ''{'' @ str_join '','' (map print_pattern ps) @ ''}''"
  by (simp add: print_pattern_def [abs_def])

lemma wf_pattern_simps [simp]:
  "wf_pattern []" "wf_pattern (i # p) \<longleftrightarrow> wf_item i \<and> wf_pattern p"
  "wf_pattern (p @ q) \<longleftrightarrow> wf_pattern p \<and> wf_pattern q"
  by (simp_all add: wf_pattern_def)

lemma wf_item_BSet: "wf_item (BSet ps) \<longleftrightarrow> 2 \<le> length ps \<and> (\<forall>p \<in> set ps. wf_pattern p)"
  by (simp add: wf_pattern_def list_all_iff)

declare words_item.simps(2) [simp del] print_item.simps(2) [simp del] wf_item.simps(2) [simp del]

lemma wf_pattern_mem: "wf_pattern p \<Longrightarrow> i \<in> set p \<Longrightarrow> wf_item i"
  by (simp add: wf_pattern_def list_all_iff)

subsection \<open>Printed patterns are balanced\<close>

lemma bal_plain: "list_all plain_char s \<Longrightarrow> bal d (s @ t) = bal d t"
  by (induction s) (auto simp: plain_char_def)

lemma bal_concat:
  "(\<And>x t d. x \<in> set xs \<Longrightarrow> bal d (x @ t) = bal d t) \<Longrightarrow> bal d (concat xs @ t) = bal d t"
  by (induction xs) auto

lemma bal_join:
  "(\<And>x t d. x \<in> set xs \<Longrightarrow> bal d (x @ t) = bal d t) \<Longrightarrow> bal d (str_join '','' xs @ t) = bal d t"
proof (induction xs)
  case (Cons x xs)
  then show ?case by (cases xs) auto
qed simp

lemma bal_print_item: "wf_item i \<Longrightarrow> bal d (print_item i @ t) = bal d t"
proof (induction i arbitrary: d t)
  case (BLit s)
  then show ?case by (simp add: bal_plain)
next
  case (BSet ps)
  have "bal d (print_pattern p @ t) = bal d t" if "p \<in> set ps" for p d t
  proof -
    have "wf_pattern p" using BSet.prems that by (simp add: wf_item_BSet)
    then have "bal d (print_item i @ t) = bal d t" if "i \<in> set p" for i d t
      using BSet.IH [OF \<open>p \<in> set ps\<close> that] wf_pattern_mem that by blast
    then show ?thesis unfolding print_pattern_def by (intro bal_concat) auto
  qed
  then have "bal d (str_join '','' (map print_pattern ps) @ t) = bal d t" for d t
    by (intro bal_join) auto
  then show ?case by (simp add: print_item_BSet)
qed

lemma bal_print_pattern: "wf_pattern p \<Longrightarrow> bal d (print_pattern p @ t) = bal d t"
  unfolding print_pattern_def by (intro bal_concat) (auto simp: bal_print_item dest: wf_pattern_mem)

lemma bal_body: "\<forall>p \<in> set ps. wf_pattern p \<Longrightarrow> bal 0 (str_join '','' (map print_pattern ps))"
  using bal_join [of "map print_pattern ps" 0 "[]"] bal_print_pattern by auto

subsection \<open>The first set of a pattern\<close>

fun is_lit :: "brace_item \<Rightarrow> bool" where
  "is_lit (BLit s) = True"
| "is_lit (BSet ps) = False"

definition literal :: "brace_item list \<Rightarrow> bool" where
  "literal p = list_all is_lit p"

lemma literal_simps [simp]: "literal []" "literal (i # p) \<longleftrightarrow> is_lit i \<and> literal p"
  by (simp_all add: literal_def)

lemma is_litE: "is_lit i \<Longrightarrow> (\<And>s. i = BLit s \<Longrightarrow> P) \<Longrightarrow> P"
  by (cases i) auto

lemma literal_split:
  assumes "\<not> literal p"
  obtains lits ps rest where "p = lits @ BSet ps # rest" and "literal lits"
proof -
  have "\<exists>i \<in> set p. \<not> is_lit i" using assms by (simp add: literal_def list_all_iff)
  then obtain lits i rest where p: "p = lits @ i # rest" "\<not> is_lit i" "\<forall>j \<in> set lits. is_lit j"
    using split_list_first_prop [of p "\<lambda>i. \<not> is_lit i"] by auto
  then obtain ps where "i = BSet ps" by (cases i) auto
  with p that show ?thesis by (simp add: literal_def list_all_iff)
qed

lemma literal_plain: "literal p \<Longrightarrow> wf_pattern p \<Longrightarrow> list_all plain_char (print_pattern p)"
  by (induction p) (auto elim: is_litE)

lemma plain_notin:
  assumes "list_all plain_char s"
  shows "lbrace \<notin> set s" and "rbrace \<notin> set s" and "CHR '','' \<notin> set s" and "CHR ''$'' \<notin> set s"
  using assms by (auto simp: list_all_iff plain_char_def)

lemma literal_words: "literal p \<Longrightarrow> words_of p = [print_pattern p]"
  by (induction p) (auto simp: cross_def elim: is_litE)

lemma cross_single: "cross [u] vs = map (\<lambda>v. u @ v) vs"
  by (simp add: cross_def)

lemma words_of_literal_append: "literal p \<Longrightarrow> words_of (p @ q) = map (\<lambda>w. print_pattern p @ w) (words_of q)"
  by (induction p) (auto simp: cross_single map_idI elim!: is_litE)

subsection \<open>Splitting a printed set into its members\<close>

lemma str_split_plain: "c \<notin> set s \<Longrightarrow> str_split c s = [s]"
  by (induction s) auto

lemma str_split_append: "c \<notin> set s \<Longrightarrow> str_split c (s @ c # t) = s # str_split c t"
  by (induction s) auto

lemma str_split_join:
  "ps \<noteq> [] \<Longrightarrow> \<forall>p \<in> set ps. c \<notin> set p \<Longrightarrow> str_split c (str_join [c] ps) = ps"
proof (induction ps)
  case (Cons p ps)
  then show ?case by (cases ps) (auto simp: str_split_plain str_split_append)
qed simp

lemma str_join_head: "str_join sep ((x @ y) # ts) = x @ str_join sep (y # ts)"
  by (cases ts) simp_all

lemma notin_str_join: "c \<notin> set sep \<Longrightarrow> \<forall>p \<in> set ps. c \<notin> set p \<Longrightarrow> c \<notin> set (str_join sep ps)"
proof (induction ps)
  case (Cons p ps)
  then show ?case by (cases ps) auto
qed simp

lemma findBalanced_none: "lbrace \<notin> set str \<Longrightarrow> findBalanced ''{'' ''}'' str = None"
  by (simp add: findBalanced_def balancedRange_no_open)

lemma parseCommaParts_print:
  assumes "ps \<noteq> []" and "\<forall>p \<in> set ps. wf_pattern p"
  shows "parseCommaParts (str_join '','' (map print_pattern ps)) = map print_pattern ps"
  using assms
proof (induction "length (str_join '','' (map print_pattern ps))" arbitrary: ps rule: less_induct)
  case less
  let ?str = "str_join '','' (map print_pattern ps)"
  show ?case
  proof (cases "\<forall>p \<in> set ps. literal p")
    case True
    then have plain: "list_all plain_char s" if "s \<in> set (map print_pattern ps)" for s
      using that less.prems(2) literal_plain by auto
    have "lbrace \<notin> set ?str"
      using plain plain_notin(1) by (intro notin_str_join) auto
    moreover have "str_split CHR '','' ?str = map print_pattern ps"
      using less.prems(1) plain plain_notin(3) by (intro str_split_join) auto
    moreover have "str_split CHR '','' [] = [[]]" by simp
    ultimately show ?thesis
      by (cases "?str = []") (simp_all add: parseCommaParts.simps findBalanced_none)
  next
    case False
    then obtain qs p rs where ps: "ps = qs @ p # rs" "\<not> literal p" "\<forall>q \<in> set qs. literal q"
      using split_list_first_prop [of ps "\<lambda>p. \<not> literal p"] by auto
    obtain lits ss r where p: "p = lits @ BSet ss # r" "literal lits" using literal_split [OF ps(2)] .
    let ?body = "str_join '','' (map print_pattern ss)"
    let ?pre = "str_join '','' (map print_pattern (qs @ [lits]))"
    let ?post = "str_join '','' (map print_pattern (r # rs))"
    have wf: "wf_pattern lits" "\<forall>p \<in> set ss. wf_pattern p" "\<forall>p \<in> set (r # rs). wf_pattern p" "\<forall>q \<in> set qs. wf_pattern q"
      using less.prems(2) ps(1) p(1) by (auto simp: wf_item_BSet)
    have "?str = ?pre @ str_join '','' ((''{'' @ ?body @ ''}'' @ print_pattern r) # map print_pattern rs)"
      using ps(1) p(1) str_join_glue [of "'',''" "map print_pattern qs" "print_pattern lits"
          "''{'' @ ?body @ ''}'' @ print_pattern r" "map print_pattern rs"]
      by (simp add: print_item_BSet)
    also have "\<dots> = ?pre @ ''{'' @ ?body @ ''}'' @ ?post"
      using str_join_head [of "'',''" "''{'' @ ?body @ ''}''" "print_pattern r" "map print_pattern rs"] by simp
    finally have str: "?str = ?pre @ ''{'' @ ?body @ ''}'' @ ?post" .
    have plain: "list_all plain_char s" if "s \<in> set (map print_pattern (qs @ [lits]))" for s
      using that wf ps(3) p(2) literal_plain by auto
    have pre: "str_split CHR '','' ?pre = map print_pattern (qs @ [lits])"
      using plain plain_notin(3) by (intro str_split_join) auto
    have "lbrace \<notin> set ?pre"
      using plain plain_notin(1) by (intro notin_str_join) auto
    then have fb: "findBalanced ''{'' ''}'' ?str = Some \<lparr>bm_pre = ?pre, bm_body = ?body, bm_post = ?post\<rparr>"
      unfolding str using bal_body [OF wf(2)] by (rule findBalanced_balanced)
    have ne: "?str \<noteq> []" using str by (cases ?str) simp_all
    have post: "parseCommaParts ?post = map print_pattern (r # rs)"
      using less.hyps [of "r # rs"] str wf(3) by simp
    show ?thesis
    proof (cases "?post = []")
      case True
      then have "rs = []" "print_pattern r = []" by (cases rs; simp)+
      have "parseCommaParts ?str = map print_pattern qs @ [print_pattern lits @ ''{'' @ ?body @ ''}'']"
        using fb ne True pre by (simp add: parseCommaParts.simps [of ?str] Let_def)
      then show ?thesis
        using \<open>rs = []\<close> \<open>print_pattern r = []\<close> ps(1) p(1) by (simp add: print_item_BSet)
    next
      case F: False
      have "parseCommaParts ?str = map print_pattern qs @ [(print_pattern lits @ ''{'' @ ?body @ ''}'') @ hd (parseCommaParts ?post)]
          @ tl (parseCommaParts ?post)"
        using fb ne F pre by (simp add: parseCommaParts.simps [of ?str] Let_def)
      then show ?thesis using post ps(1) p(1) by (simp add: print_item_BSet)
    qed
  qed
qed

subsection \<open>Sets are not sequences\<close>

lemma split_dots_covers: "c \<in> set s \<Longrightarrow> c \<noteq> CHR ''.'' \<Longrightarrow> \<exists>p \<in> set (split_dots s). c \<in> set p"
  by (induction s rule: split_dots.induct) (auto split: list.splits)

lemma isInteger_no_comma: "isInteger s \<Longrightarrow> CHR '','' \<notin> set s"
proof
  assume s: "isInteger s" and comma: "CHR '','' \<in> set s"
  from comma have "CHR '','' \<in> set (trim_prefix s ''-'')"
    by (cases s) (auto simp: trim_prefix_def has_prefix_def)
  then have "isDigit CHR '',''" using s by (auto simp: isInteger_def Let_def list_all_iff)
  then show False by (simp add: isDigit_def)
qed

lemma isAlpha_no_comma: "length s = 1 \<Longrightarrow> isAlpha (hd s) \<Longrightarrow> CHR '','' \<notin> set s"
  by (cases s) (auto simp: isAlpha_def)

lemma comma_not_sequence:
  assumes "CHR '','' \<in> set body"
  shows "\<not> isAlphaSequence body" and "\<not> isNumericSequence body"
proof -
  obtain p where p: "p \<in> set (split_dots body)" "CHR '','' \<in> set p"
    using split_dots_covers [OF assms] by auto
  then show "\<not> isNumericSequence body"
    using isInteger_no_comma by (auto simp: isNumericSequence_def Let_def list_all_iff)
  show "\<not> isAlphaSequence body"
  proof
    assume a: "isAlphaSequence body"
    obtain i where i: "i < length (split_dots body)" "p = split_dots body ! i" using p(1) by (auto simp: in_set_conv_nth)
    have "length (split_dots body) = 2 \<or> length (split_dots body) = 3" using a by (simp add: isAlphaSequence_def Let_def)
    then have "i = 0 \<or> i = 1 \<or> length (split_dots body) = 3 \<and> i = 2" using i(1) by auto
    then show False
      using a p(2) i(2) isAlpha_no_comma isInteger_no_comma by (auto simp: isAlphaSequence_def Let_def)
  qed
qed

lemma comma_in_body: "2 \<le> length ps \<Longrightarrow> CHR '','' \<in> set (str_join '','' ps)"
  by (cases ps; cases "tl ps") auto

subsection \<open>Expansion is what the pattern says\<close>

lemma combine_members_cross:
  "combine_members isTop False pre members post =
     filter (\<lambda>w. \<not> isTop \<or> w \<noteq> []) (map (\<lambda>w. pre @ w) (cross members post))"
proof -
  have "concat (map (\<lambda>postItem. let expansion = pre @ member @ postItem
          in if \<not> isTop \<or> False \<or> expansion \<noteq> [] then [expansion] else []) post) =
      filter (\<lambda>w. \<not> isTop \<or> w \<noteq> []) (map (\<lambda>v. pre @ member @ v) post)" for member
    by (induction post) (auto simp: Let_def)
  then show ?thesis
    unfolding combine_members_def cross_def by (induction members) (auto simp: comp_def)
qed

lemma those_map_Some: "(\<And>x. x \<in> set xs \<Longrightarrow> f x = Some (g x)) \<Longrightarrow> those (map f xs) = Some (map g xs)"
  by (induction xs) auto

lemma closes_member:
  "p \<in> set ps \<Longrightarrow> closes (print_pattern p) \<le> closes (str_join '','' (map print_pattern ps))"
  by (rule mem_str_join) simp

lemma expandBraces_options:
  assumes "findBalanced ''{'' ''}'' str = Some m" and "\<not> has_suffix (bm_pre m) ''$''"
    and "CHR '','' \<in> set (bm_body m)"
    and "\<not> isAlphaSequence (bm_body m)" and "\<not> isNumericSequence (bm_body m)"
    and "(if bm_post m \<noteq> [] then expandBraces expandSeq fuel (bm_post m) False else Some [[]]) = Some post"
  shows "expandBraces expandSeq (Suc fuel) str isTop =
    expand_options (\<lambda>item. expandBraces expandSeq fuel item False) isTop m post"
  using assms by (cases "bm_post m = []") simp_all

lemma print_empty_literal: "print_pattern r = [] \<Longrightarrow> literal r"
proof (induction r)
  case (Cons i r)
  then show ?case by (cases i) (simp_all add: print_item_BSet)
qed simp

lemma expandBraces_print:
  assumes "wf_pattern p" and "closes (print_pattern p) < fuel"
  shows "expandBraces expandSeq fuel (print_pattern p) isTop =
    Some (if isTop \<and> \<not> literal p then filter (\<lambda>w. w \<noteq> []) (words_of p) else words_of p)"
  using assms
proof (induction fuel arbitrary: p isTop)
  case (Suc fuel)
  show ?case
  proof (cases "literal p")
    case True
    then have "lbrace \<notin> set (print_pattern p)" using literal_plain Suc.prems(1) plain_notin(1) by blast
    then show ?thesis using True by (simp add: findBalanced_none literal_words)
  next
    case False
    obtain lits ps r where p: "p = lits @ BSet ps # r" "literal lits" using literal_split [OF False] .
    let ?body = "str_join '','' (map print_pattern ps)"
    have wf: "wf_pattern lits" "\<forall>q \<in> set ps. wf_pattern q" "wf_pattern r" "2 \<le> length ps"
      using Suc.prems(1) p(1) by (simp_all add: wf_item_BSet)
    have str: "print_pattern p = print_pattern lits @ ''{'' @ ?body @ ''}'' @ print_pattern r"
      using p(1) by (simp add: print_item_BSet)
    have plain: "list_all plain_char (print_pattern lits)" using literal_plain p(2) wf(1) by blast
    then have fb: "findBalanced ''{'' ''}'' (print_pattern p) =
        Some \<lparr>bm_pre = print_pattern lits, bm_body = ?body, bm_post = print_pattern r\<rparr>"
      unfolding str using bal_body [OF wf(2)] plain_notin(1) by (intro findBalanced_balanced)
    have less: "closes (print_pattern r) < fuel" "closes ?body < fuel"
      using Suc.prems(2) findBalanced_count [OF fb] by simp_all
    have post: "(if print_pattern r \<noteq> [] then expandBraces expandSeq fuel (print_pattern r) False else Some [[]]) =
        Some (words_of r)"
      using Suc.IH [of r False] wf(3) less(1) literal_words [OF print_empty_literal, of r] by auto
    have comma: "CHR '','' \<in> set ?body" using wf(4) by (intro comma_in_body) simp
    have n: "parseCommaParts ?body = map print_pattern ps"
      using parseCommaParts_print [OF _ wf(2)] wf(4) by fastforce
    have "expandBraces expandSeq fuel (print_pattern q) False = Some (words_of q)" if "q \<in> set ps" for q
      using Suc.IH [of q False] that wf(2) closes_member [OF that] less(2) by simp
    then have members: "those (map (\<lambda>item. expandBraces expandSeq fuel item False) (map print_pattern ps)) =
        Some (map words_of ps)"
      using those_map_Some [of ps "\<lambda>q. expandBraces expandSeq fuel (print_pattern q) False" words_of] by (simp add: comp_def)
    have dollar: "\<not> has_suffix (print_pattern lits) ''$''"
      using plain_notin(4) [OF plain] by (auto simp: has_suffix_iff)
    have "expandBraces expandSeq (Suc fuel) (print_pattern p) isTop =
        expand_options (\<lambda>item. expandBraces expandSeq fuel item False) isTop
          \<lparr>bm_pre = print_pattern lits, bm_body = ?body, bm_post = print_pattern r\<rparr> (words_of r)"
      by (rule expandBraces_options [OF fb]) (use dollar comma comma_not_sequence [OF comma] post in \<open>auto split: if_splits\<close>)
    also have "\<dots> = Some (combine_members isTop False (print_pattern lits) (concat (map words_of ps)) (words_of r))"
      using wf(4) n members by (simp add: expand_options_def)
    also have "combine_members isTop False (print_pattern lits) (concat (map words_of ps)) (words_of r) =
        filter (\<lambda>w. \<not> isTop \<or> w \<noteq> []) (words_of p)"
      using p by (simp add: combine_members_cross words_of_literal_append words_item_BSet)
    finally show ?thesis using False by simp
  qed
qed simp

lemma go_replace_none:
  "\<forall>p \<in> set pairs. fst p \<noteq> [] \<and> hd (fst p) \<notin> set s \<Longrightarrow> go_replace pairs s = s"
proof (induction s)
  case (Cons c s)
  have "find (\<lambda>p. fst p \<noteq> [] \<and> has_prefix (c # s) (fst p)) pairs = None"
    using Cons.prems by (force simp: find_None_iff has_prefix_iff neq_Nil_conv)
  then show ?case using Cons by simp
qed simp

definition unread :: "char \<Rightarrow> bool" where
  "unread c = (\<not> plain_char c \<and> c \<noteq> lbrace \<and> c \<noteq> rbrace \<and> c \<noteq> CHR '','')"

lemma unread_item: "wf_item i \<Longrightarrow> unread c \<Longrightarrow> c \<notin> set (print_item i) \<and> (\<forall>w \<in> set (words_item i). c \<notin> set w)"
proof (induction i)
  case (BLit s)
  then show ?case by (auto simp: unread_def list_all_iff)
next
  case (BSet ps)
  have p: "c \<notin> set (print_pattern p) \<and> (\<forall>w \<in> set (words_of p). c \<notin> set w)" if "p \<in> set ps" for p
  proof -
    have "wf_pattern p" using BSet.prems(1) that by (simp add: wf_item_BSet)
    then have "\<forall>i \<in> set p. c \<notin> set (print_item i) \<and> (\<forall>w \<in> set (words_item i). c \<notin> set w)"
      using BSet.IH [OF that _ _ BSet.prems(2)] wf_pattern_mem by blast
    then show ?thesis by (induction p) (auto simp: cross_def)
  qed
  have "c \<notin> set (str_join '','' (map print_pattern ps))"
    using BSet.prems(2) p by (intro notin_str_join) (auto simp: unread_def)
  moreover have "\<forall>w \<in> set (words_item (BSet ps)). c \<notin> set w" using p by (auto simp: words_item_BSet)
  ultimately show ?case using BSet.prems(2) by (simp add: print_item_BSet unread_def)
qed

lemma unread_pattern:
  assumes "wf_pattern p" and "unread c"
  shows "c \<notin> set (print_pattern p)" and "w \<in> set (words_of p) \<Longrightarrow> c \<notin> set w"
proof -
  have "\<forall>i \<in> set p. c \<notin> set (print_item i) \<and> (\<forall>w \<in> set (words_item i). c \<notin> set w)"
    using unread_item [OF _ assms(2)] wf_pattern_mem [OF assms(1)] by blast
  then have "c \<notin> set (print_pattern p) \<and> (\<forall>w \<in> set (words_of p). c \<notin> set w)"
    by (induction p) (auto simp: cross_def)
  then show "c \<notin> set (print_pattern p)" and "w \<in> set (words_of p) \<Longrightarrow> c \<notin> set w" by blast+
qed

lemma unread_escapes: "unread backslash" "unread nul"
  by (simp_all add: unread_def plain_char_def) code_simp+

lemma escapeBraces_print: "wf_pattern p \<Longrightarrow> escapeBraces (print_pattern p) = print_pattern p"
  unfolding escapeBraces_def
  by (rule go_replace_none) (simp add: escapeReplacer_def unread_pattern(1) [OF _ unread_escapes(1)])

lemma unescapeBraces_word:
  "wf_pattern p \<Longrightarrow> w \<in> set (words_of p) \<Longrightarrow> unescapeBraces w = w"
  unfolding unescapeBraces_def
  by (rule go_replace_none)
    (simp add: unescapeReplacer_def escSlash_def escOpen_def escClose_def escComma_def escPeriod_def
      unread_pattern(2) [OF _ unread_escapes(2)])

text \<open>A printed set is not the pair of braces that the top level escapes.\<close>

lemma print_not_empty_set: "wf_pattern p \<Longrightarrow> \<not> has_prefix (print_pattern p) ''{}''"
proof (induction p)
  case (Cons i p)
  show ?case
  proof (cases i)
    case (BLit s)
    then show ?thesis using Cons by (cases s) (auto simp: has_prefix_def plain_char_def)
  next
    case (BSet ps)
    then obtain q qs where ps: "ps = q # qs" "qs \<noteq> []" using Cons.prems by (cases ps; cases "tl ps") (auto simp: wf_item_BSet)
    show ?thesis
    proof
      assume "has_prefix (print_pattern (i # p)) ''{}''"
      then have "hd (str_join '','' (map print_pattern ps)) = rbrace" "str_join '','' (map print_pattern ps) \<noteq> []"
        using BSet ps by (cases "print_pattern q"; auto simp: print_item_BSet has_prefix_def str_join_Cons)+
      moreover have "bal 0 (str_join '','' (map print_pattern ps))"
        using Cons.prems BSet by (intro bal_body) (simp add: wf_item_BSet)
      ultimately show False by (cases "str_join '','' (map print_pattern ps)") auto
    qed
  qed
qed (simp add: has_prefix_def)

text \<open>Claim C14.  Brace expansion computes what a pattern means: for every pattern built from literal
  text and nested sets of two or more alternatives, \<open>BraceExpand\<close> of its printed form is the list of the
  words it stands for, in order, without the empty one.\<close>

theorem BraceExpand_words:
  assumes "wf_pattern p"
  shows "BraceExpand expandSeq (print_pattern p) = Some (filter (\<lambda>w. w \<noteq> []) (words_of p))"
proof (cases "print_pattern p = []")
  case True
  then show ?thesis using literal_words [OF print_empty_literal [OF True]] by (simp add: BraceExpand_def)
next
  case False
  have "expandBraces expandSeq (expand_fuel (print_pattern p)) (print_pattern p) True =
      Some (filter (\<lambda>w. w \<noteq> []) (words_of p))"
    using expandBraces_print [OF assms, of "expand_fuel (print_pattern p)" expandSeq True] literal_words [of p] False
    by (auto simp: expand_fuel_def)
  moreover have "map unescapeBraces (filter (\<lambda>w. w \<noteq> []) (words_of p)) = filter (\<lambda>w. w \<noteq> []) (words_of p)"
    using unescapeBraces_word [OF assms] by (intro map_idI) auto
  ultimately show ?thesis
    using False print_not_empty_set [OF assms] by (simp add: BraceExpand_def escapeBraces_print [OF assms])
qed

theorem BraceExpand_words_witness:
  "BraceExpand (\<lambda>n alpha. []) ''a{b,c{d,e}f}g'' = Some [''abg'', ''acdfg'', ''acefg'']"
proof -
  let ?p = "[BLit ''a'', BSet [[BLit ''b''], [BLit ''c'', BSet [[BLit ''d''], [BLit ''e'']], BLit ''f'']], BLit ''g'']"
  have "wf_pattern ?p" by code_simp
  from BraceExpand_words [OF this, of "\<lambda>n alpha. []"] show ?thesis
    by (simp add: print_item_BSet words_item_BSet cross_def)
qed

text \<open>Every brace expansion ends: whatever the pattern, one unit of fuel per closing brace is
  enough, provided the members of sequences have no closing brace.\<close>

theorem BraceExpand_terminates:
  assumes "seq_clean expandSeq"
  shows "\<exists>words. BraceExpand expandSeq str = Some words"
proof -
  have "\<exists>r. expandBraces expandSeq (expand_fuel s) s True = Some r" for s
    using expandBraces_total [OF assms, of s "expand_fuel s" True] by (auto simp: expand_fuel_def)
  then have "\<exists>words. map_option (map unescapeBraces) (expandBraces expandSeq (expand_fuel s) s True) = Some words" for s
    by (metis option.simps(9))
  then show ?thesis by (simp add: BraceExpand_def Let_def)
qed

theorem BraceExpand_terminates_witness:
  "\<exists>words. BraceExpand (\<lambda>n alpha. if alpha then [''a'', ''b''] else [''1'']) ''x{{a..b},{},y}}'' = Some words"
  by (rule BraceExpand_terminates) (auto simp: seq_clean_def)

end
