(* ===== verification/Minimatch.thy ===== *)
theory Minimatch
  imports Code_Units Braces
begin

text \<open>
  \<^verbatim>\<open>internal/utils/minimatch3/minimatch.go\<close>: glob patterns compiled to rows of path parts, and the
  matching of a path against a row.  The record \<open>glob_env\<close> holds what the package calls and this
  development does not model: the regexp2 engine (a compiled pattern is its source; \<^term>\<open>None\<close> is a
  match that failed with an error, such as the timeout), the ECMAScript regular expression scanner,
  the case tables of \<^verbatim>\<open>ecmascript/regexp\<close> and the float64 sequences of brace expansion.
\<close>

section \<open>Options and environment\<close>

record glob_options =
  PreserveWhitespace :: bool
  Dot :: bool
  NoBrace :: bool
  NoGlobStar :: bool
  NoExt :: bool
  NoCase :: bool
  NoNegate :: bool
  NoComment :: bool
  NoNull :: bool
  MatchBase :: bool
  FlipNegate :: bool
  Partial :: bool

record glob_env =
  IsValidRegexLiteral :: "string \<Rightarrow> bool"
  CaseClass :: "nat \<Rightarrow> string option"
  CaseCloseClass :: "string \<Rightarrow> string"
  Canonicalize :: "nat \<Rightarrow> nat"
  regexp_Compile :: "string \<Rightarrow> bool"
  regexp_Match :: "string \<Rightarrow> nat list \<Rightarrow> bool option"
  expandSequence :: expand_seq

section \<open>Pieces of regular expression source\<close>

abbreviation rune :: "char \<Rightarrow> nat" where
  "rune c \<equiv> of_char c"

definition bs :: string where "bs = [backslash]"

definition qmark :: string where "qmark = ''[^/]''"

definition star :: string where "star = qmark @ ''*?''"

definition anyChar :: string where
  "anyChar = ''['' @ bs @ ''s'' @ bs @ ''S]''"

definition nonTerminator :: string where
  "nonTerminator = ''[^'' @ bs @ ''n'' @ bs @ ''r'' @ bs @ ''u2028'' @ bs @ ''u2029]''"

definition reSpecials :: string where
  "reSpecials = ''().*{}+?[]^$'' @ bs @ ''!''"

definition maxPatternLength :: nat where "maxPatternLength = 65536"

definition braceShortcut :: string where
  "braceShortcut = bs @ ''{(?:(?!'' @ bs @ ''{)'' @ nonTerminator @ '')*'' @ bs @ ''}''"

definition neverMatches :: string where "neverMatches = bs @ ''z.''"

definition plTypes :: "char \<Rightarrow> string \<times> string" where
  "plTypes c =
     (if c = CHR ''!'' then (''(?:(?!(?:'', ''))[^/]*?)'')
      else if c = CHR ''?'' then (''(?:'', '')?'')
      else if c = CHR ''+'' then (''(?:'', '')+'')
      else if c = CHR ''*'' then (''(?:'', '')*'')
      else (''(?:'', '')''))"

text \<open>The runes of a string, as \<open>range\<close> and \<open>[]rune(s)\<close> yield them.\<close>

function go_runes :: "string \<Rightarrow> nat list" where
  "go_runes s =
     (if s = [] then []
      else let (r, n) = DecodeRuneInString s in r # go_runes (drop n s))"
  by auto
termination
  by (relation "measure length") (auto dest: DecodeRune_size [OF sym])

declare go_runes.simps [simp del]

fun units_exceed :: "nat list \<Rightarrow> nat \<Rightarrow> bool" where
  "units_exceed [] units = False"
| "units_exceed (r # rs) units =
     (let units1 = (if 0xFFFF < r then units + 2 else units + 1)
      in if maxPatternLength < units1 then True else units_exceed rs units1)"

definition overMaxPatternLength :: "string \<Rightarrow> bool" where
  "overMaxPatternLength pattern =
     (if length pattern \<le> maxPatternLength then False else units_exceed (go_runes pattern) 0)"

definition hex_digit :: "nat \<Rightarrow> char" where
  "hex_digit n = (if n < 10 then char_of (48 + n) else char_of (87 + n))"

definition codeUnitEscape :: "nat \<Rightarrow> string" where
  "codeUnitEscape u = bs @ ''u'' @ [hex_digit (u div 4096 mod 16), hex_digit (u div 256 mod 16),
     hex_digit (u div 16 mod 16), hex_digit (u mod 16)]"

definition jsSlice :: "string \<Rightarrow> int \<Rightarrow> int \<Rightarrow> string" where
  "jsSlice source start0 stop0 =
     (let start = min (max start0 0) (int (length source));
          stop = min (max stop0 start) (int (length source))
      in take (nat stop - nat start) (drop (nat start) source))"

definition dropFirstCloseParen :: "string \<Rightarrow> string" where
  "dropFirstCloseParen source =
     (case str_index source '')'' of
        None \<Rightarrow> source
      | Some index \<Rightarrow>
          let stop = index + 1;
              stop1 = (if stop < length source \<and> source ! stop \<in> set ''+*?'' then stop + 1 else stop)
          in take index source @ drop stop1 source)"

fun escapeTailPipes :: "nat \<Rightarrow> string \<Rightarrow> string" where
  "escapeTailPipes backslashes [] = replicate backslashes backslash"
| "escapeTailPipes backslashes (c # tail) =
     (if c = backslash then escapeTailPipes (Suc backslashes) tail
      else if c = CHR ''|''
      then replicate ((backslashes - backslashes mod 2) * 2) backslash @ bs @ ''|'' @ escapeTailPipes 0 tail
      else replicate backslashes backslash @ c # escapeTailPipes 0 tail)"

fun globUnescape :: "string \<Rightarrow> string" where
  "globUnescape [] = []"
| "globUnescape [c] = [c]"
| "globUnescape (c # d # s) = (if c = backslash then d # globUnescape s else c # globUnescape (d # s))"

text \<open>\<open>escaping\<close> and \<open>inClass\<close> are the two flags of the loop.\<close>

fun anchor_loop :: "bool \<Rightarrow> bool \<Rightarrow> string \<Rightarrow> string" where
  "anchor_loop escaping inClass [] = []"
| "anchor_loop escaping inClass (c # s) =
     (if escaping then c # anchor_loop False inClass s
      else if c = backslash then c # anchor_loop True inClass s
      else if inClass then c # anchor_loop False (c \<noteq> CHR '']'') s
      else if c = CHR ''['' then c # anchor_loop False True s
      else if c = CHR ''$'' then bs @ ''z'' @ anchor_loop False False s
      else c # anchor_loop False False s)"

definition endAnchors :: "string \<Rightarrow> string" where
  "endAnchors source = (if CHR ''$'' \<notin> set source then source else anchor_loop False False source)"

text \<open>The literal built to ask the scanner about a class; \<open>backslashes\<close> counts the run before \<open>s\<close>.\<close>

function class_literal :: "nat \<Rightarrow> string \<Rightarrow> string" where
  "class_literal backslashes s =
     (if s = [] then []
      else let (r, n) = decodeStringRune s; rest = drop n s; even_run = (backslashes mod 2 = 0)
           in if surrogate r
              then (if even_run then codeUnitEscape r else tl (codeUnitEscape r)) @ class_literal 0 rest
              else if r = rune backslash then bs @ class_literal (Suc backslashes) rest
              else (if r = rune CHR ''/'' then (if even_run then bs else []) @ ''/''
                    else if r = 0x0A then (if even_run then bs else []) @ ''n''
                    else if r = 0x0D then (if even_run then bs else []) @ ''r''
                    else if r = 0x2028 then (if even_run then bs else []) @ ''u2028''
                    else if r = 0x2029 then (if even_run then bs else []) @ ''u2029''
                    else WriteRune r) @ class_literal 0 rest)"
  by auto
termination
  by (relation "measure (\<lambda>(n, s). length s)") (auto dest: decodeStringRune_size [OF sym])

declare class_literal.simps [simp del]

definition isValidJSClass :: "glob_env \<Rightarrow> string \<Rightarrow> bool" where
  "isValidJSClass env class = IsValidRegexLiteral env (''/'' @ class_literal 0 class @ ''/'')"

section \<open>Translating one path part\<close>

record patternListItem =
  pl_kind :: char
  pl_reStart :: nat
  pl_reEnd :: nat
  pl_open :: string
  pl_close :: string

text \<open>The variables of \<open>parseSource\<close>.  \<open>s_stack\<close> is the stack of open lists, innermost first;
  \<open>s_class\<close> is \<open>classStart\<close> and \<open>reClassStart\<close> while \<open>inClass\<close> holds, the only time they are read.\<close>

record source_state =
  s_re :: string
  s_hasMagic :: bool
  s_escaping :: bool
  s_stack :: "patternListItem list"
  s_negative :: "patternListItem list"
  s_stateChar :: "char option"
  s_class :: "(nat \<times> nat) option"

definition emit :: "string \<Rightarrow> source_state \<Rightarrow> source_state" where
  "emit text st = st\<lparr>s_re := s_re st @ text\<rparr>"

definition clearStateChar :: "source_state \<Rightarrow> source_state" where
  "clearStateChar st =
     (case s_stateChar st of
        None \<Rightarrow> st
      | Some c \<Rightarrow>
          (if c = CHR ''*'' then emit star st\<lparr>s_hasMagic := True, s_stateChar := None\<rparr>
           else if c = CHR ''?'' then emit qmark st\<lparr>s_hasMagic := True, s_stateChar := None\<rparr>
           else emit (bs @ [c]) st\<lparr>s_stateChar := None\<rparr>))"

text \<open>What one rune does: fail, go on, or re-walk the contents of a class that is not one.\<close>

datatype source_step = Source_fail | Source_next source_state | Source_rewalk nat nat

definition source_wildcard :: "glob_options \<Rightarrow> nat \<Rightarrow> char \<Rightarrow> source_state \<Rightarrow> source_state" where
  "source_wildcard opts i c st =
     (case s_class st of
        Some (classStart, _) \<Rightarrow> emit [if c = CHR ''!'' \<and> i = classStart + 1 then CHR ''^'' else c] st
      | None \<Rightarrow>
          if c = CHR ''*'' \<and> s_stateChar st = Some CHR ''*'' then st
          else let st1 = (clearStateChar st)\<lparr>s_stateChar := Some c\<rparr>
               in if NoExt opts then clearStateChar st1 else st1)"

definition source_open :: "source_state \<Rightarrow> source_state" where
  "source_open st =
     (if s_class st \<noteq> None then emit ''('' st
      else case s_stateChar st of
        None \<Rightarrow> emit (bs @ ''('') st
      | Some k \<Rightarrow>
          emit (fst (plTypes k))
            (st\<lparr>s_stack := \<lparr>pl_kind = k, pl_reStart = length (s_re st), pl_reEnd = 0, pl_open = fst (plTypes k),
                  pl_close = snd (plTypes k)\<rparr> # s_stack st, s_stateChar := None\<rparr>))"

definition source_close :: "source_state \<Rightarrow> source_state" where
  "source_close st =
     (if s_class st \<noteq> None then emit (bs @ '')'') st
      else case s_stack st of
        [] \<Rightarrow> emit (bs @ '')'') st
      | pl # pls \<Rightarrow>
          let st1 = emit (pl_close pl) ((clearStateChar st)\<lparr>s_hasMagic := True, s_stack := pls\<rparr>)
          in if pl_kind pl = CHR ''!''
             then st1\<lparr>s_negative := s_negative st1 @ [pl\<lparr>pl_reEnd := length (s_re st1)\<rparr>]\<rparr>
             else st1)"

definition source_pipe :: "source_state \<Rightarrow> source_state" where
  "source_pipe st =
     (if s_class st \<noteq> None \<or> s_stack st = [] \<or> s_escaping st
      then (emit (bs @ ''|'') st)\<lparr>s_escaping := False\<rparr>
      else emit ''|'' (clearStateChar st))"

definition source_lbracket :: "nat \<Rightarrow> source_state \<Rightarrow> source_state" where
  "source_lbracket i st0 =
     (let st = clearStateChar st0
      in if s_class st \<noteq> None then emit (bs @ ''['') st
         else emit ''['' (st\<lparr>s_class := Some (i, length (s_re st))\<rparr>))"

definition source_rbracket ::
    "glob_options \<Rightarrow> glob_env \<Rightarrow> string \<Rightarrow> nat \<Rightarrow> source_state \<Rightarrow> source_step" where
  "source_rbracket opts env pattern i st =
     (case s_class st of
        None \<Rightarrow> Source_next ((emit (bs @ '']'') st)\<lparr>s_escaping := False\<rparr>)
      | Some (classStart, reClassStart) \<Rightarrow>
          if i = classStart + 1 then Source_next ((emit (bs @ '']'') st)\<lparr>s_escaping := False\<rparr>)
          else if drop reClassStart (s_re st) = ''[^''
          then Source_next (st\<lparr>s_re := take reClassStart (s_re st) @ anyChar, s_hasMagic := True, s_class := None\<rparr>)
          else if \<not> isValidJSClass env (take (i + 1 - classStart) (drop classStart pattern))
          then Source_rewalk classStart reClassStart
          else Source_next
            (emit '']'' (st\<lparr>s_hasMagic := True, s_class := None,
               s_re := (if NoCase opts
                        then take (reClassStart + 1) (s_re st) @ CaseCloseClass env (drop (reClassStart + 1) (s_re st))
                        else s_re st)\<rparr>)))"

definition is_special :: "nat \<Rightarrow> bool" where
  "is_special c = (c \<in> of_char ` set reSpecials)"

definition source_default :: "glob_options \<Rightarrow> glob_env \<Rightarrow> nat \<Rightarrow> source_state \<Rightarrow> source_state" where
  "source_default opts env c st0 =
     (let st = clearStateChar st0;
          st1 = (if s_escaping st then st\<lparr>s_escaping := False\<rparr>
                 else if is_special c \<and> (c \<noteq> rune CHR ''^'' \<or> s_class st = None) then emit bs st
                 else st)
      in if 0xFFFF < c then emit (codeUnitEscape (fst (EncodeRune c)) @ codeUnitEscape (snd (EncodeRune c))) st1
         else if surrogate c then emit (codeUnitEscape c) st1
         else case (if NoCase opts \<and> s_class st1 = None then CaseClass env c else None) of
                Some class \<Rightarrow> emit class st1
              | None \<Rightarrow> emit (WriteRune c) st1)"

definition source_char ::
    "glob_options \<Rightarrow> glob_env \<Rightarrow> string \<Rightarrow> nat \<Rightarrow> nat \<Rightarrow> source_state \<Rightarrow> source_step" where
  "source_char opts env pattern i c st =
     (if s_escaping st \<and> is_special c
      then Source_next ((emit (bs @ [char_of c]) st)\<lparr>s_escaping := False\<rparr>)
      else if c = rune CHR ''/'' then Source_fail
      else if c = rune backslash then Source_next ((clearStateChar st)\<lparr>s_escaping := True\<rparr>)
      else if c \<in> of_char ` set ''?*+@!'' then Source_next (source_wildcard opts i (char_of c) st)
      else if c = rune CHR ''('' then Source_next (source_open st)
      else if c = rune CHR '')'' then Source_next (source_close st)
      else if c = rune CHR ''|'' then Source_next (source_pipe st)
      else if c = rune CHR ''['' then Source_next (source_lbracket i st)
      else if c = rune CHR '']'' then source_rbracket opts env pattern i st
      else Source_next (source_default opts env c st))"

definition pattern_start :: "glob_options \<Rightarrow> string \<Rightarrow> string" where
  "pattern_start opts pattern =
     (if hd pattern = CHR ''.'' then []
      else if Dot opts then ''(?!(?:^|/)'' @ bs @ ''.{1,2}(?:$|/))''
      else ''(?!'' @ bs @ ''.)'')"

text \<open>The lists that never closed, innermost first.\<close>

definition list_opener :: "char \<Rightarrow> string" where
  "list_opener k = (if k = CHR ''*'' then star else if k = CHR ''?'' then qmark else bs @ [k])"

fun close_lists :: "patternListItem list \<Rightarrow> source_state \<Rightarrow> source_state" where
  "close_lists [] st = st\<lparr>s_stack := []\<rparr>"
| "close_lists (pl # pls) st =
     (let tail = escapeTailPipes 0 (drop (pl_reStart pl + length (pl_open pl)) (s_re st))
      in close_lists pls
           (st\<lparr>s_hasMagic := True,
               s_re := take (pl_reStart pl) (s_re st) @ list_opener (pl_kind pl) @ bs @ ''('' @ tail\<rparr>))"

text \<open>A negated list looks ahead to the end of the part; the last list is rewritten first.\<close>

definition rewrite_negative :: "bool \<Rightarrow> patternListItem \<Rightarrow> string \<Rightarrow> string" where
  "rewrite_negative isSub nl re =
     (let reStart = int (pl_reStart nl); reEnd = int (pl_reEnd nl);
          before = jsSlice re 0 reStart;
          first = jsSlice re reStart (reEnd - 8);
          after0 = jsSlice re reEnd (int (length re));
          last_part = jsSlice re (reEnd - 8) reEnd @ after0;
          after = (dropFirstCloseParen ^^ count_list before CHR ''('') after0;
          dollar = (if after = [] \<and> \<not> isSub then ''$'' else [])
      in before @ first @ after @ dollar @ last_part)"

definition source_finish :: "glob_options \<Rightarrow> string \<Rightarrow> bool \<Rightarrow> source_state \<Rightarrow> string \<times> bool" where
  "source_finish opts pattern isSub st0 =
     (let st1 = clearStateChar (close_lists (s_stack st0) st0);
          st = (if s_escaping st1 then emit (bs @ bs) st1 else st1);
          addPatternStart = (s_re st \<noteq> [] \<and> hd (s_re st) \<in> set ''.[('');
          re1 = foldr (rewrite_negative isSub) (s_negative st) (s_re st);
          re2 = (if re1 \<noteq> [] \<and> s_hasMagic st then ''(?='' @ nonTerminator @ '')'' @ re1 else re1)
      in (if addPatternStart then pattern_start opts pattern @ re2 else re2, s_hasMagic st))"

definition source_init :: "glob_options \<Rightarrow> source_state" where
  "source_init opts = \<lparr>s_re = [], s_hasMagic = NoCase opts, s_escaping = False, s_stack = [], s_negative = [],
     s_stateChar = None, s_class = None\<rparr>"

text \<open>The result of a re-walk, spliced in; a part that cannot be translated yields the empty source.\<close>

definition splice :: "nat \<Rightarrow> string \<Rightarrow> (string \<times> bool) option \<Rightarrow> source_state \<Rightarrow> source_state" where
  "splice reClassStart closing sub st =
     (let (source, sourceMagic) = (case sub of None \<Rightarrow> ([], False) | Some r \<Rightarrow> r)
      in st\<lparr>s_re := take reClassStart (s_re st) @ bs @ ''['' @ source @ closing,
            s_hasMagic := s_hasMagic st \<or> sourceMagic, s_class := None\<rparr>)"

function (sequential) parseSource :: "glob_options \<Rightarrow> glob_env \<Rightarrow> string \<Rightarrow> bool \<Rightarrow> (string \<times> bool) option"
and source_loop :: "glob_options \<Rightarrow> glob_env \<Rightarrow> string \<Rightarrow> nat \<Rightarrow> source_state \<Rightarrow> source_state option" where
  "parseSource opts env pattern isSub =
     (if overMaxPatternLength pattern then None
      else if pattern = [] then Some ([], NoCase opts)
      else case source_loop opts env pattern 0 (source_init opts) of
             None \<Rightarrow> None
           | Some st \<Rightarrow>
               Some (source_finish opts pattern isSub
                 (case s_class st of
                    None \<Rightarrow> st
                  | Some (classStart, reClassStart) \<Rightarrow>
                      splice reClassStart [] (parseSource opts env (drop (Suc classStart) pattern) True) st)))"
| "source_loop opts env pattern i st =
     (if length pattern \<le> i then Some st
      else let (c, n) = decodeStringRune (drop i pattern)
           in case source_char opts env pattern i c st of
                Source_fail \<Rightarrow> None
              | Source_next st' \<Rightarrow> source_loop opts env pattern (i + n) st'
              | Source_rewalk classStart reClassStart \<Rightarrow>
                  source_loop opts env pattern (i + n)
                    (splice reClassStart (bs @ '']'')
                       (parseSource opts env (drop (Suc classStart) (take i pattern)) True) st))"
  by pat_completeness auto
termination
proof (relation "measures [\<lambda>x. case x of Inl (opts, env, pattern, isSub) \<Rightarrow> length pattern | Inr (opts, env, pattern, i, st) \<Rightarrow> length pattern,
    \<lambda>x. case x of Inl (opts, env, pattern, isSub) \<Rightarrow> Suc (length pattern) | Inr (opts, env, pattern, i, st) \<Rightarrow> length pattern - i]",
    goal_cases)
qed (auto dest!: decodeStringRune_size [OF sym])

declare parseSource.simps [simp del] source_loop.simps [simp del]

section \<open>Compiling a pattern\<close>

record patternPart =
  globstar :: bool
  part_literal :: string
  part_re :: "string option"
  asciiNoCase :: bool

definition literal_part :: "string \<Rightarrow> patternPart" where
  "literal_part s = \<lparr>globstar = False, part_literal = s, part_re = None, asciiNoCase = False\<rparr>"

definition globstar_part :: patternPart where
  "globstar_part = \<lparr>globstar = True, part_literal = [], part_re = None, asciiNoCase = False\<rparr>"

record Matcher =
  m_options :: glob_options
  m_pattern :: string
  m_negate :: bool
  m_comment :: bool
  m_empty :: bool
  m_invalid :: bool
  m_set :: "patternPart list list"

text \<open>\<open>splitSlashes\<close>: a run of slashes separates two parts.\<close>

function splitSlashes :: "string \<Rightarrow> string list" where
  "splitSlashes [] = [[]]"
| "splitSlashes (c # s) =
     (if c = CHR ''/'' then [] # splitSlashes (dropWhile (\<lambda>d. d = CHR ''/'') s)
      else case splitSlashes s of [] \<Rightarrow> [[c]] | p # ps \<Rightarrow> (c # p) # ps)"
  by pat_completeness auto
termination by (relation "measure length") (auto simp: le_imp_less_Suc length_dropWhile_le)

definition case_blind :: "glob_options \<Rightarrow> string \<Rightarrow> bool" where
  "case_blind opts pattern =
     (NoCase opts \<and> \<not> (\<exists>c \<in> set pattern. c \<in> set (''*?[]'' @ bs @ ''!+@()'' @ [char_of (0x0D :: nat), char_of (0x0A :: nat)]))
      \<and> (\<forall>r \<in> set (go_runes pattern). r < 0x80))"

definition parsePart :: "glob_options \<Rightarrow> glob_env \<Rightarrow> string \<Rightarrow> patternPart option" where
  "parsePart opts env pattern0 =
     (if pattern0 = ''**'' \<and> \<not> NoGlobStar opts then Some globstar_part
      else let pattern = (if pattern0 = ''**'' then ''*'' else pattern0)
           in if pattern = [] then Some (literal_part [])
              else if case_blind opts pattern then Some (literal_part pattern\<lparr>asciiNoCase := True\<rparr>)
              else case parseSource opts env pattern False of
                     None \<Rightarrow> None
                   | Some (source, hasMagic) \<Rightarrow>
                       if \<not> hasMagic then Some (literal_part (CombineSurrogatePairs (globUnescape pattern)))
                       else let src = ''^'' @ endAnchors source @ bs @ ''z''
                            in Some (literal_part []\<lparr>part_re := Some (if regexp_Compile env src then src else neverMatches)\<rparr>))"

definition count_bangs :: "string \<Rightarrow> nat" where
  "count_bangs pattern = length (takeWhile (\<lambda>c. c = CHR ''!'') pattern)"

definition parseNegate :: "Matcher \<Rightarrow> Matcher" where
  "parseNegate m =
     (if NoNegate (m_options m) then m
      else let offset = count_bangs (m_pattern m)
           in m\<lparr>m_negate := (if odd offset then \<not> m_negate m else m_negate m), m_pattern := drop offset (m_pattern m)\<rparr>)"

definition braceExpand :: "glob_env \<Rightarrow> Matcher \<Rightarrow> string list option" where
  "braceExpand env m =
     (if NoBrace (m_options m) then Some [m_pattern m]
      else case regexp_Match env braceShortcut (go_runes (m_pattern m)) of
             Some True \<Rightarrow> BraceExpand (expandSequence env) (m_pattern m)
           | _ \<Rightarrow> Some [m_pattern m])"

definition compile_row :: "glob_options \<Rightarrow> glob_env \<Rightarrow> string \<Rightarrow> patternPart list option" where
  "compile_row opts env expansion = those (map (parsePart opts env) (splitSlashes expansion))"

text \<open>\<open>make\<close>; \<^term>\<open>None\<close> when the expansion runs out of fuel, which \<open>BraceExpand_terminates\<close> excludes.\<close>

definition make_matcher :: "glob_env \<Rightarrow> Matcher \<Rightarrow> Matcher option" where
  "make_matcher env m =
     (if \<not> NoComment (m_options m) \<and> has_prefix (m_pattern m) ''#'' then Some (m\<lparr>m_comment := True\<rparr>)
      else if m_pattern m = [] then Some (m\<lparr>m_empty := True\<rparr>)
      else let m1 = parseNegate m
           in map_option (\<lambda>expansions. m1\<lparr>m_set := m_set m1 @ List.map_filter (compile_row (m_options m) env) expansions\<rparr>)
                (braceExpand env m1))"

definition New :: "glob_env \<Rightarrow> string \<Rightarrow> glob_options \<Rightarrow> Matcher option" where
  "New env pattern opts =
     (let m = \<lparr>m_options = opts, m_pattern = pattern, m_negate = False, m_comment = False, m_empty = False,
               m_invalid = False, m_set = []\<rparr>
      in if overMaxPatternLength pattern then Some (m\<lparr>m_invalid := True\<rparr>)
         else make_matcher env (if PreserveWhitespace opts then m else m\<lparr>m_pattern := StringTrim pattern\<rparr>))"

section \<open>Matching a part\<close>

definition isDotPart :: "glob_options \<Rightarrow> string \<Rightarrow> bool" where
  "isDotPart opts part = (part = ''.'' \<or> part = ''..'' \<or> \<not> Dot opts \<and> has_prefix part ''.'')"

definition same_letters :: "glob_env \<Rightarrow> string \<Rightarrow> string \<Rightarrow> bool" where
  "same_letters env name lit =
     list_all2 (\<lambda>a b. of_char a < (0x80 :: nat) \<and> Canonicalize env (of_char a) = Canonicalize env (of_char b)) name lit"

definition part_match :: "glob_env \<Rightarrow> patternPart \<Rightarrow> string \<Rightarrow> bool" where
  "part_match env p name =
     (if asciiNoCase p
      then name = part_literal p \<or> length name = length (part_literal p) \<and> same_letters env name (part_literal p)
      else case part_re p of
             None \<Rightarrow> name = part_literal p
                \<or> char_of (0xED :: nat) \<in> set name \<and> CombineSurrogatePairs name = part_literal p
           | Some re \<Rightarrow> regexp_Match env re (StringCodeUnitRunes name) = Some True)"

section \<open>Matching a row\<close>

text \<open>The loop over the parts a \<open>**\<close> may swallow; \<open>match\<close> is the recursive call, which returns the
  updated table of failed pairs.\<close>

function globstar_loop ::
    "glob_options \<Rightarrow> string list \<Rightarrow> nat \<Rightarrow> nat \<Rightarrow> (nat \<Rightarrow> bool list \<Rightarrow> bool \<times> bool list) \<Rightarrow> nat \<Rightarrow> bool list
       \<Rightarrow> bool \<times> bool list" where
  "globstar_loop opts file pl pi match fr failed =
     (if length file \<le> fr then (Partial opts, failed)
      else let state = fr * (pl + 1) + pi + 1
           in if failed ! state
              then (if isDotPart opts (file ! fr) then (False, failed)
                    else globstar_loop opts file pl pi match (fr + 1) failed)
              else let (found, failed1) = match fr failed
                   in if found then (True, failed1)
                      else let failed2 = failed1[state := True]
                           in if isDotPart opts (file ! fr) then (False, failed2)
                              else globstar_loop opts file pl pi match (fr + 1) failed2)"
  by auto
termination by (relation "measure (\<lambda>(opts, file, pl, pi, match, fr, failed). length file - fr)") auto

declare globstar_loop.simps [simp del]

text \<open>The table is \<^term>\<open>[]\<close> as long as it is not allocated.\<close>

function matchOneFrom ::
    "glob_options \<Rightarrow> glob_env \<Rightarrow> string list \<Rightarrow> patternPart list \<Rightarrow> nat \<Rightarrow> nat \<Rightarrow> bool list \<Rightarrow> bool \<times> bool list" where
  "matchOneFrom opts env file row fi pi failed =
     (let fl = length file; pl = length row
      in if fi < fl \<and> pi < pl
         then (if globstar (row ! pi)
               then (if pi + 1 = pl then (\<not> list_ex (isDotPart opts) (drop fi file), failed)
                     else globstar_loop opts file pl pi (\<lambda>fr table. matchOneFrom opts env file row fr (pi + 1) table) fi
                            (if failed = [] then replicate (fl * (pl + 1)) False else failed))
               else if \<not> part_match env (row ! pi) (file ! fi) then (False, failed)
               else matchOneFrom opts env file row (fi + 1) (pi + 1) failed)
         else (if fi = fl \<and> pi = pl then True
               else if fi = fl then Partial opts
               else fi = fl - 1 \<and> file ! fi = [], failed))"
  by auto
termination by (relation "measure (\<lambda>(opts, env, file, row, fi, pi, failed). length row - pi)") auto

declare matchOneFrom.simps [simp del]

section \<open>Partial matching\<close>

record partialGlobStarSection =
  sec_parts :: "patternPart list"
  sec_after :: int

definition matchPartialPartsAt :: "glob_env \<Rightarrow> string list \<Rightarrow> patternPart list \<Rightarrow> nat \<Rightarrow> bool" where
  "matchPartialPartsAt env file parts fileIndex =
     (if length file < fileIndex then False
      else list_all (\<lambda>(part, name). \<not> globstar part \<and> part_match env part name) (zip parts (drop fileIndex file)))"

text \<open>The runs of ordinary parts between two \<open>**\<close> of \<open>body\<close>, and the number of ordinary parts before
  each of them.\<close>

fun section_parts :: "patternPart list \<Rightarrow> patternPart list list" where
  "section_parts [] = [[]]"
| "section_parts (p # ps) =
     (if globstar p then [] # section_parts ps
      else case section_parts ps of [] \<Rightarrow> [[p]] | s # ss \<Rightarrow> (p # s) # ss)"

fun section_sums :: "nat \<Rightarrow> patternPart list \<Rightarrow> nat list" where
  "section_sums n [] = []"
| "section_sums n (p # ps) = (if globstar p then n # section_sums n ps else section_sums (Suc n) ps)"

definition glob_sections :: "string list \<Rightarrow> patternPart list \<Rightarrow> partialGlobStarSection list" where
  "glob_sections file body =
     (let parts = section_parts body; sums = 0 # section_sums 0 body
      in map (\<lambda>(ps, s). \<lparr>sec_parts = ps, sec_after = int (length file) - int (s + length ps)\<rparr>) (zip parts (rev sums)))"

text \<open>The loop that places one section; \<open>place\<close> is the recursive call for the next one.  The entry
  \<open>state\<close> is recorded when the section fails.\<close>

type_synonym failed_states = "(nat \<times> nat) list"

function section_loop ::
    "glob_options \<Rightarrow> glob_env \<Rightarrow> string list \<Rightarrow> partialGlobStarSection \<Rightarrow> nat \<times> nat
       \<Rightarrow> (nat \<Rightarrow> failed_states \<Rightarrow> bool \<times> failed_states) \<Rightarrow> nat \<Rightarrow> failed_states \<Rightarrow> bool \<times> failed_states" where
  "section_loop opts env file sec state place fileIndex failed =
     (if sec_after sec < int fileIndex then (True, failed)
      else let (placed, failed1) =
                 (if matchPartialPartsAt env file (sec_parts sec) fileIndex
                  then place (fileIndex + length (sec_parts sec)) failed else (False, failed))
           in if placed then (True, failed1)
              else if length file \<le> fileIndex
              then (if Dot opts then section_loop opts env file sec state place (fileIndex + 1) failed1
                    else (False, state # failed1))
              else if isDotPart opts (file ! fileIndex) then (False, state # failed1)
              else section_loop opts env file sec state place (fileIndex + 1) failed1)"
  by auto
termination
  by (relation "measure (\<lambda>(opts, env, file, sec, state, place, fileIndex, failed). nat (sec_after sec + 1 - int fileIndex))") auto

declare section_loop.simps [simp del]

fun matchPartialGlobStarSections ::
    "glob_options \<Rightarrow> glob_env \<Rightarrow> string list \<Rightarrow> partialGlobStarSection list \<Rightarrow> nat \<Rightarrow> nat \<Rightarrow> failed_states
       \<Rightarrow> bool \<times> failed_states" where
  "matchPartialGlobStarSections opts env file [] fileIndex sectionIndex failed =
     (if (fileIndex, sectionIndex) \<in> set failed then (False, failed)
      else let rest = drop fileIndex file
           in if list_ex (isDotPart opts) rest \<or> rest = [] then (False, (fileIndex, sectionIndex) # failed)
              else (True, failed))"
| "matchPartialGlobStarSections opts env file (sec # sections) fileIndex sectionIndex failed =
     (if (fileIndex, sectionIndex) \<in> set failed then (False, failed)
      else section_loop opts env file sec (fileIndex, sectionIndex)
             (\<lambda>fi table. matchPartialGlobStarSections opts env file sections fi (sectionIndex + 1) table) fileIndex failed)"

definition matchPartialGlobStar ::
    "glob_options \<Rightarrow> glob_env \<Rightarrow> string list \<Rightarrow> patternPart list \<Rightarrow> nat \<Rightarrow> bool" where
  "matchPartialGlobStar opts env file row firstGlobStar =
     (if \<not> matchPartialPartsAt env file (take firstGlobStar row) 0 then False
      else let body = drop (firstGlobStar + 1) row
           in if body = [] then \<not> list_ex (isDotPart opts) (drop firstGlobStar file)
              else fst (matchPartialGlobStarSections opts env file (glob_sections file body) firstGlobStar 0 []))"

definition matchOne :: "glob_options \<Rightarrow> glob_env \<Rightarrow> string list \<Rightarrow> patternPart list \<Rightarrow> bool" where
  "matchOne opts env file row =
     (if Partial opts \<and> list_ex globstar row
      then matchPartialGlobStar opts env file row (length (takeWhile (\<lambda>p. \<not> globstar p) row))
      else fst (matchOneFrom opts env file row 0 0 []))"

section \<open>Matching a path\<close>

definition path_basename :: "string list \<Rightarrow> string" where
  "path_basename parts = (case find (\<lambda>p. p \<noteq> []) (rev parts) of None \<Rightarrow> [] | Some p \<Rightarrow> p)"

definition Matcher_Match :: "glob_env \<Rightarrow> Matcher \<Rightarrow> string \<Rightarrow> bool" where
  "Matcher_Match env m path =
     (if m_invalid m \<or> m_comment m then False
      else if m_empty m then path = []
      else if Partial (m_options m) \<and> path = ''/'' then True
      else
        let parts = splitSlashes path;
            basename = path_basename parts;
            hit = list_ex (\<lambda>row. matchOne (m_options m) env
                    (if MatchBase (m_options m) \<and> length row = 1 then [basename] else parts) row) (m_set m)
        in if hit then (if FlipNegate (m_options m) then True else \<not> m_negate m)
           else if FlipNegate (m_options m) then False else m_negate m)"

definition Match :: "glob_env \<Rightarrow> string \<Rightarrow> string \<Rightarrow> glob_options \<Rightarrow> bool option" where
  "Match env pattern path opts = map_option (\<lambda>m. Matcher_Match env m path) (New env pattern opts)"

section \<open>What a row means\<close>

text \<open>The reference: a row of parts against the parts of a path, with no table and no offsets.\<close>

fun row_matches :: "glob_options \<Rightarrow> glob_env \<Rightarrow> string list \<Rightarrow> patternPart list \<Rightarrow> bool" where
  "row_matches opts env [] [] = True"
| "row_matches opts env [] (p # ps) = Partial opts"
| "row_matches opts env (f # fs) [] = (f = [] \<and> fs = [])"
| "row_matches opts env (f # fs) (p # ps) =
     (if globstar p
      then (if ps = [] then \<not> list_ex (isDotPart opts) (f # fs)
            else (\<exists>k \<in> set [0..<length (f # fs)].
                    \<not> list_ex (isDotPart opts) (take k (f # fs)) \<and> row_matches opts env (drop k (f # fs)) ps)
               \<or> Partial opts \<and> \<not> list_ex (isDotPart opts) (f # fs))
      else part_match env p f \<and> row_matches opts env fs ps)"

section \<open>The table of failed pairs changes nothing\<close>

text \<open>What a \<open>**\<close> that is not last swallows, one part at a time.\<close>

definition swallow :: "glob_options \<Rightarrow> glob_env \<Rightarrow> string list \<Rightarrow> patternPart list \<Rightarrow> bool" where
  "swallow opts env fs ps \<longleftrightarrow>
     (\<exists>k < length fs. \<not> list_ex (isDotPart opts) (take k fs) \<and> row_matches opts env (drop k fs) ps)
     \<or> Partial opts \<and> \<not> list_ex (isDotPart opts) fs"

lemma swallow_Nil [simp]: "swallow opts env [] ps = Partial opts"
  by (simp add: swallow_def)

lemma swallow_Cons:
  "swallow opts env (f # fs) ps \<longleftrightarrow>
     row_matches opts env (f # fs) ps \<or> \<not> isDotPart opts f \<and> swallow opts env fs ps"
proof -
  have "(\<exists>k < length (f # fs). \<not> list_ex (isDotPart opts) (take k (f # fs)) \<and> row_matches opts env (drop k (f # fs)) ps) \<longleftrightarrow>
      row_matches opts env (f # fs) ps \<or> (\<not> isDotPart opts f \<and>
        (\<exists>k < length fs. \<not> list_ex (isDotPart opts) (take k fs) \<and> row_matches opts env (drop k fs) ps))"
    by (simp add: Ex_less_Suc2) blast
  then show ?thesis by (auto simp: swallow_def)
qed

lemma ex_upt: "(\<exists>k \<in> set [0..<n]. P k) \<longleftrightarrow> (\<exists>k < n. P k)"
  by auto

lemma row_matches_globstar:
  "globstar p \<Longrightarrow> ps \<noteq> [] \<Longrightarrow> row_matches opts env (f # fs) (p # ps) = swallow opts env (f # fs) ps"
  by (simp only: row_matches.simps if_True if_False ex_upt swallow_def)

definition table_ok ::
    "glob_options \<Rightarrow> glob_env \<Rightarrow> string list \<Rightarrow> patternPart list \<Rightarrow> bool list \<Rightarrow> bool" where
  "table_ok opts env file row failed \<longleftrightarrow>
     length failed = length file * (length row + 1) \<and>
     (\<forall>fr < length file. \<forall>q \<le> length row.
        failed ! (fr * (length row + 1) + q) \<longrightarrow> \<not> row_matches opts env (drop fr file) (drop q row))"

lemma table_index:
  assumes "(fr :: nat) < fl" and "q \<le> pl"
  shows "fr * (pl + 1) + q < fl * (pl + 1)"
proof -
  have "fr * (pl + 1) + q < (fr + 1) * (pl + 1)" using assms(2) by (simp add: algebra_simps)
  also have "\<dots> \<le> fl * (pl + 1)" using assms(1) by (intro mult_le_mono1) simp
  finally show ?thesis .
qed

lemma table_index_inj:
  assumes "a * (pl + 1) + q = b * (pl + 1) + r" and "q \<le> pl" and "r \<le> (pl :: nat)"
  shows "a = b \<and> q = r"
proof -
  define n where "n = pl + 1"
  have eq: "a * n + q = b * n + r" "q < n" "r < n" using assms by (simp_all add: n_def)
  have "(a * n + q) div n = a" using eq(2) by simp
  moreover have "(b * n + r) div n = b" using eq(3) by simp
  ultimately have "a = b" using eq(1) by simp
  with eq(1) show ?thesis by simp
qed

lemma table_ok_empty: "table_ok opts env file row (replicate (length file * (length row + 1)) False)"
  unfolding table_ok_def using table_index by (metis length_replicate nth_replicate)

lemma table_ok_update:
  assumes "table_ok opts env file row failed" and "fr < length file" and "q \<le> length row"
    and "\<not> row_matches opts env (drop fr file) (drop q row)"
  shows "table_ok opts env file row (failed[fr * (length row + 1) + q := True])"
proof -
  have "\<not> row_matches opts env (drop a file) (drop b row)"
    if "a < length file" "b \<le> length row"
      "failed[fr * (length row + 1) + q := True] ! (a * (length row + 1) + b)" for a b
  proof (cases "a * (length row + 1) + b = fr * (length row + 1) + q")
    case True
    then show ?thesis using table_index_inj [OF True that(2) assms(3)] assms(4) by simp
  next
    case False
    then show ?thesis using assms(1) that by (simp add: table_ok_def)
  qed
  then show ?thesis using assms(1) by (simp add: table_ok_def)
qed

definition meets :: "bool \<times> bool list \<Rightarrow> bool \<Rightarrow> (bool list \<Rightarrow> bool) \<Rightarrow> bool" where
  "meets r b P \<longleftrightarrow> fst r = b \<and> P (snd r)"

lemma globstar_loop_swallow:
  assumes match: "\<And>fr table. fr < length file \<Longrightarrow> table_ok opts env file row table \<Longrightarrow>
      meets (match fr table) (row_matches opts env (drop fr file) (drop (Suc pi) row)) (table_ok opts env file row)"
    and "Suc pi \<le> length row"
  shows "table_ok opts env file row failed \<Longrightarrow>
    meets (globstar_loop opts file (length row) pi match fr failed)
      (swallow opts env (drop fr file) (drop (Suc pi) row)) (table_ok opts env file row)"
proof (induction "length file - fr" arbitrary: fr failed)
  case 0
  then show ?case by (simp add: globstar_loop.simps [of _ _ _ _ _ fr] meets_def)
next
  case (Suc n)
  then have fr: "fr < length file" "n = length file - Suc fr" by simp_all
  have cons: "drop fr file = file ! fr # drop (Suc fr) file" using fr(1) by (simp add: Cons_nth_drop_Suc)
  let ?rm = "row_matches opts env (drop fr file) (drop (Suc pi) row)"
  let ?state = "fr * (length row + 1) + pi + 1"
  have sw: "swallow opts env (drop fr file) (drop (Suc pi) row) \<longleftrightarrow>
      ?rm \<or> \<not> isDotPart opts (file ! fr) \<and> swallow opts env (drop (Suc fr) file) (drop (Suc pi) row)"
    using swallow_Cons [of opts env "file ! fr" "drop (Suc fr) file" "drop (Suc pi) row"] cons by simp
  have go_on: "meets (if isDotPart opts (file ! fr) then (False, table)
        else globstar_loop opts file (length row) pi match (fr + 1) table)
      (swallow opts env (drop fr file) (drop (Suc pi) row)) (table_ok opts env file row)"
    if "table_ok opts env file row table" "\<not> ?rm" for table
    using Suc.hyps(1) [OF fr(2) that(1)] that sw by (simp add: meets_def)
  show ?case
  proof (cases "failed ! ?state")
    case True
    have "\<forall>q \<le> length row. failed ! (fr * (length row + 1) + q) \<longrightarrow> \<not> row_matches opts env (drop fr file) (drop q row)"
      using Suc.prems fr(1) by (simp add: table_ok_def)
    from this [rule_format, of "Suc pi"] True assms(2) have "\<not> ?rm" by simp
    then show ?thesis
      using go_on [OF Suc.prems] True fr(1) by (simp add: globstar_loop.simps [of _ _ _ _ _ fr] del: drop_Suc)
  next
    case False
    obtain found failed1 where m: "match fr failed = (found, failed1)" by fastforce
    then have found: "found = ?rm" "table_ok opts env file row failed1"
      using match [OF fr(1) Suc.prems] by (simp_all add: meets_def)
    show ?thesis
    proof (cases found)
      case True
      then show ?thesis
        using False fr(1) m found sw by (simp add: globstar_loop.simps [of _ _ _ _ _ fr] meets_def)
    next
      case F: False
      then have "table_ok opts env file row (failed1[?state := True])"
        using table_ok_update [OF found(2) fr(1) assms(2)] found(1) by simp
      moreover have "globstar_loop opts file (length row) pi match fr failed =
          (if isDotPart opts (file ! fr) then (False, failed1[?state := True])
           else globstar_loop opts file (length row) pi match (fr + 1) (failed1[?state := True]))"
        using False F fr(1) m by (simp add: globstar_loop.simps [of _ _ _ _ _ fr] Let_def)
      ultimately show ?thesis using go_on found(1) F by simp
    qed
  qed
qed

definition table_or_nil ::
    "glob_options \<Rightarrow> glob_env \<Rightarrow> string list \<Rightarrow> patternPart list \<Rightarrow> bool list \<Rightarrow> bool" where
  "table_or_nil opts env file row failed \<longleftrightarrow> failed = [] \<or> table_ok opts env file row failed"

definition row_result ::
    "glob_options \<Rightarrow> glob_env \<Rightarrow> string list \<Rightarrow> patternPart list \<Rightarrow> nat \<Rightarrow> nat \<Rightarrow> bool list \<Rightarrow> bool \<times> bool list \<Rightarrow> bool" where
  "row_result opts env file row fi pi failed r \<longleftrightarrow>
     fst r = row_matches opts env (drop fi file) (drop pi row) \<and> table_or_nil opts env file row (snd r)
     \<and> (failed \<noteq> [] \<longrightarrow> snd r \<noteq> [])"

lemma matchOneFrom_end:
  assumes "fi \<le> length file" and "pi \<le> length row" and "fi = length file \<or> pi = length row"
  shows "matchOneFrom opts env file row fi pi failed = (row_matches opts env (drop fi file) (drop pi row), failed)"
proof (cases "fi = length file")
  case True
  then show ?thesis
    using assms by (subst matchOneFrom.simps) (cases "drop pi row"; auto simp: Let_def)
next
  case False
  then have fi: "fi < length file" "pi = length row" using assms by auto
  then have "drop fi file = file ! fi # drop (Suc fi) file" by (simp add: Cons_nth_drop_Suc)
  then show ?thesis
    using fi by (auto simp: matchOneFrom.simps [of _ _ _ _ fi])
qed

lemma matchOneFrom_row:
  assumes "fi \<le> length file" and "pi \<le> length row" and "table_or_nil opts env file row failed"
  shows "row_result opts env file row fi pi failed (matchOneFrom opts env file row fi pi failed)"
  using assms
proof (induction "length row - pi" arbitrary: fi pi failed)
  case 0
  then show ?case by (simp add: matchOneFrom_end row_result_def)
next
  case (Suc n)
  then have n: "n = length row - Suc pi" "Suc pi \<le> length row" "pi < length row" by simp_all
  show ?case
  proof (cases "fi < length file")
    case False
    then show ?thesis using Suc.prems by (simp add: matchOneFrom_end row_result_def)
  next
    case fi: True
    have f: "drop fi file = file ! fi # drop (Suc fi) file" using fi by (simp add: Cons_nth_drop_Suc)
    have r: "drop pi row = row ! pi # drop (Suc pi) row" using n(3) by (simp add: Cons_nth_drop_Suc)
    show ?thesis
    proof (cases "globstar (row ! pi)")
      case False
      have "row_result opts env file row (Suc fi) (Suc pi) failed (matchOneFrom opts env file row (Suc fi) (Suc pi) failed)"
        using Suc.hyps(1) [OF n(1), of "Suc fi" failed] fi n(2) Suc.prems(3) by simp
      then show ?thesis
        using fi n(3) False Suc.prems(3) f r
        by (simp add: matchOneFrom.simps [of _ _ _ _ fi] row_result_def)
    next
      case gs: True
      show ?thesis
      proof (cases "Suc pi = length row")
        case True
        then show ?thesis
          using fi n(3) gs Suc.prems(3) f r by (simp add: matchOneFrom.simps [of _ _ _ _ fi] row_result_def)
      next
        case False
        define table where "table = (if failed = [] then replicate (length file * (length row + 1)) False else failed)"
        have table: "table_ok opts env file row table" "table \<noteq> []"
          using Suc.prems(3) table_ok_empty fi by (auto simp: table_def table_or_nil_def)
        have ne: "t \<noteq> []" if "table_ok opts env file row t" for t
          using that fi by (auto simp: table_ok_def)
        have "meets (matchOneFrom opts env file row fr (Suc pi) t)
            (row_matches opts env (drop fr file) (drop (Suc pi) row)) (table_ok opts env file row)"
          if "fr < length file" "table_ok opts env file row t" for fr t
          using Suc.hyps(1) [OF n(1), of fr t] that n(2) ne [OF that(2)]
          by (auto simp: row_result_def meets_def table_or_nil_def)
        from globstar_loop_swallow [where match = "\<lambda>fr t. matchOneFrom opts env file row fr (Suc pi) t", OF this n(2) table(1), of fi]
        have "meets (matchOneFrom opts env file row fi pi failed)
            (swallow opts env (drop fi file) (drop (Suc pi) row)) (table_ok opts env file row)"
          using fi n(3) gs False by (simp add: matchOneFrom.simps [of _ _ _ _ fi pi] table_def Let_def)
        moreover have "row_matches opts env (drop fi file) (drop pi row) = swallow opts env (drop fi file) (drop (Suc pi) row)"
          using f r gs False n(2) by (simp only: row_matches_globstar drop_eq_Nil)
        ultimately show ?thesis using ne by (auto simp: row_result_def meets_def table_or_nil_def)
      qed
    qed
  qed
qed

section \<open>Partial matching without the record of failures\<close>

text \<open>Where a section may be placed, and how the sections after it go on.\<close>

function places ::
    "glob_options \<Rightarrow> glob_env \<Rightarrow> string list \<Rightarrow> partialGlobStarSection \<Rightarrow> (nat \<Rightarrow> bool) \<Rightarrow> nat \<Rightarrow> bool" where
  "places opts env file sec continue fileIndex =
     (if sec_after sec < int fileIndex then True
      else matchPartialPartsAt env file (sec_parts sec) fileIndex \<and> continue (fileIndex + length (sec_parts sec))
         \<or> (if length file \<le> fileIndex then Dot opts else \<not> isDotPart opts (file ! fileIndex))
            \<and> places opts env file sec continue (fileIndex + 1))"
  by auto
termination
  by (relation "measure (\<lambda>(opts, env, file, sec, continue, fileIndex). nat (sec_after sec + 1 - int fileIndex))") auto

declare places.simps [simp del]

fun sections_match ::
    "glob_options \<Rightarrow> glob_env \<Rightarrow> string list \<Rightarrow> partialGlobStarSection list \<Rightarrow> nat \<Rightarrow> bool" where
  "sections_match opts env file [] fileIndex =
     (drop fileIndex file \<noteq> [] \<and> \<not> list_ex (isDotPart opts) (drop fileIndex file))"
| "sections_match opts env file (sec # sections) fileIndex =
     places opts env file sec (sections_match opts env file sections) fileIndex"

text \<open>Every recorded pair stands for sections that really fail there.\<close>

definition record_ok ::
    "glob_options \<Rightarrow> glob_env \<Rightarrow> string list \<Rightarrow> partialGlobStarSection list \<Rightarrow> failed_states \<Rightarrow> bool" where
  "record_ok opts env file sections failed \<longleftrightarrow>
     (\<forall>(fi, si) \<in> set failed. si \<le> length sections \<longrightarrow> \<not> sections_match opts env file (drop si sections) fi)"

lemma section_loop_places:
  assumes place: "\<And>fi table. record_ok opts env file all table \<Longrightarrow>
      fst (place fi table) = continue fi \<and> record_ok opts env file all (snd (place fi table))"
    and state: "\<not> places opts env file sec continue fileIndex \<Longrightarrow> \<forall>table. record_ok opts env file all table \<longrightarrow>
      record_ok opts env file all (state # table)"
  shows "record_ok opts env file all failed \<Longrightarrow>
    fst (section_loop opts env file sec state place fileIndex failed) = places opts env file sec continue fileIndex \<and>
    record_ok opts env file all (snd (section_loop opts env file sec state place fileIndex failed))"
  using state
proof (induction "nat (sec_after sec + 1 - int fileIndex)" arbitrary: fileIndex failed)
  case 0
  then show ?case by (simp add: section_loop.simps [of _ _ _ _ _ _ fileIndex] places.simps [of _ _ _ _ _ fileIndex])
next
  case (Suc n)
  then have in_range: "\<not> sec_after sec < int fileIndex" "n = nat (sec_after sec + 1 - int (fileIndex + 1))" by auto
  obtain placed failed1 where p: "(if matchPartialPartsAt env file (sec_parts sec) fileIndex
      then place (fileIndex + length (sec_parts sec)) failed else (False, failed)) = (placed, failed1)" by fastforce
  have placed: "placed = (matchPartialPartsAt env file (sec_parts sec) fileIndex \<and> continue (fileIndex + length (sec_parts sec)))"
    "record_ok opts env file all failed1"
    using p place [of failed "fileIndex + length (sec_parts sec)"] Suc.prems(1) by (auto split: if_splits)
  let ?go = "if length file \<le> fileIndex then Dot opts else \<not> isDotPart opts (file ! fileIndex)"
  have loop: "section_loop opts env file sec state place fileIndex failed =
      (if placed then (True, failed1) else if ?go then section_loop opts env file sec state place (fileIndex + 1) failed1
       else (False, state # failed1))"
    using in_range(1) p by (simp add: section_loop.simps [of _ _ _ _ _ _ fileIndex])
  have pl: "places opts env file sec continue fileIndex = (placed \<or> ?go \<and> places opts env file sec continue (fileIndex + 1))"
    using in_range(1) placed(1) by (simp add: places.simps [of _ _ _ _ _ fileIndex])
  show ?case
  proof (cases "placed \<or> \<not> ?go")
    case True
    then show ?thesis using loop pl placed(2) Suc.prems(2) by auto
  next
    case False
    then show ?thesis
      using Suc.hyps(1) [OF in_range(2) placed(2)] loop pl Suc.prems(2) by auto
  qed
qed

lemma matchPartialGlobStarSections_match:
  assumes "drop si all = sections" and "si \<le> length all" and "record_ok opts env file all failed"
  shows "fst (matchPartialGlobStarSections opts env file sections fi si failed) = sections_match opts env file sections fi \<and>
    record_ok opts env file all (snd (matchPartialGlobStarSections opts env file sections fi si failed))"
  using assms
proof (induction sections arbitrary: si fi failed)
  case Nil
  then show ?case by (auto simp: record_ok_def)
next
  case (Cons sec sections)
  have d: "drop (Suc si) all = sections" "Suc si \<le> length all"
    using Cons.prems(1) by (metis drop_Suc list.sel(3) tl_drop, metis Suc_leI drop_eq_Nil linorder_not_le list.discI)
  show ?case
  proof (cases "(fi, si) \<in> set failed")
    case True
    then show ?thesis using Cons.prems by (auto simp: record_ok_def)
  next
    case False
    let ?place = "\<lambda>fi table. matchPartialGlobStarSections opts env file sections fi (si + 1) table"
    have place: "fst (?place fi table) = sections_match opts env file sections fi \<and>
        record_ok opts env file all (snd (?place fi table))" if "record_ok opts env file all table" for fi table
      using Cons.IH [OF d that, of fi] by simp
    have "\<forall>table. record_ok opts env file all table \<longrightarrow> record_ok opts env file all ((fi, si) # table)"
      if "\<not> places opts env file sec (sections_match opts env file sections) fi"
      using that Cons.prems(1) by (simp add: record_ok_def)
    from section_loop_places [where place = ?place and all = all, OF place this Cons.prems(3)]
    show ?thesis using False by simp
  qed
qed

lemma partial_sections_match:
  "fst (matchPartialGlobStarSections opts env file sections fi 0 []) = sections_match opts env file sections fi"
  using matchPartialGlobStarSections_match [of 0 sections sections opts env "file" "[]" fi] by (simp add: record_ok_def)

section \<open>Correctness of the matcher\<close>

text \<open>What one row accepts in either mode.\<close>

definition row_accepts :: "glob_options \<Rightarrow> glob_env \<Rightarrow> string list \<Rightarrow> patternPart list \<Rightarrow> bool" where
  "row_accepts opts env file row =
     (if Partial opts \<and> list_ex globstar row
      then let before = takeWhile (\<lambda>p. \<not> globstar p) row; body = drop (length before + 1) row
           in matchPartialPartsAt env file before 0
              \<and> (if body = [] then \<not> list_ex (isDotPart opts) (drop (length before) file)
                 else sections_match opts env file (glob_sections file body) (length before))
      else row_matches opts env file row)"

text \<open>Claim C12.  A row of a pattern accepts a path exactly when its meaning does: the tables of failed
  positions that keep several \<open>**\<close> from exploring exponentially many divisions never change an
  answer, neither in exact nor in partial mode.\<close>

theorem matchOne_row_accepts: "matchOne opts env file row = row_accepts opts env file row"
proof (cases "Partial opts \<and> list_ex globstar row")
  case True
  have "take (length (takeWhile (\<lambda>p. \<not> globstar p) row)) row = takeWhile (\<lambda>p. \<not> globstar p) row"
    by (metis append_eq_conv_conj takeWhile_dropWhile_id)
  with True show ?thesis
    by (simp add: matchOne_def row_accepts_def matchPartialGlobStar_def Let_def partial_sections_match)
next
  case False
  then have "matchOne opts env file row = fst (matchOneFrom opts env file row 0 0 [])"
    "row_accepts opts env file row = row_matches opts env file row"
    by (simp_all only: matchOne_def row_accepts_def if_False)
  then show ?thesis
    using matchOneFrom_row [of 0 "file" 0 row opts env "[]"] by (simp add: row_result_def table_or_nil_def)
qed

section \<open>Patterns of names and double stars\<close>

definition plain_glob_char :: "char \<Rightarrow> bool" where
  "plain_glob_char c = (of_char c < (0x80 :: nat) \<and> c \<notin> set ''/?*+@!()[]{'' \<and> c \<noteq> backslash \<and> c \<noteq> nul)"

definition plain_name :: "string \<Rightarrow> bool" where
  "plain_name s = list_all plain_glob_char s"

definition quiet :: "source_state \<Rightarrow> bool" where
  "quiet st = (\<not> s_hasMagic st \<and> \<not> s_escaping st \<and> s_stack st = [] \<and> s_negative st = [] \<and> s_stateChar st = None \<and> s_class st = None)"

lemma clearStateChar_quiet: "quiet st \<Longrightarrow> clearStateChar st = st"
  by (simp add: quiet_def clearStateChar_def)

lemma quiet_emit [simp]: "quiet (emit text st) = quiet st"
  by (simp add: quiet_def emit_def)

lemma rune_mem: "(of_char c :: nat) \<in> of_char ` A \<longleftrightarrow> c \<in> A"
  by (auto simp: image_iff)

lemma source_char_other:
  assumes "c \<notin> set ''/?*+@!()|[]''" and "c \<noteq> backslash" and "\<not> s_escaping st"
  shows "source_char opts env pattern i (of_char c) st = Source_next (source_default opts env (of_char c) st)"
proof -
  have ne: "((of_char c :: nat) = of_char d) = False" if "d \<in> set ''/?*+@!()|[]'' \<or> d = backslash" for d
    using that assms(1,2) by (metis of_char_eq_iff)
  have "((of_char c :: nat) \<in> of_char ` set ''?*+@!'') = False" unfolding rune_mem using assms(1) by simp
  moreover have "(rune c = rune CHR ''/'') = False" "(rune c = rune backslash) = False" "(rune c = rune CHR ''('') = False"
    "(rune c = rune CHR '')'') = False" "(rune c = rune CHR ''|'') = False" "(rune c = rune CHR ''['') = False"
    "(rune c = rune CHR '']'') = False"
    by (rule ne; simp)+
  ultimately show ?thesis using assms(3) by (simp only: source_char_def if_False simp_thms)
qed

lemma source_char_plain:
  assumes "plain_glob_char c" and "quiet st" and "\<not> NoCase opts"
  shows "\<exists>st'. source_char opts env pattern i (of_char c) st = Source_next st' \<and> quiet st'"
proof -
  have c: "c \<notin> set ''/?*+@!()[]''" "c \<noteq> backslash" "of_char c < (0x80 :: nat)"
    using assms(1) by (auto simp: plain_glob_char_def)
  have ascii: "\<not> 0xFFFF < (of_char c :: nat)" "\<not> surrogate (of_char c)" using c(3) by (simp_all add: surrogate_def)
  show ?thesis
  proof (cases "c = CHR ''|''")
    case True
    have "source_char opts env pattern i (of_char c) st = Source_next (source_pipe st)"
      using True assms(2) by (auto simp: source_char_def quiet_def backslash_def)
    moreover have "quiet (source_pipe st)"
      using assms(2) by (simp add: source_pipe_def quiet_def emit_def)
    ultimately show ?thesis by blast
  next
    case False
    have "source_char opts env pattern i (of_char c) st = Source_next (source_default opts env (of_char c) st)"
      using False c assms(2) by (intro source_char_other) (auto simp: quiet_def)
    moreover have "quiet (source_default opts env (of_char c) st)"
      using assms(2,3) ascii clearStateChar_quiet [OF assms(2)] by (simp add: source_default_def Let_def quiet_def emit_def)
    ultimately show ?thesis by blast
  qed
qed

lemma source_loop_plain:
  assumes "plain_name pattern" and "\<not> NoCase opts" and "quiet st"
  shows "\<exists>st'. source_loop opts env pattern i st = Some st' \<and> quiet st'"
  using assms(3)
proof (induction "length pattern - i" arbitrary: i st)
  case 0
  then show ?case by (simp add: source_loop.simps)
next
  case (Suc n)
  then have i: "i < length pattern" "n = length pattern - (i + 1)" by simp_all
  have plain: "plain_glob_char (pattern ! i)" using assms(1) i(1) by (simp add: plain_name_def list_all_length)
  have "drop i pattern = pattern ! i # drop (Suc i) pattern" using i(1) by (simp add: Cons_nth_drop_Suc)
  then have d: "decodeStringRune (drop i pattern) = (of_char (pattern ! i), 1)"
    using plain decodeStringRune_ascii [of "drop i pattern"] by (simp add: plain_glob_char_def)
  obtain st' where st': "source_char opts env pattern i (of_char (pattern ! i)) st = Source_next st'" "quiet st'"
    using source_char_plain [OF plain Suc.prems assms(2)] by blast
  then show ?case using Suc.hyps(1) [OF i(2) st'(2)] i(1) d by (simp add: source_loop.simps [of _ _ _ i])
qed

lemma parseSource_plain:
  assumes "plain_name pattern" and "\<not> NoCase opts" and "length pattern \<le> maxPatternLength" and "pattern \<noteq> []"
  shows "\<exists>source. parseSource opts env pattern False = Some (source, False)"
proof -
  have "quiet (source_init opts)" using assms(2) by (simp add: source_init_def quiet_def)
  then obtain st where st: "source_loop opts env pattern 0 (source_init opts) = Some st" "quiet st"
    using source_loop_plain [OF assms(1,2)] by blast
  have "s_hasMagic (clearStateChar (st\<lparr>s_stack := []\<rparr>)) = False"
    using st(2) by (simp add: clearStateChar_def quiet_def)
  then have "snd (source_finish opts pattern False st) = False"
    using st(2) by (simp add: source_finish_def Let_def quiet_def emit_def clearStateChar_def)
  moreover have "parseSource opts env pattern False = Some (source_finish opts pattern False st)"
    using st assms(3,4) by (simp add: parseSource.simps [of _ _ pattern] overMaxPatternLength_def quiet_def)
  ultimately show ?thesis by (metis prod.collapse)
qed

lemma globUnescape_plain: "backslash \<notin> set s \<Longrightarrow> globUnescape s = s"
  by (induction s rule: globUnescape.induct) auto

definition glob_part :: "string \<Rightarrow> patternPart" where
  "glob_part p = (if p = ''**'' then globstar_part else literal_part p)"

lemma parsePart_plain:
  assumes "p = ''**'' \<or> plain_name p" and "\<not> NoCase opts" and "\<not> NoGlobStar opts" and "length p \<le> maxPatternLength"
  shows "parsePart opts env p = Some (glob_part p)"
proof (cases "p = ''**'' \<or> p = []")
  case True
  then show ?thesis using assms(3) by (auto simp: parsePart_def glob_part_def)
next
  case False
  then have plain: "plain_name p" using assms(1) by simp
  obtain source where "parseSource opts env p False = Some (source, False)"
    using parseSource_plain [OF plain assms(2,4)] False by blast
  moreover have "char_of (0xED :: nat) \<notin> set p" "backslash \<notin> set p"
    using plain by (force simp: plain_name_def list_all_iff plain_glob_char_def)+
  ultimately show ?thesis
    using False assms(2) by (simp add: parsePart_def glob_part_def case_blind_def CombineSurrogatePairs_def globUnescape_plain)
qed

text \<open>The parts of a path that a list of names and double stars describes; \<open>dot\<close> says which names a
  double star does not swallow.\<close>

fun path_matches :: "(string \<Rightarrow> bool) \<Rightarrow> string list \<Rightarrow> string list \<Rightarrow> bool" where
  "path_matches dot [] [] = True"
| "path_matches dot [] (p # ps) = False"
| "path_matches dot (f # fs) [] = (f = [] \<and> fs = [])"
| "path_matches dot (f # fs) (p # ps) =
     (if p = ''**''
      then (if ps = [] then \<not> list_ex dot (f # fs)
            else \<exists>k \<in> set [0..<length (f # fs)]. \<not> list_ex dot (take k (f # fs)) \<and> path_matches dot (drop k (f # fs)) ps)
      else f = p \<and> path_matches dot fs ps)"

definition ascii :: "string \<Rightarrow> bool" where
  "ascii s = list_all (\<lambda>c. of_char c < (0x80 :: nat)) s"

lemma combine_loop_ascii: "ascii (combine_loop s) \<Longrightarrow> combine_loop s = s"
proof (induction s rule: combine_loop.induct)
  case (1 s)
  obtain r n where d: "decodeStringRune s = (r, n)" by fastforce
  obtain low lowSize where l: "decodeStringRune (drop n s) = (low, lowSize)" by fastforce
  show ?case
  proof (cases "s \<noteq> [] \<and> high_surrogate r \<and> low_surrogate low")
    case True
    then have "hasAstralCharacter (WriteRune (DecodeRune r low))"
      using wtf8_astral_byte [OF DecodeRune_range(1,2)] wtf8_DecodeRune by metis
    moreover have "ascii (WriteRune (DecodeRune r low))"
      using 1(3) True d l by (simp add: combine_loop.simps [of s] ascii_def)
    ultimately show ?thesis by (force simp: hasAstralCharacter_def ascii_def list_all_iff)
  next
    case False
    show ?thesis
    proof (cases "s = []")
      case F: False
      then have "combine_loop s = take n s @ combine_loop (drop n s)"
        using d l False by (auto simp: combine_loop.simps [of s])
      moreover have "combine_loop (drop n s) = drop n s"
        using 1(2) [OF F d [symmetric] refl l [symmetric] refl] 1(3) calculation False F by (auto simp: ascii_def)
      ultimately show ?thesis by simp
    qed (simp add: combine_loop.simps)
  qed
qed

lemma part_match_literal:
  assumes "plain_name p"
  shows "part_match env (literal_part p) name \<longleftrightarrow> name = p"
proof -
  have "name = p" if "char_of (0xED :: nat) \<in> set name" "CombineSurrogatePairs name = p"
  proof -
    have "combine_loop name = p" using that by (simp add: CombineSurrogatePairs_def)
    moreover have "ascii p" using assms by (simp add: ascii_def plain_name_def list_all_iff plain_glob_char_def)
    ultimately show ?thesis using combine_loop_ascii [of name] by simp
  qed
  then show ?thesis by (auto simp: part_match_def literal_part_def)
qed

lemma globstar_glob_part: "globstar (glob_part p) \<longleftrightarrow> p = ''**''"
  by (simp add: glob_part_def globstar_part_def literal_part_def)

lemma row_matches_path:
  assumes "\<not> Partial opts" and "\<forall>p \<in> set ps. p = ''**'' \<or> plain_name p"
  shows "row_matches opts env fs (map glob_part ps) = path_matches (isDotPart opts) fs ps"
  using assms(2)
proof (induction "isDotPart opts" fs ps rule: path_matches.induct)
  case (4 f fs p ps)
  show ?case
  proof (cases "p = ''**''")
    case True
    then show ?thesis using 4 assms(1) by (simp add: globstar_glob_part)
  next
    case False
    then have "plain_name p" using 4(3) by simp
    then show ?thesis
      using 4 False part_match_literal [of p env f] by (simp add: globstar_glob_part) (simp add: glob_part_def)
  qed
qed (simp_all add: assms(1))

lemma BraceExpand_no_brace:
  assumes "lbrace \<notin> set s" and "backslash \<notin> set s" and "nul \<notin> set s" and "s \<noteq> []"
  shows "BraceExpand expandSeq s = Some [s]"
proof -
  have "escapeBraces s = s" unfolding escapeBraces_def
    by (rule go_replace_none) (simp add: escapeReplacer_def assms(2))
  moreover have "unescapeBraces s = s" unfolding unescapeBraces_def
    by (rule go_replace_none)
      (simp add: unescapeReplacer_def escSlash_def escOpen_def escClose_def escComma_def escPeriod_def assms(3))
  moreover have "\<not> has_prefix s ''{}''" using assms(1) by (auto simp: has_prefix_iff)
  ultimately show ?thesis
    using assms(1,4) by (simp add: BraceExpand_def expand_fuel_def findBalanced_none)
qed

lemma splitSlashes_not_Nil [simp]: "splitSlashes s \<noteq> []"
  by (induction s rule: splitSlashes.induct) (auto split: list.splits)

lemma mem_dropWhile: "c \<in> set s \<Longrightarrow> \<not> P c \<Longrightarrow> c \<in> set (dropWhile P s)"
  by (induction s) auto

lemma splitSlashes_covers:
  "c \<in> set s \<Longrightarrow> c \<noteq> CHR ''/'' \<Longrightarrow> \<exists>p \<in> set (splitSlashes s). c \<in> set p"
proof (induction s rule: splitSlashes.induct)
  case (2 d s)
  show ?case
  proof (cases "d = CHR ''/''")
    case True
    then have "c \<in> set s" using 2(3,4) by simp
    then have "c \<in> set (dropWhile (\<lambda>d. d = CHR ''/'') s)"
      using 2(4) mem_dropWhile [of c s "\<lambda>d. d = CHR ''/''"] by simp
    then show ?thesis using 2 True by simp
  next
    case False
    then show ?thesis using 2 by (cases "splitSlashes s") auto
  qed
qed simp

lemma splitSlashes_length: "p \<in> set (splitSlashes s) \<Longrightarrow> length p \<le> length s"
proof (induction s arbitrary: p rule: splitSlashes.induct)
  case (2 d s)
  then show ?case
    using length_dropWhile_le [of "\<lambda>d. d = CHR ''/''" s] by (force split: list.splits if_splits)
qed simp

definition star_pattern :: "glob_options \<Rightarrow> string \<Rightarrow> bool" where
  "star_pattern opts pattern =
     (pattern \<noteq> [] \<and> length pattern \<le> maxPatternLength
      \<and> (PreserveWhitespace opts \<or> StringTrim pattern = pattern)
      \<and> (NoComment opts \<or> \<not> has_prefix pattern ''#'')
      \<and> list_all (\<lambda>p. p = ''**'' \<or> plain_name p) (splitSlashes pattern))"

definition exact_options :: "glob_options \<Rightarrow> bool" where
  "exact_options opts = (\<not> Partial opts \<and> \<not> NoCase opts \<and> \<not> NoGlobStar opts \<and> \<not> MatchBase opts)"

lemma star_pattern_chars:
  assumes "star_pattern opts pattern"
  shows "lbrace \<notin> set pattern" and "backslash \<notin> set pattern" and "nul \<notin> set pattern" and "CHR ''!'' \<notin> set pattern"
proof -
  have no: "c \<notin> set pattern" if "c \<noteq> CHR ''/''" "c \<noteq> CHR ''*''" "\<not> plain_glob_char c" for c
  proof
    assume "c \<in> set pattern"
    from splitSlashes_covers [OF this that(1)] obtain p where p: "p \<in> set (splitSlashes pattern)" "c \<in> set p" by blast
    then have "p = ''**'' \<or> plain_name p" using assms by (auto simp: star_pattern_def list_all_iff)
    then show False using p(2) that(2,3) by (auto simp: plain_name_def list_all_iff)
  qed
  show "lbrace \<notin> set pattern" "CHR ''!'' \<notin> set pattern" by (rule no; simp add: plain_glob_char_def)+
  show "backslash \<notin> set pattern" by (rule no) (simp_all add: plain_glob_char_def, code_simp+)
  show "nul \<notin> set pattern" by (rule no) (simp_all add: plain_glob_char_def, code_simp+)
qed

lemma compile_row_star:
  assumes "star_pattern opts pattern" and "exact_options opts"
  shows "compile_row opts env pattern = Some (map glob_part (splitSlashes pattern))"
  unfolding compile_row_def
proof (rule those_map_Some)
  fix p assume p: "p \<in> set (splitSlashes pattern)"
  then have "p = ''**'' \<or> plain_name p" "length p \<le> maxPatternLength"
    using assms(1) splitSlashes_length [OF p] by (auto simp: star_pattern_def list_all_iff)
  then show "parsePart opts env p = Some (glob_part p)"
    using assms(2) by (intro parsePart_plain) (simp_all add: exact_options_def)
qed

lemma New_star:
  assumes "star_pattern opts pattern" and "exact_options opts"
  shows "New env pattern opts = Some \<lparr>m_options = opts, m_pattern = pattern, m_negate = False, m_comment = False,
    m_empty = False, m_invalid = False, m_set = [map glob_part (splitSlashes pattern)]\<rparr>"
proof -
  let ?m = "\<lparr>m_options = opts, m_pattern = pattern, m_negate = False, m_comment = False, m_empty = False,
    m_invalid = False, m_set = []\<rparr>"
  note chars = star_pattern_chars [OF assms(1)]
  have p: "pattern \<noteq> []" "length pattern \<le> maxPatternLength" "NoComment opts \<or> \<not> has_prefix pattern ''#''"
    "PreserveWhitespace opts \<or> StringTrim pattern = pattern"
    using assms(1) by (simp_all add: star_pattern_def)
  have "hd pattern \<noteq> CHR ''!''" using chars(4) p(1) by (metis hd_in_set)
  then have "count_bangs pattern = 0" using p(1) by (cases pattern) (simp_all add: count_bangs_def)
  then have negate: "parseNegate ?m = ?m" by (simp add: parseNegate_def)
  have "braceExpand env ?m = Some [pattern]"
    using BraceExpand_no_brace [OF chars(1-3) p(1)] by (auto simp: braceExpand_def split: option.split bool.split)
  then have "make_matcher env ?m = Some (?m\<lparr>m_set := [map glob_part (splitSlashes pattern)]\<rparr>)"
    using p(1,3) negate compile_row_star [OF assms, of env] by (auto simp: make_matcher_def map_filter_simps)
  then show ?thesis using p(2,4) by (auto simp: New_def overMaxPatternLength_def Let_def)
qed

text \<open>Claim C13.  A pattern of names and double stars matches exactly the paths it describes: names stand
  for themselves, a double star for any run of parts without a dot name, one trailing slash of the
  path is ignored.  This goes through the whole compilation, from the string to the answer.\<close>

theorem Match_star_pattern:
  assumes "star_pattern opts pattern" and "exact_options opts"
  shows "Match env pattern path opts =
    Some (path_matches (isDotPart opts) (splitSlashes path) (splitSlashes pattern))"
proof -
  have "\<forall>p \<in> set (splitSlashes pattern). p = ''**'' \<or> plain_name p"
    using assms(1) by (simp add: star_pattern_def list_all_iff)
  moreover have "matchOne opts env parts row = row_matches opts env parts row" for parts row
    using matchOneFrom_row [of 0 parts 0 row opts env "[]"] assms(2)
    by (simp add: matchOne_def exact_options_def row_result_def table_or_nil_def)
  ultimately show ?thesis
    using assms(2) by (simp add: Match_def New_star [OF assms] Matcher_Match_def exact_options_def row_matches_path)
qed

definition sample_glob_options :: glob_options where
  "sample_glob_options = \<lparr>PreserveWhitespace = True, Dot = False, NoBrace = False, NoGlobStar = False, NoExt = False,
     NoCase = False, NoNegate = False, NoComment = False, NoNull = False, MatchBase = False, FlipNegate = False, Partial = False\<rparr>"

definition sample_glob_env :: glob_env where
  "sample_glob_env = \<lparr>IsValidRegexLiteral = (\<lambda>s. True), CaseClass = (\<lambda>c. None), CaseCloseClass = (\<lambda>s. s),
     Canonicalize = (\<lambda>c. c), regexp_Compile = (\<lambda>s. True), regexp_Match = (\<lambda>s rs. None), expandSequence = (\<lambda>n alpha. [])\<rparr>"

theorem Match_star_pattern_witness:
  "Match sample_glob_env ''src/**/a.ts'' ''src/x/y/a.ts'' sample_glob_options = Some True \<and>
   Match sample_glob_env ''src/**/a.ts'' ''src/.x/a.ts'' sample_glob_options = Some False"
proof -
  have "list_all (\<lambda>p. p = ''**'' \<or> plain_name p) (splitSlashes ''src/**/a.ts'')" by code_simp
  then have s: "star_pattern sample_glob_options ''src/**/a.ts''" "exact_options sample_glob_options"
    by (simp_all add: star_pattern_def exact_options_def sample_glob_options_def maxPatternLength_def has_prefix_def)
  have "path_matches (isDotPart sample_glob_options) (splitSlashes ''src/x/y/a.ts'') (splitSlashes ''src/**/a.ts'')"
    "\<not> path_matches (isDotPart sample_glob_options) (splitSlashes ''src/.x/a.ts'') (splitSlashes ''src/**/a.ts'')"
    by code_simp+
  then show ?thesis using Match_star_pattern [OF s] by simp
qed

end
