(* ===== verification/Ignore_Matcher.thy ===== *)
theory Ignore_Matcher
  imports Gitignore Minimatch
begin

text \<open>
  \<^verbatim>\<open>internal/utils/gitignore/matcher.go\<close>: ordered ignore patterns compiled with \<^verbatim>\<open>minimatch3\<close>, decided
  node by node along the path.  The parser of a line is the one of \<open>Gitignore\<close>; a nil matcher matches
  nothing and is not represented.
\<close>

section \<open>Compiling the rules\<close>

record compiledPattern =
  cp_match :: Matcher
  cp_negated :: bool
  cp_directoryOnly :: bool

type_synonym ignore_matcher = "compiledPattern list"

definition utf8_bom :: string where
  "utf8_bom = [char_of (0xEF :: nat), char_of (0xBB :: nat), char_of (0xBF :: nat)]"

definition normalizeIgnorePattern :: "string \<Rightarrow> string option" where
  "normalizeIgnorePattern line0 =
     (let line = trimUnescapedTrailingWhitespace (trim_prefix line0 utf8_bom) '' ''
      in if line = [] \<or> has_prefix line ''#''
            \<or> has_suffix line bs \<and> \<not> has_suffix line (bs @ bs) \<or> str_index line ''//'' \<noteq> None
         then None else Some line)"

definition ignore_options :: "bool \<Rightarrow> glob_options" where
  "ignore_options useCaseSensitive =
     \<lparr>PreserveWhitespace = True, Dot = True, NoBrace = True, NoGlobStar = False, NoExt = True,
      NoCase = \<not> useCaseSensitive, NoNegate = True, NoComment = True, NoNull = False, MatchBase = False,
      FlipNegate = False, Partial = False\<rparr>"

text \<open>One line: \<^term>\<open>None\<close> when it is no rule.\<close>

definition compile_line :: "glob_env \<Rightarrow> string \<Rightarrow> bool \<Rightarrow> string \<Rightarrow> compiledPattern option" where
  "compile_line env baseDir useCaseSensitive line0 =
     (case normalizeIgnorePattern line0 of
        None \<Rightarrow> None
      | Some line \<Rightarrow>
          (case parsePattern line baseDir (\<lambda>pattern. pattern) of
             None \<Rightarrow> None
           | Some pattern \<Rightarrow>
               let glob = (if ContentsOnly pattern then NodeGlob pattern @ ''/*'' else NodeGlob pattern)
               in map_option (\<lambda>m. \<lparr>cp_match = m, cp_negated = gpNegated pattern, cp_directoryOnly = DirectoryOnly pattern\<rparr>)
                    (New env glob (ignore_options useCaseSensitive))))"

definition appendPatterns :: "glob_env \<Rightarrow> ignore_matcher \<Rightarrow> string list \<Rightarrow> string \<Rightarrow> bool \<Rightarrow> ignore_matcher" where
  "appendPatterns env matcher patterns baseDir useCaseSensitive =
     matcher @ List.map_filter (compile_line env baseDir useCaseSensitive) patterns"

definition NewMatcher :: "glob_env \<Rightarrow> string list \<Rightarrow> bool \<Rightarrow> ignore_matcher" where
  "NewMatcher env patterns useCaseSensitive = appendPatterns env [] patterns [] useCaseSensitive"

record TextSource =
  ts_BaseDir :: string
  ts_Text :: string

definition text_lines :: "string \<Rightarrow> string list" where
  "text_lines content = map (\<lambda>line. trim_suffix line [CHR 0x0D]) (str_split (CHR 0x0A) content)"

definition NewMatcherFromTextSources :: "glob_env \<Rightarrow> TextSource list \<Rightarrow> bool \<Rightarrow> ignore_matcher" where
  "NewMatcherFromTextSources env sources useCaseSensitive =
     foldl (\<lambda>matcher source. appendPatterns env matcher (text_lines (ts_Text source)) (ts_BaseDir source) useCaseSensitive)
       [] sources"

definition NewMatcherFromText :: "glob_env \<Rightarrow> string \<Rightarrow> bool \<Rightarrow> ignore_matcher" where
  "NewMatcherFromText env content useCaseSensitive =
     NewMatcherFromTextSources env [\<lparr>ts_BaseDir = [], ts_Text = content\<rparr>] useCaseSensitive"

section \<open>Matching a path\<close>

definition rule_step :: "glob_env \<Rightarrow> string \<Rightarrow> bool \<Rightarrow> bool \<Rightarrow> compiledPattern \<Rightarrow> bool" where
  "rule_step env named isDirectory ignored pattern =
     (if cp_negated pattern \<noteq> ignored then ignored
      else if cp_directoryOnly pattern \<and> \<not> isDirectory then ignored
      else if Matcher_Match env (cp_match pattern) named then \<not> cp_negated pattern
      else ignored)"

text \<open>The loop over the parts; \<open>stop\<close> is the end of the prefix \<open>path[:end]\<close> seen so far.\<close>

fun node_loop :: "glob_env \<Rightarrow> ignore_matcher \<Rightarrow> string \<Rightarrow> bool \<Rightarrow> nat \<Rightarrow> string list \<Rightarrow> bool" where
  "node_loop env matcher path directory stop [] = False"
| "node_loop env matcher path directory stop (part # parts) =
     (let stop1 = stop + length part;
          isDirectory = (parts \<noteq> [] \<or> directory)
      in if foldl (rule_step env (take stop1 path) isDirectory) False matcher then True
         else node_loop env matcher path directory (stop1 + 1) parts)"

definition ignore_Match :: "glob_env \<Rightarrow> ignore_matcher \<Rightarrow> string \<Rightarrow> bool" where
  "ignore_Match env matcher path =
     (if path = [] \<or> has_prefix path ''/'' then False
      else let directory = has_suffix path ''/'';
               parts = str_split CHR ''/'' (trim_suffix path ''/'')
           in if list_ex (\<lambda>part. part = [] \<or> part = ''.'' \<or> part = ''..'') parts then False
              else node_loop env matcher path directory 0 parts)"

section \<open>The last rule that applies decides\<close>

definition rule_applies :: "glob_env \<Rightarrow> string \<Rightarrow> bool \<Rightarrow> compiledPattern \<Rightarrow> bool" where
  "rule_applies env named isDirectory pattern =
     ((cp_directoryOnly pattern \<longrightarrow> isDirectory) \<and> Matcher_Match env (cp_match pattern) named)"

definition node_ignored :: "glob_env \<Rightarrow> ignore_matcher \<Rightarrow> string \<Rightarrow> bool \<Rightarrow> bool" where
  "node_ignored env matcher named isDirectory =
     (case filter (rule_applies env named isDirectory) matcher of
        [] \<Rightarrow> False
      | r # rs \<Rightarrow> \<not> cp_negated (last (r # rs)))"

text \<open>The nodes of a path: every prefix of its parts, directories all but the last.\<close>

definition path_nodes :: "string list \<Rightarrow> bool \<Rightarrow> (string \<times> bool) list" where
  "path_nodes parts directory =
     map (\<lambda>k. (str_join ''/'' (take (Suc k) parts), Suc k < length parts \<or> directory)) [0..<length parts]"

lemma rule_step_applies:
  "rule_step env named isDirectory ignored p =
     (if rule_applies env named isDirectory p then \<not> cp_negated p else ignored)"
  by (auto simp: rule_step_def rule_applies_def)

lemma foldl_rule_step:
  "foldl (rule_step env named isDirectory) False matcher = node_ignored env matcher named isDirectory"
proof (induction matcher rule: rev_induct)
  case (snoc p matcher)
  then show ?case
    by (auto simp: rule_step_applies node_ignored_def split: list.splits)
qed (simp add: node_ignored_def)

fun nodes_from :: "string \<Rightarrow> string list \<Rightarrow> bool \<Rightarrow> (string \<times> bool) list" where
  "nodes_from base [] directory = []"
| "nodes_from base (part # parts) directory =
     (base @ part, parts \<noteq> [] \<or> directory) # nodes_from (base @ part @ ''/'') parts directory"

lemma nodes_from_eq:
  "nodes_from base parts directory =
     map (\<lambda>k. (base @ str_join ''/'' (take (Suc k) parts), Suc k < length parts \<or> directory)) [0..<length parts]"
proof (induction parts arbitrary: base)
  case (Cons part parts)
  have "str_join ''/'' (take (Suc (Suc k)) (part # parts)) = part @ ''/'' @ str_join ''/'' (take (Suc k) parts)"
    if "k < length parts" for k
    using that by (cases parts) simp_all
  then have "map (\<lambda>k. (base @ str_join ''/'' (take (Suc k) (part # parts)), Suc k < length (part # parts) \<or> directory))
        (map Suc [0..<length parts]) = nodes_from (base @ part @ ''/'') parts directory"
    by (auto simp: Cons.IH)
  moreover have "[0..<length (part # parts)] = 0 # map Suc [0..<length parts]"
    by (simp add: map_Suc_upt upt_conv_Cons del: upt_Suc)
  ultimately show ?case by simp
qed simp

lemma node_loop_nodes:
  assumes "path = base @ str_join ''/'' parts @ tail"
  shows "node_loop env matcher path directory (length base) parts =
    list_ex (\<lambda>(named, isDirectory). node_ignored env matcher named isDirectory) (nodes_from base parts directory)"
  using assms
proof (induction parts arbitrary: base)
  case (Cons part parts)
  have "take (length base + length part) path = base @ part"
    using Cons.prems by (cases parts) simp_all
  moreover have "node_loop env matcher path directory (length (base @ part @ ''/'')) parts =
      list_ex (\<lambda>(named, isDirectory). node_ignored env matcher named isDirectory) (nodes_from (base @ part @ ''/'') parts directory)"
    if "parts \<noteq> []"
    using that Cons.prems by (intro Cons.IH) (simp add: str_join_Cons)
  ultimately show ?case by (cases "parts = []") (simp_all add: foldl_rule_step Let_def)
qed simp

lemma trim_suffix_split: "\<exists>tail. s = trim_suffix s p @ tail"
proof (cases "has_suffix s p")
  case True
  then show ?thesis by (auto simp: has_suffix_iff)
qed (simp add: trim_suffix_def)

definition relative_path :: "string \<Rightarrow> bool" where
  "relative_path path =
     (path \<noteq> [] \<and> \<not> has_prefix path ''/''
      \<and> list_all (\<lambda>part. part \<noteq> [] \<and> part \<noteq> ''.'' \<and> part \<noteq> ''..'') (str_split CHR ''/'' (trim_suffix path ''/'')))"

text \<open>Claim C15.  A path is ignored exactly when it is a proper relative path and one of its nodes, from
  the outermost directory to the path itself, is decided against it by the last rule that applies to
  that node; so a rule that re-includes a file cannot reach below an ignored directory, and rules
  skipped because they would not change the decision change nothing.\<close>

theorem ignore_Match_nodes:
  "ignore_Match env matcher path \<longleftrightarrow>
     relative_path path \<and>
     (\<exists>(named, isDirectory) \<in> set (path_nodes (str_split CHR ''/'' (trim_suffix path ''/'')) (has_suffix path ''/'')).
        node_ignored env matcher named isDirectory)"
proof (cases "relative_path path")
  case False
  then show ?thesis by (auto simp: ignore_Match_def relative_path_def Let_def list_all_iff list_ex_iff)
next
  case True
  let ?parts = "str_split CHR ''/'' (trim_suffix path ''/'')"
  obtain tail where "path = trim_suffix path ''/'' @ tail" using trim_suffix_split by blast
  then have "path = [] @ str_join ''/'' ?parts @ tail" by (simp add: str_join_split)
  from node_loop_nodes [OF this, of env matcher "has_suffix path ''/''"]
  have "node_loop env matcher path (has_suffix path ''/'') 0 ?parts =
      list_ex (\<lambda>(named, isDirectory). node_ignored env matcher named isDirectory) (path_nodes ?parts (has_suffix path ''/''))"
    by (simp add: path_nodes_def nodes_from_eq)
  then show ?thesis
    using True by (auto simp: ignore_Match_def relative_path_def Let_def list_all_iff list_ex_iff)
qed

text \<open>The compiled rules of several ignore files are the rules of their lines in order, each
  kept with the directory of its file, and compiling never fails: a line that is no rule is dropped
  and every other line yields exactly one.\<close>

theorem ignore_rules_in_order:
  "NewMatcherFromTextSources env sources useCaseSensitive =
     concat (map (\<lambda>source. List.map_filter (compile_line env (ts_BaseDir source) useCaseSensitive) (text_lines (ts_Text source)))
       sources)
   \<and> (compile_line env baseDir useCaseSensitive line = None \<longleftrightarrow>
       (case normalizeIgnorePattern line of None \<Rightarrow> True | Some l \<Rightarrow> parsePattern l baseDir (\<lambda>pattern. pattern) = None))"
proof -
  have "foldl (\<lambda>matcher source. appendPatterns env matcher (text_lines (ts_Text source)) (ts_BaseDir source) useCaseSensitive) acc sources =
      acc @ concat (map (\<lambda>source. List.map_filter (compile_line env (ts_BaseDir source) useCaseSensitive) (text_lines (ts_Text source))) sources)"
    for acc
    by (induction sources arbitrary: acc) (simp_all add: appendPatterns_def)
  moreover have "New env glob (ignore_options useCaseSensitive) \<noteq> None" for glob
    by (simp add: New_def ignore_options_def make_matcher_def braceExpand_def parseNegate_def Let_def)
  ultimately show ?thesis
    by (auto simp: NewMatcherFromTextSources_def compile_line_def Let_def split: option.splits)
qed

end
