(* ===== verification/Spec2Isabelle.thy ===== *)
theory Spec2Isabelle
  imports Pipeline_Run Report Ipc_Writers Git_Collect Ignore_Matcher
begin

text \<open>
  A verification development for rslint, the linter for JavaScript and TypeScript written in Go.

  \<^bold>\<open>The program.\<close>  A run of rslint takes a generation of programs (typescript-go source files with
  their configured rules), plans which rules run on which file, executes the native rules on the
  syntax trees and hands the rules of ESLint plugins to a Node peer in batches, collects the
  diagnostics and their edits, and, when asked to fix, applies the edits in memory, observes the new
  texts again for at most ten rounds and commits the net change of every file once.  A rule reports
  through a context that drops what a comment of the file suppresses.  The process
  talks to its Node peer through length-prefixed frames.

  \<^bold>\<open>Theories and sources\<close> (paths under \<^verbatim>\<open>src/internal\<close>).

  \<^item> \<^verbatim>\<open>Prelude\<close>: the parts of Go's library used everywhere (strings, slicing with panics, sorting), the lemma
    collections, and the locale \<open>func_sorter\<close>, the contract of \<^verbatim>\<open>slices.SortFunc\<close>.
  \<^item> \<^verbatim>\<open>Diagnostic\<close>: \<^verbatim>\<open>rule/diagnostic.go\<close>, \<^verbatim>\<open>rule/rule.go\<close>; the locale \<open>lint_message\<close> is the interface
    the fixer uses, interpreted for diagnostics and for suggestions.
  \<^item> \<^verbatim>\<open>Fixer\<close>: \<^verbatim>\<open>linter/source_code_fixer.go\<close>, \<^verbatim>\<open>utils/source_bom.go\<close>.  The one-pass application of edits equals a
    reference that replaces them one at a time from the back; accepted edits are disjoint.
  \<^item> \<^verbatim>\<open>Fix_Plan\<close>: \<^verbatim>\<open>linter/pipeline_fix.go\<close>, \<^verbatim>\<open>pipeline_fix_text.go\<close>, \<^verbatim>\<open>diagnostic_order.go\<close>.
  \<^item> \<^verbatim>\<open>Autofix_State\<close>: \<^verbatim>\<open>linter/pipeline_autofix_state.go\<close>.  The locale \<open>source_memory\<close> is its contract: an
    overlay of texts whose final changes are the net effect of all rounds.
  \<^item> \<^verbatim>\<open>Language\<close>: \<^verbatim>\<open>rule/language_options.go\<close>, \<^verbatim>\<open>language_defaults.go\<close>, \<^verbatim>\<open>globals.go\<close>, \<^verbatim>\<open>configured.go\<close>,
    \<^verbatim>\<open>catalog.go\<close>, \<^verbatim>\<open>utils/global_access.go\<close>.
  \<^item> \<^verbatim>\<open>Lint_Plan\<close>: \<^verbatim>\<open>linter/lint_plan.go\<close>, \<^verbatim>\<open>linter.go\<close>, \<^verbatim>\<open>typecheck.go\<close>, \<^verbatim>\<open>typescript_diagnostics.go\<close>: planning
    sequentially and by workers, sharding, type-check diagnostics.
  \<^item> \<^verbatim>\<open>Plugin\<close>: \<^verbatim>\<open>linter/eslint_plugin.go\<close>, \<^verbatim>\<open>text_source_file.go\<close>: batches, requests, rebuilt diagnostics.
  \<^item> \<^verbatim>\<open>Pipeline_Types\<close>, \<^verbatim>\<open>Observation\<close>, \<^verbatim>\<open>Pipeline\<close>, \<^verbatim>\<open>Pipeline_Run\<close>: \<^verbatim>\<open>linter/pipeline*.go\<close>, from the contract and
    the results through one observation to whole runs of \<open>RunPipeline\<close>.  What leaves the pipeline
    (acquiring and releasing a generation, plugin calls, the commit, the presenter) is an event of a trace.
  \<^item> \<^verbatim>\<open>Text\<close>: bytes, UTF-8 decoding and white space, \<^verbatim>\<open>utils/ecmascript/whitespace.go\<close>.
  \<^item> \<^verbatim>\<open>Directives\<close>: \<^verbatim>\<open>rule/comment_store.go\<close>, \<^verbatim>\<open>rule/disable_manager.go\<close>.  The locale \<open>suppression\<close> is what
    reporting relies on; it is interpreted on the lazily parsed manager.
  \<^item> \<^verbatim>\<open>Inline\<close>: \<^verbatim>\<open>rule/directive_comment.go\<close>, \<^verbatim>\<open>inline_globals.go\<close>, \<^verbatim>\<open>inline_exported.go\<close>, \<^verbatim>\<open>exported.go\<close>.
  \<^item> \<^verbatim>\<open>Report\<close>: \<^verbatim>\<open>rule/context.go\<close>: binding a context and every report function.
  \<^item> \<^verbatim>\<open>Ipc_Frame\<close>, \<^verbatim>\<open>Ipc_Channel\<close>: \<^verbatim>\<open>ipc/frame.go\<close> and \<^verbatim>\<open>ipc/channel.go\<close>: frames, and the request channel as a step
    relation whose steps are cut at the mutexes of the code; a write is one step there.
  \<^item> \<^verbatim>\<open>Ipc_Writers\<close>: \<open>writeFrameTracked\<close> of \<^verbatim>\<open>ipc/channel.go\<close> at the grain of its locks and of the calls of the writer, with
    any number of writers and with closes between any two of their turns.
  \<^item> \<^verbatim>\<open>Ignore\<close>: \<^verbatim>\<open>config/ignore_pattern.go\<close>: ignore patterns, collected Git rules, directory blocks and pruning.
  \<^item> \<^verbatim>\<open>Config_Match\<close>: \<^verbatim>\<open>config/config.go\<close>, \<^verbatim>\<open>config_resolution.go\<close>, \<^verbatim>\<open>lint_file_policy.go\<close>, \<^verbatim>\<open>resolution_cache.go\<close>: which entries
    of a flat configuration apply to a file.  The locale \<open>index_set\<close> is the contract of the key that carries them.
  \<^item> \<^verbatim>\<open>Config_Value\<close>: the values of a configuration in \<^verbatim>\<open>config/config.go\<close>, \<^verbatim>\<open>plugin_declarations.go\<close>, \<^verbatim>\<open>cli_rules.go\<close>.
  \<^item> \<^verbatim>\<open>Config_Merge\<close>: \<^verbatim>\<open>config/config_resolution.go\<close>, \<^verbatim>\<open>config.go\<close>, \<^verbatim>\<open>rule_resolution.go\<close>, \<^verbatim>\<open>eslint_plugin.go\<close>: merging the
    entries of a file and resolving them to the configured rules that the lint plan takes.
  \<^item> \<^verbatim>\<open>Path_Space\<close>: \<^verbatim>\<open>config/path_space.go\<close>, \<^verbatim>\<open>path_identity.go\<close>, \<^verbatim>\<open>path_space_snapshot.go\<close>, \<^verbatim>\<open>utils/path_identity.go\<close>: the
    coordinates of a path in a directory that may be reached through links, and snapshots of them.
  \<^item> \<^verbatim>\<open>Target\<close>: \<^verbatim>\<open>config/config_target_resolver.go\<close>, \<^verbatim>\<open>target_matcher.go\<close>: matching a file against entries with base
    directories of their own and collected Git rules.
  \<^item> \<^verbatim>\<open>File_Resolver\<close>: \<^verbatim>\<open>config/file_resolver.go\<close> and the entry points of \<^verbatim>\<open>config.go\<close>, \<^verbatim>\<open>lint_file_policy.go\<close> and
    \<^verbatim>\<open>rule_resolution.go\<close>: the cached plan of every file.
  \<^item> \<^verbatim>\<open>Gitignore\<close>: \<^verbatim>\<open>utils/gitignore/patterns.go\<close>, \<^verbatim>\<open>config/gitignore_config.go\<close>, \<^verbatim>\<open>gitignore_scope.go\<close>: the text of
    \<^verbatim>\<open>.gitignore\<close> files, and its rules as an entry of a configuration.
  \<^item> \<^verbatim>\<open>Git_Collect\<close>: \<^verbatim>\<open>config/gitignore/collector.go\<close>, \<^verbatim>\<open>gitignore_scope.go\<close>, \<^verbatim>\<open>gitignore_config.go\<close>: which \<^verbatim>\<open>.gitignore\<close>
    files of a tree are read, by a walk, along the chains of explicit files, or by a cursor.
  \<^item> \<^verbatim>\<open>Code_Units\<close>: \<^verbatim>\<open>utils/ecmascript/code_units.go\<close>: the UTF-16 code units of JavaScript strings held as bytes.
  \<^item> \<^verbatim>\<open>Braces\<close>, \<^verbatim>\<open>Minimatch\<close>: \<^verbatim>\<open>utils/minimatch3\<close>: brace expansion, the compilation of glob patterns and matching.
  \<^item> \<^verbatim>\<open>Ignore_Matcher\<close>: \<^verbatim>\<open>utils/gitignore/matcher.go\<close>: explicit ignore patterns, compiled by \<^verbatim>\<open>Minimatch\<close>.

  \<^bold>\<open>Conventions.\<close>  A Go string or byte slice is a list of characters (bytes); a map is an association list
  with distinct keys where its order matters, else a function; an \<open>error\<close> is a value of an error type that
  keeps format strings, operands and wrapped errors; a panic is \<^term>\<open>None\<close>.  Pointers that are
  compared are numbers.  Bit sets and wire lengths are words of their width; other integers
  are offsets, lengths and counters below \<open>2\<^sup>6\<^sup>3\<close> and are mathematical integers.

  \<^bold>\<open>Parameters.\<close>  What is not under \<^verbatim>\<open>src\<close> is an argument of the definitions that use it: the programs and the comment
  scanner of typescript-go, its path functions and file system, the glob matcher, the run of the native rules on one file, the plugin host, the
  ports of a request (provider, committer, presenter), \<open>encoding/json\<close>, readers and
  writers.  The sorting routine is any function with the contract of \<^verbatim>\<open>slices.SortFunc\<close>.  The hypotheses on them
  are named in the statements (for instance \<open>scanner_ok\<close>: comments lie within the text and start with their
  delimiter; \<open>carried\<close>: the codec decodes what it encoded) and every such property has a witness.

  \<^bold>\<open>What is shown.\<close>  The fixer: equivalence with its reference, disjointness, no panic, progress, and the one case that
  panics.  Runs of the pipeline: the final changes are the net effect of the rounds, a verified result was
  observed on the final texts, one commit confirms every path, at most eleven generations are acquired and each
  is released once, the order of all outside calls, and that an invalid request touches nothing.
  Planning: independence of the workers, which rules run where, every file exactly once.
  Plugins: batches, bounds of rebuilt edits, precedence of errors.  Directives and inline
  comments: the cached and short-cut parsers answer as a specification over all comments.  Reporting: what
  the consumer receives, and independence of the demand for edits.  The
  transport: frames round trip and survive truncation, requests are matched and not lost, the stream is well
  framed under every interleaving, receipts are truthful.  Configuration: Git rules decide as Git does, pruning a walk loses
  no file, the matched entries are exactly those that apply, the last word of an entry decides each rule and each path of the
  settings, validation is kept by merging, and the configured rules do not depend on the iteration order of a map.
  The target resolver and the caching resolver answer as direct matching does, whatever was asked before; snapshots of base
  directories are complete; coalesced directories are a smallest cover.  Git rules
  reach the matcher complete and in order, never block a directory for good, and the walk and the cursors read the same sources.
  Globs: brace expansion ends and computes the words of a pattern, the memoised matching of \<^verbatim>\<open>**\<close> answers as its meaning does, and a
  pattern of names and double stars matches what it describes, from the string to the answer.  Strings survive the
  trip through bytes and are ordered by code units.

  \<^bold>\<open>Bounds and termination.\<close>  Loops are structural recursions or have a measure (bytes left, rounds left).
  The autofix loop is bounded by the request's number of rounds, at most ten.  The two
  loops that go up the parents of a path take the length of the path as their number of turns; lemmas \<open>alias_ancestors_turns\<close> and
  \<open>up_path_turns\<close> of \<^verbatim>\<open>Path_Space\<close> show that more turns change nothing.  The walk over a tree takes a bound on its depth; it returns whenever the
  tree is within the bound, and a larger bound changes nothing (\<open>walk_returns\<close> and \<open>walk_stable\<close> of \<^verbatim>\<open>Git_Collect\<close>).
  The scan for a balanced pair of braces takes one turn per byte (\<open>balance_loop_bscan\<close>), brace expansion one unit of fuel per closing
  brace (\<open>expandBraces_total\<close>).

  \<^bold>\<open>Not modelled.\<close>  The rules themselves and the reference index (they walk typescript-go trees), programs, the language
  server, the API service, the inspector, output formatting, the command line, timing, option
  schemas, reading configuration files.  Next: project policies, the validation of rule options, and the discovery of
  configurations.
\<close>

end
